(* ===== verification/Prelude.thy ===== *)
theory Prelude
  imports Main "HOL-Library.Word"
begin

unbundle bit_operations_syntax

text \<open>
  Shared vocabulary of the development: names for the machine integer types of the C and C++
  sources, the collections of simplification rules the component theories extend, and the
  generic facts on words and lists that more than one component needs.
\<close>

type_synonym u8 = "8 word"
type_synonym u16 = "16 word"
type_synonym u32 = "32 word"
type_synonym u64 = "64 word"

text \<open>
  \<open>word_arith\<close> turns statements on words into statements on natural numbers;
  \<open>heap_simps\<close>, \<open>utf_simps\<close> and \<open>eh_simps\<close> are extended by the components.
\<close>

named_theorems word_arith
named_theorems heap_simps
named_theorems utf_simps
named_theorems eh_simps
named_theorems mdspan_simps

declare unat_word_ariths [word_arith] word_less_nat_alt [word_arith] word_le_nat_alt [word_arith]

section \<open>Words\<close>

lemma unat_ucast_up: "LENGTH('a::len) \<le> LENGTH('b::len) \<Longrightarrow> unat (ucast (x::'a word) :: 'b word) = unat x"
  by (simp add: unsigned_ucast_eq take_bit_nat_eq_self_iff order_less_le_trans [OF unsigned_less])

lemma unat_ucast_small:
  "unat (x::'a::len word) < 2 ^ LENGTH('b::len) \<Longrightarrow> unat (ucast x :: 'b word) = unat x"
  by (simp add: unsigned_ucast_eq take_bit_nat_eq_self_iff)

lemma unat_16_bound [simp]: "unat (x :: u16) < 65536"
  using unsigned_less [of x] by simp

lemma unat_8_bound [simp]: "unat (x :: u8) < 256"
  using unsigned_less [of x] by simp

lemma unat_32_bound [simp]: "unat (x :: u32) < 4294967296"
  using unsigned_less [of x] by simp

lemma unat_64_bound [simp]: "unat (x :: u64) < 18446744073709551616"
  using unsigned_less [of x] by simp

lemma unat_u16_of_nat: "n < 65536 \<Longrightarrow> unat (of_nat n :: u16) = n"
  by (simp add: unat_of_nat)

section \<open>Lists\<close>

lemma last_in_prefix: "xs \<noteq> [] \<Longrightarrow> last xs \<in> set (xs @ ys)"
  by simp

end
