(* ===== verification/BlockAllocator.thy ===== *)
theory BlockAllocator
  imports Prelude
begin

text \<open>
  The interface between an allocator of blocks and the code that allocates, writes and frees
  them: what a client may do, as a step relation, and the laws that make every such run safe.
\<close>

text \<open>
  \<open>client_reaches init alloc release may nodes store s L\<close>: from an initial state, allocations,
  permitted releases of live blocks and writes inside live blocks lead to the state \<open>s\<close> with the
  live blocks \<open>L\<close>.
\<close>

inductive client_reaches ::
  "('s \<Rightarrow> bool) \<Rightarrow> ('s \<Rightarrow> u64 \<Rightarrow> ('s \<times> nat option) option) \<Rightarrow> ('s \<Rightarrow> nat \<Rightarrow> 's option) \<Rightarrow>
   ('s \<Rightarrow> nat \<Rightarrow> bool) \<Rightarrow> ('s \<Rightarrow> nat \<Rightarrow> nat set) \<Rightarrow> ('s \<Rightarrow> nat \<Rightarrow> 'v \<Rightarrow> 's) \<Rightarrow> 's \<Rightarrow> nat set \<Rightarrow> bool"
  for init alloc release may nodes store where
  start: "init s \<Longrightarrow> client_reaches init alloc release may nodes store s {}"
| alloc: "client_reaches init alloc release may nodes store s L \<Longrightarrow> alloc s n = Some (s', Some u) \<Longrightarrow>
    client_reaches init alloc release may nodes store s' (insert u L)"
| alloc_fails: "client_reaches init alloc release may nodes store s L \<Longrightarrow>
    alloc s n = Some (s', None) \<Longrightarrow> client_reaches init alloc release may nodes store s' L"
| release: "client_reaches init alloc release may nodes store s L \<Longrightarrow> u \<in> L \<Longrightarrow> may s u \<Longrightarrow>
    release s u = Some s' \<Longrightarrow> client_reaches init alloc release may nodes store s' (L - {u})"
| store: "client_reaches init alloc release may nodes store s L \<Longrightarrow> u \<in> L \<Longrightarrow> i \<in> nodes s u \<Longrightarrow>
    client_reaches init alloc release may nodes store (store s i v) L"

locale block_allocator =
  fixes init :: "'s \<Rightarrow> bool"
    and alloc :: "'s \<Rightarrow> u64 \<Rightarrow> ('s \<times> nat option) option"
    and release :: "'s \<Rightarrow> nat \<Rightarrow> 's option"
    and may :: "'s \<Rightarrow> nat \<Rightarrow> bool"
    and nodes :: "'s \<Rightarrow> nat \<Rightarrow> nat set"
    and store :: "'s \<Rightarrow> nat \<Rightarrow> 'v \<Rightarrow> 's"
    and content :: "'s \<Rightarrow> nat \<Rightarrow> 'v"
    and inv :: "'s \<Rightarrow> nat set \<Rightarrow> bool"
  assumes init_inv: "init s \<Longrightarrow> inv s {}"
    and alloc_returns: "inv s L \<Longrightarrow> \<exists>s' r. alloc s n = Some (s', r)"
    and alloc_inv: "inv s L \<Longrightarrow> alloc s n = Some (s', Some u) \<Longrightarrow> u \<notin> L \<and> inv s' (insert u L)"
    and alloc_fails_inv: "inv s L \<Longrightarrow> alloc s n = Some (s', None) \<Longrightarrow> inv s' L"
    and alloc_keeps: "inv s L \<Longrightarrow> alloc s n = Some (s', r) \<Longrightarrow> v \<in> L \<Longrightarrow> i \<in> nodes s v \<Longrightarrow>
      content s' i = content s i"
    and release_returns: "inv s L \<Longrightarrow> u \<in> L \<Longrightarrow> may s u \<Longrightarrow> \<exists>s'. release s u = Some s'"
    and release_inv: "inv s L \<Longrightarrow> u \<in> L \<Longrightarrow> may s u \<Longrightarrow> release s u = Some s' \<Longrightarrow> inv s' (L - {u})"
    and release_keeps: "inv s L \<Longrightarrow> u \<in> L \<Longrightarrow> may s u \<Longrightarrow> release s u = Some s' \<Longrightarrow>
      v \<in> L - {u} \<Longrightarrow> i \<in> nodes s v \<Longrightarrow> content s' i = content s i"
    and store_inv: "inv s L \<Longrightarrow> u \<in> L \<Longrightarrow> i \<in> nodes s u \<Longrightarrow> inv (store s i w) L"
    and nodes_disjoint: "inv s L \<Longrightarrow> u \<in> L \<Longrightarrow> v \<in> L \<Longrightarrow> u \<noteq> v \<Longrightarrow> nodes s u \<inter> nodes s v = {}"
begin

lemma reaches_inv: "client_reaches init alloc release may nodes store s L \<Longrightarrow> inv s L"
  by (induction rule: client_reaches.induct)
    (auto intro: init_inv release_inv store_inv dest: alloc_inv alloc_fails_inv)

lemma reaches_disjoint:
  "client_reaches init alloc release may nodes store s L \<Longrightarrow> u \<in> L \<Longrightarrow> v \<in> L \<Longrightarrow> u \<noteq> v \<Longrightarrow>
   nodes s u \<inter> nodes s v = {}"
  by (rule nodes_disjoint [OF reaches_inv])

lemma reaches_alloc_fresh:
  "client_reaches init alloc release may nodes store s L \<Longrightarrow> alloc s n = Some (s', Some u) \<Longrightarrow>
   v \<in> L \<Longrightarrow> nodes s' u \<inter> nodes s' v = {}"
  using alloc_inv [OF reaches_inv] nodes_disjoint by blast

lemma reaches_alloc_returns:
  "client_reaches init alloc release may nodes store s L \<Longrightarrow> \<exists>s' r. alloc s n = Some (s', r)"
  by (rule alloc_returns [OF reaches_inv])

end

end
