(* ===== verification/FallbackMalloc.thy ===== *)
theory FallbackMalloc
  imports BlockAllocator
begin

text \<open>
  The emergency heap of libcxxabi (\<open>libcxxabi/src/fallback_malloc.cpp\<close>): a first-fit
  allocator over a static array of 512 bytes, used when \<open>malloc\<close> fails while an exception
  is being thrown.

  The array is a map from node indices (multiples of \<open>sizeof(heap_node)\<close>, four bytes) to
  nodes. A \<open>heap_node*\<close> is its index, \<open>list_end\<close> is index 128, and \<open>NULL\<close> is
  \<open>None\<close>. The loops over the free list are partial: a walk that never reaches
  \<open>list_end\<close> has the value \<open>None\<close>.
\<close>

section \<open>State and operations\<close>

record heap_node =
  next_node :: u16
  len :: u16

record heap_state =
  heap :: "nat \<Rightarrow> heap_node"
  freelist :: "nat option"
  heap_base :: u64

definition HEAP_SIZE :: u64 where
  "HEAP_SIZE = 512"

definition sizeof_heap_node :: u64 where
  "sizeof_heap_node = 4"

definition list_end :: nat where
  "list_end = unat (HEAP_SIZE div sizeof_heap_node)"

definition node_from_offset :: "u16 \<Rightarrow> nat" where
  "node_from_offset off = unat off"

text \<open>The byte distance from \<open>heap\<close>, divided by the node size and cut to 16 bits; for the null
  pointer the distance is taken from address 0.\<close>

definition offset_from_node :: "heap_state \<Rightarrow> nat option \<Rightarrow> u16" where
  "offset_from_node s ptr = (case ptr of
     Some i \<Rightarrow> of_nat i
   | None \<Rightarrow> ucast ((0 - heap_base s) div sizeof_heap_node))"

definition init_heap :: "heap_state \<Rightarrow> heap_state" where
  "init_heap s = s\<lparr>freelist := Some 0,
     heap := (heap s)(0 := \<lparr>next_node = offset_from_node s (Some list_end),
                             len = ucast (HEAP_SIZE div sizeof_heap_node)\<rparr>)\<rparr>"

definition alloc_size :: "u64 \<Rightarrow> u64" where
  "alloc_size n = (n + sizeof_heap_node - 1) div sizeof_heap_node + 1"

text \<open>\<open>p\<close> is larger than needed: shorten it and carve the block off its tail.\<close>

definition take_tail :: "heap_state \<Rightarrow> u64 \<Rightarrow> nat \<Rightarrow> heap_state \<times> nat option" where
  "take_tail s nelems p =
     (let rest = ucast (ucast (len (heap s p)) - nelems) :: u16;
          h = (heap s)(p := (heap s p)\<lparr>len := rest\<rparr>);
          q = p + unat rest
      in (s\<lparr>heap := h(q := \<lparr>next_node = 0, len = ucast nelems\<rparr>)\<rparr>, Some (q + 1)))"

text \<open>\<open>p\<close> fits exactly: unlink it from the free list.\<close>

definition take_exact :: "heap_state \<Rightarrow> nat option \<Rightarrow> nat \<Rightarrow> heap_state \<times> nat option" where
  "take_exact s prev p =
     (let s1 = (case prev of
          None \<Rightarrow> s\<lparr>freelist := Some (node_from_offset (next_node (heap s p)))\<rparr>
        | Some pr \<Rightarrow> s\<lparr>heap := (heap s)(pr := (heap s pr)\<lparr>next_node := next_node (heap s p)\<rparr>)\<rparr>)
      in (s1\<lparr>heap := (heap s1)(p := (heap s1 p)\<lparr>next_node := 0\<rparr>)\<rparr>, Some (p + 1)))"

partial_function (option) malloc_walk ::
  "heap_state \<Rightarrow> u64 \<Rightarrow> nat option \<Rightarrow> nat \<Rightarrow> (heap_state \<times> nat option) option" where
  "malloc_walk s nelems prev p =
     (if p = list_end then Some (s, None)
      else if nelems < ucast (len (heap s p)) then Some (take_tail s nelems p)
      else if ucast (len (heap s p)) = nelems then Some (take_exact s prev p)
      else malloc_walk s nelems (Some p) (node_from_offset (next_node (heap s p))))"

definition fallback_malloc :: "heap_state \<Rightarrow> u64 \<Rightarrow> (heap_state \<times> nat option) option" where
  "fallback_malloc s n =
     (let nelems = alloc_size n in
      case freelist s of
        None \<Rightarrow> malloc_walk (init_heap s) nelems None 0
      | Some p \<Rightarrow> malloc_walk s nelems None p)"

definition after :: "heap_state \<Rightarrow> nat \<Rightarrow> nat" where
  "after s p = p + unat (len (heap s p))"

text \<open>Nothing to merge with: the chunk becomes the head of the free list.\<close>

definition push_front :: "heap_state \<Rightarrow> nat \<Rightarrow> heap_state" where
  "push_front s cp =
     s\<lparr>heap := (heap s)(cp := (heap s cp)\<lparr>next_node := offset_from_node s (freelist s)\<rparr>),
       freelist := Some cp\<rparr>"

definition append_onto :: "heap_state \<Rightarrow> nat \<Rightarrow> nat \<Rightarrow> heap_state" where
  "append_onto s p cp =
     s\<lparr>heap := (heap s)(p := (heap s p)\<lparr>len := len (heap s p) + len (heap s cp)\<rparr>)\<rparr>"

text \<open>\<open>p\<close> starts where \<open>cp\<close> ends: \<open>cp\<close> swallows it. The code stores \<open>cp\<close>'s successor
  only when \<open>p\<close> was the head of the list.\<close>

definition prepend_to :: "heap_state \<Rightarrow> nat option \<Rightarrow> nat \<Rightarrow> nat \<Rightarrow> heap_state" where
  "prepend_to s prev p cp =
     (let s1 = s\<lparr>heap := (heap s)(cp := (heap s cp)\<lparr>len := len (heap s cp) + len (heap s p)\<rparr>)\<rparr>
      in case prev of
        None \<Rightarrow> s1\<lparr>freelist := Some cp,
                    heap := (heap s1)(cp := (heap s1 cp)\<lparr>next_node := next_node (heap s1 p)\<rparr>)\<rparr>
      | Some pr \<Rightarrow>
          s1\<lparr>heap := (heap s1)(pr := (heap s1 pr)\<lparr>next_node := offset_from_node s1 (Some cp)\<rparr>)\<rparr>)"

partial_function (option) free_walk ::
  "heap_state \<Rightarrow> nat \<Rightarrow> nat option \<Rightarrow> nat \<Rightarrow> heap_state option" where
  "free_walk s cp prev p =
     (if p = list_end then Some (push_front s cp)
      else if after s p = cp then Some (append_onto s p cp)
      else if after s cp = p then Some (prepend_to s prev p cp)
      else free_walk s cp (Some p) (node_from_offset (next_node (heap s p))))"

definition fallback_free :: "heap_state \<Rightarrow> nat \<Rightarrow> heap_state option" where
  "fallback_free s ptr =
     (let cp = ptr - 1 in
      case freelist s of
        None \<Rightarrow> Some (push_front s cp)
      | Some p \<Rightarrow> free_walk s cp None p)"

section \<open>The shape of the heap\<close>

text \<open>
  \<open>free_chain h p fs\<close>: following \<open>next_node\<close> from \<open>p\<close> visits the chunks \<open>fs\<close> and ends at
  \<open>list_end\<close>. \<open>tiled h cs\<close>: the chunks \<open>cs\<close> are non-empty, lie inside the array and do not
  overlap. \<open>heap_inv s fs al\<close>: the free chunks \<open>fs\<close> and the allocated chunks \<open>al\<close> tile the
  array and together fill it.
\<close>

fun free_chain :: "(nat \<Rightarrow> heap_node) \<Rightarrow> nat \<Rightarrow> nat list \<Rightarrow> bool" where
  "free_chain h p [] \<longleftrightarrow> p = list_end"
| "free_chain h p (f # fs) \<longleftrightarrow>
     p = f \<and> f < list_end \<and> free_chain h (node_from_offset (next_node (h f))) fs"

definition size_of :: "(nat \<Rightarrow> heap_node) \<Rightarrow> nat \<Rightarrow> nat" where
  "size_of h c = unat (len (h c))"

definition apart :: "(nat \<Rightarrow> heap_node) \<Rightarrow> nat \<Rightarrow> nat \<Rightarrow> bool" where
  "apart h c d \<longleftrightarrow> c + size_of h c \<le> d \<or> d + size_of h d \<le> c"

definition tiled :: "(nat \<Rightarrow> heap_node) \<Rightarrow> nat set \<Rightarrow> bool" where
  "tiled h C \<longleftrightarrow>
     (\<forall>c\<in>C. 0 < size_of h c \<and> c + size_of h c \<le> list_end) \<and>
     (\<forall>c\<in>C. \<forall>d\<in>C. c \<noteq> d \<longrightarrow> apart h c d)"

definition heap_inv :: "heap_state \<Rightarrow> nat list \<Rightarrow> nat set \<Rightarrow> bool" where
  "heap_inv s fs al \<longleftrightarrow>
     (\<exists>p. freelist s = Some p \<and> free_chain (heap s) p fs) \<and>
     distinct fs \<and> set fs \<inter> al = {} \<and> finite al \<and>
     tiled (heap s) (set fs \<union> al) \<and> (\<Sum>c\<in>set fs \<union> al. size_of (heap s) c) = list_end"

lemma list_end_val: "list_end = 128"
  by (simp add: list_end_def HEAP_SIZE_def sizeof_heap_node_def)

lemma size_of_upd_same: "size_of (h(c := n)) c = unat (len n)"
  by (simp add: size_of_def)

lemma size_of_upd_other: "c \<noteq> d \<Longrightarrow> size_of (h(d := n)) c = size_of h c"
  by (simp add: size_of_def)

lemmas size_of_upd [heap_simps] = size_of_upd_same size_of_upd_other

lemma offset_roundtrip [heap_simps]:
  "i \<le> list_end \<Longrightarrow> node_from_offset (offset_from_node s (Some i)) = i"
  by (simp add: node_from_offset_def offset_from_node_def unat_u16_of_nat list_end_val)

lemma free_chain_cong:
  "(\<And>f. f \<in> set fs \<Longrightarrow> next_node (h' f) = next_node (h f)) \<Longrightarrow>
   free_chain h' p fs = free_chain h p fs"
  by (induction fs arbitrary: p) auto

lemma free_chain_bound: "free_chain h p fs \<Longrightarrow> f \<in> set fs \<Longrightarrow> f < list_end"
  by (induction fs arbitrary: p) auto

lemma free_chain_start: "free_chain h p fs \<Longrightarrow> p \<le> list_end"
  by (cases fs) auto

text \<open>A stretch of the free list from \<open>p\<close> through the chunks \<open>xs\<close> to \<open>q\<close>.\<close>

fun seg :: "(nat \<Rightarrow> heap_node) \<Rightarrow> nat \<Rightarrow> nat list \<Rightarrow> nat \<Rightarrow> bool" where
  "seg h p [] q \<longleftrightarrow> p = q"
| "seg h p (x # xs) q \<longleftrightarrow> p = x \<and> x < list_end \<and> seg h (node_from_offset (next_node (h x))) xs q"

lemma free_chain_seg: "free_chain h p (xs @ ys) \<longleftrightarrow> (\<exists>q. seg h p xs q \<and> free_chain h q ys)"
  by (induction xs arbitrary: p) auto

lemma seg_append: "seg h p (xs @ ys) r \<longleftrightarrow> (\<exists>q. seg h p xs q \<and> seg h q ys r)"
  by (induction xs arbitrary: p) auto

lemma seg_cong:
  "(\<And>f. f \<in> set xs \<Longrightarrow> next_node (h' f) = next_node (h f)) \<Longrightarrow> seg h' p xs q = seg h p xs q"
  by (induction xs arbitrary: p) auto

lemma tiled_cong:
  "(\<And>c. c \<in> C \<Longrightarrow> size_of h' c = size_of h c) \<Longrightarrow> tiled h' C = tiled h C"
  by (auto simp: tiled_def apart_def)

lemma tiled_insert:
  "tiled h (insert c C) \<longleftrightarrow> 0 < size_of h c \<and> c + size_of h c \<le> list_end \<and>
     (\<forall>d\<in>C. c \<noteq> d \<longrightarrow> apart h c d) \<and> tiled h C"
  by (auto simp: tiled_def apart_def)

lemma tiled_apart: "tiled h C \<Longrightarrow> c \<in> C \<Longrightarrow> d \<in> C \<Longrightarrow> c \<noteq> d \<Longrightarrow> apart h c d"
  by (simp add: tiled_def)

lemma tiled_pos: "tiled h C \<Longrightarrow> c \<in> C \<Longrightarrow> 0 < size_of h c"
  by (simp add: tiled_def)

lemma unat_rest:
  fixes nelems :: u64
  shows "unat nelems < size_of h p \<Longrightarrow>
   unat (ucast (ucast (len (h p)) - nelems) :: u16) = size_of h p - unat nelems"
proof -
  assume less: "unat nelems < size_of h p"
  have up: "unat (ucast (len (h p)) :: u64) = size_of h p"
    by (simp add: size_of_def unat_ucast_up)
  with less have "unat ((ucast (len (h p)) :: u64) - nelems) = size_of h p - unat nelems"
    by (simp add: unat_sub_if')
  moreover have "size_of h p < 65536"
    by (simp add: size_of_def)
  ultimately show ?thesis
    by (subst unat_ucast_small) auto
qed

text \<open>First fit: the walk stops at the first chunk of the list that is large enough.\<close>

definition prev_of :: "nat list \<Rightarrow> nat option" where
  "prev_of fs = (if fs = [] then None else Some (last fs))"

lemma malloc_walk_first_fit:
  assumes "free_chain (heap s) p fs2"
  shows "(\<forall>f\<in>set fs2. size_of (heap s) f < unat nelems) \<and>
           malloc_walk s nelems (prev_of fs1) p = Some (s, None) \<or>
         (\<exists>gs f hs. fs2 = gs @ f # hs \<and> (\<forall>g\<in>set gs. size_of (heap s) g < unat nelems) \<and>
            unat nelems \<le> size_of (heap s) f \<and>
            malloc_walk s nelems (prev_of fs1) p =
              Some (if unat nelems < size_of (heap s) f then take_tail s nelems f
                    else take_exact s (prev_of (fs1 @ gs)) f))"
  using assms
proof (induction fs2 arbitrary: fs1 p)
  case Nil
  then show ?case by (subst malloc_walk.simps) simp
next
  case (Cons f fs2)
  then have p: "p = f" and f: "f < list_end"
    and chain: "free_chain (heap s) (node_from_offset (next_node (heap s f))) fs2" by auto
  have less: "nelems < ucast (len (heap s f)) \<longleftrightarrow> unat nelems < size_of (heap s) f"
    by (simp add: word_less_nat_alt size_of_def unat_ucast_up)
  have eq: "ucast (len (heap s f)) = nelems \<longleftrightarrow> size_of (heap s) f = unat nelems"
    by (simp add: word_unat_eq_iff size_of_def unat_ucast_up)
  show ?case
  proof (cases "unat nelems \<le> size_of (heap s) f")
    case True
    have "malloc_walk s nelems (prev_of fs1) p =
      Some (if unat nelems < size_of (heap s) f then take_tail s nelems f
            else take_exact s (prev_of (fs1 @ [])) f)"
      using True p f by (simp add: malloc_walk.simps [of _ _ _ f] less eq)
    with True show ?thesis
      by (intro disjI2 exI [of _ "[]"] exI [of _ f] exI [of _ fs2]) simp
  next
    case False
    have step: "malloc_walk s nelems (prev_of fs1) p =
        malloc_walk s nelems (prev_of (fs1 @ [f])) (node_from_offset (next_node (heap s f)))"
      using False p f by (simp add: malloc_walk.simps [of _ _ _ f] less eq prev_of_def)
    from Cons.IH [OF chain, of "fs1 @ [f]"] show ?thesis
    proof (elim disjE exE conjE)
      fix gs g hs
      assume "fs2 = gs @ g # hs" "\<forall>g\<in>set gs. size_of (heap s) g < unat nelems"
        "unat nelems \<le> size_of (heap s) g"
        "malloc_walk s nelems (prev_of (fs1 @ [f])) (node_from_offset (next_node (heap s f))) =
           Some (if unat nelems < size_of (heap s) g then take_tail s nelems g
                 else take_exact s (prev_of ((fs1 @ [f]) @ gs)) g)"
      with False step show ?thesis
        by (intro disjI2 exI [of _ "f # gs"] exI [of _ g] exI [of _ hs]) auto
    qed (use False step in auto)
  qed
qed

text \<open>What an allocation leaves behind: the invariant with the block added, the block's size, and
  the nodes of every other live block as they were.\<close>

definition live_nodes :: "(nat \<Rightarrow> heap_node) \<Rightarrow> nat set \<Rightarrow> nat set" where
  "live_nodes h al = (\<Union>c\<in>al. {c..<c + size_of h c})"

lemma apart_not_inside:
  "tiled h C \<Longrightarrow> c \<in> C \<Longrightarrow> d \<in> C \<Longrightarrow> c \<noteq> d \<Longrightarrow> i < d + size_of h d \<Longrightarrow> d \<le> i \<Longrightarrow>
   i < c \<or> c + size_of h c \<le> i"
  using tiled_apart [of h C c d] by (auto simp: apart_def)

lemma take_tail_inv:
  assumes inv: "heap_inv s fs al" and f: "f \<in> set fs" and pos: "0 < unat nelems"
    and fit: "unat nelems < size_of (heap s) f"
  defines "c \<equiv> f + (size_of (heap s) f - unat nelems)"
  shows "\<exists>s'. take_tail s nelems f = (s', Some (c + 1)) \<and> heap_inv s' fs (insert c al) \<and>
    c \<notin> al \<and> size_of (heap s') c = unat nelems \<and> next_node (heap s' c) = 0 \<and>
    (\<forall>i\<in>live_nodes (heap s) al. heap s' i = heap s i)"
proof -
  let ?h = "heap s" and ?C = "set fs \<union> al" and ?r = "size_of (heap s) f - unat nelems"
  let ?h' = "(?h(f := (?h f)\<lparr>len := ucast (ucast (len (?h f)) - nelems)\<rparr>))
              (c := \<lparr>next_node = 0, len = ucast nelems\<rparr>)"
  let ?s' = "s\<lparr>heap := ?h'\<rparr>"
  from inv obtain p where tiled: "tiled ?h ?C" and chain: "freelist s = Some p" "free_chain ?h p fs"
    and disj: "distinct fs" "set fs \<inter> al = {}" "finite al"
    and total: "(\<Sum>c\<in>?C. size_of ?h c) = list_end"
    by (auto simp: heap_inv_def)
  have fC: "f \<in> ?C" using f by simp
  have c: "f < c" "c < f + size_of ?h f" "c + unat nelems = f + size_of ?h f"
    using pos fit by (auto simp: c_def)
  have cC: "c \<notin> ?C"
    using apart_not_inside [OF tiled fC, of c c] tiled_pos [OF tiled, of c] c by auto
  have tail: "take_tail s nelems f = (?s', Some (c + 1))"
    using fit by (simp add: take_tail_def unat_rest c_def Let_def)
  have szf: "size_of ?h' f = ?r" using c fit
    by (simp add: heap_simps unat_rest)
  have "unat nelems < 65536" using fit by (simp add: size_of_def order_less_trans)
  then have szc: "size_of ?h' c = unat nelems"
    by (simp add: heap_simps unat_ucast_small)
  have szo: "size_of ?h' d = size_of ?h d" if "d \<in> ?C - {f}" for d
    using that cC by (auto simp: size_of_def)
  have tiledR: "tiled ?h' (?C - {f})"
    using tiled by (subst tiled_cong [of _ _ ?h]) (use szo in \<open>auto simp: tiled_def\<close>)
  have apartR: "apart ?h' f d \<and> apart ?h' c d" if "d \<in> ?C - {f}" for d
    using tiled_apart [OF tiled fC, of d] that szo [OF that] szf szc c by (auto simp: apart_def)
  have bound: "f + size_of ?h f \<le> list_end" using tiled fC by (auto simp: tiled_def)
  have "tiled ?h' (insert f (insert c (?C - {f})))"
    using tiledR apartR szf szc c bound pos fit
    by (simp add: tiled_insert apart_def del: fun_upd_apply) linarith
  moreover have "insert f (insert c (?C - {f})) = set fs \<union> insert c al" using f by auto
  ultimately have tiled': "tiled ?h' (set fs \<union> insert c al)" by simp
  have "(\<Sum>d\<in>insert c ?C. size_of ?h' d) = unat nelems + (?r + (\<Sum>d\<in>?C - {f}. size_of ?h' d))"
    using cC fC szc szf disj by (simp add: sum.remove [of ?C f] del: fun_upd_apply)
  also have "\<dots> = size_of ?h f + (\<Sum>d\<in>?C - {f}. size_of ?h d)"
    using fit sum.cong [OF refl szo, of "?C - {f}"] by (simp del: fun_upd_apply)
  also have "\<dots> = list_end" using total fC disj by (simp add: sum.remove [of ?C f])
  finally have total': "(\<Sum>d\<in>set fs \<union> insert c al. size_of ?h' d) = list_end" by simp
  have chain': "free_chain ?h' p fs"
    using chain(2) cC by (subst free_chain_cong [of _ _ ?h]) auto
  have "heap_inv ?s' fs (insert c al)"
    using chain chain' disj cC tiled' total' by (auto simp: heap_inv_def)
  moreover have "?h' i = ?h i" if "i \<in> live_nodes ?h al" for i
  proof -
    from that obtain d where d: "d \<in> al" "d \<le> i" "i < d + size_of ?h d"
      by (auto simp: live_nodes_def)
    then have "i < f \<or> f + size_of ?h f \<le> i"
      using apart_not_inside [OF tiled fC, of d i] disj f by auto
    with c show ?thesis by auto
  qed
  ultimately show ?thesis using tail cC szc by auto
qed

text \<open>Unlinking \<open>f\<close> joins the list before it to the list after it.\<close>

lemma size_of_next_node [heap_simps]: "size_of (h(c := (h c)\<lparr>next_node := n\<rparr>)) d = size_of h d"
  by (simp add: size_of_def)

lemma free_chain_skip:
  assumes "free_chain h p (gs @ g # f # hs)" "distinct (gs @ g # f # hs)"
  shows "free_chain (h(g := (h g)\<lparr>next_node := next_node (h f)\<rparr>)) p (gs @ g # hs)"
proof -
  let ?h = "h(g := (h g)\<lparr>next_node := next_node (h f)\<rparr>)"
  from assms(1) obtain q where "seg h p gs q" "free_chain h q (g # f # hs)"
    by (auto simp: free_chain_seg)
  moreover have "seg ?h p gs q = seg h p gs q" using assms(2) by (intro seg_cong) auto
  moreover have "free_chain ?h r hs = free_chain h r hs" for r
    using assms(2) by (intro free_chain_cong) auto
  ultimately show ?thesis by (auto simp: free_chain_seg)
qed

lemma heap_inv_next_node:
  assumes "heap_inv s fs al" "c \<in> al"
  shows "heap_inv (s\<lparr>heap := (heap s)(c := (heap s c)\<lparr>next_node := n\<rparr>)\<rparr>) fs al"
proof -
  have "c \<notin> set fs" using assms by (auto simp: heap_inv_def)
  then have "free_chain ((heap s)(c := (heap s c)\<lparr>next_node := n\<rparr>)) p fs = free_chain (heap s) p fs" for p
    by (intro free_chain_cong) auto
  then show ?thesis
    using assms(1) by (simp add: heap_inv_def heap_simps del: fun_upd_apply cong: tiled_cong)
qed

lemma live_not_free:
  assumes "heap_inv s fs al" "i \<in> live_nodes (heap s) al"
  shows "i \<notin> set fs"
proof
  assume i: "i \<in> set fs"
  from assms have tiled: "tiled (heap s) (set fs \<union> al)" and disj: "set fs \<inter> al = {}"
    by (auto simp: heap_inv_def)
  from assms(2) obtain d where d: "d \<in> al" "d \<le> i" "i < d + size_of (heap s) d"
    by (auto simp: live_nodes_def)
  from i d disj have "i \<noteq> d" by auto
  with tiled_apart [OF tiled, of d i] i d tiled_pos [OF tiled, of i] show False
    by (auto simp: apart_def)
qed

lemma take_exact_inv:
  assumes inv: "heap_inv s (gs @ f # hs) al"
  shows "\<exists>s'. take_exact s (prev_of gs) f = (s', Some (f + 1)) \<and>
    heap_inv s' (gs @ hs) (insert f al) \<and> f \<notin> al \<and> size_of (heap s') f = size_of (heap s) f \<and>
    next_node (heap s' f) = 0 \<and>
    (\<forall>i\<in>live_nodes (heap s) al. heap s' i = heap s i)"
proof -
  from inv obtain p where chain: "freelist s = Some p" "free_chain (heap s) p (gs @ f # hs)"
    and disj: "distinct (gs @ f # hs)" "set (gs @ f # hs) \<inter> al = {}" "finite al"
    and tiled: "tiled (heap s) (set (gs @ f # hs) \<union> al)"
    and total: "(\<Sum>c\<in>set (gs @ f # hs) \<union> al. size_of (heap s) c) = list_end"
    by (auto simp: heap_inv_def)
  define s1 where "s1 = (case prev_of gs of
          None \<Rightarrow> s\<lparr>freelist := Some (node_from_offset (next_node (heap s f)))\<rparr>
        | Some pr \<Rightarrow> s\<lparr>heap := (heap s)(pr := (heap s pr)\<lparr>next_node := next_node (heap s f)\<rparr>)\<rparr>)"
  let ?s' = "s1\<lparr>heap := (heap s1)(f := (heap s1 f)\<lparr>next_node := 0\<rparr>)\<rparr>"
  have size1: "size_of (heap s1) c = size_of (heap s) c" for c
    by (simp add: s1_def heap_simps split: option.split del: fun_upd_apply)
  have "\<exists>q. freelist s1 = Some q \<and> free_chain (heap s1) q (gs @ hs)"
  proof (cases gs rule: rev_cases)
    case Nil
    with chain show ?thesis by (auto simp: s1_def prev_of_def)
  next
    case (snoc gs' g)
    with chain disj show ?thesis
      using free_chain_skip [of "heap s" p gs' g f hs] by (simp add: s1_def prev_of_def)
  qed
  moreover have same: "set (gs @ hs) \<union> insert f al = set (gs @ f # hs) \<union> al" by auto
  moreover have "tiled (heap s1) (set (gs @ f # hs) \<union> al)"
    using tiled size1 by (subst tiled_cong [of _ _ "heap s"]) auto
  ultimately have inv1: "heap_inv s1 (gs @ hs) (insert f al)"
    unfolding heap_inv_def same using disj total by (auto simp: size1)
  have "heap ?s' i = heap s i" if live: "i \<in> live_nodes (heap s) al" for i
  proof -
    from live_not_free [OF inv live] have "i \<noteq> f" "gs \<noteq> [] \<Longrightarrow> i \<noteq> last gs" by auto
    then show ?thesis
      by (auto simp: s1_def prev_of_def)
  qed
  then show ?thesis
    using heap_inv_next_node [OF inv1, of f 0] disj size1
    by (auto simp: take_exact_def s1_def [symmetric] size_of_next_node fun_upd_same simp del: fun_upd_apply)
qed

section \<open>Freeing\<close>

lemma push_front_inv:
  assumes "heap_inv s fs (insert c al)" "c \<notin> al"
  shows "heap_inv (push_front s c) (c # fs) al"
proof -
  from assms obtain p where chain: "freelist s = Some p" "free_chain (heap s) p fs"
    and disj: "distinct fs" "set fs \<inter> insert c al = {}" "finite al"
    and tiled: "tiled (heap s) (set fs \<union> insert c al)"
    and total: "(\<Sum>d\<in>set fs \<union> insert c al. size_of (heap s) d) = list_end"
    by (auto simp: heap_inv_def)
  let ?h' = "(heap s)(c := (heap s c)\<lparr>next_node := offset_from_node s (Some p)\<rparr>)"
  have p: "p \<le> list_end" using free_chain_start [OF chain(2)] .
  have "free_chain ?h' p fs"
    using chain(2) disj by (subst free_chain_cong [of _ _ "heap s"]) auto
  moreover have "c < list_end" using tiled tiled_pos [OF tiled, of c] by (auto simp: tiled_def)
  ultimately have "free_chain ?h' c (c # fs)" using p by (simp add: offset_roundtrip)
  moreover have same: "set (c # fs) \<union> al = set fs \<union> insert c al" by auto
  moreover have "tiled ?h' (set fs \<union> insert c al)"
    using tiled by (subst tiled_cong [of _ _ "heap s"]) (auto simp: size_of_next_node)
  ultimately show ?thesis
    unfolding heap_inv_def same using chain disj assms(2) total
    by (simp add: push_front_def size_of_next_node del: fun_upd_apply)
qed

text \<open>Merging two neighbours: the sum of their lengths still fits the 16-bit length field.\<close>

lemma size_merge:
  assumes "tiled h C" "c \<in> C" "d \<in> C" "c + size_of h c = d"
  shows "unat (len (h c) + len (h d)) = size_of h c + size_of h d"
proof -
  from assms have "d + size_of h d \<le> list_end" by (auto simp: tiled_def)
  with assms(4) have "size_of h c + size_of h d < 65536" by (simp add: list_end_val)
  then show ?thesis by (simp add: size_of_def unat_word_ariths)
qed

lemma tiled_merge:
  assumes tiled: "tiled h (insert c (insert d C))" and ne: "c \<notin> C" "d \<notin> C" "c \<noteq> d"
    and adj: "c + size_of h c = d" and fin: "finite C"
    and same: "\<And>e. e \<in> C \<Longrightarrow> size_of h' e = size_of h e"
    and merged: "size_of h' c = size_of h c + size_of h d"
  shows "tiled h' (insert c C)"
    and "(\<Sum>e\<in>insert c C. size_of h' e) = (\<Sum>e\<in>insert c (insert d C). size_of h e)"
proof -
  have "tiled h' C" using tiled by (subst tiled_cong [of _ _ h]) (auto simp: same tiled_def)
  moreover have "apart h' c e" if "e \<in> C" for e
  proof -
    have "e \<noteq> c" "e \<noteq> d" using that ne by auto
    then have "apart h c e" "apart h d e" using tiled that by (auto simp: tiled_def)
    then show ?thesis
      using same [OF that] merged tiled_pos [OF tiled, of e] that adj by (auto simp: apart_def)
  qed
  ultimately show "tiled h' (insert c C)"
    using tiled merged adj by (auto simp: tiled_insert)
  show "(\<Sum>e\<in>insert c C. size_of h' e) = (\<Sum>e\<in>insert c (insert d C). size_of h e)"
    using ne fin merged sum.cong [OF refl same, of C] by simp
qed

lemma append_onto_inv:
  assumes inv: "heap_inv s fs (insert c al)" "c \<notin> al" and f: "f \<in> set fs" and adj: "after s f = c"
  shows "heap_inv (append_onto s f c) fs al"
proof -
  from inv obtain p where chain: "freelist s = Some p" "free_chain (heap s) p fs"
    and disj: "distinct fs" "set fs \<inter> insert c al = {}" "finite al"
    and tiled: "tiled (heap s) (set fs \<union> insert c al)"
    and total: "(\<Sum>d\<in>set fs \<union> insert c al. size_of (heap s) d) = list_end"
    by (auto simp: heap_inv_def)
  let ?C = "(set fs - {f}) \<union> al"
  let ?h' = "(heap s)(f := (heap s f)\<lparr>len := len (heap s f) + len (heap s c)\<rparr>)"
  have all: "set fs \<union> insert c al = insert f (insert c ?C)" and C: "set fs \<union> al = insert f ?C"
    using f by auto
  have adj': "f + size_of (heap s) f = c" using adj by (simp add: after_def size_of_def)
  have "unat (len (heap s f) + len (heap s c)) = size_of (heap s) f + size_of (heap s) c"
    using size_merge [OF tiled, of f c] f adj' by simp
  then have sz: "size_of ?h' f = size_of (heap s) f + size_of (heap s) c" by (simp add: size_of_def)
  have ne: "f \<notin> ?C" "c \<notin> ?C" "f \<noteq> c" using f disj inv(2) by auto
  have rest: "size_of ?h' e = size_of (heap s) e" if "e \<in> ?C" for e
    using that ne by (auto simp: size_of_def)
  have fin: "finite ?C" using disj by simp
  note merge = tiled_merge [OF tiled [unfolded all] ne adj' fin rest sz]
  have "free_chain ?h' p fs"
    using chain(2) by (subst free_chain_cong [of _ _ "heap s"]) auto
  moreover have "set fs \<inter> al = {}" "finite al" using disj by auto
  ultimately show ?thesis
    unfolding heap_inv_def C append_onto_def
    using merge chain(1) disj(1) total [unfolded all] by (simp del: fun_upd_apply)
qed

lemma prepend_to_inv:
  assumes inv: "heap_inv s (p # fs) (insert c al)" "c \<notin> al" and adj: "after s c = p"
  shows "heap_inv (prepend_to s None p c) (c # fs) al"
proof -
  from inv have chain: "freelist s = Some p" "free_chain (heap s) p (p # fs)"
    and disj: "distinct (p # fs)" "set (p # fs) \<inter> insert c al = {}" "finite al"
    and tiled: "tiled (heap s) (set (p # fs) \<union> insert c al)"
    and total: "(\<Sum>d\<in>set (p # fs) \<union> insert c al. size_of (heap s) d) = list_end"
    by (auto simp: heap_inv_def)
  let ?C = "set fs \<union> al"
  let ?h' = "(heap s)(c := (heap s c)\<lparr>len := len (heap s c) + len (heap s p),
                                       next_node := next_node (heap s p)\<rparr>)"
  have all: "set (p # fs) \<union> insert c al = insert c (insert p ?C)"
    and C: "set (c # fs) \<union> al = insert c ?C" by auto
  have adj': "c + size_of (heap s) c = p" using adj by (simp add: after_def size_of_def)
  have "unat (len (heap s c) + len (heap s p)) = size_of (heap s) c + size_of (heap s) p"
    using size_merge [OF tiled, of c p] adj' by simp
  then have sz: "size_of ?h' c = size_of (heap s) c + size_of (heap s) p" by (simp add: size_of_def)
  have ne: "c \<notin> ?C" "p \<notin> ?C" "c \<noteq> p" and fin: "finite ?C" using disj inv(2) by auto
  have rest: "size_of ?h' e = size_of (heap s) e" if "e \<in> ?C" for e
    using that ne by (auto simp: size_of_def)
  note merge = tiled_merge [OF tiled [unfolded all] ne adj' fin rest sz]
  have "c < list_end" using tiled tiled_pos [OF tiled, of c] by (auto simp: tiled_def)
  moreover have "free_chain ?h' q fs = free_chain (heap s) q fs" for q
    using disj by (intro free_chain_cong) auto
  ultimately have "free_chain ?h' c (c # fs)" using chain(2) by simp
  moreover have "prepend_to s None p c = s\<lparr>freelist := Some c, heap := ?h'\<rparr>"
    using ne by (simp add: prepend_to_def Let_def)
  moreover have "distinct (c # fs)" "set (c # fs) \<inter> al = {}" "finite al" using disj inv(2) by auto
  ultimately show ?thesis
    unfolding heap_inv_def C using merge total [unfolded all] by (simp del: fun_upd_apply)
qed

text \<open>The walk of \<open>fallback_free\<close> ends in one of its three ways.\<close>

lemma free_walk_cases:
  assumes "free_chain (heap s) p fs2"
  shows "free_walk s c (prev_of fs1) p = Some (push_front s c) \<or>
    (\<exists>f\<in>set fs2. after s f = c \<and> free_walk s c (prev_of fs1) p = Some (append_onto s f c)) \<or>
    (\<exists>gs f hs. fs2 = gs @ f # hs \<and> after s c = f \<and> (\<forall>g\<in>set (gs @ [f]). after s g \<noteq> c) \<and>
       free_walk s c (prev_of fs1) p = Some (prepend_to s (prev_of (fs1 @ gs)) f c))"
  using assms
proof (induction fs2 arbitrary: fs1 p)
  case Nil
  then show ?case by (subst free_walk.simps) simp
next
  case (Cons f fs2)
  then have p: "p = f" "f \<noteq> list_end"
    and chain: "free_chain (heap s) (node_from_offset (next_node (heap s f))) fs2" by auto
  consider (app) "after s f = c" | (pre) "after s f \<noteq> c" "after s c = f"
    | (walk) "after s f \<noteq> c" "after s c \<noteq> f" by blast
  then show ?case
  proof cases
    case app
    with p have "free_walk s c (prev_of fs1) p = Some (append_onto s f c)"
      by (simp add: free_walk.simps [of _ _ _ f])
    with app show ?thesis by auto
  next
    case pre
    with p have "free_walk s c (prev_of fs1) p = Some (prepend_to s (prev_of (fs1 @ [])) f c)"
      by (simp add: free_walk.simps [of _ _ _ f])
    with pre show ?thesis by (intro disjI2 exI [of _ "[]"] exI [of _ f] exI [of _ fs2]) simp
  next
    case walk
    with p have step: "free_walk s c (prev_of fs1) p =
        free_walk s c (prev_of (fs1 @ [f])) (node_from_offset (next_node (heap s f)))"
      by (simp add: free_walk.simps [of _ _ _ f] prev_of_def)
    from Cons.IH [OF chain, of "fs1 @ [f]"] show ?thesis
    proof (elim disjE exE bexE conjE)
      fix gs g hs
      assume "fs2 = gs @ g # hs" "after s c = g" "\<forall>g\<in>set (gs @ [g]). after s g \<noteq> c"
        "free_walk s c (prev_of (fs1 @ [f])) (node_from_offset (next_node (heap s f))) =
          Some (prepend_to s (prev_of ((fs1 @ [f]) @ gs)) g c)"
      then show ?thesis
        using walk(1) unfolding step by (intro disjI2 exI [of _ "f # gs"] exI [of _ g] exI [of _ hs]) simp
    qed (auto simp: step)
  qed
qed

lemma free_result_live:
  assumes inv: "heap_inv s fs (insert c al)" "c \<notin> al" and i: "i \<in> live_nodes (heap s) al"
  shows "i \<notin> set fs" and "i \<noteq> c"
proof -
  have "i \<in> live_nodes (heap s) (insert c al)" using i by (auto simp: live_nodes_def)
  then show "i \<notin> set fs" using live_not_free [OF inv(1)] by blast
  from inv have tiled: "tiled (heap s) (set fs \<union> insert c al)" by (simp add: heap_inv_def)
  from i obtain d where d: "d \<in> al" "d \<le> i" "i < d + size_of (heap s) d"
    by (auto simp: live_nodes_def)
  moreover from d inv(2) have "d \<noteq> c" by auto
  ultimately show "i \<noteq> c"
    using tiled_apart [OF tiled, of d c] tiled_pos [OF tiled, of c] by (auto simp: apart_def)
qed

text \<open>\<open>cuts s gs f c\<close>: the walk for the chunk \<open>c\<close> goes along the chunks \<open>gs\<close>, none of which ends where \<open>c\<close> starts, and then
  takes the branch that merges \<open>c\<close> with \<open>f\<close> behind it, and \<open>f\<close> is not the head of the list. \<open>releasable\<close>: the walk does not
  end in this way.\<close>

definition cuts :: "heap_state \<Rightarrow> nat list \<Rightarrow> nat \<Rightarrow> nat \<Rightarrow> bool" where
  "cuts s gs f c \<longleftrightarrow> gs \<noteq> [] \<and> after s c = f \<and> (\<forall>g\<in>set (gs @ [f]). after s g \<noteq> c)"

definition releasable :: "heap_state \<Rightarrow> nat list \<Rightarrow> nat \<Rightarrow> bool" where
  "releasable s fs c \<longleftrightarrow> (\<forall>gs f hs. fs = gs @ f # hs \<longrightarrow> \<not> cuts s gs f c)"

lemma fallback_free_inv:
  assumes inv: "heap_inv s fs (insert c al)" "c \<notin> al" and ok: "releasable s fs c"
  shows "\<exists>s' fs'. fallback_free s (c + 1) = Some s' \<and> heap_inv s' fs' al \<and>
    (\<forall>i\<in>live_nodes (heap s) al. heap s' i = heap s i)"
proof -
  from inv obtain p where p: "freelist s = Some p" and chain: "free_chain (heap s) p fs"
    by (auto simp: heap_inv_def)
  have eq: "fallback_free s (c + 1) = free_walk s c (prev_of []) p"
    using p by (simp add: fallback_free_def prev_of_def)
  note live = free_result_live [OF inv]
  consider (push) "free_walk s c (prev_of []) p = Some (push_front s c)"
    | (app) f where "f \<in> set fs" "after s f = c"
        "free_walk s c (prev_of []) p = Some (append_onto s f c)"
    | (pre) gs f hs where "fs = gs @ f # hs" "after s c = f" "\<forall>g\<in>set (gs @ [f]). after s g \<noteq> c"
        "free_walk s c (prev_of []) p = Some (prepend_to s (prev_of ([] @ gs)) f c)"
    using free_walk_cases [OF chain, of c "[]"] by blast
  then show ?thesis
  proof cases
    case push
    then show ?thesis
      using push_front_inv [OF inv] live(2) unfolding eq by (auto simp: push_front_def)
  next
    case app
    then show ?thesis
      using append_onto_inv [OF inv app(1,2)] live(1) unfolding eq
      by (auto simp: append_onto_def)
  next
    case pre
    then have gs: "gs = []" using ok unfolding releasable_def cuts_def by blast
    with pre p chain have inv': "heap_inv s (f # hs) (insert c al)" using inv by simp
    show ?thesis
      using prepend_to_inv [OF inv' inv(2) pre(2)] pre(4) gs live(2) unfolding eq
      by (auto simp: prev_of_def prepend_to_def Let_def)
  qed
qed

lemma alloc_size_pos: "0 < unat (alloc_size n)"
proof -
  let ?q = "(n + sizeof_heap_node - 1) div sizeof_heap_node"
  have "unat ?q < 2 ^ 64 - 1"
    using unat_64_bound [of "n + sizeof_heap_node - 1"]
    by (simp add: unat_div sizeof_heap_node_def del: unat_64_bound)
  then have "unat (?q + 1) = unat ?q + 1" by (simp add: unat_word_ariths)
  then show ?thesis by (simp add: alloc_size_def)
qed

text \<open>The nodes of a block, unless the rounding up wraps around.\<close>

lemma alloc_size_exact:
  assumes small: "unat n + 3 < 2 ^ 64"
  shows "unat (alloc_size n) = (unat n + 3) div 4 + 1"
proof -
  have e: "n + sizeof_heap_node - 1 = n + 3" by (simp add: sizeof_heap_node_def)
  have "unat (n + 3) = unat n + 3" using small by (simp add: unat_word_ariths)
  then have q: "unat ((n + sizeof_heap_node - 1) div sizeof_heap_node) = (unat n + 3) div 4"
    unfolding unat_div e by (simp only: sizeof_heap_node_def) simp
  then show ?thesis using small by (simp add: alloc_size_def unat_word_ariths)
qed

lemma fallback_malloc_inv:
  assumes inv: "heap_inv s fs al"
  shows "(\<forall>f\<in>set fs. size_of (heap s) f < unat (alloc_size n)) \<and>
           fallback_malloc s n = Some (s, None) \<or>
         (\<exists>s' fs' c. fallback_malloc s n = Some (s', Some (c + 1)) \<and> c \<notin> al \<and>
            heap_inv s' fs' (insert c al) \<and> size_of (heap s') c = unat (alloc_size n) \<and> next_node (heap s' c) = 0 \<and>
            (\<forall>i\<in>live_nodes (heap s) al. heap s' i = heap s i))"
proof -
  from inv obtain p where p: "freelist s = Some p" and chain: "free_chain (heap s) p fs"
    by (auto simp: heap_inv_def)
  have eq: "fallback_malloc s n = malloc_walk s (alloc_size n) (prev_of []) p"
    using p by (simp add: fallback_malloc_def prev_of_def)
  consider (none) "\<forall>f\<in>set fs. size_of (heap s) f < unat (alloc_size n)"
        "malloc_walk s (alloc_size n) (prev_of []) p = Some (s, None)"
    | (hit) gs f hs where "fs = gs @ f # hs" "unat (alloc_size n) \<le> size_of (heap s) f"
        "malloc_walk s (alloc_size n) (prev_of []) p =
           Some (if unat (alloc_size n) < size_of (heap s) f then take_tail s (alloc_size n) f
                 else take_exact s (prev_of ([] @ gs)) f)"
    using malloc_walk_first_fit [OF chain, of "alloc_size n" "[]"] by blast
  then show ?thesis
  proof cases
    case none
    then show ?thesis unfolding eq by blast
  next
    case hit
    let ?k = "alloc_size n"
    have "\<exists>s' fs' c. malloc_walk s ?k (prev_of []) p = Some (s', Some (c + 1)) \<and> c \<notin> al \<and>
            heap_inv s' fs' (insert c al) \<and> size_of (heap s') c = unat ?k \<and> next_node (heap s' c) = 0 \<and>
            (\<forall>i\<in>live_nodes (heap s) al. heap s' i = heap s i)"
    proof (cases "unat ?k < size_of (heap s) f")
      case True
      with hit(3) have walk: "malloc_walk s ?k (prev_of []) p = Some (take_tail s ?k f)" by simp
      show ?thesis
        unfolding walk using take_tail_inv [OF inv _ alloc_size_pos True] hit(1) by auto
    next
      case False
      with hit(3) have walk: "malloc_walk s ?k (prev_of []) p = Some (take_exact s (prev_of gs) f)"
        by simp
      have "size_of (heap s) f = unat ?k" using False hit(2) by simp
      then show ?thesis
        unfolding walk using take_exact_inv [of s gs f hs al] inv hit(1) by auto
    qed
    then show ?thesis unfolding eq by blast
  qed
qed

section \<open>The heap as an allocator of blocks\<close>

text \<open>
  A block is named by the node \<open>u\<close> that \<open>fallback_malloc\<close> returns; its header is \<open>u - 1\<close> and
  \<open>payload s u\<close> are the nodes the client may write. \<open>may_free\<close> excludes the one branch of
  \<open>fallback_free\<close> that leaves \<open>next_node\<close> of the freed chunk unset.
\<close>

definition payload :: "heap_state \<Rightarrow> nat \<Rightarrow> nat set" where
  "payload s u = {u..<u - 1 + size_of (heap s) (u - 1)}"

definition may_free :: "heap_state \<Rightarrow> nat \<Rightarrow> bool" where
  "may_free s u \<longleftrightarrow> (\<forall>p fs. freelist s = Some p \<longrightarrow> free_chain (heap s) p fs \<longrightarrow> releasable s fs (u - 1))"

definition client_store :: "heap_state \<Rightarrow> nat \<Rightarrow> heap_node \<Rightarrow> heap_state" where
  "client_store s i n = s\<lparr>heap := (heap s)(i := n)\<rparr>"

definition blocks_inv :: "heap_state \<Rightarrow> nat set \<Rightarrow> bool" where
  "blocks_inv s L \<longleftrightarrow> freelist s = None \<and> L = {} \<or>
     (\<exists>fs al. heap_inv s fs al \<and> L = Suc ` al \<and> (\<forall>c\<in>al. next_node (heap s c) = 0))"

lemma blocks_inv_cases:
  assumes "blocks_inv s L"
  obtains (fresh) "freelist s = None" "L = {}" | (used) fs al where "heap_inv s fs al" "L = Suc ` al" "\<forall>c\<in>al. next_node (heap s c) = 0"
  using assms by (auto simp: blocks_inv_def)

lemma blocks_invI: "heap_inv s fs al \<Longrightarrow> (\<And>c. c \<in> al \<Longrightarrow> next_node (heap s c) = 0) \<Longrightarrow> blocks_inv s (Suc ` al)"
  by (auto simp: blocks_inv_def)

lemma init_heap_inv: "heap_inv (init_heap s) [0] {}"
  by (simp add: heap_inv_def init_heap_def offset_roundtrip tiled_def size_of_def list_end_val
      HEAP_SIZE_def sizeof_heap_node_def apart_def)

lemma malloc_fresh: "freelist s = None \<Longrightarrow> fallback_malloc s n = fallback_malloc (init_heap s) n"
  by (simp add: fallback_malloc_def init_heap_def)

text \<open>\<open>used_state s\<close> is the state whose free list the walk of \<open>fallback_malloc s\<close> sees.\<close>

lemma blocks_inv_used:
  assumes "blocks_inv s L"
  obtains t fs al where "heap_inv t fs al" "L = Suc ` al" "\<And>c. c \<in> al \<Longrightarrow> next_node (heap t c) = 0"
    "\<And>n. fallback_malloc s n = fallback_malloc t n"
    "\<And>i. i \<in> live_nodes (heap s) al \<Longrightarrow> heap t i = heap s i" "L \<noteq> {} \<Longrightarrow> t = s"
  using assms
proof (cases rule: blocks_inv_cases)
  case fresh
  then show thesis
    using that [of "init_heap s" "[0]" "{}"] init_heap_inv [of s] by (simp add: malloc_fresh live_nodes_def)
next
  case (used fs al)
  then show thesis using that [of s fs al] by auto
qed

lemma header_live: "heap_inv s fs al \<Longrightarrow> d \<in> al \<Longrightarrow> d \<in> {d..<d + size_of (heap s) d}"
  by (auto simp: heap_inv_def tiled_def)

lemma payload_live: "c \<in> al \<Longrightarrow> payload s (Suc c) \<subseteq> live_nodes (heap s) al"
  by (auto simp: payload_def live_nodes_def)

lemma fallback_malloc_blocks:
  assumes "blocks_inv s L"
  shows "\<exists>s' r. fallback_malloc s n = Some (s', r) \<and>
    (\<forall>u\<in>L. \<forall>i\<in>payload s u. heap s' i = heap s i) \<and>
    (case r of None \<Rightarrow> blocks_inv s' L | Some u \<Rightarrow> u \<notin> L \<and> blocks_inv s' (insert u L) \<and>
       size_of (heap s') (u - 1) = unat (alloc_size n))"
proof -
  obtain t fs al where t: "heap_inv t fs al" "L = Suc ` al" "\<And>c. c \<in> al \<Longrightarrow> next_node (heap t c) = 0"
      "fallback_malloc s n = fallback_malloc t n" "L \<noteq> {} \<Longrightarrow> t = s"
    using blocks_inv_used [OF assms] by metis
  have live: "i \<in> live_nodes (heap t) al" "heap t i = heap s i" if "u \<in> L" "i \<in> payload s u" for u i
    using that t payload_live [of _ al s] by auto
  from fallback_malloc_inv [OF t(1), of n] show ?thesis
  proof (elim disjE exE conjE)
    assume "fallback_malloc t n = Some (t, None)"
    then show ?thesis using t live blocks_invI [OF t(1,3)] by auto
  next
    fix s' fs' c
    assume *: "fallback_malloc t n = Some (s', Some (c + 1))" "c \<notin> al"
      "heap_inv s' fs' (insert c al)" "size_of (heap s') c = unat (alloc_size n)" "next_node (heap s' c) = 0"
      "\<forall>i\<in>live_nodes (heap t) al. heap s' i = heap t i"
    then have "next_node (heap s' d) = 0" if "d \<in> insert c al" for d
      using that t(3) [of d] header_live [OF t(1), of d] by (auto simp: live_nodes_def)
    then have "blocks_inv s' (insert (Suc c) L)" using blocks_invI [OF *(3)] t(2) by simp
    moreover have "\<forall>u\<in>L. \<forall>i\<in>payload s u. heap s' i = heap s i" using *(6) live by metis
    ultimately show ?thesis using * t(2,4) by auto
  qed
qed

lemma fallback_free_blocks:
  assumes "blocks_inv s L" "u \<in> L" "may_free s u"
  shows "\<exists>s'. fallback_free s u = Some s' \<and> blocks_inv s' (L - {u}) \<and>
    (\<forall>v\<in>L - {u}. \<forall>i\<in>payload s v. heap s' i = heap s i)"
  using assms(1)
proof (cases rule: blocks_inv_cases)
  case fresh
  with assms(2) show ?thesis by simp
next
  case (used fs al)
  from used assms(2) obtain c where c: "u = Suc c" "c \<in> al" by auto
  let ?al = "al - {c}"
  have al: "insert c ?al = al" using c by auto
  have "releasable s fs c" using used(1) assms(3) c by (auto simp: may_free_def heap_inv_def)
  with used(1) obtain s' fs' where s': "fallback_free s (c + 1) = Some s'" "heap_inv s' fs' ?al"
      "\<forall>i\<in>live_nodes (heap s) ?al. heap s' i = heap s i"
    using fallback_free_inv [of s fs c ?al] al by auto
  have rest: "L - {u} = Suc ` ?al" using used(2) c by auto
  have "next_node (heap s' d) = 0" if "d \<in> ?al" for d
  proof -
    have "d \<in> al" using that by simp
    then have "d \<in> {d..<d + size_of (heap s) d}" by (rule header_live [OF used(1)])
    then have "d \<in> live_nodes (heap s) ?al" unfolding live_nodes_def using that by (rule UN_I [rotated])
    then show ?thesis using s'(3) used(3) \<open>d \<in> al\<close> by simp
  qed
  then have "blocks_inv s' (L - {u})" unfolding rest by (rule blocks_invI [OF s'(2)])
  moreover have "\<forall>v\<in>L - {u}. \<forall>i\<in>payload s v. heap s' i = heap s i"
    unfolding rest using s'(3) payload_live [of _ ?al s] by blast
  ultimately show ?thesis using s'(1) c(1) by simp
qed

lemma client_store_blocks:
  assumes "blocks_inv s L" "u \<in> L" "i \<in> payload s u"
  shows "blocks_inv (client_store s i n) L"
  using assms(1)
proof (cases rule: blocks_inv_cases)
  case fresh
  with assms(2) show ?thesis by simp
next
  case (used fs al)
  from used assms(2) obtain c where c: "u = Suc c" "c \<in> al" by auto
  with assms(3) have i: "c < i" "i < c + size_of (heap s) c" by (auto simp: payload_def)
  from used have tiled: "tiled (heap s) (set fs \<union> al)" by (simp add: heap_inv_def)
  have ni: "i \<notin> set fs \<union> al"
  proof
    assume mem: "i \<in> set fs \<union> al"
    with c i have "apart (heap s) c i" using tiled_apart [OF tiled, of c i] by auto
    with i mem show False by (auto simp: apart_def)
  qed
  have "tiled ((heap s)(i := n)) (set fs \<union> al)"
    using tiled ni by (subst tiled_cong [of _ _ "heap s"]) (auto simp: size_of_def)
  moreover have "free_chain ((heap s)(i := n)) p fs = free_chain (heap s) p fs" for p
    using ni by (intro free_chain_cong) auto
  moreover have "(\<Sum>c\<in>set fs \<union> al. size_of ((heap s)(i := n)) c) = (\<Sum>c\<in>set fs \<union> al. size_of (heap s) c)"
    using ni by (intro sum.cong) (auto simp: size_of_def)
  ultimately have "heap_inv (client_store s i n) fs al"
    using used(1) by (simp add: heap_inv_def client_store_def)
  moreover have "next_node (heap (client_store s i n) d) = 0" if "d \<in> al" for d
    using used(3) that ni by (auto simp: client_store_def)
  ultimately show ?thesis using used(2) blocks_invI by blast
qed

lemma payload_disjoint:
  assumes "blocks_inv s L" "u \<in> L" "v \<in> L" "u \<noteq> v"
  shows "payload s u \<inter> payload s v = {}"
  using assms(1)
proof (cases rule: blocks_inv_cases)
  case fresh
  with assms(2) show ?thesis by simp
next
  case (used fs al)
  from used assms obtain c d where "u = Suc c" "v = Suc d" "c \<in> al" "d \<in> al" "c \<noteq> d" by auto
  moreover from used have "tiled (heap s) (set fs \<union> al)" by (simp add: heap_inv_def)
  ultimately show ?thesis using tiled_apart [of "heap s" "set fs \<union> al" c d] by (auto simp: apart_def payload_def)
qed

interpretation fb: block_allocator "\<lambda>s. freelist s = None" fallback_malloc fallback_free may_free
  payload client_store heap blocks_inv
proof unfold_locales
  fix s L n
  assume "blocks_inv s L"
  then show "\<exists>s' r. fallback_malloc s n = Some (s', r)" using fallback_malloc_blocks by blast
next
  fix s L n s' u
  assume "blocks_inv s L" "fallback_malloc s n = Some (s', Some u)"
  then show "u \<notin> L \<and> blocks_inv s' (insert u L)" using fallback_malloc_blocks [of s L n] by auto
next
  fix s L n s'
  assume "blocks_inv s L" "fallback_malloc s n = Some (s', None)"
  then show "blocks_inv s' L" using fallback_malloc_blocks [of s L n] by auto
next
  fix s L n s' r v i
  assume "blocks_inv s L" "fallback_malloc s n = Some (s', r)" "v \<in> L" "i \<in> payload s v"
  then show "heap s' i = heap s i" using fallback_malloc_blocks [of s L n] by auto
next
  fix s L u s' v i
  assume "blocks_inv s L" "u \<in> L" "may_free s u" "fallback_free s u = Some s'" "v \<in> L - {u}"
    "i \<in> payload s v"
  then show "heap s' i = heap s i" using fallback_free_blocks [of s L u] by auto
next
  fix s L u
  assume "blocks_inv s L" "u \<in> L" "may_free s u"
  then show "\<exists>s'. fallback_free s u = Some s'" using fallback_free_blocks by blast
next
  fix s L u s'
  assume "blocks_inv s L" "u \<in> L" "may_free s u" "fallback_free s u = Some s'"
  then show "blocks_inv s' (L - {u})" using fallback_free_blocks [of s L u] by auto
next
  fix s L u i w
  assume "blocks_inv s L" "u \<in> L" "i \<in> payload s u"
  then show "blocks_inv (client_store s i w) L" by (rule client_store_blocks)
next
  fix s L u v
  assume "blocks_inv s L" "u \<in> L" "v \<in> L" "u \<noteq> v"
  then show "payload s u \<inter> payload s v = {}" by (rule payload_disjoint)
qed (simp add: blocks_inv_def)

section \<open>The entry points that fall back on the heap\<close>

text \<open>
  A \<open>void*\<close> is a 64-bit address. The C library's \<open>calloc\<close>, \<open>posix_memalign\<close> and \<open>free\<close> are not
  part of the repository: the first two are arguments (address 0 or \<open>None\<close> is failure), and a
  call of \<open>::free\<close> is recorded in the result.
\<close>

definition node_ptr :: "heap_state \<Rightarrow> nat \<Rightarrow> u64" where
  "node_ptr s u = heap_base s + sizeof_heap_node * of_nat u"

definition ptr_node :: "heap_state \<Rightarrow> u64 \<Rightarrow> nat" where
  "ptr_node s a = unat ((a - heap_base s) div sizeof_heap_node)"

definition is_fallback_ptr :: "heap_state \<Rightarrow> u64 \<Rightarrow> bool" where
  "is_fallback_ptr s a \<longleftrightarrow> heap_base s \<le> a \<and> a < heap_base s + HEAP_SIZE"

definition malloc_ptr :: "heap_state \<Rightarrow> u64 \<Rightarrow> (heap_state \<times> u64) option" where
  "malloc_ptr s n = (case fallback_malloc s n of
     None \<Rightarrow> None
   | Some (s', None) \<Rightarrow> Some (s', 0)
   | Some (s', Some u) \<Rightarrow> Some (s', node_ptr s' u))"

definition aligned_malloc_with_fallback ::
  "(u64 \<Rightarrow> u64 option) \<Rightarrow> heap_state \<Rightarrow> u64 \<Rightarrow> (heap_state \<times> u64) option" where
  "aligned_malloc_with_fallback posix_memalign s n =
     (let n' = (if n = 0 then 1 else n) in
      case posix_memalign n' of Some dest \<Rightarrow> Some (s, dest) | None \<Rightarrow> malloc_ptr s n')"

text \<open>\<open>memset(ptr, 0, n)\<close> on nodes; the last node may be cleared in part, low bytes first.\<close>

definition clear_prefix :: "nat \<Rightarrow> heap_node \<Rightarrow> heap_node" where
  "clear_prefix k n =
     (if k = 0 then n
      else if k = 1 then n\<lparr>next_node := next_node n AND 0xFF00\<rparr>
      else if k = 2 then n\<lparr>next_node := 0\<rparr>
      else n\<lparr>next_node := 0, len := len n AND 0xFF00\<rparr>)"

definition memset_zero :: "heap_state \<Rightarrow> nat \<Rightarrow> nat \<Rightarrow> heap_state" where
  "memset_zero s u n = s\<lparr>heap := (\<lambda>i.
     if u \<le> i \<and> i < u + n div 4 then \<lparr>next_node = 0, len = 0\<rparr>
     else if i = u + n div 4 then clear_prefix (n mod 4) (heap s i)
     else heap s i)\<rparr>"

definition calloc_with_fallback ::
  "(u64 \<Rightarrow> u64 \<Rightarrow> u64) \<Rightarrow> heap_state \<Rightarrow> u64 \<Rightarrow> u64 \<Rightarrow> (heap_state \<times> u64) option" where
  "calloc_with_fallback calloc s count n =
     (let ptr = calloc count n in
      if ptr \<noteq> 0 then Some (s, ptr)
      else case fallback_malloc s (n * count) of
        None \<Rightarrow> None
      | Some (s', None) \<Rightarrow> Some (s', 0)
      | Some (s', Some u) \<Rightarrow> Some (memset_zero s' u (unat (n * count)), node_ptr s' u))"

datatype freed_by = FallbackHeap | CLibrary u64

definition free_with_fallback :: "heap_state \<Rightarrow> u64 \<Rightarrow> (heap_state \<times> freed_by) option" where
  "free_with_fallback s a =
     (if is_fallback_ptr s a
      then map_option (\<lambda>s'. (s', FallbackHeap)) (fallback_free s (ptr_node s a))
      else Some (s, CLibrary a))"

definition aligned_free_with_fallback :: "heap_state \<Rightarrow> u64 \<Rightarrow> (heap_state \<times> freed_by) option" where
  "aligned_free_with_fallback s a =
     (if is_fallback_ptr s a
      then map_option (\<lambda>s'. (s', FallbackHeap)) (fallback_free s (ptr_node s a))
      else Some (s, CLibrary a))"

lemma node_ptr_addr:
  "unat (heap_base s) + 512 < 2 ^ 64 \<Longrightarrow> u \<le> 128 \<Longrightarrow>
   unat (node_ptr s u) = unat (heap_base s) + 4 * u"
  by (simp add: node_ptr_def sizeof_heap_node_def unat_word_ariths unat_of_nat)

lemma ptr_node_inverse: "u \<le> 128 \<Longrightarrow> ptr_node s (node_ptr s u) = u"
proof -
  assume u: "u \<le> 128"
  have "(node_ptr s u - heap_base s) div sizeof_heap_node = 4 * of_nat u div 4"
    by (simp add: node_ptr_def sizeof_heap_node_def)
  also have "unat \<dots> = u"
    using u by (simp add: unat_div unat_word_ariths unat_of_nat)
  finally show ?thesis by (simp add: ptr_node_def)
qed

lemma is_fallback_node:
  assumes "unat (heap_base s) + 512 < 2 ^ 64" "u \<le> 128"
  shows "is_fallback_ptr s (node_ptr s u) \<longleftrightarrow> u < 128"
proof -
  have "unat (heap_base s + HEAP_SIZE) = unat (heap_base s) + 512"
    using assms by (simp add: unat_word_ariths HEAP_SIZE_def)
  then show ?thesis
    using node_ptr_addr [OF assms] by (simp add: is_fallback_ptr_def word_le_nat_alt word_less_nat_alt)
qed

lemma block_in_heap: "blocks_inv s L \<Longrightarrow> u \<in> L \<Longrightarrow> 0 < u \<and> u \<le> 128 \<and> payload s u \<subseteq> {1..<128}"
proof (erule blocks_inv_cases)
  fix fs al
  assume "u \<in> L" "heap_inv s fs al" "L = Suc ` al"
  then obtain c where "u = Suc c" "c \<in> al" "tiled (heap s) (set fs \<union> al)" by (auto simp: heap_inv_def)
  then show ?thesis by (force simp: tiled_def payload_def list_end_val)
qed simp

lemma total_split:
  "heap_inv s fs al \<Longrightarrow>
   (\<Sum>f\<in>set fs. size_of (heap s) f) + (\<Sum>c\<in>al. size_of (heap s) c) = list_end"
  by (auto simp: heap_inv_def sum.union_disjoint)

lemma malloc_no_fit:
  assumes "heap_inv s fs al" "\<forall>f\<in>set fs. size_of (heap s) f < unat (alloc_size n)"
  shows "fallback_malloc s n = Some (s, None)"
proof -
  from assms(1) obtain p where p: "freelist s = Some p" "free_chain (heap s) p fs"
    by (auto simp: heap_inv_def)
  with malloc_walk_first_fit [OF p(2), of "alloc_size n" "[]"] assms(2) show ?thesis
    by (auto simp: fallback_malloc_def prev_of_def not_less [symmetric])
qed

text \<open>The nodes of a new block were free before.\<close>

lemma malloc_payload_fresh:
  assumes "heap_inv s fs al" "c \<notin> al" "heap_inv s' fs' (insert c al)"
    "\<forall>i\<in>live_nodes (heap s) al. heap s' i = heap s i"
  shows "payload s' (c + 1) \<inter> live_nodes (heap s) al = {}"
proof -
  from assms(3) have tiled: "tiled (heap s') (set fs' \<union> insert c al)" by (simp add: heap_inv_def)
  have "{d..<d + size_of (heap s) d} \<inter> payload s' (c + 1) = {}" if "d \<in> al" for d
  proof -
    have "size_of (heap s') d = size_of (heap s) d"
      using header_live [OF assms(1) that] assms(4) that by (auto simp: size_of_def live_nodes_def)
    moreover from that assms(2) have "c \<noteq> d" by auto
    ultimately show ?thesis
      using tiled_apart [OF tiled, of c d] that by (auto simp: apart_def payload_def)
  qed
  then show ?thesis by (auto simp: live_nodes_def)
qed

section \<open>Properties\<close>

text \<open>The zero-initialised heap at an example address, used by the witnesses.\<close>

definition zero_heap :: heap_state where
  "zero_heap = \<lparr>heap = (\<lambda>_. \<lparr>next_node = 0, len = 0\<rparr>), freelist = None, heap_base = 4096\<rparr>"

definition zero_init :: heap_state where
  "zero_init = init_heap zero_heap"

lemma zero_init_inv: "heap_inv zero_init [0] {}"
  by (simp add: zero_init_def init_heap_inv)

lemma zero_init_val:
  "zero_init = \<lparr>heap = (\<lambda>_. \<lparr>next_node = 0, len = 0\<rparr>)(0 := \<lparr>next_node = 128, len = 128\<rparr>),
     freelist = Some 0, heap_base = 4096\<rparr>"
  by (simp add: zero_init_def zero_heap_def init_heap_def offset_from_node_def list_end_val
      HEAP_SIZE_def sizeof_heap_node_def)

lemmas heap_eval = zero_init_val fallback_malloc_def fallback_free_def malloc_walk.simps
  free_walk.simps take_tail_def take_exact_def push_front_def append_onto_def prepend_to_def
  alloc_size_def sizeof_heap_node_def list_end_val node_from_offset_def offset_from_node_def
  after_def HEAP_SIZE_def Let_def

lemma zero_heap_malloc4:
  "fallback_malloc zero_init 4 = Some (zero_init\<lparr>heap := (heap zero_init)
     (0 := \<lparr>next_node = 128, len = 126\<rparr>, 126 := \<lparr>next_node = 0, len = 2\<rparr>)\<rparr>, Some 127)"
  by (simp add: heap_eval)

text \<open>C1. Any run of allocations, writes inside live blocks and frees that avoids the defective
  branch of \<open>fallback_free\<close> keeps the live blocks inside the array and pairwise disjoint, and the
  next allocation returns, whatever its size.\<close>

theorem live_blocks_disjoint:
  assumes "client_reaches (\<lambda>s. freelist s = None) fallback_malloc fallback_free may_free payload
    client_store s L"
  shows "(\<forall>u\<in>L. payload s u \<subseteq> {1..<128}) \<and>
    (\<forall>u\<in>L. \<forall>v\<in>L. u \<noteq> v \<longrightarrow> payload s u \<inter> payload s v = {}) \<and>
    (\<forall>n. \<exists>s' r. fallback_malloc s n = Some (s', r) \<and>
       (\<forall>u v. r = Some u \<longrightarrow> v \<in> L \<longrightarrow> payload s' u \<inter> payload s' v = {}))"
proof (intro conjI allI ballI impI)
  show "payload s u \<subseteq> {1..<128}" if "u \<in> L" for u
    using block_in_heap [OF fb.reaches_inv [OF assms] that] by blast
  show "payload s u \<inter> payload s v = {}" if "u \<in> L" "v \<in> L" "u \<noteq> v" for u v
    using that by (rule fb.reaches_disjoint [OF assms])
  show "\<exists>s' r. fallback_malloc s n = Some (s', r) \<and>
       (\<forall>u v. r = Some u \<longrightarrow> v \<in> L \<longrightarrow> payload s' u \<inter> payload s' v = {})" for n
    using fb.reaches_alloc_returns [OF assms, of n] fb.reaches_alloc_fresh [OF assms, of n] by blast
qed

theorem live_blocks_disjoint_witness:
  "\<exists>s. client_reaches (\<lambda>s. freelist s = None) fallback_malloc fallback_free may_free payload
      client_store s {127} \<and> payload s 127 \<subseteq> {1..<128}"
proof -
  have z: "freelist zero_heap = None" by (simp add: zero_heap_def)
  obtain t where m: "fallback_malloc zero_heap 4 = Some (t, Some 127)"
    using malloc_fresh [OF z, of 4] zero_heap_malloc4 unfolding zero_init_def by simp
  have "client_reaches (\<lambda>s. freelist s = None) fallback_malloc fallback_free may_free payload
      client_store zero_heap {}"
    by (rule client_reaches.start) (rule z)
  from client_reaches.alloc [OF this m]
  have r: "client_reaches (\<lambda>s. freelist s = None) fallback_malloc fallback_free may_free payload
      client_store t {127}" .
  have "payload t 127 \<subseteq> {1..<128}" using conjunct1 [OF live_blocks_disjoint [OF r]] by simp
  with r show ?thesis by (intro exI [of _ t] conjI)
qed

text \<open>The nodes a request needs: its header and its bytes in nodes of four, unless rounding up passes the end of
  \<open>size_t\<close>, where the code asks for the header only.\<close>

definition nodes_for :: "u64 \<Rightarrow> nat" where
  "nodes_for n = (if unat n + 3 < 2 ^ 64 then (unat n + 3) div 4 + 1 else 1)"

lemma alloc_size_nodes: "unat (alloc_size n) = nodes_for n"
proof (cases "unat n + 3 < 2 ^ 64")
  case True
  then show ?thesis using alloc_size_exact [OF True] by (simp add: nodes_for_def)
next
  case False
  have wraps: "(m + 3) mod M < 3" if "m < M" "\<not> m + 3 < M" for m M :: nat
  proof -
    have "(m + 3) mod M = (m + 3 - M) mod M" using that(2) by (simp add: le_mod_geq)
    also have "\<dots> \<le> m + 3 - M" by (rule mod_less_eq_dividend)
    finally show ?thesis using that(1) by simp
  qed
  have "unat (n + sizeof_heap_node - 1) = unat (n + 3)" by (simp add: sizeof_heap_node_def add.commute)
  also have "\<dots> = (unat n + 3) mod 2 ^ 64" by (simp add: unat_word_ariths)
  also have "\<dots> < 3" by (rule wraps [OF _ False]) (use unsigned_less [of n] in simp)
  finally have "unat (n + sizeof_heap_node - 1) < 3" .
  then have "unat ((n + sizeof_heap_node - 1) div sizeof_heap_node) = 0" by (simp add: unat_div sizeof_heap_node_def)
  then show ?thesis using False by (simp add: alloc_size_def nodes_for_def unat_eq_zero)
qed

text \<open>C3. For every request, on a well-formed heap \<open>fallback_malloc\<close> returns. It fails exactly when every free chunk has fewer
  nodes than \<open>nodes_for\<close> says. Otherwise the block has these nodes, one of them its header, overlaps no live block and
  leaves every node of the live blocks as it was. So it holds the requested bytes, except for the three largest
  requests, whose size wraps around and which get a block without bytes.\<close>

theorem fallback_malloc_serves:
  assumes "heap_inv s fs al"
  shows "\<exists>s' r. fallback_malloc s n = Some (s', r) \<and>
    (r = None \<longleftrightarrow> (\<forall>f\<in>set fs. size_of (heap s) f < nodes_for n)) \<and>
    (\<forall>u. r = Some u \<longrightarrow> card (payload s' u) = nodes_for n - 1 \<and>
       (unat n \<le> 4 * card (payload s' u) \<longleftrightarrow> unat n + 3 < 2 ^ 64) \<and>
       payload s' u \<inter> live_nodes (heap s) al = {} \<and>
       (\<exists>fs'. heap_inv s' fs' (insert (u - 1) al))) \<and>
    (\<forall>i\<in>live_nodes (heap s) al. heap s' i = heap s i)"
proof -
  note no_fit = malloc_no_fit [OF assms, of n, unfolded alloc_size_nodes]
  have enough: "unat n \<le> 4 * (nodes_for n - 1) \<longleftrightarrow> unat n + 3 < 2 ^ 64" by (auto simp: nodes_for_def)
  from fallback_malloc_inv [OF assms, of n, unfolded alloc_size_nodes] show ?thesis
  proof (elim disjE exE conjE)
    fix s' fs' c
    assume *: "fallback_malloc s n = Some (s', Some (c + 1))" "c \<notin> al"
      "heap_inv s' fs' (insert c al)" "size_of (heap s') c = nodes_for n"
      "\<forall>i\<in>live_nodes (heap s) al. heap s' i = heap s i"
    have size: "card (payload s' (c + 1)) = nodes_for n - 1" using *(4) by (simp add: payload_def)
    have "payload s' (c + 1) \<inter> live_nodes (heap s) al = {}" using malloc_payload_fresh [OF assms *(2,3,5)] .
    moreover have "\<exists>fs'. heap_inv s' fs' (insert (c + 1 - 1) al)" using *(3) by auto
    moreover have "(Some (c + 1) = None) = (\<forall>f\<in>set fs. size_of (heap s) f < nodes_for n)" using no_fit *(1) by auto
    ultimately show ?thesis using *(1,5) size enough by (intro exI [of _ s'] exI [of _ "Some (c + 1)"]) simp
  next
    assume "\<forall>f\<in>set fs. size_of (heap s) f < nodes_for n" "fallback_malloc s n = Some (s, None)"
    then show ?thesis by (intro exI [of _ s] exI [of _ None]) simp
  qed
qed

theorem fallback_malloc_serves_witness:
  "(\<exists>s'. fallback_malloc zero_init 4 = Some (s', Some 127) \<and> card (payload s' 127) = 1) \<and>
   (\<exists>s' u. fallback_malloc zero_init (- 2) = Some (s', Some u) \<and> payload s' u = {})"
proof
  show "\<exists>s'. fallback_malloc zero_init 4 = Some (s', Some 127) \<and> card (payload s' 127) = 1"
    using fallback_malloc_serves [OF zero_init_inv, of 4] zero_heap_malloc4 by (auto simp: nodes_for_def)
  have "nodes_for (- 2) = 1" "\<not> size_of (heap zero_init) 0 < 1" by (simp_all add: nodes_for_def zero_init_val size_of_def)
  then show "\<exists>s' u. fallback_malloc zero_init (- 2) = Some (s', Some u) \<and> payload s' u = {}"
    using fallback_malloc_serves [OF zero_init_inv, of "- 2"] by (auto simp: payload_def)
qed

text \<open>Freeing a live block outside the defective branch gives all of its nodes back to the free list: the free list stays well formed, its
  total size grows by the size of the block, and no other live block changes.\<close>

lemma fallback_free_returns_block:
  assumes "heap_inv s fs (insert c al)" and "c \<notin> al" and "releasable s fs c"
  shows "\<exists>s' fs'. fallback_free s (c + 1) = Some s' \<and> heap_inv s' fs' al \<and>
    (\<Sum>f\<in>set fs'. size_of (heap s') f) = (\<Sum>f\<in>set fs. size_of (heap s) f) + size_of (heap s) c \<and>
    (\<forall>i\<in>live_nodes (heap s) al. heap s' i = heap s i)"
proof -
  from assms obtain s' fs' where s': "fallback_free s (c + 1) = Some s'" "heap_inv s' fs' al"
      "\<forall>i\<in>live_nodes (heap s) al. heap s' i = heap s i"
    using fallback_free_inv [of s fs c al] by auto
  have header: "size_of (heap s') d = size_of (heap s) d" if "d \<in> al" for d
    using s'(3) header_live [OF assms(1), of d] that by (simp add: size_of_def live_nodes_def)
  from s'(2) assms(1,2) header show ?thesis
    using s' total_split [OF s'(2)] total_split [OF assms(1)] sum.cong [OF refl header, of al]
    by (auto simp: heap_inv_def)
qed

lemma zero_heap_block:
  "heap_inv (zero_init\<lparr>heap := (heap zero_init)
     (0 := \<lparr>next_node = 128, len = 126\<rparr>, 126 := \<lparr>next_node = 0, len = 2\<rparr>)\<rparr>) [0] {126}"
  by (simp add: heap_inv_def zero_init_val tiled_def apart_def size_of_def list_end_val
      node_from_offset_def)

lemma fallback_free_returns_block_witness:
  "\<exists>s s' fs'. heap_inv s [0] {126} \<and> fallback_free s 127 = Some s' \<and> heap_inv s' fs' {} \<and>
     (\<Sum>f\<in>set fs'. size_of (heap s') f) = 128"
proof -
  let ?s = "zero_init\<lparr>heap := (heap zero_init)
     (0 := \<lparr>next_node = 128, len = 126\<rparr>, 126 := \<lparr>next_node = 0, len = 2\<rparr>)\<rparr>"
  have "releasable ?s [0] 126" by (simp add: releasable_def cuts_def Cons_eq_append_conv)
  with zero_heap_block fallback_free_returns_block [of ?s "[0]" 126 "{}"]
  obtain s' fs' where "fallback_free ?s 127 = Some s'" "heap_inv s' fs' {}"
    "(\<Sum>f\<in>set fs'. size_of (heap s') f) = size_of (heap ?s) 0 + size_of (heap ?s) 126"
    by auto
  then show ?thesis using zero_heap_block by (force simp: size_of_def)
qed

text \<open>What the remaining branch of \<open>fallback_free\<close> does: the freed chunk keeps its successor 0.\<close>

lemma free_chain_unique: "free_chain h p fs \<Longrightarrow> free_chain h p fs' \<Longrightarrow> fs = fs'"
proof (induction fs arbitrary: p fs')
  case Nil
  then show ?case by (cases fs') auto
next
  case (Cons f fs)
  then show ?case by (cases fs') auto
qed

lemma free_walk_cut:
  assumes "seg (heap s) p gs f" "f \<noteq> list_end" "\<forall>g\<in>set (gs @ [f]). after s g \<noteq> c" "after s c = f" "f \<notin> set gs"
  shows "free_walk s c prev p = Some (prepend_to s (if gs = [] then prev else Some (last gs)) f c)"
  using assms
proof (induction gs arbitrary: p prev)
  case Nil
  then show ?case by (simp add: free_walk.simps [of _ _ _ f])
next
  case (Cons g gs)
  then show ?case by (simp add: free_walk.simps [of _ _ _ g])
qed

lemma fallback_free_cuts:
  assumes inv: "heap_inv s (gs @ f # hs) (insert c al)" and cut: "cuts s gs f c" and zero: "next_node (heap s c) = 0"
  shows "\<exists>s' p. fallback_free s (c + 1) = Some s' \<and> freelist s' = Some p \<and> freelist s = Some p \<and> seg (heap s') p (gs @ [c]) 0 \<and>
    (\<forall>i. i \<noteq> c \<and> i \<notin> set gs \<longrightarrow> heap s' i = heap s i)"
proof -
  from inv obtain p where p: "freelist s = Some p" "free_chain (heap s) p (gs @ f # hs)"
    and disj: "distinct (gs @ f # hs)" "c \<notin> set (gs @ f # hs)" and tiled: "tiled (heap s) (set (gs @ f # hs) \<union> insert c al)"
    by (auto simp: heap_inv_def)
  obtain ks k where gs: "gs = ks @ [k]" using cut by (metis cuts_def rev_exhaust)
  from p(2) have seg: "seg (heap s) p gs f" "f < list_end" by (auto simp: free_chain_seg)
  have c: "c < list_end" using tiled tiled_pos [OF tiled, of c] by (auto simp: tiled_def)
  let ?s = "prepend_to s (Some k) f c"
  have "free_walk s c None p = Some ?s"
    using free_walk_cut [OF seg(1), of c None] seg(2) cut disj(1) gs by (auto simp: cuts_def)
  then have "fallback_free s (c + 1) = Some ?s" using p(1) by (simp add: fallback_free_def)
  moreover have "freelist ?s = Some p" using p(1) by (simp add: prepend_to_def Let_def)
  moreover have "seg (heap ?s) p (gs @ [c]) 0"
  proof -
    have k: "c \<noteq> k" "k \<notin> set ks" "c \<notin> set ks" using disj gs by auto
    from seg(1) gs obtain q where "seg (heap s) p ks q" "q = k" "k < list_end" by (auto simp: seg_append)
    moreover have "seg (heap ?s) p ks q = seg (heap s) p ks q" for q
      using k by (intro seg_cong) (auto simp: prepend_to_def Let_def)
    moreover have "node_from_offset (next_node (heap ?s k)) = c" "next_node (heap ?s c) = 0"
      using c k zero by (simp_all add: prepend_to_def Let_def offset_roundtrip)
    ultimately show ?thesis using c unfolding gs by (simp add: seg_append node_from_offset_def)
  qed
  moreover have "\<forall>i. i \<noteq> c \<and> i \<notin> set gs \<longrightarrow> heap ?s i = heap s i" unfolding gs by (simp add: prepend_to_def Let_def)
  ultimately show ?thesis using p(1) by blast
qed

lemma malloc_walk_seg:
  "seg (heap s) p xs q \<Longrightarrow> \<forall>x\<in>set xs. size_of (heap s) x < unat nelems \<Longrightarrow> \<exists>prev'. malloc_walk s nelems prev p = malloc_walk s nelems prev' q"
proof (induction xs arbitrary: p prev)
  case (Cons x xs)
  then have "\<not> nelems < ucast (len (heap s x))" "ucast (len (heap s x)) \<noteq> nelems"
    by (auto simp: word_less_nat_alt word_unat_eq_iff size_of_def unat_ucast_up)
  then have "malloc_walk s nelems prev p = malloc_walk s nelems (Some x) (node_from_offset (next_node (heap s x)))"
    using Cons.prems by (simp add: malloc_walk.simps [of _ _ _ x])
  then show ?case using Cons.IH [of "node_from_offset (next_node (heap s x))" "Some x"] Cons.prems by simp
qed auto

lemma malloc_from_zero:
  assumes "freelist s = Some p" "seg (heap s) p xs 0" "\<forall>x\<in>set xs. size_of (heap s) x < nodes_for n" "nodes_for n < size_of (heap s) 0"
  shows "\<exists>t v. fallback_malloc s n = Some (t, Some v) \<and> payload t v \<subseteq> {1..<size_of (heap s) 0} \<and> v - 1 \<in> {1..<size_of (heap s) 0} \<and>
    card (payload t v) = nodes_for n - 1"
proof -
  let ?k = "alloc_size n"
  have k: "0 < unat ?k" "unat ?k < size_of (heap s) 0" using assms(4) alloc_size_pos [of n] by (simp_all add: alloc_size_nodes)
  obtain prev where "fallback_malloc s n = malloc_walk s ?k prev 0"
    using malloc_walk_seg [OF assms(2), of ?k None] assms(1,3) by (auto simp: fallback_malloc_def alloc_size_nodes)
  moreover have "malloc_walk s ?k prev 0 = Some (take_tail s ?k 0)"
    using k(2) by (simp add: malloc_walk.simps [of _ _ _ 0] list_end_val word_less_nat_alt size_of_def unat_ucast_up)
  moreover define q where "q = size_of (heap s) 0 - unat ?k"
  have q: "0 < q" "q + unat ?k = size_of (heap s) 0" using k by (simp_all add: q_def)
  have "size_of (heap s) 0 < 65536" by (simp add: size_of_def)
  then have len: "unat (ucast ?k :: u16) = unat ?k" using k by (simp add: unat_ucast_small)
  have "take_tail s ?k 0 = (s\<lparr>heap := (heap s)(0 := (heap s 0)\<lparr>len := ucast (ucast (len (heap s 0)) - ?k)\<rparr>, q := \<lparr>next_node = 0, len = ucast ?k\<rparr>)\<rparr>, Some (q + 1))"
    (is "_ = (?t, _)") using k(2) by (simp add: take_tail_def unat_rest q_def Let_def)
  moreover have "payload ?t (q + 1) = {q + 1..<q + unat ?k}" using len by (simp add: payload_def size_of_def)
  ultimately show ?thesis using q k by (auto simp: alloc_size_nodes [symmetric])
qed

text \<open>C38. The remaining branch of \<open>fallback_free\<close>, for a chunk that is merged with a free chunk behind it that is not the head
  of the list, is wrong in every reachable state: the free list ends with the chunks \<open>gs\<close> before, the freed chunk and then
  node 0, whatever chunks \<open>hs\<close> followed. When the block at node 0 is live, a request that is too large for the chunks before and smaller than
  this block is served from inside this block.\<close>

theorem fallback_free_merge_corrupts:
  assumes "client_reaches (\<lambda>s. freelist s = None) fallback_malloc fallback_free may_free payload client_store s L"
    and "u \<in> L" and "\<not> may_free s u"
  shows "\<exists>s' p gs hs. freelist s = Some p \<and> free_chain (heap s) p (gs @ after s (u - 1) # hs) \<and> gs \<noteq> [] \<and>
    fallback_free s u = Some s' \<and> freelist s' = Some p \<and> seg (heap s') p (gs @ [u - 1]) 0 \<and>
    (1 \<in> L - {u} \<longrightarrow> (\<forall>n. (\<forall>g\<in>set (gs @ [u - 1]). size_of (heap s') g < nodes_for n) \<and> nodes_for n < size_of (heap s) 0 \<longrightarrow>
      (\<exists>t v. fallback_malloc s' n = Some (t, Some v) \<and> v - 1 \<in> payload s 1 \<and> payload t v \<subseteq> payload s 1 \<and>
         card (payload t v) = nodes_for n - 1)))"
  using fb.reaches_inv [OF assms(1)]
proof (cases rule: blocks_inv_cases)
  case fresh
  with assms(2) show ?thesis by simp
next
  case (used fs al)
  from used assms(2) obtain c where c: "u = Suc c" "c \<in> al" by auto
  then have al: "insert c (al - {c}) = al" by auto
  from assms(3) c obtain p fs' where p: "freelist s = Some p" "free_chain (heap s) p fs'" "\<not> releasable s fs' c"
    by (auto simp: may_free_def)
  then have "fs' = fs" using used(1) by (auto simp: heap_inv_def intro: free_chain_unique)
  with p(3) obtain gs f hs where gs: "fs = gs @ f # hs" "cuts s gs f c" by (auto simp: releasable_def)
  have "heap_inv s (gs @ f # hs) (insert c (al - {c}))" using used(1) gs(1) al by simp
  from fallback_free_cuts [OF this gs(2)] used(3) c(2) obtain s' q where s': "fallback_free s (c + 1) = Some s'" "freelist s' = Some q" "q = p"
    "seg (heap s') q (gs @ [c]) 0" "\<forall>i. i \<noteq> c \<and> i \<notin> set gs \<longrightarrow> heap s' i = heap s i" using p(1) by fastforce
  have "\<exists>t v. fallback_malloc s' n = Some (t, Some v) \<and> v - 1 \<in> payload s 1 \<and> payload t v \<subseteq> payload s 1 \<and>
         card (payload t v) = nodes_for n - 1"
    if one: "1 \<in> L - {u}" and n: "(\<forall>g\<in>set (gs @ [u - 1]). size_of (heap s') g < nodes_for n) \<and> nodes_for n < size_of (heap s) 0" for n
  proof -
    have "0 \<in> al" "0 \<noteq> c" using one used(2) c(1) by auto
    moreover have "0 \<notin> set gs" using \<open>0 \<in> al\<close> used(1) gs(1) by (auto simp: heap_inv_def)
    ultimately have "size_of (heap s') 0 = size_of (heap s) 0" using s'(5) by (simp add: size_of_def)
    moreover have payload: "payload s 1 = {1..<size_of (heap s) 0}" by (simp add: payload_def)
    ultimately show ?thesis using malloc_from_zero [OF s'(2,4), of n] n c(1) payload by simp blast
  qed
  moreover have "gs \<noteq> []" "after s c = f" using gs(2) by (simp_all add: cuts_def)
  ultimately show ?thesis
    using s' c(1) p(1,2) gs(1) \<open>fs' = fs\<close> by (intro exI [of _ s'] exI [of _ p] exI [of _ gs] exI [of _ hs]) simp
qed

text \<open>Four blocks of two nodes and one of the rest, of which the first and the last small one were freed.\<close>

definition nodes_at :: "nat \<Rightarrow> (nat \<times> u16 \<times> u16) list \<Rightarrow> heap_state" where
  "nodes_at p ns = zero_heap\<lparr>freelist := Some p,
     heap := fold (\<lambda>(i, n, l) h. h(i := \<lparr>next_node = n, len = l\<rparr>)) ns (heap zero_heap)\<rparr>"

lemma sample_calls:
  "fallback_malloc zero_heap 4 = Some (nodes_at 0 [(0, 128, 126), (126, 0, 2)], Some 127)"
  "fallback_malloc (nodes_at 0 [(0, 128, 126), (126, 0, 2)]) 4 = Some (nodes_at 0 [(0, 128, 124), (126, 0, 2), (124, 0, 2)], Some 125)"
  "fallback_malloc (nodes_at 0 [(0, 128, 124), (126, 0, 2), (124, 0, 2)]) 4 =
    Some (nodes_at 0 [(0, 128, 122), (126, 0, 2), (124, 0, 2), (122, 0, 2)], Some 123)"
  "fallback_malloc (nodes_at 0 [(0, 128, 122), (126, 0, 2), (124, 0, 2), (122, 0, 2)]) 4 =
    Some (nodes_at 0 [(0, 128, 120), (126, 0, 2), (124, 0, 2), (122, 0, 2), (120, 0, 2)], Some 121)"
  "fallback_malloc (nodes_at 0 [(0, 128, 120), (126, 0, 2), (124, 0, 2), (122, 0, 2), (120, 0, 2)]) 476 =
    Some (nodes_at 128 [(0, 0, 120), (126, 0, 2), (124, 0, 2), (122, 0, 2), (120, 0, 2)], Some 1)"
  "fallback_free (nodes_at 128 [(0, 0, 120), (126, 0, 2), (124, 0, 2), (122, 0, 2), (120, 0, 2)]) 127 =
    Some (nodes_at 126 [(0, 0, 120), (126, 128, 2), (124, 0, 2), (122, 0, 2), (120, 0, 2)])"
  "fallback_free (nodes_at 126 [(0, 0, 120), (126, 128, 2), (124, 0, 2), (122, 0, 2), (120, 0, 2)]) 121 =
    Some (nodes_at 120 [(0, 0, 120), (126, 128, 2), (124, 0, 2), (122, 0, 2), (120, 126, 2)])"
  by (simp_all add: nodes_at_def zero_heap_def init_heap_def heap_eval fun_eq_iff)

definition sample_heap :: heap_state where
  "sample_heap = nodes_at 120 [(0, 0, 120), (126, 128, 2), (124, 0, 2), (122, 0, 2), (120, 126, 2)]"

lemma sample_reached:
  "client_reaches (\<lambda>s. freelist s = None) fallback_malloc fallback_free may_free payload client_store sample_heap {125, 123, 1}"
proof -
  let ?R = "client_reaches (\<lambda>s. freelist s = None) fallback_malloc fallback_free may_free payload client_store"
  let ?s = "nodes_at 128 [(0, 0, 120), (126, 0, 2), (124, 0, 2), (122, 0, 2), (120, 0, 2)]"
  let ?t = "nodes_at 126 [(0, 0, 120), (126, 128, 2), (124, 0, 2), (122, 0, 2), (120, 0, 2)]"
  have chains: "fs = []" if "free_chain (heap ?s) 128 fs" for fs using that by (cases fs) (auto simp: list_end_val)
  have chaint: "fs = [126]" if "free_chain (heap ?t) 126 fs" for fs
    by (rule free_chain_unique [OF that]) (simp add: nodes_at_def list_end_val node_from_offset_def)
  have "?R zero_heap {}" by (rule client_reaches.start) (simp add: zero_heap_def)
  note r = client_reaches.alloc [OF client_reaches.alloc [OF client_reaches.alloc [OF client_reaches.alloc
    [OF client_reaches.alloc [OF this sample_calls(1)] sample_calls(2)] sample_calls(3)] sample_calls(4)] sample_calls(5)]
  have "may_free ?s 127" using chains by (auto simp: may_free_def releasable_def nodes_at_def)
  from client_reaches.release [OF r _ this sample_calls(6)] have r: "?R ?t {1, 121, 123, 125}" by (simp add: insert_Diff_if)
  have "releasable ?t [126] 120" by (auto simp: releasable_def cuts_def Cons_eq_append_conv)
  then have "may_free ?t 121" using chaint by (auto simp: may_free_def nodes_at_def)
  from client_reaches.release [OF r _ this sample_calls(7)] have "?R sample_heap {1, 123, 125}"
    by (simp add: insert_Diff_if sample_heap_def)
  then show ?thesis by (simp add: insert_commute)
qed

theorem fallback_free_merge_corrupts_witness:
  "\<exists>s' t v. fallback_free sample_heap 125 = Some s' \<and> fallback_malloc s' 16 = Some (t, Some v) \<and> payload t v \<subseteq> payload sample_heap 1"
proof -
  have list: "freelist sample_heap = Some 120" "free_chain (heap sample_heap) 120 [120, 126]"
    by (simp_all add: sample_heap_def nodes_at_def list_end_val node_from_offset_def)
  have after: "after sample_heap 124 = 126" "after sample_heap 120 \<noteq> 124" "after sample_heap 126 \<noteq> 124"
    by (simp_all add: sample_heap_def nodes_at_def after_def)
  then have "cuts sample_heap [120] 126 124" by (simp add: cuts_def)
  then have "\<not> releasable sample_heap [120, 126] 124" by (auto simp: releasable_def Cons_eq_append_conv)
  moreover have "125 - 1 = (124 :: nat)" by simp
  ultimately have "\<not> may_free sample_heap 125" unfolding may_free_def using list by metis
  from fallback_free_merge_corrupts [OF sample_reached _ this] obtain s' p gs hs where
    r: "freelist sample_heap = Some p" "free_chain (heap sample_heap) p (gs @ after sample_heap 124 # hs)" "gs \<noteq> []"
      "fallback_free sample_heap 125 = Some s'"
      "\<forall>n. (\<forall>g\<in>set (gs @ [124]). size_of (heap s') g < nodes_for n) \<and> nodes_for n < size_of (heap sample_heap) 0 \<longrightarrow>
        (\<exists>t v. fallback_malloc s' n = Some (t, Some v) \<and> v - 1 \<in> payload sample_heap 1 \<and> payload t v \<subseteq> payload sample_heap 1 \<and>
          card (payload t v) = nodes_for n - 1)" by auto
  have "gs @ after sample_heap 124 # hs = [120, 126]" using r(1,2) list free_chain_unique by auto
  then have gs: "gs = [120]" using r(3) after by (cases gs) (auto simp: append_eq_Cons_conv)
  have s': "s' = prepend_to sample_heap (Some 120) 126 124"
    using r(4) after by (simp add: fallback_free_def list(1) free_walk.simps list_end_val sample_heap_def nodes_at_def node_from_offset_def)
  have "\<forall>g\<in>set (gs @ [124]). size_of (heap s') g < nodes_for 16" "nodes_for 16 < size_of (heap sample_heap) 0"
    unfolding gs s' by (simp_all add: prepend_to_def Let_def sample_heap_def nodes_at_def size_of_def nodes_for_def)
  with r(5) r(4) show ?thesis by blast
qed

text \<open>Freeing through the fallback entry points: a block of the emergency heap with at least one
  payload node is recognised by its address and freed there, while any pointer outside the array
  goes to the C library and the heap is not touched.\<close>

lemma free_with_fallback_routes:
  assumes "unat (heap_base s) + 512 < 2 ^ 64" and "blocks_inv s L"
  shows "(\<forall>u\<in>L. payload s u \<noteq> {} \<longrightarrow>
       free_with_fallback s (node_ptr s u) = map_option (\<lambda>s'. (s', FallbackHeap)) (fallback_free s u) \<and>
       aligned_free_with_fallback s (node_ptr s u) = free_with_fallback s (node_ptr s u)) \<and>
    (\<forall>a. \<not> (unat (heap_base s) \<le> unat a \<and> unat a < unat (heap_base s) + 512) \<longrightarrow>
       free_with_fallback s a = Some (s, CLibrary a) \<and> aligned_free_with_fallback s a = Some (s, CLibrary a))"
proof (intro conjI ballI allI impI)
  fix u
  assume "u \<in> L" "payload s u \<noteq> {}"
  then have u: "u < 128" "u \<le> 128" using block_in_heap [OF assms(2), of u]
    by (auto simp: payload_def)
  show "free_with_fallback s (node_ptr s u) = map_option (\<lambda>s'. (s', FallbackHeap)) (fallback_free s u)"
    using is_fallback_node [OF assms(1) u(2)] u by (simp add: free_with_fallback_def ptr_node_inverse)
  show "aligned_free_with_fallback s (node_ptr s u) = free_with_fallback s (node_ptr s u)"
    by (simp add: aligned_free_with_fallback_def free_with_fallback_def)
next
  fix a :: u64
  assume out: "\<not> (unat (heap_base s) \<le> unat a \<and> unat a < unat (heap_base s) + 512)"
  have "unat (heap_base s + HEAP_SIZE) = unat (heap_base s) + 512"
    using assms by (simp add: unat_word_ariths HEAP_SIZE_def)
  with out have "\<not> is_fallback_ptr s a"
    by (simp add: is_fallback_ptr_def word_le_nat_alt word_less_nat_alt)
  then show "free_with_fallback s a = Some (s, CLibrary a)"
    "aligned_free_with_fallback s a = Some (s, CLibrary a)"
    by (simp_all add: free_with_fallback_def aligned_free_with_fallback_def)
qed

lemma free_with_fallback_routes_witness:
  "\<exists>s. heap_base s = 4096 \<and> payload s 127 \<noteq> {} \<and>
     free_with_fallback s (node_ptr s 127) = map_option (\<lambda>s'. (s', FallbackHeap)) (fallback_free s 127) \<and>
     free_with_fallback s 64 = Some (s, CLibrary 64)"
proof -
  let ?s = "zero_init\<lparr>heap := (heap zero_init)
     (0 := \<lparr>next_node = 128, len = 126\<rparr>, 126 := \<lparr>next_node = 0, len = 2\<rparr>)\<rparr>"
  have "blocks_inv ?s {127}" using blocks_invI [OF zero_heap_block] by simp
  moreover have base: "heap_base ?s = 4096" "payload ?s 127 \<noteq> {}"
    by (simp_all add: zero_init_val payload_def size_of_def)
  ultimately show ?thesis
    using free_with_fallback_routes [of ?s "{127}"] by (intro exI [of _ ?s]) auto
qed

text \<open>\<open>__calloc_with_fallback\<close> multiplies without an overflow check: when \<open>calloc\<close> refuses
  \<open>2^32\<close> elements of \<open>2^32\<close> bytes, the fallback asks for 0 bytes, succeeds with an empty block
  one past the array, and \<open>__free_with_fallback\<close> hands that pointer to the C library.\<close>

lemma calloc_fallback_overflow:
  "\<exists>s' a. calloc_with_fallback (\<lambda>_ _. 0) zero_init (2 ^ 32) (2 ^ 32) = Some (s', a) \<and> a \<noteq> 0 \<and>
     a = node_ptr s' 128 \<and> payload s' 128 = {} \<and>
     free_with_fallback s' a = Some (s', CLibrary a)"
  by (simp add: calloc_with_fallback_def heap_eval memset_zero_def clear_prefix_def payload_def
      size_of_def node_ptr_def free_with_fallback_def is_fallback_ptr_def)

end
