(* ===== verification/CodecvtLoops.thy ===== *)
theory CodecvtLoops
  imports Prelude
begin

text \<open>
  The conversion loops of \<open>libcxx/src/locale.cpp\<close> share two shapes. An encoder runs
  \<open>for (; frm_nxt < frm_end; ++frm_nxt)\<close> and checks the room for its output itself; a decoder runs
  \<open>for (; frm_nxt < frm_end && to_nxt < to_end; ++to_nxt)\<close> and reports \<open>partial\<close> when input is left.
  A \<open>_length\<close> function runs the decoder's loop with a counter in place of the output.

  This theory holds the loops, parameterised by their bodies, and the interface \<open>utf_converter\<close>:
  a body that turns the representation \<open>inp c\<close> of a character into \<open>out c\<close> and accepts nothing else.
  The facts on whole strings are proved here once.
\<close>

section \<open>Loops\<close>

datatype result = ok | partial | error | noconv

text \<open>The outcome of one loop body. \<open>Emit k bs\<close>: the iteration writes \<open>bs\<close> and, with the loop
  header, moves \<open>frm_nxt\<close> by \<open>k + 1\<close>.\<close>

datatype 'b step = Stop result | Emit nat "'b list"

fun emit :: "'b list \<Rightarrow> result \<times> 'a list \<times> 'b list \<Rightarrow> result \<times> 'a list \<times> 'b list" where
  "emit bs (r, rest, out) = (r, rest, bs @ out)"

text \<open>A conversion takes the input and the room in the output buffer; it returns the result code,
  the input left at \<open>frm_nxt\<close>, and the output between \<open>to\<close> and \<open>to_nxt\<close>.\<close>

function enc_loop :: "('a list \<Rightarrow> nat \<Rightarrow> 'b step) \<Rightarrow> 'a list \<Rightarrow> nat \<Rightarrow> result \<times> 'a list \<times> 'b list" where
  "enc_loop body frm room =
     (if frm = [] then (ok, [], [])
      else case body frm room of
        Stop r \<Rightarrow> (r, frm, [])
      | Emit k out \<Rightarrow> emit out (enc_loop body (drop (Suc k) frm) (room - length out)))"
  by pat_completeness auto
termination by (relation "measure (\<lambda>(body, frm, room). length frm)") auto

text \<open>\<open>g\<close> is 0 for the guard \<open>frm_nxt < frm_end\<close> and 1 for \<open>frm_nxt < frm_end - 1\<close>.\<close>

function dec_loop ::
  "nat \<Rightarrow> ('a list \<Rightarrow> nat \<Rightarrow> 'b step) \<Rightarrow> 'a list \<Rightarrow> nat \<Rightarrow> result \<times> 'a list \<times> 'b list" where
  "dec_loop g body frm room =
     (if length frm \<le> g \<or> room = 0 then (if frm = [] then ok else partial, frm, [])
      else case body frm room of
        Stop r \<Rightarrow> (r, frm, [])
      | Emit k out \<Rightarrow> emit out (dec_loop g body (drop (Suc k) frm) (room - length out)))"
  by pat_completeness auto
termination by (relation "measure (\<lambda>(g, body, frm, room). length frm)") auto

text \<open>The body of a \<open>_length\<close> loop breaks (\<open>None\<close>) or counts \<open>e\<close> extra output characters and moves
  \<open>frm_nxt\<close> by \<open>k + 1\<close>. The result is the distance moved, converted to \<open>int\<close>.\<close>

function len_loop :: "nat \<Rightarrow> ('a list \<Rightarrow> nat \<Rightarrow> (nat \<times> nat) option) \<Rightarrow> 'a list \<Rightarrow> nat \<Rightarrow> nat" where
  "len_loop g body frm mx =
     (if length frm \<le> g \<or> mx = 0 then 0
      else case body frm mx of
        None \<Rightarrow> 0
      | Some (k, e) \<Rightarrow> Suc k + len_loop g body (drop (Suc k) frm) (mx - Suc e))"
  by pat_completeness auto
termination by (relation "measure (\<lambda>(g, body, frm, mx). length frm)") auto

declare enc_loop.simps [simp del] dec_loop.simps [simp del] len_loop.simps [simp del]

lemma len_loop_stop: "length frm \<le> g \<or> mx = 0 \<or> body frm mx = None \<Longrightarrow> len_loop g body frm mx = 0"
  by (subst len_loop.simps) auto

lemma rest_le: "dec_loop g body frm room = (r, rest, bs) \<Longrightarrow> length rest \<le> length frm"
proof (induction g body frm room arbitrary: bs rule: dec_loop.induct)
  case (1 g body frm room)
  show ?case
  proof (cases "length frm \<le> g \<or> room = 0 \<or> (\<exists>e. body frm room = Stop e)")
    case True
    with "1.prems" show ?thesis by (auto simp: dec_loop.simps [of g body frm room] split: if_splits)
  next
    case False
    then obtain k out' where b: "body frm room = Emit k out'" by (cases "body frm room") auto
    obtain bs' where "dec_loop g body (drop (Suc k) frm) (room - length out') = (r, rest, bs')"
      using "1.prems" False b
      by (cases "dec_loop g body (drop (Suc k) frm) (room - length out')")
        (auto simp: dec_loop.simps [of g body frm room])
    with "1.IH" [OF _ b] False have "length rest \<le> length (drop (Suc k) frm)" by blast
    then show ?thesis by simp
  qed
qed

definition ptrdiff_to_int :: "nat \<Rightarrow> int" where
  "ptrdiff_to_int n = sint (of_nat n :: u32)"

section \<open>Converters\<close>

locale utf_converter =
  fixes g :: nat
    and body :: "'a list \<Rightarrow> nat \<Rightarrow> 'b step"
    and inp :: "'c \<Rightarrow> 'a list"
    and out :: "'c \<Rightarrow> 'b list"
    and valid :: "'c \<Rightarrow> bool"
  assumes inp_len: "valid c \<Longrightarrow> g < length (inp c)"
    and out_pos: "valid c \<Longrightarrow> out c \<noteq> []"
    and accept: "valid c \<Longrightarrow> length (out c) \<le> room \<Longrightarrow>
      body (inp c @ rest) room = Emit (length (inp c) - 1) (out c)"
    and sound: "frm \<noteq> [] \<Longrightarrow> g < length frm \<Longrightarrow> 0 < room \<Longrightarrow> body frm room = Emit k bs \<Longrightarrow>
      \<exists>c. valid c \<and> bs = out c \<and> frm = inp c @ drop (Suc k) frm \<and> length (inp c) = Suc k \<and>
          length bs \<le> room"
    and not_ok: "frm \<noteq> [] \<Longrightarrow> g < length frm \<Longrightarrow> body frm room \<noteq> Stop ok"
begin

lemma dec_step:
  assumes "valid c" "length (out c) \<le> room"
  shows "dec_loop g body (inp c @ rest) room = emit (out c) (dec_loop g body rest (room - length (out c)))"
proof -
  have "0 < length (out c)" using out_pos [OF assms(1)] by simp
  with assms(2) have "0 < room" by linarith
  then have g: "\<not> (length (inp c @ rest) \<le> g \<or> room = 0)" "Suc (length (inp c) - 1) = length (inp c)"
    using inp_len [OF assms(1)] assms(2) by auto
  have "body (inp c @ rest) room = Emit (length (inp c) - 1) (out c)" by (rule accept [OF assms])
  with g show ?thesis by (subst dec_loop.simps) simp
qed

lemma enc_step:
  assumes "valid c" "length (out c) \<le> room"
  shows "enc_loop body (inp c @ rest) room = emit (out c) (enc_loop body rest (room - length (out c)))"
proof -
  have g: "inp c \<noteq> []" "Suc (length (inp c) - 1) = length (inp c)"
    using inp_len [OF assms(1)] by auto
  have "body (inp c @ rest) room = Emit (length (inp c) - 1) (out c)" by (rule accept [OF assms])
  with g show ?thesis by (simp add: enc_loop.simps [of body "inp c @ rest" room])
qed

text \<open>With enough room, every string of valid characters is converted.\<close>

lemma dec_complete:
  "list_all valid cs \<Longrightarrow> length (concat (map out cs)) \<le> room \<Longrightarrow>
   dec_loop g body (concat (map inp cs) @ rest) room =
     emit (concat (map out cs)) (dec_loop g body rest (room - length (concat (map out cs))))"
proof (induction cs arbitrary: room)
  case Nil
  then show ?case by (cases "dec_loop g body rest room") simp
next
  case (Cons c cs)
  then have "dec_loop g body (inp c @ (concat (map inp cs) @ rest)) room =
      emit (out c) (dec_loop g body (concat (map inp cs) @ rest) (room - length (out c)))"
    by (intro dec_step) auto
  moreover from Cons have "dec_loop g body (concat (map inp cs) @ rest) (room - length (out c)) =
      emit (concat (map out cs)) (dec_loop g body rest (room - length (out c) - length (concat (map out cs))))"
    by (intro Cons.IH) auto
  ultimately show ?case
    by (cases "dec_loop g body rest (room - length (out c) - length (concat (map out cs)))") simp
qed

lemma dec_all:
  assumes "list_all valid cs" "length (concat (map out cs)) \<le> room"
  shows "dec_loop g body (concat (map inp cs)) room = (ok, [], concat (map out cs))"
  using dec_complete [OF assms, of "[]"] by (simp add: dec_loop.simps)

lemma enc_all:
  "list_all valid cs \<Longrightarrow> length (concat (map out cs)) \<le> room \<Longrightarrow>
   enc_loop body (concat (map inp cs)) room = (ok, [], concat (map out cs))"
proof (induction cs arbitrary: room)
  case Nil
  then show ?case by (simp add: enc_loop.simps)
next
  case (Cons c cs)
  then have "enc_loop body (inp c @ concat (map inp cs)) room =
      emit (out c) (enc_loop body (concat (map inp cs)) (room - length (out c)))"
    by (intro enc_step) auto
  moreover from Cons have "enc_loop body (concat (map inp cs)) (room - length (out c)) =
      (ok, [], concat (map out cs))"
    by (intro Cons.IH) auto
  ultimately show ?case by simp
qed

text \<open>Whatever the loop writes and consumes represents the same valid characters.\<close>

lemma dec_sound:
  "dec_loop g body frm room = (r, rest, bs) \<Longrightarrow>
   \<exists>cs. list_all valid cs \<and> frm = concat (map inp cs) @ rest \<and> bs = concat (map out cs) \<and>
        length bs \<le> room"
proof (induction "length frm" arbitrary: frm room bs rule: less_induct)
  case less
  show ?case
  proof (cases "length frm \<le> g \<or> room = 0 \<or> (\<exists>e. body frm room = Stop e)")
    case True
    with less.prems show ?thesis
      by (intro exI [of _ "[]"]) (auto simp: dec_loop.simps [of g body frm room] split: if_splits)
  next
    case False
    then obtain k out' where b: "body frm room = Emit k out'" by (cases "body frm room") auto
    from False have "frm \<noteq> []" "g < length frm" "0 < room" by auto
    from sound [OF this b] obtain c where c: "valid c" "out' = out c" "frm = inp c @ drop (Suc k) frm"
      "length out' \<le> room" by blast
    obtain bs' where bs': "dec_loop g body (drop (Suc k) frm) (room - length out') = (r, rest, bs')"
      "bs = out' @ bs'"
      using less.prems False b
      by (cases "dec_loop g body (drop (Suc k) frm) (room - length out')")
        (auto simp: dec_loop.simps [of g body frm room])
    have "length (drop (Suc k) frm) < length frm" using \<open>frm \<noteq> []\<close> by (cases frm) auto
    from less.hyps [OF this bs'(1)] obtain cs where
      cs: "list_all valid cs" "drop (Suc k) frm = concat (map inp cs) @ rest" "bs' = concat (map out cs)"
        "length bs' \<le> room - length out'" by blast
    with c bs' show ?thesis by (intro exI [of _ "c # cs"]) auto
  qed
qed

lemma dec_ok_rest: "dec_loop g body frm room = (ok, rest, bs) \<Longrightarrow> rest = []"
proof (induction "length frm" arbitrary: frm room bs rule: less_induct)
  case less
  show ?case
  proof (cases "length frm \<le> g \<or> room = 0 \<or> (\<exists>e. body frm room = Stop e)")
    case True
    with less.prems not_ok [of frm room] show ?thesis
      by (cases "frm = []") (auto simp: dec_loop.simps [of g body frm room] dec_loop.simps [of g body "[]"]
        split: if_splits)
  next
    case False
    then obtain k out' where b: "body frm room = Emit k out'" by (cases "body frm room") auto
    from False have "length (drop (Suc k) frm) < length frm" by (cases frm) auto
    moreover obtain bs' where "dec_loop g body (drop (Suc k) frm) (room - length out') = (ok, rest, bs')"
      using less.prems False b
      by (cases "dec_loop g body (drop (Suc k) frm) (room - length out')")
        (auto simp: dec_loop.simps [of g body frm room])
    ultimately show ?thesis by (rule less.hyps)
  qed
qed

text \<open>A decoding loop answers \<open>ok\<close> exactly on the strings of valid characters that fit.\<close>

theorem dec_ok_iff:
  "dec_loop g body frm room = (ok, rest, bs) \<longleftrightarrow>
   (\<exists>cs. list_all valid cs \<and> frm = concat (map inp cs) \<and> rest = [] \<and> bs = concat (map out cs) \<and>
         length bs \<le> room)"
proof
  assume a: "dec_loop g body frm room = (ok, rest, bs)"
  with dec_sound [OF a] dec_ok_rest [OF a] show "\<exists>cs. list_all valid cs \<and> frm = concat (map inp cs) \<and>
      rest = [] \<and> bs = concat (map out cs) \<and> length bs \<le> room" by auto
next
  assume "\<exists>cs. list_all valid cs \<and> frm = concat (map inp cs) \<and> rest = [] \<and> bs = concat (map out cs) \<and>
      length bs \<le> room"
  then show "dec_loop g body frm room = (ok, rest, bs)" by (auto simp: dec_all)
qed

end

text \<open>An encoder's loop has no guard on its output: the body itself finds out that there is no room.\<close>

locale utf_encoder = utf_converter 0 body inp out valid
  for body :: "'a list \<Rightarrow> nat \<Rightarrow> 'b step" and inp :: "'c \<Rightarrow> 'a list" and out :: "'c \<Rightarrow> 'b list"
    and valid :: "'c \<Rightarrow> bool" +
  assumes no_room: "body frm 0 \<noteq> Emit k bs"
begin

lemma enc_sound:
  "enc_loop body frm room = (r, rest, bs) \<Longrightarrow>
   \<exists>cs. list_all valid cs \<and> frm = concat (map inp cs) @ rest \<and> bs = concat (map out cs) \<and>
        length bs \<le> room \<and> (r = ok \<longrightarrow> rest = [])"
proof (induction "length frm" arbitrary: frm room bs rule: less_induct)
  case less
  show ?case
  proof (cases "frm = [] \<or> (\<exists>e. body frm room = Stop e)")
    case True
    with less.prems not_ok [of frm room] show ?thesis
      by (intro exI [of _ "[]"]) (auto simp: enc_loop.simps [of body frm room] split: if_splits)
  next
    case False
    then obtain k out' where b: "body frm room = Emit k out'" by (cases "body frm room") auto
    from False have f: "frm \<noteq> []" "0 < length frm" by auto
    have "0 < room" using no_room [of frm k out'] b by (cases room) auto
    from sound [OF f this b] obtain c where c: "valid c" "out' = out c" "frm = inp c @ drop (Suc k) frm"
      "length out' \<le> room" by blast
    obtain bs' where bs': "enc_loop body (drop (Suc k) frm) (room - length out') = (r, rest, bs')"
      "bs = out' @ bs'"
      using less.prems False b
      by (cases "enc_loop body (drop (Suc k) frm) (room - length out')")
        (auto simp: enc_loop.simps [of body frm room])
    have "length (drop (Suc k) frm) < length frm" using f by (cases frm) auto
    from less.hyps [OF this bs'(1)] obtain cs where
      cs: "list_all valid cs" "drop (Suc k) frm = concat (map inp cs) @ rest" "bs' = concat (map out cs)"
        "length bs' \<le> room - length out'" "r = ok \<longrightarrow> rest = []" by blast
    with c bs' show ?thesis by (intro exI [of _ "c # cs"]) auto
  qed
qed

theorem enc_ok_iff:
  "enc_loop body frm room = (ok, rest, bs) \<longleftrightarrow>
   (\<exists>cs. list_all valid cs \<and> frm = concat (map inp cs) \<and> rest = [] \<and> bs = concat (map out cs) \<and>
         length bs \<le> room)"
proof
  assume a: "enc_loop body frm room = (ok, rest, bs)"
  from enc_sound [OF a] show "\<exists>cs. list_all valid cs \<and> frm = concat (map inp cs) \<and>
      rest = [] \<and> bs = concat (map out cs) \<and> length bs \<le> room" by auto
next
  assume "\<exists>cs. list_all valid cs \<and> frm = concat (map inp cs) \<and> rest = [] \<and> bs = concat (map out cs) \<and>
      length bs \<le> room"
  then show "enc_loop body frm room = (ok, rest, bs)" by (auto simp: enc_all)
qed

end

section \<open>Measuring\<close>

text \<open>The body of a \<open>_length\<close> function against the body of its decoder.\<close>

fun counted :: "'b step \<Rightarrow> (nat \<times> nat) option" where
  "counted (Stop r) = None"
| "counted (Emit k bs) = Some (k, length bs - 1)"

locale length_body =
  fixes g :: nat and body :: "'a list \<Rightarrow> nat \<Rightarrow> 'b step"
    and lbody :: "'a list \<Rightarrow> nat \<Rightarrow> (nat \<times> nat) option" and longest :: nat
  assumes len_eq: "g < length frm \<Longrightarrow> 0 < room \<Longrightarrow> lbody frm room = counted (body frm room)"
    and emit_some: "body frm room = Emit k bs \<Longrightarrow> bs \<noteq> [] \<and> k < longest \<and> Suc k \<le> length frm"
begin

text \<open>The measured length is what the decoder consumes with room for \<open>mx\<close> characters.\<close>

theorem len_loop_dec:
  "dec_loop g body frm mx = (r, rest, bs) \<Longrightarrow> len_loop g lbody frm mx = length frm - length rest"
proof (induction "length frm" arbitrary: frm mx bs rule: less_induct)
  case less
  show ?case
  proof (cases "length frm \<le> g \<or> mx = 0")
    case True
    then have "len_loop g lbody frm mx = 0" by (intro len_loop_stop) auto
    with True less.prems show ?thesis by (auto simp: dec_loop.simps [of g body frm mx])
  next
    case False
    then have l: "lbody frm mx = counted (body frm mx)" by (intro len_eq) auto
    show ?thesis
    proof (cases "body frm mx")
      case (Stop e)
      with l have "len_loop g lbody frm mx = 0" by (intro len_loop_stop) auto
      with Stop less.prems False show ?thesis by (auto simp: dec_loop.simps [of g body frm mx])
    next
      case (Emit k out')
      from emit_some [OF Emit] have e: "out' \<noteq> []" "Suc k \<le> length frm" by auto
      then have s: "Suc (length out' - 1) = length out'" by (cases out') auto
      obtain bs' where bs': "dec_loop g body (drop (Suc k) frm) (mx - length out') = (r, rest, bs')"
        using less.prems False Emit
        by (cases "dec_loop g body (drop (Suc k) frm) (mx - length out')")
          (auto simp: dec_loop.simps [of g body frm mx])
      have d: "length (drop (Suc k) frm) < length frm" using e by simp
      have "length rest \<le> length (drop (Suc k) frm)"
        using less.hyps [OF d bs'] rest_le [OF bs'] by simp
      with less.hyps [OF d bs'] False l Emit s e show ?thesis
        by (simp add: len_loop.simps [of g lbody frm mx])
    qed
  qed
qed

text \<open>A single character takes at most \<open>longest\<close> units.\<close>

lemma len_loop_one: "len_loop g lbody frm 1 \<le> longest"
proof (cases "length frm \<le> g \<or> lbody frm 1 = None")
  case True
  then have "len_loop g lbody frm 1 = 0" by (intro len_loop_stop) auto
  then show ?thesis by simp
next
  case False
  then obtain k e where l: "lbody frm 1 = Some (k, e)" by auto
  with False len_eq [of frm 1] obtain bs where "body frm 1 = Emit k bs"
    by (cases "body frm 1") auto
  from emit_some [OF this] have "Suc k \<le> longest" by simp
  moreover have "len_loop g lbody (drop (Suc k) frm) (1 - Suc e) = 0" by (intro len_loop_stop) simp
  ultimately show ?thesis using False l by (subst len_loop.simps) simp
qed

end

end
