(* ===== verification/Utf.thy ===== *)
theory Utf
  imports CodecvtLoops
begin

text \<open>
  The UTF conversions of \<open>libcxx/src/locale.cpp\<close>: between UTF-8, UTF-16 (as code units and as
  big- or little-endian bytes), UCS-2 and UCS-4. Each function of the source is a body for one of
  the loops of \<open>CodecvtLoops\<close> and the conversion that runs it. \<open>Maxcode\<close> is an
  \<open>unsigned long\<close>, code units have their width, and intermediate values are computed at the width
  of \<open>int\<close> or \<open>unsigned long\<close>.
\<close>

section \<open>Modes and byte order marks\<close>

type_synonym codecvt_mode = u32

definition consume_header :: codecvt_mode where "consume_header = 4"
definition generate_header :: codecvt_mode where "generate_header = 2"
definition little_endian :: codecvt_mode where "little_endian = 1"

definition utf8_mark :: "u8 list" where "utf8_mark = [0xEF, 0xBB, 0xBF]"
definition utf16be_mark :: "u8 list" where "utf16be_mark = [0xFE, 0xFF]"
definition utf16le_mark :: "u8 list" where "utf16le_mark = [0xFF, 0xFE]"

text \<open>\<open>if (mode & generate_header)\<close>: write the mark, or give up when it does not fit.\<close>

definition encode :: "u8 list \<Rightarrow> codecvt_mode \<Rightarrow> ('a list \<Rightarrow> nat \<Rightarrow> u8 step) \<Rightarrow> 'a list \<Rightarrow> nat \<Rightarrow>
    result \<times> 'a list \<times> u8 list" where
  "encode mark mode body frm room =
     (if mode AND generate_header \<noteq> 0
      then if room < length mark then (partial, frm, [])
           else emit mark (enc_loop body frm (room - length mark))
      else enc_loop body frm room)"

text \<open>\<open>if (mode & consume_header)\<close>: skip the mark when the input starts with it.\<close>

definition skip_mark :: "u8 list \<Rightarrow> codecvt_mode \<Rightarrow> u8 list \<Rightarrow> u8 list" where
  "skip_mark mark mode frm =
     (if mode AND consume_header \<noteq> 0 \<and> length mark \<le> length frm \<and> take (length mark) frm = mark
      then drop (length mark) frm else frm)"

definition decode :: "nat \<Rightarrow> u8 list \<Rightarrow> codecvt_mode \<Rightarrow> (u8 list \<Rightarrow> nat \<Rightarrow> 'b step) \<Rightarrow> u8 list \<Rightarrow> nat \<Rightarrow>
    result \<times> u8 list \<times> 'b list" where
  "decode g mark mode body frm room = dec_loop g body (skip_mark mark mode frm) room"

definition measure_input :: "nat \<Rightarrow> u8 list \<Rightarrow> codecvt_mode \<Rightarrow>
    (u8 list \<Rightarrow> nat \<Rightarrow> (nat \<times> nat) option) \<Rightarrow> u8 list \<Rightarrow> nat \<Rightarrow> int" where
  "measure_input g mark mode body frm mx =
     (let frm_nxt = skip_mark mark mode frm
      in ptrdiff_to_int (length frm - length frm_nxt + len_loop g body frm_nxt mx))"

section \<open>UTF-16 to UTF-8\<close>

definition utf8_lead2 :: "u16 \<Rightarrow> u8 list" where
  "utf8_lead2 wc = [ucast (0xC0 OR drop_bit 6 wc), ucast (0x80 OR (wc AND 0x3F))]"

definition utf8_lead3 :: "u16 \<Rightarrow> u8 list" where
  "utf8_lead3 wc = [ucast (0xE0 OR drop_bit 12 wc), ucast (0x80 OR drop_bit 6 (wc AND 0x0FC0)),
                    ucast (0x80 OR (wc AND 0x3F))]"

text \<open>The four bytes of a surrogate pair; \<open>z\<close> is an 8-bit variable of the source.\<close>

definition utf8_pair :: "u16 \<Rightarrow> u16 \<Rightarrow> u8 list" where
  "utf8_pair wc1 wc2 =
     (let z = ucast (drop_bit 6 (wc1 AND 0x03C0) + 1) :: u8 in
      [0xF0 OR drop_bit 2 z,
       ucast (0x80 OR push_bit 4 (ucast z AND 0x03) OR drop_bit 2 (wc1 AND 0x003C)),
       ucast (0x80 OR push_bit 4 (wc1 AND 0x0003) OR drop_bit 6 (wc2 AND 0x03C0)),
       ucast (0x80 OR (wc2 AND 0x003F))])"

definition pair_code :: "u16 \<Rightarrow> u16 \<Rightarrow> u64" where
  "pair_code wc1 wc2 = push_bit 16 (drop_bit 6 (ucast wc1 AND 0x03C0) + 1) +
     push_bit 10 (ucast wc1 AND 0x003F) + (ucast wc2 AND 0x03FF)"

fun utf16_to_utf8_body :: "u64 \<Rightarrow> u16 list \<Rightarrow> nat \<Rightarrow> u8 step" where
  "utf16_to_utf8_body Maxcode [] room = Stop ok"
| "utf16_to_utf8_body Maxcode (wc1 # frm) room =
     (if Maxcode < ucast wc1 then Stop error
      else if wc1 < 0x0080 then
        if room < 1 then Stop partial else Emit 0 [ucast wc1]
      else if wc1 < 0x0800 then
        if room < 2 then Stop partial else Emit 0 (utf8_lead2 wc1)
      else if wc1 < 0xD800 then
        if room < 3 then Stop partial else Emit 0 (utf8_lead3 wc1)
      else if wc1 < 0xDC00 then
        (case frm of
           [] \<Rightarrow> Stop partial
         | wc2 # _ \<Rightarrow>
             if wc2 AND 0xFC00 \<noteq> 0xDC00 then Stop error
             else if room < 4 then Stop partial
             else if Maxcode < pair_code wc1 wc2 then Stop error
             else Emit 1 (utf8_pair wc1 wc2))
      else if wc1 < 0xE000 then Stop error
      else if room < 3 then Stop partial else Emit 0 (utf8_lead3 wc1))"

definition utf16_to_utf8 :: "u64 \<Rightarrow> codecvt_mode \<Rightarrow> u16 list \<Rightarrow> nat \<Rightarrow> result \<times> u16 list \<times> u8 list" where
  "utf16_to_utf8 Maxcode mode = encode utf8_mark mode (utf16_to_utf8_body Maxcode)"

text \<open>The overload for 32-bit units reads every unit through a cast to 16 bits.\<close>

definition utf16_to_utf8_u32 ::
  "u64 \<Rightarrow> codecvt_mode \<Rightarrow> u32 list \<Rightarrow> nat \<Rightarrow> result \<times> u32 list \<times> u8 list" where
  "utf16_to_utf8_u32 Maxcode mode =
     encode utf8_mark mode (\<lambda>frm room. utf16_to_utf8_body Maxcode (map ucast frm) room)"

section \<open>UTF-8 to UTF-16\<close>

text \<open>The \<open>switch (c1)\<close> on the second byte of three- and four-byte sequences.\<close>

definition bad_second3 :: "u8 \<Rightarrow> u8 \<Rightarrow> bool" where
  "bad_second3 c1 c2 =
     (if c1 = 0xE0 then c2 AND 0xE0 \<noteq> 0xA0
      else if c1 = 0xED then c2 AND 0xE0 \<noteq> 0x80
      else c2 AND 0xC0 \<noteq> 0x80)"

definition bad_second4 :: "u8 \<Rightarrow> u8 \<Rightarrow> bool" where
  "bad_second4 c1 c2 =
     (if c1 = 0xF0 then \<not> (0x90 \<le> c2 \<and> c2 \<le> 0xBF)
      else if c1 = 0xF4 then c2 AND 0xF0 \<noteq> 0x80
      else c2 AND 0xC0 \<noteq> 0x80)"

definition bad_trail :: "u8 \<Rightarrow> bool" where
  "bad_trail c = (c AND 0xC0 \<noteq> 0x80)"

definition code2 :: "u8 \<Rightarrow> u8 \<Rightarrow> u32" where
  "code2 c1 c2 = push_bit 6 (ucast c1 AND 0x1F) OR (ucast c2 AND 0x3F)"

definition code3 :: "u8 \<Rightarrow> u8 \<Rightarrow> u8 \<Rightarrow> u32" where
  "code3 c1 c2 c3 = push_bit 12 (ucast c1 AND 0x0F) OR push_bit 6 (ucast c2 AND 0x3F) OR
     (ucast c3 AND 0x3F)"

definition code4 :: "u8 \<Rightarrow> u8 \<Rightarrow> u8 \<Rightarrow> u8 \<Rightarrow> u32" where
  "code4 c1 c2 c3 c4 = push_bit 18 (ucast c1 AND 0x07) OR push_bit 12 (ucast c2 AND 0x3F) OR
     push_bit 6 (ucast c3 AND 0x3F) OR (ucast c4 AND 0x3F)"

definition sum4 :: "u8 \<Rightarrow> u8 \<Rightarrow> u8 \<Rightarrow> u8 \<Rightarrow> u64" where
  "sum4 c1 c2 c3 c4 = push_bit 18 (ucast c1 AND 7) + push_bit 12 (ucast c2 AND 0x3F) +
     push_bit 6 (ucast c3 AND 0x3F) + (ucast c4 AND 0x3F)"

definition high_unit :: "u8 \<Rightarrow> u8 \<Rightarrow> u8 \<Rightarrow> u16" where
  "high_unit c1 c2 c3 = ucast ((0xD800 :: u32) OR
     push_bit 6 ((push_bit 2 (ucast c1 AND 0x07) OR drop_bit 4 (ucast c2 AND 0x30)) - 1) OR
     push_bit 2 (ucast c2 AND 0x0F) OR drop_bit 4 (ucast c3 AND 0x30))"

definition low_unit :: "u8 \<Rightarrow> u8 \<Rightarrow> u16" where
  "low_unit c3 c4 = ucast ((0xDC00 :: u32) OR push_bit 6 (ucast c3 AND 0x0F) OR (ucast c4 AND 0x3F))"

fun utf8_to_utf16_body :: "u64 \<Rightarrow> u8 list \<Rightarrow> nat \<Rightarrow> u16 step" where
  "utf8_to_utf16_body Maxcode [] room = Stop ok"
| "utf8_to_utf16_body Maxcode (c1 # frm) room =
     (if Maxcode < ucast c1 then Stop error
      else if c1 < 0x80 then Emit 0 [ucast c1]
      else if c1 < 0xC2 then Stop error
      else if c1 < 0xE0 then
        (case frm of
           c2 # _ \<Rightarrow>
             if bad_trail c2 then Stop error
             else let t = ucast (code2 c1 c2) :: u16 in
               if Maxcode < ucast t then Stop error else Emit 1 [t]
         | _ \<Rightarrow> Stop partial)
      else if c1 < 0xF0 then
        (case frm of
           c2 # c3 # _ \<Rightarrow>
             if bad_second3 c1 c2 then Stop error
             else if bad_trail c3 then Stop error
             else let t = ucast (code3 c1 c2 c3) :: u16 in
               if Maxcode < ucast t then Stop error else Emit 2 [t]
         | _ \<Rightarrow> Stop partial)
      else if c1 < 0xF5 then
        (case frm of
           c2 # c3 # c4 # _ \<Rightarrow>
             if bad_second4 c1 c2 then Stop error
             else if bad_trail c3 \<or> bad_trail c4 then Stop error
             else if room < 2 then Stop partial
             else if Maxcode < sum4 c1 c2 c3 c4 then Stop error
             else Emit 3 [high_unit c1 c2 c3, low_unit c3 c4]
         | _ \<Rightarrow> Stop partial)
      else Stop error)"

definition utf8_to_utf16 :: "u64 \<Rightarrow> codecvt_mode \<Rightarrow> u8 list \<Rightarrow> nat \<Rightarrow> result \<times> u8 list \<times> u16 list" where
  "utf8_to_utf16 Maxcode mode = decode 0 utf8_mark mode (utf8_to_utf16_body Maxcode)"

text \<open>The overload for 32-bit units stores the same 16-bit values.\<close>

fun widen :: "u16 step \<Rightarrow> u32 step" where
  "widen (Stop r) = Stop r"
| "widen (Emit k ts) = Emit k (map ucast ts)"

definition utf8_to_utf16_u32 ::
  "u64 \<Rightarrow> codecvt_mode \<Rightarrow> u8 list \<Rightarrow> nat \<Rightarrow> result \<times> u8 list \<times> u32 list" where
  "utf8_to_utf16_u32 Maxcode mode =
     decode 0 utf8_mark mode (\<lambda>frm room. widen (utf8_to_utf16_body Maxcode frm room))"

fun utf8_to_utf16_length_body :: "u64 \<Rightarrow> u8 list \<Rightarrow> nat \<Rightarrow> (nat \<times> nat) option" where
  "utf8_to_utf16_length_body Maxcode [] mx = None"
| "utf8_to_utf16_length_body Maxcode (c1 # frm) mx =
     (if Maxcode < ucast c1 then None
      else if c1 < 0x80 then Some (0, 0)
      else if c1 < 0xC2 then None
      else if c1 < 0xE0 then
        (case frm of
           c2 # _ \<Rightarrow>
             if bad_trail c2 then None
             else let t = ucast (code2 c1 c2) :: u16 in
               if Maxcode < ucast t then None else Some (1, 0)
         | _ \<Rightarrow> None)
      else if c1 < 0xF0 then
        (case frm of
           c2 # c3 # _ \<Rightarrow>
             if bad_second3 c1 c2 then None
             else if bad_trail c3 then None
             else if Maxcode < ucast (code3 c1 c2 c3) then None else Some (2, 0)
         | _ \<Rightarrow> None)
      else if c1 < 0xF5 then
        (case frm of
           c2 # c3 # c4 # _ \<Rightarrow>
             if mx < 2 then None
             else if bad_second4 c1 c2 then None
             else if bad_trail c3 \<or> bad_trail c4 then None
             else if Maxcode < sum4 c1 c2 c3 c4 then None else Some (3, 1)
         | _ \<Rightarrow> None)
      else None)"

definition utf8_to_utf16_length :: "u64 \<Rightarrow> codecvt_mode \<Rightarrow> u8 list \<Rightarrow> nat \<Rightarrow> int" where
  "utf8_to_utf16_length Maxcode mode =
     measure_input 0 utf8_mark mode (utf8_to_utf16_length_body Maxcode)"

section \<open>UCS-4 and UTF-8\<close>

definition is_surrogate32 :: "u32 \<Rightarrow> bool" where
  "is_surrogate32 wc = (wc AND 0xFFFFF800 = 0x00D800)"

definition utf8_lead4 :: "u32 \<Rightarrow> u8 list" where
  "utf8_lead4 wc = [ucast (0xF0 OR drop_bit 18 wc), ucast (0x80 OR drop_bit 12 (wc AND 0x03F000)),
                    ucast (0x80 OR drop_bit 6 (wc AND 0x000FC0)), ucast (0x80 OR (wc AND 0x00003F))]"

fun ucs4_to_utf8_body :: "u64 \<Rightarrow> u32 list \<Rightarrow> nat \<Rightarrow> u8 step" where
  "ucs4_to_utf8_body Maxcode [] room = Stop ok"
| "ucs4_to_utf8_body Maxcode (wc # frm) room =
     (if is_surrogate32 wc \<or> Maxcode < ucast wc then Stop error
      else if wc < 0x000080 then
        if room < 1 then Stop partial else Emit 0 [ucast wc]
      else if wc < 0x000800 then
        if room < 2 then Stop partial
        else Emit 0 [ucast (0xC0 OR drop_bit 6 wc), ucast (0x80 OR (wc AND 0x03F))]
      else if wc < 0x010000 then
        if room < 3 then Stop partial
        else Emit 0 [ucast (0xE0 OR drop_bit 12 wc), ucast (0x80 OR drop_bit 6 (wc AND 0x0FC0)),
                     ucast (0x80 OR (wc AND 0x003F))]
      else if room < 4 then Stop partial else Emit 0 (utf8_lead4 wc))"

definition ucs4_to_utf8 :: "u64 \<Rightarrow> codecvt_mode \<Rightarrow> u32 list \<Rightarrow> nat \<Rightarrow> result \<times> u32 list \<times> u8 list" where
  "ucs4_to_utf8 Maxcode mode = encode utf8_mark mode (ucs4_to_utf8_body Maxcode)"

fun utf8_to_ucs4_body :: "u64 \<Rightarrow> u8 list \<Rightarrow> nat \<Rightarrow> u32 step" where
  "utf8_to_ucs4_body Maxcode [] room = Stop ok"
| "utf8_to_ucs4_body Maxcode (c1 # frm) room =
     (if c1 < 0x80 then
        if Maxcode < ucast c1 then Stop error else Emit 0 [ucast c1]
      else if c1 < 0xC2 then Stop error
      else if c1 < 0xE0 then
        (case frm of
           c2 # _ \<Rightarrow>
             if bad_trail c2 then Stop error
             else let t = code2 c1 c2 in
               if Maxcode < ucast t then Stop error else Emit 1 [t]
         | _ \<Rightarrow> Stop partial)
      else if c1 < 0xF0 then
        (case frm of
           c2 # c3 # _ \<Rightarrow>
             if bad_second3 c1 c2 then Stop error
             else if bad_trail c3 then Stop error
             else let t = code3 c1 c2 c3 in
               if Maxcode < ucast t then Stop error else Emit 2 [t]
         | _ \<Rightarrow> Stop partial)
      else if c1 < 0xF5 then
        (case frm of
           c2 # c3 # c4 # _ \<Rightarrow>
             if bad_second4 c1 c2 then Stop error
             else if bad_trail c3 \<or> bad_trail c4 then Stop error
             else let t = code4 c1 c2 c3 c4 in
               if Maxcode < ucast t then Stop error else Emit 3 [t]
         | _ \<Rightarrow> Stop partial)
      else Stop error)"

definition utf8_to_ucs4 :: "u64 \<Rightarrow> codecvt_mode \<Rightarrow> u8 list \<Rightarrow> nat \<Rightarrow> result \<times> u8 list \<times> u32 list" where
  "utf8_to_ucs4 Maxcode mode = decode 0 utf8_mark mode (utf8_to_ucs4_body Maxcode)"

fun utf8_to_ucs4_length_body :: "u64 \<Rightarrow> u8 list \<Rightarrow> nat \<Rightarrow> (nat \<times> nat) option" where
  "utf8_to_ucs4_length_body Maxcode [] mx = None"
| "utf8_to_ucs4_length_body Maxcode (c1 # frm) mx =
     (if c1 < 0x80 then
        if Maxcode < ucast c1 then None else Some (0, 0)
      else if c1 < 0xC2 then None
      else if c1 < 0xE0 then
        (case frm of
           c2 # _ \<Rightarrow>
             if bad_trail c2 then None
             else if Maxcode < ucast (code2 c1 c2) then None else Some (1, 0)
         | _ \<Rightarrow> None)
      else if c1 < 0xF0 then
        (case frm of
           c2 # c3 # _ \<Rightarrow>
             if bad_second3 c1 c2 then None
             else if bad_trail c3 then None
             else if Maxcode < ucast (code3 c1 c2 c3) then None else Some (2, 0)
         | _ \<Rightarrow> None)
      else if c1 < 0xF5 then
        (case frm of
           c2 # c3 # c4 # _ \<Rightarrow>
             if bad_second4 c1 c2 then None
             else if bad_trail c3 \<or> bad_trail c4 then None
             else if Maxcode < ucast (code4 c1 c2 c3 c4) then None else Some (3, 0)
         | _ \<Rightarrow> None)
      else None)"

definition utf8_to_ucs4_length :: "u64 \<Rightarrow> codecvt_mode \<Rightarrow> u8 list \<Rightarrow> nat \<Rightarrow> int" where
  "utf8_to_ucs4_length Maxcode mode =
     measure_input 0 utf8_mark mode (utf8_to_ucs4_length_body Maxcode)"

section \<open>UCS-2 and UTF-8\<close>

definition is_surrogate16 :: "u16 \<Rightarrow> bool" where
  "is_surrogate16 wc = (wc AND 0xF800 = 0xD800)"

fun ucs2_to_utf8_body :: "u64 \<Rightarrow> u16 list \<Rightarrow> nat \<Rightarrow> u8 step" where
  "ucs2_to_utf8_body Maxcode [] room = Stop ok"
| "ucs2_to_utf8_body Maxcode (wc # frm) room =
     (if is_surrogate16 wc \<or> Maxcode < ucast wc then Stop error
      else if wc < 0x0080 then
        if room < 1 then Stop partial else Emit 0 [ucast wc]
      else if wc < 0x0800 then
        if room < 2 then Stop partial else Emit 0 (utf8_lead2 wc)
      else if room < 3 then Stop partial else Emit 0 (utf8_lead3 wc))"

definition ucs2_to_utf8 :: "u64 \<Rightarrow> codecvt_mode \<Rightarrow> u16 list \<Rightarrow> nat \<Rightarrow> result \<times> u16 list \<times> u8 list" where
  "ucs2_to_utf8 Maxcode mode = encode utf8_mark mode (ucs2_to_utf8_body Maxcode)"

fun utf8_to_ucs2_body :: "u64 \<Rightarrow> u8 list \<Rightarrow> nat \<Rightarrow> u16 step" where
  "utf8_to_ucs2_body Maxcode [] room = Stop ok"
| "utf8_to_ucs2_body Maxcode (c1 # frm) room =
     (if c1 < 0x80 then
        if Maxcode < ucast c1 then Stop error else Emit 0 [ucast c1]
      else if c1 < 0xC2 then Stop error
      else if c1 < 0xE0 then
        (case frm of
           c2 # _ \<Rightarrow>
             if bad_trail c2 then Stop error
             else let t = ucast (code2 c1 c2) :: u16 in
               if Maxcode < ucast t then Stop error else Emit 1 [t]
         | _ \<Rightarrow> Stop partial)
      else if c1 < 0xF0 then
        (case frm of
           c2 # c3 # _ \<Rightarrow>
             if bad_second3 c1 c2 then Stop error
             else if bad_trail c3 then Stop error
             else let t = ucast (code3 c1 c2 c3) :: u16 in
               if Maxcode < ucast t then Stop error else Emit 2 [t]
         | _ \<Rightarrow> Stop partial)
      else Stop error)"

definition utf8_to_ucs2 :: "u64 \<Rightarrow> codecvt_mode \<Rightarrow> u8 list \<Rightarrow> nat \<Rightarrow> result \<times> u8 list \<times> u16 list" where
  "utf8_to_ucs2 Maxcode mode = decode 0 utf8_mark mode (utf8_to_ucs2_body Maxcode)"

fun utf8_to_ucs2_length_body :: "u64 \<Rightarrow> u8 list \<Rightarrow> nat \<Rightarrow> (nat \<times> nat) option" where
  "utf8_to_ucs2_length_body Maxcode [] mx = None"
| "utf8_to_ucs2_length_body Maxcode (c1 # frm) mx =
     (if c1 < 0x80 then
        if Maxcode < ucast c1 then None else Some (0, 0)
      else if c1 < 0xC2 then None
      else if c1 < 0xE0 then
        (case frm of
           c2 # _ \<Rightarrow>
             if bad_trail c2 then None
             else if Maxcode < ucast (code2 c1 c2) then None else Some (1, 0)
         | _ \<Rightarrow> None)
      else if c1 < 0xF0 then
        (case frm of
           c2 # c3 # _ \<Rightarrow>
             if bad_second3 c1 c2 then None
             else if bad_trail c3 then None
             else if Maxcode < ucast (code3 c1 c2 c3) then None else Some (2, 0)
         | _ \<Rightarrow> None)
      else None)"

definition utf8_to_ucs2_length :: "u64 \<Rightarrow> codecvt_mode \<Rightarrow> u8 list \<Rightarrow> nat \<Rightarrow> int" where
  "utf8_to_ucs2_length Maxcode mode =
     measure_input 0 utf8_mark mode (utf8_to_ucs2_length_body Maxcode)"

section \<open>UCS-4 and UTF-16 bytes\<close>

text \<open>The two byte orders: how a pair of bytes is joined to a unit, and how a unit is written.\<close>

definition join_be :: "u8 \<Rightarrow> u8 \<Rightarrow> u16" where
  "join_be b0 b1 = ucast (push_bit 8 (ucast b0 :: u32) OR ucast b1)"

definition join_le :: "u8 \<Rightarrow> u8 \<Rightarrow> u16" where
  "join_le b0 b1 = ucast (push_bit 8 (ucast b1 :: u32) OR ucast b0)"

definition put_be :: "u16 \<Rightarrow> u8 list" where
  "put_be t = [ucast (drop_bit 8 t), ucast t]"

definition put_le :: "u16 \<Rightarrow> u8 list" where
  "put_le t = [ucast t, ucast (drop_bit 8 t)]"

definition high_surrogate :: "u32 \<Rightarrow> u16" where
  "high_surrogate wc = ucast (0xD800 OR push_bit 6 (drop_bit 16 (wc AND 0x1F0000) - 1) OR
     drop_bit 10 (wc AND 0x00FC00))"

definition low_surrogate :: "u32 \<Rightarrow> u16" where
  "low_surrogate wc = ucast (0xDC00 OR (wc AND 0x03FF))"

text \<open>The loops of the big- and little-endian functions differ only in the byte order, which is
  the parameter \<open>put\<close> or \<open>join\<close>.\<close>

fun ucs4_to_utf16_bytes_body :: "(u16 \<Rightarrow> u8 list) \<Rightarrow> u64 \<Rightarrow> u32 list \<Rightarrow> nat \<Rightarrow> u8 step" where
  "ucs4_to_utf16_bytes_body put Maxcode [] room = Stop ok"
| "ucs4_to_utf16_bytes_body put Maxcode (wc # frm) room =
     (if is_surrogate32 wc \<or> Maxcode < ucast wc then Stop error
      else if wc < 0x010000 then
        if room < 2 then Stop partial else Emit 0 (put (ucast wc))
      else if room < 4 then Stop partial
      else Emit 0 (put (high_surrogate wc) @ put (low_surrogate wc)))"

definition pair_code32 :: "u16 \<Rightarrow> u16 \<Rightarrow> u32" where
  "pair_code32 c1 c2 = push_bit 16 (drop_bit 6 (ucast c1 AND 0x03C0) + 1) OR
     push_bit 10 (ucast c1 AND 0x003F) OR (ucast c2 AND 0x03FF)"

fun utf16_bytes_to_ucs4_body :: "(u8 \<Rightarrow> u8 \<Rightarrow> u16) \<Rightarrow> u64 \<Rightarrow> u8 list \<Rightarrow> nat \<Rightarrow> u32 step" where
  "utf16_bytes_to_ucs4_body join Maxcode (b0 # b1 # frm) room =
     (let c1 = join b0 b1 in
      if c1 AND 0xFC00 = 0xDC00 then Stop error
      else if c1 AND 0xFC00 \<noteq> 0xD800 then
        if Maxcode < ucast c1 then Stop error else Emit 1 [ucast c1]
      else
        (case frm of
           b2 # b3 # _ \<Rightarrow>
             let c2 = join b2 b3 in
             if c2 AND 0xFC00 \<noteq> 0xDC00 then Stop error
             else let t = pair_code32 c1 c2 in
               if Maxcode < ucast t then Stop error else Emit 3 [t]
         | _ \<Rightarrow> Stop partial))"
| "utf16_bytes_to_ucs4_body join Maxcode frm room = Stop partial"

fun utf16_bytes_to_ucs4_length_body ::
  "(u8 \<Rightarrow> u8 \<Rightarrow> u16) \<Rightarrow> u64 \<Rightarrow> u8 list \<Rightarrow> nat \<Rightarrow> (nat \<times> nat) option" where
  "utf16_bytes_to_ucs4_length_body join Maxcode (b0 # b1 # frm) mx =
     (let c1 = join b0 b1 in
      if c1 AND 0xFC00 = 0xDC00 then None
      else if c1 AND 0xFC00 \<noteq> 0xD800 then
        if Maxcode < ucast c1 then None else Some (1, 0)
      else
        (case frm of
           b2 # b3 # _ \<Rightarrow>
             let c2 = join b2 b3 in
             if c2 AND 0xFC00 \<noteq> 0xDC00 then None
             else if Maxcode < ucast (pair_code32 c1 c2) then None else Some (3, 0)
         | _ \<Rightarrow> None))"
| "utf16_bytes_to_ucs4_length_body join Maxcode frm mx = None"

definition ucs4_to_utf16be :: "u64 \<Rightarrow> codecvt_mode \<Rightarrow> u32 list \<Rightarrow> nat \<Rightarrow> result \<times> u32 list \<times> u8 list" where
  "ucs4_to_utf16be Maxcode mode = encode utf16be_mark mode (ucs4_to_utf16_bytes_body put_be Maxcode)"

definition utf16be_to_ucs4 :: "u64 \<Rightarrow> codecvt_mode \<Rightarrow> u8 list \<Rightarrow> nat \<Rightarrow> result \<times> u8 list \<times> u32 list" where
  "utf16be_to_ucs4 Maxcode mode = decode 1 utf16be_mark mode (utf16_bytes_to_ucs4_body join_be Maxcode)"

definition utf16be_to_ucs4_length :: "u64 \<Rightarrow> codecvt_mode \<Rightarrow> u8 list \<Rightarrow> nat \<Rightarrow> int" where
  "utf16be_to_ucs4_length Maxcode mode =
     measure_input 1 utf16be_mark mode (utf16_bytes_to_ucs4_length_body join_be Maxcode)"

definition ucs4_to_utf16le :: "u64 \<Rightarrow> codecvt_mode \<Rightarrow> u32 list \<Rightarrow> nat \<Rightarrow> result \<times> u32 list \<times> u8 list" where
  "ucs4_to_utf16le Maxcode mode = encode utf16le_mark mode (ucs4_to_utf16_bytes_body put_le Maxcode)"

definition utf16le_to_ucs4 :: "u64 \<Rightarrow> codecvt_mode \<Rightarrow> u8 list \<Rightarrow> nat \<Rightarrow> result \<times> u8 list \<times> u32 list" where
  "utf16le_to_ucs4 Maxcode mode = decode 1 utf16le_mark mode (utf16_bytes_to_ucs4_body join_le Maxcode)"

definition utf16le_to_ucs4_length :: "u64 \<Rightarrow> codecvt_mode \<Rightarrow> u8 list \<Rightarrow> nat \<Rightarrow> int" where
  "utf16le_to_ucs4_length Maxcode mode =
     measure_input 1 utf16le_mark mode (utf16_bytes_to_ucs4_length_body join_le Maxcode)"

section \<open>UCS-2 and UTF-16 bytes\<close>

fun ucs2_to_utf16_bytes_body :: "(u16 \<Rightarrow> u8 list) \<Rightarrow> u64 \<Rightarrow> u16 list \<Rightarrow> nat \<Rightarrow> u8 step" where
  "ucs2_to_utf16_bytes_body put Maxcode [] room = Stop ok"
| "ucs2_to_utf16_bytes_body put Maxcode (wc # frm) room =
     (if is_surrogate16 wc \<or> Maxcode < ucast wc then Stop error
      else if room < 2 then Stop partial
      else Emit 0 (put wc))"

fun utf16_bytes_to_ucs2_body :: "(u8 \<Rightarrow> u8 \<Rightarrow> u16) \<Rightarrow> u64 \<Rightarrow> u8 list \<Rightarrow> nat \<Rightarrow> u16 step" where
  "utf16_bytes_to_ucs2_body join Maxcode (b0 # b1 # frm) room =
     (let c1 = join b0 b1 in
      if is_surrogate16 c1 \<or> Maxcode < ucast c1 then Stop error else Emit 1 [c1])"
| "utf16_bytes_to_ucs2_body join Maxcode frm room = Stop partial"

fun utf16_bytes_to_ucs2_length_body ::
  "(u8 \<Rightarrow> u8 \<Rightarrow> u16) \<Rightarrow> u64 \<Rightarrow> u8 list \<Rightarrow> nat \<Rightarrow> (nat \<times> nat) option" where
  "utf16_bytes_to_ucs2_length_body join Maxcode (b0 # b1 # frm) mx =
     (let c1 = join b0 b1 in
      if is_surrogate16 c1 \<or> Maxcode < ucast c1 then None else Some (1, 0))"
| "utf16_bytes_to_ucs2_length_body join Maxcode frm mx = None"

definition ucs2_to_utf16be :: "u64 \<Rightarrow> codecvt_mode \<Rightarrow> u16 list \<Rightarrow> nat \<Rightarrow> result \<times> u16 list \<times> u8 list" where
  "ucs2_to_utf16be Maxcode mode = encode utf16be_mark mode (ucs2_to_utf16_bytes_body put_be Maxcode)"

definition utf16be_to_ucs2 :: "u64 \<Rightarrow> codecvt_mode \<Rightarrow> u8 list \<Rightarrow> nat \<Rightarrow> result \<times> u8 list \<times> u16 list" where
  "utf16be_to_ucs2 Maxcode mode = decode 1 utf16be_mark mode (utf16_bytes_to_ucs2_body join_be Maxcode)"

definition utf16be_to_ucs2_length :: "u64 \<Rightarrow> codecvt_mode \<Rightarrow> u8 list \<Rightarrow> nat \<Rightarrow> int" where
  "utf16be_to_ucs2_length Maxcode mode =
     measure_input 1 utf16be_mark mode (utf16_bytes_to_ucs2_length_body join_be Maxcode)"

definition ucs2_to_utf16le :: "u64 \<Rightarrow> codecvt_mode \<Rightarrow> u16 list \<Rightarrow> nat \<Rightarrow> result \<times> u16 list \<times> u8 list" where
  "ucs2_to_utf16le Maxcode mode = encode utf16le_mark mode (ucs2_to_utf16_bytes_body put_le Maxcode)"

definition utf16le_to_ucs2 :: "u64 \<Rightarrow> codecvt_mode \<Rightarrow> u8 list \<Rightarrow> nat \<Rightarrow> result \<times> u8 list \<times> u16 list" where
  "utf16le_to_ucs2 Maxcode mode = decode 1 utf16le_mark mode (utf16_bytes_to_ucs2_body join_le Maxcode)"

definition utf16le_to_ucs2_length :: "u64 \<Rightarrow> codecvt_mode \<Rightarrow> u8 list \<Rightarrow> nat \<Rightarrow> int" where
  "utf16le_to_ucs2_length Maxcode mode =
     measure_input 1 utf16le_mark mode (utf16_bytes_to_ucs2_length_body join_le Maxcode)"

end
