(* ===== verification/Unicode.thy ===== *)
theory Unicode
  imports Utf
begin

text \<open>
  What the conversions are meant to compute: the Unicode scalar values and their representations
  in UTF-8 and UTF-16, on natural numbers. The lemmas express the shifts and masks of \<open>Utf\<close> by
  division and remainder.
\<close>

section \<open>Representations of a scalar value\<close>

definition is_scalar :: "nat \<Rightarrow> bool" where
  "is_scalar c = (c < 0x110000 \<and> \<not> (0xD800 \<le> c \<and> c < 0xE000))"

definition utf8_bytes :: "nat \<Rightarrow> u8 list" where
  "utf8_bytes c =
     (if c < 0x80 then [of_nat c]
      else if c < 0x800 then [of_nat (0xC0 + c div 0x40), of_nat (0x80 + c mod 0x40)]
      else if c < 0x10000 then
        [of_nat (0xE0 + c div 0x1000), of_nat (0x80 + c div 0x40 mod 0x40), of_nat (0x80 + c mod 0x40)]
      else [of_nat (0xF0 + c div 0x40000), of_nat (0x80 + c div 0x1000 mod 0x40),
            of_nat (0x80 + c div 0x40 mod 0x40), of_nat (0x80 + c mod 0x40)])"

definition utf16_units :: "nat \<Rightarrow> u16 list" where
  "utf16_units c =
     (if c < 0x10000 then [of_nat c]
      else [of_nat (0xD800 + (c - 0x10000) div 0x400), of_nat (0xDC00 + (c - 0x10000) mod 0x400)])"

section \<open>Masks and shifts\<close>

lemma and_mask_shifted: "n AND push_bit j (mask k) = (n div 2 ^ j mod 2 ^ k) * 2 ^ j" for n :: nat
proof -
  have "n AND push_bit j (mask k) = push_bit j (take_bit k (drop_bit j n))"
    by (rule bit_eqI) (auto simp: bit_simps)
  then show ?thesis by (simp add: push_bit_eq_mult take_bit_eq_mod drop_bit_eq_div)
qed

lemma or_low: "b < 2 ^ j \<Longrightarrow> 2 ^ j dvd a \<Longrightarrow> a OR b = a + b" for a b :: nat
proof -
  assume b: "b < 2 ^ j" and "2 ^ j dvd a"
  then obtain m where a: "a = push_bit j m" by (auto simp: push_bit_eq_mult elim: dvdE)
  from b have "take_bit j b = b" by (simp add: take_bit_nat_eq_self_iff)
  with a have "a AND b = 0" by (intro bit_eqI) (metis bit_0_eq bit_and_iff bit_push_bit_iff
    bit_take_bit_iff bot_apply bot_bool_def linorder_not_le)
  then show ?thesis by (simp add: disjunctive_add_eq_or)
qed

lemma and_3 [word_arith]: "n AND 3 = n mod 4" for n :: nat
  using and_mask_shifted [of n 0 2] unfolding mask_eq_exp_minus_1 push_bit_eq_mult by simp

lemma and_7 [word_arith]: "n AND 7 = n mod 8" for n :: nat
  using and_mask_shifted [of n 0 3] unfolding mask_eq_exp_minus_1 push_bit_eq_mult by simp

lemma and_15 [word_arith]: "n AND 15 = n mod 16" for n :: nat
  using and_mask_shifted [of n 0 4] unfolding mask_eq_exp_minus_1 push_bit_eq_mult by simp

lemma and_31 [word_arith]: "n AND 31 = n mod 32" for n :: nat
  using and_mask_shifted [of n 0 5] unfolding mask_eq_exp_minus_1 push_bit_eq_mult by simp

lemma and_63 [word_arith]: "n AND 63 = n mod 64" for n :: nat
  using and_mask_shifted [of n 0 6] unfolding mask_eq_exp_minus_1 push_bit_eq_mult by simp

lemma and_1023 [word_arith]: "n AND 1023 = n mod 1024" for n :: nat
  using and_mask_shifted [of n 0 10] unfolding mask_eq_exp_minus_1 push_bit_eq_mult by simp

lemma and_48 [word_arith]: "n AND 48 = (n div 16 mod 4) * 16" for n :: nat
  using and_mask_shifted [of n 4 2] unfolding mask_eq_exp_minus_1 push_bit_eq_mult by simp

lemma and_60 [word_arith]: "n AND 60 = (n div 4 mod 16) * 4" for n :: nat
  using and_mask_shifted [of n 2 4] unfolding mask_eq_exp_minus_1 push_bit_eq_mult by simp

lemma and_192 [word_arith]: "n AND 192 = (n div 64 mod 4) * 64" for n :: nat
  using and_mask_shifted [of n 6 2] unfolding mask_eq_exp_minus_1 push_bit_eq_mult by simp

lemma and_224 [word_arith]: "n AND 224 = (n div 32 mod 8) * 32" for n :: nat
  using and_mask_shifted [of n 5 3] unfolding mask_eq_exp_minus_1 push_bit_eq_mult by simp

lemma and_240 [word_arith]: "n AND 240 = (n div 16 mod 16) * 16" for n :: nat
  using and_mask_shifted [of n 4 4] unfolding mask_eq_exp_minus_1 push_bit_eq_mult by simp

lemma and_960 [word_arith]: "n AND 960 = (n div 64 mod 16) * 64" for n :: nat
  using and_mask_shifted [of n 6 4] unfolding mask_eq_exp_minus_1 push_bit_eq_mult by simp

lemma and_4032 [word_arith]: "n AND 4032 = (n div 64 mod 64) * 64" for n :: nat
  using and_mask_shifted [of n 6 6] unfolding mask_eq_exp_minus_1 push_bit_eq_mult by simp

lemma and_258048 [word_arith]: "n AND 258048 = (n div 4096 mod 64) * 4096" for n :: nat
  using and_mask_shifted [of n 12 6] unfolding mask_eq_exp_minus_1 push_bit_eq_mult by simp

lemma and_63488 [word_arith]: "n AND 63488 = (n div 2048 mod 32) * 2048" for n :: nat
  using and_mask_shifted [of n 11 5] unfolding mask_eq_exp_minus_1 push_bit_eq_mult by simp

lemma and_64512 [word_arith]: "n AND 64512 = (n div 1024 mod 64) * 1024" for n :: nat
  using and_mask_shifted [of n 10 6] unfolding mask_eq_exp_minus_1 push_bit_eq_mult by simp

lemma and_2031616 [word_arith]: "n AND 2031616 = (n div 65536 mod 32) * 65536" for n :: nat
  using and_mask_shifted [of n 16 5] unfolding mask_eq_exp_minus_1 push_bit_eq_mult by simp

lemma and_4294965248 [word_arith]: "n AND 4294965248 = (n div 2048 mod 2097152) * 2048" for n :: nat
  using and_mask_shifted [of n 11 21] unfolding mask_eq_exp_minus_1 push_bit_eq_mult by simp

lemma unat_widen:
  "unat (ucast (a :: u8) :: u16) = unat a" "unat (ucast a :: u32) = unat a" "unat (ucast a :: u64) = unat a"
  "unat (ucast (b :: u16) :: u32) = unat b" "unat (ucast b :: u64) = unat b"
  "unat (ucast (c :: u32) :: u64) = unat c"
  by (simp_all add: unat_ucast_up)

lemma unat_narrow:
  "unat (ucast (b :: u16) :: u8) = unat b mod 256" "unat (ucast (c :: u32) :: u8) = unat c mod 256"
  "unat (ucast c :: u16) = unat c mod 65536"
  by (simp_all add: unsigned_ucast_eq take_bit_eq_mod)

lemma mod_256_64 [word_arith]: "n mod 256 mod 64 = n mod 64" for n :: nat
  by (rule mod_mod_cancel) simp

lemmas word_to_nat = unsigned_and_eq unsigned_or_eq unsigned_drop_bit_eq unsigned_push_bit_eq
  unat_widen unat_narrow take_bit_eq_mod drop_bit_eq_div push_bit_eq_mult word_arith

lemma div_is: "(x div n = q) = (q * n \<le> x \<and> x < (q + 1) * n)" if "0 < n" for x n q :: nat
proof
  assume "x div n = q"
  with that show "q * n \<le> x \<and> x < (q + 1) * n"
    using div_mult_mod_eq [of x n] mod_less_divisor [OF that, of x] by auto
next
  assume "q * n \<le> x \<and> x < (q + 1) * n"
  then show "x div n = q" by (intro div_nat_eqI) (auto simp: mult.commute)
qed

lemma mod_is: "q * n \<le> x \<Longrightarrow> x < (q + 1) * n \<Longrightarrow> x mod n = x - q * n" for x n q :: nat
  using div_is [of n x q] by (cases "n = 0") (auto simp: modulo_nat_def mult.commute)

section \<open>Bytes\<close>

lemma bad_trail_iff: "bad_trail c = (\<not> (128 \<le> unat c \<and> unat c < 192))"
proof -
  have "(c AND 0xC0 = 0x80) = (unat c div 64 mod 4 = 2)"
    unfolding word_unat_eq_iff by (simp add: word_to_nat)
  moreover have "unat c div 64 < 4" using unat_8_bound [of c] by (simp add: div_less_iff_less_mult)
  ultimately show ?thesis by (simp add: bad_trail_def div_is)
qed

lemma bad_second3_iff:
  "bad_second3 c1 c2 = (\<not> ((if c1 = 0xE0 then 160 else 128) \<le> unat c2 \<and>
                            unat c2 < (if c1 = 0xED then 160 else 192)))"
proof -
  have "(c2 AND 0xE0 = 0xA0) = (unat c2 div 32 mod 8 = 5)" "(c2 AND 0xE0 = 0x80) = (unat c2 div 32 mod 8 = 4)"
    unfolding word_unat_eq_iff by (simp_all add: word_to_nat)
  moreover have "unat c2 div 32 < 8" using unat_8_bound [of c2] by (simp add: div_less_iff_less_mult)
  moreover have "(c2 AND 0xC0 \<noteq> 0x80) = (\<not> (128 \<le> unat c2 \<and> unat c2 < 192))"
    using bad_trail_iff [of c2] by (simp add: bad_trail_def)
  ultimately show ?thesis by (simp add: bad_second3_def div_is)
qed

lemma bad_second4_iff:
  "bad_second4 c1 c2 = (\<not> ((if c1 = 0xF0 then 144 else 128) \<le> unat c2 \<and>
                            unat c2 < (if c1 = 0xF4 then 144 else 192)))"
proof -
  have "(c2 AND 0xF0 = 0x80) = (unat c2 div 16 mod 16 = 8)"
    unfolding word_unat_eq_iff by (simp add: word_to_nat)
  moreover have "unat c2 div 16 < 16" using unat_8_bound [of c2] by (simp add: div_less_iff_less_mult)
  moreover have "(c2 AND 0xC0 \<noteq> 0x80) = (\<not> (128 \<le> unat c2 \<and> unat c2 < 192))"
    using bad_trail_iff [of c2] by (simp add: bad_trail_def)
  moreover have "(0x90 \<le> c2 \<and> c2 \<le> 0xBF) = (144 \<le> unat c2 \<and> unat c2 < 192)"
    by (auto simp: word_arith)
  ultimately show ?thesis by (simp add: bad_second4_def div_is)
qed

lemma unat_code2: "unat (code2 c1 c2) = unat c1 mod 32 * 64 + unat c2 mod 64"
proof -
  have "unat (code2 c1 c2) = (unat c1 mod 32 * 64) OR (unat c2 mod 64)"
    by (simp add: code2_def word_to_nat)
  also have "\<dots> = unat c1 mod 32 * 64 + unat c2 mod 64" by (rule or_low [where j = 6]) simp_all
  finally show ?thesis .
qed

lemma less_mod: "unat c mod n * k < m" if "(n - 1) * k < m" "0 < n" for k n m :: nat
proof -
  from \<open>0 < n\<close> have "unat c mod n \<le> n - 1" using mod_less_divisor [of n "unat c"] by linarith
  then have "unat c mod n * k \<le> (n - 1) * k" by (rule mult_le_mono1)
  then show ?thesis using that(1) by (rule order_le_less_trans)
qed

lemma or_low3: "b < 2 ^ j \<Longrightarrow> 2 ^ j dvd a \<Longrightarrow> c < 2 ^ i \<Longrightarrow> 2 ^ i dvd a \<Longrightarrow> 2 ^ i dvd b \<Longrightarrow> (a OR b) OR c = a + b + c"
  for a b c :: nat
  by (simp add: or_low [where j = j] or_low [where j = i])

lemma unat_code3: "unat (code3 c1 c2 c3) = unat c1 mod 16 * 4096 + unat c2 mod 64 * 64 + unat c3 mod 64"
proof -
  have "unat (code3 c1 c2 c3) = (unat c1 mod 16 * 4096 OR unat c2 mod 64 * 64) OR unat c3 mod 64"
    by (simp add: code3_def word_to_nat or.assoc)
  also have "\<dots> = unat c1 mod 16 * 4096 + unat c2 mod 64 * 64 + unat c3 mod 64"
    by (rule or_low3 [where j = 12 and i = 6]) (simp_all add: less_mod)
  finally show ?thesis .
qed

lemma unat_code4:
  "unat (code4 c1 c2 c3 c4) =
     unat c1 mod 8 * 262144 + unat c2 mod 64 * 4096 + unat c3 mod 64 * 64 + unat c4 mod 64"
proof -
  have "unat (code4 c1 c2 c3 c4) =
      ((unat c1 mod 8 * 262144 OR unat c2 mod 64 * 4096) OR unat c3 mod 64 * 64) OR unat c4 mod 64"
    by (simp add: code4_def word_to_nat or.assoc)
  also have "(unat c1 mod 8 * 262144 OR unat c2 mod 64 * 4096) OR unat c3 mod 64 * 64 =
      unat c1 mod 8 * 262144 + unat c2 mod 64 * 4096 + unat c3 mod 64 * 64"
    by (rule or_low3 [where j = 18 and i = 12]) (simp_all add: less_mod)
  also have "(unat c1 mod 8 * 262144 + unat c2 mod 64 * 4096 + unat c3 mod 64 * 64) OR unat c4 mod 64 =
      unat c1 mod 8 * 262144 + unat c2 mod 64 * 4096 + unat c3 mod 64 * 64 + unat c4 mod 64"
    by (rule or_low [where j = 6]) simp_all
  finally show ?thesis .
qed

lemma unat_sum4:
  "unat (sum4 c1 c2 c3 c4) =
     unat c1 mod 8 * 262144 + unat c2 mod 64 * 4096 + unat c3 mod 64 * 64 + unat c4 mod 64"
proof -
  have "unat c1 mod 8 * 262144 + unat c2 mod 64 * 4096 + unat c3 mod 64 * 64 + unat c4 mod 64 < 18446744073709551616"
    using less_mod [of 8 262144 2097152 c1] less_mod [of 64 4096 262144 c2] less_mod [of 64 64 4096 c3]
      less_mod [of 64 1 64 c4] by simp
  then show ?thesis by (simp add: sum4_def word_to_nat)
qed

lemma less_mod16: "unat c div d mod n * k < m" if "(n - 1) * k < m" "0 < n" for k n m d :: nat
proof -
  from \<open>0 < n\<close> have "unat c div d mod n \<le> n - 1" using mod_less_divisor [of n "unat c div d"] by linarith
  then have "unat c div d mod n * k \<le> (n - 1) * k" by (rule mult_le_mono1)
  then show ?thesis using that(1) by (rule order_le_less_trans)
qed

lemma of_nat_eqI: "unat w = n \<Longrightarrow> w = of_nat n"
  by auto

section \<open>Code units\<close>

lemma unat_join: "unat (join_be b0 b1) = unat b0 * 256 + unat b1" "unat (join_le b1 b0) = unat b0 * 256 + unat b1"
proof -
  have u: "unat b0 * 256 + unat b1 < 65536" using unat_8_bound [of b0] unat_8_bound [of b1] by linarith
  have "(unat b0 * 256) OR (unat b1) = unat b0 * 256 + unat b1" by (rule or_low [where j = 8]) simp_all
  then show "unat (join_be b0 b1) = unat b0 * 256 + unat b1" "unat (join_le b1 b0) = unat b0 * 256 + unat b1"
    using u by (simp_all add: join_be_def join_le_def word_to_nat)
qed

lemma surrogate_high: "(c AND 0xFC00 = 0xD800) = (0xD800 \<le> unat c \<and> unat c < 0xDC00)"
  and surrogate_low: "(c AND 0xFC00 = 0xDC00) = (0xDC00 \<le> unat c \<and> unat c < 0xE000)"
  and surrogate_16: "(c AND 0xF800 = 0xD800) = (0xD800 \<le> unat c \<and> unat c < 0xE000)" for c :: u16
proof -
  have "(c AND 0xFC00 = 0xD800) = (unat c div 1024 mod 64 = 54)"
    "(c AND 0xFC00 = 0xDC00) = (unat c div 1024 mod 64 = 55)"
    "(c AND 0xF800 = 0xD800) = (unat c div 2048 mod 32 = 27)"
    unfolding word_unat_eq_iff by (simp_all add: word_to_nat)
  moreover have "unat c div 1024 < 64" "unat c div 2048 < 32"
    using unat_16_bound [of c] by (simp_all add: div_less_iff_less_mult)
  ultimately show "(c AND 0xFC00 = 0xD800) = (0xD800 \<le> unat c \<and> unat c < 0xDC00)"
    "(c AND 0xFC00 = 0xDC00) = (0xDC00 \<le> unat c \<and> unat c < 0xE000)"
    "(c AND 0xF800 = 0xD800) = (0xD800 \<le> unat c \<and> unat c < 0xE000)" by (simp_all add: div_is)
qed

lemma surrogate_32: "is_surrogate32 c = (0xD800 \<le> unat c \<and> unat c < 0xE000)"
proof -
  have "is_surrogate32 c = (unat c div 2048 mod 2097152 = 27)"
    unfolding is_surrogate32_def word_unat_eq_iff by (simp add: word_to_nat)
  moreover have "unat c div 2048 < 2097152" using unat_32_bound [of c] by (simp add: div_less_iff_less_mult)
  ultimately show ?thesis by (simp add: div_is)
qed

lemma unat_pair_code32:
  "unat (pair_code32 c1 c2) = (unat c1 div 64 mod 16 + 1) * 65536 + unat c1 mod 64 * 1024 + unat c2 mod 1024"
proof -
  have "push_bit 16 (drop_bit 6 (ucast c1 AND 0x03C0) + 1 :: u32) = of_nat ((unat c1 div 64 mod 16 + 1) * 65536)"
    by (rule of_nat_eqI) (simp add: word_to_nat)
  moreover have "(unat c1 div 64 mod 16 + 1) * 65536 < 4294967296"
    using less_mod16 [of 16 65536 1048576 c1 64] by simp
  ultimately have "unat (push_bit 16 (drop_bit 6 (ucast c1 AND 0x03C0) + 1 :: u32)) = (unat c1 div 64 mod 16 + 1) * 65536"
    by (simp only: unat_of_nat) simp
  then have "unat (pair_code32 c1 c2) =
      ((unat c1 div 64 mod 16 + 1) * 65536 OR unat c1 mod 64 * 1024) OR unat c2 mod 1024"
    unfolding pair_code32_def unsigned_or_eq or.assoc
    by (simp only:) (simp add: word_to_nat)
  also have "\<dots> = (unat c1 div 64 mod 16 + 1) * 65536 + unat c1 mod 64 * 1024 + unat c2 mod 1024"
    by (rule or_low3 [where j = 16 and i = 10]) (simp_all add: less_mod)
  finally show ?thesis .
qed

lemma unat_pair_code:
  "unat (pair_code c1 c2) = (unat c1 div 64 mod 16 + 1) * 65536 + unat c1 mod 64 * 1024 + unat c2 mod 1024"
proof -
  have "(unat c1 div 64 mod 16 + 1) * 65536 + unat c1 mod 64 * 1024 + unat c2 mod 1024 < 18446744073709551616"
    using less_mod16 [of 16 65536 1048576 c1 64] less_mod [of 64 1024 65536 c1] less_mod [of 1024 1 1024 c2]
    by simp
  then show ?thesis by (simp add: pair_code_def word_to_nat)
qed

section \<open>Encoded forms\<close>

lemma or_80: "b < 64 \<Longrightarrow> 128 OR b = 128 + b" for b :: nat by (rule or_low [where j = 6]) simp_all
lemma or_C0: "b < 64 \<Longrightarrow> 192 OR b = 192 + b" for b :: nat by (rule or_low [where j = 6]) simp_all
lemma or_E0: "b < 32 \<Longrightarrow> 224 OR b = 224 + b" for b :: nat by (rule or_low [where j = 5]) simp_all
lemma or_F0: "b < 16 \<Longrightarrow> 240 OR b = 240 + b" for b :: nat by (rule or_low [where j = 4]) simp_all
lemma or_D800: "b < 1024 \<Longrightarrow> 55296 OR b = 55296 + b" for b :: nat by (rule or_low [where j = 10]) simp_all
lemma or_DC00: "b < 1024 \<Longrightarrow> 56320 OR b = 56320 + b" for b :: nat by (rule or_low [where j = 10]) simp_all

lemmas or_lead = or_80 or_C0 or_E0 or_F0 or_D800 or_DC00

lemma utf8_bytes_cases:
  "c < 0x80 \<Longrightarrow> utf8_bytes c = [of_nat c]"
  "0x80 \<le> c \<Longrightarrow> c < 0x800 \<Longrightarrow> utf8_bytes c = [of_nat (0xC0 + c div 0x40), of_nat (0x80 + c mod 0x40)]"
  "0x800 \<le> c \<Longrightarrow> c < 0x10000 \<Longrightarrow> utf8_bytes c =
     [of_nat (0xE0 + c div 0x1000), of_nat (0x80 + c div 0x40 mod 0x40), of_nat (0x80 + c mod 0x40)]"
  "0x10000 \<le> c \<Longrightarrow> utf8_bytes c =
     [of_nat (0xF0 + c div 0x40000), of_nat (0x80 + c div 0x1000 mod 0x40),
      of_nat (0x80 + c div 0x40 mod 0x40), of_nat (0x80 + c mod 0x40)]"
  by (simp_all add: utf8_bytes_def)

text \<open>The bytes the encoders compute from a 16- or a 32-bit character.\<close>

lemma lead_bytes16:
  fixes wc :: u16
  shows "unat wc < 0x800 \<Longrightarrow> unat (ucast (0xC0 OR drop_bit 6 wc) :: u8) = 0xC0 + unat wc div 0x40"
    and "unat (ucast (0xE0 OR drop_bit 12 wc) :: u8) = 0xE0 + unat wc div 0x1000"
    and "unat (ucast (0x80 OR drop_bit 6 (wc AND 0x0FC0)) :: u8) = 0x80 + unat wc div 0x40 mod 0x40"
    and "unat (ucast (0x80 OR (wc AND 0x3F)) :: u8) = 0x80 + unat wc mod 0x40"
proof -
  show "unat wc < 0x800 \<Longrightarrow> unat (ucast (0xC0 OR drop_bit 6 wc) :: u8) = 0xC0 + unat wc div 0x40"
    by (simp add: word_to_nat or_lead div_less_iff_less_mult)
  have "unat wc div 4096 < 16" using unat_16_bound [of wc] by (simp add: div_less_iff_less_mult)
  then show "unat (ucast (0xE0 OR drop_bit 12 wc) :: u8) = 0xE0 + unat wc div 0x1000"
    by (simp add: word_to_nat or_lead)
  have "unat wc div 64 mod 64 < 64" "unat wc mod 64 < 64" by simp_all
  then show "unat (ucast (0x80 OR drop_bit 6 (wc AND 0x0FC0)) :: u8) = 0x80 + unat wc div 0x40 mod 0x40"
    "unat (ucast (0x80 OR (wc AND 0x3F)) :: u8) = 0x80 + unat wc mod 0x40"
    by (simp_all add: word_to_nat or_lead)
qed

lemma lead_bytes32:
  fixes wc :: u32
  shows "unat wc < 0x800 \<Longrightarrow> unat (ucast (0xC0 OR drop_bit 6 wc) :: u8) = 0xC0 + unat wc div 0x40"
    and "unat wc < 0x10000 \<Longrightarrow> unat (ucast (0xE0 OR drop_bit 12 wc) :: u8) = 0xE0 + unat wc div 0x1000"
    and "unat wc < 0x110000 \<Longrightarrow> unat (ucast (0xF0 OR drop_bit 18 wc) :: u8) = 0xF0 + unat wc div 0x40000"
    and "unat (ucast (0x80 OR drop_bit 12 (wc AND 0x03F000)) :: u8) = 0x80 + unat wc div 0x1000 mod 0x40"
    and "unat (ucast (0x80 OR drop_bit 6 (wc AND 0x0FC0)) :: u8) = 0x80 + unat wc div 0x40 mod 0x40"
    and "unat (ucast (0x80 OR (wc AND 0x3F)) :: u8) = 0x80 + unat wc mod 0x40"
proof -
  show "unat wc < 0x800 \<Longrightarrow> unat (ucast (0xC0 OR drop_bit 6 wc) :: u8) = 0xC0 + unat wc div 0x40"
    by (simp add: word_to_nat or_lead div_less_iff_less_mult)
  show "unat (ucast (0xE0 OR drop_bit 12 wc) :: u8) = 0xE0 + unat wc div 0x1000" if "unat wc < 0x10000"
  proof -
    have "unat wc div 4096 < 16" using that by (simp add: div_less_iff_less_mult)
    then show ?thesis by (simp add: word_to_nat or_lead)
  qed
  show "unat (ucast (0xF0 OR drop_bit 18 wc) :: u8) = 0xF0 + unat wc div 0x40000" if "unat wc < 0x110000"
  proof -
    have "unat wc div 262144 < 5" using that by (simp add: div_less_iff_less_mult)
    then show ?thesis by (simp add: word_to_nat or_lead)
  qed
  have "unat wc div 4096 mod 64 < 64" "unat wc div 64 mod 64 < 64" "unat wc mod 64 < 64" by simp_all
  then show "unat (ucast (0x80 OR drop_bit 12 (wc AND 0x03F000)) :: u8) = 0x80 + unat wc div 0x1000 mod 0x40"
    "unat (ucast (0x80 OR drop_bit 6 (wc AND 0x0FC0)) :: u8) = 0x80 + unat wc div 0x40 mod 0x40"
    "unat (ucast (0x80 OR (wc AND 0x3F)) :: u8) = 0x80 + unat wc mod 0x40"
    by (simp_all add: word_to_nat or_lead)
qed

lemma utf8_lead2_bytes: "0x80 \<le> unat wc \<Longrightarrow> unat wc < 0x800 \<Longrightarrow> utf8_lead2 wc = utf8_bytes (unat wc)"
  unfolding utf8_lead2_def utf8_bytes_cases
  by (intro arg_cong2 [of _ _ _ _ Cons] of_nat_eqI refl lead_bytes16)

lemma utf8_lead3_bytes: "0x800 \<le> unat wc \<Longrightarrow> utf8_lead3 wc = utf8_bytes (unat wc)"
  using unat_16_bound [of wc] unfolding utf8_lead3_def
  by (subst utf8_bytes_cases(3)) (simp_all only: list.inject lead_bytes16 of_nat_eqI simp_thms)

lemma utf8_lead4_bytes: "0x10000 \<le> unat wc \<Longrightarrow> unat wc < 0x110000 \<Longrightarrow> utf8_lead4 wc = utf8_bytes (unat wc)"
  unfolding utf8_lead4_def utf8_bytes_cases
  by (intro arg_cong2 [of _ _ _ _ Cons] of_nat_eqI refl lead_bytes32)

lemma utf16_units_cases:
  "c < 0x10000 \<Longrightarrow> utf16_units c = [of_nat c]"
  "0x10000 \<le> c \<Longrightarrow> utf16_units c =
     [of_nat (0xD800 + (c - 0x10000) div 0x400), of_nat (0xDC00 + (c - 0x10000) mod 0x400)]"
  by (simp_all add: utf16_units_def)

text \<open>The value of a surrogate pair.\<close>

definition pair_value :: "nat \<Rightarrow> nat \<Rightarrow> nat" where
  "pair_value h l = 0x10000 + (h - 0xD800) * 0x400 + (l - 0xDC00)"

lemma pair_codes:
  assumes "0xD800 \<le> unat h" "unat h < 0xDC00" "0xDC00 \<le> unat l" "unat l < 0xE000"
  shows "unat (pair_code h l) = pair_value (unat h) (unat l)"
    and "unat (pair_code32 h l) = pair_value (unat h) (unat l)"
proof -
  obtain a where a: "unat h = 0xD800 + a" using assms(1) le_iff_add by blast
  obtain b where b: "unat l = 0xDC00 + b" using assms(3) le_iff_add by blast
  have l: "a < 1024" "b < 1024" using assms a b by auto
  then have "a div 64 < 16" by (simp add: div_less_iff_less_mult)
  then have "(0xD800 + a) div 64 mod 16 = a div 64" "(0xD800 + a) mod 64 = a mod 64" "(0xDC00 + b) mod 1024 = b"
    using l div_mult_self3 [of 64 864 a] mod_mult_self3 [of 54 16 "a div 64"] mod_mult_self3 [of 864 64 a]
      mod_mult_self3 [of 55 1024 b] by simp_all
  moreover have "(a div 64 + 1) * 65536 + a mod 64 * 1024 + b = 0x10000 + a * 0x400 + b"
  proof -
    have "(q + 1) * 65536 + r * 1024 = 0x10000 + (q * 64 + r) * 0x400" for q r :: nat by simp
    from this [of "a div 64" "a mod 64"] show ?thesis by (simp only: div_mult_mod_eq)
  qed
  ultimately show "unat (pair_code h l) = pair_value (unat h) (unat l)"
    "unat (pair_code32 h l) = pair_value (unat h) (unat l)"
    unfolding unat_pair_code unat_pair_code32 pair_value_def a b by simp_all
qed

lemma digit: "d < m \<Longrightarrow> e < n \<Longrightarrow> c = (A * m + d) * n + e \<Longrightarrow> c div n mod m = d" for c d m e n A :: nat
  by simp

lemma or_80_3: "x < 4 \<Longrightarrow> y < 16 \<Longrightarrow> 128 OR x * 16 OR y = 128 + (x * 16 + y)" for x y :: nat
  by (simp add: or_low [where j = 4] or_low [where j = 6])

lemma unat_drop2: "unat (drop_bit 2 w) = unat w div 4" for w :: u8
  using unat_8_bound [of w] by (simp add: unsigned_drop_bit_eq take_bit_eq_mod [where 'a = nat]
      drop_bit_eq_div [where 'a = nat])

lemma unat_push4: "unat (push_bit 4 (v AND 3)) = unat v mod 4 * 16" for v :: u16
  by (simp add: word_to_nat)

lemma unat_fields: "unat (drop_bit 2 (v AND 0x003C)) = unat v div 4 mod 16"
  "unat (drop_bit 6 (v AND 0x03C0)) = unat v div 64 mod 16" for v :: u16
  by (simp_all add: word_to_nat)

lemma unat_numerals: "unat (0x80 :: u16) = 0x80" "unat (0xF0 :: u8) = 0xF0" "unat (0xD800 :: u32) = 0xD800"
  "unat (0xDC00 :: u32) = 0xDC00"
  by simp_all

lemma pair_byte_words:
  fixes wc1 wc2 :: u16 and z :: u8
  assumes z: "unat z < 17"
  shows "unat (0xF0 OR drop_bit 2 z) = 0xF0 + unat z div 4"
    and "unat (ucast (0x80 OR push_bit 4 (ucast z AND 0x03) OR drop_bit 2 (wc1 AND 0x003C)) :: u8) =
      0x80 + (unat z mod 4 * 16 + unat wc1 div 4 mod 16)"
    and "unat (ucast (0x80 OR push_bit 4 (wc1 AND 0x0003) OR drop_bit 6 (wc2 AND 0x03C0)) :: u8) =
      0x80 + (unat wc1 mod 4 * 16 + unat wc2 div 64 mod 16)"
    and "unat (ucast (0x80 OR (wc2 AND 0x003F)) :: u8) = 0x80 + unat wc2 mod 64"
proof -
  have "unat z div 4 < 16" using z by (simp add: div_less_iff_less_mult)
  then show "unat (0xF0 OR drop_bit 2 z) = 0xF0 + unat z div 4"
    by (simp only: unsigned_or_eq unat_drop2 unat_numerals or_lead)
  have b: "unat z mod 4 < 4" "unat wc1 div 4 mod 16 < 16" "unat wc1 mod 4 < 4" "unat wc2 div 64 mod 16 < 16"
    by simp_all
  then have l: "128 + (unat z mod 4 * 16 + unat wc1 div 4 mod 16) < 256"
    "128 + (unat wc1 mod 4 * 16 + unat wc2 div 64 mod 16) < 256" by linarith+
  then show "unat (ucast (0x80 OR push_bit 4 (ucast z AND 0x03) OR drop_bit 2 (wc1 AND 0x003C)) :: u8) =
      0x80 + (unat z mod 4 * 16 + unat wc1 div 4 mod 16)"
    "unat (ucast (0x80 OR push_bit 4 (wc1 AND 0x0003) OR drop_bit 6 (wc2 AND 0x03C0)) :: u8) =
      0x80 + (unat wc1 mod 4 * 16 + unat wc2 div 64 mod 16)"
    by (simp_all only: unat_narrow unsigned_or_eq unat_push4 unat_fields unat_numerals unat_widen
      or_80_3 [OF b(1,2)] or_80_3 [OF b(3,4)] mod_less)
  show "unat (ucast (0x80 OR (wc2 AND 0x003F)) :: u8) = 0x80 + unat wc2 mod 64" by (rule lead_bytes16)
qed

lemma four_digits:
  fixes c u v r m s t :: nat
  assumes c: "c = 262144 * u + 65536 * v + 4096 * r + 1024 * m + 64 * s + t"
    and b: "v < 4" "r < 16" "m < 4" "s < 16" "t < 64"
  shows "c div 262144 = u" "c div 4096 mod 64 = v * 16 + r" "c div 64 mod 64 = m * 16 + s" "c mod 64 = t"
proof -
  have "c < 262144 * u + 262144" using c b by linarith
  then show "c div 262144 = u" using c by (intro div_nat_eqI) simp_all
  show "c div 4096 mod 64 = v * 16 + r"
    using c b by (intro digit [where A = u and e = "1024 * m + 64 * s + t"]) (linarith, linarith, simp)
  show "c div 64 mod 64 = m * 16 + s"
    using c b by (intro digit [where A = "64 * u + 16 * v + r" and e = t]) (linarith, linarith, simp)
  show "c mod 64 = t"
    using c b digit [where A = "4096 * u + 1024 * v + 64 * r + 16 * m + s" and n = 1 and m = 64 and d = t and e = 0]
    by (simp add: mult.commute)
qed

lemma unit_fields:
  "(55296 + x) div 4 mod 16 = x div 4 mod 16" "(55296 + x) mod 4 = x mod 4"
  "(56320 + x) div 64 mod 16 = x div 64 mod 16" "(56320 + x) mod 64 = x mod 64" for x :: nat
  using div_mult_self3 [of 4 13824 x] mod_mult_self3 [of 864 16 "x div 4"] mod_mult_self3 [of 13824 4 x]
    div_mult_self3 [of 64 880 x] mod_mult_self3 [of 55 16 "x div 64"] mod_mult_self3 [of 880 64 x]
  by simp_all

text \<open>A surrogate pair is written as the four bytes of its value.\<close>

lemma utf8_pair_bytes:
  assumes "0xD800 \<le> unat h" "unat h < 0xDC00" "0xDC00 \<le> unat l" "unat l < 0xE000"
  shows "utf8_pair h l = utf8_bytes (pair_value (unat h) (unat l))"
proof -
  obtain a where a: "unat h = 0xD800 + a" using assms(1) le_iff_add by blast
  obtain b where b: "unat l = 0xDC00 + b" using assms(3) le_iff_add by blast
  have l: "a < 1024" "b < 1024" using assms a b by auto
  define q where "q = a div 64"
  define z where "z = (ucast (drop_bit 6 (h AND 0x03C0) + 1 :: u16) :: u8)"
  have q: "q < 16" using l by (simp add: q_def div_less_iff_less_mult)
  have qh: "unat h div 64 mod 16 = q"
    using l div_mult_self3 [of 64 864 a] mod_mult_self3 [of 54 16 q] q by (simp add: a q_def)
  have z: "unat z = q + 1"
  proof -
    have "unat (drop_bit 6 (h AND 0x03C0) + 1 :: u16) = q + 1"
      using qh q by (simp only: unat_word_ariths unat_fields) simp
    then show ?thesis using q by (simp only: z_def unat_narrow) simp
  qed
  define r where "r = a div 4 mod 16"
  define m where "m = a mod 4"
  define s where "s = b div 64"
  define t where "t = b mod 64"
  let ?c = "pair_value (unat h) (unat l)"
  have "16 * q + r = a div 4" using div_mult2_eq [of a 4 16] by (simp add: q_def r_def)
  then have "4 * (16 * q + r) + m = a" by (simp only: m_def mult_div_mod_eq)
  moreover have "64 * s + t = b" by (simp add: s_def t_def)
  ultimately have c': "?c = 65536 * (q + 1) + 4096 * r + 1024 * m + 64 * s + t"
    unfolding pair_value_def a b by auto
  have bounds: "r < 16" "m < 4" "s < 16" "t < 64"
    using l by (simp_all add: r_def m_def s_def t_def div_less_iff_less_mult)
  define u where "u = (q + 1) div 4"
  define v where "v = (q + 1) mod 4"
  have uv: "4 * u + v = q + 1" "v < 4" unfolding u_def v_def by (simp_all only: mult_div_mod_eq mod_less_divisor)
  have "unat h div 4 mod 16 = r" "unat h mod 4 = m" "unat l mod 64 = t"
    unfolding a b by (simp_all only: unit_fields r_def m_def t_def)
  moreover have "unat l div 64 mod 16 = s" using bounds unfolding b by (simp only: unit_fields mod_less flip: s_def)
  ultimately have f: "unat h div 4 mod 16 = r" "unat h mod 4 = m" "unat l div 64 mod 16 = s" "unat l mod 64 = t" by simp_all
  have "?c = 262144 * u + 65536 * v + 4096 * r + 1024 * m + 64 * s + t"
    unfolding c' uv(1) [symmetric] by simp
  note four_digits [OF this uv(2) bounds]
  moreover have "0x10000 \<le> ?c" by (simp add: pair_value_def)
  moreover have "utf8_pair h l =
      [of_nat (0xF0 + u), of_nat (0x80 + (v * 16 + r)), of_nat (0x80 + (m * 16 + s)), of_nat (0x80 + t)]"
    using pair_byte_words(1) [of z] pair_byte_words(2) [of z h] pair_byte_words(3) [of z h l]
      pair_byte_words(4) [of z l] z q f unfolding utf8_pair_def z_def [symmetric] Let_def u_def v_def
    by (intro arg_cong2 [of _ _ _ _ Cons] of_nat_eqI refl) simp_all
  ultimately show ?thesis by (simp only: utf8_bytes_cases)
qed

lemma unat_subfields:
  "unat (push_bit 2 (ucast (c :: u8) AND 0x07) :: u32) = unat c mod 8 * 4"
  "unat (drop_bit 4 (ucast c AND 0x30) :: u32) = unat c div 16 mod 4"
  "unat (push_bit 2 (ucast c AND 0x0F) :: u32) = unat c mod 16 * 4"
  "unat (push_bit 6 (ucast c AND 0x0F) :: u32) = unat c mod 16 * 64"
  "unat (ucast c AND 0x3F :: u32) = unat c mod 64"
  by (simp_all add: word_to_nat)

lemma or_D800_3: "w < 16 \<Longrightarrow> x < 16 \<Longrightarrow> y < 4 \<Longrightarrow> 55296 OR w * 64 OR x * 4 OR y = 55296 + (w * 64 + x * 4 + y)"
  for w x y :: nat
  by (simp add: or_low [where j = 2] or_low [where j = 6] or_low [where j = 10])

lemma or_DC00_2: "x < 16 \<Longrightarrow> y < 64 \<Longrightarrow> 56320 OR x * 64 OR y = 56320 + (x * 64 + y)" for x y :: nat
  by (simp add: or_low [where j = 6] or_low [where j = 10])

lemma unat_low_unit: "unat (low_unit c3 c4) = 0xDC00 + (unat c3 mod 16 * 64 + unat c4 mod 64)"
proof -
  have b: "unat c3 mod 16 < 16" "unat c4 mod 64 < 64" by simp_all
  then have "unat c3 mod 16 * 64 + unat c4 mod 64 < 1024" by linarith
  then show ?thesis
    by (simp only: low_unit_def unat_narrow unsigned_or_eq unat_subfields unat_numerals) (simp add: or_DC00_2 [OF b])
qed

lemma unat_high_unit:
  fixes c1 c2 c3 :: u8
  defines "w \<equiv> unat c1 mod 8 * 4 + unat c2 div 16 mod 4"
  assumes w: "0 < w" "w \<le> 16"
  shows "unat (high_unit c1 c2 c3) = 0xD800 + ((w - 1) * 64 + unat c2 mod 16 * 4 + unat c3 div 16 mod 4)"
proof -
  have b: "w - 1 < 16" "unat c2 mod 16 < 16" "unat c3 div 16 mod 4 < 4" using w by simp_all
  then have l: "(w - 1) * 64 + unat c2 mod 16 * 4 + unat c3 div 16 mod 4 < 1024" by linarith
  have "unat (push_bit 2 (ucast c1 AND 0x07) OR drop_bit 4 (ucast c2 AND 0x30) :: u32) = w"
    unfolding unsigned_or_eq unat_subfields w_def by (rule or_low [where j = 2]) simp_all
  then have "unat ((push_bit 2 (ucast c1 AND 0x07) OR drop_bit 4 (ucast c2 AND 0x30)) - 1 :: u32) = w - 1"
    using w(1) by (subst unat_minus_one) auto
  then have "unat (push_bit 6 ((push_bit 2 (ucast c1 AND 0x07) OR drop_bit 4 (ucast c2 AND 0x30)) - 1) :: u32) =
      (w - 1) * 64"
    using b by (simp only: unsigned_push_bit_eq) (simp add: push_bit_eq_mult take_bit_eq_mod)
  then show ?thesis using l
    by (simp only: high_unit_def unat_narrow unsigned_or_eq unat_subfields unat_numerals)
      (use or_D800_3 [OF b] in simp)
qed

lemma unat_surrogates:
  fixes wc :: u32
  assumes "0x10000 \<le> unat wc" "unat wc < 0x110000"
  shows "unat (high_surrogate wc) = 0xD800 + (unat wc - 0x10000) div 0x400"
    and "unat (low_surrogate wc) = 0xDC00 + (unat wc - 0x10000) mod 0x400"
proof -
  obtain c where c: "unat wc = 0x10000 + c" using assms(1) le_iff_add by blast
  have m: "(65536 + c) mod 1024 = c mod 1024" "(65536 + c) div 65536 = 1 + c div 65536"
    "(65536 + c) div 1024 mod 64 = c div 1024 mod 64"
    using mod_mult_self3 [of 64 1024 c] div_mult_self3 [of 65536 1 c] div_mult_self3 [of 1024 64 c]
      mod_mult_self3 [of 1 64 "c div 1024"] by simp_all
  have d: "c div 65536 < 16" using assms c by (simp add: div_less_iff_less_mult)
  have "unat (wc AND 0x03FF) = c mod 1024" using m by (simp add: word_to_nat c)
  moreover have "c mod 1024 < 1024" by simp
  ultimately show "unat (low_surrogate wc) = 0xDC00 + (unat wc - 0x10000) mod 0x400"
    by (simp only: low_surrogate_def unat_narrow unsigned_or_eq unat_numerals c) (simp add: or_DC00)
  have "unat (drop_bit 16 (wc AND 0x1F0000)) = 1 + c div 65536" using m d by (simp add: word_to_nat c)
  then have "unat (drop_bit 16 (wc AND 0x1F0000) - 1) = c div 65536" by (subst unat_minus_one) auto
  then have h: "unat (push_bit 6 (drop_bit 16 (wc AND 0x1F0000) - 1)) = c div 65536 * 64"
    using d by (simp only: unsigned_push_bit_eq) (simp add: push_bit_eq_mult take_bit_eq_mod)
  have b: "c div 1024 mod 64 < 64" by simp
  then have "c div 1024 mod 64 < 4294967296" by linarith
  then have l: "unat (drop_bit 10 (wc AND 0x00FC00)) = c div 1024 mod 64" using m by (simp add: word_to_nat c)
  then have o: "c div 65536 * 64 OR c div 1024 mod 64 = c div 65536 * 64 + c div 1024 mod 64"
    by (intro or_low [where j = 6]) simp_all
  have s: "c div 65536 * 64 + c div 1024 mod 64 = c div 1024"
    using div_mult2_eq [of c 1024 64] by simp
  have lt: "c div 1024 < 1024" using assms c by (simp add: div_less_iff_less_mult)
  have "unat (0xD800 OR push_bit 6 (drop_bit 16 (wc AND 0x1F0000) - 1) OR drop_bit 10 (wc AND 0x00FC00)) =
      55296 OR c div 1024"
    by (simp only: unsigned_or_eq unat_numerals h l or.assoc o s)
  then have "unat (high_surrogate wc) = (55296 OR c div 1024) mod 65536"
    by (simp only: high_surrogate_def unat_narrow)
  then show "unat (high_surrogate wc) = 0xD800 + (unat wc - 0x10000) div 0x400"
    using lt by (simp add: or_lead c)
qed

end
