(* ===== verification/UtfCorrect.thy ===== *)
theory UtfCorrect
  imports Unicode
begin

text \<open>
  The conversion bodies meet the interface \<open>utf_converter\<close> of \<open>CodecvtLoops\<close>: they translate
  between the representations of \<open>Unicode\<close>, accept every scalar value up to \<open>Maxcode\<close> and nothing
  else, and the \<open>_length\<close> bodies count what the decoders consume.
\<close>

section \<open>UTF-8 sequences\<close>

lemma of_unat: "of_nat (unat w) = w" for w :: "'a::len word"
  by simp

text \<open>A sequence that passes the decoder's checks is the encoding of the value it computes.\<close>

lemma utf8_two:
  assumes "0xC2 \<le> unat c1" "unat c1 < 0xE0" "\<not> bad_trail c2"
  shows "0x80 \<le> unat (code2 c1 c2)" "unat (code2 c1 c2) < 0x800" "utf8_bytes (unat (code2 c1 c2)) = [c1, c2]"
proof -
  obtain x where x: "unat c1 = 0xC0 + x" using assms(1) le_iff_add [of "0xC0" "unat c1"] by auto
  obtain y where y: "unat c2 = 0x80 + y" using assms(3) le_iff_add [of "0x80" "unat c2"] by (auto simp: bad_trail_iff)
  have b: "2 \<le> x" "x < 32" "y < 64" using assms x y by (auto simp: bad_trail_iff)
  have c: "unat (code2 c1 c2) = x * 64 + y"
    using b mod_mult_self3 [of 6 32 x] mod_mult_self3 [of 2 64 y] by (simp add: unat_code2 x y)
  show r: "0x80 \<le> unat (code2 c1 c2)" "unat (code2 c1 c2) < 0x800" unfolding c using b by linarith+
  have "(x * 64 + y) div 64 = x" "(x * 64 + y) mod 64 = y" using b by simp_all
  then have "utf8_bytes (unat (code2 c1 c2)) = [of_nat (0xC0 + x), of_nat (0x80 + y)]"
    using utf8_bytes_cases(2) [OF r] unfolding c by (simp only:)
  then show "utf8_bytes (unat (code2 c1 c2)) = [c1, c2]" by (simp only: x [symmetric] y [symmetric] of_unat)
qed

lemma utf8_three:
  assumes "0xE0 \<le> unat c1" "unat c1 < 0xF0" "\<not> bad_second3 c1 c2" "\<not> bad_trail c3"
  shows "0x800 \<le> unat (code3 c1 c2 c3)" "unat (code3 c1 c2 c3) < 0x10000" "is_scalar (unat (code3 c1 c2 c3))"
    "utf8_bytes (unat (code3 c1 c2 c3)) = [c1, c2, c3]"
proof -
  have l: "128 \<le> unat c2" "unat c2 < 192" using assms(3) by (auto simp: bad_second3_iff split: if_splits)
  obtain x where x: "unat c1 = 0xE0 + x" using assms(1) le_iff_add [of "0xE0" "unat c1"] by auto
  obtain y where y: "unat c2 = 0x80 + y" using l le_iff_add [of "0x80" "unat c2"] by auto
  obtain z where z: "unat c3 = 0x80 + z" using assms(4) le_iff_add [of "0x80" "unat c3"] by (auto simp: bad_trail_iff)
  have b: "x < 16" "y < 64" "z < 64" using assms l x y z by (auto simp: bad_trail_iff)
  have "x = 0 \<Longrightarrow> 32 \<le> y" "x = 13 \<Longrightarrow> y < 32"
    using assms(3) x y by (auto simp: bad_second3_iff word_unat_eq_iff split: if_splits)
  then have e: "x = 0 \<and> 32 \<le> y \<or> 1 \<le> x" "x < 13 \<or> x = 13 \<and> y < 32 \<or> 14 \<le> x" by auto
  have c: "unat (code3 c1 c2 c3) = x * 4096 + y * 64 + z"
    using b mod_mult_self3 [of 14 16 x] mod_mult_self3 [of 2 64 y] mod_mult_self3 [of 2 64 z]
    by (simp add: unat_code3 x y z)
  show r: "0x800 \<le> unat (code3 c1 c2 c3)" "unat (code3 c1 c2 c3) < 0x10000"
    unfolding c using b e(1) by auto
  show "is_scalar (unat (code3 c1 c2 c3))" unfolding c is_scalar_def using b e(2) by auto
  have "(x * 4096 + y * 64 + z) div 4096 = x" "(x * 4096 + y * 64 + z) div 64 mod 64 = y"
    "(x * 4096 + y * 64 + z) mod 64 = z"
    using b div_mult_self3 [of 4096 x "y * 64 + z"] digit [of y 64 z 64 _ x] mod_mult_self3 [of "x * 64 + y" 64 z]
    by (simp_all add: add.assoc algebra_simps)
  then have "utf8_bytes (unat (code3 c1 c2 c3)) = [of_nat (0xE0 + x), of_nat (0x80 + y), of_nat (0x80 + z)]"
    using utf8_bytes_cases(3) [OF r] unfolding c by (simp only:)
  then show "utf8_bytes (unat (code3 c1 c2 c3)) = [c1, c2, c3]" by (simp only: x [symmetric] y [symmetric] z [symmetric] of_unat)
qed

lemma utf8_four:
  assumes "0xF0 \<le> unat c1" "unat c1 < 0xF5" "\<not> bad_second4 c1 c2" "\<not> bad_trail c3" "\<not> bad_trail c4"
  shows "0x10000 \<le> unat (code4 c1 c2 c3 c4)" "unat (code4 c1 c2 c3 c4) < 0x110000"
    "utf8_bytes (unat (code4 c1 c2 c3 c4)) = [c1, c2, c3, c4]"
    "utf16_units (unat (code4 c1 c2 c3 c4)) = [high_unit c1 c2 c3, low_unit c3 c4]"
    "unat (sum4 c1 c2 c3 c4) = unat (code4 c1 c2 c3 c4)"
proof -
  have l: "128 \<le> unat c2" "unat c2 < 192" using assms(3) by (auto simp: bad_second4_iff split: if_splits)
  obtain x where x: "unat c1 = 0xF0 + x" using assms(1) le_iff_add [of "0xF0" "unat c1"] by auto
  obtain y where y: "unat c2 = 0x80 + y" using l le_iff_add [of "0x80" "unat c2"] by auto
  obtain z where z: "unat c3 = 0x80 + z" using assms(4) le_iff_add [of "0x80" "unat c3"] by (auto simp: bad_trail_iff)
  obtain w where w: "unat c4 = 0x80 + w" using assms(5) le_iff_add [of "0x80" "unat c4"] by (auto simp: bad_trail_iff)
  have b: "x < 5" "y < 64" "z < 64" "w < 64" using assms l x y z w by (auto simp: bad_trail_iff)
  have "x = 0 \<Longrightarrow> 16 \<le> y" "x = 4 \<Longrightarrow> y < 16"
    using assms(3) x y by (auto simp: bad_second4_iff word_unat_eq_iff split: if_splits)
  then have e: "x = 0 \<and> 16 \<le> y \<or> 1 \<le> x" "x < 4 \<or> x = 4 \<and> y < 16" using b(1) by auto
  have m: "unat c1 mod 8 = x" "unat c2 mod 64 = y" "unat c3 mod 64 = z" "unat c4 mod 64 = w"
    using b mod_mult_self3 [of 30 8 x] mod_mult_self3 [of 2 64 y] mod_mult_self3 [of 2 64 z]
      mod_mult_self3 [of 2 64 w] by (simp_all add: x y z w)
  have c: "unat (code4 c1 c2 c3 c4) = x * 262144 + y * 4096 + z * 64 + w" unfolding unat_code4 m ..
  show r: "0x10000 \<le> unat (code4 c1 c2 c3 c4)" "unat (code4 c1 c2 c3 c4) < 0x110000"
    unfolding c using b e by auto
  show "unat (sum4 c1 c2 c3 c4) = unat (code4 c1 c2 c3 c4)" by (simp only: unat_sum4 unat_code4)
  have "(x * 262144 + y * 4096 + z * 64 + w) div 262144 = x"
    using b by (intro div_nat_eqI) simp_all
  moreover have "(x * 262144 + y * 4096 + z * 64 + w) div 4096 mod 64 = y"
    using b by (intro digit [where A = x and e = "z * 64 + w"]) simp_all
  moreover have "(x * 262144 + y * 4096 + z * 64 + w) div 64 mod 64 = z"
    using b by (intro digit [where A = "x * 64 + y" and e = w]) simp_all
  moreover have "(x * 262144 + y * 4096 + z * 64 + w) mod 64 = w"
    using b mod_mult_self3 [of "x * 4096 + y * 64 + z" 64 w] by (simp add: algebra_simps)
  ultimately have "utf8_bytes (unat (code4 c1 c2 c3 c4)) =
      [of_nat (0xF0 + x), of_nat (0x80 + y), of_nat (0x80 + z), of_nat (0x80 + w)]"
    using utf8_bytes_cases(4) [OF r(1)] unfolding c by (simp only:)
  then show "utf8_bytes (unat (code4 c1 c2 c3 c4)) = [c1, c2, c3, c4]"
    by (simp only: x [symmetric] y [symmetric] z [symmetric] w [symmetric] of_unat)
  define t where "t = y div 16"
  define n where "n = y mod 16"
  define p where "p = z div 16"
  define q where "q = z mod 16"
  have yz: "y = t * 16 + n" "z = p * 16 + q" "n < 16" "q < 16" "t < 4" "p < 4"
    using b by (simp_all add: t_def n_def p_def q_def div_less_iff_less_mult)
  have f: "unat c2 div 16 mod 4 = t" "unat c2 mod 16 = n" "unat c3 div 16 mod 4 = p" "unat c3 mod 16 = q"
    using yz mod_mult_self3 [of "8 + t" 16 n] mod_mult_self3 [of "8 + p" 16 q]
      digit [of t 4 n 16 "unat c2" 2] digit [of p 4 q 16 "unat c3" 2] y z by (simp_all add: algebra_simps)
  have v: "0 < x * 4 + t" "x * 4 + t \<le> 16" using e yz b by auto
  then obtain k where k: "x * 4 + t = Suc k" by (cases "x * 4 + t") auto
  have h: "unat (high_unit c1 c2 c3) = 0xD800 + (k * 64 + n * 4 + p)"
    using unat_high_unit [of c1 c2 c3] v unfolding m(1) f k by simp
  have "unat (low_unit c3 c4) = 0xDC00 + (q * 64 + w)" unfolding unat_low_unit m f ..
  moreover have "x * 262144 + y * 4096 + z * 64 + w - 0x10000 = (k * 64 + n * 4 + p) * 1024 + (q * 64 + w)"
    using k yz by simp
  moreover have "((k * 64 + n * 4 + p) * 1024 + (q * 64 + w)) div 1024 = k * 64 + n * 4 + p"
    "((k * 64 + n * 4 + p) * 1024 + (q * 64 + w)) mod 1024 = q * 64 + w"
    using yz b div_mult_self3 [of 1024 "k * 64 + n * 4 + p" "q * 64 + w"]
      mod_mult_self3 [of "k * 64 + n * 4 + p" 1024 "q * 64 + w"] by simp_all
  ultimately show "utf16_units (unat (code4 c1 c2 c3 c4)) = [high_unit c1 c2 c3, low_unit c3 c4]"
    using utf16_units_cases(2) [OF r(1)] h unfolding c
    by (metis (no_types, lifting) of_unat)
qed

text \<open>Conversely the encoding of a scalar value passes the checks and yields the value.\<close>

lemma unat_of_nat8: "n < 256 \<Longrightarrow> unat (of_nat n :: u8) = n"
  by (simp only: unat_of_nat) simp

lemma utf8_two_of:
  assumes "0x80 \<le> c" "c < 0x800"
  obtains c1 c2 where "utf8_bytes c = [c1, c2]" "0xC2 \<le> unat c1" "unat c1 < 0xE0" "\<not> bad_trail c2"
    "unat (code2 c1 c2) = c"
proof -
  define x where "x = c div 64"
  define y where "y = c mod 64"
  have c: "c = x * 64 + y" by (simp add: x_def y_def)
  have b: "2 \<le> x" "x < 32" "y < 64" using assms
    by (simp_all add: x_def y_def div_less_iff_less_mult less_eq_div_iff_mult_less_eq)
  have u: "unat (of_nat (0xC0 + x) :: u8) = 0xC0 + x" "unat (of_nat (0x80 + y) :: u8) = 0x80 + y"
    by (rule unat_of_nat8; use b in simp)+
  have m: "(0xC0 + x) mod 32 = x" "(0x80 + y) mod 64 = y"
    using b mod_mult_self3 [of 6 32 x] mod_mult_self3 [of 2 64 y] by simp_all
  have "utf8_bytes c = [of_nat (0xC0 + x), of_nat (0x80 + y)]" unfolding utf8_bytes_cases(2) [OF assms] x_def y_def ..
  moreover have "unat (code2 (of_nat (0xC0 + x)) (of_nat (0x80 + y))) = c" unfolding unat_code2 u m c ..
  moreover have "\<not> bad_trail (of_nat (0x80 + y))" unfolding bad_trail_iff u using b by simp
  moreover have "0xC2 \<le> unat (of_nat (0xC0 + x) :: u8)" "unat (of_nat (0xC0 + x) :: u8) < 0xE0"
    unfolding u using b by simp_all
  ultimately show thesis using that by blast
qed

lemma utf8_three_of:
  assumes "0x800 \<le> c" "c < 0x10000" "is_scalar c"
  obtains c1 c2 c3 where "utf8_bytes c = [c1, c2, c3]" "0xE0 \<le> unat c1" "unat c1 < 0xF0"
    "\<not> bad_second3 c1 c2" "\<not> bad_trail c3" "unat (code3 c1 c2 c3) = c"
proof -
  define x where "x = c div 4096"
  define y where "y = c div 64 mod 64"
  define z where "z = c mod 64"
  have "c div 64 div 64 = x" using div_mult2_eq [of c 64 64] by (simp add: x_def)
  then have "c div 64 = x * 64 + y" using div_mult_mod_eq [of "c div 64" 64] by (simp only: y_def)
  then have "c = (x * 64 + y) * 64 + z" using div_mult_mod_eq [of c 64] by (simp only: z_def)
  then have c: "c = x * 4096 + y * 64 + z" by simp
  have b: "x < 16" "y < 64" "z < 64" using assms
    by (simp_all add: x_def y_def z_def div_less_iff_less_mult)
  have e: "x = 0 \<Longrightarrow> 32 \<le> y" "x = 13 \<Longrightarrow> y < 32"
    using assms b c by (auto simp: is_scalar_def)
  have u: "unat (of_nat (0xE0 + x) :: u8) = 0xE0 + x" "unat (of_nat (0x80 + y) :: u8) = 0x80 + y"
    "unat (of_nat (0x80 + z) :: u8) = 0x80 + z"
    by (rule unat_of_nat8; use b in simp)+
  have m: "(0xE0 + x) mod 16 = x" "(0x80 + y) mod 64 = y" "(0x80 + z) mod 64 = z"
    using b mod_mult_self3 [of 14 16 x] mod_mult_self3 [of 2 64 y] mod_mult_self3 [of 2 64 z] by simp_all
  have "utf8_bytes c = [of_nat (0xE0 + x), of_nat (0x80 + y), of_nat (0x80 + z)]"
    unfolding utf8_bytes_cases(3) [OF assms(1,2)] x_def y_def z_def ..
  moreover have "unat (code3 (of_nat (0xE0 + x)) (of_nat (0x80 + y)) (of_nat (0x80 + z))) = c"
    unfolding unat_code3 u m c ..
  moreover have "\<not> bad_trail (of_nat (0x80 + z))" unfolding bad_trail_iff u using b by simp
  moreover have "\<not> bad_second3 (of_nat (0xE0 + x)) (of_nat (0x80 + y))"
    unfolding bad_second3_iff word_unat_eq_iff u using b e by auto
  moreover have "0xE0 \<le> unat (of_nat (0xE0 + x) :: u8)" "unat (of_nat (0xE0 + x) :: u8) < 0xF0"
    unfolding u using b by simp_all
  ultimately show thesis using that by blast
qed

lemma utf8_four_of:
  assumes "0x10000 \<le> c" "c < 0x110000"
  obtains c1 c2 c3 c4 where "utf8_bytes c = [c1, c2, c3, c4]" "0xF0 \<le> unat c1" "unat c1 < 0xF5"
    "\<not> bad_second4 c1 c2" "\<not> bad_trail c3" "\<not> bad_trail c4" "unat (code4 c1 c2 c3 c4) = c"
proof -
  define x where "x = c div 262144"
  define y where "y = c div 4096 mod 64"
  define z where "z = c div 64 mod 64"
  define w where "w = c mod 64"
  have "c div 4096 div 64 = x" "c div 64 div 64 = c div 4096"
    using div_mult2_eq [of c 4096 64] div_mult2_eq [of c 64 64] by (simp_all add: x_def)
  then have "c div 4096 = x * 64 + y" "c div 64 = c div 4096 * 64 + z"
    using div_mult_mod_eq [of "c div 4096" 64] div_mult_mod_eq [of "c div 64" 64] by (simp_all only: y_def z_def)
  then have "c = ((x * 64 + y) * 64 + z) * 64 + w" using div_mult_mod_eq [of c 64] by (simp only: w_def)
  then have c: "c = x * 262144 + y * 4096 + z * 64 + w" by simp
  have b: "x < 5" "y < 64" "z < 64" "w < 64" using assms
    by (simp_all add: x_def y_def z_def w_def div_less_iff_less_mult)
  have e: "x = 0 \<Longrightarrow> 16 \<le> y" "x = 4 \<Longrightarrow> y < 16" using assms b c by auto
  have u: "unat (of_nat (0xF0 + x) :: u8) = 0xF0 + x" "unat (of_nat (0x80 + y) :: u8) = 0x80 + y"
    "unat (of_nat (0x80 + z) :: u8) = 0x80 + z" "unat (of_nat (0x80 + w) :: u8) = 0x80 + w"
    by (rule unat_of_nat8; use b in simp)+
  have m: "(0xF0 + x) mod 8 = x" "(0x80 + y) mod 64 = y" "(0x80 + z) mod 64 = z" "(0x80 + w) mod 64 = w"
    using b mod_mult_self3 [of 30 8 x] mod_mult_self3 [of 2 64 y] mod_mult_self3 [of 2 64 z]
      mod_mult_self3 [of 2 64 w] by simp_all
  have "utf8_bytes c = [of_nat (0xF0 + x), of_nat (0x80 + y), of_nat (0x80 + z), of_nat (0x80 + w)]"
    unfolding utf8_bytes_cases(4) [OF assms(1)] x_def y_def z_def w_def ..
  moreover have "unat (code4 (of_nat (0xF0 + x)) (of_nat (0x80 + y)) (of_nat (0x80 + z)) (of_nat (0x80 + w))) = c"
    unfolding unat_code4 u m c ..
  moreover have "\<not> bad_trail (of_nat (0x80 + z))" "\<not> bad_trail (of_nat (0x80 + w))"
    unfolding bad_trail_iff u using b by simp_all
  moreover have "\<not> bad_second4 (of_nat (0xF0 + x)) (of_nat (0x80 + y))"
    unfolding bad_second4_iff word_unat_eq_iff u using b e by auto
  moreover have "0xF0 \<le> unat (of_nat (0xF0 + x) :: u8)" "unat (of_nat (0xF0 + x) :: u8) < 0xF5"
    unfolding u using b by simp_all
  ultimately show thesis using that by blast
qed

section \<open>UTF-8 decoders\<close>

definition ucs4 :: "nat \<Rightarrow> u32 list" where "ucs4 c = [of_nat c]"
definition ucs2 :: "nat \<Rightarrow> u16 list" where "ucs2 c = [of_nat c]"

text \<open>The scalar values up to \<open>Maxcode\<close>, and those of them that fit UCS-2.\<close>

definition valid4 :: "u64 \<Rightarrow> nat \<Rightarrow> bool" where
  "valid4 Maxcode c = (is_scalar c \<and> c \<le> unat Maxcode)"

definition valid2 :: "u64 \<Rightarrow> nat \<Rightarrow> bool" where
  "valid2 Maxcode c = (is_scalar c \<and> c \<le> unat Maxcode \<and> c < 0x10000)"

lemma max_less [utf_simps]:
  "(Maxcode < ucast (x :: u8)) = (unat Maxcode < unat x)" "(Maxcode < ucast (y :: u16)) = (unat Maxcode < unat y)"
  "(Maxcode < ucast (z :: u32)) = (unat Maxcode < unat z)" for Maxcode :: u64
  by (simp_all add: word_less_nat_alt unat_widen)

lemma unat_cuts [utf_simps]:
  "(c < 0x80) = (unat c < 0x80)" "(c < 0xC2) = (unat c < 0xC2)" "(c < 0xE0) = (unat c < 0xE0)"
  "(c < 0xF0) = (unat c < 0xF0)" "(c < 0xF5) = (unat c < 0xF5)" for c :: u8
  by (simp_all add: word_less_nat_alt)

lemma utf8_one: "unat c1 < 0x80 \<Longrightarrow> utf8_bytes (unat c1) = [c1] \<and> is_scalar (unat c1)"
  by (simp add: utf8_bytes_cases is_scalar_def)

lemma small_scalar: "c < 0xD800 \<Longrightarrow> is_scalar c" "0xE000 \<le> c \<Longrightarrow> c < 0x110000 \<Longrightarrow> is_scalar c"
  by (simp_all add: is_scalar_def)

lemma utf8_to_ucs4_sound:
  assumes "utf8_to_ucs4_body Maxcode frm room = Emit k bs"
  shows "\<exists>c. valid4 Maxcode c \<and> bs = ucs4 c \<and> frm = utf8_bytes c @ drop (Suc k) frm \<and> length (utf8_bytes c) = Suc k"
proof (cases frm)
  case Nil
  with assms show ?thesis by simp
next
  case (Cons c1 f)
  consider "unat c1 < 0x80" | c2 f' where "0xC2 \<le> unat c1" "unat c1 < 0xE0" "f = c2 # f'" "\<not> bad_trail c2"
    | c2 c3 f' where "0xE0 \<le> unat c1" "unat c1 < 0xF0" "f = c2 # c3 # f'" "\<not> bad_second3 c1 c2" "\<not> bad_trail c3"
    | c2 c3 c4 f' where "0xF0 \<le> unat c1" "unat c1 < 0xF5" "f = c2 # c3 # c4 # f'" "\<not> bad_second4 c1 c2"
        "\<not> bad_trail c3" "\<not> bad_trail c4"
    using assms Cons by (auto simp: utf_simps not_less split: if_splits list.splits)
  then show ?thesis
  proof cases
    case 1
    with assms Cons utf8_one [OF 1] show ?thesis
      by (intro exI [of _ "unat c1"]) (auto simp: utf_simps valid4_def ucs4_def split: if_splits)
  next
    case 2
    with assms Cons utf8_two [OF 2(1,2,4)] small_scalar show ?thesis
      by (intro exI [of _ "unat (code2 c1 c2)"]) (auto simp: utf_simps valid4_def ucs4_def Let_def split: if_splits)
  next
    case 3
    with assms Cons utf8_three [OF 3(1,2,4,5)] show ?thesis
      by (intro exI [of _ "unat (code3 c1 c2 c3)"]) (auto simp: utf_simps valid4_def ucs4_def Let_def split: if_splits)
  next
    case 4
    with assms Cons utf8_four [OF 4(1,2,4-6)] small_scalar show ?thesis
      by (intro exI [of _ "unat (code4 c1 c2 c3 c4)"]) (auto simp: utf_simps valid4_def ucs4_def Let_def split: if_splits)
  qed
qed

lemma utf8_to_ucs4_accept:
  assumes "valid4 Maxcode c"
  shows "utf8_to_ucs4_body Maxcode (utf8_bytes c @ rest) room = Emit (length (utf8_bytes c) - 1) (ucs4 c)"
proof -
  have v: "is_scalar c" "c \<le> unat Maxcode" "c < 0x110000" using assms by (auto simp: valid4_def is_scalar_def)
  consider "c < 0x80" | "0x80 \<le> c" "c < 0x800" | "0x800 \<le> c" "c < 0x10000" | "0x10000 \<le> c" by linarith
  then show ?thesis
  proof cases
    case 1
    then have "unat (of_nat c :: u8) = c" by (intro unat_of_nat8) simp
    with 1 v show ?thesis by (simp add: utf8_bytes_cases utf_simps ucs4_def) (metis of_unat unat_widen(2))
  next
    case 2
    with utf8_two_of [of c] obtain c1 c2 where "utf8_bytes c = [c1, c2]" "0xC2 \<le> unat c1" "unat c1 < 0xE0"
      "\<not> bad_trail c2" "unat (code2 c1 c2) = c" by blast
    with v show ?thesis by (auto simp: utf_simps ucs4_def Let_def)
  next
    case 3
    with utf8_three_of [of c] v obtain c1 c2 c3 where "utf8_bytes c = [c1, c2, c3]" "0xE0 \<le> unat c1" "unat c1 < 0xF0"
      "\<not> bad_second3 c1 c2" "\<not> bad_trail c3" "unat (code3 c1 c2 c3) = c" by blast
    with v show ?thesis by (auto simp: utf_simps ucs4_def Let_def)
  next
    case 4
    with utf8_four_of [of c] v obtain c1 c2 c3 c4 where "utf8_bytes c = [c1, c2, c3, c4]" "0xF0 \<le> unat c1"
      "unat c1 < 0xF5" "\<not> bad_second4 c1 c2" "\<not> bad_trail c3" "\<not> bad_trail c4" "unat (code4 c1 c2 c3 c4) = c" by blast
    with v show ?thesis by (auto simp: utf_simps ucs4_def Let_def)
  qed
qed

lemma utf8_to_ucs4_not_ok: "frm \<noteq> [] \<Longrightarrow> utf8_to_ucs4_body Maxcode frm room \<noteq> Stop ok"
  by (cases frm) (auto simp: Let_def split: list.splits)

lemma utf8_bytes_nonempty [simp]: "utf8_bytes c \<noteq> []"
  by (simp add: utf8_bytes_def)

interpretation utf8_ucs4: utf_converter 0 "utf8_to_ucs4_body Maxcode" utf8_bytes ucs4 "valid4 Maxcode" for Maxcode
proof unfold_locales
  fix frm :: "u8 list" and room k bs
  assume "0 < room" "utf8_to_ucs4_body Maxcode frm room = Emit k bs"
  with utf8_to_ucs4_sound [OF this(2)] show "\<exists>c. valid4 Maxcode c \<and> bs = ucs4 c \<and>
      frm = utf8_bytes c @ drop (Suc k) frm \<and> length (utf8_bytes c) = Suc k \<and> length bs \<le> room"
    by (auto simp: ucs4_def Suc_le_eq)
qed (simp_all add: utf8_to_ucs4_accept utf8_to_ucs4_not_ok, simp add: ucs4_def)

lemma ucs2_units: "unat w < 0x10000 \<Longrightarrow> [ucast w] = ucs2 (unat w)" for w :: u32
  unfolding ucs2_def by (intro arg_cong2 [of _ _ _ _ Cons] of_nat_eqI refl) (simp add: unat_narrow)

lemma unat_cast16: "unat w < 0x10000 \<Longrightarrow> unat (ucast w :: u16) = unat w" for w :: u32
  by (simp add: unat_narrow)

lemma ucs2_byte: "[ucast c1] = ucs2 (unat c1)" for c1 :: u8
  unfolding ucs2_def by (intro arg_cong2 [of _ _ _ _ Cons] of_nat_eqI refl) (simp add: unat_widen)

lemma utf8_to_ucs2_sound:
  assumes "utf8_to_ucs2_body Maxcode frm room = Emit k bs"
  shows "\<exists>c. valid2 Maxcode c \<and> bs = ucs2 c \<and> frm = utf8_bytes c @ drop (Suc k) frm \<and> length (utf8_bytes c) = Suc k"
proof (cases frm)
  case Nil
  with assms show ?thesis by simp
next
  case (Cons c1 f)
  consider "unat c1 < 0x80" | c2 f' where "0xC2 \<le> unat c1" "unat c1 < 0xE0" "f = c2 # f'" "\<not> bad_trail c2"
    | c2 c3 f' where "0xE0 \<le> unat c1" "unat c1 < 0xF0" "f = c2 # c3 # f'" "\<not> bad_second3 c1 c2" "\<not> bad_trail c3"
    using assms Cons by (auto simp: utf_simps not_less split: if_splits list.splits)
  then show ?thesis
  proof cases
    case 1
    with assms Cons utf8_one [OF 1] show ?thesis
      by (intro exI [of _ "unat c1"]) (auto simp: utf_simps valid2_def ucs2_byte split: if_splits)
  next
    case 2
    with assms Cons utf8_two [OF 2(1,2,4)] small_scalar show ?thesis
      by (intro exI [of _ "unat (code2 c1 c2)"])
        (auto simp: utf_simps valid2_def Let_def ucs2_units unat_cast16 split: if_splits)
  next
    case 3
    with assms Cons utf8_three [OF 3(1,2,4,5)] show ?thesis
      by (intro exI [of _ "unat (code3 c1 c2 c3)"])
        (auto simp: utf_simps valid2_def Let_def ucs2_units unat_cast16 split: if_splits)
  qed
qed

lemma utf8_to_ucs2_accept:
  assumes "valid2 Maxcode c"
  shows "utf8_to_ucs2_body Maxcode (utf8_bytes c @ rest) room = Emit (length (utf8_bytes c) - 1) (ucs2 c)"
proof -
  have v: "is_scalar c" "c \<le> unat Maxcode" "c < 0x10000" using assms by (auto simp: valid2_def)
  consider "c < 0x80" | "0x80 \<le> c" "c < 0x800" | "0x800 \<le> c" "c < 0x10000" using v by linarith
  then show ?thesis
  proof cases
    case 1
    then have u: "unat (of_nat c :: u8) = c" by (intro unat_of_nat8) simp
    with 1 v ucs2_byte [of "of_nat c"] show ?thesis by (simp add: utf8_bytes_cases utf_simps)
  next
    case 2
    with utf8_two_of [of c] obtain c1 c2 where "utf8_bytes c = [c1, c2]" "0xC2 \<le> unat c1" "unat c1 < 0xE0"
      "\<not> bad_trail c2" "unat (code2 c1 c2) = c" by blast
    with v ucs2_units [of "code2 c1 c2"] show ?thesis by (auto simp: utf_simps Let_def unat_cast16)
  next
    case 3
    with utf8_three_of [of c] v obtain c1 c2 c3 where "utf8_bytes c = [c1, c2, c3]" "0xE0 \<le> unat c1" "unat c1 < 0xF0"
      "\<not> bad_second3 c1 c2" "\<not> bad_trail c3" "unat (code3 c1 c2 c3) = c" by blast
    with v ucs2_units [of "code3 c1 c2 c3"] show ?thesis by (auto simp: utf_simps Let_def unat_cast16)
  qed
qed

lemma utf8_to_ucs2_not_ok: "frm \<noteq> [] \<Longrightarrow> utf8_to_ucs2_body Maxcode frm room \<noteq> Stop ok"
  by (cases frm) (auto simp: Let_def split: list.splits)

interpretation utf8_ucs2: utf_converter 0 "utf8_to_ucs2_body Maxcode" utf8_bytes ucs2 "valid2 Maxcode" for Maxcode
proof unfold_locales
  fix frm :: "u8 list" and room k bs
  assume "0 < room" "utf8_to_ucs2_body Maxcode frm room = Emit k bs"
  with utf8_to_ucs2_sound [OF this(2)] show "\<exists>c. valid2 Maxcode c \<and> bs = ucs2 c \<and>
      frm = utf8_bytes c @ drop (Suc k) frm \<and> length (utf8_bytes c) = Suc k \<and> length bs \<le> room"
    by (auto simp: ucs2_def Suc_le_eq)
qed (simp_all add: utf8_to_ucs2_accept utf8_to_ucs2_not_ok, simp add: ucs2_def)

text \<open>\<open>utf8_to_utf16\<close> also compares the lead byte itself with \<open>Maxcode\<close>.\<close>

definition valid16 :: "u64 \<Rightarrow> nat \<Rightarrow> bool" where
  "valid16 Maxcode c = (is_scalar c \<and> c \<le> unat Maxcode \<and> unat (hd (utf8_bytes c)) \<le> unat Maxcode)"

lemma ucs2_utf16: "c < 0x10000 \<Longrightarrow> ucs2 c = utf16_units c"
  by (simp add: ucs2_def utf16_units_def)

lemma utf8_to_utf16_sound:
  assumes "utf8_to_utf16_body Maxcode frm room = Emit k bs" "0 < room"
  shows "\<exists>c. valid16 Maxcode c \<and> bs = utf16_units c \<and> frm = utf8_bytes c @ drop (Suc k) frm \<and>
    length (utf8_bytes c) = Suc k \<and> length bs \<le> room"
proof (cases frm)
  case Nil
  with assms show ?thesis by simp
next
  case (Cons c1 f)
  consider "unat c1 < 0x80" | c2 f' where "0xC2 \<le> unat c1" "unat c1 < 0xE0" "f = c2 # f'" "\<not> bad_trail c2"
    | c2 c3 f' where "0xE0 \<le> unat c1" "unat c1 < 0xF0" "f = c2 # c3 # f'" "\<not> bad_second3 c1 c2" "\<not> bad_trail c3"
    | c2 c3 c4 f' where "0xF0 \<le> unat c1" "unat c1 < 0xF5" "f = c2 # c3 # c4 # f'" "\<not> bad_second4 c1 c2"
        "\<not> bad_trail c3" "\<not> bad_trail c4" "2 \<le> room"
    using assms Cons by (auto simp: utf_simps not_less split: if_splits list.splits)
  then show ?thesis
  proof cases
    case 1
    have "[ucast c1] = utf16_units (unat c1)" using 1 by (simp only: ucs2_byte ucs2_utf16)
    with 1 assms Cons utf8_one [OF 1] show ?thesis
      by (intro exI [of _ "unat c1"]) (auto simp: utf_simps valid16_def split: if_splits)
  next
    case 2
    note u = utf8_two [OF 2(1,2,4)]
    then have "[ucast (code2 c1 c2)] = utf16_units (unat (code2 c1 c2))" by (simp only: ucs2_units ucs2_utf16)
    with 2 assms Cons u small_scalar show ?thesis
      by (intro exI [of _ "unat (code2 c1 c2)"])
        (auto simp: utf_simps valid16_def Let_def unat_cast16 split: if_splits)
  next
    case 3
    note u = utf8_three [OF 3(1,2,4,5)]
    then have "[ucast (code3 c1 c2 c3)] = utf16_units (unat (code3 c1 c2 c3))" by (simp only: ucs2_units ucs2_utf16)
    with 3 assms Cons u show ?thesis
      by (intro exI [of _ "unat (code3 c1 c2 c3)"])
        (auto simp: utf_simps valid16_def Let_def unat_cast16 split: if_splits)
  next
    case 4
    note u = utf8_four [OF 4(1,2,4-6)]
    from assms Cons 4 u(5) have "bs = [high_unit c1 c2 c3, low_unit c3 c4]" "k = 3"
      "unat (code4 c1 c2 c3 c4) \<le> unat Maxcode" "unat c1 \<le> unat Maxcode"
      by (auto simp: utf_simps word_less_nat_alt [of Maxcode] split: if_splits)
    with Cons 4 u(1-4) small_scalar show ?thesis
      by (intro exI [of _ "unat (code4 c1 c2 c3 c4)"]) (simp add: valid16_def)
  qed
qed

lemma utf8_to_utf16_accept:
  assumes "valid16 Maxcode c" "length (utf16_units c) \<le> room"
  shows "utf8_to_utf16_body Maxcode (utf8_bytes c @ rest) room = Emit (length (utf8_bytes c) - 1) (utf16_units c)"
proof -
  have v: "is_scalar c" "c \<le> unat Maxcode" "unat (hd (utf8_bytes c)) \<le> unat Maxcode" "c < 0x110000"
    using assms(1) by (auto simp: valid16_def is_scalar_def)
  consider "c < 0x80" | "0x80 \<le> c" "c < 0x800" | "0x800 \<le> c" "c < 0x10000" | "0x10000 \<le> c" by linarith
  then show ?thesis
  proof cases
    case 1
    then have u: "unat (of_nat c :: u8) = c" by (intro unat_of_nat8) simp
    with 1 v ucs2_byte [of "of_nat c"] show ?thesis by (simp add: utf8_bytes_cases utf_simps ucs2_utf16)
  next
    case 2
    with utf8_two_of [of c] obtain c1 c2 where c: "utf8_bytes c = [c1, c2]" "0xC2 \<le> unat c1" "unat c1 < 0xE0"
      "\<not> bad_trail c2" "unat (code2 c1 c2) = c" by blast
    with v ucs2_units [of "code2 c1 c2"] 2 show ?thesis by (auto simp: utf_simps Let_def unat_cast16 ucs2_utf16)
  next
    case 3
    with utf8_three_of [of c] v obtain c1 c2 c3 where "utf8_bytes c = [c1, c2, c3]" "0xE0 \<le> unat c1" "unat c1 < 0xF0"
      "\<not> bad_second3 c1 c2" "\<not> bad_trail c3" "unat (code3 c1 c2 c3) = c" by blast
    with v ucs2_units [of "code3 c1 c2 c3"] 3 show ?thesis by (auto simp: utf_simps Let_def unat_cast16 ucs2_utf16)
  next
    case 4
    with utf8_four_of [of c] v obtain c1 c2 c3 c4 where c: "utf8_bytes c = [c1, c2, c3, c4]" "0xF0 \<le> unat c1"
      "unat c1 < 0xF5" "\<not> bad_second4 c1 c2" "\<not> bad_trail c3" "\<not> bad_trail c4" "unat (code4 c1 c2 c3 c4) = c" by blast
    have "2 \<le> room" using assms(2) 4 by (simp add: utf16_units_cases)
    with c v utf8_four(4,5) [OF c(2-6)] show ?thesis by (auto simp: utf_simps word_less_nat_alt [of Maxcode])
  qed
qed

lemma utf8_to_utf16_not_ok: "frm \<noteq> [] \<Longrightarrow> utf8_to_utf16_body Maxcode frm room \<noteq> Stop ok"
  by (cases frm) (auto simp: Let_def split: list.splits)

lemma utf16_units_nonempty [simp]: "utf16_units c \<noteq> []"
  by (simp add: utf16_units_def)

interpretation utf8_utf16: utf_converter 0 "utf8_to_utf16_body Maxcode" utf8_bytes utf16_units "valid16 Maxcode" for Maxcode
proof unfold_locales
  fix frm :: "u8 list" and room k bs
  assume "0 < room" "utf8_to_utf16_body Maxcode frm room = Emit k bs"
  with utf8_to_utf16_sound [OF this(2,1)] show "\<exists>c. valid16 Maxcode c \<and> bs = utf16_units c \<and>
      frm = utf8_bytes c @ drop (Suc k) frm \<and> length (utf8_bytes c) = Suc k \<and> length bs \<le> room" by simp
qed (simp_all add: utf8_to_utf16_accept utf8_to_utf16_not_ok)

section \<open>UTF-8 encoders\<close>

text \<open>How a 16- or 32-bit character is written, as the encoders compute it.\<close>

definition emits8 :: "nat \<Rightarrow> nat \<Rightarrow> u8 step" where
  "emits8 c room = (if room < length (utf8_bytes c) then Stop partial else Emit 0 (utf8_bytes c))"

lemma length_utf8_bytes:
  "length (utf8_bytes c) = (if c < 0x80 then 1 else if c < 0x800 then 2 else if c < 0x10000 then 3 else 4)"
  by (simp add: utf8_bytes_def)

lemma unat_cuts32 [utf_simps]:
  "(w < 0x80) = (unat w < 0x80)" "(w < 0x800) = (unat w < 0x800)" "(w < 0x10000) = (unat w < 0x10000)" for w :: u32
  by (simp_all add: word_less_nat_alt)

lemma unat_cuts16 [utf_simps]:
  "(v < 0x80) = (unat v < 0x80)" "(v < 0x800) = (unat v < 0x800)" "(v < 0xD800) = (unat v < 0xD800)"
  "(v < 0xDC00) = (unat v < 0xDC00)" "(v < 0xE000) = (unat v < 0xE000)" for v :: u16
  by (simp_all add: word_less_nat_alt)

lemma utf8_byte16: "unat w < 0x80 \<Longrightarrow> [ucast w] = utf8_bytes (unat w)" for w :: u16
  by (simp only: utf8_bytes_cases, intro arg_cong2 [of _ _ _ _ Cons] of_nat_eqI refl) (simp add: unat_narrow)

lemma utf8_byte32: "unat w < 0x80 \<Longrightarrow> [ucast w] = utf8_bytes (unat w)" for w :: u32
  by (simp only: utf8_bytes_cases, intro arg_cong2 [of _ _ _ _ Cons] of_nat_eqI refl) (simp add: unat_narrow)

lemma utf8_two32: "0x80 \<le> unat w \<Longrightarrow> unat w < 0x800 \<Longrightarrow>
    [ucast (0xC0 OR drop_bit 6 w), ucast (0x80 OR (w AND 0x03F))] = utf8_bytes (unat w)" for w :: u32
  unfolding utf8_bytes_cases by (intro arg_cong2 [of _ _ _ _ Cons] of_nat_eqI refl lead_bytes32)

lemma utf8_three32: "0x800 \<le> unat w \<Longrightarrow> unat w < 0x10000 \<Longrightarrow>
    [ucast (0xE0 OR drop_bit 12 w), ucast (0x80 OR drop_bit 6 (w AND 0x0FC0)), ucast (0x80 OR (w AND 0x003F))] =
      utf8_bytes (unat w)" for w :: u32
  unfolding utf8_bytes_cases by (intro arg_cong2 [of _ _ _ _ Cons] of_nat_eqI refl lead_bytes32)

text \<open>The bodies, on the value of the character.\<close>

lemma ucs4_to_utf8_value:
  assumes "unat wc < 0x110000"
  shows "ucs4_to_utf8_body Maxcode (wc # frm) room =
    (if valid4 Maxcode (unat wc) then emits8 (unat wc) room else Stop error)"
proof -
  have s: "(is_surrogate32 wc \<or> unat Maxcode < unat wc) = (\<not> valid4 Maxcode (unat wc))"
    using assms by (auto simp: surrogate_32 valid4_def is_scalar_def utf_simps)
  consider "unat wc < 0x80" | "0x80 \<le> unat wc" "unat wc < 0x800" | "0x800 \<le> unat wc" "unat wc < 0x10000"
    | "0x10000 \<le> unat wc" by linarith
  then show ?thesis
    using utf8_byte32 [of wc] utf8_two32 [of wc] utf8_three32 [of wc] utf8_lead4_bytes [of wc] assms
    by cases (simp_all only: ucs4_to_utf8_body.simps s emits8_def length_utf8_bytes utf_simps,
      simp_all)
qed

lemma ucs2_to_utf8_value:
  "ucs2_to_utf8_body Maxcode (wc # frm) room =
    (if valid2 Maxcode (unat wc) then emits8 (unat wc) room else Stop error)"
proof -
  have "unat wc < 0x110000" using unat_16_bound [of wc] by linarith
  then have s: "(is_surrogate16 wc \<or> unat Maxcode < unat wc) = (\<not> valid2 Maxcode (unat wc))"
    by (auto simp: is_surrogate16_def surrogate_16 valid2_def is_scalar_def)
  consider "unat wc < 0x80" | "0x80 \<le> unat wc" "unat wc < 0x800" | "0x800 \<le> unat wc" by linarith
  then show ?thesis
    using utf8_byte16 [of wc] utf8_lead2_bytes [of wc] utf8_lead3_bytes [of wc] unat_16_bound [of wc]
    by cases (simp_all only: ucs2_to_utf8_body.simps s emits8_def length_utf8_bytes utf_simps,
      simp_all)
qed

lemma emits8_some: "(emits8 c room = Emit k bs) = (k = 0 \<and> bs = utf8_bytes c \<and> length (utf8_bytes c) \<le> room)"
  by (auto simp: emits8_def)

text \<open>With \<open>Maxcode\<close> in the range of Unicode the encoder accepts the scalar values and nothing else.\<close>

lemma unat_ucs4: "c < 0x110000 \<Longrightarrow> unat (of_nat c :: u32) = c"
  by (simp only: unat_of_nat) simp

lemma ucs4_utf8_encoder:
  assumes "Maxcode \<le> 0x10FFFF"
  shows "utf_encoder (ucs4_to_utf8_body Maxcode) ucs4 utf8_bytes (valid4 Maxcode)"
proof -
  have m: "unat Maxcode \<le> 0x10FFFF" using assms by (simp add: word_le_nat_alt)
  have v: "ucs4_to_utf8_body Maxcode (wc # frm) room =
      (if valid4 Maxcode (unat wc) then emits8 (unat wc) room else Stop error)" for wc frm room
  proof (cases "unat wc < 0x110000")
    case True
    then show ?thesis by (rule ucs4_to_utf8_value)
  next
    case False
    with m show ?thesis by (simp add: valid4_def utf_simps)
  qed
  show ?thesis
  proof unfold_locales
    show "valid4 Maxcode c \<Longrightarrow> length (utf8_bytes c) \<le> room \<Longrightarrow>
        ucs4_to_utf8_body Maxcode (ucs4 c @ rest) room = Emit (length (ucs4 c) - 1) (utf8_bytes c)" for c room rest
      using v [of "of_nat c" rest room] unat_ucs4 [of c]
      by (auto simp: ucs4_def valid4_def is_scalar_def emits8_def simp del: ucs4_to_utf8_body.simps(2))
    show "\<exists>c. valid4 Maxcode c \<and> bs = utf8_bytes c \<and> frm = ucs4 c @ drop (Suc k) frm \<and>
        length (ucs4 c) = Suc k \<and> length bs \<le> room"
      if "frm \<noteq> []" "ucs4_to_utf8_body Maxcode frm room = Emit k bs" for frm room k bs
      using that by (cases frm) (auto simp: v emits8_some ucs4_def simp del: ucs4_to_utf8_body.simps(2) split: if_splits)
    show "frm \<noteq> [] \<Longrightarrow> ucs4_to_utf8_body Maxcode frm room \<noteq> Stop ok" for frm room
      by (cases frm) (auto simp: v emits8_def simp del: ucs4_to_utf8_body.simps(2))
    show "ucs4_to_utf8_body Maxcode frm 0 \<noteq> Emit k bs" for frm k bs
      by (cases frm) (auto simp: v emits8_some simp del: ucs4_to_utf8_body.simps(2))
  qed (simp_all add: ucs4_def)
qed

interpretation ucs2_utf8: utf_encoder "ucs2_to_utf8_body Maxcode" ucs2 utf8_bytes "valid2 Maxcode" for Maxcode
proof unfold_locales
  show "valid2 Maxcode c \<Longrightarrow> length (utf8_bytes c) \<le> room \<Longrightarrow>
      ucs2_to_utf8_body Maxcode (ucs2 c @ rest) room = Emit (length (ucs2 c) - 1) (utf8_bytes c)" for c room rest
    using ucs2_to_utf8_value [of Maxcode "of_nat c" rest room] unat_u16_of_nat [of c]
    by (auto simp: ucs2_def valid2_def emits8_def simp del: ucs2_to_utf8_body.simps(2))
  show "\<exists>c. valid2 Maxcode c \<and> bs = utf8_bytes c \<and> frm = ucs2 c @ drop (Suc k) frm \<and>
      length (ucs2 c) = Suc k \<and> length bs \<le> room"
    if "frm \<noteq> []" "ucs2_to_utf8_body Maxcode frm room = Emit k bs" for frm room k bs
    using that by (cases frm) (auto simp: ucs2_to_utf8_value emits8_some ucs2_def simp del: ucs2_to_utf8_body.simps(2) split: if_splits)
  show "frm \<noteq> [] \<Longrightarrow> ucs2_to_utf8_body Maxcode frm room \<noteq> Stop ok" for frm room
    by (cases frm) (auto simp: ucs2_to_utf8_value emits8_def simp del: ucs2_to_utf8_body.simps(2))
  show "ucs2_to_utf8_body Maxcode frm 0 \<noteq> Emit k bs" for frm k bs
    by (cases frm) (auto simp: ucs2_to_utf8_value emits8_some simp del: ucs2_to_utf8_body.simps(2))
qed (simp_all add: ucs2_def)

section \<open>The UTF-16 encoder\<close>

lemma pair_value_units:
  assumes "0xD800 \<le> unat h" "unat h < 0xDC00" "0xDC00 \<le> unat l" "unat l < 0xE000"
  shows "utf16_units (pair_value (unat h) (unat l)) = [h, l]"
    and "0x10000 \<le> pair_value (unat h) (unat l)" "pair_value (unat h) (unat l) < 0x110000"
proof -
  obtain a where a: "unat h = 0xD800 + a" using assms(1) le_iff_add by blast
  obtain b where b: "unat l = 0xDC00 + b" using assms(3) le_iff_add by blast
  have l: "a < 1024" "b < 1024" using assms a b by auto
  show p: "0x10000 \<le> pair_value (unat h) (unat l)" "pair_value (unat h) (unat l) < 0x110000"
    unfolding pair_value_def a b using l by auto
  have "pair_value (unat h) (unat l) - 0x10000 = a * 0x400 + b" unfolding pair_value_def a b by simp
  moreover have "(a * 0x400 + b) div 0x400 = a" "(a * 0x400 + b) mod 0x400 = b" using l by simp_all
  ultimately have "utf16_units (pair_value (unat h) (unat l)) = [of_nat (0xD800 + a), of_nat (0xDC00 + b)]"
    unfolding utf16_units_cases(2) [OF p(1)] by (simp only:)
  then show "utf16_units (pair_value (unat h) (unat l)) = [h, l]" by (simp only: a [symmetric] b [symmetric] of_unat)
qed

lemma utf16_pair_of:
  assumes "0x10000 \<le> c" "c < 0x110000"
  obtains h l where "utf16_units c = [h, l]" "0xD800 \<le> unat h" "unat h < 0xDC00" "0xDC00 \<le> unat l"
    "unat l < 0xE000" "pair_value (unat h) (unat l) = c"
proof -
  define a where "a = (c - 0x10000) div 0x400"
  define b where "b = (c - 0x10000) mod 0x400"
  have c: "c = 0x10000 + (a * 0x400 + b)" using assms by (simp add: a_def b_def)
  have l: "a < 1024" "b < 1024" using assms by (simp_all add: a_def b_def div_less_iff_less_mult)
  then have u: "unat (of_nat (0xD800 + a) :: u16) = 0xD800 + a" "unat (of_nat (0xDC00 + b) :: u16) = 0xDC00 + b"
    by (intro unat_u16_of_nat, simp)+
  have "utf16_units c = [of_nat (0xD800 + a), of_nat (0xDC00 + b)]"
    unfolding utf16_units_cases(2) [OF assms(1)] a_def b_def ..
  moreover have "pair_value (0xD800 + a) (0xDC00 + b) = c" unfolding pair_value_def using c by simp
  ultimately show thesis using that [of "of_nat (0xD800 + a)" "of_nat (0xDC00 + b)"] l unfolding u by simp
qed

lemma pair_low: "(l AND 0xFC00 \<noteq> 0xDC00) = (\<not> (0xDC00 \<le> unat l \<and> unat l < 0xE000))" for l :: u16
  by (simp add: surrogate_low)

lemma utf16_to_utf8_bmp:
  assumes "unat w < 0xD800 \<or> 0xE000 \<le> unat w"
  shows "utf16_to_utf8_body Maxcode (w # frm) room =
    (if valid4 Maxcode (unat w) then emits8 (unat w) room else Stop error)"
proof -
  have "unat w < 0x110000" using unat_16_bound [of w] by linarith
  with assms have s: "(unat Maxcode < unat w) = (\<not> valid4 Maxcode (unat w))"
    by (auto simp: valid4_def is_scalar_def)
  consider "unat w < 0x80" | "0x80 \<le> unat w" "unat w < 0x800" | "0x800 \<le> unat w" "unat w < 0xD800"
    | "0xE000 \<le> unat w" using assms by linarith
  then show ?thesis
    using utf8_byte16 [of w] utf8_lead2_bytes [of w] utf8_lead3_bytes [of w] unat_16_bound [of w]
    by cases (simp_all only: utf16_to_utf8_body.simps s emits8_def length_utf8_bytes utf_simps, simp_all)
qed

lemma utf16_to_utf8_pair:
  assumes "0xD800 \<le> unat h" "unat h < 0xDC00" "0xDC00 \<le> unat l" "unat l < 0xE000"
    "unat h \<le> unat Maxcode"
  shows "utf16_to_utf8_body Maxcode (h # l # frm) room =
    (if room < 4 then Stop partial
     else if valid4 Maxcode (pair_value (unat h) (unat l))
     then Emit 1 (utf8_bytes (pair_value (unat h) (unat l))) else Stop error)"
proof -
  have "(Maxcode < pair_code h l) = (\<not> valid4 Maxcode (pair_value (unat h) (unat l)))"
    using pair_codes(1) [OF assms(1-4)] pair_value_units(2,3) [OF assms(1-4)]
    by (auto simp: word_less_nat_alt valid4_def is_scalar_def)
  with assms utf8_pair_bytes [OF assms(1-4)] show ?thesis
    by (simp add: utf_simps pair_low)
qed

lemma utf16_to_utf8_sound:
  assumes "utf16_to_utf8_body Maxcode frm room = Emit k bs"
  shows "\<exists>c. valid4 Maxcode c \<and> bs = utf8_bytes c \<and> frm = utf16_units c @ drop (Suc k) frm \<and>
    length (utf16_units c) = Suc k \<and> length bs \<le> room"
proof (cases frm)
  case Nil
  with assms show ?thesis by simp
next
  case (Cons w f)
  show ?thesis
  proof (cases "unat w < 0xD800 \<or> 0xE000 \<le> unat w")
    case True
    have "utf16_units (unat w) = [w]" using unat_16_bound [of w] by (simp add: utf16_units_cases)
    with assms Cons utf16_to_utf8_bmp [OF True, of Maxcode f room] show ?thesis
      by (intro exI [of _ "unat w"]) (auto simp: emits8_some simp del: utf16_to_utf8_body.simps split: if_splits)
  next
    case False
    then have h: "unat w < 0xDC00" "\<exists>l g. f = l # g \<and> 0xDC00 \<le> unat l \<and> unat l < 0xE000"
      "unat w \<le> unat Maxcode"
      using assms Cons by (auto simp: utf_simps pair_low split: if_splits list.splits)
    then obtain l g where f: "f = l # g" "0xDC00 \<le> unat l" "unat l < 0xE000" by blast
    have d: "0xD800 \<le> unat w" using False by simp
    note p = pair_value_units [OF d h(1) f(2,3)]
    have "length (utf8_bytes (pair_value (unat w) (unat l))) = 4" using p(2) by (simp add: length_utf8_bytes)
    with assms Cons f p utf16_to_utf8_pair [OF d h(1) f(2,3) h(3), of g room] show ?thesis
      by (intro exI [of _ "pair_value (unat w) (unat l)"])
        (auto simp del: utf16_to_utf8_body.simps split: if_splits)
  qed
qed

lemma utf16_to_utf8_accept:
  assumes "valid4 Maxcode c" "length (utf8_bytes c) \<le> room"
  shows "utf16_to_utf8_body Maxcode (utf16_units c @ rest) room = Emit (length (utf16_units c) - 1) (utf8_bytes c)"
proof (cases "c < 0x10000")
  case True
  then have "unat (of_nat c :: u16) = c" by (intro unat_u16_of_nat) simp
  moreover have "c < 0xD800 \<or> 0xE000 \<le> c" using assms(1) by (auto simp: valid4_def is_scalar_def)
  ultimately show ?thesis using utf16_to_utf8_bmp [of "of_nat c" Maxcode rest room] True assms
    by (simp add: utf16_units_cases emits8_def del: utf16_to_utf8_body.simps)
next
  case False
  then have "0x10000 \<le> c" "c < 0x110000" using assms(1) by (auto simp: valid4_def is_scalar_def)
  from utf16_pair_of [OF this] obtain h l where u: "utf16_units c = [h, l]" "0xD800 \<le> unat h" "unat h < 0xDC00"
    "0xDC00 \<le> unat l" "unat l < 0xE000" "pair_value (unat h) (unat l) = c" by blast
  have "unat h \<le> unat Maxcode" using u False assms(1) by (simp add: valid4_def)
  moreover have "4 \<le> room" using assms(2) False by (simp add: length_utf8_bytes)
  ultimately show ?thesis using utf16_to_utf8_pair [OF u(2-5), of Maxcode rest room] assms(1) u(1,6)
    by (simp del: utf16_to_utf8_body.simps)
qed

lemma utf16_to_utf8_not_ok: "frm \<noteq> [] \<Longrightarrow> utf16_to_utf8_body Maxcode frm room \<noteq> Stop ok"
  by (cases frm) (auto split: list.splits)

lemma utf16_to_utf8_no_room: "utf16_to_utf8_body Maxcode frm 0 \<noteq> Emit k bs"
  using utf16_to_utf8_sound [of Maxcode frm 0 k bs] by auto

interpretation utf16_utf8: utf_encoder "utf16_to_utf8_body Maxcode" utf16_units utf8_bytes "valid4 Maxcode" for Maxcode
proof unfold_locales
  fix frm :: "u16 list" and room k bs
  assume "utf16_to_utf8_body Maxcode frm room = Emit k bs"
  then show "\<exists>c. valid4 Maxcode c \<and> bs = utf8_bytes c \<and> frm = utf16_units c @ drop (Suc k) frm \<and>
    length (utf16_units c) = Suc k \<and> length bs \<le> room" by (rule utf16_to_utf8_sound)
qed (simp_all add: utf16_to_utf8_accept utf16_to_utf8_not_ok utf16_to_utf8_no_room)

end
