(* ===== verification/UtfBytes.thy ===== *)
theory UtfBytes
  imports UtfCorrect
begin

text \<open>
  The conversions to and from UTF-16 as bytes, for both byte orders, and the \<open>_length\<close> functions
  of all decoders.
\<close>

section \<open>Byte orders\<close>

definition units_bytes :: "(u16 \<Rightarrow> u8 list) \<Rightarrow> nat \<Rightarrow> u8 list" where
  "units_bytes put c = concat (map put (utf16_units c))"

text \<open>What the loops rely on: \<open>put\<close> writes two bytes and \<open>join\<close> reads them back.\<close>

locale byte_order =
  fixes put :: "u16 \<Rightarrow> u8 list" and join :: "u8 \<Rightarrow> u8 \<Rightarrow> u16"
  assumes join_put: "\<exists>a b. put t = [a, b] \<and> join a b = t"
    and put_join: "put (join a b) = [a, b]"
begin

lemma put_len: "length (put t) = 2"
  using join_put [of t] by auto

lemma bytes_one: "c < 0x10000 \<Longrightarrow> units_bytes put c = put (of_nat c)"
  by (simp add: units_bytes_def utf16_units_cases)

lemma bytes_two: "utf16_units c = [h, l] \<Longrightarrow> units_bytes put c = put h @ put l"
  by (simp add: units_bytes_def)

lemma length_units_bytes: "length (units_bytes put c) = (if c < 0x10000 then 2 else 4)"
  by (simp add: units_bytes_def utf16_units_def put_len)

lemma units_bytes_nonempty [simp]: "units_bytes put c \<noteq> []"
  using length_units_bytes [of c] by (auto split: if_splits)

lemma ucs4_bytes_value:
  assumes "unat wc < 0x110000"
  shows "ucs4_to_utf16_bytes_body put Maxcode (wc # frm) room =
    (if \<not> valid4 Maxcode (unat wc) then Stop error
     else if room < length (units_bytes put (unat wc)) then Stop partial
     else Emit 0 (units_bytes put (unat wc)))"
proof -
  have s: "(is_surrogate32 wc \<or> unat Maxcode < unat wc) = (\<not> valid4 Maxcode (unat wc))"
    using assms by (auto simp: surrogate_32 valid4_def is_scalar_def utf_simps)
  show ?thesis
  proof (cases "unat wc < 0x10000")
    case True
    have "ucast wc = (of_nat (unat wc) :: u16)"
      by (rule of_nat_eqI) (use True in \<open>simp add: unat_narrow\<close>)
    with True s show ?thesis
      by (simp only: ucs4_to_utf16_bytes_body.simps utf_simps length_units_bytes bytes_one) (simp add: put_len)
  next
    case False
    then have r: "0x10000 \<le> unat wc" by simp
    have "utf16_units (unat wc) = [high_surrogate wc, low_surrogate wc]"
      unfolding utf16_units_cases(2) [OF r]
      by (intro arg_cong2 [of _ _ _ _ Cons] refl of_nat_eqI [symmetric] unat_surrogates r assms)
    from bytes_two [OF this] s False show ?thesis
      by (simp only: ucs4_to_utf16_bytes_body.simps utf_simps length_units_bytes) (simp add: put_len)
  qed
qed

lemma ucs4_bytes_encoder:
  assumes "Maxcode \<le> 0x10FFFF"
  shows "utf_encoder (ucs4_to_utf16_bytes_body put Maxcode) ucs4 (units_bytes put) (valid4 Maxcode)"
proof -
  have m: "unat Maxcode \<le> 0x10FFFF" using assms by (simp add: word_le_nat_alt)
  have v: "ucs4_to_utf16_bytes_body put Maxcode (wc # frm) room =
    (if \<not> valid4 Maxcode (unat wc) then Stop error
     else if room < length (units_bytes put (unat wc)) then Stop partial
     else Emit 0 (units_bytes put (unat wc)))" for wc frm room
  proof (cases "unat wc < 0x110000")
    case True
    then show ?thesis by (rule ucs4_bytes_value)
  next
    case False
    with m show ?thesis by (simp add: valid4_def utf_simps)
  qed
  show ?thesis
  proof unfold_locales
    show "valid4 Maxcode c \<Longrightarrow> length (units_bytes put c) \<le> room \<Longrightarrow>
        ucs4_to_utf16_bytes_body put Maxcode (ucs4 c @ rest) room = Emit (length (ucs4 c) - 1) (units_bytes put c)"
      for c room rest
      using v [of "of_nat c" rest room] unat_ucs4 [of c]
      by (auto simp: ucs4_def valid4_def is_scalar_def simp del: ucs4_to_utf16_bytes_body.simps(2))
    show "\<exists>c. valid4 Maxcode c \<and> bs = units_bytes put c \<and> frm = ucs4 c @ drop (Suc k) frm \<and>
        length (ucs4 c) = Suc k \<and> length bs \<le> room"
      if "frm \<noteq> []" "ucs4_to_utf16_bytes_body put Maxcode frm room = Emit k bs" for frm room k bs
      using that by (cases frm) (auto simp: v ucs4_def simp del: ucs4_to_utf16_bytes_body.simps(2) split: if_splits)
    show "frm \<noteq> [] \<Longrightarrow> ucs4_to_utf16_bytes_body put Maxcode frm room \<noteq> Stop ok" for frm room
      by (cases frm) (auto simp: v simp del: ucs4_to_utf16_bytes_body.simps(2))
    show "ucs4_to_utf16_bytes_body put Maxcode frm 0 \<noteq> Emit k bs" for frm k bs
      by (cases frm) (auto simp: v simp del: ucs4_to_utf16_bytes_body.simps(2))
  qed (simp_all add: ucs4_def)
qed

lemma ucs2_bytes_value:
  "ucs2_to_utf16_bytes_body put Maxcode (wc # frm) room =
    (if \<not> valid2 Maxcode (unat wc) then Stop error
     else if room < 2 then Stop partial else Emit 0 (units_bytes put (unat wc)))"
proof -
  have "unat wc < 0x110000" using unat_16_bound [of wc] by linarith
  then have "(is_surrogate16 wc \<or> unat Maxcode < unat wc) = (\<not> valid2 Maxcode (unat wc))"
    by (auto simp: is_surrogate16_def surrogate_16 valid2_def is_scalar_def)
  then show ?thesis using bytes_one [of "unat wc"]
    by (simp only: ucs2_to_utf16_bytes_body.simps utf_simps) simp
qed

lemma ucs2_bytes_encoder:
  "utf_encoder (ucs2_to_utf16_bytes_body put Maxcode) ucs2 (units_bytes put) (valid2 Maxcode)"
proof unfold_locales
  show "valid2 Maxcode c \<Longrightarrow> length (units_bytes put c) \<le> room \<Longrightarrow>
      ucs2_to_utf16_bytes_body put Maxcode (ucs2 c @ rest) room = Emit (length (ucs2 c) - 1) (units_bytes put c)"
    for c room rest
    using ucs2_bytes_value [of Maxcode "of_nat c" rest room] unat_u16_of_nat [of c]
    by (auto simp: ucs2_def valid2_def length_units_bytes simp del: ucs2_to_utf16_bytes_body.simps(2))
  show "\<exists>c. valid2 Maxcode c \<and> bs = units_bytes put c \<and> frm = ucs2 c @ drop (Suc k) frm \<and>
      length (ucs2 c) = Suc k \<and> length bs \<le> room"
    if "frm \<noteq> []" "ucs2_to_utf16_bytes_body put Maxcode frm room = Emit k bs" for frm room k bs
    using that by (cases frm) (auto simp: ucs2_bytes_value ucs2_def length_units_bytes simp del: ucs2_to_utf16_bytes_body.simps(2) split: if_splits)
  show "frm \<noteq> [] \<Longrightarrow> ucs2_to_utf16_bytes_body put Maxcode frm room \<noteq> Stop ok" for frm room
    by (cases frm) (auto simp: ucs2_bytes_value simp del: ucs2_to_utf16_bytes_body.simps(2))
  show "ucs2_to_utf16_bytes_body put Maxcode frm 0 \<noteq> Emit k bs" for frm k bs
    by (cases frm) (auto simp: ucs2_bytes_value simp del: ucs2_to_utf16_bytes_body.simps(2))
qed (simp_all add: ucs2_def)

lemma bytes_to_ucs4_sound:
  assumes "utf16_bytes_to_ucs4_body join Maxcode frm room = Emit k bs"
  shows "\<exists>c. valid4 Maxcode c \<and> bs = ucs4 c \<and> frm = units_bytes put c @ drop (Suc k) frm \<and>
    length (units_bytes put c) = Suc k"
proof -
  from assms obtain b0 b1 f where f: "frm = b0 # b1 # f" by (cases frm; cases "tl frm") auto
  define h where "h = join b0 b1"
  have p: "put h = [b0, b1]" by (simp add: h_def put_join)
  show ?thesis
  proof (cases "h AND 0xFC00 = 0xD800")
    case False
    with assms f have e: "bs = [ucast h]" "k = 1" "unat h \<le> unat Maxcode" "h AND 0xFC00 \<noteq> 0xDC00"
      by (auto simp: h_def [symmetric] Let_def utf_simps split: if_splits)
    have "[ucast h] = ucs4 (unat h)"
      unfolding ucs4_def by (intro arg_cong2 [of _ _ _ _ Cons] of_nat_eqI refl) (simp add: unat_widen)
    moreover have "unat h < 0x110000" using unat_16_bound [of h] by linarith
    then have "valid4 Maxcode (unat h)"
      using e(3,4) False by (auto simp: surrogate_high surrogate_low valid4_def is_scalar_def)
    moreover have "units_bytes put (unat h) = [b0, b1]" using bytes_one [of "unat h"] p by simp
    ultimately show ?thesis using e f by (intro exI [of _ "unat h"]) simp
  next
    case True
    with assms f obtain b2 b3 g where g: "f = b2 # b3 # g"
      by (cases f; cases "tl f") (auto simp: h_def [symmetric] Let_def)
    define l where "l = join b2 b3"
    have pl: "put l = [b2, b3]" by (simp add: l_def put_join)
    from True assms f g have e: "bs = [pair_code32 h l]" "k = 3" "unat (pair_code32 h l) \<le> unat Maxcode"
      "l AND 0xFC00 = 0xDC00"
      by (auto simp: h_def [symmetric] l_def [symmetric] Let_def utf_simps split: if_splits)
    have r: "0xD800 \<le> unat h" "unat h < 0xDC00" "0xDC00 \<le> unat l" "unat l < 0xE000"
      using True e(4) by (auto simp: surrogate_high surrogate_low)
    note pv = pair_value_units [OF r] pair_codes(2) [OF r]
    have "[pair_code32 h l] = ucs4 (pair_value (unat h) (unat l))"
      unfolding ucs4_def using pv(4) by (intro arg_cong2 [of _ _ _ _ Cons] of_nat_eqI refl) simp
    moreover have "valid4 Maxcode (pair_value (unat h) (unat l))"
      using e(3) pv by (auto simp: valid4_def is_scalar_def)
    moreover have "units_bytes put (pair_value (unat h) (unat l)) = [b0, b1, b2, b3]"
      using bytes_two [OF pv(1)] p pl by simp
    ultimately show ?thesis using e f g by (intro exI [of _ "pair_value (unat h) (unat l)"]) simp
  qed
qed

lemma bytes_to_ucs4_accept:
  assumes "valid4 Maxcode c"
  shows "utf16_bytes_to_ucs4_body join Maxcode (units_bytes put c @ rest) room =
    Emit (length (units_bytes put c) - 1) (ucs4 c)"
proof (cases "c < 0x10000")
  case True
  define h where "h = (of_nat c :: u16)"
  have u: "unat h = c" unfolding h_def using True by (intro unat_u16_of_nat) simp
  obtain a b where ab: "put h = [a, b]" "join a b = h" using join_put by blast
  have "[ucast h] = ucs4 c"
    unfolding ucs4_def by (intro arg_cong2 [of _ _ _ _ Cons] of_nat_eqI refl) (simp add: unat_widen u)
  with True u ab assms show ?thesis using bytes_one [of c]
    by (auto simp: h_def [symmetric] surrogate_high surrogate_low valid4_def is_scalar_def utf_simps)
next
  case False
  then have "0x10000 \<le> c" "c < 0x110000" using assms(1) by (auto simp: valid4_def is_scalar_def)
  from utf16_pair_of [OF this] obtain h l where u: "utf16_units c = [h, l]" "0xD800 \<le> unat h" "unat h < 0xDC00"
    "0xDC00 \<le> unat l" "unat l < 0xE000" "pair_value (unat h) (unat l) = c" by blast
  obtain a b where ab: "put h = [a, b]" "join a b = h" using join_put by blast
  obtain a' b' where ab': "put l = [a', b']" "join a' b' = l" using join_put by blast
  have "unat (pair_code32 h l) = c" using pair_codes(2) [OF u(2-5)] u(6) by simp
  moreover from this have "[pair_code32 h l] = ucs4 c" unfolding ucs4_def by auto
  ultimately show ?thesis using bytes_two [OF u(1)] ab ab' u(2-5) assms
    by (auto simp: surrogate_high surrogate_low valid4_def utf_simps Let_def)
qed

lemma bytes_to_ucs4_not_ok: "utf16_bytes_to_ucs4_body join Maxcode frm room \<noteq> Stop ok"
  by (cases "(join, Maxcode, frm, room)" rule: utf16_bytes_to_ucs4_body.cases) (auto simp: Let_def split: list.splits)

lemma bytes_ucs4_converter:
  "utf_converter 1 (utf16_bytes_to_ucs4_body join Maxcode) (units_bytes put) ucs4 (valid4 Maxcode)"
proof unfold_locales
  fix frm :: "u8 list" and room k bs
  assume "0 < room" "utf16_bytes_to_ucs4_body join Maxcode frm room = Emit k bs"
  with bytes_to_ucs4_sound [OF this(2)] show "\<exists>c. valid4 Maxcode c \<and> bs = ucs4 c \<and>
      frm = units_bytes put c @ drop (Suc k) frm \<and> length (units_bytes put c) = Suc k \<and> length bs \<le> room"
    by (auto simp: ucs4_def Suc_le_eq)
qed (simp_all add: bytes_to_ucs4_accept bytes_to_ucs4_not_ok length_units_bytes, simp add: ucs4_def)

lemma bytes_to_ucs2_sound:
  assumes "utf16_bytes_to_ucs2_body join Maxcode frm room = Emit k bs"
  shows "\<exists>c. valid2 Maxcode c \<and> bs = ucs2 c \<and> frm = units_bytes put c @ drop (Suc k) frm \<and>
    length (units_bytes put c) = Suc k"
proof -
  from assms obtain b0 b1 f where f: "frm = b0 # b1 # f" by (cases frm; cases "tl frm") auto
  define h where "h = join b0 b1"
  have p: "put h = [b0, b1]" by (simp add: h_def put_join)
  from assms f have e: "bs = [h]" "k = 1" "\<not> is_surrogate16 h" "unat h \<le> unat Maxcode"
    by (auto simp: h_def [symmetric] Let_def utf_simps split: if_splits)
  have "unat h < 0x110000" using unat_16_bound [of h] by linarith
  with e have "valid2 Maxcode (unat h)"
    by (auto simp: is_surrogate16_def surrogate_16 valid2_def is_scalar_def)
  moreover have "units_bytes put (unat h) = [b0, b1]" using bytes_one [of "unat h"] p by simp
  ultimately show ?thesis using e f by (intro exI [of _ "unat h"]) (simp add: ucs2_def)
qed

lemma bytes_to_ucs2_accept:
  assumes "valid2 Maxcode c"
  shows "utf16_bytes_to_ucs2_body join Maxcode (units_bytes put c @ rest) room =
    Emit (length (units_bytes put c) - 1) (ucs2 c)"
proof -
  have c: "c < 0x10000" using assms by (simp add: valid2_def)
  define h where "h = (of_nat c :: u16)"
  have u: "unat h = c" unfolding h_def using c by (intro unat_u16_of_nat) simp
  obtain a b where ab: "put h = [a, b]" "join a b = h" using join_put by blast
  with c u assms show ?thesis using bytes_one [OF c]
    by (auto simp: h_def [symmetric] is_surrogate16_def surrogate_16 valid2_def is_scalar_def utf_simps ucs2_def)
qed

lemma bytes_to_ucs2_not_ok: "utf16_bytes_to_ucs2_body join Maxcode frm room \<noteq> Stop ok"
  by (cases "(join, Maxcode, frm, room)" rule: utf16_bytes_to_ucs2_body.cases) (auto simp: Let_def)

lemma bytes_ucs2_converter:
  "utf_converter 1 (utf16_bytes_to_ucs2_body join Maxcode) (units_bytes put) ucs2 (valid2 Maxcode)"
proof unfold_locales
  fix frm :: "u8 list" and room k bs
  assume "0 < room" "utf16_bytes_to_ucs2_body join Maxcode frm room = Emit k bs"
  with bytes_to_ucs2_sound [OF this(2)] show "\<exists>c. valid2 Maxcode c \<and> bs = ucs2 c \<and>
      frm = units_bytes put c @ drop (Suc k) frm \<and> length (units_bytes put c) = Suc k \<and> length bs \<le> room"
    by (auto simp: ucs2_def Suc_le_eq)
qed (simp_all add: bytes_to_ucs2_accept bytes_to_ucs2_not_ok length_units_bytes, simp add: ucs2_def)

lemma bytes_length_bodies:
  "length_body 1 (utf16_bytes_to_ucs4_body join Maxcode) (utf16_bytes_to_ucs4_length_body join Maxcode) 4"
  "length_body 1 (utf16_bytes_to_ucs2_body join Maxcode) (utf16_bytes_to_ucs2_length_body join Maxcode) 2"
proof -
  show "length_body 1 (utf16_bytes_to_ucs4_body join Maxcode) (utf16_bytes_to_ucs4_length_body join Maxcode) 4"
  proof unfold_locales
    show "utf16_bytes_to_ucs4_length_body join Maxcode frm room = counted (utf16_bytes_to_ucs4_body join Maxcode frm room)"
      for frm room
      by (cases "(join, Maxcode, frm, room)" rule: utf16_bytes_to_ucs4_body.cases)
        (auto simp: Let_def split: list.splits)
    show "utf16_bytes_to_ucs4_body join Maxcode frm room = Emit k bs \<Longrightarrow> bs \<noteq> [] \<and> k < 4 \<and> Suc k \<le> length frm"
      for frm room k bs
      by (cases "(join, Maxcode, frm, room)" rule: utf16_bytes_to_ucs4_body.cases)
        (auto simp: Let_def split: list.splits if_splits)
  qed
  show "length_body 1 (utf16_bytes_to_ucs2_body join Maxcode) (utf16_bytes_to_ucs2_length_body join Maxcode) 2"
  proof unfold_locales
    show "utf16_bytes_to_ucs2_length_body join Maxcode frm room = counted (utf16_bytes_to_ucs2_body join Maxcode frm room)"
      for frm room
      by (cases "(join, Maxcode, frm, room)" rule: utf16_bytes_to_ucs2_body.cases) (auto simp: Let_def)
    show "utf16_bytes_to_ucs2_body join Maxcode frm room = Emit k bs \<Longrightarrow> bs \<noteq> [] \<and> k < 2 \<and> Suc k \<le> length frm"
      for frm room k bs
      by (cases "(join, Maxcode, frm, room)" rule: utf16_bytes_to_ucs2_body.cases)
        (auto simp: Let_def split: if_splits)
  qed
qed

end

interpretation be: byte_order put_be join_be
proof
  show "\<exists>a b. put_be t = [a, b] \<and> join_be a b = t" for t
  proof (intro exI conjI)
    show "put_be t = [ucast (drop_bit 8 t), ucast t]" by (simp add: put_be_def)
    have "unat t div 256 < 256" using unat_16_bound [of t] by (simp add: div_less_iff_less_mult)
    then have "unat (ucast (drop_bit 8 t) :: u8) = unat t div 256" by (simp add: word_to_nat)
    moreover have "unat (ucast t :: u8) = unat t mod 256" by (simp add: unat_narrow)
    ultimately have "unat (join_be (ucast (drop_bit 8 t)) (ucast t)) = unat t"
      unfolding unat_join by simp
    then show "join_be (ucast (drop_bit 8 t)) (ucast t) = t" by (simp only: word_unat_eq_iff)
  qed
  show "put_be (join_be a b) = [a, b]" for a b
  proof -
    have "(unat a * 256 + unat b) div 256 = unat a" "(unat a * 256 + unat b) mod 256 = unat b"
      using unat_8_bound [of b] by simp_all
    moreover have "unat a mod 65536 = unat a" using unat_8_bound [of a] by (intro mod_less) linarith
    ultimately have "unat (ucast (drop_bit 8 (join_be a b)) :: u8) = unat a" "unat (ucast (join_be a b) :: u8) = unat b"
      by (simp_all add: word_to_nat unat_join)
    then show ?thesis by (simp only: put_be_def word_unat_eq_iff list.inject)
  qed
qed

interpretation le: byte_order put_le join_le
proof
  show "\<exists>a b. put_le t = [a, b] \<and> join_le a b = t" for t
  proof -
    obtain a b where "put_be t = [a, b]" "join_be a b = t" using be.join_put by blast
    then have "put_le t = [b, a]" "join_le b a = t" by (auto simp: put_le_def put_be_def join_le_def join_be_def)
    then show ?thesis by blast
  qed
  show "put_le (join_le a b) = [a, b]" for a b
    using be.put_join [of b a] by (simp add: put_le_def put_be_def join_le_def join_be_def)
qed

section \<open>Lengths of UTF-8 input\<close>

lemma utf8_ucs4_length: "length_body 0 (utf8_to_ucs4_body Maxcode) (utf8_to_ucs4_length_body Maxcode) 4"
proof unfold_locales
  show "utf8_to_ucs4_length_body Maxcode frm room = counted (utf8_to_ucs4_body Maxcode frm room)" for frm room
    by (cases frm) (auto simp: Let_def split: list.splits)
  show "utf8_to_ucs4_body Maxcode frm room = Emit k bs \<Longrightarrow> bs \<noteq> [] \<and> k < 4 \<and> Suc k \<le> length frm" for frm room k bs
    by (cases frm) (auto simp: Let_def split: list.splits if_splits)
qed

text \<open>The values of short sequences fit the 16-bit variable of the decoder.\<close>

lemma code2_fits: "unat (code2 c1 c2) < 0x10000"
proof -
  have "unat c1 mod 32 < 32" "unat c2 mod 64 < 64" by simp_all
  then show ?thesis unfolding unat_code2 by linarith
qed

lemma code3_fits: "unat (code3 c1 c2 c3) < 0x10000"
proof -
  have "unat c1 mod 16 < 16" "unat c2 mod 64 < 64" "unat c3 mod 64 < 64" by simp_all
  then show ?thesis unfolding unat_code3 by linarith
qed

lemma utf8_ucs2_length: "length_body 0 (utf8_to_ucs2_body Maxcode) (utf8_to_ucs2_length_body Maxcode) 3"
proof unfold_locales
  show "utf8_to_ucs2_length_body Maxcode frm room = counted (utf8_to_ucs2_body Maxcode frm room)" for frm room
    by (cases frm) (auto simp: Let_def utf_simps unat_cast16 code2_fits code3_fits split: list.splits)
  show "utf8_to_ucs2_body Maxcode frm room = Emit k bs \<Longrightarrow> bs \<noteq> [] \<and> k < 3 \<and> Suc k \<le> length frm" for frm room k bs
    by (cases frm) (auto simp: Let_def split: list.splits if_splits)
qed

lemma utf8_utf16_length: "length_body 0 (utf8_to_utf16_body Maxcode) (utf8_to_utf16_length_body Maxcode) 4"
proof unfold_locales
  show "utf8_to_utf16_length_body Maxcode frm room = counted (utf8_to_utf16_body Maxcode frm room)" for frm room
    by (cases frm) (auto simp: Let_def utf_simps unat_cast16 code2_fits code3_fits split: list.splits)
  show "utf8_to_utf16_body Maxcode frm room = Emit k bs \<Longrightarrow> bs \<noteq> [] \<and> k < 4 \<and> Suc k \<le> length frm" for frm room k bs
    by (cases frm) (auto simp: Let_def split: list.splits if_splits)
qed

lemma counted_widen: "counted (widen s) = counted s"
  by (cases s) simp_all

lemma widen_some: "(widen s = Emit k bs) = (\<exists>ts. s = Emit k ts \<and> bs = map ucast ts)"
  by (cases s) auto

lemma utf8_utf16_u32_length:
  "length_body 0 (\<lambda>frm room. widen (utf8_to_utf16_body Maxcode frm room)) (utf8_to_utf16_length_body Maxcode) 4"
  using utf8_utf16_length [of Maxcode] unfolding length_body_def by (fastforce simp: counted_widen widen_some)

end
