(* ===== verification/Facets.thy ===== *)
theory Facets
  imports UtfBytes
begin

text \<open>
  The codecvt facets of \<open>libcxx/src/locale.cpp\<close>: a record of the virtual functions per class, and
  the contract \<open>codecvt_facet\<close> they share. The contract is interpreted for the classes whose
  conversions keep it; the ones that do not are treated by name.
\<close>

section \<open>The virtual functions\<close>

text \<open>The state argument is unused. Buffers are as in \<open>CodecvtLoops\<close>; \<open>do_unshift\<close> writes nothing.\<close>

record 'w codecvt =
  do_out :: "'w list \<Rightarrow> nat \<Rightarrow> result \<times> 'w list \<times> u8 list"
  do_in :: "u8 list \<Rightarrow> nat \<Rightarrow> result \<times> u8 list \<times> 'w list"
  do_unshift :: "result \<times> u8 list"
  do_encoding :: int
  do_always_noconv :: bool
  do_length :: "u8 list \<Rightarrow> nat \<Rightarrow> int"
  do_max_length :: int

text \<open>\<open>codecvt<char, char, mbstate_t>\<close>\<close>

definition codecvt_char :: "u8 codecvt" where
  "codecvt_char =
     \<lparr>do_out = (\<lambda>frm room. (noconv, frm, [])), do_in = (\<lambda>frm room. (noconv, frm, [])),
      do_unshift = (noconv, []), do_encoding = 1, do_always_noconv = True,
      do_length = (\<lambda>frm mx. ptrdiff_to_int (min mx (length frm))), do_max_length = 1\<rparr>"

definition default_max :: u64 where "default_max = 0x10FFFF"

text \<open>\<open>codecvt<char16_t, char, mbstate_t>\<close> and \<open>codecvt<char32_t, char, mbstate_t>\<close>\<close>

definition codecvt_char16 :: "u16 codecvt" where
  "codecvt_char16 =
     \<lparr>do_out = utf16_to_utf8 default_max 0, do_in = utf8_to_utf16 default_max 0,
      do_unshift = (noconv, []), do_encoding = 0, do_always_noconv = False,
      do_length = utf8_to_utf16_length default_max 0, do_max_length = 4\<rparr>"

definition codecvt_char32 :: "u32 codecvt" where
  "codecvt_char32 =
     \<lparr>do_out = ucs4_to_utf8 default_max 0, do_in = utf8_to_ucs4 default_max 0,
      do_unshift = (noconv, []), do_encoding = 0, do_always_noconv = False,
      do_length = utf8_to_ucs4_length default_max 0, do_max_length = 4\<rparr>"

text \<open>\<open>__codecvt_utf8\<close>; the class for \<open>wchar_t\<close> in the builds with 32-bit and with 16-bit \<open>wchar_t\<close>.\<close>

definition codecvt_utf8_wchar :: "u64 \<Rightarrow> codecvt_mode \<Rightarrow> u32 codecvt" where
  "codecvt_utf8_wchar Maxcode mode =
     \<lparr>do_out = ucs4_to_utf8 Maxcode mode, do_in = utf8_to_ucs4 Maxcode mode,
      do_unshift = (noconv, []), do_encoding = 0, do_always_noconv = False,
      do_length = utf8_to_ucs4_length Maxcode mode,
      do_max_length = (if mode AND consume_header \<noteq> 0 then 7 else 4)\<rparr>"

definition codecvt_utf8_short_wchar :: "u64 \<Rightarrow> codecvt_mode \<Rightarrow> u16 codecvt" where
  "codecvt_utf8_short_wchar Maxcode mode =
     \<lparr>do_out = ucs2_to_utf8 Maxcode mode, do_in = utf8_to_ucs2 Maxcode mode,
      do_unshift = (noconv, []), do_encoding = 0, do_always_noconv = False,
      do_length = utf8_to_ucs4_length Maxcode mode,
      do_max_length = (if mode AND consume_header \<noteq> 0 then 7 else 4)\<rparr>"

definition codecvt_utf8_char16 :: "u64 \<Rightarrow> codecvt_mode \<Rightarrow> u16 codecvt" where
  "codecvt_utf8_char16 Maxcode mode =
     \<lparr>do_out = ucs2_to_utf8 Maxcode mode, do_in = utf8_to_ucs2 Maxcode mode,
      do_unshift = (noconv, []), do_encoding = 0, do_always_noconv = False,
      do_length = utf8_to_ucs2_length Maxcode mode,
      do_max_length = (if mode AND consume_header \<noteq> 0 then 6 else 3)\<rparr>"

definition codecvt_utf8_char32 :: "u64 \<Rightarrow> codecvt_mode \<Rightarrow> u32 codecvt" where
  "codecvt_utf8_char32 Maxcode mode =
     \<lparr>do_out = ucs4_to_utf8 Maxcode mode, do_in = utf8_to_ucs4 Maxcode mode,
      do_unshift = (noconv, []), do_encoding = 0, do_always_noconv = False,
      do_length = utf8_to_ucs4_length Maxcode mode,
      do_max_length = (if mode AND consume_header \<noteq> 0 then 7 else 4)\<rparr>"

text \<open>\<open>__codecvt_utf16\<close>, big-endian (\<open>false\<close>) and little-endian (\<open>true\<close>)\<close>

definition codecvt_utf16_wchar_be :: "u64 \<Rightarrow> codecvt_mode \<Rightarrow> u32 codecvt" where
  "codecvt_utf16_wchar_be Maxcode mode =
     \<lparr>do_out = ucs4_to_utf16be Maxcode mode, do_in = utf16be_to_ucs4 Maxcode mode,
      do_unshift = (noconv, []), do_encoding = 0, do_always_noconv = False,
      do_length = utf16be_to_ucs4_length Maxcode mode,
      do_max_length = (if mode AND consume_header \<noteq> 0 then 6 else 4)\<rparr>"

definition codecvt_utf16_wchar_le :: "u64 \<Rightarrow> codecvt_mode \<Rightarrow> u32 codecvt" where
  "codecvt_utf16_wchar_le Maxcode mode =
     \<lparr>do_out = ucs4_to_utf16le Maxcode mode, do_in = utf16le_to_ucs4 Maxcode mode,
      do_unshift = (noconv, []), do_encoding = 0, do_always_noconv = False,
      do_length = utf16le_to_ucs4_length Maxcode mode,
      do_max_length = (if mode AND consume_header \<noteq> 0 then 6 else 4)\<rparr>"

definition codecvt_utf16_char16_be :: "u64 \<Rightarrow> codecvt_mode \<Rightarrow> u16 codecvt" where
  "codecvt_utf16_char16_be Maxcode mode =
     \<lparr>do_out = ucs2_to_utf16be Maxcode mode, do_in = utf16be_to_ucs2 Maxcode mode,
      do_unshift = (noconv, []), do_encoding = 0, do_always_noconv = False,
      do_length = utf16be_to_ucs2_length Maxcode mode,
      do_max_length = (if mode AND consume_header \<noteq> 0 then 4 else 2)\<rparr>"

definition codecvt_utf16_char16_le :: "u64 \<Rightarrow> codecvt_mode \<Rightarrow> u16 codecvt" where
  "codecvt_utf16_char16_le Maxcode mode =
     \<lparr>do_out = ucs2_to_utf16le Maxcode mode, do_in = utf16le_to_ucs2 Maxcode mode,
      do_unshift = (noconv, []), do_encoding = 0, do_always_noconv = False,
      do_length = utf16le_to_ucs2_length Maxcode mode,
      do_max_length = (if mode AND consume_header \<noteq> 0 then 4 else 2)\<rparr>"

definition codecvt_utf16_char32_be :: "u64 \<Rightarrow> codecvt_mode \<Rightarrow> u32 codecvt" where
  "codecvt_utf16_char32_be Maxcode mode =
     \<lparr>do_out = ucs4_to_utf16be Maxcode mode, do_in = utf16be_to_ucs4 Maxcode mode,
      do_unshift = (noconv, []), do_encoding = 0, do_always_noconv = False,
      do_length = utf16be_to_ucs4_length Maxcode mode,
      do_max_length = (if mode AND consume_header \<noteq> 0 then 6 else 4)\<rparr>"

definition codecvt_utf16_char32_le :: "u64 \<Rightarrow> codecvt_mode \<Rightarrow> u32 codecvt" where
  "codecvt_utf16_char32_le Maxcode mode =
     \<lparr>do_out = ucs4_to_utf16le Maxcode mode, do_in = utf16le_to_ucs4 Maxcode mode,
      do_unshift = (noconv, []), do_encoding = 0, do_always_noconv = False,
      do_length = utf16le_to_ucs4_length Maxcode mode,
      do_max_length = (if mode AND consume_header \<noteq> 0 then 6 else 4)\<rparr>"

text \<open>\<open>__codecvt_utf8_utf16\<close>\<close>

definition codecvt_utf8_utf16_wchar :: "u64 \<Rightarrow> codecvt_mode \<Rightarrow> u32 codecvt" where
  "codecvt_utf8_utf16_wchar Maxcode mode =
     \<lparr>do_out = utf16_to_utf8_u32 Maxcode mode, do_in = utf8_to_utf16_u32 Maxcode mode,
      do_unshift = (noconv, []), do_encoding = 0, do_always_noconv = False,
      do_length = utf8_to_utf16_length Maxcode mode,
      do_max_length = (if mode AND consume_header \<noteq> 0 then 7 else 4)\<rparr>"

definition codecvt_utf8_utf16_char16 :: "u64 \<Rightarrow> codecvt_mode \<Rightarrow> u16 codecvt" where
  "codecvt_utf8_utf16_char16 Maxcode mode =
     \<lparr>do_out = utf16_to_utf8 Maxcode mode, do_in = utf8_to_utf16 Maxcode mode,
      do_unshift = (noconv, []), do_encoding = 0, do_always_noconv = False,
      do_length = utf8_to_utf16_length Maxcode mode,
      do_max_length = (if mode AND consume_header \<noteq> 0 then 7 else 4)\<rparr>"

definition codecvt_utf8_utf16_char32 :: "u64 \<Rightarrow> codecvt_mode \<Rightarrow> u32 codecvt" where
  "codecvt_utf8_utf16_char32 Maxcode mode =
     \<lparr>do_out = utf16_to_utf8_u32 Maxcode mode, do_in = utf8_to_utf16_u32 Maxcode mode,
      do_unshift = (noconv, []), do_encoding = 0, do_always_noconv = False,
      do_length = utf8_to_utf16_length Maxcode mode,
      do_max_length = (if mode AND consume_header \<noteq> 0 then 7 else 4)\<rparr>"

section \<open>Modes\<close>

text \<open>The mark a mode writes; in a balanced mode it is also the mark the decoder skips.\<close>

definition written_mark :: "u8 list \<Rightarrow> codecvt_mode \<Rightarrow> u8 list" where
  "written_mark mark mode = (if mode AND generate_header \<noteq> 0 then mark else [])"

definition balanced :: "codecvt_mode \<Rightarrow> bool" where
  "balanced mode = ((mode AND generate_header \<noteq> 0) = (mode AND consume_header \<noteq> 0))"

lemma encode_ok:
  "encode mark mode body frm room = (ok, rest, bs) \<longleftrightarrow>
   (\<exists>bs'. bs = written_mark mark mode @ bs' \<and> length (written_mark mark mode) \<le> room \<and>
     enc_loop body frm (room - length (written_mark mark mode)) = (ok, rest, bs'))"
proof (cases "mode AND generate_header = 0")
  case True
  then show ?thesis by (auto simp: encode_def written_mark_def)
next
  case False
  then show ?thesis
    by (cases "enc_loop body frm (room - length mark)") (auto simp: encode_def written_mark_def)
qed

lemma skip_mark_written: "balanced mode \<Longrightarrow> skip_mark mark mode (written_mark mark mode @ frm) = frm"
  by (auto simp: balanced_def written_mark_def skip_mark_def)

lemma skip_mark_length: "length (skip_mark mark mode frm) \<le> length frm"
  "length frm - length (skip_mark mark mode frm) \<le> (if mode AND consume_header \<noteq> 0 then length mark else 0)"
  by (simp_all add: skip_mark_def)

lemma ptrdiff_to_int: "n < 2 ^ 31 \<Longrightarrow> ptrdiff_to_int n = int n"
  by (simp add: ptrdiff_to_int_def signed_of_nat signed_take_bit_int_eq_self)

text \<open>With a \<open>length_body\<close> the measured length is what the decoder consumes, mark included.\<close>

lemma measure_decode:
  assumes "length_body g body lbody longest" "decode g mark mode body frm mx = (r, rest, ws)" "length frm < 2 ^ 31"
  shows "measure_input g mark mode lbody frm mx = int (length frm - length rest)"
proof -
  let ?f = "skip_mark mark mode frm"
  have d: "dec_loop g body ?f mx = (r, rest, ws)" using assms(2) by (simp add: decode_def)
  have l: "len_loop g lbody ?f mx = length ?f - length rest" by (rule length_body.len_loop_dec [OF assms(1) d])
  have "length frm - length ?f + (length ?f - length rest) = length frm - length rest"
    using skip_mark_length(1) [of mark mode frm] rest_le [OF d] by simp
  then show ?thesis using assms(3) by (simp add: measure_input_def Let_def l ptrdiff_to_int)
qed

lemma measure_one:
  assumes "length_body g body lbody longest" "longest < 16" "length mark < 16"
  shows "measure_input g mark mode lbody frm 1 \<le> int ((if mode AND consume_header \<noteq> 0 then length mark else 0) + longest)"
proof -
  let ?f = "skip_mark mark mode frm"
  have "length frm - length ?f + len_loop g lbody ?f 1 \<le>
      (if mode AND consume_header \<noteq> 0 then length mark else 0) + longest" (is "?n \<le> ?m")
    using skip_mark_length(2) [of frm mark mode] length_body.len_loop_one [OF assms(1), of ?f] by linarith
  moreover have "?m < 32" using assms(2,3) by auto
  moreover have "(32 :: nat) < 2 ^ 31" by simp
  ultimately have "?n < 2 ^ 31" by (meson le_less_trans less_trans)
  then have "measure_input g mark mode lbody frm 1 = int ?n"
    by (simp add: measure_input_def Let_def ptrdiff_to_int)
  with \<open>?n \<le> ?m\<close> show ?thesis by simp
qed

section \<open>The contract of a codecvt facet\<close>

text \<open>\<open>do_out\<close> and \<open>do_in\<close> answer \<open>ok\<close> exactly on the texts of valid characters that fit,
  \<open>do_length\<close> measures what \<open>do_in\<close> consumes, and one internal character takes at most
  \<open>do_max_length\<close> bytes. \<open>mark\<close> is what precedes the external text.\<close>

locale codecvt_facet =
  fixes cvt :: "'w codecvt" and mark :: "u8 list"
    and intern :: "nat \<Rightarrow> 'w list" and extern :: "nat \<Rightarrow> u8 list" and valid :: "nat \<Rightarrow> bool"
  assumes out_ok: "do_out cvt frm room = (ok, rest, bs) \<longleftrightarrow>
      (\<exists>cs. list_all valid cs \<and> frm = concat (map intern cs) \<and> rest = [] \<and>
        bs = mark @ concat (map extern cs) \<and> length bs \<le> room)"
    and in_ok: "do_in cvt (mark @ frm') room = (ok, rest', ws) \<longleftrightarrow>
      (\<exists>cs. list_all valid cs \<and> frm' = concat (map extern cs) \<and> rest' = [] \<and>
        ws = concat (map intern cs) \<and> length ws \<le> room)"
    and in_length: "do_in cvt frm' mx = (r, rest', ws) \<Longrightarrow> length frm' < 2 ^ 31 \<Longrightarrow>
      do_length cvt frm' mx = int (length frm' - length rest')"
    and one_char: "do_length cvt frm' 1 \<le> do_max_length cvt"
begin

text \<open>What is written is read back, and what is read can be written again.\<close>

lemma out_in: "do_out cvt frm room = (ok, rest, bs) \<Longrightarrow> do_in cvt bs (length frm) = (ok, [], frm)"
  by (auto simp: out_ok in_ok)

lemma in_out: "do_in cvt (mark @ bs) room = (ok, rest, ws) \<Longrightarrow>
    do_out cvt ws (length mark + length bs) = (ok, [], mark @ bs)"
  by (auto simp: out_ok in_ok)

lemma out_length: "do_out cvt frm room = (ok, rest, bs) \<Longrightarrow> length bs < 2 ^ 31 \<Longrightarrow>
    do_length cvt bs (length frm) = int (length bs)"
  using in_length [OF out_in] by fastforce

end

text \<open>A facet made of an encoder, a decoder and its length function keeps the contract.\<close>

lemma facet_of_converters:
  assumes enc: "utf_encoder ebody intern extern valid"
    and dec: "utf_converter g dbody extern intern valid"
    and len: "length_body g dbody lbody longest" "longest < 16" "length mark < 16"
    and mode: "balanced mode"
    and cvt: "do_out cvt = encode mark mode ebody" "do_in cvt = decode g mark mode dbody"
      "do_length cvt = measure_input g mark mode lbody"
      "do_max_length cvt = int ((if mode AND consume_header \<noteq> 0 then length mark else 0) + longest)"
  shows "codecvt_facet cvt (written_mark mark mode) intern extern valid"
proof unfold_locales
  show "do_out cvt frm room = (ok, rest, bs) \<longleftrightarrow>
      (\<exists>cs. list_all valid cs \<and> frm = concat (map intern cs) \<and> rest = [] \<and>
        bs = written_mark mark mode @ concat (map extern cs) \<and> length bs \<le> room)"
    (is "?l = ?r") for frm room rest bs
  proof
    assume ?l
    then obtain bs' cs where "bs = written_mark mark mode @ bs'" "length (written_mark mark mode) \<le> room"
      "list_all valid cs" "frm = concat (map intern cs)" "rest = []" "bs' = concat (map extern cs)"
      "length bs' \<le> room - length (written_mark mark mode)"
      unfolding cvt encode_ok utf_encoder.enc_ok_iff [OF enc] by blast
    then show ?r by (intro exI [of _ cs]) simp
  next
    assume ?r
    then obtain cs where "list_all valid cs" "frm = concat (map intern cs)" "rest = []"
      "bs = written_mark mark mode @ concat (map extern cs)" "length bs \<le> room" by blast
    then show ?l unfolding cvt encode_ok utf_encoder.enc_ok_iff [OF enc]
      by (intro exI [of _ "concat (map extern cs)"] conjI exI [of _ cs]) simp_all
  qed
  show "do_in cvt (written_mark mark mode @ frm) room = (ok, rest, ws) \<longleftrightarrow>
      (\<exists>cs. list_all valid cs \<and> frm = concat (map extern cs) \<and> rest = [] \<and>
        ws = concat (map intern cs) \<and> length ws \<le> room)" for frm room rest ws
    unfolding cvt decode_def skip_mark_written [OF mode] utf_converter.dec_ok_iff [OF dec] ..
  show "do_in cvt frm mx = (r, rest, ws) \<Longrightarrow> length frm < 2 ^ 31 \<Longrightarrow>
      do_length cvt frm mx = int (length frm - length rest)" for frm mx r rest ws
    unfolding cvt by (rule measure_decode [OF len(1)])
  show "do_length cvt frm 1 \<le> do_max_length cvt" for frm
    unfolding cvt by (rule measure_one [OF len])
qed

section \<open>The facets that keep the contract\<close>

lemma facet_utf8_char32:
  assumes "Maxcode \<le> 0x10FFFF" "balanced mode"
  shows "codecvt_facet (codecvt_utf8_char32 Maxcode mode) (written_mark utf8_mark mode) ucs4 utf8_bytes (valid4 Maxcode)"
    and "codecvt_facet (codecvt_utf8_wchar Maxcode mode) (written_mark utf8_mark mode) ucs4 utf8_bytes (valid4 Maxcode)"
  by (rule facet_of_converters [OF ucs4_utf8_encoder [OF assms(1)] utf8_ucs4.utf_converter_axioms utf8_ucs4_length _ _ assms(2)];
      simp add: codecvt_utf8_char32_def codecvt_utf8_wchar_def ucs4_to_utf8_def utf8_to_ucs4_def utf8_to_ucs4_length_def
        utf8_mark_def fun_eq_iff)+

lemma facet_utf8_char16:
  assumes "balanced mode"
  shows "codecvt_facet (codecvt_utf8_char16 Maxcode mode) (written_mark utf8_mark mode) ucs2 utf8_bytes (valid2 Maxcode)"
  by (rule facet_of_converters [OF ucs2_utf8.utf_encoder_axioms utf8_ucs2.utf_converter_axioms utf8_ucs2_length _ _ assms];
      simp add: codecvt_utf8_char16_def ucs2_to_utf8_def utf8_to_ucs2_def utf8_to_ucs2_length_def utf8_mark_def fun_eq_iff)

lemma facet_utf16_char32:
  assumes "Maxcode \<le> 0x10FFFF" "balanced mode"
  shows "codecvt_facet (codecvt_utf16_char32_be Maxcode mode) (written_mark utf16be_mark mode) ucs4 (units_bytes put_be) (valid4 Maxcode)"
    and "codecvt_facet (codecvt_utf16_wchar_be Maxcode mode) (written_mark utf16be_mark mode) ucs4 (units_bytes put_be) (valid4 Maxcode)"
    and "codecvt_facet (codecvt_utf16_char32_le Maxcode mode) (written_mark utf16le_mark mode) ucs4 (units_bytes put_le) (valid4 Maxcode)"
    and "codecvt_facet (codecvt_utf16_wchar_le Maxcode mode) (written_mark utf16le_mark mode) ucs4 (units_bytes put_le) (valid4 Maxcode)"
  by (rule facet_of_converters [OF be.ucs4_bytes_encoder [OF assms(1)] be.bytes_ucs4_converter be.bytes_length_bodies(1) _ _ assms(2)]
        facet_of_converters [OF le.ucs4_bytes_encoder [OF assms(1)] le.bytes_ucs4_converter le.bytes_length_bodies(1) _ _ assms(2)];
      simp add: codecvt_utf16_char32_be_def codecvt_utf16_wchar_be_def codecvt_utf16_char32_le_def codecvt_utf16_wchar_le_def
        ucs4_to_utf16be_def utf16be_to_ucs4_def utf16be_to_ucs4_length_def ucs4_to_utf16le_def utf16le_to_ucs4_def
        utf16le_to_ucs4_length_def utf16be_mark_def utf16le_mark_def fun_eq_iff)+

lemma facet_utf16_char16:
  assumes "balanced mode"
  shows "codecvt_facet (codecvt_utf16_char16_be Maxcode mode) (written_mark utf16be_mark mode) ucs2 (units_bytes put_be) (valid2 Maxcode)"
    and "codecvt_facet (codecvt_utf16_char16_le Maxcode mode) (written_mark utf16le_mark mode) ucs2 (units_bytes put_le) (valid2 Maxcode)"
  by (rule facet_of_converters [OF be.ucs2_bytes_encoder be.bytes_ucs2_converter be.bytes_length_bodies(2) _ _ assms]
        facet_of_converters [OF le.ucs2_bytes_encoder le.bytes_ucs2_converter le.bytes_length_bodies(2) _ _ assms];
      simp add: codecvt_utf16_char16_be_def codecvt_utf16_char16_le_def ucs2_to_utf16be_def utf16be_to_ucs2_def
        utf16be_to_ucs2_length_def ucs2_to_utf16le_def utf16le_to_ucs2_def utf16le_to_ucs2_length_def
        utf16be_mark_def utf16le_mark_def fun_eq_iff)+

text \<open>The largest lead byte is 0xF4, so the extra comparison of \<open>utf8_to_utf16\<close> is harmless
  when \<open>Maxcode\<close> is at least that.\<close>

lemma lead_bound: "c < 0x110000 \<Longrightarrow> unat (hd (utf8_bytes c)) \<le> 0xF4"
proof -
  assume "c < 0x110000"
  then have "c < 0x800 \<Longrightarrow> c div 0x40 < 0x20" "c < 0x10000 \<Longrightarrow> c div 0x1000 < 0x10" "c div 0x40000 < 5"
    by (simp_all add: div_less_iff_less_mult)
  then show ?thesis
    by (auto simp: utf8_bytes_def unat_of_nat8 simp del: of_nat_add of_nat_numeral)
qed

lemma valid16_valid4: "0xF4 \<le> Maxcode \<Longrightarrow> valid16 Maxcode = valid4 Maxcode"
proof (rule ext)
  fix c assume "0xF4 \<le> Maxcode"
  then have "0xF4 \<le> unat Maxcode" by (simp add: word_le_nat_alt)
  then show "valid16 Maxcode c = valid4 Maxcode c"
    using lead_bound [of c] by (auto simp: valid16_def valid4_def is_scalar_def)
qed

lemma facet_utf8_utf16_char16:
  assumes "0xF4 \<le> Maxcode" "balanced mode"
  shows "codecvt_facet (codecvt_utf8_utf16_char16 Maxcode mode) (written_mark utf8_mark mode) utf16_units utf8_bytes (valid4 Maxcode)"
  by (rule facet_of_converters [OF utf16_utf8.utf_encoder_axioms
        utf8_utf16.utf_converter_axioms [of Maxcode, unfolded valid16_valid4 [OF assms(1)]] utf8_utf16_length _ _ assms(2)];
      simp add: codecvt_utf8_utf16_char16_def utf16_to_utf8_def utf8_to_utf16_def utf8_to_utf16_length_def
        utf8_mark_def fun_eq_iff)

lemma valid4_default: "valid4 default_max = is_scalar"
  by (auto simp: fun_eq_iff valid4_def default_max_def is_scalar_def)

lemma valid16_default: "valid16 default_max = is_scalar"
  using valid16_valid4 [of default_max] valid4_default by (simp add: default_max_def)

lemma balanced_plain: "balanced 0"
  by (simp add: balanced_def)

lemma written_plain: "written_mark mark 0 = []"
  by (simp add: written_mark_def)

interpretation c32: codecvt_facet codecvt_char32 "[]" ucs4 utf8_bytes is_scalar
  by (rule facet_of_converters [OF ucs4_utf8_encoder [of default_max, unfolded valid4_default]
        utf8_ucs4.utf_converter_axioms [of default_max, unfolded valid4_default] utf8_ucs4_length [of default_max] _ _
        balanced_plain, of utf8_mark, unfolded written_plain];
      simp add: codecvt_char32_def ucs4_to_utf8_def utf8_to_ucs4_def utf8_to_ucs4_length_def utf8_mark_def fun_eq_iff
        default_max_def)

interpretation c16: codecvt_facet codecvt_char16 "[]" utf16_units utf8_bytes is_scalar
  by (rule facet_of_converters [OF utf16_utf8.utf_encoder_axioms [of default_max, unfolded valid4_default]
        utf8_utf16.utf_converter_axioms [of default_max, unfolded valid16_default]
        utf8_utf16_length [of default_max] _ _ balanced_plain, of utf8_mark, unfolded written_plain];
      simp add: codecvt_char16_def utf16_to_utf8_def utf8_to_utf16_def utf8_to_utf16_length_def utf8_mark_def fun_eq_iff
        default_max_def)

section \<open>Properties\<close>

text \<open>Writing UTF-16: \<open>codecvt<char16_t>::do_out\<close> answers \<open>ok\<close> exactly when the input is the
  UTF-16 form of a sequence of Unicode scalar values whose UTF-8 form fits the buffer, and then it has
  consumed everything and written that UTF-8 form.\<close>

lemma char16_out_exact:
  "do_out codecvt_char16 frm room = (ok, rest, bs) \<longleftrightarrow>
   (\<exists>cs. list_all is_scalar cs \<and> frm = concat (map utf16_units cs) \<and> rest = [] \<and>
     bs = concat (map utf8_bytes cs) \<and> length bs \<le> room)"
  using c16.out_ok [of frm room rest bs] by simp

text \<open>C2. Reading UTF-8 into UTF-16: \<open>codecvt<char16_t>::do_in\<close> answers \<open>ok\<close> exactly on the UTF-8 form
  of a sequence of Unicode scalar values (no overlong form, no surrogate, nothing above U+10FFFF) whose
  UTF-16 form fits, and then it has written that UTF-16 form.\<close>

theorem char16_in_exact:
  "do_in codecvt_char16 bs room = (ok, rest, ws) \<longleftrightarrow>
   (\<exists>cs. list_all is_scalar cs \<and> bs = concat (map utf8_bytes cs) \<and> rest = [] \<and>
     ws = concat (map utf16_units cs) \<and> length ws \<le> room)"
  using c16.in_ok [of bs room rest ws] by simp

text \<open>C4. \<open>codecvt<char32_t>\<close> round trip: whatever \<open>do_out\<close> writes, \<open>do_in\<close> reads back to the same
  characters, consuming everything, and \<open>do_length\<close> measures all of it.\<close>

theorem char32_round_trip:
  assumes "do_out codecvt_char32 frm room = (ok, rest, bs)"
  shows "do_in codecvt_char32 bs (length frm) = (ok, [], frm) \<and>
    (length bs < 2 ^ 31 \<longrightarrow> do_length codecvt_char32 bs (length frm) = int (length bs))"
  using c32.out_in [OF assms] c32.out_length [OF assms] by simp_all

theorem char32_round_trip_witness:
  "do_in codecvt_char32 [0xE2, 0x82, 0xAC, 0xF0, 0x9F, 0x98, 0x80] 2 = (ok, [], [0x20AC, 0x1F600]) \<and>
   do_length codecvt_char32 [0xE2, 0x82, 0xAC, 0xF0, 0x9F, 0x98, 0x80] 2 = 7"
proof -
  have "do_out codecvt_char32 [0x20AC, 0x1F600] 7 = (ok, [], [0xE2, 0x82, 0xAC, 0xF0, 0x9F, 0x98, 0x80])"
    by code_simp
  note t = char32_round_trip [OF this]
  have l: "length [0x20AC, 0x1F600 :: u32] = 2" "length [0xE2, 0x82, 0xAC, 0xF0, 0x9F, 0x98, 0x80 :: u8] = 7"
    by simp_all
  have "(7 :: nat) < 2 ^ 31" by simp
  with t show ?thesis by (simp only: l) simp
qed

text \<open>UTF-16 as bytes: with a \<open>Maxcode\<close> in the range of Unicode and a mode that both writes and skips
  the byte order mark or does neither, \<open>__codecvt_utf16<char32_t>\<close> reads back what it wrote, in both byte
  orders.\<close>

lemma utf16_char32_round_trip:
  assumes "Maxcode \<le> 0x10FFFF" "balanced mode"
  shows "(do_out (codecvt_utf16_char32_be Maxcode mode) frm room = (ok, rest, bs) \<longrightarrow>
      do_in (codecvt_utf16_char32_be Maxcode mode) bs (length frm) = (ok, [], frm)) \<and>
    (do_out (codecvt_utf16_char32_le Maxcode mode) frm room = (ok, rest, bs) \<longrightarrow>
      do_in (codecvt_utf16_char32_le Maxcode mode) bs (length frm) = (ok, [], frm))"
  using codecvt_facet.out_in [OF facet_utf16_char32(1) [OF assms]]
    codecvt_facet.out_in [OF facet_utf16_char32(3) [OF assms]] by blast

lemma utf16_char32_round_trip_witness:
  "do_in (codecvt_utf16_char32_le 0x10FFFF 6) [0xFF, 0xFE, 0x3D, 0xD8, 0x00, 0xDE] 1 = (ok, [], [0x1F600]) \<and>
   do_in (codecvt_utf16_char32_be 0x10FFFF 6) [0xFE, 0xFF, 0xD8, 0x3D, 0xDE, 0x00] 1 = (ok, [], [0x1F600])"
proof -
  have m: "(0x10FFFF :: u64) \<le> 0x10FFFF" "balanced 6" by (simp, code_simp)
  have "do_out (codecvt_utf16_char32_le 0x10FFFF 6) [0x1F600] 6 = (ok, [], [0xFF, 0xFE, 0x3D, 0xD8, 0x00, 0xDE])"
    by code_simp
  moreover have "do_out (codecvt_utf16_char32_be 0x10FFFF 6) [0x1F600] 6 = (ok, [], [0xFE, 0xFF, 0xD8, 0x3D, 0xDE, 0x00])"
    by code_simp
  ultimately show ?thesis using utf16_char32_round_trip [OF m] by fastforce
qed

text \<open>Reading back to the same bytes: what \<open>__codecvt_utf8<char16_t>\<close> reads after its mark can be
  written again and gives the same bytes, for every \<open>Maxcode\<close> and balanced mode.\<close>

lemma utf8_char16_reencode:
  assumes "balanced mode"
    and "do_in (codecvt_utf8_char16 Maxcode mode) (written_mark utf8_mark mode @ bs) room = (ok, rest, ws)"
  shows "do_out (codecvt_utf8_char16 Maxcode mode) ws (length (written_mark utf8_mark mode) + length bs) =
    (ok, [], written_mark utf8_mark mode @ bs)"
  by (rule codecvt_facet.in_out [OF facet_utf8_char16 [OF assms(1)] assms(2)])

lemma utf8_char16_reencode_witness:
  "do_out (codecvt_utf8_char16 0xFFFF 6) [0x41, 0xE9] 6 = (ok, [], [0xEF, 0xBB, 0xBF, 0x41, 0xC3, 0xA9])"
proof -
  have m: "balanced 6" and w: "written_mark utf8_mark 6 = [0xEF, 0xBB, 0xBF]" by code_simp+
  have "do_in (codecvt_utf8_char16 0xFFFF 6) (written_mark utf8_mark 6 @ [0x41, 0xC3, 0xA9]) 2 = (ok, [], [0x41, 0xE9])"
    by code_simp
  from utf8_char16_reencode [OF m this] show ?thesis by (simp add: w eval_nat_numeral)
qed

text \<open>The UTF-8 decoder is safe: whatever result it returns, it has written at most \<open>room\<close>
  characters, they are scalar values up to \<open>Maxcode\<close>, and the input it consumed is exactly their UTF-8
  form (after the mark).\<close>

lemma utf8_to_ucs4_safe:
  assumes "utf8_to_ucs4 Maxcode mode frm room = (r, rest, ws)"
  shows "\<exists>cs. list_all (valid4 Maxcode) cs \<and> ws = concat (map ucs4 cs) \<and> length ws \<le> room \<and>
    skip_mark utf8_mark mode frm = concat (map utf8_bytes cs) @ rest"
  using utf8_ucs4.dec_sound [of Maxcode "skip_mark utf8_mark mode frm" room r rest ws] assms
  by (auto simp: utf8_to_ucs4_def decode_def)

lemma utf8_to_ucs4_safe_witness:
  "\<exists>cs. list_all (valid4 0x10FFFF) cs \<and> [0xE9] = concat (map ucs4 cs) \<and> length [0xE9 :: u32] \<le> 5 \<and>
    skip_mark utf8_mark 0 [0xC3, 0xA9, 0xED, 0xA0, 0x80] = concat (map utf8_bytes cs) @ [0xED, 0xA0, 0x80]"
proof -
  have "utf8_to_ucs4 0x10FFFF 0 [0xC3, 0xA9, 0xED, 0xA0, 0x80] 5 = (error, [0xED, 0xA0, 0x80], [0xE9])"
    by code_simp
  then show ?thesis by (rule utf8_to_ucs4_safe)
qed

text \<open>\<open>do_length\<close> of \<open>__codecvt_utf8_utf16\<close> is the number of bytes \<open>do_in\<close> consumes with the same
  limit, whatever the result of the conversion, the mode and \<open>Maxcode\<close>.\<close>

lemma utf8_utf16_length_consumed:
  assumes "do_in (codecvt_utf8_utf16_char16 Maxcode mode) frm mx = (r, rest, ws)" "length frm < 2 ^ 31"
  shows "do_length (codecvt_utf8_utf16_char16 Maxcode mode) frm mx = int (length frm - length rest)"
  using measure_decode [OF utf8_utf16_length, of utf8_mark mode Maxcode frm mx r rest ws] assms
  by (simp add: codecvt_utf8_utf16_char16_def utf8_to_utf16_def utf8_to_utf16_length_def)

lemma utf8_utf16_length_consumed_witness:
  "do_length (codecvt_utf8_utf16_char16 0x10FFFF 4) [0xEF, 0xBB, 0xBF, 0x41, 0xF0, 0x9F, 0x98, 0x80] 2 = 4"
proof -
  have "do_in (codecvt_utf8_utf16_char16 0x10FFFF 4) [0xEF, 0xBB, 0xBF, 0x41, 0xF0, 0x9F, 0x98, 0x80] 2 =
      (partial, [0xF0, 0x9F, 0x98, 0x80], [0x41])" by code_simp
  from utf8_utf16_length_consumed [OF this] show ?thesis by simp
qed

lemma utf8_max_length:
  "utf8_to_ucs4_length Maxcode mode frm 1 \<le> (if mode AND consume_header \<noteq> 0 then 7 else 4)"
  "utf8_to_ucs2_length Maxcode mode frm 1 \<le> (if mode AND consume_header \<noteq> 0 then 6 else 3)"
  "utf8_to_utf16_length Maxcode mode frm 1 \<le> (if mode AND consume_header \<noteq> 0 then 7 else 4)"
  using measure_one [OF utf8_ucs4_length, of utf8_mark mode Maxcode frm]
    measure_one [OF utf8_ucs2_length, of utf8_mark mode Maxcode frm]
    measure_one [OF utf8_utf16_length, of utf8_mark mode Maxcode frm]
  by (simp_all add: utf8_to_ucs4_length_def utf8_to_ucs2_length_def utf8_to_utf16_length_def utf8_mark_def
      split: if_splits)

lemma utf16_max_length:
  "utf16be_to_ucs4_length Maxcode mode frm 1 \<le> (if mode AND consume_header \<noteq> 0 then 6 else 4)"
  "utf16le_to_ucs4_length Maxcode mode frm 1 \<le> (if mode AND consume_header \<noteq> 0 then 6 else 4)"
  "utf16be_to_ucs2_length Maxcode mode frm 1 \<le> (if mode AND consume_header \<noteq> 0 then 4 else 2)"
  "utf16le_to_ucs2_length Maxcode mode frm 1 \<le> (if mode AND consume_header \<noteq> 0 then 4 else 2)"
  using measure_one [OF be.bytes_length_bodies(1), of utf16be_mark mode Maxcode frm]
    measure_one [OF le.bytes_length_bodies(1), of utf16le_mark mode Maxcode frm]
    measure_one [OF be.bytes_length_bodies(2), of utf16be_mark mode Maxcode frm]
    measure_one [OF le.bytes_length_bodies(2), of utf16le_mark mode Maxcode frm]
  by (simp_all add: utf16be_to_ucs4_length_def utf16le_to_ucs4_length_def utf16be_to_ucs2_length_def
      utf16le_to_ucs2_length_def utf16be_mark_def utf16le_mark_def split: if_splits)

lemma char_max_length: "ptrdiff_to_int (min 1 (length frm)) \<le> 1"
  by (cases frm) (simp_all add: ptrdiff_to_int_def)

text \<open>C5. \<open>do_max_length\<close> is an upper bound: none of the sixteen classes needs more bytes for one internal character,
  byte order mark included, for any input, \<open>Maxcode\<close> and mode.\<close>

theorem max_length_bounds:
  "do_length codecvt_char frm 1 \<le> do_max_length codecvt_char \<and>
   do_length codecvt_char16 frm 1 \<le> do_max_length codecvt_char16 \<and>
   do_length codecvt_char32 frm 1 \<le> do_max_length codecvt_char32 \<and>
   do_length (codecvt_utf8_wchar M mode) frm 1 \<le> do_max_length (codecvt_utf8_wchar M mode) \<and>
   do_length (codecvt_utf8_short_wchar M mode) frm 1 \<le> do_max_length (codecvt_utf8_short_wchar M mode) \<and>
   do_length (codecvt_utf8_char16 M mode) frm 1 \<le> do_max_length (codecvt_utf8_char16 M mode) \<and>
   do_length (codecvt_utf8_char32 M mode) frm 1 \<le> do_max_length (codecvt_utf8_char32 M mode) \<and>
   do_length (codecvt_utf16_wchar_be M mode) frm 1 \<le> do_max_length (codecvt_utf16_wchar_be M mode) \<and>
   do_length (codecvt_utf16_wchar_le M mode) frm 1 \<le> do_max_length (codecvt_utf16_wchar_le M mode) \<and>
   do_length (codecvt_utf16_char16_be M mode) frm 1 \<le> do_max_length (codecvt_utf16_char16_be M mode) \<and>
   do_length (codecvt_utf16_char16_le M mode) frm 1 \<le> do_max_length (codecvt_utf16_char16_le M mode) \<and>
   do_length (codecvt_utf16_char32_be M mode) frm 1 \<le> do_max_length (codecvt_utf16_char32_be M mode) \<and>
   do_length (codecvt_utf16_char32_le M mode) frm 1 \<le> do_max_length (codecvt_utf16_char32_le M mode) \<and>
   do_length (codecvt_utf8_utf16_wchar M mode) frm 1 \<le> do_max_length (codecvt_utf8_utf16_wchar M mode) \<and>
   do_length (codecvt_utf8_utf16_char16 M mode) frm 1 \<le> do_max_length (codecvt_utf8_utf16_char16 M mode) \<and>
   do_length (codecvt_utf8_utf16_char32 M mode) frm 1 \<le> do_max_length (codecvt_utf8_utf16_char32 M mode)"
  unfolding codecvt_char_def codecvt_char16_def codecvt_char32_def codecvt_utf8_wchar_def codecvt_utf8_short_wchar_def
    codecvt_utf8_char16_def
    codecvt_utf8_char32_def codecvt_utf16_wchar_be_def codecvt_utf16_wchar_le_def codecvt_utf16_char16_be_def
    codecvt_utf16_char16_le_def codecvt_utf16_char32_be_def codecvt_utf16_char32_le_def
    codecvt_utf8_utf16_wchar_def codecvt_utf8_utf16_char16_def codecvt_utf8_utf16_char32_def codecvt.simps
  by (intro conjI utf8_max_length utf16_max_length char_max_length)
    (use utf8_max_length(1,3) [of default_max 0 frm] in simp_all)

section \<open>Where the conversions depart from their purpose\<close>

text \<open>With a small \<open>Maxcode\<close> the two UTF-8 decoders disagree: \<open>utf8_to_utf16\<close> compares the lead
  byte of the sequence, not only its value, with \<open>Maxcode\<close>, so U+0080 is rejected although \<open>Maxcode\<close> is
  0x80; \<open>utf8_to_ucs4\<close> accepts it, and \<open>utf16_to_utf8\<close> writes it.\<close>

lemma utf8_to_utf16_rejects_below_max:
  "utf16_to_utf8 0x80 0 [0x80] 2 = (ok, [], [0xC2, 0x80]) \<and>
   utf8_to_ucs4 0x80 0 [0xC2, 0x80] 1 = (ok, [], [0x80]) \<and>
   utf8_to_utf16 0x80 0 [0xC2, 0x80] 1 = (error, [0xC2, 0x80], [])"
  by (intro conjI) code_simp+

text \<open>The facets \<open>__codecvt_utf8_utf16<char32_t>\<close> and \<open><wchar_t>\<close> truncate each 32-bit unit to 16 bits
  before looking at it: the unit 0x10041 is outside UTF-16 but is written as the letter A.\<close>

lemma utf8_utf16_char32_truncates:
  "do_out (codecvt_utf8_utf16_char32 0x10FFFF 0) [0x10041] 4 = (ok, [], [0x41]) \<and>
   do_out (codecvt_utf8_utf16_wchar 0x10FFFF 0) [0x10041] 4 = (ok, [], [0x41]) \<and>
   do_in (codecvt_utf8_utf16_char32 0x10FFFF 0) [0x41] 1 = (ok, [], [0x41])"
  by (intro conjI) code_simp+

text \<open>A \<open>Maxcode\<close> above 0x10FFFF breaks the round trip of \<open>__codecvt_utf8<char32_t>\<close>: 0x140000 is
  written as a four-byte sequence with the lead byte 0xF5, which the same facet refuses to read.\<close>

lemma utf8_char32_large_max:
  "do_out (codecvt_utf8_char32 0xFFFFFFFF 0) [0x140000] 4 = (ok, [], [0xF5, 0x80, 0x80, 0x80]) \<and>
   do_in (codecvt_utf8_char32 0xFFFFFFFF 0) [0xF5, 0x80, 0x80, 0x80] 1 = (error, [0xF5, 0x80, 0x80, 0x80], [])"
  by (intro conjI) code_simp+

text \<open>In the build with a 16-bit \<open>wchar_t\<close>, \<open>__codecvt_utf8<wchar_t>::do_length\<close> measures with the
  32-bit decoder: it counts a four-byte sequence that \<open>do_in\<close> rejects without consuming anything.\<close>

lemma utf8_short_wchar_length:
  "do_in (codecvt_utf8_short_wchar 0x10FFFF 0) [0xF0, 0x9F, 0x98, 0x80] 1 =
     (error, [0xF0, 0x9F, 0x98, 0x80], []) \<and>
   do_length (codecvt_utf8_short_wchar 0x10FFFF 0) [0xF0, 0x9F, 0x98, 0x80] 1 = 4"
  by (intro conjI) code_simp+

end
