(* ===== verification/Unwind.thy ===== *)
theory Unwind
  imports Prelude
begin

text \<open>
  The level 1 unwinder of libunwind (\<open>libunwind/src/UnwindLevel1.c\<close> and
  \<open>UnwindLevel1-gcc-ext.c\<close>, in the build for zero-cost exceptions outside ARM EHABI and SEH): the
  search and cleanup phases of \<open>_Unwind_RaiseException\<close>, forced unwinding, resuming, backtraces and
  the accessors the personality routine uses.

  The cursor and the routines behind function pointers are the record \<open>runtime\<close>: a cursor is any
  type \<open>'c\<close>, and everything else a personality, stop or trace function may touch is \<open>'w\<close>. The loops
  walk a stack of unknown depth, so they are partial.
\<close>

section \<open>Data\<close>

datatype reason = URC_NO_REASON | URC_FOREIGN_EXCEPTION_CAUGHT | URC_FATAL_PHASE2_ERROR
  | URC_FATAL_PHASE1_ERROR | URC_NORMAL_STOP | URC_END_OF_STACK | URC_HANDLER_FOUND
  | URC_INSTALL_CONTEXT | URC_CONTINUE_UNWIND

definition UA_SEARCH_PHASE :: u32 where "UA_SEARCH_PHASE = 1"
definition UA_CLEANUP_PHASE :: u32 where "UA_CLEANUP_PHASE = 2"
definition UA_HANDLER_FRAME :: u32 where "UA_HANDLER_FRAME = 4"
definition UA_FORCE_UNWIND :: u32 where "UA_FORCE_UNWIND = 8"
definition UA_END_OF_STACK :: u32 where "UA_END_OF_STACK = 16"

definition UNW_REG_IP :: int where "UNW_REG_IP = -1"
definition UNW_REG_SP :: int where "UNW_REG_SP = -2"

record unwind_exception =
  exception_class :: u64
  exception_cleanup :: u64
  private_1 :: u64
  private_2 :: u64

record proc_info =
  start_ip :: u64
  end_ip :: u64
  lsda :: u64
  handler :: u64
  extra :: u64
  unwind_info :: u64

text \<open>\<open>unw_get_proc_info\<close> is \<open>None\<close> when the call does not return \<open>UNW_ESUCCESS\<close>. \<open>unw_resume\<close>
  says whether control is transferred; if not, the call returns with an error.\<close>

record ('c, 'w) runtime =
  unw_step :: "'c \<Rightarrow> int \<times> 'c"
  unw_get_proc_info :: "'c \<Rightarrow> proc_info option"
  unw_get_reg :: "'c \<Rightarrow> int \<Rightarrow> u64"
  unw_set_reg :: "'c \<Rightarrow> int \<Rightarrow> u64 \<Rightarrow> 'c"
  unw_resume :: "'c \<Rightarrow> bool"
  unw_is_signal_frame :: "'c \<Rightarrow> int"
  personality_fn :: "u64 \<Rightarrow> u32 \<Rightarrow> unwind_exception \<Rightarrow> 'c \<Rightarrow> 'w \<Rightarrow> reason \<times> unwind_exception \<times> 'c \<times> 'w"
  stop_fn :: "u64 \<Rightarrow> u32 \<Rightarrow> unwind_exception \<Rightarrow> 'c \<Rightarrow> u64 \<Rightarrow> 'w \<Rightarrow> reason \<times> unwind_exception \<times> 'c \<times> 'w"
  trace_fn :: "u64 \<Rightarrow> 'c \<Rightarrow> u64 \<Rightarrow> 'w \<Rightarrow> reason \<times> 'c \<times> 'w"
  cleanup_fn :: "u64 \<Rightarrow> reason \<Rightarrow> unwind_exception \<Rightarrow> 'w \<Rightarrow> 'w"

text \<open>How a call ends: it returns, it transfers control to the frame of a cursor, or it aborts.\<close>

datatype 'c outcome = Returned reason | Resumed 'c | Aborted

section \<open>The two phases\<close>

partial_function (option) phase1_loop ::
  "('c, 'w) runtime \<Rightarrow> unwind_exception \<Rightarrow> 'c \<Rightarrow> 'w \<Rightarrow> (reason \<times> unwind_exception \<times> 'w) option" where
  "phase1_loop R ex cursor w =
     (let (stepResult, c1) = unw_step R cursor in
      if stepResult = 0 then Some (URC_END_OF_STACK, ex, w)
      else if stepResult < 0 then Some (URC_FATAL_PHASE1_ERROR, ex, w)
      else case unw_get_proc_info R c1 of
        None \<Rightarrow> Some (URC_FATAL_PHASE1_ERROR, ex, w)
      | Some frameInfo \<Rightarrow>
          if handler frameInfo \<noteq> 0 then
            (let (r, ex', c2, w') = personality_fn R (handler frameInfo) UA_SEARCH_PHASE ex c1 w in
             if r = URC_HANDLER_FOUND
             then Some (URC_NO_REASON, ex'\<lparr>private_2 := unw_get_reg R c2 UNW_REG_SP\<rparr>, w')
             else if r = URC_CONTINUE_UNWIND then phase1_loop R ex' c2 w'
             else Some (URC_FATAL_PHASE1_ERROR, ex', w'))
          else phase1_loop R ex c1 w)"

partial_function (option) phase2_loop ::
  "('c, 'w) runtime \<Rightarrow> unwind_exception \<Rightarrow> 'c \<Rightarrow> 'w \<Rightarrow> ('c outcome \<times> unwind_exception \<times> 'w) option" where
  "phase2_loop R ex cursor w =
     (let (stepResult, c1) = unw_step R cursor in
      if stepResult = 0 then Some (Returned URC_END_OF_STACK, ex, w)
      else if stepResult < 0 then Some (Returned URC_FATAL_PHASE2_ERROR, ex, w)
      else let sp = unw_get_reg R c1 UNW_REG_SP in
      case unw_get_proc_info R c1 of
        None \<Rightarrow> Some (Returned URC_FATAL_PHASE2_ERROR, ex, w)
      | Some frameInfo \<Rightarrow>
          if handler frameInfo \<noteq> 0 then
            (let action = (if sp = private_2 ex then UA_CLEANUP_PHASE OR UA_HANDLER_FRAME else UA_CLEANUP_PHASE);
                 (r, ex', c2, w') = personality_fn R (handler frameInfo) action ex c1 w in
             if r = URC_CONTINUE_UNWIND
             then if sp = private_2 ex' then Some (Aborted, ex', w') else phase2_loop R ex' c2 w'
             else if r = URC_INSTALL_CONTEXT
             then if unw_resume R c2 then Some (Resumed c2, ex', w')
                  else Some (Returned URC_FATAL_PHASE2_ERROR, ex', w')
             else Some (Returned URC_FATAL_PHASE2_ERROR, ex', w'))
          else phase2_loop R ex c1 w)"

partial_function (option) phase2_forced_loop ::
  "('c, 'w) runtime \<Rightarrow> u64 \<Rightarrow> u64 \<Rightarrow> unwind_exception \<Rightarrow> 'c \<Rightarrow> 'w \<Rightarrow>
     ('c outcome \<times> unwind_exception \<times> 'w) option" where
  "phase2_forced_loop R stop stop_parameter ex cursor w =
     (let (stepResult, c1) = unw_step R cursor in
      if 0 < stepResult then
        (case unw_get_proc_info R c1 of
           None \<Rightarrow> Some (Returned URC_FATAL_PHASE2_ERROR, ex, w)
         | Some frameInfo \<Rightarrow>
             let action = UA_FORCE_UNWIND OR UA_CLEANUP_PHASE;
                 (stopResult, ex1, c2, w1) = stop_fn R stop action ex c1 stop_parameter w in
             if stopResult \<noteq> URC_NO_REASON then Some (Returned URC_FATAL_PHASE2_ERROR, ex1, w1)
             else if handler frameInfo \<noteq> 0 then
               (let (r, ex2, c3, w2) = personality_fn R (handler frameInfo) action ex1 c2 w1 in
                if r = URC_CONTINUE_UNWIND then phase2_forced_loop R stop stop_parameter ex2 c3 w2
                else if r = URC_INSTALL_CONTEXT
                then if unw_resume R c3 then Some (Resumed c3, ex2, w2)
                     else phase2_forced_loop R stop stop_parameter ex2 c3 w2
                else Some (Returned URC_FATAL_PHASE2_ERROR, ex2, w2))
             else phase2_forced_loop R stop stop_parameter ex1 c2 w1)
      else
        let (r, ex', c2, w') = stop_fn R stop (UA_FORCE_UNWIND OR UA_CLEANUP_PHASE OR UA_END_OF_STACK) ex c1
              stop_parameter w in
        Some (Returned URC_FATAL_PHASE2_ERROR, ex', w'))"

section \<open>Entry points\<close>

text \<open>The cursor argument is the one \<open>__unw_init_local\<close> makes from the context of the call.\<close>

definition unwind_raise ::
  "('c, 'w) runtime \<Rightarrow> unwind_exception \<Rightarrow> 'c \<Rightarrow> 'w \<Rightarrow> ('c outcome \<times> unwind_exception \<times> 'w) option" where
  "unwind_raise R ex cursor w =
     (case phase1_loop R (ex\<lparr>private_1 := 0, private_2 := 0\<rparr>) cursor w of
        None \<Rightarrow> None
      | Some (phase1, ex', w') \<Rightarrow>
          if phase1 \<noteq> URC_NO_REASON then Some (Returned phase1, ex', w')
          else phase2_loop R ex' cursor w')"

definition never_returns :: "'c outcome \<Rightarrow> 'c outcome" where
  "never_returns r = (case r of Resumed c \<Rightarrow> Resumed c | _ \<Rightarrow> Aborted)"

definition unwind_resume ::
  "('c, 'w) runtime \<Rightarrow> unwind_exception \<Rightarrow> 'c \<Rightarrow> 'w \<Rightarrow> ('c outcome \<times> unwind_exception \<times> 'w) option" where
  "unwind_resume R ex cursor w =
     map_option (\<lambda>(r, ex', w'). (never_returns r, ex', w'))
       (if private_1 ex \<noteq> 0 then phase2_forced_loop R (private_1 ex) (private_2 ex) ex cursor w
        else phase2_loop R ex cursor w)"

definition unwind_forced ::
  "('c, 'w) runtime \<Rightarrow> unwind_exception \<Rightarrow> u64 \<Rightarrow> u64 \<Rightarrow> 'c \<Rightarrow> 'w \<Rightarrow>
     ('c outcome \<times> unwind_exception \<times> 'w) option" where
  "unwind_forced R ex stop stop_parameter cursor w =
     phase2_forced_loop R stop stop_parameter (ex\<lparr>private_1 := stop, private_2 := stop_parameter\<rparr>) cursor w"

definition unwind_resume_or_rethrow ::
  "('c, 'w) runtime \<Rightarrow> unwind_exception \<Rightarrow> 'c \<Rightarrow> 'w \<Rightarrow> ('c outcome \<times> unwind_exception \<times> 'w) option" where
  "unwind_resume_or_rethrow R ex cursor w =
     (if private_1 ex = 0 then unwind_raise R ex cursor w else unwind_resume R ex cursor w)"

partial_function (option) backtrace_loop ::
  "('c, 'w) runtime \<Rightarrow> u64 \<Rightarrow> u64 \<Rightarrow> 'c \<Rightarrow> 'w \<Rightarrow> (reason \<times> 'w) option" where
  "backtrace_loop R callback ref cursor w =
     (let (stepResult, c1) = unw_step R cursor in
      if stepResult \<le> 0 then Some (URC_END_OF_STACK, w)
      else let (r, c2, w') = trace_fn R callback c1 ref w in
        if r \<noteq> URC_NO_REASON then Some (r, w') else backtrace_loop R callback ref c2 w')"

definition unwind_delete_exception :: "('c, 'w) runtime \<Rightarrow> unwind_exception \<Rightarrow> 'w \<Rightarrow> 'w" where
  "unwind_delete_exception R ex w =
     (if exception_cleanup ex \<noteq> 0
      then cleanup_fn R (exception_cleanup ex) URC_FOREIGN_EXCEPTION_CAUGHT ex w else w)"

definition unwind_get_lsda :: "('c, 'w) runtime \<Rightarrow> 'c \<Rightarrow> u64" where
  "unwind_get_lsda R c = (case unw_get_proc_info R c of Some fi \<Rightarrow> lsda fi | None \<Rightarrow> 0)"

definition unwind_get_region_start :: "('c, 'w) runtime \<Rightarrow> 'c \<Rightarrow> u64" where
  "unwind_get_region_start R c = (case unw_get_proc_info R c of Some fi \<Rightarrow> start_ip fi | None \<Rightarrow> 0)"

definition unwind_get_gr :: "('c, 'w) runtime \<Rightarrow> 'c \<Rightarrow> int \<Rightarrow> u64" where
  "unwind_get_gr R c index = unw_get_reg R c index"

definition unwind_set_gr :: "('c, 'w) runtime \<Rightarrow> 'c \<Rightarrow> int \<Rightarrow> u64 \<Rightarrow> 'c" where
  "unwind_set_gr R c index v = unw_set_reg R c index v"

definition unwind_get_ip :: "('c, 'w) runtime \<Rightarrow> 'c \<Rightarrow> u64" where
  "unwind_get_ip R c = unw_get_reg R c UNW_REG_IP"

definition unwind_set_ip :: "('c, 'w) runtime \<Rightarrow> 'c \<Rightarrow> u64 \<Rightarrow> 'c" where
  "unwind_set_ip R c v = unw_set_reg R c UNW_REG_IP v"

definition unwind_get_cfa :: "('c, 'w) runtime \<Rightarrow> 'c \<Rightarrow> u64" where
  "unwind_get_cfa R c = unw_get_reg R c UNW_REG_SP"

definition unwind_get_ip_info :: "('c, 'w) runtime \<Rightarrow> 'c \<Rightarrow> u64 \<times> int" where
  "unwind_get_ip_info R c = (unwind_get_ip R c, if unw_is_signal_frame R c \<le> 0 then 0 else 1)"

definition unwind_find_enclosing_function :: "('c, 'w) runtime \<Rightarrow> 'c \<Rightarrow> u64 \<Rightarrow> u64" where
  "unwind_find_enclosing_function R c pc =
     (case unw_get_proc_info R (unw_set_reg R c UNW_REG_IP pc) of Some fi \<Rightarrow> start_ip fi | None \<Rightarrow> 0)"

end
