(* ===== verification/TwoPhase.thy ===== *)
theory TwoPhase
  imports Unwind
begin

text \<open>
  Two-phase unwinding as the C++ ABI promises it, over a list of frames (innermost caller first):
  search frames for a handler without side effects on the stack, then run the cleanups up to the
  frame that was found. \<open>has\<close> says which frames have a personality routine, \<open>ans\<close> what it answers,
  and \<open>key\<close> is what the unwinder remembers of the frame with the handler.
\<close>

section \<open>Specification\<close>

fun search_spec :: "('f \<Rightarrow> bool) \<Rightarrow> ('f \<Rightarrow> u32 \<Rightarrow> reason) \<Rightarrow> 'f list \<Rightarrow> (reason \<times> 'f option) \<times> ('f \<times> u32) list" where
  "search_spec has ans [] = ((URC_END_OF_STACK, None), [])"
| "search_spec has ans (f # fs) =
     (if \<not> has f then search_spec has ans fs
      else if ans f UA_SEARCH_PHASE = URC_HANDLER_FOUND then ((URC_NO_REASON, Some f), [(f, UA_SEARCH_PHASE)])
      else if ans f UA_SEARCH_PHASE = URC_CONTINUE_UNWIND
      then (let (r, calls) = search_spec has ans fs in (r, (f, UA_SEARCH_PHASE) # calls))
      else ((URC_FATAL_PHASE1_ERROR, None), [(f, UA_SEARCH_PHASE)]))"

definition cleanup_action :: "('f \<Rightarrow> u64) \<Rightarrow> u64 \<Rightarrow> 'f \<Rightarrow> u32" where
  "cleanup_action key target f =
     (if key f = target then UA_CLEANUP_PHASE OR UA_HANDLER_FRAME else UA_CLEANUP_PHASE)"

fun cleanup_spec :: "('f \<Rightarrow> bool) \<Rightarrow> ('f \<Rightarrow> u32 \<Rightarrow> reason) \<Rightarrow> ('f \<Rightarrow> u64) \<Rightarrow> u64 \<Rightarrow> 'f list \<Rightarrow>
    'f outcome \<times> ('f \<times> u32) list" where
  "cleanup_spec has ans key target [] = (Returned URC_END_OF_STACK, [])"
| "cleanup_spec has ans key target (f # fs) =
     (if \<not> has f then cleanup_spec has ans key target fs
      else let a = cleanup_action key target f in
        if ans f a = URC_CONTINUE_UNWIND
        then if key f = target then (Aborted, [(f, a)])
             else (let (r, calls) = cleanup_spec has ans key target fs in (r, (f, a) # calls))
        else if ans f a = URC_INSTALL_CONTEXT then (Resumed f, [(f, a)])
        else (Returned URC_FATAL_PHASE2_ERROR, [(f, a)]))"

definition raise_spec :: "('f \<Rightarrow> bool) \<Rightarrow> ('f \<Rightarrow> u32 \<Rightarrow> reason) \<Rightarrow> ('f \<Rightarrow> u64) \<Rightarrow> 'f list \<Rightarrow>
    'f outcome \<times> ('f \<times> u32) list" where
  "raise_spec has ans key fs =
     (let ((r, found), calls1) = search_spec has ans fs in
      case found of
        None \<Rightarrow> (Returned r, calls1)
      | Some f \<Rightarrow> (let (r2, calls2) = cleanup_spec has ans key (key f) fs in (r2, calls1 @ calls2)))"

section \<open>What the specification guarantees\<close>

lemma search_calls: "(f, a) \<in> set (snd (search_spec has ans fs)) \<Longrightarrow> a = UA_SEARCH_PHASE \<and> has f \<and> f \<in> set fs"
  by (induction fs) (auto split: if_splits prod.splits)

lemma search_reason: "snd (fst (search_spec has ans fs)) = None \<Longrightarrow>
    fst (fst (search_spec has ans fs)) \<in> {URC_END_OF_STACK, URC_FATAL_PHASE1_ERROR}"
  by (induction fs) (auto split: if_splits prod.splits)

lemma search_found:
  "snd (fst (search_spec has ans fs)) = Some f \<Longrightarrow>
   \<exists>pre post. fs = pre @ f # post \<and> has f \<and> ans f UA_SEARCH_PHASE = URC_HANDLER_FOUND \<and>
     (\<forall>g\<in>set pre. has g \<longrightarrow> ans g UA_SEARCH_PHASE = URC_CONTINUE_UNWIND)"
proof (induction fs)
  case Nil
  then show ?case by simp
next
  case (Cons g fs)
  show ?case
  proof (cases "has g \<and> ans g UA_SEARCH_PHASE = URC_HANDLER_FOUND")
    case True
    with Cons.prems show ?thesis by (intro exI [of _ "[]"] exI [of _ fs]) simp
  next
    case False
    with Cons.prems have "snd (fst (search_spec has ans fs)) = Some f"
      "has g \<Longrightarrow> ans g UA_SEARCH_PHASE = URC_CONTINUE_UNWIND"
      by (auto split: if_splits prod.splits)
    from Cons.IH [OF this(1)] obtain pre post where "fs = pre @ f # post" "has f"
      "ans f UA_SEARCH_PHASE = URC_HANDLER_FOUND"
      "\<forall>g\<in>set pre. has g \<longrightarrow> ans g UA_SEARCH_PHASE = URC_CONTINUE_UNWIND" by blast
    with \<open>has g \<Longrightarrow> ans g UA_SEARCH_PHASE = URC_CONTINUE_UNWIND\<close> show ?thesis
      by (intro exI [of _ "g # pre"] exI [of _ post]) simp
  qed
qed

lemma cleanup_calls:
  "(g, a) \<in> set (snd (cleanup_spec has ans key target fs)) \<Longrightarrow>
     has g \<and> g \<in> set fs \<and> a = cleanup_action key target g"
  by (induction fs) (auto simp: Let_def split: if_splits prod.splits)

text \<open>The cleanup phase never goes past the frame with the handler.\<close>

lemma cleanup_stops:
  "has f \<Longrightarrow> cleanup_spec has ans key (key f) (pre @ f # post) = cleanup_spec has ans key (key f) (pre @ [f])"
  by (induction pre) (auto simp: Let_def)

text \<open>It ends in a landing pad when every cleanup answers \<open>_URC_CONTINUE_UNWIND\<close> and the handler's
  frame is installed.\<close>

lemma cleanup_reaches:
  "\<forall>g\<in>set pre. has g \<longrightarrow> ans g UA_CLEANUP_PHASE = URC_CONTINUE_UNWIND \<and> key g \<noteq> key f \<Longrightarrow>
   has f \<Longrightarrow> ans f (UA_CLEANUP_PHASE OR UA_HANDLER_FRAME) = URC_INSTALL_CONTEXT \<Longrightarrow>
   fst (cleanup_spec has ans key (key f) (pre @ f # post)) = Resumed f"
  by (induction pre) (auto simp: Let_def cleanup_action_def split: prod.splits)

section \<open>The zero-cost unwinder\<close>

text \<open>\<open>walks R c cs\<close>: stepping from the cursor \<open>c\<close> visits the cursors \<open>cs\<close>, all with procedure
  information, and then reaches the bottom of the stack.\<close>

fun walks :: "('c, 'w) runtime \<Rightarrow> 'c \<Rightarrow> 'c list \<Rightarrow> bool" where
  "walks R c [] = (fst (unw_step R c) = 0)"
| "walks R c (d # ds) = (0 < fst (unw_step R c) \<and> snd (unw_step R c) = d \<and>
     unw_get_proc_info R d \<noteq> None \<and> walks R d ds)"

definition has_handler :: "('c, 'w) runtime \<Rightarrow> 'c \<Rightarrow> bool" where
  "has_handler R c = (\<exists>fi. unw_get_proc_info R c = Some fi \<and> handler fi \<noteq> 0)"

definition stack_key :: "('c, 'w) runtime \<Rightarrow> 'c \<Rightarrow> u64" where
  "stack_key R c = unw_get_reg R c UNW_REG_SP"

text \<open>Calls of routines behind function pointers, as the run records them.\<close>

datatype 'c call = Personality 'c u32 | Stop 'c u32

text \<open>A personality routine that answers by frame and action, leaves the exception object alone,
  changes registers only when it asks for a landing pad, and whose calls are recorded.\<close>

definition answers :: "('c, 'c call list) runtime \<Rightarrow> ('c \<Rightarrow> u32 \<Rightarrow> reason) \<Rightarrow> ('c \<Rightarrow> u32 \<Rightarrow> 'c) \<Rightarrow> bool" where
  "answers R ans inst = (\<forall>h a ex c w.
     personality_fn R h a ex c w = (ans c a, ex, inst c a, w @ [Personality c a]) \<and>
     (ans c a \<noteq> URC_INSTALL_CONTEXT \<longrightarrow> inst c a = c))"

definition log :: "('c \<times> u32) list \<Rightarrow> 'c call list" where
  "log = map (\<lambda>(c, a). Personality c a)"

lemma log_simps [simp]: "log [] = []" "log ((c, a) # cs) = Personality c a # log cs"
  "log (cs @ ds) = log cs @ log ds"
  by (simp_all add: log_def)

lemma personality_answers:
  assumes "answers R ans inst"
  shows "personality_fn R h a ex c w = (ans c a, ex, inst c a, w @ [Personality c a])"
    and "ans c a \<noteq> URC_INSTALL_CONTEXT \<Longrightarrow> inst c a = c"
  using assms by (auto simp: answers_def)

lemma has_handlerI: "unw_get_proc_info R c = Some fi \<Longrightarrow> has_handler R c = (handler fi \<noteq> 0)"
  by (simp add: has_handler_def)

lemma phase1_refines:
  "walks R c cs \<Longrightarrow> answers R ans inst \<Longrightarrow>
   phase1_loop R ex c w =
     (let ((r, found), calls) = search_spec (has_handler R) ans cs in
      Some (r, (case found of None \<Rightarrow> ex | Some d \<Rightarrow> ex\<lparr>private_2 := stack_key R d\<rparr>), w @ log calls))"
proof (induction cs arbitrary: c w)
  case Nil
  then show ?case by (cases "unw_step R c") (simp add: phase1_loop.simps)
next
  case (Cons d ds)
  from Cons.prems obtain n where s: "unw_step R c = (n, d)" "0 < n" "walks R d ds"
    by (cases "unw_step R c") auto
  from Cons.prems obtain fi where fi: "unw_get_proc_info R d = Some fi" by auto
  note p = personality_answers [OF Cons.prems(2)]
  note IH = Cons.IH [OF s(3) Cons.prems(2)]
  show ?case
  proof (cases "handler fi = 0")
    case True
    with s fi show ?thesis by (subst phase1_loop.simps) (simp add: IH has_handlerI case_prod_beta Let_def)
  next
    case False
    with s fi p show ?thesis
      by (subst phase1_loop.simps)
        (auto simp: IH has_handlerI case_prod_beta Let_def stack_key_def)
  qed
qed

fun install :: "('c \<Rightarrow> u32 \<Rightarrow> 'c) \<Rightarrow> ('c \<Rightarrow> u32) \<Rightarrow> 'c outcome \<Rightarrow> 'c outcome" where
  "install inst act (Resumed c) = Resumed (inst c (act c))"
| "install inst act r = r"

lemma phase2_refines:
  "walks R c cs \<Longrightarrow> answers R ans inst \<Longrightarrow> \<forall>d. unw_resume R d \<Longrightarrow>
   phase2_loop R ex c w =
     (let (r, calls) = cleanup_spec (has_handler R) ans (stack_key R) (private_2 ex) cs in
      Some (install inst (cleanup_action (stack_key R) (private_2 ex)) r, ex, w @ log calls))"
proof (induction cs arbitrary: c w)
  case Nil
  then show ?case by (cases "unw_step R c") (simp add: phase2_loop.simps)
next
  case (Cons d ds)
  from Cons.prems obtain n where s: "unw_step R c = (n, d)" "0 < n" "walks R d ds"
    by (cases "unw_step R c") auto
  from Cons.prems obtain fi where fi: "unw_get_proc_info R d = Some fi" by auto
  note p = personality_answers [OF Cons.prems(2)]
  note IH = Cons.IH [OF s(3) Cons.prems(2,3)]
  show ?case
  proof (cases "handler fi = 0")
    case True
    with s fi show ?thesis by (subst phase2_loop.simps) (simp add: IH has_handlerI case_prod_beta Let_def)
  next
    case False
    have k: "unw_get_reg R d UNW_REG_SP = stack_key R d" by (simp add: stack_key_def)
    have a: "cleanup_action (stack_key R) (private_2 ex) d =
        (if stack_key R d = private_2 ex then UA_CLEANUP_PHASE OR UA_HANDLER_FRAME else UA_CLEANUP_PHASE)"
      by (simp add: cleanup_action_def)
    show ?thesis
    proof (cases "stack_key R d = private_2 ex")
      case True
      with False s fi p Cons.prems(3) show ?thesis
        by (subst phase2_loop.simps) (auto simp: IH has_handlerI case_prod_beta Let_def k a)
    next
      case other: False
      with False s fi p Cons.prems(3) show ?thesis
        by (subst phase2_loop.simps) (auto simp: IH has_handlerI case_prod_beta Let_def k a)
    qed
  qed
qed

text \<open>The zero-cost unwinder implements the specification.\<close>

theorem raise_refines:
  assumes "walks R c cs" "answers R ans inst" "\<forall>d. unw_resume R d"
  shows "\<exists>ex'. unwind_raise R ex c w =
    (let (r, calls) = raise_spec (has_handler R) ans (stack_key R) cs in
     Some (install inst (cleanup_action (stack_key R) (private_2 ex')) r, ex', w @ log calls))"
proof -
  define ex0 where "ex0 = ex\<lparr>private_1 := 0, private_2 := 0\<rparr>"
  obtain r found calls where s: "search_spec (has_handler R) ans cs = ((r, found), calls)"
    by (cases "search_spec (has_handler R) ans cs") auto
  have p1: "phase1_loop R ex0 c w =
      Some (r, (case found of None \<Rightarrow> ex0 | Some d \<Rightarrow> ex0\<lparr>private_2 := stack_key R d\<rparr>), w @ log calls)"
    using phase1_refines [OF assms(1,2), of ex0 w] s by simp
  show ?thesis
  proof (cases found)
    case None
    then have "r \<noteq> URC_NO_REASON" using search_reason [of "has_handler R" ans cs] s by auto
    with None p1 s show ?thesis
      by (intro exI [of _ ex0]) (simp add: unwind_raise_def ex0_def raise_spec_def)
  next
    case (Some d)
    then have "r = URC_NO_REASON" using s
    proof -
      have "snd (fst (search_spec (has_handler R) ans cs)) = Some f \<Longrightarrow>
          fst (fst (search_spec (has_handler R) ans cs)) = URC_NO_REASON" for f
        by (induction cs) (auto split: if_splits prod.splits)
      with s Some show ?thesis by simp
    qed
    with Some p1 s phase2_refines [OF assms, of "ex0\<lparr>private_2 := stack_key R d\<rparr>" "w @ log calls"] show ?thesis
      by (intro exI [of _ "ex0\<lparr>private_2 := stack_key R d\<rparr>"])
        (simp add: unwind_raise_def ex0_def raise_spec_def Let_def case_prod_beta)
  qed
qed

section \<open>Forced unwinding\<close>

text \<open>What a forced unwind calls when nobody stops it: the stop function and then the personality
  routine of every frame, and the stop function once more at the bottom.\<close>

definition forced_action :: u32 where
  "forced_action = UA_FORCE_UNWIND OR UA_CLEANUP_PHASE"

definition forced_calls :: "('f \<Rightarrow> bool) \<Rightarrow> 'f list \<Rightarrow> 'f call list" where
  "forced_calls has fs = concat (map (\<lambda>f. Stop f forced_action # (if has f then [Personality f forced_action] else [])) fs)"

definition lets_pass :: "('c, 'c call list) runtime \<Rightarrow> bool" where
  "lets_pass R = (\<forall>p a ex c q w. stop_fn R p a ex c q w = (URC_NO_REASON, ex, c, w @ [Stop c a]))"

fun bottom :: "('c, 'w) runtime \<Rightarrow> 'c \<Rightarrow> 'c list \<Rightarrow> 'c" where
  "bottom R c [] = snd (unw_step R c)"
| "bottom R c (d # ds) = bottom R d ds"

lemma forced_loop_calls:
  "walks R c cs \<Longrightarrow> answers R ans inst \<Longrightarrow> lets_pass R \<Longrightarrow> \<forall>d. ans d forced_action = URC_CONTINUE_UNWIND \<Longrightarrow>
   phase2_forced_loop R stop prm ex c w =
     Some (Returned URC_FATAL_PHASE2_ERROR, ex,
       w @ forced_calls (has_handler R) cs @ [Stop (bottom R c cs) (forced_action OR UA_END_OF_STACK)])"
proof (induction cs arbitrary: c w)
  case Nil
  then show ?case
    by (cases "unw_step R c") (simp add: phase2_forced_loop.simps forced_calls_def lets_pass_def forced_action_def or.assoc)
next
  case (Cons d ds)
  from Cons.prems obtain n where s: "unw_step R c = (n, d)" "0 < n" "walks R d ds"
    by (cases "unw_step R c") auto
  from Cons.prems obtain fi where fi: "unw_get_proc_info R d = Some fi" by auto
  note p = personality_answers [OF Cons.prems(2)]
  note IH = Cons.IH [OF s(3) Cons.prems(2-4)]
  have st: "stop_fn R q a e x r v = (URC_NO_REASON, e, x, v @ [Stop x a])" for q a e x r v
    using Cons.prems(3) by (simp add: lets_pass_def)
  have a: "UA_FORCE_UNWIND OR UA_CLEANUP_PHASE = forced_action" by (simp add: forced_action_def)
  have i: "inst d forced_action = d" using p(2) [of d forced_action] Cons.prems(4) by simp
  show ?case
    using s fi st p(1) Cons.prems(4) i
    by (subst phase2_forced_loop.simps) (simp add: a IH has_handlerI forced_calls_def)
qed

end
