(* ===== verification/UnwindSjlj.thy ===== *)
theory UnwindSjlj
  imports TwoPhase
begin

text \<open>
  The setjmp/longjmp unwinder of libunwind (\<open>libunwind/src/Unwind-sjlj.c\<close>). Functions with cleanups
  register a block in a per-thread linked list; unwinding walks the list and jumps through the
  buffer in the block. Blocks are addresses into a memory, the null pointer is 0.
\<close>

section \<open>State\<close>

record function_context =
  prev :: u64
  resume_location :: u32
  resume_parameters :: "u32 list"
  personality :: u64
  fc_lsda :: u64
  jbuf :: "u64 list"

record sjlj_state =
  contexts :: "u64 \<Rightarrow> function_context"
  stack :: u64

text \<open>Routines behind function pointers, as in \<open>Unwind\<close>; they may write to the blocks.\<close>

record 'w sjlj_runtime =
  sj_personality_fn :: "u64 \<Rightarrow> u32 \<Rightarrow> unwind_exception \<Rightarrow> u64 \<Rightarrow> sjlj_state \<Rightarrow> 'w \<Rightarrow>
     reason \<times> unwind_exception \<times> sjlj_state \<times> 'w"
  sj_stop_fn :: "u64 \<Rightarrow> u32 \<Rightarrow> unwind_exception \<Rightarrow> u64 \<Rightarrow> u64 \<Rightarrow> sjlj_state \<Rightarrow> 'w \<Rightarrow>
     reason \<times> unwind_exception \<times> sjlj_state \<times> 'w"
  sj_cleanup_fn :: "u64 \<Rightarrow> reason \<Rightarrow> unwind_exception \<Rightarrow> 'w \<Rightarrow> 'w"

definition sjlj_register :: "sjlj_state \<Rightarrow> u64 \<Rightarrow> sjlj_state" where
  "sjlj_register s fc =
     s\<lparr>contexts := (contexts s)(fc := (contexts s fc)\<lparr>prev := stack s\<rparr>), stack := fc\<rparr>"

definition sjlj_unregister :: "sjlj_state \<Rightarrow> u64 \<Rightarrow> sjlj_state" where
  "sjlj_unregister s fc = s\<lparr>stack := prev (contexts s fc)\<rparr>"

section \<open>Phases\<close>

partial_function (option) sjlj_phase1 ::
  "'w sjlj_runtime \<Rightarrow> unwind_exception \<Rightarrow> u64 \<Rightarrow> sjlj_state \<Rightarrow> 'w \<Rightarrow>
     (reason \<times> unwind_exception \<times> sjlj_state \<times> 'w) option" where
  "sjlj_phase1 R ex c s w =
     (if c = 0 then Some (URC_END_OF_STACK, ex, s, w)
      else if personality (contexts s c) \<noteq> 0 then
        (let (r, ex', s', w') = sj_personality_fn R (personality (contexts s c)) UA_SEARCH_PHASE ex c s w in
         if r = URC_HANDLER_FOUND then Some (URC_NO_REASON, ex'\<lparr>private_2 := c\<rparr>, s', w')
         else if r = URC_CONTINUE_UNWIND then sjlj_phase1 R ex' (prev (contexts s' c)) s' w'
         else Some (URC_FATAL_PHASE1_ERROR, ex', s', w'))
      else sjlj_phase1 R ex (prev (contexts s c)) s w)"

partial_function (option) sjlj_phase2 ::
  "'w sjlj_runtime \<Rightarrow> unwind_exception \<Rightarrow> u64 \<Rightarrow> sjlj_state \<Rightarrow> 'w \<Rightarrow>
     (u64 outcome \<times> unwind_exception \<times> sjlj_state \<times> 'w) option" where
  "sjlj_phase2 R ex c s w =
     (if c = 0 then Some (Returned URC_END_OF_STACK, ex, s, w)
      else if personality (contexts s c) \<noteq> 0 then
        (let action = (if c = private_2 ex then UA_CLEANUP_PHASE OR UA_HANDLER_FRAME else UA_CLEANUP_PHASE);
             (r, ex', s', w') = sj_personality_fn R (personality (contexts s c)) action ex c s w in
         if r = URC_CONTINUE_UNWIND
         then if c = private_2 ex' then Some (Aborted, ex', s', w')
              else sjlj_phase2 R ex' (prev (contexts s' c)) s' w'
         else if r = URC_INSTALL_CONTEXT then Some (Resumed c, ex', s'\<lparr>stack := c\<rparr>, w')
         else Some (Returned URC_FATAL_PHASE2_ERROR, ex', s', w'))
      else sjlj_phase2 R ex (prev (contexts s c)) s w)"

partial_function (option) sjlj_phase2_forced ::
  "'w sjlj_runtime \<Rightarrow> u64 \<Rightarrow> u64 \<Rightarrow> unwind_exception \<Rightarrow> u64 \<Rightarrow> sjlj_state \<Rightarrow> 'w \<Rightarrow>
     (u64 outcome \<times> unwind_exception \<times> sjlj_state \<times> 'w) option" where
  "sjlj_phase2_forced R stop stop_parameter ex c s w =
     (if c = 0 then Some (Returned URC_END_OF_STACK, ex, s, w)
      else
        let action = UA_FORCE_UNWIND OR UA_CLEANUP_PHASE;
            (stopResult, ex1, s1, w1) = sj_stop_fn R stop action ex c stop_parameter s w in
        if stopResult \<noteq> URC_NO_REASON then Some (Returned URC_FATAL_PHASE2_ERROR, ex1, s1, w1)
        else if personality (contexts s1 c) \<noteq> 0 then
          (let (r, ex2, s2, w2) = sj_personality_fn R (personality (contexts s1 c)) action ex1 c s1 w1 in
           if r = URC_CONTINUE_UNWIND
           then sjlj_phase2_forced R stop stop_parameter ex2 (prev (contexts s2 c)) s2 w2
           else if r = URC_INSTALL_CONTEXT then Some (Resumed c, ex2, s2\<lparr>stack := c\<rparr>, w2)
           else Some (Returned URC_FATAL_PHASE2_ERROR, ex2, s2, w2))
        else sjlj_phase2_forced R stop stop_parameter ex1 (prev (contexts s1 c)) s1 w1)"

section \<open>Entry points\<close>

definition sjlj_raise ::
  "'w sjlj_runtime \<Rightarrow> unwind_exception \<Rightarrow> sjlj_state \<Rightarrow> 'w \<Rightarrow>
     (u64 outcome \<times> unwind_exception \<times> sjlj_state \<times> 'w) option" where
  "sjlj_raise R ex s w =
     (case sjlj_phase1 R (ex\<lparr>private_1 := 0, private_2 := 0\<rparr>) (stack s) s w of
        None \<Rightarrow> None
      | Some (phase1, ex', s', w') \<Rightarrow>
          if phase1 \<noteq> URC_NO_REASON then Some (Returned phase1, ex', s', w')
          else sjlj_phase2 R ex' (stack s') s' w')"

definition sjlj_resume ::
  "'w sjlj_runtime \<Rightarrow> unwind_exception \<Rightarrow> sjlj_state \<Rightarrow> 'w \<Rightarrow>
     (u64 outcome \<times> unwind_exception \<times> sjlj_state \<times> 'w) option" where
  "sjlj_resume R ex s w =
     map_option (\<lambda>(r, t). (never_returns r, t))
       (if private_1 ex \<noteq> 0 then sjlj_phase2_forced R (private_1 ex) (private_2 ex) ex (stack s) s w
        else sjlj_phase2 R ex (stack s) s w)"

definition sjlj_resume_or_rethrow ::
  "'w sjlj_runtime \<Rightarrow> unwind_exception \<Rightarrow> sjlj_state \<Rightarrow> 'w \<Rightarrow>
     (u64 outcome \<times> unwind_exception \<times> sjlj_state \<times> 'w) option" where
  "sjlj_resume_or_rethrow R ex s w =
     (if private_1 ex = 0 then sjlj_raise R ex s w else sjlj_resume R ex s w)"

definition sjlj_get_lsda :: "sjlj_state \<Rightarrow> u64 \<Rightarrow> u64" where
  "sjlj_get_lsda s c = fc_lsda (contexts s c)"

text \<open>\<open>resumeParameters\<close> holds 32-bit values; an index outside the array has no value here.\<close>

definition sjlj_get_gr :: "sjlj_state \<Rightarrow> u64 \<Rightarrow> nat \<Rightarrow> u64 option" where
  "sjlj_get_gr s c index =
     (if index < length (resume_parameters (contexts s c))
      then Some (ucast (resume_parameters (contexts s c) ! index)) else None)"

definition sjlj_set_gr :: "sjlj_state \<Rightarrow> u64 \<Rightarrow> nat \<Rightarrow> u64 \<Rightarrow> sjlj_state option" where
  "sjlj_set_gr s c index v =
     (if index < length (resume_parameters (contexts s c))
      then Some (s\<lparr>contexts := (contexts s)(c := (contexts s c)
        \<lparr>resume_parameters := (resume_parameters (contexts s c))[index := ucast v]\<rparr>)\<rparr>)
      else None)"

definition sjlj_get_ip :: "sjlj_state \<Rightarrow> u64 \<Rightarrow> u64" where
  "sjlj_get_ip s c = ucast (resume_location (contexts s c) + 1)"

definition sjlj_get_ip_info :: "sjlj_state \<Rightarrow> u64 \<Rightarrow> u64 \<times> int" where
  "sjlj_get_ip_info s c = (ucast (resume_location (contexts s c) + 1), 0)"

definition sjlj_set_ip :: "sjlj_state \<Rightarrow> u64 \<Rightarrow> u64 \<Rightarrow> sjlj_state" where
  "sjlj_set_ip s c v =
     s\<lparr>contexts := (contexts s)(c := (contexts s c)\<lparr>resume_location := ucast (v - 1)\<rparr>)\<rparr>"

definition sjlj_get_cfa :: "sjlj_state \<Rightarrow> u64 \<Rightarrow> u64" where
  "sjlj_get_cfa s c = (if c \<noteq> 0 then jbuf (contexts s c) ! 2 else 0)"

definition sjlj_delete_exception :: "'w sjlj_runtime \<Rightarrow> unwind_exception \<Rightarrow> 'w \<Rightarrow> 'w" where
  "sjlj_delete_exception R ex w =
     (if exception_cleanup ex \<noteq> 0
      then sj_cleanup_fn R (exception_cleanup ex) URC_FOREIGN_EXCEPTION_CAUGHT ex w else w)"

section \<open>The list of registered functions\<close>

fun chain :: "sjlj_state \<Rightarrow> u64 \<Rightarrow> u64 list \<Rightarrow> bool" where
  "chain s a [] = (a = 0)"
| "chain s a (f # fs) = (a = f \<and> f \<noteq> 0 \<and> chain s (prev (contexts s f)) fs)"

lemma chain_frame: "\<forall>f\<in>set fs. prev (contexts s' f) = prev (contexts s f) \<Longrightarrow> chain s a fs \<Longrightarrow> chain s' a fs"
  by (induction fs arbitrary: a) auto

text \<open>The unwinder implements the specification of \<open>TwoPhase\<close>, with blocks as frames.\<close>

definition sj_has :: "sjlj_state \<Rightarrow> u64 \<Rightarrow> bool" where
  "sj_has s c = (personality (contexts s c) \<noteq> 0)"

text \<open>A block is remembered by its address.\<close>

definition block_key :: "u64 \<Rightarrow> u64" where
  "block_key c = c"

definition sj_answers :: "(u64 call list) sjlj_runtime \<Rightarrow> (u64 \<Rightarrow> u32 \<Rightarrow> reason) \<Rightarrow>
    (u64 \<Rightarrow> sjlj_state \<Rightarrow> sjlj_state) \<Rightarrow> bool" where
  "sj_answers R ans inst = (\<forall>h a ex c s w.
     sj_personality_fn R h a ex c s w =
       (ans c a, ex, if ans c a = URC_INSTALL_CONTEXT then inst c s else s, w @ [Personality c a]))"

fun sj_install :: "(u64 \<Rightarrow> sjlj_state \<Rightarrow> sjlj_state) \<Rightarrow> sjlj_state \<Rightarrow> u64 outcome \<Rightarrow> sjlj_state" where
  "sj_install inst s (Resumed c) = (inst c s)\<lparr>stack := c\<rparr>"
| "sj_install inst s r = s"

lemma sjlj_phase1_refines:
  "chain s c cs \<Longrightarrow> sj_answers R ans inst \<Longrightarrow> \<forall>f. ans f UA_SEARCH_PHASE \<noteq> URC_INSTALL_CONTEXT \<Longrightarrow>
   sjlj_phase1 R ex c s w =
     (let ((r, found), calls) = search_spec (sj_has s) ans cs in
      Some (r, (case found of None \<Rightarrow> ex | Some d \<Rightarrow> ex\<lparr>private_2 := d\<rparr>), s, w @ log calls))"
proof (induction cs arbitrary: c w)
  case Nil
  then show ?case by (simp add: sjlj_phase1.simps)
next
  case (Cons d ds)
  then have c: "c = d" "d \<noteq> 0" "chain s (prev (contexts s d)) ds" by auto
  note IH = Cons.IH [OF c(3) Cons.prems(2,3)]
  have k: "(personality (contexts s d) = 0) = (\<not> sj_has s d)" by (simp add: sj_has_def)
  from Cons.prems(2,3) show ?case using c
    by (subst sjlj_phase1.simps)
      (auto simp: IH k sj_answers_def case_prod_beta Let_def)
qed

lemma sjlj_phase2_refines:
  "chain s c cs \<Longrightarrow> sj_answers R ans inst \<Longrightarrow>
   sjlj_phase2 R ex c s w =
     (let (r, calls) = cleanup_spec (sj_has s) ans block_key (private_2 ex) cs in
      Some (r, ex, sj_install inst s r, w @ log calls))"
proof (induction cs arbitrary: c w)
  case Nil
  then show ?case by (simp add: sjlj_phase2.simps)
next
  case (Cons d ds)
  then have c: "c = d" "d \<noteq> 0" "chain s (prev (contexts s d)) ds" by auto
  note IH = Cons.IH [OF c(3) Cons.prems(2)]
  have k: "(personality (contexts s d) = 0) = (\<not> sj_has s d)" by (simp add: sj_has_def)
  define b where "b = (d = private_2 ex)"
  then have b: "(d = private_2 ex) = b" by simp
  have bk: "block_key d = d" by (simp add: block_key_def)
  have a: "cleanup_action block_key (private_2 ex) d = (if b then UA_CLEANUP_PHASE OR UA_HANDLER_FRAME else UA_CLEANUP_PHASE)"
    by (simp add: cleanup_action_def b bk)
  have p: "sj_personality_fn R h a e f t v =
      (ans f a, e, if ans f a = URC_INSTALL_CONTEXT then inst f t else t, v @ [Personality f a])" for h a e f t v
    using Cons.prems(2) by (simp add: sj_answers_def)
  show ?case
    using c(2) by (subst sjlj_phase2.simps) (simp add: c(1) IH k a b bk p case_prod_beta Let_def)
qed

lemma search_no_reason: "snd (fst (search_spec has ans cs)) = Some f \<Longrightarrow>
    fst (fst (search_spec has ans cs)) = URC_NO_REASON"
  by (induction cs) (auto split: if_splits prod.splits)

text \<open>The setjmp/longjmp unwinder implements the same specification.\<close>

theorem sjlj_raise_refines:
  assumes "chain s (stack s) cs" "sj_answers R ans inst" "\<forall>f. ans f UA_SEARCH_PHASE \<noteq> URC_INSTALL_CONTEXT"
  shows "\<exists>ex'. sjlj_raise R ex s w =
    (let (r, calls) = raise_spec (sj_has s) ans block_key cs in Some (r, ex', sj_install inst s r, w @ log calls))"
proof -
  define ex0 where "ex0 = ex\<lparr>private_1 := 0, private_2 := 0\<rparr>"
  obtain r found calls where s: "search_spec (sj_has s) ans cs = ((r, found), calls)"
    by (cases "search_spec (sj_has s) ans cs") auto
  have p1: "sjlj_phase1 R ex0 (stack s) s w =
      Some (r, (case found of None \<Rightarrow> ex0 | Some d \<Rightarrow> ex0\<lparr>private_2 := d\<rparr>), s, w @ log calls)"
    using sjlj_phase1_refines [OF assms, of ex0 w] s by simp
  show ?thesis
  proof (cases found)
    case None
    then have "r \<noteq> URC_NO_REASON" using search_reason [of "sj_has s" ans cs] s by auto
    with None p1 s show ?thesis
      by (intro exI [of _ ex0]) (simp add: sjlj_raise_def ex0_def raise_spec_def)
  next
    case (Some d)
    then have "r = URC_NO_REASON" using s search_no_reason [of "sj_has s" ans cs d] by simp
    with Some p1 s sjlj_phase2_refines [OF assms(1,2), of "ex0\<lparr>private_2 := d\<rparr>" "w @ log calls"] show ?thesis
      by (intro exI [of _ "ex0\<lparr>private_2 := d\<rparr>"])
        (simp add: sjlj_raise_def ex0_def raise_spec_def Let_def case_prod_beta block_key_def)
  qed
qed

lemma sjlj_forced_calls:
  "chain s c cs \<Longrightarrow> sj_answers R ans inst \<Longrightarrow> \<forall>d. ans d forced_action = URC_CONTINUE_UNWIND \<Longrightarrow>
   \<forall>p a e d q t v. sj_stop_fn R p a e d q t v = (URC_NO_REASON, e, t, v @ [Stop d a]) \<Longrightarrow>
   sjlj_phase2_forced R stop prm ex c s w =
     Some (Returned URC_END_OF_STACK, ex, s, w @ forced_calls (sj_has s) cs)"
proof (induction cs arbitrary: c w)
  case Nil
  then show ?case by (simp add: sjlj_phase2_forced.simps forced_calls_def)
next
  case (Cons d ds)
  then have c: "c = d" "d \<noteq> 0" "chain s (prev (contexts s d)) ds" by auto
  note IH = Cons.IH [OF c(3) Cons.prems(2-4)]
  have k: "(personality (contexts s d) = 0) = (\<not> sj_has s d)" by (simp add: sj_has_def)
  have p: "sj_personality_fn R h a e f t v =
      (ans f a, e, if ans f a = URC_INSTALL_CONTEXT then inst f t else t, v @ [Personality f a])" for h a e f t v
    using Cons.prems(2) by (simp add: sj_answers_def)
  have a: "UA_FORCE_UNWIND OR UA_CLEANUP_PHASE = forced_action" by (simp add: forced_action_def)
  have f: "forced_calls (sj_has s) (d # ds) = Stop d forced_action #
      (if sj_has s d then [Personality d forced_action] else []) @ forced_calls (sj_has s) ds"
    by (simp add: forced_calls_def)
  show ?case
    using c(2) Cons.prems(3,4) by (subst sjlj_phase2_forced.simps) (simp add: c(1) IH k a p f)
qed

end
