(* ===== verification/UnwindProperties.thy ===== *)
theory UnwindProperties
  imports UnwindSjlj
begin

text \<open>
  Properties of the two unwinders, drawn from their common specification.
\<close>

section \<open>Runs that reach a handler\<close>

lemma search_reaches:
  "\<forall>g\<in>set pre. has g \<longrightarrow> ans g UA_SEARCH_PHASE = URC_CONTINUE_UNWIND \<Longrightarrow> has f \<Longrightarrow>
   ans f UA_SEARCH_PHASE = URC_HANDLER_FOUND \<Longrightarrow>
   search_spec has ans (pre @ f # post) =
     ((URC_NO_REASON, Some f), map (\<lambda>g. (g, UA_SEARCH_PHASE)) (filter has pre @ [f]))"
  by (induction pre) (auto simp: Let_def)

lemma cleanup_reaches_calls:
  "\<forall>g\<in>set pre. has g \<longrightarrow> ans g UA_CLEANUP_PHASE = URC_CONTINUE_UNWIND \<and> key g \<noteq> key f \<Longrightarrow>
   has f \<Longrightarrow> ans f (UA_CLEANUP_PHASE OR UA_HANDLER_FRAME) = URC_INSTALL_CONTEXT \<Longrightarrow>
   cleanup_spec has ans key (key f) (pre @ f # post) =
     (Resumed f, map (\<lambda>g. (g, UA_CLEANUP_PHASE)) (filter has pre) @ [(f, UA_CLEANUP_PHASE OR UA_HANDLER_FRAME)])"
  by (induction pre) (auto simp: Let_def cleanup_action_def)

lemma search_none:
  "\<forall>f\<in>set fs. has f \<longrightarrow> ans f UA_SEARCH_PHASE \<noteq> URC_HANDLER_FOUND \<Longrightarrow> snd (fst (search_spec has ans fs)) = None"
  by (induction fs) (auto split: prod.splits)

text \<open>C6. Two-phase unwinding: when the frames before \<open>f\<close> have nothing to catch and \<open>f\<close> has, with a
  stack pointer of its own, \<open>_Unwind_RaiseException\<close> first asks every personality routine up to \<open>f\<close>
  in the search phase, then runs the cleanups of the frames before \<open>f\<close> in the same order, tells only
  \<open>f\<close> that it is the handler frame, and transfers control to \<open>f\<close>.\<close>

theorem raise_two_phase:
  assumes "walks R c (pre @ f # post)" "answers R ans inst" "\<forall>d. unw_resume R d"
    and "\<forall>g\<in>set pre. has_handler R g \<longrightarrow> ans g UA_SEARCH_PHASE = URC_CONTINUE_UNWIND \<and>
      ans g UA_CLEANUP_PHASE = URC_CONTINUE_UNWIND \<and> stack_key R g \<noteq> stack_key R f"
    and "has_handler R f" "ans f UA_SEARCH_PHASE = URC_HANDLER_FOUND"
      "ans f (UA_CLEANUP_PHASE OR UA_HANDLER_FRAME) = URC_INSTALL_CONTEXT"
  shows "\<exists>ex'. unwind_raise R ex c w = Some (Resumed (inst f (UA_CLEANUP_PHASE OR UA_HANDLER_FRAME)), ex',
    w @ map (\<lambda>g. Personality g UA_SEARCH_PHASE) (filter (has_handler R) pre @ [f]) @
        map (\<lambda>g. Personality g UA_CLEANUP_PHASE) (filter (has_handler R) pre) @
        [Personality f (UA_CLEANUP_PHASE OR UA_HANDLER_FRAME)])"
proof -
  have s: "search_spec (has_handler R) ans (pre @ f # post) =
     ((URC_NO_REASON, Some f), map (\<lambda>g. (g, UA_SEARCH_PHASE)) (filter (has_handler R) pre @ [f]))"
    using assms(4-6) by (intro search_reaches) auto
  have p1: "phase1_loop R (ex\<lparr>private_1 := 0, private_2 := 0\<rparr>) c w = Some (URC_NO_REASON,
      ex\<lparr>private_1 := 0, private_2 := stack_key R f\<rparr>,
      w @ map (\<lambda>g. Personality g UA_SEARCH_PHASE) (filter (has_handler R) pre @ [f]))"
    using phase1_refines [OF assms(1,2), of "ex\<lparr>private_1 := 0, private_2 := 0\<rparr>" w] s by (simp add: log_def comp_def)
  have cl: "cleanup_spec (has_handler R) ans (stack_key R) (stack_key R f) (pre @ f # post) =
     (Resumed f, map (\<lambda>g. (g, UA_CLEANUP_PHASE)) (filter (has_handler R) pre) @
       [(f, UA_CLEANUP_PHASE OR UA_HANDLER_FRAME)])"
    using assms(4,5,7) by (intro cleanup_reaches_calls) auto
  show ?thesis
    unfolding unwind_raise_def p1
    using phase2_refines [OF assms(1-3), of "ex\<lparr>private_1 := 0, private_2 := stack_key R f\<rparr>"] cl
    by (simp add: cleanup_action_def log_def comp_def)
qed

text \<open>A stack of three callers: a frame without a personality routine, one with a cleanup, one with a
  handler. A cursor is the number of frames walked; the stack pointer of frame \<open>n\<close> is \<open>16 n\<close>.\<close>

definition demo_answer :: "nat \<Rightarrow> u32 \<Rightarrow> reason" where
  "demo_answer c a =
     (if c = 3 then if a = UA_SEARCH_PHASE then URC_HANDLER_FOUND else URC_INSTALL_CONTEXT
      else URC_CONTINUE_UNWIND)"

definition demo_frame :: "u64 \<Rightarrow> proc_info" where
  "demo_frame h = \<lparr>start_ip = 0, end_ip = 0, lsda = 0, handler = h, extra = 0, unwind_info = 0\<rparr>"

definition demo_runtime :: "(nat, nat call list) runtime" where
  "demo_runtime = \<lparr>unw_step = (\<lambda>c. if c < 3 then (1, c + 1) else (0, c)),
     unw_get_proc_info = (\<lambda>c. Some (demo_frame (if c = 1 then 0 else 64))),
     unw_get_reg = (\<lambda>c r. 16 * of_nat c), unw_set_reg = (\<lambda>c r v. c), unw_resume = (\<lambda>c. True),
     unw_is_signal_frame = (\<lambda>c. 0),
     personality_fn = (\<lambda>h a ex c w. (demo_answer c a, ex, c, w @ [Personality c a])),
     stop_fn = (\<lambda>p a ex c q w. (URC_NO_REASON, ex, c, w @ [Stop c a])),
     trace_fn = (\<lambda>p c q w. (URC_NO_REASON, c, w)), cleanup_fn = (\<lambda>p r ex w. w)\<rparr>"

definition demo_exception :: unwind_exception where
  "demo_exception = \<lparr>exception_class = 0, exception_cleanup = 0, private_1 = 0, private_2 = 0\<rparr>"

lemma demo_walks: "walks demo_runtime 0 [1, 2, 3]"
  by (simp add: demo_runtime_def)

lemma demo_answers: "answers demo_runtime demo_answer (\<lambda>c a. c)"
  by (simp add: answers_def demo_runtime_def)

lemma demo_has: "has_handler demo_runtime c = (c \<noteq> 1)"
  by (simp add: has_handler_def demo_runtime_def demo_frame_def)

theorem raise_two_phase_witness:
  "\<exists>ex'. unwind_raise demo_runtime demo_exception 0 [] = Some (Resumed 3, ex',
     [Personality 2 1, Personality 3 1, Personality 2 2, Personality 3 6])"
proof -
  have w: "walks demo_runtime 0 ([1, 2] @ 3 # [])" using demo_walks by simp
  have "\<exists>ex'. unwind_raise demo_runtime demo_exception 0 [] =
    Some (Resumed ((\<lambda>c a. c) 3 (UA_CLEANUP_PHASE OR UA_HANDLER_FRAME)), ex',
      [] @ map (\<lambda>g. Personality g UA_SEARCH_PHASE) (filter (has_handler demo_runtime) [1, 2] @ [3]) @
        map (\<lambda>g. Personality g UA_CLEANUP_PHASE) (filter (has_handler demo_runtime) [1, 2]) @
        [Personality 3 (UA_CLEANUP_PHASE OR UA_HANDLER_FRAME)])"
    by (rule raise_two_phase [OF w demo_answers])
      (simp_all add: demo_has demo_answer_def stack_key_def UA_SEARCH_PHASE_def UA_CLEANUP_PHASE_def
        UA_HANDLER_FRAME_def, simp_all add: demo_runtime_def)
  then show ?thesis by (simp add: demo_has UA_SEARCH_PHASE_def UA_CLEANUP_PHASE_def UA_HANDLER_FRAME_def)
qed

text \<open>When no frame catches the exception, \<open>_Unwind_RaiseException\<close> returns without having run any
  cleanup, so that the caller can terminate with the stack intact.\<close>

lemma raise_without_handler:
  assumes "walks R c cs" "answers R ans inst" "\<forall>d. unw_resume R d"
    and "\<forall>f\<in>set cs. has_handler R f \<longrightarrow> ans f UA_SEARCH_PHASE \<noteq> URC_HANDLER_FOUND"
  shows "\<exists>r ex' calls. unwind_raise R ex c w = Some (Returned r, ex', w @ log calls) \<and>
    r \<in> {URC_END_OF_STACK, URC_FATAL_PHASE1_ERROR} \<and> (\<forall>(f, a)\<in>set calls. a = UA_SEARCH_PHASE \<and> f \<in> set cs)"
proof -
  obtain r found calls where s: "search_spec (has_handler R) ans cs = ((r, found), calls)"
    by (cases "search_spec (has_handler R) ans cs") auto
  then have f: "found = None" using search_none [where fs = cs and has = "has_handler R" and ans = ans] assms(4) by simp
  then have "r \<in> {URC_END_OF_STACK, URC_FATAL_PHASE1_ERROR}"
    using search_reason [of "has_handler R" ans cs] s by simp
  moreover have "\<forall>(f, a)\<in>set calls. a = UA_SEARCH_PHASE \<and> f \<in> set cs"
    using search_calls [of _ _ "has_handler R" ans cs] s by fastforce
  moreover obtain ex' where "unwind_raise R ex c w = Some (Returned r, ex', w @ log calls)"
    using raise_refines [OF assms(1-3), of ex w] s f by (auto simp: raise_spec_def)
  ultimately show ?thesis by blast
qed

definition mute_runtime :: "(nat, nat call list) runtime" where
  "mute_runtime = demo_runtime\<lparr>personality_fn := (\<lambda>h a ex c w. (URC_CONTINUE_UNWIND, ex, c, w @ [Personality c a]))\<rparr>"

lemma raise_without_handler_witness:
  "\<exists>r ex' calls. unwind_raise mute_runtime demo_exception 0 [] = Some (Returned r, ex', [] @ log calls) \<and>
    r \<in> {URC_END_OF_STACK, URC_FATAL_PHASE1_ERROR} \<and> (\<forall>(f, a)\<in>set calls. a = UA_SEARCH_PHASE \<and> f \<in> set [1, 2, 3])"
  by (rule raise_without_handler [where ans = "\<lambda>f a. URC_CONTINUE_UNWIND" and inst = "\<lambda>f a. f"])
    (simp_all add: mute_runtime_def demo_runtime_def answers_def)

section \<open>The two unwinders agree\<close>

lemma search_spec_map:
  "\<forall>d\<in>set cs. has2 (\<phi> d) = has d \<and> (\<forall>a. ans2 (\<phi> d) a = ans d a) \<Longrightarrow>
   search_spec has2 ans2 (map \<phi> cs) =
     (let ((r, found), calls) = search_spec has ans cs in ((r, map_option \<phi> found), map (\<lambda>(d, a). (\<phi> d, a)) calls))"
  by (induction cs) (auto simp: Let_def case_prod_beta)

lemma cleanup_spec_map:
  "\<forall>d\<in>set cs. has2 (\<phi> d) = has d \<and> (\<forall>a. ans2 (\<phi> d) a = ans d a) \<and> (key2 (\<phi> d) = t2) = (key d = t) \<Longrightarrow>
   cleanup_spec has2 ans2 key2 t2 (map \<phi> cs) =
     (let (r, calls) = cleanup_spec has ans key t cs in (map_outcome \<phi> r, map (\<lambda>(d, a). (\<phi> d, a)) calls))"
  by (induction cs) (auto simp: Let_def case_prod_beta cleanup_action_def)

lemma raise_spec_map:
  assumes "\<forall>d\<in>set cs. has2 (\<phi> d) = has d \<and> (\<forall>a. ans2 (\<phi> d) a = ans d a)"
    and "\<forall>d\<in>set cs. \<forall>e\<in>set cs. (key2 (\<phi> d) = key2 (\<phi> e)) = (key d = key e)"
  shows "raise_spec has2 ans2 key2 (map \<phi> cs) =
     (let (r, calls) = raise_spec has ans key cs in (map_outcome \<phi> r, map (\<lambda>(d, a). (\<phi> d, a)) calls))"
proof -
  obtain r found calls where s: "search_spec has ans cs = ((r, found), calls)"
    by (cases "search_spec has ans cs") auto
  have m: "search_spec has2 ans2 (map \<phi> cs) =
      (let ((r, found), calls) = search_spec has ans cs in ((r, map_option \<phi> found), map (\<lambda>(d, a). (\<phi> d, a)) calls))"
    using assms(1) by (intro search_spec_map) auto
  show ?thesis
  proof (cases found)
    case None
    with s m show ?thesis by (simp add: raise_spec_def)
  next
    case (Some f)
    then have "f \<in> set cs" using search_found [of has ans cs f] s by auto
    with assms have "\<forall>d\<in>set cs. has2 (\<phi> d) = has d \<and> (\<forall>a. ans2 (\<phi> d) a = ans d a) \<and> (key2 (\<phi> d) = key2 (\<phi> f)) = (key d = key f)"
      by blast
    then have "cleanup_spec has2 ans2 key2 (key2 (\<phi> f)) (map \<phi> cs) =
        (let (r, calls) = cleanup_spec has ans key (key f) cs in (map_outcome \<phi> r, map (\<lambda>(d, a). (\<phi> d, a)) calls))"
      by (intro cleanup_spec_map) auto
    with s m Some show ?thesis
      by (simp add: raise_spec_def case_prod_beta Let_def)
  qed
qed

text \<open>C7. The zero-cost and the setjmp/longjmp unwinder agree: on stacks whose frames correspond
  (\<open>\<phi>\<close> maps cursors to registered blocks, the personality routines answer alike and the frames are told
  apart alike), raising an exception ends the same way in corresponding frames, after the same sequence of
  personality calls.\<close>

theorem unwinders_agree:
  assumes "walks R c cs" "answers R ans inst" "\<forall>d. unw_resume R d"
    and "chain s (stack s) (map \<phi> cs)" "sj_answers S ans2 inst2" "\<forall>f. ans2 f UA_SEARCH_PHASE \<noteq> URC_INSTALL_CONTEXT"
    and "\<forall>d\<in>set cs. sj_has s (\<phi> d) = has_handler R d \<and> (\<forall>a. ans2 (\<phi> d) a = ans d a)"
    and "\<forall>d\<in>set cs. \<forall>e\<in>set cs. (\<phi> d = \<phi> e) = (stack_key R d = stack_key R e)"
  shows "\<exists>r ex1 ex2 s' calls act. unwind_raise R ex c w = Some (install inst act r, ex1, w @ log calls) \<and>
    sjlj_raise S ex s w2 = Some (map_outcome \<phi> r, ex2, s', w2 @ log (map (\<lambda>(d, a). (\<phi> d, a)) calls))"
proof -
  obtain r calls where rc: "raise_spec (has_handler R) ans (stack_key R) cs = (r, calls)" by fastforce
  have "raise_spec (sj_has s) ans2 block_key (map \<phi> cs) =
      (let (r, calls) = raise_spec (has_handler R) ans (stack_key R) cs
       in (map_outcome \<phi> r, map (\<lambda>(d, a). (\<phi> d, a)) calls))"
    using assms(7,8) by (intro raise_spec_map) (auto simp: block_key_def)
  then have rc2: "raise_spec (sj_has s) ans2 block_key (map \<phi> cs) = (map_outcome \<phi> r, map (\<lambda>(d, a). (\<phi> d, a)) calls)"
    by (simp add: rc)
  obtain ex1 where "unwind_raise R ex c w =
      Some (install inst (cleanup_action (stack_key R) (private_2 ex1)) r, ex1, w @ log calls)"
    using raise_refines [OF assms(1-3), of ex w] rc by auto
  moreover obtain ex2 where "sjlj_raise S ex s w2 = Some (map_outcome \<phi> r, ex2, sj_install inst2 s (map_outcome \<phi> r),
      w2 @ log (map (\<lambda>(d, a). (\<phi> d, a)) calls))"
    using sjlj_raise_refines [OF assms(4-6), of ex w2] rc2 by auto
  ultimately show ?thesis by blast
qed

definition demo_block :: "nat \<Rightarrow> u64" where
  "demo_block d = 4096 * of_nat d"

definition demo_context :: "u64 \<Rightarrow> u64 \<Rightarrow> function_context" where
  "demo_context p h = \<lparr>prev = p, resume_location = 0, resume_parameters = [0, 0, 0, 0], personality = h,
     fc_lsda = 0, jbuf = [0, 0, 0]\<rparr>"

definition demo_blocks :: sjlj_state where
  "demo_blocks = \<lparr>contexts = (\<lambda>_. demo_context 0 0)(4096 := demo_context 8192 0,
     8192 := demo_context 12288 64, 12288 := demo_context 0 64), stack = 4096\<rparr>"

definition demo_sj_answer :: "u64 \<Rightarrow> u32 \<Rightarrow> reason" where
  "demo_sj_answer f a =
     (if f = 12288 then if a = UA_SEARCH_PHASE then URC_HANDLER_FOUND else URC_INSTALL_CONTEXT
      else URC_CONTINUE_UNWIND)"

definition demo_sj_runtime :: "(u64 call list) sjlj_runtime" where
  "demo_sj_runtime =
     \<lparr>sj_personality_fn = (\<lambda>h a ex c s w. (demo_sj_answer c a, ex, s, w @ [Personality c a])),
      sj_stop_fn = (\<lambda>p a e d q t v. (URC_NO_REASON, e, t, v @ [Stop d a])), sj_cleanup_fn = (\<lambda>p r ex w. w)\<rparr>"

theorem unwinders_agree_witness:
  "\<exists>r ex1 ex2 s' calls act. unwind_raise demo_runtime demo_exception 0 [] =
       Some (install (\<lambda>c a. c) act r, ex1, [] @ log calls) \<and>
     sjlj_raise demo_sj_runtime demo_exception demo_blocks [] =
       Some (map_outcome demo_block r, ex2, s', [] @ log (map (\<lambda>(d, a). (demo_block d, a)) calls))"
proof (rule unwinders_agree [OF demo_walks demo_answers])
  show "\<forall>d. unw_resume demo_runtime d" by (simp add: demo_runtime_def)
  show "chain demo_blocks (stack demo_blocks) (map demo_block [1, 2, 3])"
    by (simp add: demo_blocks_def demo_block_def demo_context_def)
  show "sj_answers demo_sj_runtime demo_sj_answer (\<lambda>f s. s)"
    by (simp add: sj_answers_def demo_sj_runtime_def)
  show "\<forall>f. demo_sj_answer f UA_SEARCH_PHASE \<noteq> URC_INSTALL_CONTEXT" by (simp add: demo_sj_answer_def)
  show "\<forall>d\<in>set [1, 2, 3]. sj_has demo_blocks (demo_block d) = has_handler demo_runtime d \<and>
      (\<forall>a. demo_sj_answer (demo_block d) a = demo_answer d a)"
    by (simp add: demo_has sj_has_def demo_blocks_def demo_block_def demo_context_def demo_sj_answer_def demo_answer_def)
  show "\<forall>d\<in>set [1, 2, 3]. \<forall>e\<in>set [1, 2, 3]. (demo_block d = demo_block e) =
      (stack_key demo_runtime d = stack_key demo_runtime e)"
    by (simp add: demo_block_def stack_key_def demo_runtime_def)
qed

section \<open>Forced unwinding\<close>

text \<open>A forced unwind that nobody stops calls the stop function and then the personality routine of
  every frame, calls the stop function once more at the bottom with \<open>_UA_END_OF_STACK\<close>, and returns an
  error.\<close>

lemma forced_visits_all:
  assumes "walks R c cs" "answers R ans inst" "lets_pass R" "\<forall>d. ans d forced_action = URC_CONTINUE_UNWIND"
  shows "unwind_forced R ex stop prm c w =
     Some (Returned URC_FATAL_PHASE2_ERROR, ex\<lparr>private_1 := stop, private_2 := prm\<rparr>,
       w @ forced_calls (has_handler R) cs @ [Stop (bottom R c cs) (forced_action OR UA_END_OF_STACK)])"
  unfolding unwind_forced_def by (rule forced_loop_calls [OF assms])

lemma forced_visits_all_witness:
  "unwind_forced mute_runtime demo_exception 7 8 0 [] =
     Some (Returned URC_FATAL_PHASE2_ERROR, demo_exception\<lparr>private_1 := 7, private_2 := 8\<rparr>,
       [Stop 1 10, Stop 2 10, Personality 2 10, Stop 3 10, Personality 3 10, Stop 3 26])"
proof -
  have w: "walks mute_runtime 0 [1, 2, 3]" by (simp add: mute_runtime_def demo_runtime_def)
  have a: "answers mute_runtime (\<lambda>d a. URC_CONTINUE_UNWIND) (\<lambda>d a. d)"
    by (simp add: answers_def mute_runtime_def demo_runtime_def)
  have l: "lets_pass mute_runtime" by (simp add: lets_pass_def mute_runtime_def demo_runtime_def)
  have h: "has_handler mute_runtime d = (d \<noteq> 1)" for d
    by (simp add: has_handler_def mute_runtime_def demo_runtime_def demo_frame_def)
  have b: "bottom mute_runtime 0 [1, 2, 3] = 3" by (simp add: mute_runtime_def demo_runtime_def)
  show ?thesis
    using forced_visits_all [OF w a l, of demo_exception 7 8 "[]"] b
    by (simp add: forced_calls_def h forced_action_def UA_FORCE_UNWIND_def UA_CLEANUP_PHASE_def UA_END_OF_STACK_def)
qed

text \<open>The setjmp/longjmp unwinder leaves the last step out: under the same conditions it visits the
  same frames but returns \<open>_URC_END_OF_STACK\<close> from inside its loop, and the stop function is never told
  that the end of the stack has been reached.\<close>

lemma sjlj_forced_no_final_stop:
  assumes "chain s c cs" "sj_answers R ans inst" "\<forall>d. ans d forced_action = URC_CONTINUE_UNWIND"
    and "\<forall>p a e d q t v. sj_stop_fn R p a e d q t v = (URC_NO_REASON, e, t, v @ [Stop d a])"
  shows "sjlj_phase2_forced R stop prm ex c s w =
      Some (Returned URC_END_OF_STACK, ex, s, w @ forced_calls (sj_has s) cs) \<and>
    (\<forall>d a. Stop d a \<in> set (forced_calls (sj_has s) cs) \<longrightarrow> a AND UA_END_OF_STACK = 0)"
proof
  show "sjlj_phase2_forced R stop prm ex c s w =
      Some (Returned URC_END_OF_STACK, ex, s, w @ forced_calls (sj_has s) cs)"
    by (rule sjlj_forced_calls [OF assms])
  show "\<forall>d a. Stop d a \<in> set (forced_calls (sj_has s) cs) \<longrightarrow> a AND UA_END_OF_STACK = 0"
    by (auto simp: forced_calls_def forced_action_def UA_FORCE_UNWIND_def UA_CLEANUP_PHASE_def
        UA_END_OF_STACK_def split: if_splits)
qed

definition mute_sj_runtime :: "(u64 call list) sjlj_runtime" where
  "mute_sj_runtime = demo_sj_runtime\<lparr>sj_personality_fn :=
     (\<lambda>h a ex c s w. (URC_CONTINUE_UNWIND, ex, s, w @ [Personality c a]))\<rparr>"

lemma sjlj_forced_no_final_stop_witness:
  "sjlj_phase2_forced mute_sj_runtime 7 8 demo_exception 4096 demo_blocks [] =
     Some (Returned URC_END_OF_STACK, demo_exception, demo_blocks,
       [Stop 4096 10, Stop 8192 10, Personality 8192 10, Stop 12288 10, Personality 12288 10])"
proof -
  have c: "chain demo_blocks 4096 [4096, 8192, 12288]" by (simp add: demo_blocks_def demo_context_def)
  have a: "sj_answers mute_sj_runtime (\<lambda>d a. URC_CONTINUE_UNWIND) (\<lambda>f s. s)"
    by (simp add: sj_answers_def mute_sj_runtime_def)
  have st: "\<forall>p a e d q t v. sj_stop_fn mute_sj_runtime p a e d q t v = (URC_NO_REASON, e, t, v @ [Stop d a])"
    by (simp add: mute_sj_runtime_def demo_sj_runtime_def)
  show ?thesis
    using sjlj_forced_no_final_stop [OF c a _ st, of 7 8 demo_exception "[]"]
    by (simp add: forced_calls_def sj_has_def demo_blocks_def demo_context_def forced_action_def
        UA_FORCE_UNWIND_def UA_CLEANUP_PHASE_def)
qed

text \<open>\<open>_Unwind_SetGR\<close> of the setjmp/longjmp unwinder keeps only 32 bits of the value: on a 64-bit
  target the address of the exception object does not survive the way to the landing pad.\<close>

lemma sjlj_gr_truncates:
  "map_option (\<lambda>s. sjlj_get_gr s 4096 0) (sjlj_set_gr demo_blocks 4096 0 0x7FFF00001234) = Some (Some 0x1234)"
  by (simp add: sjlj_set_gr_def sjlj_get_gr_def demo_blocks_def demo_context_def)

end
