(* ===== verification/Schedules.thy ===== *)
theory Schedules
  imports Prelude
begin

text \<open>
  Executions: sequences of calls that may fail, and threads whose atomic steps are taken in any order.
\<close>

section \<open>Threads\<close>

inductive reached :: "('s \<Rightarrow> 's \<Rightarrow> bool) \<Rightarrow> 's \<Rightarrow> 's \<Rightarrow> bool" for step start where
  reached_start: "reached step start start"
| reached_step: "reached step start s \<Longrightarrow> step s s' \<Longrightarrow> reached step start s'"

text \<open>A schedule names, for every step, the thread and which of its possible steps it takes.\<close>

fun follow :: "('s \<Rightarrow> 't \<Rightarrow> 's list) \<Rightarrow> 's \<Rightarrow> ('t \<times> nat) list \<Rightarrow> 's option" where
  "follow steps s [] = Some s"
| "follow steps s ((t, k) # ks) =
     (if k < length (steps s t) then follow steps (steps s t ! k) ks else None)"

lemma follow_reached:
  "follow steps s ks = Some s' \<Longrightarrow> reached (\<lambda>a b. \<exists>t. b \<in> set (steps a t)) start s \<Longrightarrow>
   reached (\<lambda>a b. \<exists>t. b \<in> set (steps a t)) start s'"
proof (induction steps s ks rule: follow.induct)
  case (2 steps s t k ks)
  then have k: "k < length (steps s t)" and f: "follow steps (steps s t ! k) ks = Some s'"
    by (simp_all split: if_splits)
  from k have "steps s t ! k \<in> set (steps s t)" by (rule nth_mem)
  then have "reached (\<lambda>a b. \<exists>t. b \<in> set (steps a t)) start (steps s t ! k)"
    using "2.prems"(2) by (blast intro: reached_step)
  with "2.IH" [OF k f] show ?case by blast
qed simp

section \<open>Calls\<close>

fun run_calls :: "('c \<Rightarrow> 's \<Rightarrow> 's option) \<Rightarrow> 'c list \<Rightarrow> 's \<Rightarrow> 's option" where
  "run_calls step [] s = Some s"
| "run_calls step (c # cs) s = Option.bind (step c s) (run_calls step cs)"

lemma run_calls_append: "run_calls step (cs @ ds) s = Option.bind (run_calls step cs s) (run_calls step ds)"
  by (induction cs arbitrary: s) (simp, simp split: bind_split)

text \<open>Calls that follow a specification one by one follow it in every sequence.\<close>

locale simulation =
  fixes abstract_step :: "'c \<Rightarrow> 'a \<Rightarrow> 'a option" and concrete_step :: "'c \<Rightarrow> 's \<Rightarrow> 's option"
    and relation :: "'a \<Rightarrow> 's \<Rightarrow> bool"
  assumes step: "relation a s \<Longrightarrow> abstract_step c a = Some a' \<Longrightarrow> \<exists>s'. concrete_step c s = Some s' \<and> relation a' s'"
begin

lemma run:
  assumes "relation a s" "run_calls abstract_step cs a = Some a'"
  shows "\<exists>s'. run_calls concrete_step cs s = Some s' \<and> relation a' s'"
  using assms
proof (induction cs arbitrary: a s)
  case (Cons c cs)
  then obtain a1 where a1: "abstract_step c a = Some a1" "run_calls abstract_step cs a1 = Some a'"
    by (auto simp: bind_eq_Some_conv)
  obtain s1 where "concrete_step c s = Some s1" "relation a1 s1" using step [OF Cons.prems(1) a1(1)] by blast
  with Cons.IH [OF _ a1(2)] show ?case by auto
qed simp

end

end
