(* ===== verification/GuardProtocol.thy ===== *)
theory GuardProtocol
  imports Schedules
begin

text \<open>
  Guards of function-local statics (\<open>libcxxabi/src/cxa_guard_impl.h\<close>): the guard object, the
  constants, the single-threaded implementation, and the contract \<open>once_guard\<close> that the two
  implementations for threads keep.
\<close>

section \<open>The guard object\<close>

definition UNSET :: u8 where "UNSET = 0"
definition COMPLETE_BIT :: u8 where "COMPLETE_BIT = 1"
definition PENDING_BIT :: u8 where "PENDING_BIT = 2"
definition WAITING_BIT :: u8 where "WAITING_BIT = 4"

lemmas guard_bits = UNSET_def COMPLETE_BIT_def PENDING_BIT_def WAITING_BIT_def

datatype acquire_result = INIT_IS_DONE | INIT_IS_PENDING

record guard_object =
  guard_byte :: u8
  init_byte :: u8
  guard_thread_id :: u32

definition fresh_guard :: guard_object where
  "fresh_guard = \<lparr>guard_byte = 0, init_byte = 0, guard_thread_id = 0\<rparr>"

section \<open>The single-threaded implementation\<close>

text \<open>\<open>None\<close> is the abort on recursive initialization.\<close>

definition nt_acquire_init_byte :: "guard_object \<Rightarrow> (guard_object \<times> acquire_result) option" where
  "nt_acquire_init_byte g =
     (if init_byte g = COMPLETE_BIT then Some (g, INIT_IS_DONE)
      else if init_byte g AND PENDING_BIT \<noteq> 0 then None
      else Some (g\<lparr>init_byte := PENDING_BIT\<rparr>, INIT_IS_PENDING))"

definition nt_acquire :: "guard_object \<Rightarrow> (guard_object \<times> acquire_result) option" where
  "nt_acquire g = (if guard_byte g \<noteq> UNSET then Some (g, INIT_IS_DONE) else nt_acquire_init_byte g)"

definition nt_release :: "guard_object \<Rightarrow> guard_object" where
  "nt_release g = g\<lparr>guard_byte := COMPLETE_BIT, init_byte := COMPLETE_BIT\<rparr>"

definition nt_abort :: "guard_object \<Rightarrow> guard_object" where
  "nt_abort g = g\<lparr>init_byte := UNSET\<rparr>"

text \<open>A program run: one execution of a declaration with a static local. \<open>attempt\<close> is the outcome of
  each try of the initializer: it succeeds, throws, or reaches the declaration again.\<close>

datatype attempt = Succeeds | Throws | Recurses

definition nt_declaration :: "guard_object \<Rightarrow> attempt \<Rightarrow> (guard_object \<times> bool) option" where
  "nt_declaration g a = (case nt_acquire g of
     None \<Rightarrow> None
   | Some (g', INIT_IS_DONE) \<Rightarrow> Some (g', False)
   | Some (g', INIT_IS_PENDING) \<Rightarrow> (case a of
       Succeeds \<Rightarrow> Some (nt_release g', True)
     | Throws \<Rightarrow> Some (nt_abort g', False)
     | Recurses \<Rightarrow> map_option (\<lambda>(g2, _). (g2, False)) (nt_acquire g')))"

fun nt_run :: "guard_object \<Rightarrow> attempt list \<Rightarrow> (guard_object \<times> nat) option" where
  "nt_run g [] = Some (g, 0)"
| "nt_run g (a # ts) = (case nt_declaration g a of
     None \<Rightarrow> None
   | Some (g', did) \<Rightarrow> map_option (\<lambda>(g2, n). (g2, (if did then Suc n else n))) (nt_run g' ts))"

lemma nt_run_complete: "guard_byte g \<noteq> 0 \<Longrightarrow> nt_run g ts = Some (g, 0)"
  by (induction ts) (auto simp: nt_declaration_def nt_acquire_def guard_bits)

lemma nt_run_unset:
  "nt_run fresh_guard ts =
     (if Recurses \<in> set (takeWhile (\<lambda>a. a \<noteq> Succeeds) ts) then None
      else if Succeeds \<in> set ts then Some (nt_release fresh_guard, 1) else Some (fresh_guard, 0))"
proof (induction ts)
  case Nil
  then show ?case by simp
next
  case (Cons a ts)
  show ?case
    by (cases a) (use Cons.IH in \<open>auto simp: nt_run_complete nt_declaration_def nt_acquire_def nt_acquire_init_byte_def nt_abort_def
      nt_release_def fresh_guard_def guard_bits\<close>)
qed

section \<open>The contract for threads\<close>

text \<open>\<open>step s s'\<close> is one atomic step of some thread, \<open>initializing s t\<close> says that \<open>t\<close> has been told to
  run the initializer and has not reported its end, \<open>passed s t\<close> that a call of \<open>t\<close> has returned
  \<open>INIT_IS_DONE\<close>, \<open>completed s\<close> that the initializer has reported success, \<open>sleeping s t\<close> that \<open>t\<close> is blocked
  in the operating system, and \<open>waking s\<close> that some thread is about to wake all sleepers.\<close>

locale once_guard =
  fixes step :: "'s \<Rightarrow> 's \<Rightarrow> bool" and start :: 's and inv :: "'s \<Rightarrow> bool"
    and initializing :: "'s \<Rightarrow> 't \<Rightarrow> bool" and passed :: "'s \<Rightarrow> 't \<Rightarrow> bool"
    and completed :: "'s \<Rightarrow> bool" and sleeping :: "'s \<Rightarrow> 't \<Rightarrow> bool" and waking :: "'s \<Rightarrow> bool"
  assumes inv_start: "inv start"
    and inv_step: "inv s \<Longrightarrow> step s s' \<Longrightarrow> inv s'"
    and inv_exclusive: "inv s \<Longrightarrow> initializing s t \<Longrightarrow> initializing s u \<Longrightarrow> t = u"
    and inv_passed: "inv s \<Longrightarrow> passed s t \<Longrightarrow> completed s"
    and inv_over: "inv s \<Longrightarrow> completed s \<Longrightarrow> \<not> initializing s t"
    and inv_stable: "inv s \<Longrightarrow> step s s' \<Longrightarrow> completed s \<Longrightarrow> completed s'"
    and inv_awake: "inv s \<Longrightarrow> sleeping s t \<Longrightarrow> (\<exists>u. initializing s u) \<or> waking s"
begin

lemma reached_inv: "reached step start s \<Longrightarrow> inv s"
  by (induction rule: reached.induct) (auto intro: inv_start inv_step)

lemma exclusive: "reached step start s \<Longrightarrow> initializing s t \<Longrightarrow> initializing s u \<Longrightarrow> t = u"
  by (blast intro: inv_exclusive reached_inv)

lemma passed_completed: "reached step start s \<Longrightarrow> passed s t \<Longrightarrow> completed s"
  by (blast intro: inv_passed reached_inv)

text \<open>Once complete, always complete: no thread is told to initialize again.\<close>

lemma reached_trans: "reached step s s' \<Longrightarrow> reached step start s \<Longrightarrow> reached step start s'"
  by (induction rule: reached.induct) (auto intro: reached_step)

lemma once:
  assumes "reached step start s" "completed s" "reached step s s'"
  shows "completed s' \<and> \<not> initializing s' t"
proof -
  have "reached step start s' \<and> completed s'" using assms(3)
  proof (induction rule: reached.induct)
    case reached_start
    with assms show ?case by simp
  next
    case (reached_step s1 s2)
    then show ?case by (meson inv_stable reached.reached_step reached_inv)
  qed
  then show ?thesis using inv_over [OF reached_inv] by simp
qed

lemma no_lost_wakeup: "reached step start s \<Longrightarrow> sleeping s t \<Longrightarrow> (\<exists>u. initializing s u) \<or> waking s"
  by (rule inv_awake [OF reached_inv])

end

end
