(* ===== verification/FutexGuard.thy ===== *)
theory FutexGuard
  imports GuardProtocol
begin

text \<open>
  \<open>InitByteFutex\<close> of \<open>libcxxabi/src/cxa_guard_impl.h\<close> as a transition system. A thread executes the
  declaration of a function-local static again and again: acquire, then the initializer, then release
  or abort. Threads are named by what \<open>PlatformThreadID\<close> returns for them: distinct and not 0.
  Every atomic operation and every system call is one step, the interleaving is arbitrary
  and memory is sequentially consistent. The compare-exchange is the weak one the library uses, so it
  may fail without a reason.
\<close>

section \<open>The model\<close>

text \<open>Program counters. The flag of the pcs of acquire tells a call made by the initializer itself
  (\<open>True\<close>) from an ordinary one. \<open>Init\<close> is the initializer running. The values carried along are the local
  variable \<open>last_val\<close>.\<close>

datatype fpc = Idle | Load bool | Cas bool | StoreTid | Init | CheckTid bool u8 | CasWait bool u8
  | FWait bool | Sleep bool | RelGuard | RelXchg | AbtTid | AbtXchg | Wake bool | Done

record fstate =
  guard :: guard_object
  pc :: "u32 \<Rightarrow> fpc"
  aborted :: bool

definition futex_start :: fstate where
  "futex_start = \<lparr>guard = fresh_guard, pc = (\<lambda>t. Idle), aborted = False\<rparr>"

text \<open>Where acquire returns to with \<open>INIT_IS_DONE\<close>: to the program or back into the initializer.\<close>

definition returns_done :: "bool \<Rightarrow> fpc" where
  "returns_done r = (if r then Init else Done)"

definition after_cas :: "bool \<Rightarrow> u8 \<Rightarrow> fpc" where
  "after_cas r last_val =
     (if last_val = COMPLETE_BIT then returns_done r
      else if last_val AND PENDING_BIT \<noteq> 0 then CheckTid r last_val
      else Cas r)"

definition after_wait_cas :: "bool \<Rightarrow> u8 \<Rightarrow> fpc" where
  "after_wait_cas r last_val =
     (if last_val = COMPLETE_BIT then returns_done r
      else if last_val = UNSET then Cas r
      else FWait r)"

text \<open>The word the kernel compares starts at the guard byte; bytes 2 and 3 are never written.\<close>

definition futex_word :: "guard_object \<Rightarrow> u8 list" where
  "futex_word g = [guard_byte g, init_byte g, 0, 0]"

definition expected_value_for_futex :: "u8 \<Rightarrow> u8 list" where
  "expected_value_for_futex b = [0, 0, 0, 0][1 := b]"

fun woken :: "fpc \<Rightarrow> fpc" where
  "woken (Sleep r) = Cas r"
| "woken p = p"

fun futex_do :: "bool \<Rightarrow> u32 \<Rightarrow> fpc \<Rightarrow> guard_object \<Rightarrow> (fpc \<times> guard_object) list" where
  "futex_do has_tid self Idle g = [(Load False, g)]"
| "futex_do has_tid self (Load r) g =
     [(if guard_byte g \<noteq> UNSET then returns_done r else Cas r, g)]"
| "futex_do has_tid self (Cas r) g =
     (if init_byte g = UNSET
      then [(StoreTid, g\<lparr>init_byte := PENDING_BIT\<rparr>), (after_cas r (init_byte g), g)]
      else [(after_cas r (init_byte g), g)])"
| "futex_do has_tid self StoreTid g = [(Init, if has_tid then g\<lparr>guard_thread_id := self\<rparr> else g)]"
| "futex_do has_tid self Init g = [(RelGuard, g), (AbtTid, g), (Load True, g)]"
| "futex_do has_tid self (CheckTid r last_val) g =
     [(if last_val AND WAITING_BIT = 0 then CasWait r last_val else FWait r, g)]"
| "futex_do has_tid self (CasWait r last_val) g =
     (if init_byte g = last_val
      then [(FWait r, g\<lparr>init_byte := PENDING_BIT OR WAITING_BIT\<rparr>), (after_wait_cas r (init_byte g), g)]
      else [(after_wait_cas r (init_byte g), g)])"
| "futex_do has_tid self (FWait r) g =
     [(if futex_word g = expected_value_for_futex (PENDING_BIT OR WAITING_BIT) then Sleep r else Cas r, g)]"
| "futex_do has_tid self (Sleep r) g = [(Cas r, g)]"
| "futex_do has_tid self RelGuard g = [(RelXchg, g\<lparr>guard_byte := COMPLETE_BIT\<rparr>)]"
| "futex_do has_tid self RelXchg g =
     [(if init_byte g AND WAITING_BIT \<noteq> 0 then Wake True else Done, g\<lparr>init_byte := COMPLETE_BIT\<rparr>)]"
| "futex_do has_tid self AbtTid g = [(AbtXchg, if has_tid then g\<lparr>guard_thread_id := 0\<rparr> else g)]"
| "futex_do has_tid self AbtXchg g =
     [(if init_byte g AND WAITING_BIT \<noteq> 0 then Wake False else Idle, g\<lparr>init_byte := UNSET\<rparr>)]"
| "futex_do has_tid self (Wake b) g = [(if b then Done else Idle, g)]"
| "futex_do has_tid self Done g = [(Load False, g)]"

fun recursion_detected :: "bool \<Rightarrow> u32 \<Rightarrow> fpc \<Rightarrow> guard_object \<Rightarrow> bool" where
  "recursion_detected has_tid self (CheckTid r last_val) g = (has_tid \<and> guard_thread_id g = self)"
| "recursion_detected has_tid self p g = False"

fun is_wake :: "fpc \<Rightarrow> bool" where
  "is_wake (Wake b) = True"
| "is_wake p = False"

definition futex_steps :: "bool \<Rightarrow> fstate \<Rightarrow> u32 \<Rightarrow> fstate list" where
  "futex_steps has_tid s t =
     (if aborted s \<or> t = 0 then []
      else if recursion_detected has_tid t (pc s t) (guard s) then [s\<lparr>aborted := True\<rparr>]
      else map (\<lambda>(p, g). s\<lparr>guard := g,
          pc := ((if is_wake (pc s t) then (\<lambda>u. woken (pc s u)) else pc s)(t := p))\<rparr>)
        (futex_do has_tid t (pc s t) (guard s)))"

definition futex_step :: "bool \<Rightarrow> fstate \<Rightarrow> fstate \<Rightarrow> bool" where
  "futex_step has_tid s s' = (\<exists>t. s' \<in> set (futex_steps has_tid s t))"

section \<open>The invariant\<close>

text \<open>\<open>owns p\<close>: the thread holds the pending guard.\<close>

fun owns :: "fpc \<Rightarrow> bool" where
  "owns (Load r) = r"
| "owns (Cas r) = r"
| "owns (CheckTid r v) = r"
| "owns (CasWait r v) = r"
| "owns (FWait r) = r"
| "owns (Sleep r) = r"
| "owns StoreTid = True"
| "owns Init = True"
| "owns RelGuard = True"
| "owns RelXchg = True"
| "owns AbtTid = True"
| "owns AbtXchg = True"
| "owns p = False"

fun sleeps :: "fpc \<Rightarrow> bool" where
  "sleeps (Sleep r) = True"
| "sleeps p = False"

text \<open>What a program counter says about the guard, and about itself.\<close>

fun local_ok :: "guard_object \<Rightarrow> fpc \<Rightarrow> bool" where
  "local_ok g (CheckTid r v) = (v \<in> {2, 6})"
| "local_ok g (CasWait r v) = (v = 2)"
| "local_ok g RelXchg = (guard_byte g \<noteq> 0)"
| "local_ok g (Wake b) = (b \<longrightarrow> guard_byte g \<noteq> 0)"
| "local_ok g Done = (guard_byte g \<noteq> 0)"
| "local_ok g (Load r) = True"
| "local_ok g p = True"

definition guard_inv :: "guard_object \<Rightarrow> (u32 \<Rightarrow> fpc) \<Rightarrow> bool" where
  "guard_inv g P \<longleftrightarrow>
     init_byte g \<in> {0, 1, 2, 6} \<and>
     (\<forall>t u. owns (P t) \<longrightarrow> owns (P u) \<longrightarrow> t = u) \<and>
     (init_byte g \<in> {2, 6}) = (\<exists>t. owns (P t)) \<and>
     (guard_byte g \<noteq> 0) = (init_byte g = 1 \<or> (\<exists>t. P t = RelXchg)) \<and>
     (\<forall>t. local_ok g (P t)) \<and>
     (\<forall>t. sleeps (P t) \<longrightarrow> init_byte g = 6 \<or> (\<exists>u. is_wake (P u)))"

lemmas futex_simps = returns_done_def after_cas_def after_wait_cas_def futex_word_def
  expected_value_for_futex_def guard_bits

text \<open>What the invariant says when the step of thread \<open>t\<close> is singled out.\<close>

lemma guard_inv_upd:
  "guard_inv g (P(t := p)) \<longleftrightarrow>
     init_byte g \<in> {0, 1, 2, 6} \<and>
     (\<forall>u v. u \<noteq> t \<longrightarrow> v \<noteq> t \<longrightarrow> owns (P u) \<longrightarrow> owns (P v) \<longrightarrow> u = v) \<and>
     (owns p \<longrightarrow> \<not> (\<exists>u. u \<noteq> t \<and> owns (P u))) \<and>
     (init_byte g \<in> {2, 6}) = (owns p \<or> (\<exists>u. u \<noteq> t \<and> owns (P u))) \<and>
     (guard_byte g \<noteq> 0) = (init_byte g = 1 \<or> p = RelXchg \<or> (\<exists>u. u \<noteq> t \<and> P u = RelXchg)) \<and>
     local_ok g p \<and> (\<forall>u. u \<noteq> t \<longrightarrow> local_ok g (P u)) \<and>
     (sleeps p \<longrightarrow> init_byte g = 6 \<or> (\<exists>u. u \<noteq> t \<and> is_wake (P u))) \<and>
     ((\<exists>u. u \<noteq> t \<and> sleeps (P u)) \<longrightarrow> init_byte g = 6 \<or> is_wake p \<or> (\<exists>u. u \<noteq> t \<and> is_wake (P u)))"
proof -
  have e: "(\<exists>u. Q ((P(t := p)) u)) = (Q p \<or> (\<exists>u. u \<noteq> t \<and> Q (P u)))" for Q :: "fpc \<Rightarrow> bool"
    by (metis fun_upd_apply)
  have a: "(\<forall>u. Q ((P(t := p)) u)) = (Q p \<and> (\<forall>u. u \<noteq> t \<longrightarrow> Q (P u)))" for Q :: "fpc \<Rightarrow> bool"
    by (metis fun_upd_apply)
  have o: "(\<forall>u v. owns ((P(t := p)) u) \<longrightarrow> owns ((P(t := p)) v) \<longrightarrow> u = v) \<longleftrightarrow>
      (\<forall>u v. u \<noteq> t \<longrightarrow> v \<noteq> t \<longrightarrow> owns (P u) \<longrightarrow> owns (P v) \<longrightarrow> u = v) \<and>
      (owns p \<longrightarrow> \<not> (\<exists>u. u \<noteq> t \<and> owns (P u)))"
    by (auto split: if_splits)
  have s: "sleeps p \<Longrightarrow> \<not> is_wake p" by (cases p) auto
  show ?thesis
    unfolding guard_inv_def o e [of owns] e [of is_wake] e [of "\<lambda>q. q = RelXchg"] a [of "local_ok g"]
      a [of "\<lambda>q. sleeps q \<longrightarrow> _"]
    using s by (intro iffI; elim conjE; intro conjI) blast+
qed

text \<open>The same with the facts about the other threads abstracted to truth values.\<close>

definition rest_inv :: "guard_object \<Rightarrow> fpc \<Rightarrow> bool \<Rightarrow> bool \<Rightarrow> bool \<Rightarrow> bool \<Rightarrow> bool" where
  "rest_inv g p other_owner other_rel other_wake other_sleep \<longleftrightarrow>
     init_byte g \<in> {0, 1, 2, 6} \<and>
     (owns p \<longrightarrow> \<not> other_owner) \<and>
     (init_byte g \<in> {2, 6}) = (owns p \<or> other_owner) \<and>
     (guard_byte g \<noteq> 0) = (init_byte g = 1 \<or> p = RelXchg \<or> other_rel) \<and>
     local_ok g p \<and>
     (sleeps p \<longrightarrow> init_byte g = 6 \<or> other_wake) \<and>
     (other_sleep \<longrightarrow> init_byte g = 6 \<or> is_wake p \<or> other_wake)"

lemma guard_inv_rest:
  "guard_inv g (P(t := p)) \<longleftrightarrow>
     (\<forall>u v. u \<noteq> t \<longrightarrow> v \<noteq> t \<longrightarrow> owns (P u) \<longrightarrow> owns (P v) \<longrightarrow> u = v) \<and>
     (\<forall>u. u \<noteq> t \<longrightarrow> local_ok g (P u)) \<and>
     rest_inv g p (\<exists>u. u \<noteq> t \<and> owns (P u)) (\<exists>u. u \<noteq> t \<and> P u = RelXchg)
       (\<exists>u. u \<noteq> t \<and> is_wake (P u)) (\<exists>u. u \<noteq> t \<and> sleeps (P u))"
  unfolding guard_inv_upd rest_inv_def by (simp only: conj_ac)

lemma rest_inv_step:
  assumes "rest_inv g p oth X W S" "X \<longrightarrow> oth" "(p', g') \<in> set (futex_do has_tid self p g)" "is_wake p \<longrightarrow> \<not> S"
  shows "rest_inv g' p' oth X W S"
proof -
  have "init_byte g \<in> {0, 1, 2, 6}" using assms(1) unfolding rest_inv_def by (rule conjunct1)
  then have "init_byte g = 0 \<or> init_byte g = 1 \<or> init_byte g = 2 \<or> init_byte g = 6" by simp
  with assms show ?thesis
    apply (cases p; elim disjE)
    apply (simp_all add: rest_inv_def futex_simps split: if_splits)
    apply ((elim conjE disjE)?; simp; fail)+
    done
qed

lemma guard_byte_mono:
  "(p', g') \<in> set (futex_do has_tid self p g) \<Longrightarrow> guard_byte g' = guard_byte g \<or> guard_byte g' = 1"
  by (cases p) (auto simp: guard_bits split: if_splits)

lemma local_ok_mono:
  "guard_byte g' = guard_byte g \<or> guard_byte g' = 1 \<Longrightarrow> local_ok g p \<Longrightarrow> local_ok g' p"
  by (cases p) auto

lemma guard_inv_step:
  assumes "guard_inv g P" "(p', g') \<in> set (futex_do has_tid self (P t) g)"
    "is_wake (P t) \<Longrightarrow> \<forall>u. \<not> sleeps (P u)"
  shows "guard_inv g' (P(t := p'))"
proof -
  from assms(1) have i: "guard_inv g (P(t := P t))" by simp
  have x: "(\<exists>u. u \<noteq> t \<and> P u = RelXchg) \<longrightarrow> (\<exists>u. u \<noteq> t \<and> owns (P u))"
    by (metis owns.simps(10))
  have "rest_inv g' p' (\<exists>u. u \<noteq> t \<and> owns (P u)) (\<exists>u. u \<noteq> t \<and> P u = RelXchg)
       (\<exists>u. u \<noteq> t \<and> is_wake (P u)) (\<exists>u. u \<noteq> t \<and> sleeps (P u))"
    by (rule rest_inv_step [OF _ x assms(2)]) (use i assms(3) in \<open>simp_all only: guard_inv_rest simp_thms\<close>, blast)
  moreover have "\<forall>u. u \<noteq> t \<longrightarrow> local_ok g' (P u)"
    using i local_ok_mono [OF guard_byte_mono [OF assms(2)]] unfolding guard_inv_rest by blast
  ultimately show ?thesis using i unfolding guard_inv_rest by blast
qed

lemma woken_simps [simp]: "owns (woken p) = owns p" "is_wake (woken p) = is_wake p" "(woken p = RelXchg) = (p = RelXchg)"
  "\<not> sleeps (woken p)"
  by (cases p; simp)+

lemma woken_local_ok: "local_ok g p \<Longrightarrow> local_ok g (woken p)"
  by (cases p) simp_all

lemma woken_inv: "guard_inv g P \<Longrightarrow> guard_inv g (\<lambda>u. woken (P u))"
  unfolding guard_inv_def woken_simps by (metis woken_local_ok woken_simps(4))

definition futex_inv :: "fstate \<Rightarrow> bool" where
  "futex_inv s = guard_inv (guard s) (pc s)"

lemma futex_inv_start: "futex_inv futex_start"
  by (simp add: futex_inv_def guard_inv_def futex_start_def fresh_guard_def)

text \<open>The cases of a step, in the form the proofs use.\<close>

lemma futex_step_cases:
  assumes "futex_step has_tid s s'"
  obtains (abort) t where "\<not> aborted s" "recursion_detected has_tid t (pc s t) (guard s)" "s' = s\<lparr>aborted := True\<rparr>"
  | (go) t p g where "\<not> aborted s \<and> t \<noteq> 0" "\<not> recursion_detected has_tid t (pc s t) (guard s)" "\<not> is_wake (pc s t)"
      "(p, g) \<in> set (futex_do has_tid t (pc s t) (guard s))" "s' = s\<lparr>guard := g, pc := (pc s)(t := p)\<rparr>"
  | (wake) t b where "\<not> aborted s" "pc s t = Wake b"
      "s' = s\<lparr>pc := (\<lambda>u. woken (pc s u))(t := (if b then Done else Idle))\<rparr>"
proof -
  from assms obtain t where t: "s' \<in> set (futex_steps has_tid s t)" unfolding futex_step_def by blast
  then have na: "\<not> aborted s \<and> t \<noteq> 0" by (auto simp: futex_steps_def split: if_splits)
  show thesis
  proof (cases "recursion_detected has_tid t (pc s t) (guard s)")
    case True
    then show thesis using abort t na by (simp add: futex_steps_def)
  next
    case False
    then obtain p g where pg: "(p, g) \<in> set (futex_do has_tid t (pc s t) (guard s))"
      "s' = s\<lparr>guard := g, pc := ((if is_wake (pc s t) then (\<lambda>u. woken (pc s u)) else pc s)(t := p))\<rparr>"
      using t na by (auto simp: futex_steps_def)
    show thesis
    proof (cases "is_wake (pc s t)")
      case True
      then obtain b where b: "pc s t = Wake b" by (cases "pc s t") auto
      show thesis by (rule wake [OF conjunct1 [OF na] b]) (use pg b in simp)
    next
      case nw: False
      show thesis by (rule go [OF na False nw pg(1)]) (use pg nw in simp)
    qed
  qed
qed

lemma futex_inv_step: "futex_inv s \<Longrightarrow> futex_step has_tid s s' \<Longrightarrow> futex_inv s'"
proof (erule futex_step_cases)
  fix t p g
  assume "futex_inv s" "\<not> is_wake (pc s t)" "(p, g) \<in> set (futex_do has_tid t (pc s t) (guard s))"
    "s' = s\<lparr>guard := g, pc := (pc s)(t := p)\<rparr>"
  then show "futex_inv s'" by (auto simp: futex_inv_def intro: guard_inv_step)
next
  fix t b
  assume a: "futex_inv s" "pc s t = Wake b" "s' = s\<lparr>pc := (\<lambda>u. woken (pc s u))(t := (if b then Done else Idle))\<rparr>"
  have "guard_inv (guard s) ((\<lambda>u. woken (pc s u))(t := (if b then Done else Idle)))"
    by (rule guard_inv_step [where g = "guard s" and has_tid = False and self = t]) (use a in \<open>auto simp: futex_inv_def woken_inv\<close>)
  with a show "futex_inv s'" by (simp add: futex_inv_def)
qed (simp add: futex_inv_def)

section \<open>The contract\<close>

definition futex_completed :: "fstate \<Rightarrow> bool" where
  "futex_completed s = (guard_byte (guard s) \<noteq> 0)"

definition futex_initializing :: "fstate \<Rightarrow> u32 \<Rightarrow> bool" where
  "futex_initializing s t = (owns (pc s t) \<and> pc s t \<noteq> RelXchg)"

definition futex_passed :: "fstate \<Rightarrow> u32 \<Rightarrow> bool" where
  "futex_passed s t = (pc s t = Done)"

definition futex_sleeping :: "fstate \<Rightarrow> u32 \<Rightarrow> bool" where
  "futex_sleeping s t = sleeps (pc s t)"

definition futex_waking :: "fstate \<Rightarrow> bool" where
  "futex_waking s = (\<exists>u. is_wake (pc s u) \<or> pc s u = RelXchg)"

lemma completed_not_initializing:
  assumes "futex_inv s" "futex_completed s"
  shows "\<not> futex_initializing s t"
proof
  assume i: "futex_initializing s t"
  from assms(1) have o: "init_byte (guard s) \<in> {2, 6}" and u: "\<And>v. owns (pc s v) \<Longrightarrow> v = t"
    and c: "init_byte (guard s) = 1 \<or> (\<exists>v. pc s v = RelXchg)"
    using i assms(2) unfolding futex_inv_def guard_inv_def futex_initializing_def futex_completed_def by blast+
  from o c obtain v where v: "pc s v = RelXchg" by auto
  then have "v = t" by (intro u) simp
  with i v show False by (simp add: futex_initializing_def)
qed

lemma futex_completed_stable: "futex_step has_tid s s' \<Longrightarrow> futex_completed s \<Longrightarrow> futex_completed s'"
  by (erule futex_step_cases) (auto simp: futex_completed_def dest: guard_byte_mono)

interpretation futex: once_guard "futex_step has_tid" futex_start futex_inv futex_initializing futex_passed
  futex_completed futex_sleeping futex_waking for has_tid
proof
  show "futex_inv futex_start" by (rule futex_inv_start)
  show "futex_inv s \<Longrightarrow> futex_step has_tid s s' \<Longrightarrow> futex_inv s'" for s s' by (rule futex_inv_step)
  show "futex_inv s \<Longrightarrow> futex_initializing s t \<Longrightarrow> futex_initializing s u \<Longrightarrow> t = u" for s t u
    unfolding futex_inv_def guard_inv_def futex_initializing_def by blast
  show "futex_inv s \<Longrightarrow> futex_passed s t \<Longrightarrow> futex_completed s" for s t
    unfolding futex_inv_def guard_inv_def futex_passed_def futex_completed_def by (metis local_ok.simps(5) zero_neq_one)
  show "futex_inv s \<Longrightarrow> futex_completed s \<Longrightarrow> \<not> futex_initializing s t" for s t
    by (rule completed_not_initializing)
  show "futex_inv s \<Longrightarrow> futex_step has_tid s s' \<Longrightarrow> futex_completed s \<Longrightarrow> futex_completed s'" for s s'
    by (rule futex_completed_stable)
  show "futex_inv s \<Longrightarrow> futex_sleeping s t \<Longrightarrow> (\<exists>u. futex_initializing s u) \<or> futex_waking s" for s t
    unfolding futex_inv_def guard_inv_def futex_initializing_def futex_sleeping_def futex_waking_def by blast
qed

end
