(* ===== verification/MutexGuard.thy ===== *)
theory MutexGuard
  imports GuardProtocol
begin

text \<open>
  \<open>InitByteGlobalMutex\<close> of \<open>libcxxabi/src/cxa_guard_impl.h\<close> as a transition system: one mutex and one
  condition variable for all guards. Threads behave as in \<open>FutexGuard\<close>; every access to the guard
  object, every mutex and every condition variable operation is one step. The operations of the mutex and the
  condition variable may fail where the code checks for it, and the wait may end for no reason.
\<close>

section \<open>The model\<close>

text \<open>\<open>MLock p\<close> waits for the mutex and goes on at \<open>p\<close>, \<open>MUnlock p\<close> gives it back and goes on at \<open>p\<close>. The
  flag of the pcs of acquire tells a call made by the initializer itself. \<open>RelSet\<close> and \<open>AbtSet\<close> carry the
  local variable \<open>has_waiting\<close>.\<close>

datatype mpc = MIdle | MLoad bool | MLock mpc | MUnlock mpc | Check bool | Test bool | SetWaiting bool
  | CondWait bool | CondSleep bool | Decide bool | SetTid | SetPending | MInit | MRelGuard | RelRead
  | RelSet bool | MAbtTid | AbtRead | AbtSet bool | Broadcast bool | MDone

record mstate =
  mguard :: guard_object
  mpc :: "u32 \<Rightarrow> mpc"
  holder :: "u32 option"
  maborted :: bool

definition mutex_start :: mstate where
  "mutex_start = \<lparr>mguard = fresh_guard, mpc = (\<lambda>t. MIdle), holder = None, maborted = False\<rparr>"

definition returns_init_done :: "bool \<Rightarrow> mpc" where
  "returns_init_done r = (if r then MInit else MDone)"

fun notified :: "mpc \<Rightarrow> mpc" where
  "notified (CondSleep r) = MLock (Test r)"
| "notified p = p"

text \<open>One step of thread \<open>t\<close>, as new program counter, guard object and holder of the mutex.\<close>

fun mutex_do :: "bool \<Rightarrow> u32 \<Rightarrow> mpc \<Rightarrow> guard_object \<Rightarrow> u32 option \<Rightarrow>
    (mpc \<times> guard_object \<times> u32 option) list" where
  "mutex_do has_tid self MIdle g h = [(MLoad False, g, h)]"
| "mutex_do has_tid self (MLoad r) g h =
     [(if guard_byte g \<noteq> UNSET then returns_init_done r else MLock (Check r), g, h)]"
| "mutex_do has_tid self (MLock p) g h = (if h = None then [(p, g, Some self)] else [])"
| "mutex_do has_tid self (MUnlock p) g h = [(p, g, None)]"
| "mutex_do has_tid self (Check r) g h = [(Test r, g, h)]"
| "mutex_do has_tid self (Test r) g h =
     [(if init_byte g AND PENDING_BIT \<noteq> 0 then SetWaiting r else Decide r, g, h)]"
| "mutex_do has_tid self (SetWaiting r) g h =
     [(CondWait r, g\<lparr>init_byte := init_byte g OR WAITING_BIT\<rparr>, h)]"
| "mutex_do has_tid self (CondWait r) g h = [(CondSleep r, g, None)]"
| "mutex_do has_tid self (CondSleep r) g h = [(MLock (Test r), g, h)]"
| "mutex_do has_tid self (Decide r) g h =
     [(if init_byte g = COMPLETE_BIT then MUnlock (returns_init_done r) else SetTid, g, h)]"
| "mutex_do has_tid self SetTid g h =
     [(SetPending, if has_tid then g\<lparr>guard_thread_id := self\<rparr> else g, h)]"
| "mutex_do has_tid self SetPending g h = [(MUnlock MInit, g\<lparr>init_byte := PENDING_BIT\<rparr>, h)]"
| "mutex_do has_tid self MInit g h = [(MRelGuard, g, h), (MLock MAbtTid, g, h), (MLoad True, g, h)]"
| "mutex_do has_tid self MRelGuard g h = [(MLock RelRead, g\<lparr>guard_byte := COMPLETE_BIT\<rparr>, h)]"
| "mutex_do has_tid self RelRead g h = [(RelSet (init_byte g AND WAITING_BIT \<noteq> 0), g, h)]"
| "mutex_do has_tid self (RelSet has_waiting) g h =
     [(MUnlock (if has_waiting then Broadcast True else MDone), g\<lparr>init_byte := COMPLETE_BIT\<rparr>, h)]"
| "mutex_do has_tid self MAbtTid g h = [(AbtRead, if has_tid then g\<lparr>guard_thread_id := 0\<rparr> else g, h)]"
| "mutex_do has_tid self AbtRead g h = [(AbtSet (init_byte g AND WAITING_BIT \<noteq> 0), g, h)]"
| "mutex_do has_tid self (AbtSet has_waiting) g h =
     [(MUnlock (if has_waiting then Broadcast False else MIdle), g\<lparr>init_byte := UNSET\<rparr>, h)]"
| "mutex_do has_tid self (Broadcast b) g h = [(if b then MDone else MIdle, g, h)]"
| "mutex_do has_tid self MDone g h = [(MLoad False, g, h)]"

fun recursion_found :: "bool \<Rightarrow> u32 \<Rightarrow> mpc \<Rightarrow> guard_object \<Rightarrow> bool" where
  "recursion_found has_tid self (Check r) g =
     (has_tid \<and> init_byte g AND PENDING_BIT \<noteq> 0 \<and> guard_thread_id g = self)"
| "recursion_found has_tid self p g = False"

fun may_fail :: "mpc \<Rightarrow> bool" where
  "may_fail (MLock p) = True"
| "may_fail (MUnlock p) = True"
| "may_fail (Broadcast b) = True"
| "may_fail p = False"

fun is_broadcast :: "mpc \<Rightarrow> bool" where
  "is_broadcast (Broadcast b) = True"
| "is_broadcast p = False"

definition mutex_steps :: "bool \<Rightarrow> mstate \<Rightarrow> u32 \<Rightarrow> mstate list" where
  "mutex_steps has_tid s t =
     (if maborted s \<or> t = 0 then []
      else if recursion_found has_tid t (mpc s t) (mguard s) then [s\<lparr>maborted := True\<rparr>]
      else map (\<lambda>(p, g, h). s\<lparr>mguard := g, holder := h,
          mpc := ((if is_broadcast (mpc s t) then (\<lambda>u. notified (mpc s u)) else mpc s)(t := p))\<rparr>)
        (mutex_do has_tid t (mpc s t) (mguard s) (holder s)) @
        (if may_fail (mpc s t) then [s\<lparr>maborted := True\<rparr>] else []))"

definition mutex_step :: "bool \<Rightarrow> mstate \<Rightarrow> mstate \<Rightarrow> bool" where
  "mutex_step has_tid s s' = (\<exists>t. s' \<in> set (mutex_steps has_tid s t))"

section \<open>The invariant\<close>

text \<open>\<open>m_owns p\<close>: the thread holds the pending guard; \<open>in_section p\<close>: it holds the mutex.\<close>

fun m_owns :: "mpc \<Rightarrow> bool" where
  "m_owns (MLoad r) = r"
| "m_owns (MLock p) = m_owns p"
| "m_owns (MUnlock p) = m_owns p"
| "m_owns (Check r) = r"
| "m_owns (Test r) = r"
| "m_owns (SetWaiting r) = r"
| "m_owns (CondWait r) = r"
| "m_owns (CondSleep r) = r"
| "m_owns (Decide r) = r"
| "m_owns MInit = True"
| "m_owns MRelGuard = True"
| "m_owns RelRead = True"
| "m_owns (RelSet w) = True"
| "m_owns MAbtTid = True"
| "m_owns AbtRead = True"
| "m_owns (AbtSet w) = True"
| "m_owns p = False"

fun in_section :: "mpc \<Rightarrow> bool" where
  "in_section (MUnlock p) = True"
| "in_section (Check r) = True"
| "in_section (Test r) = True"
| "in_section (SetWaiting r) = True"
| "in_section (CondWait r) = True"
| "in_section (Decide r) = True"
| "in_section SetTid = True"
| "in_section SetPending = True"
| "in_section RelRead = True"
| "in_section (RelSet w) = True"
| "in_section MAbtTid = True"
| "in_section AbtRead = True"
| "in_section (AbtSet w) = True"
| "in_section p = False"

fun m_releasing :: "mpc \<Rightarrow> bool" where
  "m_releasing (MLock p) = m_releasing p"
| "m_releasing RelRead = True"
| "m_releasing (RelSet w) = True"
| "m_releasing p = False"

fun m_sleeps :: "mpc \<Rightarrow> bool" where
  "m_sleeps (CondSleep r) = True"
| "m_sleeps p = False"

fun m_wakes :: "mpc \<Rightarrow> bool" where
  "m_wakes (MUnlock p) = is_broadcast p"
| "m_wakes p = is_broadcast p"

fun lock_target :: "mpc \<Rightarrow> bool" where
  "lock_target (Check r) = True"
| "lock_target (Test r) = True"
| "lock_target RelRead = True"
| "lock_target MAbtTid = True"
| "lock_target p = False"

fun unlock_target :: "mpc \<Rightarrow> bool" where
  "unlock_target MIdle = True"
| "unlock_target MInit = True"
| "unlock_target MDone = True"
| "unlock_target (Broadcast b) = True"
| "unlock_target p = False"

fun m_local :: "guard_object \<Rightarrow> mpc \<Rightarrow> bool" where
  "m_local g (MLock p) = (lock_target p \<and> (m_releasing p \<longrightarrow> guard_byte g \<noteq> 0))"
| "m_local g (MUnlock p) = (unlock_target p \<and> (p \<in> {MDone, Broadcast True} \<longrightarrow> guard_byte g \<noteq> 0))"
| "m_local g (SetWaiting r) = (init_byte g \<in> {2, 6})"
| "m_local g (CondWait r) = (init_byte g = 6)"
| "m_local g (Decide r) = (init_byte g \<in> {0, 1})"
| "m_local g SetTid = (init_byte g = 0)"
| "m_local g SetPending = (init_byte g = 0)"
| "m_local g RelRead = (guard_byte g \<noteq> 0)"
| "m_local g (RelSet w) = (guard_byte g \<noteq> 0 \<and> w = (init_byte g = 6))"
| "m_local g (AbtSet w) = (w = (init_byte g = 6))"
| "m_local g (Broadcast b) = (b \<longrightarrow> guard_byte g \<noteq> 0)"
| "m_local g MDone = (guard_byte g \<noteq> 0)"
| "m_local g p = True"

definition m_inv :: "guard_object \<Rightarrow> (u32 \<Rightarrow> mpc) \<Rightarrow> u32 option \<Rightarrow> bool" where
  "m_inv g P h \<longleftrightarrow>
     init_byte g \<in> {0, 1, 2, 6} \<and>
     (\<forall>t u. m_owns (P t) \<longrightarrow> m_owns (P u) \<longrightarrow> t = u) \<and>
     (init_byte g \<in> {2, 6}) = (\<exists>t. m_owns (P t)) \<and>
     (guard_byte g \<noteq> 0) = (init_byte g = 1 \<or> (\<exists>t. m_releasing (P t))) \<and>
     (\<forall>t. m_local g (P t)) \<and>
     (\<forall>t. m_sleeps (P t) \<longrightarrow> init_byte g = 6 \<or> (\<exists>u. m_wakes (P u))) \<and>
     (\<forall>t. in_section (P t) = (h = Some t))"

definition m_rest :: "guard_object \<Rightarrow> mpc \<Rightarrow> bool \<Rightarrow> bool \<Rightarrow> bool \<Rightarrow> bool \<Rightarrow> bool" where
  "m_rest g p other_owner other_rel other_wake other_sleep \<longleftrightarrow>
     init_byte g \<in> {0, 1, 2, 6} \<and>
     (m_owns p \<longrightarrow> \<not> other_owner) \<and>
     (init_byte g \<in> {2, 6}) = (m_owns p \<or> other_owner) \<and>
     (guard_byte g \<noteq> 0) = (init_byte g = 1 \<or> m_releasing p \<or> other_rel) \<and>
     m_local g p \<and>
     (m_sleeps p \<longrightarrow> init_byte g = 6 \<or> other_wake) \<and>
     (other_sleep \<longrightarrow> init_byte g = 6 \<or> m_wakes p \<or> other_wake)"

lemma m_sleeps_not_wakes: "m_sleeps p \<Longrightarrow> \<not> m_wakes p"
  by (cases p) simp_all

lemma m_inv_upd:
  "m_inv g (P(t := p)) h \<longleftrightarrow>
     (\<forall>u v. u \<noteq> t \<longrightarrow> v \<noteq> t \<longrightarrow> m_owns (P u) \<longrightarrow> m_owns (P v) \<longrightarrow> u = v) \<and>
     (\<forall>u. u \<noteq> t \<longrightarrow> m_local g (P u)) \<and>
     m_rest g p (\<exists>u. u \<noteq> t \<and> m_owns (P u)) (\<exists>u. u \<noteq> t \<and> m_releasing (P u))
       (\<exists>u. u \<noteq> t \<and> m_wakes (P u)) (\<exists>u. u \<noteq> t \<and> m_sleeps (P u)) \<and>
     in_section p = (h = Some t) \<and> (\<forall>u. u \<noteq> t \<longrightarrow> in_section (P u) = (h = Some u))"
proof -
  have e: "(\<exists>u. Q ((P(t := p)) u)) = (Q p \<or> (\<exists>u. u \<noteq> t \<and> Q (P u)))" for Q :: "mpc \<Rightarrow> bool"
    by (metis fun_upd_apply)
  have a: "(\<forall>u. Q u ((P(t := p)) u)) = (Q t p \<and> (\<forall>u. u \<noteq> t \<longrightarrow> Q u (P u)))" for Q :: "u32 \<Rightarrow> mpc \<Rightarrow> bool"
    by (metis fun_upd_apply)
  have o: "(\<forall>u v. m_owns ((P(t := p)) u) \<longrightarrow> m_owns ((P(t := p)) v) \<longrightarrow> u = v) \<longleftrightarrow>
      (\<forall>u v. u \<noteq> t \<longrightarrow> v \<noteq> t \<longrightarrow> m_owns (P u) \<longrightarrow> m_owns (P v) \<longrightarrow> u = v) \<and>
      (m_owns p \<longrightarrow> \<not> (\<exists>u. u \<noteq> t \<and> m_owns (P u)))"
    by (auto split: if_splits)
  show ?thesis
    unfolding m_inv_def m_rest_def o e [of m_owns] e [of m_wakes] e [of m_releasing] a [of "\<lambda>u. m_local g"]
      a [of "\<lambda>u q. m_sleeps q \<longrightarrow> _"] a [of "\<lambda>u q. in_section q = (h = Some u)"]
    using m_sleeps_not_wakes [of p] by (intro iffI; elim conjE; intro conjI) blast+
qed

lemmas mutex_simps = returns_init_done_def guard_bits

lemma lock_facts: "m_local g (MLock p) \<Longrightarrow> m_local g p \<and> \<not> m_sleeps p \<and> \<not> m_wakes p \<and> in_section p"
  by (cases p) simp_all

lemma unlock_facts:
  "m_local g (MUnlock p) \<Longrightarrow>
   m_local g p \<and> \<not> m_sleeps p \<and> \<not> m_releasing p \<and> m_wakes p = is_broadcast p \<and> \<not> in_section p"
  by (cases p) auto

lemma m_rest_step:
  assumes "m_rest g p oth X W S" "X \<longrightarrow> oth" "(p', g', h') \<in> set (mutex_do has_tid self p g h)"
    "is_broadcast p \<longrightarrow> \<not> S"
  shows "m_rest g' p' oth X W S"
proof -
  have "init_byte g \<in> {0, 1, 2, 6}" using assms(1) unfolding m_rest_def by (rule conjunct1)
  then have i: "init_byte g = 0 \<or> init_byte g = 1 \<or> init_byte g = 2 \<or> init_byte g = 6" by simp
  consider (lock) q where "p = MLock q" | (unlock) q where "p = MUnlock q" | (other) "\<forall>q. p \<noteq> MLock q \<and> p \<noteq> MUnlock q"
    by blast
  then show ?thesis
  proof cases
    case lock
    then have "m_local g (MLock q)" "p' = q" "g' = g" using assms(1,3) by (simp_all add: m_rest_def split: if_splits)
    with assms(1) lock lock_facts [of g q] show ?thesis by (simp add: m_rest_def del: insert_iff)
  next
    case unlock
    have "m_local g p" using assms(1) unfolding m_rest_def by (elim conjE)
    with unlock have "m_local g (MUnlock q)" "p' = q" "g' = g" using assms(3) by simp_all
    with assms(1) unlock unlock_facts [of g q] show ?thesis by (simp add: m_rest_def del: insert_iff)
  next
    case other
    with i assms show ?thesis
      apply (cases p; elim disjE)
      apply (simp_all add: m_rest_def mutex_simps split: if_splits)
      apply ((elim conjE disjE)?; simp; fail)+
      done
  qed
qed

text \<open>A step changes the init byte and enters a section only under the mutex.\<close>

lemma m_frame:
  "(p', g', h') \<in> set (mutex_do has_tid self p g h) \<Longrightarrow>
   (guard_byte g' = guard_byte g \<or> guard_byte g' \<noteq> 0) \<and> (init_byte g' = init_byte g \<or> in_section p)"
  by (cases p) (auto simp: guard_bits split: if_splits)

lemma m_local_mono:
  assumes "guard_byte g' = guard_byte g \<or> guard_byte g' \<noteq> 0" "init_byte g' = init_byte g \<or> \<not> in_section p"
    "m_local g p"
  shows "m_local g' p"
  using assms by (cases p) auto

lemma m_holder_step:
  "(p', g', h') \<in> set (mutex_do has_tid self p g h) \<Longrightarrow> m_local g p \<Longrightarrow> in_section p = (h = Some self) \<Longrightarrow>
   in_section p' = (h' = Some self) \<and> (\<forall>u. u \<noteq> self \<longrightarrow> (h' = Some u) = (h = Some u))"
  using lock_facts [of g p'] unlock_facts [of g p']
  by (cases p) (auto simp: mutex_simps split: if_splits)

lemma m_inv_step:
  assumes "m_inv g P h" "(p', g', h') \<in> set (mutex_do has_tid t (P t) g h)"
    "is_broadcast (P t) \<Longrightarrow> \<forall>u. \<not> m_sleeps (P u)"
  shows "m_inv g' (P(t := p')) h'"
proof -
  have "m_inv g (P(t := P t)) h" using assms(1) by simp
  note i = this [unfolded m_inv_upd]
  have x: "(\<exists>u. u \<noteq> t \<and> m_releasing (P u)) \<longrightarrow> (\<exists>u. u \<noteq> t \<and> m_owns (P u))"
  proof -
    have "m_releasing p \<Longrightarrow> m_owns p" for p by (induction p) simp_all
    then show ?thesis by blast
  qed
  have r: "m_rest g' p' (\<exists>u. u \<noteq> t \<and> m_owns (P u)) (\<exists>u. u \<noteq> t \<and> m_releasing (P u))
       (\<exists>u. u \<noteq> t \<and> m_wakes (P u)) (\<exists>u. u \<noteq> t \<and> m_sleeps (P u))"
    by (rule m_rest_step [OF _ x assms(2)]) (use i assms(3) in blast)+
  have l: "m_local g (P t)" "in_section (P t) = (h = Some t)" using i by (simp_all add: m_rest_def)
  note h = m_holder_step [OF assms(2) l]
  have "m_local g' (P u)" if "u \<noteq> t" for u
  proof (rule m_local_mono)
    show "guard_byte g' = guard_byte g \<or> guard_byte g' \<noteq> 0" using m_frame [OF assms(2)] by blast
    show "m_local g (P u)" using i that by blast
    have "in_section (P t) \<Longrightarrow> \<not> in_section (P u)" using i that l(2) by auto
    then show "init_byte g' = init_byte g \<or> \<not> in_section (P u)" using m_frame [OF assms(2)] by blast
  qed
  with r h i show ?thesis unfolding m_inv_upd by blast
qed

lemma notified_simps [simp]: "m_owns (notified p) = m_owns p" "m_releasing (notified p) = m_releasing p"
  "m_wakes (notified p) = m_wakes p" "in_section (notified p) = in_section p" "\<not> m_sleeps (notified p)"
  by (cases p; simp)+

lemma notified_local: "m_local g p \<Longrightarrow> m_local g (notified p)"
  by (cases p) simp_all

lemma notified_inv: "m_inv g P h \<Longrightarrow> m_inv g (\<lambda>u. notified (P u)) h"
  unfolding m_inv_def notified_simps by (metis notified_local notified_simps(5))

definition mutex_inv :: "mstate \<Rightarrow> bool" where
  "mutex_inv s = m_inv (mguard s) (mpc s) (holder s)"

lemma mutex_inv_start: "mutex_inv mutex_start"
  by (simp add: mutex_inv_def m_inv_def mutex_start_def fresh_guard_def)

lemma mutex_step_cases:
  assumes "mutex_step has_tid s s'"
  obtains (abort) "\<not> maborted s" "s' = s\<lparr>maborted := True\<rparr>"
  | (go) t p g h where "\<not> maborted s \<and> t \<noteq> 0" "\<not> recursion_found has_tid t (mpc s t) (mguard s)" "\<not> is_broadcast (mpc s t)"
      "(p, g, h) \<in> set (mutex_do has_tid t (mpc s t) (mguard s) (holder s))"
      "s' = s\<lparr>mguard := g, holder := h, mpc := (mpc s)(t := p)\<rparr>"
  | (wake) t b where "\<not> maborted s" "mpc s t = Broadcast b"
      "s' = s\<lparr>mpc := (\<lambda>u. notified (mpc s u))(t := (if b then MDone else MIdle))\<rparr>"
proof -
  from assms obtain t where t: "s' \<in> set (mutex_steps has_tid s t)" unfolding mutex_step_def by blast
  then have na: "\<not> maborted s \<and> t \<noteq> 0" by (auto simp: mutex_steps_def split: if_splits)
  show thesis
  proof (cases "s' = s\<lparr>maborted := True\<rparr>")
    case True
    then show thesis using abort na by simp
  next
    case False
    then have nr: "\<not> recursion_found has_tid t (mpc s t) (mguard s)"
      using t na by (auto simp: mutex_steps_def split: if_splits)
    obtain p g h where pg: "(p, g, h) \<in> set (mutex_do has_tid t (mpc s t) (mguard s) (holder s))"
      "s' = s\<lparr>mguard := g, holder := h,
         mpc := ((if is_broadcast (mpc s t) then (\<lambda>u. notified (mpc s u)) else mpc s)(t := p))\<rparr>"
      using t na nr False by (auto simp: mutex_steps_def split: if_splits)
    show thesis
    proof (cases "is_broadcast (mpc s t)")
      case True
      then obtain b where b: "mpc s t = Broadcast b" by (cases "mpc s t") auto
      show thesis by (rule wake [OF conjunct1 [OF na] b]) (use pg b in simp)
    next
      case nw: False
      show thesis by (rule go [OF na nr nw pg(1)]) (use pg nw in simp)
    qed
  qed
qed

lemma mutex_inv_step: "mutex_inv s \<Longrightarrow> mutex_step has_tid s s' \<Longrightarrow> mutex_inv s'"
proof (erule mutex_step_cases)
  fix t p g h
  assume "mutex_inv s" "\<not> is_broadcast (mpc s t)"
    "(p, g, h) \<in> set (mutex_do has_tid t (mpc s t) (mguard s) (holder s))"
    "s' = s\<lparr>mguard := g, holder := h, mpc := (mpc s)(t := p)\<rparr>"
  then show "mutex_inv s'" by (auto simp: mutex_inv_def intro: m_inv_step)
next
  fix t b
  assume a: "mutex_inv s" "mpc s t = Broadcast b"
    "s' = s\<lparr>mpc := (\<lambda>u. notified (mpc s u))(t := (if b then MDone else MIdle))\<rparr>"
  have "m_inv (mguard s) ((\<lambda>u. notified (mpc s u))(t := (if b then MDone else MIdle))) (holder s)"
    by (rule m_inv_step [where g = "mguard s" and h = "holder s" and has_tid = False])
      (use a in \<open>auto simp: mutex_inv_def notified_inv\<close>)
  with a show "mutex_inv s'" by (simp add: mutex_inv_def)
qed (simp add: mutex_inv_def)

section \<open>The contract\<close>

definition mutex_completed :: "mstate \<Rightarrow> bool" where
  "mutex_completed s = (guard_byte (mguard s) \<noteq> 0)"

definition mutex_initializing :: "mstate \<Rightarrow> u32 \<Rightarrow> bool" where
  "mutex_initializing s t = (m_owns (mpc s t) \<and> \<not> m_releasing (mpc s t))"

definition mutex_passed :: "mstate \<Rightarrow> u32 \<Rightarrow> bool" where
  "mutex_passed s t = (mpc s t = MDone)"

definition mutex_sleeping :: "mstate \<Rightarrow> u32 \<Rightarrow> bool" where
  "mutex_sleeping s t = m_sleeps (mpc s t)"

definition mutex_waking :: "mstate \<Rightarrow> bool" where
  "mutex_waking s = (\<exists>u. m_wakes (mpc s u) \<or> m_releasing (mpc s u))"

lemma m_releasing_owns: "m_releasing p \<Longrightarrow> m_owns p"
  by (induction p) simp_all

lemma mutex_completed_over:
  assumes "mutex_inv s" "mutex_completed s"
  shows "\<not> mutex_initializing s t"
proof
  assume i: "mutex_initializing s t"
  from assms(1) have o: "init_byte (mguard s) \<in> {2, 6}" and u: "\<And>v. m_owns (mpc s v) \<Longrightarrow> v = t"
    and c: "init_byte (mguard s) = 1 \<or> (\<exists>v. m_releasing (mpc s v))"
    using i assms(2) unfolding mutex_inv_def m_inv_def mutex_initializing_def mutex_completed_def by blast+
  from o c obtain v where v: "m_releasing (mpc s v)" by auto
  then have "v = t" by (intro u m_releasing_owns)
  with i v show False by (simp add: mutex_initializing_def)
qed

interpretation mutex: once_guard "mutex_step has_tid" mutex_start mutex_inv mutex_initializing mutex_passed
  mutex_completed mutex_sleeping mutex_waking for has_tid
proof
  show "mutex_inv mutex_start" by (rule mutex_inv_start)
  show "mutex_inv s \<Longrightarrow> mutex_step has_tid s s' \<Longrightarrow> mutex_inv s'" for s s' by (rule mutex_inv_step)
  show "mutex_inv s \<Longrightarrow> mutex_initializing s t \<Longrightarrow> mutex_initializing s u \<Longrightarrow> t = u" for s t u
    unfolding mutex_inv_def m_inv_def mutex_initializing_def by blast
  show "mutex_inv s \<Longrightarrow> mutex_passed s t \<Longrightarrow> mutex_completed s" for s t
    unfolding mutex_inv_def m_inv_def mutex_passed_def mutex_completed_def by (metis m_local.simps(12))
  show "mutex_inv s \<Longrightarrow> mutex_completed s \<Longrightarrow> \<not> mutex_initializing s t" for s t
    by (rule mutex_completed_over)
  show "mutex_inv s \<Longrightarrow> mutex_step has_tid s s' \<Longrightarrow> mutex_completed s \<Longrightarrow> mutex_completed s'" for s s'
    by (erule mutex_step_cases) (auto simp: mutex_completed_def dest: m_frame)
  show "mutex_inv s \<Longrightarrow> mutex_sleeping s t \<Longrightarrow> (\<exists>u. mutex_initializing s u) \<or> mutex_waking s" for s t
    unfolding mutex_inv_def m_inv_def mutex_initializing_def mutex_sleeping_def mutex_waking_def by blast
qed

end
