(* ===== verification/GuardProperties.thy ===== *)
theory GuardProperties
  imports FutexGuard MutexGuard
begin

text \<open>
  What the implementations of the guards of function-local statics guarantee. Exclusion, publication and wake-up
  come from the interpretations of \<open>once_guard\<close>; the thread id word needs invariants of its own.
\<close>

section \<open>The thread id of the futex guard\<close>

fun tid_local :: "u32 \<Rightarrow> u32 \<Rightarrow> fpc \<Rightarrow> bool" where
  "tid_local w self (Load r) = (r \<longrightarrow> w = self)"
| "tid_local w self (Cas r) = (r \<longrightarrow> w = self)"
| "tid_local w self (CheckTid r v) = (r = (w = self))"
| "tid_local w self (CasWait r v) = (\<not> r)"
| "tid_local w self (FWait r) = (\<not> r)"
| "tid_local w self (Sleep r) = (\<not> r)"
| "tid_local w self Init = (w = self)"
| "tid_local w self RelGuard = (w = self)"
| "tid_local w self AbtTid = (w = self)"
| "tid_local w self AbtXchg = (w = 0)"
| "tid_local w self p = True"

definition tid_inv :: "fstate \<Rightarrow> bool" where
  "tid_inv s \<longleftrightarrow> (\<forall>t. t \<noteq> 0 \<longrightarrow> tid_local (guard_thread_id (guard s)) t (pc s t) \<and>
     (\<not> owns (pc s t) \<longrightarrow> init_byte (guard s) \<noteq> 1 \<longrightarrow> guard_thread_id (guard s) \<noteq> t))"

text \<open>The step of one thread, in what it does to its own facts and to those of the others.\<close>

lemma tid_own_step:
  assumes "(p', g') \<in> set (futex_do True self p g)" "\<not> recursion_detected True self p g"
    "tid_local (guard_thread_id g) self p" "\<not> owns p \<longrightarrow> init_byte g \<noteq> 1 \<longrightarrow> guard_thread_id g \<noteq> self"
    "self \<noteq> 0" "owns p \<longrightarrow> init_byte g \<in> {2, 6}" "p = Load True \<longrightarrow> guard_byte g = 0"
    "local_ok g p"
  shows "tid_local (guard_thread_id g') self p' \<and>
    (\<not> owns p' \<longrightarrow> init_byte g' \<noteq> 1 \<longrightarrow> guard_thread_id g' \<noteq> self)"
  using assms by (cases p) (auto simp: futex_simps split: if_splits)

lemma tid_other_step:
  "(p', g') \<in> set (futex_do True self p g) \<Longrightarrow>
   guard_thread_id g' = guard_thread_id g \<or> (guard_thread_id g' \<in> {0, self} \<and> owns p)"
  by (cases p) (auto split: if_splits)

lemma tid_local_other: "w' \<noteq> other \<Longrightarrow> \<not> owns p \<Longrightarrow> tid_local w other p \<Longrightarrow> tid_local w' other p"
  by (cases p) auto

lemma init_byte_complete_stays:
  "(p', g') \<in> set (futex_do has_tid self p g) \<Longrightarrow> init_byte g = 1 \<Longrightarrow> \<not> owns p \<Longrightarrow> local_ok g p \<Longrightarrow> init_byte g' = 1"
  by (cases p) (auto simp: futex_simps split: if_splits)

lemma futex_inv_owner: "futex_inv s \<Longrightarrow> owns (pc s t) \<Longrightarrow> init_byte (guard s) \<in> {2, 6}"
  unfolding futex_inv_def guard_inv_def by blast

lemma futex_inv_unique: "futex_inv s \<Longrightarrow> owns (pc s t) \<Longrightarrow> owns (pc s u) \<Longrightarrow> t = u"
  unfolding futex_inv_def guard_inv_def by blast

lemma futex_inv_local: "futex_inv s \<Longrightarrow> local_ok (guard s) (pc s t)"
  unfolding futex_inv_def guard_inv_def by blast

lemma futex_inv_recursing:
  assumes "futex_inv s" "pc s t = Load True"
  shows "guard_byte (guard s) = 0"
  using completed_not_initializing [OF assms(1), of t] assms(2)
  by (auto simp: futex_completed_def futex_initializing_def)

lemma tid_inv_step:
  assumes "futex_inv s" "tid_inv s" "futex_step True s s'"
  shows "tid_inv s'"
  using assms(3)
proof (cases rule: futex_step_cases)
  case abort
  with assms(2) show ?thesis by (simp add: tid_inv_def)
next
  case (go t p g)
  have self: "tid_local (guard_thread_id g) t p \<and>
      (\<not> owns p \<longrightarrow> init_byte g \<noteq> 1 \<longrightarrow> guard_thread_id g \<noteq> t)"
    by (rule tid_own_step [OF go(4) go(2)])
      (use assms(1,2) go(1) futex_inv_owner futex_inv_recursing futex_inv_local in \<open>auto simp: tid_inv_def\<close>)
  have other: "tid_local (guard_thread_id g) u (pc s u) \<and>
      (\<not> owns (pc s u) \<longrightarrow> init_byte g \<noteq> 1 \<longrightarrow> guard_thread_id g \<noteq> u)" if "u \<noteq> t" "u \<noteq> 0" for u
  proof -
    have k: "tid_local (guard_thread_id (guard s)) u (pc s u)"
      "\<not> owns (pc s u) \<longrightarrow> init_byte (guard s) \<noteq> 1 \<longrightarrow> guard_thread_id (guard s) \<noteq> u"
      using assms(2) that by (simp_all add: tid_inv_def)
    from tid_other_step [OF go(4)] show ?thesis
    proof
      assume e: "guard_thread_id g = guard_thread_id (guard s)"
      have "init_byte (guard s) \<noteq> 1" if "init_byte g \<noteq> 1"
      proof
        assume o: "init_byte (guard s) = 1"
        then have "\<not> owns (pc s t)" using futex_inv_owner [OF assms(1), of t] by auto
        from init_byte_complete_stays [OF go(4) o this futex_inv_local [OF assms(1)]] that show False by simp
      qed
      with k e show ?thesis by auto
    next
      assume c: "guard_thread_id g \<in> {0, t} \<and> owns (pc s t)"
      then have "\<not> owns (pc s u)" using futex_inv_unique [OF assms(1)] that by blast
      moreover have "guard_thread_id g \<noteq> u" using c that by auto
      ultimately show ?thesis using tid_local_other k(1) by blast
    qed
  qed
  from self other go(5) show ?thesis by (simp add: tid_inv_def)
next
  case (wake t b)
  have "tid_local w self p \<Longrightarrow> tid_local w self (woken p)" for w self p by (cases p) auto
  moreover have "pc s t = Wake b" by (rule wake(2))
  ultimately show ?thesis using assms(2) wake(3) unfolding tid_inv_def by auto
qed

lemma tid_inv_reached:
  assumes "reached (futex_step True) futex_start s"
  shows "tid_inv s"
  using assms
proof (induction rule: reached.induct)
  case reached_start
  then show ?case by (simp add: tid_inv_def futex_start_def fresh_guard_def)
next
  case (reached_step s s')
  then show ?case using tid_inv_step futex.reached_inv by blast
qed

section \<open>The thread id of the mutex guard\<close>

text \<open>\<open>marked p\<close>: the thread has written its id and not yet erased it.\<close>

fun marked :: "mpc \<Rightarrow> bool" where
  "marked (MLoad r) = r"
| "marked (MLock p) = (marked p \<or> p = MAbtTid)"
| "marked (MUnlock p) = marked p"
| "marked (Check r) = r"
| "marked SetPending = True"
| "marked MInit = True"
| "marked MRelGuard = True"
| "marked MAbtTid = True"
| "marked p = False"

fun no_recursion :: "mpc \<Rightarrow> bool" where
  "no_recursion (MLock p) = no_recursion p"
| "no_recursion (MUnlock p) = no_recursion p"
| "no_recursion (Test r) = (\<not> r)"
| "no_recursion (SetWaiting r) = (\<not> r)"
| "no_recursion (CondWait r) = (\<not> r)"
| "no_recursion (CondSleep r) = (\<not> r)"
| "no_recursion (Decide r) = (\<not> r)"
| "no_recursion p = True"

definition m_tid_local :: "guard_object \<Rightarrow> u32 \<Rightarrow> mpc \<Rightarrow> bool" where
  "m_tid_local g self p \<longleftrightarrow> no_recursion p \<and> (marked p \<longrightarrow> guard_thread_id g = self) \<and>
     (\<not> m_owns p \<longrightarrow> init_byte g \<in> {2, 6} \<longrightarrow> guard_thread_id g \<noteq> self)"

definition mutex_tid_inv :: "mstate \<Rightarrow> bool" where
  "mutex_tid_inv s \<longleftrightarrow> (\<forall>t. t \<noteq> 0 \<longrightarrow> m_tid_local (mguard s) t (mpc s t))"

lemma m_tid_own_step:
  assumes "(p', g', h') \<in> set (mutex_do True self p g h)" "\<not> recursion_found True self p g"
    "m_tid_local g self p" "m_local g p" "m_owns p \<longrightarrow> init_byte g \<in> {2, 6}"
    "p = MLoad True \<longrightarrow> guard_byte g = 0" "init_byte g \<in> {0, 1, 2, 6}"
  shows "m_tid_local g' self p'"
proof -
  have "init_byte g = 0 \<or> init_byte g = 1 \<or> init_byte g = 2 \<or> init_byte g = 6" using assms(7) by simp
  then show ?thesis using assms(1-6)
    apply (cases p; elim disjE)
    apply (simp_all add: m_tid_local_def mutex_simps split: if_splits)
    apply (elim disjE conjE; simp)+
    done
qed

lemma m_tid_other_step:
  assumes "(p', g', h') \<in> set (mutex_do True self p g h)" "m_local g p"
  shows "(guard_thread_id g' = guard_thread_id g \<or> p = SetTid \<or> (p = MAbtTid \<and> guard_thread_id g' = 0)) \<and>
    (init_byte g' \<in> {2, 6} \<longrightarrow> init_byte g \<in> {2, 6} \<or> p = SetPending) \<and>
    (p \<in> {SetTid, SetPending} \<longrightarrow> init_byte g = 0) \<and> (p = SetTid \<longrightarrow> init_byte g' = 0) \<and>
    (p = SetPending \<longrightarrow> guard_thread_id g' = guard_thread_id g)"
  using assms by (cases p) (auto simp: mutex_simps split: if_splits)

lemma marked_owns: "marked p \<Longrightarrow> m_local g p \<Longrightarrow> \<not> in_section p \<Longrightarrow> m_owns p"
proof (cases p)
  case (MLock q)
  assume "marked p" "m_local g p"
  with MLock show ?thesis by (cases q) auto
qed auto

lemma m_tid_other:
  assumes "(p', g', h') \<in> set (mutex_do True self p g h)" "m_local g p" "m_tid_local g self p"
    and "m_local g q" "m_tid_local g other q" "in_section p \<longrightarrow> \<not> in_section q"
    and "m_owns p \<longrightarrow> \<not> m_owns q" "m_owns q \<longrightarrow> init_byte g \<in> {2, 6}" "self \<noteq> other" "other \<noteq> 0"
  shows "m_tid_local g' other q"
proof -
  note c = m_tid_other_step [OF assms(1,2)]
  have "guard_thread_id g' = other" if m: "marked q"
  proof (cases "in_section p")
    case True
    then have o: "m_owns q" using marked_owns [OF m assms(4)] assms(6) by blast
    then have "p \<noteq> SetTid" "p \<noteq> MAbtTid" using c assms(7,8) by auto
    then show ?thesis using c m assms(5) by (auto simp: m_tid_local_def)
  next
    case False
    then have "p \<noteq> SetTid" "p \<noteq> MAbtTid" by auto
    then show ?thesis using c m assms(5) by (auto simp: m_tid_local_def)
  qed
  moreover have "guard_thread_id g' \<noteq> other" if n: "\<not> m_owns q" "init_byte g' \<in> {2, 6}"
  proof -
    consider "p = SetPending" | "p = MAbtTid" "guard_thread_id g' = 0"
      | "init_byte g \<in> {2, 6}" "guard_thread_id g' = guard_thread_id g"
      using c n(2) by auto
    then show ?thesis
    proof cases
      case 1
      then have "guard_thread_id g' = self" using assms(3) c by (simp add: m_tid_local_def)
      with assms(9) show ?thesis by simp
    qed (use n assms(5,10) in \<open>auto simp: m_tid_local_def\<close>)
  qed
  ultimately show ?thesis using assms(5) by (simp add: m_tid_local_def)
qed

lemma mutex_inv_facts:
  assumes "mutex_inv s"
  shows "m_owns (mpc s t) \<Longrightarrow> init_byte (mguard s) \<in> {2, 6}" "m_local (mguard s) (mpc s t)"
    "m_owns (mpc s t) \<Longrightarrow> m_owns (mpc s u) \<Longrightarrow> t = u" "in_section (mpc s t) \<Longrightarrow> in_section (mpc s u) \<Longrightarrow> t = u"
    "init_byte (mguard s) \<in> {0, 1, 2, 6}"
proof -
  note i = assms [unfolded mutex_inv_def m_inv_def]
  show "m_owns (mpc s t) \<Longrightarrow> init_byte (mguard s) \<in> {2, 6}" using i by blast
  show "m_local (mguard s) (mpc s t)" using i by blast
  show "m_owns (mpc s t) \<Longrightarrow> m_owns (mpc s u) \<Longrightarrow> t = u" using i by blast
  show "init_byte (mguard s) \<in> {0, 1, 2, 6}" using i by blast
  have "\<forall>t. in_section (mpc s t) = (holder s = Some t)" using i by blast
  then show "in_section (mpc s t) \<Longrightarrow> in_section (mpc s u) \<Longrightarrow> t = u" by simp
qed

lemma mutex_inv_recursing:
  assumes "mutex_inv s" "mpc s t = MLoad True"
  shows "guard_byte (mguard s) = 0"
  using mutex_completed_over [OF assms(1), of t] assms(2)
  by (auto simp: mutex_completed_def mutex_initializing_def)

lemma mutex_tid_inv_step:
  assumes "mutex_inv s" "mutex_tid_inv s" "mutex_step True s s'"
  shows "mutex_tid_inv s'"
  using assms(3)
proof (cases rule: mutex_step_cases)
  case abort
  with assms(2) show ?thesis by (simp add: mutex_tid_inv_def)
next
  case (go t p g h)
  note f = mutex_inv_facts [OF assms(1)]
  have k: "m_tid_local (mguard s) u (mpc s u)" if "u \<noteq> 0" for u using assms(2) that by (simp add: mutex_tid_inv_def)
  have "m_tid_local g t p"
    by (rule m_tid_own_step [OF go(4) go(2) k f(2) _ _ f(5)]) (use f go(1) mutex_inv_recursing [OF assms(1)] in blast)+
  moreover have "m_tid_local g u (mpc s u)" if "u \<noteq> t" "u \<noteq> 0" for u
  proof (rule m_tid_other [OF go(4) f(2) k f(2) k])
    show "in_section (mpc s t) \<longrightarrow> \<not> in_section (mpc s u)" "m_owns (mpc s t) \<longrightarrow> \<not> m_owns (mpc s u)"
      using f(3,4) that(1) by blast+
    show "m_owns (mpc s u) \<longrightarrow> init_byte (mguard s) \<in> {2, 6}" using f(1) by blast
    show "t \<noteq> u" "u \<noteq> 0" "u \<noteq> 0" "t \<noteq> 0" using that go(1) by auto
  qed
  ultimately show ?thesis using go(5) by (simp add: mutex_tid_inv_def)
next
  case (wake t b)
  have "m_tid_local g self p \<Longrightarrow> m_tid_local g self (notified p)" for g self p
    by (cases p) (auto simp: m_tid_local_def)
  moreover have "t \<noteq> 0 \<Longrightarrow> m_tid_local (mguard s) t (if b then MDone else MIdle)"
    using assms(2) wake(2) by (auto simp: mutex_tid_inv_def m_tid_local_def dest: spec [of _ t])
  ultimately show ?thesis using assms(2) wake(3) by (cases b) (simp_all add: mutex_tid_inv_def)
qed

lemma mutex_tid_inv_reached:
  assumes "reached (mutex_step True) mutex_start s"
  shows "mutex_tid_inv s"
  using assms
proof (induction rule: reached.induct)
  case reached_start
  then show ?case by (simp add: mutex_tid_inv_def m_tid_local_def mutex_start_def fresh_guard_def)
next
  case (reached_step s s')
  then show ?case using mutex_tid_inv_step mutex.reached_inv by blast
qed

section \<open>Properties\<close>

lemma futex_follow_reached:
  "follow (futex_steps has_tid) futex_start ks = Some s \<Longrightarrow> reached (futex_step has_tid) futex_start s"
  unfolding futex_step_def [abs_def] by (rule follow_reached) (auto intro: reached_start)

lemma mutex_follow_reached:
  "follow (mutex_steps has_tid) mutex_start ks = Some s \<Longrightarrow> reached (mutex_step has_tid) mutex_start s"
  unfolding mutex_step_def [abs_def] by (rule follow_reached) (auto intro: reached_start)

text \<open>Two schedules for the witnesses: thread 1 starts to initialize and thread 2 goes to sleep; then
  thread 1 either finishes or reaches the declaration again.\<close>

definition futex_demo :: "(u32 \<times> nat) list" where
  "futex_demo = [(1, 0), (1, 0), (1, 0), (1, 0), (2, 0), (2, 0), (2, 0), (2, 0), (2, 0), (2, 0)]"

definition mutex_demo :: "(u32 \<times> nat) list" where
  "mutex_demo = replicate 9 (1, 0) @ replicate 7 (2, 0)"

lemma futex_demo_state: "\<exists>s. follow (futex_steps True) futex_start futex_demo = Some s \<and>
    pc s = (\<lambda>t. Idle)(1 := Init, 2 := Sleep False) \<and> guard s = \<lparr>guard_byte = 0, init_byte = 6, guard_thread_id = 1\<rparr> \<and>
    aborted s = False"
  by (simp add: futex_demo_def futex_steps_def futex_start_def fresh_guard_def futex_simps fun_upd_twist)

lemma mutex_demo_state: "\<exists>s. follow (mutex_steps True) mutex_start mutex_demo = Some s \<and>
    mpc s = (\<lambda>t. MIdle)(1 := MInit, 2 := CondSleep False) \<and>
    mguard s = \<lparr>guard_byte = 0, init_byte = 6, guard_thread_id = 1\<rparr> \<and> maborted s = False \<and> holder s = None"
  by (simp add: mutex_demo_def mutex_steps_def mutex_start_def fresh_guard_def mutex_simps fun_upd_twist
      numeral_eq_Suc)

text \<open>C8. Futex guard: at most one thread at a time is told to run the initializer, a thread that is told
  the object is initialized finds the guard byte set, and once the initializer has reported success no
  thread is ever told to run it again.\<close>

theorem futex_runs_once:
  assumes "reached (futex_step has_tid) futex_start s"
  shows "(\<forall>t u. futex_initializing s t \<and> futex_initializing s u \<longrightarrow> t = u) \<and>
    (\<forall>t. futex_passed s t \<longrightarrow> futex_completed s) \<and>
    (\<forall>s'. futex_completed s \<and> reached (futex_step has_tid) s s' \<longrightarrow>
       futex_completed s' \<and> (\<forall>t. \<not> futex_initializing s' t))"
  using futex.exclusive [OF assms] futex.passed_completed [OF assms] futex.once [OF assms] by blast

theorem futex_runs_once_witness:
  "\<exists>s. pc s 1 = Init \<and> pc s 2 = Sleep False \<and>
    (\<forall>t u. futex_initializing s t \<and> futex_initializing s u \<longrightarrow> t = u) \<and>
    (\<forall>t. futex_passed s t \<longrightarrow> futex_completed s) \<and>
    (\<forall>s'. futex_completed s \<and> reached (futex_step True) s s' \<longrightarrow>
       futex_completed s' \<and> (\<forall>t. \<not> futex_initializing s' t))"
proof -
  obtain s where s: "follow (futex_steps True) futex_start futex_demo = Some s"
    "pc s = (\<lambda>t. Idle)(1 := Init, 2 := Sleep False)" using futex_demo_state by blast
  from futex_runs_once [OF futex_follow_reached [OF s(1)]] s(2) show ?thesis by (intro exI [of _ s]) simp
qed

text \<open>C9. Futex guard, no lost wake-up: whenever a thread sleeps in the kernel, some thread is still running
  the initializer or about to wake all sleepers, although the test of the word, the setting of the waiting
  bit and the sleep are separate steps.\<close>

theorem futex_no_lost_wakeup:
  assumes "reached (futex_step has_tid) futex_start s" "futex_sleeping s t"
  shows "(\<exists>u. futex_initializing s u) \<or> futex_waking s"
  by (rule futex.no_lost_wakeup [OF assms])

theorem futex_no_lost_wakeup_witness:
  "\<exists>s. futex_sleeping s 2 \<and> ((\<exists>u. futex_initializing s u) \<or> futex_waking s)"
proof -
  obtain s where s: "follow (futex_steps True) futex_start futex_demo = Some s"
    "pc s = (\<lambda>t. Idle)(1 := Init, 2 := Sleep False)" using futex_demo_state by blast
  have "futex_sleeping s 2" using s(2) by (simp add: futex_sleeping_def)
  with futex_no_lost_wakeup [OF futex_follow_reached [OF s(1)] this] show ?thesis by blast
qed

text \<open>Futex guard with thread ids: the program is aborted for recursive initialization only when the
  thread that runs the initializer calls acquire again itself, every such call that finds the guard pending
  is recognised, and it never blocks on itself.\<close>

lemma futex_recursion_exact:
  assumes "reached (futex_step True) futex_start s" "t \<noteq> 0"
  shows "(recursion_detected True t (pc s t) (guard s) \<longrightarrow> futex_initializing s t) \<and>
    (\<forall>v. pc s t = CheckTid True v \<longrightarrow> recursion_detected True t (pc s t) (guard s)) \<and>
    pc s t \<noteq> Sleep True"
proof -
  have l: "tid_local (guard_thread_id (guard s)) t (pc s t)"
    using tid_inv_reached [OF assms(1)] assms(2) by (simp add: tid_inv_def)
  then show ?thesis by (cases "pc s t") (auto simp: futex_initializing_def)
qed

lemma futex_recursion_exact_witness:
  "\<exists>s. pc s 1 = CheckTid True 6 \<and> recursion_detected True 1 (pc s 1) (guard s) \<and>
    (recursion_detected True 1 (pc s 1) (guard s) \<longrightarrow> futex_initializing s 1)"
proof -
  have "\<exists>s. follow (futex_steps True) futex_start (futex_demo @ [(1, 2), (1, 0), (1, 0)]) = Some s \<and>
      pc s 1 = CheckTid True 6"
    by (simp add: futex_demo_def futex_steps_def futex_start_def fresh_guard_def futex_simps fun_upd_twist)
  then obtain s where s: "follow (futex_steps True) futex_start (futex_demo @ [(1, 2), (1, 0), (1, 0)]) = Some s"
    "pc s 1 = CheckTid True 6" by blast
  from futex_recursion_exact [OF futex_follow_reached [OF s(1)], of 1] s(2) show ?thesis
    by (intro exI [of _ s]) simp
qed

text \<open>Mutex guard: the same exclusion and publication as the futex guard, with every access to the
  init byte under the global mutex.\<close>

lemma mutex_runs_once:
  assumes "reached (mutex_step has_tid) mutex_start s"
  shows "(\<forall>t u. mutex_initializing s t \<and> mutex_initializing s u \<longrightarrow> t = u) \<and>
    (\<forall>t. mutex_passed s t \<longrightarrow> mutex_completed s) \<and>
    (\<forall>s'. mutex_completed s \<and> reached (mutex_step has_tid) s s' \<longrightarrow>
       mutex_completed s' \<and> (\<forall>t. \<not> mutex_initializing s' t))"
  using mutex.exclusive [OF assms] mutex.passed_completed [OF assms] mutex.once [OF assms] by blast

lemma mutex_runs_once_witness:
  "\<exists>s. mpc s 1 = MInit \<and> mpc s 2 = CondSleep False \<and>
    (\<forall>t u. mutex_initializing s t \<and> mutex_initializing s u \<longrightarrow> t = u) \<and>
    (\<forall>t. mutex_passed s t \<longrightarrow> mutex_completed s) \<and>
    (\<forall>s'. mutex_completed s \<and> reached (mutex_step True) s s' \<longrightarrow>
       mutex_completed s' \<and> (\<forall>t. \<not> mutex_initializing s' t))"
proof -
  obtain s where s: "follow (mutex_steps True) mutex_start mutex_demo = Some s"
    "mpc s = (\<lambda>t. MIdle)(1 := MInit, 2 := CondSleep False)" using mutex_demo_state by blast
  from mutex_runs_once [OF mutex_follow_reached [OF s(1)]] s(2) show ?thesis by (intro exI [of _ s]) simp
qed

text \<open>Mutex guard, no lost wake-up: whenever a thread sleeps on the condition variable, some thread is
  still running the initializer or is on its way to the broadcast.\<close>

lemma mutex_no_lost_wakeup:
  assumes "reached (mutex_step has_tid) mutex_start s" "mutex_sleeping s t"
  shows "(\<exists>u. mutex_initializing s u) \<or> mutex_waking s"
  by (rule mutex.no_lost_wakeup [OF assms])

lemma mutex_no_lost_wakeup_witness:
  "\<exists>s. mutex_sleeping s 2 \<and> ((\<exists>u. mutex_initializing s u) \<or> mutex_waking s)"
proof -
  obtain s where s: "follow (mutex_steps True) mutex_start mutex_demo = Some s"
    "mpc s = (\<lambda>t. MIdle)(1 := MInit, 2 := CondSleep False)" using mutex_demo_state by blast
  have "mutex_sleeping s 2" using s(2) by (simp add: mutex_sleeping_def)
  with mutex_no_lost_wakeup [OF mutex_follow_reached [OF s(1)] this] show ?thesis by blast
qed

text \<open>Mutex guard with thread ids: the abort for recursive initialization is reached only by the
  thread that runs the initializer, and that thread never sleeps waiting for itself.\<close>

lemma mutex_recursion_exact:
  assumes "reached (mutex_step True) mutex_start s" "t \<noteq> 0"
  shows "(recursion_found True t (mpc s t) (mguard s) \<longrightarrow> mutex_initializing s t) \<and>
    (mpc s t = Check True \<longrightarrow> recursion_found True t (mpc s t) (mguard s)) \<and> mpc s t \<noteq> CondSleep True"
proof -
  have l: "m_tid_local (mguard s) t (mpc s t)"
    using mutex_tid_inv_reached [OF assms(1)] assms(2) by (simp add: mutex_tid_inv_def)
  note f = mutex_inv_facts [OF mutex.reached_inv [OF assms(1)]]
  show ?thesis
  proof (cases "mpc s t")
    case (Check r)
    show ?thesis
      using f(1) [of t] f(5) l Check by (auto simp: mutex_initializing_def m_tid_local_def guard_bits)
  qed (use l in \<open>auto simp: m_tid_local_def\<close>)
qed

lemma mutex_recursion_exact_witness:
  "\<exists>s. mpc s 1 = Check True \<and> recursion_found True 1 (mpc s 1) (mguard s) \<and>
    (recursion_found True 1 (mpc s 1) (mguard s) \<longrightarrow> mutex_initializing s 1)"
proof -
  have "\<exists>s. follow (mutex_steps True) mutex_start (mutex_demo @ [(1, 2), (1, 0), (1, 0)]) = Some s \<and>
      mpc s 1 = Check True"
    by (simp add: mutex_demo_def mutex_steps_def mutex_start_def fresh_guard_def mutex_simps fun_upd_twist
        numeral_eq_Suc)
  then obtain s where s: "follow (mutex_steps True) mutex_start (mutex_demo @ [(1, 2), (1, 0), (1, 0)]) = Some s"
    "mpc s 1 = Check True" by blast
  from mutex_recursion_exact [OF mutex_follow_reached [OF s(1)], of 1] s(2) show ?thesis
    by (intro exI [of _ s]) simp
qed

text \<open>Single-threaded guard: executing the declaration again and again runs the initializer until it
  succeeds for the first time and never after; the program is aborted exactly when the declaration
  is reached recursively before that.\<close>

lemma nothreads_runs_once:
  "nt_run fresh_guard ts =
     (if Recurses \<in> set (takeWhile (\<lambda>a. a \<noteq> Succeeds) ts) then None
      else if Succeeds \<in> set ts then Some (nt_release fresh_guard, 1) else Some (fresh_guard, 0))"
  by (rule nt_run_unset)

end
