(* ===== verification/EhTable.thy ===== *)
theory EhTable
  imports Unwind
begin

text \<open>
  Reading exception tables (\<open>libcxxabi/src/cxa_personality.cpp\<close>): LEB128 numbers, encoded pointers, type
  table entries and exception specifications. Memory is a total map from addresses to bytes, little endian
  as on the only architecture the file compiles for. A computation is \<open>None\<close> when it does not end, \<open>Inl\<close>
  when the program is ended by \<open>std::terminate\<close> or \<open>abort\<close>, and \<open>Inr\<close> otherwise.
\<close>

type_synonym memory = "u64 \<Rightarrow> u8"

datatype eh_end = Terminated | Abort

type_synonym 'a eh = "(eh_end + 'a) option"

text \<open>The operations are for any type of ends, as the readers of unwind tables have others.\<close>

definition eh_return :: "'a \<Rightarrow> ('e + 'a) option" where
  "eh_return x = Some (Inr x)"

definition eh_stop :: "'e \<Rightarrow> ('e + 'a) option" where
  "eh_stop e = Some (Inl e)"

definition eh_bind :: "('e + 'a) option \<Rightarrow> ('a \<Rightarrow> ('e + 'b) option) \<Rightarrow> ('e + 'b) option" where
  "eh_bind m f = Option.bind m (\<lambda>r. case r of Inl e \<Rightarrow> Some (Inl e) | Inr x \<Rightarrow> f x)"

lemma eh_bind_simps [simp]: "eh_bind (eh_return x) f = f x" "eh_bind (eh_stop e) f = eh_stop e"
  "eh_bind None f = None" "eh_bind (Some (Inr x)) f = f x" "eh_bind (Some (Inl e)) f = Some (Inl e)"
  by (simp_all add: eh_bind_def eh_return_def eh_stop_def)

lemma eh_bind_return:
  "(eh_bind m f = eh_return y) = (\<exists>x. m = eh_return x \<and> f x = eh_return y)"
  by (cases m) (auto simp: eh_bind_def eh_return_def split: sum.splits)

lemma eh_return_inject [simp]: "(eh_return x = eh_return y) = (x = y)" "eh_return x \<noteq> eh_stop e" "eh_stop e \<noteq> eh_return x"
  by (auto simp: eh_return_def eh_stop_def)

lemma eh_bind_mono [partial_function_mono]:
  assumes "mono_option B" "\<And>y. mono_option (\<lambda>f. C y f)"
  shows "mono_option (\<lambda>f. eh_bind (B f) (\<lambda>y. C y f))"
proof -
  have "mono_option (\<lambda>f. case r of Inl e \<Rightarrow> Some (Inl e) | Inr x \<Rightarrow> C x f)" for r
    using assms(2) by (cases r) (simp_all add: option.const_mono)
  with assms(1) show ?thesis unfolding eh_bind_def by (rule bind_mono)
qed

section \<open>Encodings\<close>

definition DW_EH_PE_absptr :: u8 where "DW_EH_PE_absptr = 0x00"
definition DW_EH_PE_uleb128 :: u8 where "DW_EH_PE_uleb128 = 0x01"
definition DW_EH_PE_udata2 :: u8 where "DW_EH_PE_udata2 = 0x02"
definition DW_EH_PE_udata4 :: u8 where "DW_EH_PE_udata4 = 0x03"
definition DW_EH_PE_udata8 :: u8 where "DW_EH_PE_udata8 = 0x04"
definition DW_EH_PE_sleb128 :: u8 where "DW_EH_PE_sleb128 = 0x09"
definition DW_EH_PE_sdata2 :: u8 where "DW_EH_PE_sdata2 = 0x0A"
definition DW_EH_PE_sdata4 :: u8 where "DW_EH_PE_sdata4 = 0x0B"
definition DW_EH_PE_sdata8 :: u8 where "DW_EH_PE_sdata8 = 0x0C"
definition DW_EH_PE_pcrel :: u8 where "DW_EH_PE_pcrel = 0x10"
definition DW_EH_PE_indirect :: u8 where "DW_EH_PE_indirect = 0x80"
definition DW_EH_PE_omit :: u8 where "DW_EH_PE_omit = 0xFF"

lemmas eh_encodings [eh_simps] = DW_EH_PE_absptr_def DW_EH_PE_uleb128_def DW_EH_PE_udata2_def DW_EH_PE_udata4_def
  DW_EH_PE_udata8_def DW_EH_PE_sleb128_def DW_EH_PE_sdata2_def DW_EH_PE_sdata4_def DW_EH_PE_sdata8_def
  DW_EH_PE_pcrel_def DW_EH_PE_indirect_def DW_EH_PE_omit_def

text \<open>The loop of both LEB128 readers, with the last byte for the sign.\<close>

partial_function (option) leb128_loop :: "memory \<Rightarrow> u64 \<Rightarrow> nat \<Rightarrow> u64 \<Rightarrow> (u64 \<times> nat \<times> u8 \<times> u64) option" where
  "leb128_loop mem result shift p =
     (let byte = mem p;
          result' = result OR push_bit shift (ucast (byte AND 0x7F));
          shift' = shift + 7 in
      if byte AND 0x80 \<noteq> 0 then leb128_loop mem result' shift' (p + 1)
      else Some (result', shift', byte, p + 1))"

definition readULEB128 :: "memory \<Rightarrow> u64 \<Rightarrow> (u64 \<times> u64) eh" where
  "readULEB128 mem p = map_option (\<lambda>(result, shift, byte, p'). Inr (result, p')) (leb128_loop mem 0 0 p)"

definition readSLEB128 :: "memory \<Rightarrow> u64 \<Rightarrow> (u64 \<times> u64) eh" where
  "readSLEB128 mem p = map_option (\<lambda>(result, shift, byte, p').
      Inr (if byte AND 0x40 \<noteq> 0 \<and> shift < 64 then result OR push_bit shift (NOT 0) else result, p'))
    (leb128_loop mem 0 0 p)"

fun read_bytes :: "memory \<Rightarrow> nat \<Rightarrow> u64 \<Rightarrow> u64" where
  "read_bytes mem 0 p = 0"
| "read_bytes mem (Suc n) p = ucast (mem p) OR push_bit 8 (read_bytes mem n (p + 1))"

definition readPointerHelper :: "memory \<Rightarrow> nat \<Rightarrow> u64 \<Rightarrow> (u64 \<times> u64) eh" where
  "readPointerHelper mem n p = eh_return (read_bytes mem n p, p + of_nat n)"

definition sign_extend :: "nat \<Rightarrow> u64 \<times> u64 \<Rightarrow> (u64 \<times> u64) eh" where
  "sign_extend n = (\<lambda>(v, p). eh_return (signed_take_bit (8 * n - 1) v, p))"

definition read_value :: "memory \<Rightarrow> u64 \<Rightarrow> u8 \<Rightarrow> (u64 \<times> u64) eh" where
  "read_value mem p fmt =
     (if fmt = DW_EH_PE_absptr then readPointerHelper mem 8 p
      else if fmt = DW_EH_PE_uleb128 then readULEB128 mem p
      else if fmt = DW_EH_PE_sleb128 then readSLEB128 mem p
      else if fmt = DW_EH_PE_udata2 then readPointerHelper mem 2 p
      else if fmt = DW_EH_PE_udata4 then readPointerHelper mem 4 p
      else if fmt = DW_EH_PE_udata8 then readPointerHelper mem 8 p
      else if fmt = DW_EH_PE_sdata2 then eh_bind (readPointerHelper mem 2 p) (sign_extend 2)
      else if fmt = DW_EH_PE_sdata4 then eh_bind (readPointerHelper mem 4 p) (sign_extend 4)
      else if fmt = DW_EH_PE_sdata8 then readPointerHelper mem 8 p
      else eh_stop Abort)"

definition readEncodedPointer :: "memory \<Rightarrow> u64 \<Rightarrow> u8 \<Rightarrow> (u64 \<times> u64) eh" where
  "readEncodedPointer mem data encoding =
     (if encoding = DW_EH_PE_omit then eh_return (0, data)
      else eh_bind (read_value mem data (encoding AND 0x0F)) (\<lambda>(result, p).
        eh_bind
          (if encoding AND 0x70 = DW_EH_PE_absptr then eh_return result
           else if encoding AND 0x70 = DW_EH_PE_pcrel then eh_return (if result \<noteq> 0 then result + data else result)
           else eh_stop Abort)
          (\<lambda>result. eh_return (if result \<noteq> 0 \<and> encoding AND DW_EH_PE_indirect \<noteq> 0
             then read_bytes mem 8 result else result, p))))"

section \<open>Type table and exception specifications\<close>

definition get_shim_type_info :: "memory \<Rightarrow> u64 \<Rightarrow> u64 \<Rightarrow> u8 \<Rightarrow> u64 eh" where
  "get_shim_type_info mem ttypeIndex classInfo ttypeEncoding =
     (if classInfo = 0 then eh_stop Terminated
      else
        let fmt = ttypeEncoding AND 0x0F in
        eh_bind
          (if fmt = DW_EH_PE_absptr then eh_return (ttypeIndex * 8)
           else if fmt = DW_EH_PE_udata2 \<or> fmt = DW_EH_PE_sdata2 then eh_return (ttypeIndex * 2)
           else if fmt = DW_EH_PE_udata4 \<or> fmt = DW_EH_PE_sdata4 then eh_return (ttypeIndex * 4)
           else if fmt = DW_EH_PE_udata8 \<or> fmt = DW_EH_PE_sdata8 then eh_return (ttypeIndex * 8)
           else eh_stop Terminated)
          (\<lambda>offset. eh_bind (readEncodedPointer mem (classInfo - offset) ttypeEncoding)
             (\<lambda>(v, _). eh_return v)))"

text \<open>\<open>can_catch catchType excpType adjustedPtr\<close> is the virtual member function of the caught type.\<close>

type_synonym can_catch = "u64 \<Rightarrow> u64 \<Rightarrow> u64 \<Rightarrow> bool \<times> u64"

partial_function (option) exception_spec_loop ::
  "memory \<Rightarrow> can_catch \<Rightarrow> u64 \<Rightarrow> u8 \<Rightarrow> u64 \<Rightarrow> u64 \<Rightarrow> u64 \<Rightarrow> bool eh" where
  "exception_spec_loop mem can_catch classInfo ttypeEncoding excpType adjustedPtr temp =
     eh_bind (readULEB128 mem temp) (\<lambda>(ttypeIndex, temp').
       if ttypeIndex = 0 then eh_return True
       else eh_bind (get_shim_type_info mem ttypeIndex classInfo ttypeEncoding) (\<lambda>catchType.
         if fst (can_catch catchType excpType adjustedPtr) then eh_return False
         else exception_spec_loop mem can_catch classInfo ttypeEncoding excpType adjustedPtr temp'))"

definition exception_spec_can_catch ::
  "memory \<Rightarrow> can_catch \<Rightarrow> u64 \<Rightarrow> u64 \<Rightarrow> u8 \<Rightarrow> u64 \<Rightarrow> u64 \<Rightarrow> bool eh" where
  "exception_spec_can_catch mem can_catch specIndex classInfo ttypeEncoding excpType adjustedPtr =
     (if classInfo = 0 then eh_stop Terminated
      else exception_spec_loop mem can_catch classInfo ttypeEncoding excpType adjustedPtr
        (classInfo + (- specIndex - 1)))"

end
