(* ===== verification/Personality.thy ===== *)
theory Personality
  imports EhTable
begin

text \<open>
  The personality routine of C++ (\<open>__gxx_personality_v0\<close> in \<open>libcxxabi/src/cxa_personality.cpp\<close>, zero-cost
  exceptions outside ARM EHABI): the scan of the exception table and the routine itself. The
  exception object is the record \<open>cxa_exception\<close>, with the fields of the header the routine uses;
  \<open>can_catch\<close> is the virtual member function of the type information.
\<close>

section \<open>State\<close>

definition kOurExceptionClass :: u64 where "kOurExceptionClass = 0x434C4E47432B2B00"
definition kOurDependentExceptionClass :: u64 where "kOurDependentExceptionClass = 0x434C4E47432B2B01"
definition get_vendor_and_language :: u64 where "get_vendor_and_language = 0xFFFFFFFFFFFFFF00"

text \<open>\<open>header_address\<close> is the address of the \<open>_Unwind_Exception\<close>, which is followed by the thrown object.\<close>

record cxa_exception =
  header_address :: u64
  header_class :: u64
  exceptionType :: u64
  primaryException :: u64
  handlerSwitchValue :: u32
  actionRecord :: u64
  languageSpecificData :: u64
  catchTemp :: u64
  adjustedPtr :: u64

record eh_context =
  ctx_lsda :: u64
  ctx_ip :: u64
  ctx_region_start :: u64
  ctx_gr :: "u64 list"

record scan_results =
  ttypeIndex :: u64
  found_actionRecord :: u64
  found_lsda :: u64
  landingPad :: u64
  found_adjustedPtr :: u64
  scan_reason :: reason

definition sizeof_unwind_exception :: u64 where "sizeof_unwind_exception = 32"

definition get_thrown_object_ptr :: "cxa_exception \<Rightarrow> u64" where
  "get_thrown_object_ptr ex =
     (if header_class ex = kOurDependentExceptionClass then primaryException ex
      else header_address ex + sizeof_unwind_exception)"

definition set_registers :: "cxa_exception \<Rightarrow> eh_context \<Rightarrow> scan_results \<Rightarrow> eh_context" where
  "set_registers ex context results =
     context\<lparr>ctx_gr := (ctx_gr context)[0 := header_address ex, 1 := ttypeIndex results],
       ctx_ip := landingPad results\<rparr>"

definition flag :: "u32 \<Rightarrow> u32 \<Rightarrow> bool" where
  "flag actions f = (actions AND f \<noteq> 0)"

definition nothing_found :: "u64 \<Rightarrow> reason \<Rightarrow> scan_results" where
  "nothing_found table r = \<lparr>ttypeIndex = 0, found_actionRecord = 0, found_lsda = table, landingPad = 0,
     found_adjustedPtr = 0, scan_reason = r\<rparr>"

definition handler_found :: "u64 \<Rightarrow> u64 \<Rightarrow> u64 \<Rightarrow> u64 \<Rightarrow> u64 \<Rightarrow> scan_results" where
  "handler_found i rec table pad adj = \<lparr>ttypeIndex = i, found_actionRecord = rec, found_lsda = table, landingPad = pad,
     found_adjustedPtr = adj, scan_reason = URC_HANDLER_FOUND\<rparr>"

section \<open>The scan\<close>

text \<open>What one action does: \<open>Some adj\<close> when the scan ends with a handler found, where \<open>adj\<close> is the pointer to
  the object for the handler, \<open>None\<close> when the next action is scanned.\<close>

definition caught :: "u32 \<Rightarrow> bool \<Rightarrow> u64 \<Rightarrow> u64 option eh" where
  "caught actions may_stop adj =
     (if may_stop then eh_return (Some adj)
      else if \<not> flag actions UA_FORCE_UNWIND then eh_stop Terminated
      else eh_return None)"

definition check_action ::
  "memory \<Rightarrow> can_catch \<Rightarrow> u32 \<Rightarrow> bool \<Rightarrow> cxa_exception \<Rightarrow> u64 \<Rightarrow> u8 \<Rightarrow> u64 \<Rightarrow> u64 option eh" where
  "check_action mem can_catch actions native ex classInfo ttypeEncoding i =
     (let thrown = get_thrown_object_ptr ex;
          search = flag actions UA_SEARCH_PHASE;
          search_or_handler = (search \<or> flag actions UA_HANDLER_FRAME) in
      if 0 < sint i then
        eh_bind (get_shim_type_info mem i classInfo ttypeEncoding) (\<lambda>catchType.
          if catchType = 0 then caught actions search_or_handler thrown
          else if native then
            (if thrown = 0 \<or> exceptionType ex = 0 then eh_stop Terminated
             else let (can, adj) = can_catch catchType (exceptionType ex) thrown in
               if can then caught actions search adj else eh_return None)
          else eh_return None)
      else if sint i < 0 then
        if native then
          (if thrown = 0 \<or> exceptionType ex = 0 then eh_stop Terminated
           else eh_bind (exception_spec_can_catch mem can_catch i classInfo ttypeEncoding (exceptionType ex) thrown)
             (\<lambda>can. if can then caught actions search thrown else eh_return None))
        else caught actions search_or_handler thrown
      else if flag actions UA_CLEANUP_PHASE \<and> \<not> flag actions UA_HANDLER_FRAME then eh_return (Some thrown)
      else eh_return None)"

text \<open>The loop over the actions of a call site; \<open>check\<close> is \<open>check_action\<close> with its fixed arguments.\<close>

partial_function (option) scan_actions ::
  "memory \<Rightarrow> (u64 \<Rightarrow> u64 option eh) \<Rightarrow> u64 \<Rightarrow> u64 \<Rightarrow> u64 \<Rightarrow> scan_results eh" where
  "scan_actions mem check table pad action =
     eh_bind (readSLEB128 mem action) (\<lambda>(i, action').
     eh_bind (check i) (\<lambda>r. case r of
       Some adj \<Rightarrow> eh_return (handler_found i action table pad adj)
     | None \<Rightarrow> eh_bind (readSLEB128 mem action') (\<lambda>(actionOffset, _).
         if actionOffset = 0 then eh_return (nothing_found table URC_CONTINUE_UNWIND)
         else scan_actions mem check table pad (action' + actionOffset))))"

definition scan_site ::
  "memory \<Rightarrow> can_catch \<Rightarrow> u32 \<Rightarrow> bool \<Rightarrow> cxa_exception \<Rightarrow> u64 \<Rightarrow> u8 \<Rightarrow> u64 \<Rightarrow> u64 \<Rightarrow> u64 \<Rightarrow> u64 \<Rightarrow> u64 \<Rightarrow>
     scan_results eh" where
  "scan_site mem can_catch actions native ex classInfo ttypeEncoding table lpStart actionTableStart pad actionEntry =
     (if pad = 0 then eh_return (nothing_found table URC_CONTINUE_UNWIND)
      else let pad' = lpStart + pad in
      if actionEntry = 0 then
        (if flag actions UA_CLEANUP_PHASE \<and> \<not> flag actions UA_HANDLER_FRAME
         then eh_return (handler_found 0 0 table pad' 0)
         else eh_return (nothing_found table URC_CONTINUE_UNWIND))
      else scan_actions mem (check_action mem can_catch actions native ex classInfo ttypeEncoding) table pad'
        (actionTableStart + (actionEntry - 1)))"

partial_function (option) scan_call_sites ::
  "memory \<Rightarrow> u64 \<Rightarrow> u8 \<Rightarrow> u64 \<Rightarrow> (u64 \<Rightarrow> u64 \<Rightarrow> scan_results eh) \<Rightarrow> u64 \<Rightarrow> scan_results eh" where
  "scan_call_sites mem ipOffset callSiteEncoding callSiteTableEnd site callSitePtr =
     (if callSitePtr < callSiteTableEnd then
        eh_bind (readEncodedPointer mem callSitePtr callSiteEncoding) (\<lambda>(start, p1).
        eh_bind (readEncodedPointer mem p1 callSiteEncoding) (\<lambda>(len, p2).
        eh_bind (readEncodedPointer mem p2 callSiteEncoding) (\<lambda>(pad, p3).
        eh_bind (readULEB128 mem p3) (\<lambda>(actionEntry, p4).
          if start \<le> ipOffset \<and> ipOffset < start + len then site pad actionEntry
          else if ipOffset < start then eh_stop Terminated
          else scan_call_sites mem ipOffset callSiteEncoding callSiteTableEnd site p4))))
      else eh_stop Terminated)"

text \<open>The header of the table: where the landing pads start, the type table and its encoding, the encoding of the
  call sites, and the bounds of the call site table.\<close>

definition lsda_header :: "memory \<Rightarrow> u64 \<Rightarrow> u64 \<Rightarrow> (u64 \<times> u64 \<times> u8 \<times> u8 \<times> u64 \<times> u64) eh" where
  "lsda_header mem table funcStart =
     eh_bind (readEncodedPointer mem (table + 1) (mem table)) (\<lambda>(start, p1).
     let lpStart = (if start = 0 then funcStart else start); ttypeEncoding = mem p1 in
     eh_bind (if ttypeEncoding \<noteq> DW_EH_PE_omit
              then eh_bind (readULEB128 mem (p1 + 1)) (\<lambda>(classInfoOffset, p2). eh_return (p2 + classInfoOffset, p2))
              else eh_return (0, p1 + 1))
       (\<lambda>(classInfo, p2).
     let callSiteEncoding = mem p2 in
     eh_bind (readULEB128 mem (p2 + 1)) (\<lambda>(len, callSiteTableStart).
       eh_return (lpStart, classInfo, ttypeEncoding, callSiteEncoding, callSiteTableStart,
         callSiteTableStart + ucast (ucast len :: u32)))))"

definition bad_actions :: "u32 \<Rightarrow> reason option" where
  "bad_actions actions =
     (if flag actions UA_SEARCH_PHASE then
        if flag actions (UA_CLEANUP_PHASE OR UA_HANDLER_FRAME OR UA_FORCE_UNWIND)
        then Some URC_FATAL_PHASE1_ERROR else None
      else if flag actions UA_CLEANUP_PHASE then
        if flag actions UA_HANDLER_FRAME \<and> flag actions UA_FORCE_UNWIND
        then Some URC_FATAL_PHASE2_ERROR else None
      else Some URC_FATAL_PHASE1_ERROR)"

definition scan_eh_tab ::
  "memory \<Rightarrow> can_catch \<Rightarrow> u32 \<Rightarrow> bool \<Rightarrow> cxa_exception \<Rightarrow> eh_context \<Rightarrow> scan_results eh" where
  "scan_eh_tab mem can_catch actions native ex context =
     (case bad_actions actions of
        Some r \<Rightarrow> eh_return (nothing_found 0 r)
      | None \<Rightarrow>
          let table = ctx_lsda context in
          if table = 0 then eh_return (nothing_found 0 URC_CONTINUE_UNWIND)
          else
            let ip = ctx_ip context - 1; funcStart = ctx_region_start context in
            eh_bind (lsda_header mem table funcStart)
              (\<lambda>(lpStart, classInfo, ttypeEncoding, callSiteEncoding, callSiteTableStart, callSiteTableEnd).
              scan_call_sites mem (ip - funcStart) callSiteEncoding callSiteTableEnd
                (scan_site mem can_catch actions native ex classInfo ttypeEncoding table lpStart callSiteTableEnd)
                callSiteTableStart))"

section \<open>The personality routine\<close>

definition is_native :: "u64 \<Rightarrow> bool" where
  "is_native exceptionClass =
     (exceptionClass AND get_vendor_and_language = kOurExceptionClass AND get_vendor_and_language)"

definition save_results :: "cxa_exception \<Rightarrow> scan_results \<Rightarrow> cxa_exception" where
  "save_results ex results = ex\<lparr>handlerSwitchValue := ucast (ttypeIndex results),
     actionRecord := found_actionRecord results, languageSpecificData := found_lsda results,
     catchTemp := landingPad results, adjustedPtr := found_adjustedPtr results\<rparr>"

definition saved_results :: "cxa_exception \<Rightarrow> scan_results" where
  "saved_results ex = \<lparr>ttypeIndex = scast (handlerSwitchValue ex), found_actionRecord = actionRecord ex,
     found_lsda = languageSpecificData ex, landingPad = catchTemp ex, found_adjustedPtr = adjustedPtr ex,
     scan_reason = URC_HANDLER_FOUND\<rparr>"

text \<open>A null context is \<open>None\<close>.\<close>

definition gxx_personality_v0 ::
  "memory \<Rightarrow> can_catch \<Rightarrow> int \<Rightarrow> u32 \<Rightarrow> u64 \<Rightarrow> cxa_exception \<Rightarrow> eh_context option \<Rightarrow>
     (reason \<times> cxa_exception \<times> eh_context option) eh" where
  "gxx_personality_v0 mem can_catch version actions exceptionClass ex context_ptr =
     (case context_ptr of
        None \<Rightarrow> eh_return (URC_FATAL_PHASE1_ERROR, ex, context_ptr)
      | Some context \<Rightarrow>
          if version \<noteq> 1 \<or> header_address ex = 0 then eh_return (URC_FATAL_PHASE1_ERROR, ex, context_ptr)
          else
            let native = is_native exceptionClass in
            if flag actions UA_SEARCH_PHASE then
              eh_bind (scan_eh_tab mem can_catch actions native ex context) (\<lambda>results.
                if scan_reason results = URC_HANDLER_FOUND
                then eh_return (URC_HANDLER_FOUND, if native then save_results ex results else ex, context_ptr)
                else eh_return (scan_reason results, ex, context_ptr))
            else if flag actions UA_CLEANUP_PHASE then
              if flag actions UA_HANDLER_FRAME then
                eh_bind (if native then eh_return (saved_results ex)
                         else eh_bind (scan_eh_tab mem can_catch actions native ex context) (\<lambda>results.
                           if scan_reason results \<noteq> URC_HANDLER_FOUND then eh_stop Terminated else eh_return results))
                  (\<lambda>results. eh_return (URC_INSTALL_CONTEXT, ex, Some (set_registers ex context results)))
              else
                eh_bind (scan_eh_tab mem can_catch actions native ex context) (\<lambda>results.
                  if scan_reason results = URC_HANDLER_FOUND
                  then eh_return (URC_INSTALL_CONTEXT, ex, Some (set_registers ex context results))
                  else eh_return (scan_reason results, ex, context_ptr))
            else eh_return (URC_FATAL_PHASE1_ERROR, ex, context_ptr))"

end
