(* ===== verification/EhSpec.thy ===== *)
theory EhSpec
  imports Personality
begin

text \<open>
  What the exception table means: LEB128 numbers as digit sequences, the table as a list of call sites with
  their clauses, and the search for a clause over it. The lemmas relate the byte-level scan of \<open>Personality\<close>
  to this reading.
\<close>

section \<open>LEB128\<close>

text \<open>A number is a sequence of 7-bit digits, least significant first; padding digits are allowed.\<close>

fun holds :: "memory \<Rightarrow> u64 \<Rightarrow> u8 list \<Rightarrow> bool" where
  "holds mem p [] = True"
| "holds mem p (b # bs) = (mem p = b \<and> holds mem (p + 1) bs)"

fun leb_bytes :: "nat list \<Rightarrow> u8 list" where
  "leb_bytes [] = []"
| "leb_bytes [d] = [of_nat d]"
| "leb_bytes (d # ds) = of_nat (d + 128) # leb_bytes ds"

fun leb_value :: "nat list \<Rightarrow> nat" where
  "leb_value [] = 0"
| "leb_value (d # ds) = d + 128 * leb_value ds"

definition leb_signed :: "nat list \<Rightarrow> int" where
  "leb_signed ds = int (leb_value ds) - (if 64 \<le> last ds then 128 ^ length ds else 0)"

lemma leb_value_bound: "\<forall>d\<in>set ds. d < 128 \<Longrightarrow> leb_value ds < 128 ^ length ds"
  by (induction ds) auto

lemma bit_small: "n < 2 ^ k \<Longrightarrow> k \<le> j \<Longrightarrow> \<not> bit (of_nat n :: 'a::len word) j"
proof -
  assume n: "n < 2 ^ k" "k \<le> j"
  have "of_nat n = (word_of_int (int n) :: 'a word)" by simp
  moreover have "\<not> bit (int n) j"
  proof -
    have "n < 2 ^ j" using n by (meson less_le_trans one_le_numeral power_increasing)
    then show ?thesis by (simp add: bit_of_nat_iff_bit bit_iff_odd)
  qed
  ultimately show ?thesis by (simp only: bit_word_of_int_iff) simp
qed

lemma or_disjoint: "n < 2 ^ k \<Longrightarrow> of_nat n OR push_bit k w = of_nat n + push_bit k (w :: 'a::len word)"
  by (rule disjunctive_add [symmetric]) (metis bit_push_bit_iff bit_small)

lemma digit_bits:
  assumes "d < 128"
  shows "(of_nat d :: u8) AND 0x80 = 0" "(of_nat (d + 128) :: u8) AND 0x80 \<noteq> 0"
    "ucast ((of_nat d :: u8) AND 0x7F) = (of_nat d :: u64)" "ucast ((of_nat (d + 128) :: u8) AND 0x7F) = (of_nat d :: u64)"
    "((of_nat d :: u8) AND 0x40 \<noteq> 0) = (64 \<le> d)"
proof -
  have "\<forall>d\<in>set [0..<128]. (of_nat d :: u8) AND 0x80 = 0 \<and> (of_nat (d + 128) :: u8) AND 0x80 \<noteq> 0 \<and>
    ucast ((of_nat d :: u8) AND 0x7F) = (of_nat d :: u64) \<and> ucast ((of_nat (d + 128) :: u8) AND 0x7F) = (of_nat d :: u64) \<and>
    ((of_nat d :: u8) AND 0x40 \<noteq> 0) = (64 \<le> d)" by code_simp
  then show "(of_nat d :: u8) AND 0x80 = 0" "(of_nat (d + 128) :: u8) AND 0x80 \<noteq> 0"
    "ucast ((of_nat d :: u8) AND 0x7F) = (of_nat d :: u64)" "ucast ((of_nat (d + 128) :: u8) AND 0x7F) = (of_nat d :: u64)"
    "((of_nat d :: u8) AND 0x40 \<noteq> 0) = (64 \<le> d)" using assms by auto
qed

lemma leb128_loop_digits:
  assumes "ds \<noteq> []" "\<forall>d\<in>set ds. d < 128" "holds mem p (leb_bytes ds)"
  shows "leb128_loop mem acc shift p =
    Some (acc OR push_bit shift (of_nat (leb_value ds)), shift + 7 * length ds, of_nat (last ds), p + of_nat (length ds))"
  using assms
proof (induction ds arbitrary: acc shift p rule: leb_bytes.induct)
  case (2 d)
  then show ?case by (subst leb128_loop.simps) (simp add: digit_bits Let_def)
next
  case (3 d e es)
  have d: "d < 128" using "3.prems" by simp
  have "(of_nat (leb_value (d # e # es)) :: u64) = of_nat d OR push_bit 7 (of_nat (leb_value (e # es)))"
    using or_disjoint [of d 7 "of_nat (leb_value (e # es)) :: u64"] d by (simp add: push_bit_eq_mult)
  moreover have "leb128_loop mem acc shift p =
     leb128_loop mem (acc OR push_bit shift (of_nat d)) (shift + 7) (p + 1)"
    by (subst leb128_loop.simps) (use "3.prems"(3) digit_bits [OF d] in \<open>simp add: Let_def\<close>)
  moreover have "leb128_loop mem (acc OR push_bit shift (of_nat d)) (shift + 7) (p + 1) = Some
     ((acc OR push_bit shift (of_nat d)) OR push_bit (shift + 7) (of_nat (leb_value (e # es))),
      shift + 7 + 7 * length (e # es), of_nat (last (e # es)), p + 1 + of_nat (length (e # es)))"
    by (rule "3.IH") (use "3.prems" in simp_all)
  ultimately show ?case by (simp add: push_bit_or push_bit_push_bit or.assoc add.commute add.left_commute)
qed simp

lemma leb128_digits:
  assumes "ds \<noteq> []" "length ds \<le> 10" "\<forall>d\<in>set ds. d < 128" "holds mem p (leb_bytes ds)"
  shows "readULEB128 mem p = eh_return (of_nat (leb_value ds), p + of_nat (length ds)) \<and>
    readSLEB128 mem p = eh_return (of_int (leb_signed ds), p + of_nat (length ds))"
proof -
  note l = leb128_loop_digits [OF assms(1,3,4), of 0 0]
  have last: "last ds < 128" using assms(1,3) by simp
  have m: "(of_nat (leb_value ds) OR push_bit (7 * length ds) (NOT 0) :: u64) = of_int (leb_signed ds)" if "64 \<le> last ds"
  proof -
    have "(2::nat) ^ (7 * length ds) = 128 ^ length ds" by (simp add: power_mult)
    then have "leb_value ds < 2 ^ (7 * length ds)" using leb_value_bound [OF assms(3)] by simp
    from or_disjoint [OF this, of "NOT 0 :: u64"]
    show ?thesis using that by (simp add: leb_signed_def push_bit_eq_mult power_mult)
  qed
  have z: "(128 ^ length ds :: u64) = 0" if "64 \<le> 7 * length ds"
  proof -
    have "length ds = 10" using that assms(2) by simp
    then show ?thesis by simp
  qed
  from l m z digit_bits(5) [OF last] show ?thesis
    by (auto simp: readULEB128_def readSLEB128_def eh_return_def leb_signed_def)
qed

lemma leb128_byte:
  assumes "mem p AND 0x80 = 0"
  shows "readULEB128 mem p = eh_return (ucast (mem p AND 0x7F), p + 1)"
    "mem p AND 0x40 = 0 \<Longrightarrow> readSLEB128 mem p = eh_return (ucast (mem p AND 0x7F), p + 1)"
  using assms by (auto simp: readULEB128_def readSLEB128_def leb128_loop.simps [of mem 0 0 p] Let_def eh_return_def)

section \<open>The table\<close>

text \<open>What an action stands for: a cleanup, \<open>catch (...)\<close>, \<open>catch (T)\<close> or an exception specification.\<close>

datatype clause = Cleanup | CatchAll | Catch u64 | Spec "u64 list"

fun spec_types_at :: "memory \<Rightarrow> u64 \<Rightarrow> u8 \<Rightarrow> u64 \<Rightarrow> u64 list \<Rightarrow> bool" where
  "spec_types_at mem classInfo enc p [] = (\<exists>p'. readULEB128 mem p = eh_return (0, p'))"
| "spec_types_at mem classInfo enc p (t # ts) =
     (\<exists>i p'. readULEB128 mem p = eh_return (i, p') \<and> i \<noteq> 0 \<and>
       get_shim_type_info mem i classInfo enc = eh_return t \<and> spec_types_at mem classInfo enc p' ts)"

definition clause_at :: "memory \<Rightarrow> u64 \<Rightarrow> u8 \<Rightarrow> u64 \<Rightarrow> clause \<Rightarrow> bool" where
  "clause_at mem classInfo enc i c =
     (case c of
        Cleanup \<Rightarrow> i = 0
      | CatchAll \<Rightarrow> 0 < sint i \<and> get_shim_type_info mem i classInfo enc = eh_return 0
      | Catch t \<Rightarrow> 0 < sint i \<and> t \<noteq> 0 \<and> get_shim_type_info mem i classInfo enc = eh_return t
      | Spec ts \<Rightarrow> sint i < 0 \<and> classInfo \<noteq> 0 \<and> spec_types_at mem classInfo enc (classInfo + (- i - 1)) ts)"

text \<open>An action: the address of its record, its type index and what it stands for.\<close>

type_synonym eh_action = "u64 \<times> u64 \<times> clause"

fun actions_at :: "memory \<Rightarrow> u64 \<Rightarrow> u8 \<Rightarrow> u64 \<Rightarrow> eh_action list \<Rightarrow> bool" where
  "actions_at mem classInfo enc p [] = False"
| "actions_at mem classInfo enc p ((r, i, c) # acts) =
     (r = p \<and> clause_at mem classInfo enc i c \<and>
      (\<exists>p1 offs p2. readSLEB128 mem p = eh_return (i, p1) \<and> readSLEB128 mem p1 = eh_return (offs, p2) \<and>
        (if acts = [] then offs = 0 else offs \<noteq> 0 \<and> actions_at mem classInfo enc (p1 + offs) acts)))"

record call_site =
  site_start :: u64
  site_length :: u64
  site_pad :: u64
  site_actions :: "eh_action list"

text \<open>A site without actions has the action entry 0 and stands for a cleanup.\<close>

fun sites_at :: "memory \<Rightarrow> u64 \<Rightarrow> u8 \<Rightarrow> u64 \<Rightarrow> u8 \<Rightarrow> u64 \<Rightarrow> call_site list \<Rightarrow> bool" where
  "sites_at mem classInfo enc actionStart siteEnc p [] = (\<not> p < actionStart)"
| "sites_at mem classInfo enc actionStart siteEnc p (s # ss) =
     (p < actionStart \<and>
      (\<exists>p1 p2 p3 entry p4.
        readEncodedPointer mem p siteEnc = eh_return (site_start s, p1) \<and>
        readEncodedPointer mem p1 siteEnc = eh_return (site_length s, p2) \<and>
        readEncodedPointer mem p2 siteEnc = eh_return (site_pad s, p3) \<and>
        readULEB128 mem p3 = eh_return (entry, p4) \<and>
        (if site_actions s = [] then entry = 0
         else entry \<noteq> 0 \<and> (site_pad s \<noteq> 0 \<longrightarrow> actions_at mem classInfo enc (actionStart + (entry - 1)) (site_actions s))) \<and>
        sites_at mem classInfo enc actionStart siteEnc p4 ss))"

definition covers :: "u64 \<Rightarrow> call_site \<Rightarrow> bool" where
  "covers off s \<longleftrightarrow> site_start s \<le> off \<and> off < site_start s + site_length s"

fun lookup_site :: "u64 \<Rightarrow> call_site list \<Rightarrow> call_site option" where
  "lookup_site off [] = None"
| "lookup_site off (s # ss) =
     (if covers off s then Some s else if off < site_start s then None else lookup_site off ss)"

text \<open>A table at an address: its sites and where its landing pads are counted from.\<close>

definition table_at :: "memory \<Rightarrow> u64 \<Rightarrow> u64 \<Rightarrow> u64 \<Rightarrow> call_site list \<Rightarrow> bool" where
  "table_at mem table funcStart lpStart sites \<longleftrightarrow>
     (\<exists>classInfo enc siteEnc siteStart actionStart.
       lsda_header mem table funcStart = eh_return (lpStart, classInfo, enc, siteEnc, siteStart, actionStart) \<and>
       sites_at mem classInfo enc actionStart siteEnc siteStart sites)"

section \<open>The search\<close>

text \<open>Which clauses catch an exception, and the object pointer the handler gets.\<close>

fun catches :: "can_catch \<Rightarrow> bool \<Rightarrow> cxa_exception \<Rightarrow> clause \<Rightarrow> bool" where
  "catches can_catch native ex Cleanup = False"
| "catches can_catch native ex CatchAll = True"
| "catches can_catch native ex (Catch t) = (native \<and> fst (can_catch t (exceptionType ex) (get_thrown_object_ptr ex)))"
| "catches can_catch native ex (Spec ts) =
     (native \<longrightarrow> (\<forall>t\<in>set ts. \<not> fst (can_catch t (exceptionType ex) (get_thrown_object_ptr ex))))"

fun handler_object :: "can_catch \<Rightarrow> cxa_exception \<Rightarrow> clause \<Rightarrow> u64" where
  "handler_object can_catch ex (Catch t) = snd (can_catch t (exceptionType ex) (get_thrown_object_ptr ex))"
| "handler_object can_catch ex c = get_thrown_object_ptr ex"

definition proper :: "bool \<Rightarrow> cxa_exception \<Rightarrow> bool" where
  "proper native ex \<longleftrightarrow> (native \<longrightarrow> get_thrown_object_ptr ex \<noteq> 0 \<and> exceptionType ex \<noteq> 0)"

definition search_result :: "can_catch \<Rightarrow> bool \<Rightarrow> cxa_exception \<Rightarrow> u64 \<Rightarrow> u64 \<Rightarrow> call_site \<Rightarrow> scan_results" where
  "search_result can_catch native ex table lpStart s =
     (if site_pad s = 0 then nothing_found table URC_CONTINUE_UNWIND
      else case List.find (\<lambda>(r, i, c). catches can_catch native ex c) (site_actions s) of
        None \<Rightarrow> nothing_found table URC_CONTINUE_UNWIND
      | Some (r, i, c) \<Rightarrow> handler_found i r table (lpStart + site_pad s) (handler_object can_catch ex c))"

text \<open>The actions of a cleanup scan: only cleanups are taken; unless the unwinding is forced, a clause that catches
  before one is a contradiction to the search phase.\<close>

fun cleanup_result :: "can_catch \<Rightarrow> bool \<Rightarrow> bool \<Rightarrow> cxa_exception \<Rightarrow> u64 \<Rightarrow> u64 \<Rightarrow> eh_action list \<Rightarrow> scan_results eh" where
  "cleanup_result can_catch forced native ex table pad [] = eh_return (nothing_found table URC_CONTINUE_UNWIND)"
| "cleanup_result can_catch forced native ex table pad ((r, i, c) # acts) =
     (if c = Cleanup then eh_return (handler_found 0 r table pad (get_thrown_object_ptr ex))
      else if catches can_catch native ex c \<and> \<not> forced then eh_stop Terminated
      else cleanup_result can_catch forced native ex table pad acts)"

end
