(* ===== verification/EhProperties.thy ===== *)
theory EhProperties
  imports EhSpec
begin

text \<open>
  The personality routine against the meaning of the exception table: the search phase finds the clause the
  language prescribes, the cleanup phase takes cleanups only, and the two phases of one throw agree.
\<close>

section \<open>Actions\<close>

lemma spec_loop_types:
  "spec_types_at mem classInfo enc p ts \<Longrightarrow>
   exception_spec_loop mem cc classInfo enc exc adj p = eh_return (\<forall>t\<in>set ts. \<not> fst (cc t exc adj))"
proof (induction ts arbitrary: p)
  case Nil
  then show ?case by (subst exception_spec_loop.simps) auto
next
  case (Cons t ts)
  then obtain i p' where i: "readULEB128 mem p = eh_return (i, p')" "i \<noteq> 0"
    "get_shim_type_info mem i classInfo enc = eh_return t" "spec_types_at mem classInfo enc p' ts" by auto
  from Cons.IH [OF i(4)] i(1-3) show ?case by (subst exception_spec_loop.simps) simp
qed

text \<open>Scans that stop at handlers: the search phase, and the second scan for a foreign exception.\<close>

definition stops_at_handlers :: "u32 \<Rightarrow> bool \<Rightarrow> bool" where
  "stops_at_handlers actions native \<longleftrightarrow>
     (flag actions UA_SEARCH_PHASE \<or> (flag actions UA_HANDLER_FRAME \<and> \<not> native)) \<and>
     \<not> (flag actions UA_CLEANUP_PHASE \<and> \<not> flag actions UA_HANDLER_FRAME)"

lemma check_action_search:
  assumes "clause_at mem classInfo enc i c" "proper native ex" "stops_at_handlers actions native"
  shows "check_action mem cc actions native ex classInfo enc i =
    eh_return (if catches cc native ex c then Some (handler_object cc ex c) else None)"
  using assms
  by (cases c) (auto simp: check_action_def clause_at_def proper_def stops_at_handlers_def caught_def
    exception_spec_can_catch_def spec_loop_types Let_def split: prod.splits)

lemma check_action_cleanup:
  assumes "clause_at mem classInfo enc i c" "proper native ex"
    "flag actions UA_CLEANUP_PHASE" "\<not> flag actions UA_HANDLER_FRAME" "\<not> flag actions UA_SEARCH_PHASE"
  shows "check_action mem cc actions native ex classInfo enc i =
    (if c = Cleanup then eh_return (Some (get_thrown_object_ptr ex))
     else if catches cc native ex c \<and> \<not> flag actions UA_FORCE_UNWIND then eh_stop Terminated
     else eh_return None)"
  using assms
  by (cases c) (auto simp: check_action_def clause_at_def proper_def caught_def
    exception_spec_can_catch_def spec_loop_types Let_def split: prod.splits)

lemma scan_actions_search:
  assumes "actions_at mem classInfo enc p acts" "proper native ex" "stops_at_handlers actions native"
  shows "scan_actions mem (check_action mem cc actions native ex classInfo enc) table pad p =
    eh_return (case List.find (\<lambda>(r, i, c). catches cc native ex c) acts of
        None \<Rightarrow> nothing_found table URC_CONTINUE_UNWIND
      | Some (r, i, c) \<Rightarrow> handler_found i r table pad (handler_object cc ex c))"
  using assms(1)
proof (induction acts arbitrary: p)
  case (Cons a acts)
  obtain r i c where a: "a = (r, i, c)" by (cases a)
  with Cons.prems obtain p1 offs p2 where s: "r = p" "clause_at mem classInfo enc i c"
    "readSLEB128 mem p = eh_return (i, p1)" "readSLEB128 mem p1 = eh_return (offs, p2)"
    "if acts = [] then offs = 0 else offs \<noteq> 0 \<and> actions_at mem classInfo enc (p1 + offs) acts" by auto
  note c = check_action_search [OF s(2) assms(2,3), of cc]
  show ?case
  proof (cases "catches cc native ex c")
    case True
    with a s c show ?thesis by (subst scan_actions.simps) simp
  next
    case False
    then show ?thesis
    proof (cases "acts = []")
      case True
      with a s c False show ?thesis by (subst scan_actions.simps) simp
    next
      case more: False
      with s(5) have "offs \<noteq> 0" "actions_at mem classInfo enc (p1 + offs) acts" by simp_all
      with a s(1-4) c False Cons.IH [OF this(2)] show ?thesis by (subst scan_actions.simps) simp
    qed
  qed
qed simp

lemma scan_actions_cleanup:
  assumes "actions_at mem classInfo enc p acts" "proper native ex"
    "flag actions UA_CLEANUP_PHASE" "\<not> flag actions UA_HANDLER_FRAME" "\<not> flag actions UA_SEARCH_PHASE"
  shows "scan_actions mem (check_action mem cc actions native ex classInfo enc) table pad p =
    cleanup_result cc (flag actions UA_FORCE_UNWIND) native ex table pad acts"
  using assms(1)
proof (induction acts arbitrary: p)
  case (Cons a acts)
  obtain r i c where a: "a = (r, i, c)" by (cases a)
  with Cons.prems obtain p1 offs p2 where s: "r = p" "clause_at mem classInfo enc i c"
    "readSLEB128 mem p = eh_return (i, p1)" "readSLEB128 mem p1 = eh_return (offs, p2)"
    "if acts = [] then offs = 0 else offs \<noteq> 0 \<and> actions_at mem classInfo enc (p1 + offs) acts" by auto
  note c = check_action_cleanup [OF s(2) assms(2-5), of cc]
  have i0: "c = Cleanup \<Longrightarrow> i = 0" using s(2) by (simp add: clause_at_def)
  have rest: "acts \<noteq> [] \<Longrightarrow> offs \<noteq> 0 \<and> scan_actions mem (check_action mem cc actions native ex classInfo enc) table pad (p1 + offs) =
      cleanup_result cc (flag actions UA_FORCE_UNWIND) native ex table pad acts"
    using s(5) Cons.IH by simp
  show ?case
    by (subst scan_actions.simps, cases "acts = []") (use a s c i0 rest in auto)
qed simp

section \<open>Call sites\<close>

lemma scan_sites_lookup:
  assumes "sites_at mem classInfo enc actionStart siteEnc p sites"
    and "\<And>s entry. s \<in> set sites \<Longrightarrow>
      (if site_actions s = [] then entry = 0
       else entry \<noteq> 0 \<and> (site_pad s \<noteq> 0 \<longrightarrow> actions_at mem classInfo enc (actionStart + (entry - 1)) (site_actions s))) \<Longrightarrow>
      site (site_pad s) entry = result s"
  shows "scan_call_sites mem off siteEnc actionStart site p =
    (case lookup_site off sites of None \<Rightarrow> eh_stop Terminated | Some s \<Rightarrow> result s)"
  using assms
proof (induction sites arbitrary: p)
  case Nil
  then show ?case by (subst scan_call_sites.simps) simp
next
  case (Cons s ss)
  from Cons.prems(1) obtain p1 p2 p3 entry p4 where r: "p < actionStart"
    "readEncodedPointer mem p siteEnc = eh_return (site_start s, p1)"
    "readEncodedPointer mem p1 siteEnc = eh_return (site_length s, p2)"
    "readEncodedPointer mem p2 siteEnc = eh_return (site_pad s, p3)"
    "readULEB128 mem p3 = eh_return (entry, p4)"
    and e: "if site_actions s = [] then entry = 0
       else entry \<noteq> 0 \<and> (site_pad s \<noteq> 0 \<longrightarrow> actions_at mem classInfo enc (actionStart + (entry - 1)) (site_actions s))"
    and ss: "sites_at mem classInfo enc actionStart siteEnc p4 ss" by auto
  have "site (site_pad s) entry = result s" by (rule Cons.prems(2)) (use e in simp_all)
  moreover have "scan_call_sites mem off siteEnc actionStart site p4 =
      (case lookup_site off ss of None \<Rightarrow> eh_stop Terminated | Some s \<Rightarrow> result s)"
    by (rule Cons.IH [OF ss]) (use Cons.prems(2) in simp)
  ultimately show ?case using r by (subst scan_call_sites.simps) (simp add: covers_def)
qed

lemma scan_site_search:
  assumes "if site_actions s = [] then entry = 0
      else entry \<noteq> 0 \<and> (site_pad s \<noteq> 0 \<longrightarrow> actions_at mem classInfo enc (actionStart + (entry - 1)) (site_actions s))"
    "proper native ex" "stops_at_handlers actions native"
  shows "scan_site mem cc actions native ex classInfo enc table lpStart actionStart (site_pad s) entry =
    eh_return (search_result cc native ex table lpStart s)"
proof (cases "site_pad s = 0 \<or> site_actions s = []")
  case True
  with assms(1,3) show ?thesis
    by (auto simp: scan_site_def search_result_def stops_at_handlers_def Let_def)
next
  case False
  with assms scan_actions_search [of mem classInfo enc "actionStart + (entry - 1)" "site_actions s"]
  show ?thesis by (simp add: scan_site_def search_result_def Let_def)
qed

lemma scan_search:
  assumes "table_at mem (ctx_lsda context) (ctx_region_start context) lpStart sites" "ctx_lsda context \<noteq> 0"
    "proper native ex" "stops_at_handlers actions native" "bad_actions actions = None"
  shows "scan_eh_tab mem cc actions native ex context =
    (case lookup_site (ctx_ip context - 1 - ctx_region_start context) sites of
       None \<Rightarrow> eh_stop Terminated
     | Some s \<Rightarrow> eh_return (search_result cc native ex (ctx_lsda context) lpStart s))"
proof -
  from assms(1) obtain classInfo enc siteEnc siteStart actionStart where h:
    "lsda_header mem (ctx_lsda context) (ctx_region_start context) =
       eh_return (lpStart, classInfo, enc, siteEnc, siteStart, actionStart)"
    and s: "sites_at mem classInfo enc actionStart siteEnc siteStart sites"
    unfolding table_at_def by blast
  have "scan_call_sites mem off siteEnc actionStart
      (scan_site mem cc actions native ex classInfo enc (ctx_lsda context) lpStart actionStart) siteStart =
    (case lookup_site off sites of None \<Rightarrow> eh_stop Terminated
     | Some s \<Rightarrow> eh_return (search_result cc native ex (ctx_lsda context) lpStart s))" for off
    by (rule scan_sites_lookup [OF s]) (rule scan_site_search [OF _ assms(3,4)])
  then show ?thesis using assms(2,5) h by (simp add: scan_eh_tab_def Let_def)
qed

definition cleanup_scan ::
  "can_catch \<Rightarrow> bool \<Rightarrow> bool \<Rightarrow> cxa_exception \<Rightarrow> u64 \<Rightarrow> u64 \<Rightarrow> call_site \<Rightarrow> scan_results eh" where
  "cleanup_scan cc forced native ex table lpStart s =
     (if site_pad s = 0 then eh_return (nothing_found table URC_CONTINUE_UNWIND)
      else if site_actions s = [] then eh_return (handler_found 0 0 table (lpStart + site_pad s) 0)
      else cleanup_result cc forced native ex table (lpStart + site_pad s) (site_actions s))"

lemma scan_site_cleanup:
  assumes "if site_actions s = [] then entry = 0
      else entry \<noteq> 0 \<and> (site_pad s \<noteq> 0 \<longrightarrow> actions_at mem classInfo enc (actionStart + (entry - 1)) (site_actions s))"
    "proper native ex"
    "flag actions UA_CLEANUP_PHASE" "\<not> flag actions UA_HANDLER_FRAME" "\<not> flag actions UA_SEARCH_PHASE"
  shows "scan_site mem cc actions native ex classInfo enc table lpStart actionStart (site_pad s) entry =
    cleanup_scan cc (flag actions UA_FORCE_UNWIND) native ex table lpStart s"
  using assms(1) scan_actions_cleanup [OF _ assms(2-5), of mem classInfo enc "actionStart + (entry - 1)" "site_actions s"]
    assms(3,4)
  by (cases "site_pad s = 0"; cases "site_actions s = []") (simp_all add: scan_site_def cleanup_scan_def Let_def)

lemma scan_cleanup:
  assumes "table_at mem (ctx_lsda context) (ctx_region_start context) lpStart sites" "ctx_lsda context \<noteq> 0"
    "proper native ex" "flag actions UA_CLEANUP_PHASE" "\<not> flag actions UA_HANDLER_FRAME" "\<not> flag actions UA_SEARCH_PHASE"
  shows "scan_eh_tab mem cc actions native ex context =
    (case lookup_site (ctx_ip context - 1 - ctx_region_start context) sites of
       None \<Rightarrow> eh_stop Terminated
     | Some s \<Rightarrow> cleanup_scan cc (flag actions UA_FORCE_UNWIND) native ex (ctx_lsda context) lpStart s)"
proof -
  from assms(1) obtain classInfo enc siteEnc siteStart actionStart where h:
    "lsda_header mem (ctx_lsda context) (ctx_region_start context) =
       eh_return (lpStart, classInfo, enc, siteEnc, siteStart, actionStart)"
    and s: "sites_at mem classInfo enc actionStart siteEnc siteStart sites"
    unfolding table_at_def by blast
  have "scan_call_sites mem off siteEnc actionStart
      (scan_site mem cc actions native ex classInfo enc (ctx_lsda context) lpStart actionStart) siteStart =
    (case lookup_site off sites of None \<Rightarrow> eh_stop Terminated
     | Some s \<Rightarrow> cleanup_scan cc (flag actions UA_FORCE_UNWIND) native ex (ctx_lsda context) lpStart s)" for off
    by (rule scan_sites_lookup [OF s]) (rule scan_site_cleanup [OF _ assms(3-6)])
  moreover have "bad_actions actions = None" using assms(4-6) by (simp add: bad_actions_def)
  ultimately show ?thesis using assms(2) h by (simp add: scan_eh_tab_def Let_def)
qed

section \<open>The phases\<close>

lemma flag_simps [simp]:
  "flag UA_SEARCH_PHASE UA_SEARCH_PHASE" "\<not> flag UA_SEARCH_PHASE UA_CLEANUP_PHASE" "\<not> flag UA_SEARCH_PHASE UA_HANDLER_FRAME"
  "\<not> flag UA_SEARCH_PHASE UA_FORCE_UNWIND"
  "flag (UA_CLEANUP_PHASE OR UA_HANDLER_FRAME) UA_CLEANUP_PHASE" "flag (UA_CLEANUP_PHASE OR UA_HANDLER_FRAME) UA_HANDLER_FRAME"
  "\<not> flag (UA_CLEANUP_PHASE OR UA_HANDLER_FRAME) UA_SEARCH_PHASE" "\<not> flag (UA_CLEANUP_PHASE OR UA_HANDLER_FRAME) UA_FORCE_UNWIND"
  "flag UA_CLEANUP_PHASE UA_CLEANUP_PHASE" "\<not> flag UA_CLEANUP_PHASE UA_SEARCH_PHASE" "\<not> flag UA_CLEANUP_PHASE UA_HANDLER_FRAME"
  "\<not> flag UA_CLEANUP_PHASE UA_FORCE_UNWIND"
  "flag (UA_FORCE_UNWIND OR UA_CLEANUP_PHASE) UA_CLEANUP_PHASE" "flag (UA_FORCE_UNWIND OR UA_CLEANUP_PHASE) UA_FORCE_UNWIND"
  "\<not> flag (UA_FORCE_UNWIND OR UA_CLEANUP_PHASE) UA_SEARCH_PHASE" "\<not> flag (UA_FORCE_UNWIND OR UA_CLEANUP_PHASE) UA_HANDLER_FRAME"
  "bad_actions UA_SEARCH_PHASE = None" "bad_actions (UA_CLEANUP_PHASE OR UA_HANDLER_FRAME) = None"
  by (simp_all add: flag_def bad_actions_def UA_SEARCH_PHASE_def UA_CLEANUP_PHASE_def UA_HANDLER_FRAME_def UA_FORCE_UNWIND_def)

text \<open>For a foreign exception the second scan is the first one.\<close>

lemma check_action_foreign:
  "check_action mem cc (UA_CLEANUP_PHASE OR UA_HANDLER_FRAME) False ex classInfo enc =
   check_action mem cc UA_SEARCH_PHASE False ex classInfo enc"
  by (rule ext) (simp add: check_action_def caught_def Let_def cong: if_cong)

lemma scan_foreign:
  "scan_eh_tab mem cc (UA_CLEANUP_PHASE OR UA_HANDLER_FRAME) False ex context =
   scan_eh_tab mem cc UA_SEARCH_PHASE False ex context"
proof -
  have "scan_site mem cc (UA_CLEANUP_PHASE OR UA_HANDLER_FRAME) False ex = scan_site mem cc UA_SEARCH_PHASE False ex"
    by (intro ext) (simp add: scan_site_def check_action_foreign Let_def)
  then show ?thesis by (simp add: scan_eh_tab_def Let_def cong: if_cong)
qed

lemma saved_index:
  "- (2 ^ 31) \<le> sint i \<Longrightarrow> sint i < 2 ^ 31 \<Longrightarrow> (scast (ucast (i :: u64) :: u32) :: u64) = i"
proof -
  assume "- (2 ^ 31) \<le> sint i" "sint i < 2 ^ 31"
  then have "signed_take_bit 31 (sint i) = sint i" by (simp add: signed_take_bit_int_eq_self)
  then have "sint (ucast i :: u32) = sint i"
    by (simp add: sint_uint unsigned_ucast_eq signed_take_bit_take_bit)
  then show ?thesis by (simp add: scast_eq)
qed

text \<open>C13. Both LEB128 readers decode every encoding of at most ten bytes, padded ones included, to the value
  it stands for, and stop behind its last byte.\<close>

theorem leb128_decoded:
  assumes "ds \<noteq> []" "length ds \<le> 10" "\<forall>d\<in>set ds. d < 128" "holds mem p (leb_bytes ds)"
  shows "readULEB128 mem p = eh_return (of_nat (leb_value ds), p + of_nat (length ds)) \<and>
    readSLEB128 mem p = eh_return (of_int (leb_signed ds), p + of_nat (length ds))"
  by (rule leb128_digits [OF assms])

theorem leb128_decoded_witness:
  "readULEB128 (\<lambda>a. if a = 5 then 0xE5 else if a = 6 then 0x8E else 0x26) 5 = eh_return (624485, 8) \<and>
   readSLEB128 (\<lambda>a. if a = 5 then 0xC0 else if a = 6 then 0xBB else 0x78) 5 = eh_return (- 123456, 8)"
proof
  show "readULEB128 (\<lambda>a. if a = 5 then 0xE5 else if a = 6 then 0x8E else 0x26) 5 = eh_return (624485, 8)"
    using conjunct1 [OF leb128_decoded [of "[0x65, 0x0E, 0x26]" "\<lambda>a. if a = 5 then 0xE5 else if a = 6 then 0x8E else 0x26" 5]]
    by simp
  show "readSLEB128 (\<lambda>a. if a = 5 then 0xC0 else if a = 6 then 0xBB else 0x78) 5 = eh_return (- 123456, 8)"
    using conjunct2 [OF leb128_decoded [of "[0x40, 0x3B, 0x78]" "\<lambda>a. if a = 5 then 0xC0 else if a = 6 then 0xBB else 0x78" 5]]
    by (simp add: leb_signed_def)
qed

text \<open>A table for the witnesses: a site with a catch clause and a cleanup, and a site that is a cleanup.\<close>

definition demo_table :: "u8 list" where
  "demo_table = [0xFF, 0x00, 0x16, 0x01, 0x08, 0x00, 0x10, 0x40, 0x01, 0x10, 0x10, 0x50, 0x00,
     0x01, 0x01, 0x00, 0x00, 0x00, 0x50, 0, 0, 0, 0, 0, 0]"

definition demo_memory :: memory where
  "demo_memory a = (if 0x1000 \<le> a \<and> a < 0x1019 then demo_table ! unat (a - 0x1000) else 0)"

definition demo_sites :: "call_site list" where
  "demo_sites =
     [\<lparr>site_start = 0, site_length = 0x10, site_pad = 0x40,
       site_actions = [(0x100D, 1, Catch 0x5000), (0x100F, 0, Cleanup)]\<rparr>,
      \<lparr>site_start = 0x10, site_length = 0x10, site_pad = 0x50, site_actions = []\<rparr>]"

definition demo_context :: eh_context where
  "demo_context = \<lparr>ctx_lsda = 0x1000, ctx_ip = 0x2005, ctx_region_start = 0x2000, ctx_gr = [0, 0]\<rparr>"

definition demo_thrown :: cxa_exception where
  "demo_thrown = \<lparr>header_address = 0x8000, header_class = kOurExceptionClass, exceptionType = 0x6000,
     primaryException = 0, handlerSwitchValue = 0, actionRecord = 0, languageSpecificData = 0, catchTemp = 0,
     adjustedPtr = 0\<rparr>"

definition demo_can_catch :: can_catch where
  "demo_can_catch t e a = (t = 0x5000 \<and> e = 0x6000, a)"

lemma demo_bytes:
  "demo_memory 0x1000 = 0xFF" "demo_memory 0x1001 = 0" "demo_memory 0x1002 = 0x16" "demo_memory 0x1003 = 1"
  "demo_memory 0x1004 = 8" "demo_memory 0x1005 = 0" "demo_memory 0x1006 = 0x10" "demo_memory 0x1007 = 0x40"
  "demo_memory 0x1008 = 1" "demo_memory 0x1009 = 0x10" "demo_memory 0x100A = 0x10" "demo_memory 0x100B = 0x50"
  "demo_memory 0x100C = 0" "demo_memory 0x100D = 1" "demo_memory 0x100E = 1" "demo_memory 0x100F = 0"
  "demo_memory 0x1010 = 0" "demo_memory 0x1011 = 0" "demo_memory 0x1012 = 0x50" "demo_memory 0x1013 = 0"
  "demo_memory 0x1014 = 0" "demo_memory 0x1015 = 0" "demo_memory 0x1016 = 0" "demo_memory 0x1017 = 0" "demo_memory 0x1018 = 0"
  by code_simp+

lemma demo_pointer: "read_bytes demo_memory 8 0x1011 = 0x5000"
  by code_simp

lemma demo_reads:
  "lsda_header demo_memory 0x1000 0x2000 = eh_return (0x2000, 0x1019, 0, 1, 0x1005, 0x100D)"
  "readEncodedPointer demo_memory 0x1005 1 = eh_return (0, 0x1006)" "readEncodedPointer demo_memory 0x1006 1 = eh_return (0x10, 0x1007)"
  "readEncodedPointer demo_memory 0x1007 1 = eh_return (0x40, 0x1008)" "readULEB128 demo_memory 0x1008 = eh_return (1, 0x1009)"
  "readEncodedPointer demo_memory 0x1009 1 = eh_return (0x10, 0x100A)" "readEncodedPointer demo_memory 0x100A 1 = eh_return (0x10, 0x100B)"
  "readEncodedPointer demo_memory 0x100B 1 = eh_return (0x50, 0x100C)" "readULEB128 demo_memory 0x100C = eh_return (0, 0x100D)"
  "readSLEB128 demo_memory 0x100D = eh_return (1, 0x100E)" "readSLEB128 demo_memory 0x100E = eh_return (1, 0x100F)"
  "readSLEB128 demo_memory 0x100F = eh_return (0, 0x1010)" "readSLEB128 demo_memory 0x1010 = eh_return (0, 0x1011)"
  "get_shim_type_info demo_memory 1 0x1019 0 = eh_return 0x5000"
  by (simp_all add: lsda_header_def readEncodedPointer_def read_value_def get_shim_type_info_def readPointerHelper_def
      leb128_byte demo_bytes demo_pointer eh_simps)

lemma demo_table_at: "table_at demo_memory (ctx_lsda demo_context) (ctx_region_start demo_context) 0x2000 demo_sites"
proof -
  have "sites_at demo_memory 0x1019 0 0x100D 1 0x1005 demo_sites"
    by (simp add: demo_sites_def demo_reads clause_at_def)
  with demo_reads(1) show ?thesis by (auto simp: table_at_def demo_context_def)
qed

lemma demo_proper: "proper (is_native kOurExceptionClass) demo_thrown" "is_native kOurExceptionClass"
  by (simp_all add: proper_def is_native_def demo_thrown_def get_thrown_object_ptr_def kOurExceptionClass_def
      kOurDependentExceptionClass_def sizeof_unwind_exception_def)

text \<open>C10. Search phase: on a well-formed exception table \<open>__gxx_personality_v0\<close> ends the program when no
  call site covers the instruction, and otherwise reports a handler exactly when the landing pad of the first
  such site has a clause that catches, taking the first one and saving its result for a native exception.\<close>

theorem personality_search:
  assumes "table_at mem (ctx_lsda context) (ctx_region_start context) lpStart sites" "ctx_lsda context \<noteq> 0"
    "proper (is_native cls) ex" "header_address ex \<noteq> 0"
  shows "gxx_personality_v0 mem cc 1 UA_SEARCH_PHASE cls ex (Some context) =
    (case lookup_site (ctx_ip context - 1 - ctx_region_start context) sites of
       None \<Rightarrow> eh_stop Terminated
     | Some s \<Rightarrow> eh_return
         (case if site_pad s = 0 then None
               else List.find (\<lambda>(r, i, c). catches cc (is_native cls) ex c) (site_actions s) of
            None \<Rightarrow> (URC_CONTINUE_UNWIND, ex, Some context)
          | Some (r, i, c) \<Rightarrow> (URC_HANDLER_FOUND,
              if is_native cls
              then save_results ex (handler_found i r (ctx_lsda context) (lpStart + site_pad s) (handler_object cc ex c))
              else ex, Some context)))"
proof -
  have "stops_at_handlers UA_SEARCH_PHASE (is_native cls)" by (simp add: stops_at_handlers_def)
  from scan_search [OF assms(1-3) this] assms(4) show ?thesis
    by (auto simp: gxx_personality_v0_def search_result_def handler_found_def nothing_found_def Let_def
        split: option.splits)
qed

theorem personality_search_witness:
  "gxx_personality_v0 demo_memory demo_can_catch 1 UA_SEARCH_PHASE kOurExceptionClass demo_thrown (Some demo_context) =
     eh_return (URC_HANDLER_FOUND, save_results demo_thrown (handler_found 1 0x100D 0x1000 0x2040 0x8020), Some demo_context)"
  using personality_search [OF demo_table_at _ demo_proper(1), of demo_can_catch] demo_proper(2)
  by (simp add: demo_context_def demo_sites_def covers_def demo_can_catch_def demo_thrown_def get_thrown_object_ptr_def
      kOurExceptionClass_def kOurDependentExceptionClass_def sizeof_unwind_exception_def)

text \<open>C12. Cleanup phase, also of a forced unwinding: control goes to a landing pad exactly for a cleanup
  site or the first cleanup among the actions; a catching clause before it ends the program unless the unwinding is
  forced, and is passed over otherwise.\<close>

theorem personality_cleanup:
  assumes "table_at mem (ctx_lsda context) (ctx_region_start context) lpStart sites" "ctx_lsda context \<noteq> 0"
    "proper (is_native cls) ex" "header_address ex \<noteq> 0"
    "actions = (if forced then UA_FORCE_UNWIND OR UA_CLEANUP_PHASE else UA_CLEANUP_PHASE)"
  shows "gxx_personality_v0 mem cc 1 actions cls ex (Some context) =
    (case lookup_site (ctx_ip context - 1 - ctx_region_start context) sites of
       None \<Rightarrow> eh_stop Terminated
     | Some s \<Rightarrow> eh_bind (cleanup_scan cc forced (is_native cls) ex (ctx_lsda context) lpStart s) (\<lambda>results.
         eh_return (if scan_reason results = URC_HANDLER_FOUND
           then (URC_INSTALL_CONTEXT, ex, Some (set_registers ex context results))
           else (scan_reason results, ex, Some context))))"
proof -
  have "flag actions UA_CLEANUP_PHASE" "\<not> flag actions UA_HANDLER_FRAME" "\<not> flag actions UA_SEARCH_PHASE"
    "flag actions UA_FORCE_UNWIND = forced"
    using assms(5) by simp_all
  then show ?thesis
    using scan_cleanup [OF assms(1-3), of actions] assms(4)
    by (auto simp: gxx_personality_v0_def Let_def split: option.splits intro!: arg_cong [where f = "eh_bind _"])
qed

theorem personality_cleanup_witness:
  "gxx_personality_v0 demo_memory demo_can_catch 1 (UA_FORCE_UNWIND OR UA_CLEANUP_PHASE) kOurExceptionClass demo_thrown
       (Some demo_context) =
     eh_return (URC_INSTALL_CONTEXT, demo_thrown,
       Some (set_registers demo_thrown demo_context (handler_found 0 0x100F 0x1000 0x2040 0x8020)))"
  using personality_cleanup [OF demo_table_at _ demo_proper(1), of "UA_FORCE_UNWIND OR UA_CLEANUP_PHASE" True demo_can_catch]
    demo_proper(2)
  by (simp add: demo_context_def demo_sites_def covers_def demo_thrown_def get_thrown_object_ptr_def cleanup_scan_def
      handler_found_def kOurExceptionClass_def kOurDependentExceptionClass_def sizeof_unwind_exception_def)

text \<open>C11. The two phases of a throw agree: when the search phase of a frame reports a handler, the call with
  \<open>_UA_HANDLER_FRAME\<close> that follows transfers control to the landing pad the search found, with the exception
  and the same type index in the registers, provided the index fits the \<open>int\<close> it is saved in. A foreign exception
  is scanned again with the same result.\<close>

theorem personality_phases_agree:
  assumes "scan_eh_tab mem cc UA_SEARCH_PHASE (is_native cls) ex context = eh_return results"
    "scan_reason results = URC_HANDLER_FOUND" "- (2 ^ 31) \<le> sint (ttypeIndex results)" "sint (ttypeIndex results) < 2 ^ 31"
    "header_address ex \<noteq> 0"
  shows "\<exists>ex'. gxx_personality_v0 mem cc 1 UA_SEARCH_PHASE cls ex (Some context) =
        eh_return (URC_HANDLER_FOUND, ex', Some context) \<and>
      gxx_personality_v0 mem cc 1 (UA_CLEANUP_PHASE OR UA_HANDLER_FRAME) cls ex' (Some context) =
        eh_return (URC_INSTALL_CONTEXT, ex', Some (set_registers ex context results))"
proof (cases "is_native cls")
  case True
  define ex' where "ex' = save_results ex results"
  have "saved_results ex' = results" using assms(2) saved_index [OF assms(3,4)]
    by (simp add: ex'_def saved_results_def save_results_def)
  moreover have "set_registers ex' = set_registers ex" "header_address ex' = header_address ex"
    by (simp_all add: ex'_def save_results_def set_registers_def fun_eq_iff)
  ultimately show ?thesis using assms(1,2,5) True
    by (intro exI [of _ ex']) (simp add: gxx_personality_v0_def ex'_def)
next
  case False
  with assms scan_foreign [of mem cc ex "context"] show ?thesis
    by (intro exI [of _ ex]) (simp add: gxx_personality_v0_def)
qed

lemma demo_scan:
  "scan_eh_tab demo_memory demo_can_catch UA_SEARCH_PHASE (is_native kOurExceptionClass) demo_thrown demo_context =
   eh_return (handler_found 1 0x100D 0x1000 0x2040 0x8020)"
  using scan_search [OF demo_table_at _ demo_proper(1), of UA_SEARCH_PHASE demo_can_catch] demo_proper(2)
  by (simp add: stops_at_handlers_def demo_context_def demo_sites_def covers_def demo_can_catch_def demo_thrown_def
      get_thrown_object_ptr_def search_result_def kOurExceptionClass_def kOurDependentExceptionClass_def
      sizeof_unwind_exception_def)

theorem personality_phases_agree_witness:
  "\<exists>ex'. gxx_personality_v0 demo_memory demo_can_catch 1 UA_SEARCH_PHASE kOurExceptionClass demo_thrown (Some demo_context) =
        eh_return (URC_HANDLER_FOUND, ex', Some demo_context) \<and>
      gxx_personality_v0 demo_memory demo_can_catch 1 (UA_CLEANUP_PHASE OR UA_HANDLER_FRAME) kOurExceptionClass ex'
          (Some demo_context) =
        eh_return (URC_INSTALL_CONTEXT, ex',
          Some (set_registers demo_thrown demo_context (handler_found 1 0x100D 0x1000 0x2040 0x8020)))"
  by (rule personality_phases_agree [OF demo_scan]) (simp_all add: handler_found_def demo_thrown_def)

end
