(* ===== verification/Extents.thy ===== *)
theory Extents
  imports Prelude
begin

text \<open>
  Extents and layout mappings of \<open>mdspan\<close> (headers under \<open>include/hip/std/detail/libcxx/include/__mdspan\<close>).
  Template parameter packs are lists, the index type is \<open>'i word\<close> for an arbitrary width \<open>'i\<close>, and its arithmetic
  wraps; \<open>size_t\<close> is \<open>u64\<close>.
\<close>

section \<open>Partially static arrays\<close>

definition dynamic_extent :: u64 where "dynamic_extent = - 1"

text \<open>The storage of one extent: a static one stores nothing, the value is part of the type.\<close>

datatype 'v psa_entry = Static u64 | Dynamic 'v

type_synonym 'i extents = "'i word psa_entry list"

fun psa_value :: "'i::len word psa_entry \<Rightarrow> 'i word" where
  "psa_value (Static e) = ucast e"
| "psa_value (Dynamic v) = v"

definition psa_entry_of :: "u64 \<Rightarrow> 'i::len word \<Rightarrow> 'i word psa_entry" where
  "psa_entry_of e v = (if e = dynamic_extent then Dynamic v else Static e)"

text \<open>The constructors from all values and from the values of the dynamic extents. A pattern is the list of
  template arguments.\<close>

fun psa_from_all :: "u64 list \<Rightarrow> 'i::len word list \<Rightarrow> 'i extents" where
  "psa_from_all (e # es) (v # vs) = psa_entry_of e v # psa_from_all es vs"
| "psa_from_all es vs = []"

fun psa_from_dynamic :: "u64 list \<Rightarrow> 'i::len word list \<Rightarrow> 'i extents" where
  "psa_from_dynamic [] vs = []"
| "psa_from_dynamic (e # es) vs =
     (if e = dynamic_extent
      then (case vs of v # vs' \<Rightarrow> Dynamic v # psa_from_dynamic es vs' | [] \<Rightarrow> [])
      else Static e # psa_from_dynamic es vs)"

fun psa_get :: "'i::len extents \<Rightarrow> nat \<Rightarrow> nat \<Rightarrow> 'i word" where
  "psa_get [] idx n = 0"
| "psa_get (x # xs) idx n = psa_value x * of_bool (idx = n) + psa_get xs (Suc idx) n"

definition rank_dynamic :: "u64 list \<Rightarrow> nat" where
  "rank_dynamic pat = foldr (\<lambda>e n. of_bool (e = dynamic_extent) + n) pat 0"

text \<open>The constructor of \<open>extents\<close> from a pack of values chooses by their number.\<close>

definition make_extents :: "u64 list \<Rightarrow> 'i::len word list \<Rightarrow> 'i extents" where
  "make_extents pat vs = (if length vs = rank_dynamic pat then psa_from_dynamic pat vs else psa_from_all pat vs)"

definition extent :: "'i::len extents \<Rightarrow> nat \<Rightarrow> 'i word" where
  "extent e n = psa_get e 0 n"

text \<open>All extents, as the packs of \<open>__extent<_Idxs>()...\<close>.\<close>

definition extent_values :: "'i::len extents \<Rightarrow> 'i word list" where
  "extent_values e = map psa_value e"

text \<open>The converting constructor copies the values of another extents object of the same rank.\<close>

definition convert_extents :: "u64 list \<Rightarrow> 'j::len extents \<Rightarrow> 'i::len extents" where
  "convert_extents pat e = psa_from_all pat (map ucast (extent_values e))"

section \<open>Layout mappings\<close>

fun left_offset :: "'i::len word list \<Rightarrow> 'i word list \<Rightarrow> 'i word" where
  "left_offset [e] [i] = i"
| "left_offset (e # es) (i # is) = left_offset es is * e + i"
| "left_offset es is = 0"

fun right_offset_from :: "'i::len word \<Rightarrow> 'i word list \<Rightarrow> 'i word list \<Rightarrow> 'i word" where
  "right_offset_from offset (e # es) (i # is) = right_offset_from (offset * e + i) es is"
| "right_offset_from offset es is = offset"

fun right_offset :: "'i::len word list \<Rightarrow> 'i word list \<Rightarrow> 'i word" where
  "right_offset (e # es) (i # is) = right_offset_from i es is"
| "right_offset es is = 0"

definition product_span_size :: "'i::len word list \<Rightarrow> 'i word" where
  "product_span_size es = foldl (*) 1 es"

definition left_stride :: "'i::len word list \<Rightarrow> nat \<Rightarrow> 'i word" where
  "left_stride es i = foldl (*) 1 (take i es)"

definition right_stride :: "'i::len word list \<Rightarrow> nat \<Rightarrow> 'i word" where
  "right_stride es i = foldl (*) 1 (rev (drop (Suc i) es))"

fun stride_offset :: "'i::len word list \<Rightarrow> 'i word list \<Rightarrow> 'i word" where
  "stride_offset (s # ss) (i # is) = i * s + stride_offset ss is"
| "stride_offset ss is = 0"

fun stride_span_from :: "'i::len word \<Rightarrow> 'i word list \<Rightarrow> 'i word list \<Rightarrow> 'i word" where
  "stride_span_from n (e # es) (s # ss) = (if e = 0 then 0 else stride_span_from (n + (e - 1) * s) es ss)"
| "stride_span_from n es ss = n"

text \<open>A layout policy with its mapping object. The strides of \<open>layout_stride\<close> are stored.\<close>

datatype 'w layout = LayoutLeft | LayoutRight | LayoutStride "'w list"

fun map_offset :: "'i::len word layout \<Rightarrow> 'i word list \<Rightarrow> 'i word list \<Rightarrow> 'i word" where
  "map_offset LayoutLeft es is = left_offset es is"
| "map_offset LayoutRight es is = right_offset es is"
| "map_offset (LayoutStride ss) es is = stride_offset ss is"

fun map_stride :: "'i::len word layout \<Rightarrow> 'i word list \<Rightarrow> nat \<Rightarrow> 'i word" where
  "map_stride LayoutLeft es r = left_stride es r"
| "map_stride LayoutRight es r = right_stride es r"
| "map_stride (LayoutStride ss) es r = ss ! r"

fun map_span :: "'i::len word layout \<Rightarrow> 'i word list \<Rightarrow> 'i word" where
  "map_span LayoutLeft es = product_span_size es"
| "map_span LayoutRight es = product_span_size es"
| "map_span (LayoutStride ss) es = stride_span_from 1 es ss"

fun is_exhaustive :: "'i::len word layout \<Rightarrow> 'i word list \<Rightarrow> bool" where
  "is_exhaustive (LayoutStride ss) es = (stride_span_from 1 es ss = foldr (*) es 1)"
| "is_exhaustive l es = True"

text \<open>Conversions. The one to \<open>layout_stride\<close> copies the strides; those from it compare every stride with the product
  of the extents, as \<open>size_t\<close>, and throw (\<open>None\<close>) on the first difference.\<close>

definition to_stride :: "'i::len word layout \<Rightarrow> 'i word list \<Rightarrow> 'i word layout" where
  "to_stride l es = LayoutStride (map (map_stride l es) [0..<length es])"

fun strides_check :: "u64 \<Rightarrow> 'i::len word list \<Rightarrow> 'i word list \<Rightarrow> bool" where
  "strides_check st (e # es) (s # ss) = (st = ucast s \<and> strides_check (st * ucast e) es ss)"
| "strides_check st es ss = True"

fun stride_to_left :: "'i::len word layout \<Rightarrow> 'i word list \<Rightarrow> 'i word layout option" where
  "stride_to_left (LayoutStride ss) es = (if strides_check 1 es ss then Some LayoutLeft else None)"
| "stride_to_left l es = None"

fun stride_to_right :: "'i::len word layout \<Rightarrow> 'i word list \<Rightarrow> 'i word layout option" where
  "stride_to_right (LayoutStride ss) es = (if strides_check 1 (rev es) (rev ss) then Some LayoutRight else None)"
| "stride_to_right l es = None"

section \<open>Views\<close>

record 'w mdspan =
  data_handle :: u64
  mapping_layout :: "'w layout"
  mapping_extents :: "'w psa_entry list"

text \<open>The element an access reaches, as a position counted in elements.\<close>

definition mdspan_access :: "'i::len word mdspan \<Rightarrow> 'i word list \<Rightarrow> u64" where
  "mdspan_access m is = data_handle m + ucast (map_offset (mapping_layout m) (extent_values (mapping_extents m)) is)"

definition mdspan_size :: "'i::len word mdspan \<Rightarrow> u64" where
  "mdspan_size m = foldr (\<lambda>e n. ucast e * n) (extent_values (mapping_extents m)) 1"

definition mdspan_empty :: "'i::len word mdspan \<Rightarrow> bool" where
  "mdspan_empty m = (0 < length (mapping_extents m) \<and> (\<exists>e\<in>set (extent_values (mapping_extents m)). e = 0))"

section \<open>Slices\<close>

text \<open>A slice: an index, a pair of bounds, a pair of integral constants, or everything.\<close>

datatype slice = Index u64 | Pair u64 u64 | ConstPair u64 u64 | All

datatype preserve = PreserveRight bool bool | PreserveLeft bool bool | IgnorePreservation

fun preserve_of :: "'w layout \<Rightarrow> preserve" where
  "preserve_of LayoutRight = PreserveRight True True"
| "preserve_of LayoutLeft = PreserveLeft True True"
| "preserve_of (LayoutStride ss) = IgnorePreservation"

fun encounter_scalar :: "preserve \<Rightarrow> preserve" where
  "encounter_scalar (PreserveRight res only) = PreserveRight (res \<and> only) only"
| "encounter_scalar (PreserveLeft res only) = PreserveLeft res False"
| "encounter_scalar IgnorePreservation = IgnorePreservation"

fun encounter_pair :: "preserve \<Rightarrow> preserve" where
  "encounter_pair (PreserveRight res only) = PreserveRight (res \<and> only) False"
| "encounter_pair (PreserveLeft res only) = PreserveLeft (res \<and> only) False"
| "encounter_pair IgnorePreservation = IgnorePreservation"

fun encounter_all :: "preserve \<Rightarrow> preserve" where
  "encounter_all (PreserveRight res only) = PreserveRight res False"
| "encounter_all (PreserveLeft res only) = PreserveLeft (res \<and> only) only"
| "encounter_all IgnorePreservation = IgnorePreservation"

record 'w slice_handler =
  preserved :: preserve
  h_offsets :: "'w psa_entry list"
  h_exts :: "'w psa_entry list"
  h_strides :: "'w psa_entry list"

text \<open>\<open>__assign_op_slice_handler::operator=\<close>, for a slice wrapped with the old extent and stride.\<close>

fun handle_slice :: "'i::len word slice_handler \<Rightarrow> 'i word psa_entry \<Rightarrow> 'i word \<Rightarrow> slice \<Rightarrow> 'i word slice_handler" where
  "handle_slice h ext str (Index a) =
     h\<lparr>preserved := encounter_scalar (preserved h), h_offsets := h_offsets h @ [Dynamic (ucast a)]\<rparr>"
| "handle_slice h ext str All =
     h\<lparr>preserved := encounter_all (preserved h), h_offsets := h_offsets h @ [Static 0],
       h_exts := h_exts h @ [ext], h_strides := h_strides h @ [Dynamic str]\<rparr>"
| "handle_slice h ext str (Pair a b) =
     h\<lparr>preserved := encounter_pair (preserved h), h_offsets := h_offsets h @ [Dynamic (ucast a)],
       h_exts := h_exts h @ [Dynamic (ucast (b - a))], h_strides := h_strides h @ [Dynamic str]\<rparr>"
| "handle_slice h ext str (ConstPair a b) =
     h\<lparr>preserved := encounter_pair (preserved h), h_offsets := h_offsets h @ [psa_entry_of a (ucast a)],
       h_exts := h_exts h @ [psa_entry_of (b - a) (ucast (b - a))], h_strides := h_strides h @ [Dynamic str]\<rparr>"

fun handle_slices :: "'i::len word slice_handler \<Rightarrow> 'i extents \<Rightarrow> 'i word list \<Rightarrow> slice list \<Rightarrow> 'i word slice_handler" where
  "handle_slices h (e # es) (s # ss) (x # xs) = handle_slices (handle_slice h e s x) es ss xs"
| "handle_slices h es ss xs = h"

fun new_layout :: "'i::len word slice_handler \<Rightarrow> 'i word layout" where
  "new_layout h = (case preserved h of
     PreserveRight True only \<Rightarrow> LayoutRight
   | PreserveLeft True only \<Rightarrow> LayoutLeft
   | _ \<Rightarrow> LayoutStride (extent_values (h_strides h)))"

definition submdspan :: "'i::len word mdspan \<Rightarrow> slice list \<Rightarrow> 'i word mdspan" where
  "submdspan m slices =
     (let es = extent_values (mapping_extents m);
          h = handle_slices \<lparr>preserved = preserve_of (mapping_layout m), h_offsets = [], h_exts = [], h_strides = []\<rparr>
                (mapping_extents m) (map (map_stride (mapping_layout m) es) [0..<length es]) slices in
      \<lparr>data_handle = data_handle m + ucast (map_offset (mapping_layout m) es (extent_values (h_offsets h))),
       mapping_layout = new_layout h, mapping_extents = h_exts h\<rparr>)"

end
