(* ===== verification/Layouts.thy ===== *)
theory Layouts
  imports Extents "HOL-Library.Multiset"
begin

text \<open>
  What the layout mappings of \<open>mdspan\<close> promise. All three are the linear form of their strides
  (\<open>linear_offset\<close>); for strides that leave room for each other (\<open>strides_ok\<close>, the precondition the code comments at
  the constructors of \<open>layout_stride::mapping\<close>) the linear form does not wrap around, stays below the span and is
  injective. The interface \<open>unique_mapping\<close> states this contract and is interpreted on the three layouts.
\<close>

section \<open>The interface\<close>

definition in_bounds :: "'i::len word list \<Rightarrow> 'i word list \<Rightarrow> bool" where
  "in_bounds es is = list_all2 (\<lambda>i e. i < e) is es"

locale unique_mapping =
  fixes offset :: "'i::len word list \<Rightarrow> 'i word list \<Rightarrow> 'i word"
    and span :: "'i word list \<Rightarrow> 'i word" and ok :: "'i word list \<Rightarrow> bool"
  assumes bounded: "ok es \<Longrightarrow> in_bounds es is \<Longrightarrow> unat (offset es is) < unat (span es)"
    and injective: "ok es \<Longrightarrow> in_bounds es is \<Longrightarrow> in_bounds es js \<Longrightarrow> offset es is = offset es js \<Longrightarrow> is = js"
begin

lemma no_alias: "ok es \<Longrightarrow> in_bounds es is \<Longrightarrow> in_bounds es js \<Longrightarrow> (offset es is = offset es js) = (is = js)"
  using injective by blast

lemma offsets_inj: "ok es \<Longrightarrow> inj_on (\<lambda>is. unat (offset es is)) {is. in_bounds es is}"
  by (auto intro!: inj_onI injective simp: word_unat_eq_iff)

lemma offsets_below: "ok es \<Longrightarrow> (\<lambda>is. unat (offset es is)) ` {is. in_bounds es is} \<subseteq> {..<unat (span es)}"
  using bounded by blast

text \<open>The offsets fill the span exactly when it is as long as there are elements.\<close>

lemma fills_span:
  assumes "ok es"
  shows "((\<lambda>is. unat (offset es is)) ` {is. in_bounds es is} = {..<unat (span es)}) =
    (card {is. in_bounds es is} = unat (span es))"
proof
  assume "(\<lambda>is. unat (offset es is)) ` {is. in_bounds es is} = {..<unat (span es)}"
  with card_image [OF offsets_inj [OF assms]] show "card {is. in_bounds es is} = unat (span es)" by simp
next
  assume "card {is. in_bounds es is} = unat (span es)"
  with card_image [OF offsets_inj [OF assms]] offsets_below [OF assms]
  show "(\<lambda>is. unat (offset es is)) ` {is. in_bounds es is} = {..<unat (span es)}"
    by (intro card_subset_eq) simp_all
qed

end

section \<open>Multi-indices\<close>

lemma in_bounds_Cons: "in_bounds (e # es) (i # is) = (i < e \<and> in_bounds es is)"
  by (simp add: in_bounds_def)

lemma in_bounds_Nil: "in_bounds es [] = (es = [])" "in_bounds [] is = (is = [])"
  by (simp_all add: in_bounds_def)

lemma in_bounds_ConsE:
  assumes "in_bounds (e # es) is"
  obtains i is' where "is = i # is'" "i < e" "in_bounds es is'"
  using assms by (cases "is") (auto simp: in_bounds_def)

lemma in_bounds_length: "in_bounds es is \<Longrightarrow> length is = length es"
  by (simp add: in_bounds_def list_all2_lengthD)

lemma in_bounds_nonzero: "in_bounds es is \<Longrightarrow> 0 \<notin> set es"
  by (induction es arbitrary: "is") (auto elim!: in_bounds_ConsE)

abbreviation nprod :: "'i::len word list \<Rightarrow> nat" where
  "nprod es \<equiv> prod_list (map unat es)"

lemma in_bounds_Cons_image:
  "{is. in_bounds (e # es) is} = (\<lambda>(i, is). i # is) ` ({..<e} \<times> {is. in_bounds es is})"
  by (auto simp: in_bounds_Cons image_iff elim!: in_bounds_ConsE)

lemma unat_below: "unat (e :: 'i::len word) < 2 ^ LENGTH('i)"
  by (rule unsigned_less)

lemma card_word_below: "card {..<(e :: 'i::len word)} = unat e"
proof -
  have "unat ` {..<e} = {..<unat e}"
  proof (intro subset_antisym subsetI)
    fix n assume "n \<in> {..<unat e}"
    then have "n < unat e" by simp
    moreover from this have "unat (of_nat n :: 'i word) = n" using less_trans [OF _ unat_below [of e]] by (simp add: unat_of_nat)
    ultimately show "n \<in> unat ` {..<e}" by (intro image_eqI [of _ _ "of_nat n"]) (simp_all add: word_less_nat_alt)
  qed (auto simp: word_less_nat_alt)
  moreover have "card (unat ` {..<e}) = card {..<e}" by (rule card_image) (simp add: inj_on_def word_unat_eq_iff)
  ultimately show ?thesis by simp
qed

lemma card_in_bounds: "card {is. in_bounds es is} = nprod es"
proof (induction es)
  case (Cons e es)
  have "inj_on (\<lambda>(i, is). i # is) ({..<e} \<times> {is. in_bounds es is})" by (auto simp: inj_on_def)
  then show ?case unfolding in_bounds_Cons_image by (simp add: card_image card_cartesian_product card_word_below Cons)
qed (simp add: in_bounds_Nil)

section \<open>Strides\<close>

lemma foldl_times: "foldl (*) c es = c * prod_list (es :: 'i::len word list)"
  by (induction es arbitrary: c) (simp_all add: mult.assoc)

lemma foldr_times: "foldr (*) es c = prod_list (es :: 'i::len word list) * c"
  by (induction es) (simp_all add: mult.assoc)

lemma prod_list_rev: "prod_list (rev es) = prod_list (es :: 'a::comm_monoid_mult list)"
  by (induction es) (simp_all add: mult.commute)

fun lstrides :: "'i::len word \<Rightarrow> 'i word list \<Rightarrow> 'i word list" where
  "lstrides c [] = []"
| "lstrides c (e # es) = c # lstrides (c * e) es"

fun rstrides :: "'i::len word list \<Rightarrow> 'i word list" where
  "rstrides [] = []"
| "rstrides (e # es) = prod_list es # rstrides es"

definition strides_of :: "'i::len word layout \<Rightarrow> 'i word list \<Rightarrow> 'i word list" where
  "strides_of l es = map (map_stride l es) [0..<length es]"

definition has_rank :: "'w layout \<Rightarrow> 'w list \<Rightarrow> bool" where
  "has_rank l es = (case l of LayoutStride ss \<Rightarrow> length ss = length es | _ \<Rightarrow> True)"

lemma has_rank_simps [simp]: "has_rank LayoutLeft es" "has_rank LayoutRight es"
  "has_rank (LayoutStride ss) es = (length ss = length es)"
  by (simp_all add: has_rank_def)

lemma lstrides_conv: "map (\<lambda>i. c * left_stride es i) [0..<length es] = lstrides c es"
proof (induction es arbitrary: c)
  case (Cons e es)
  have "map (\<lambda>i. c * left_stride (e # es) (Suc i)) [0..<length es] = map (\<lambda>i. (c * e) * left_stride es i) [0..<length es]"
    by (simp add: left_stride_def foldl_times mult.assoc)
  with Cons [of "c * e"] show ?case
    by (simp add: upt_conv_Cons map_Suc_upt [symmetric] del: upt_Suc) (simp add: left_stride_def comp_def)
qed simp

lemma rstrides_conv: "map (right_stride es) [0..<length es] = rstrides es"
proof (induction es)
  case (Cons e es)
  have "map (\<lambda>i. right_stride (e # es) (Suc i)) [0..<length es] = map (right_stride es) [0..<length es]"
    by (simp add: right_stride_def)
  with Cons show ?case
    by (simp add: upt_conv_Cons map_Suc_upt [symmetric] del: upt_Suc)
      (simp add: right_stride_def comp_def foldl_times prod_list_rev)
qed simp

lemma map_stride_partial: "map_stride LayoutLeft es = left_stride es" "map_stride LayoutRight es = right_stride es"
  "map_stride (LayoutStride ss) es = (!) ss"
  by (simp_all add: fun_eq_iff)

lemma strides_of_simps: "strides_of LayoutLeft es = lstrides 1 es" "strides_of LayoutRight es = rstrides es"
  "length ss = length es \<Longrightarrow> strides_of (LayoutStride ss) es = ss"
  using lstrides_conv [of 1 es] rstrides_conv [of es] by (simp_all add: strides_of_def map_stride_partial) (metis map_nth)

lemma length_strides [simp]: "length (strides_of l es) = length es" "length (lstrides c es) = length es"
  "length (rstrides es) = length es"
  by (simp add: strides_of_def, induction es arbitrary: c, simp_all, induction es, simp_all)

section \<open>The linear form\<close>

lemma left_offset_Cons: "length is = length es \<Longrightarrow> left_offset (e # es) (i # is) = left_offset es is * e + i"
  by (cases es) simp_all

lemma left_linear: "length is = length es \<Longrightarrow> stride_offset (lstrides c es) is = c * left_offset es is"
proof (induction es arbitrary: "is" c)
  case (Cons e es)
  then obtain i is' where "is = i # is'" "length is' = length es" by (cases "is") auto
  with Cons.IH show ?case by (simp add: left_offset_Cons algebra_simps)
qed simp

lemma right_linear_from:
  "length is = length es \<Longrightarrow> right_offset_from c es is = c * prod_list es + stride_offset (rstrides es) is"
proof (induction es arbitrary: "is" c)
  case (Cons e es)
  then obtain i is' where "is = i # is'" "length is' = length es" by (cases "is") auto
  with Cons.IH show ?case by (simp add: algebra_simps)
qed simp

lemma right_linear: "length is = length es \<Longrightarrow> stride_offset (rstrides es) is = right_offset es is"
  by (cases es; cases "is") (simp_all add: right_linear_from)

lemma linear_offset: "has_rank l es \<Longrightarrow> length is = length es \<Longrightarrow> map_offset l es is = stride_offset (strides_of l es) is"
  by (cases l) (simp_all add: strides_of_simps left_linear right_linear)

section \<open>Without wrap-around\<close>

fun nlin :: "'i::len word list \<Rightarrow> 'i word list \<Rightarrow> nat" where
  "nlin (s # ss) (i # is) = unat i * unat s + nlin ss is"
| "nlin ss is = 0"

text \<open>The span minus one: the linear form at the last multi-index.\<close>

abbreviation nlast :: "'i::len word list \<Rightarrow> 'i word list \<Rightarrow> nat" where
  "nlast ss es \<equiv> nlin ss (map (\<lambda>e. e - 1) es)"

lemma unat_mult_add:
  "unat a * unat e + n < 2 ^ LENGTH('i) \<Longrightarrow> unat i = n \<Longrightarrow> unat ((a :: 'i::len word) * e + i) = unat a * unat e + n"
proof -
  assume b: "unat a * unat e + n < 2 ^ LENGTH('i)" and n: "unat i = n"
  then have "unat (a * e) = unat a * unat e" by (simp add: unat_mult_lem [THEN iffD1])
  with b n show ?thesis by (simp add: unat_add_lem [THEN iffD1])
qed

lemma unat_stride_offset:
  "nlin ss is < 2 ^ LENGTH('i) \<Longrightarrow> unat (stride_offset ss (is :: 'i::len word list)) = nlin ss is"
  by (induction ss "is" rule: nlin.induct) (simp_all add: unat_mult_add)

lemma unat_pred: "i < e \<Longrightarrow> unat i \<le> unat (e - 1)" for e :: "'i::len word"
proof -
  assume "i < e"
  then have "unat i < unat e" by (simp add: word_less_nat_alt)
  moreover from this have "e \<noteq> 0" by auto
  ultimately show ?thesis by (simp add: unat_minus_one)
qed

lemma nlin_le_nlast: "in_bounds es is \<Longrightarrow> nlin ss is \<le> nlast ss es"
proof (induction es arbitrary: "is" ss)
  case (Cons e es)
  then obtain i is' where i: "is = i # is'" "i < e" "in_bounds es is'" by (blast elim: in_bounds_ConsE)
  with Cons.IH [OF i(3), of "tl ss"] unat_pred [OF i(2)] show ?case
    by (cases ss) (simp_all add: add_mono)
qed (simp add: in_bounds_Nil)

lemma unat_stride_span_from:
  "length ss = length es \<Longrightarrow> 0 \<notin> set es \<Longrightarrow> unat n + nlast ss es < 2 ^ LENGTH('i) \<Longrightarrow>
   unat (stride_span_from n es (ss :: 'i::len word list)) = unat n + nlast ss es"
proof (induction n es ss rule: stride_span_from.induct)
  case (1 n e es s ss)
  then have "unat (n + (e - 1) * s) = unat n + unat (e - 1) * unat s"
    using unat_mult_add [of "e - 1" s "unat n" n] by (simp add: add.commute)
  with 1 show ?case by simp
qed simp_all

section \<open>Strides that leave room\<close>

text \<open>Pairs of a stride and an extent, from the largest stride to the smallest: each stride has room for the whole
  dimension that follows.\<close>

fun chained :: "(nat \<times> nat) list \<Rightarrow> bool" where
  "chained ((s', e') # (s, e) # ps) = (s * e \<le> s' \<and> chained ((s, e) # ps))"
| "chained ps = True"

text \<open>The precondition of \<open>layout_stride\<close>, which the code states in a comment; nothing is asked of an empty index
  space.\<close>

definition strides_ok :: "'i::len word list \<Rightarrow> 'i word list \<Rightarrow> bool" where
  "strides_ok ss es = (length ss = length es \<and>
     (0 \<in> set es \<or>
      0 \<notin> set ss \<and> Suc (nlast ss es) < 2 ^ LENGTH('i) \<and>
      (\<exists>ps. mset ps = mset (zip (map unat ss) (map unat es)) \<and> chained ps)))"

lemma chained_below:
  assumes "chained (map fst qs)" "\<forall>((s, e), i)\<in>set qs. 0 < s \<and> i < e"
  shows "(\<Sum>((s, e), i)\<leftarrow>qs. i * s) < (case qs of [] \<Rightarrow> 1 | ((s, e), i) # _ \<Rightarrow> s * e)"
  using assms
proof (induction qs)
  case (Cons q qs)
  obtain s e i where q: "q = ((s, e), i)" by (metis prod.collapse)
  with Cons.prems have "0 < s" "i < e" by simp_all
  have "chained (map fst qs)" "(case qs of [] \<Rightarrow> 1 | ((s', e'), i) # _ \<Rightarrow> s' * e') \<le> s"
    using Cons.prems q \<open>0 < s\<close> by (cases qs; auto)+
  with Cons.IH Cons.prems(2) have "(\<Sum>((s, e), i)\<leftarrow>qs. i * s) < s" by fastforce
  then have "i * s + (\<Sum>((s, e), i)\<leftarrow>qs. i * s) < Suc i * s" by simp
  also have "\<dots> \<le> e * s" using \<open>i < e\<close> by (intro mult_right_mono) auto
  finally show ?case by (simp add: q mult.commute)
qed simp

lemma digit_inject:
  assumes "a * e + i = b * e + j" "i < e" "j < (e::nat)"
  shows "a = b \<and> i = j"
proof -
  have "(a * e + i) div e = (b * e + j) div e" "(a * e + i) mod e = (b * e + j) mod e" using assms(1) by simp_all
  then show ?thesis using assms(2,3) by simp
qed

lemma chained_inject:
  assumes "chained (map fst qs)" "\<forall>((s, e), i, j)\<in>set qs. 0 < s \<and> i < e \<and> j < e"
    and "(\<Sum>((s, e), i, j)\<leftarrow>qs. i * s) = (\<Sum>((s, e), i, j)\<leftarrow>qs. j * s)"
  shows "\<forall>((s, e), i, j)\<in>set qs. i = j"
  using assms
proof (induction qs)
  case (Cons q qs)
  obtain s e i j where q: "q = ((s, e), i, j)" by (metis prod.collapse)
  have c: "chained (map fst qs)" using Cons.prems(1) q by (cases qs) auto
  define f where "f h = map (\<lambda>(p, ij). (p, h ij :: nat)) qs" for h :: "nat \<times> nat \<Rightarrow> nat"
  have f: "map fst (f h) = map fst qs" for h by (simp add: f_def comp_def case_prod_unfold)
  have below: "(\<Sum>((s, e), i)\<leftarrow>f h. i * s) < s" if "h = fst \<or> h = snd" for h
  proof -
    have "(case f h of [] \<Rightarrow> 1 | ((s', e'), i) # _ \<Rightarrow> s' * e') \<le> s"
      using Cons.prems q by (cases qs) (auto simp: f_def)
    moreover have "\<forall>((s, e), i)\<in>set (f h). 0 < s \<and> i < e"
      using Cons.prems(2) that by (fastforce simp: f_def)
    ultimately show ?thesis using chained_below [of "f h"] c unfolding f by fastforce
  qed
  have "(\<Sum>((s, e), i)\<leftarrow>f fst. i * s) = (\<Sum>((s, e), i, j)\<leftarrow>qs. i * s)"
    "(\<Sum>((s, e), i)\<leftarrow>f snd. i * s) = (\<Sum>((s, e), i, j)\<leftarrow>qs. j * s)"
    by (simp_all add: f_def comp_def case_prod_unfold)
  with below [of fst] below [of snd] Cons.prems(3) q
  have "i = j \<and> (\<Sum>((s, e), i, j)\<leftarrow>qs. i * s) = (\<Sum>((s, e), i, j)\<leftarrow>qs. j * s)"
    by (intro digit_inject [where e = s]) simp_all
  with Cons.IH [OF c] Cons.prems(2) q show ?case by simp
qed simp

text \<open>The linear form as a sum over the dimensions in any order.\<close>

lemma nlin_sum:
  "length ss = length es \<Longrightarrow> length is = length es \<Longrightarrow>
   nlin ss is = (\<Sum>((s, e), i)\<leftarrow>zip (zip (map unat ss) (map unat es)) (map unat is). i * s)"
proof (induction ss arbitrary: es "is")
  case (Cons s ss)
  then show ?case by (cases es; cases "is") simp_all
qed simp

lemma reorder:
  assumes "mset ps = mset xs" "length xs = length (ys :: 'b list)"
  obtains qs where "map fst qs = ps" "mset qs = mset (zip xs ys)"
proof -
  have "list_all2 (\<lambda>p q. fst q = p) xs (zip xs ys)" using assms(2) by (simp add: list_all2_conv_all_nth)
  from list_all2_reorder_left_invariance [OF this assms(1)] obtain qs
    where "list_all2 (\<lambda>p q. fst q = p) ps qs" "mset qs = mset (zip xs ys)" by blast
  moreover from this(1) have "map fst qs = ps" by (auto simp: list_all2_conv_all_nth intro!: nth_equalityI)
  ultimately show ?thesis using that by blast
qed

lemma sum_list_mset: "mset xs = mset ys \<Longrightarrow> sum_list (map f xs) = (sum_list (map f ys) :: nat)"
  by (metis mset_map sum_mset_sum_list)

lemma in_bounds_zip:
  assumes "in_bounds es is" "in_bounds es js" "((s, e), i, j) \<in> set (zip (zip ss (map unat es)) (zip (map unat is) (map unat js)))"
  shows "i < e \<and> j < e"
proof -
  obtain k where "k < length es" "e = unat (es ! k)" "i = unat (is ! k)" "j = unat (js ! k)"
    using assms in_bounds_length [OF assms(1)] in_bounds_length [OF assms(2)] by (auto simp: set_zip)
  with assms(1,2) show ?thesis by (simp add: in_bounds_def list_all2_conv_all_nth word_less_nat_alt)
qed

lemma nlin_inject:
  assumes ok: "strides_ok ss es" and b: "in_bounds es is" "in_bounds es js" and eq: "nlin ss is = nlin ss js"
  shows "is = js"
proof -
  let ?P = "zip (map unat ss) (map unat es)" and ?I = "zip (map unat is) (map unat js)"
  note n = in_bounds_nonzero [OF b(1)] in_bounds_length [OF b(1)] in_bounds_length [OF b(2)]
  from ok n obtain ps where ps: "mset ps = mset ?P" "chained ps" and l: "length ss = length es" "0 \<notin> set ss"
    by (auto simp: strides_ok_def)
  have len: "length ?P = length ?I" using n l by simp
  obtain qs where qs: "map fst qs = ps" "mset qs = mset (zip ?P ?I)" by (rule reorder [OF ps(1) len])
  have set: "set qs = set (zip ?P ?I)" by (metis qs(2) set_mset_mset)
  have fstI: "map fst ?I = map unat is" "map snd ?I = map unat js" using n by simp_all
  have sums: "(\<Sum>((s, e), ij)\<leftarrow>zip ?P ?I. f ij * s) = (\<Sum>((s, e), i)\<leftarrow>zip ?P (map f ?I). i * s)" for f :: "nat \<times> nat \<Rightarrow> nat"
    by (simp add: zip_map2 comp_def case_prod_unfold)
  have "(\<Sum>((s, e), ij)\<leftarrow>zip ?P ?I. fst ij * s) = (\<Sum>((s, e), ij)\<leftarrow>zip ?P ?I. snd ij * s)"
    unfolding sums fstI using eq n l by (simp add: nlin_sum [of ss es])
  then have "(\<Sum>((s, e), i, j)\<leftarrow>qs. i * s) = (\<Sum>((s, e), i, j)\<leftarrow>qs. j * s)"
    by (simp add: sum_list_mset [OF qs(2)] case_prod_unfold)
  moreover have "\<forall>((s, e), i, j)\<in>set qs. 0 < s \<and> i < e \<and> j < e"
    unfolding set
  proof (clarify, intro conjI)
    fix s e i j assume z: "((s, e), i, j) \<in> set (zip ?P ?I)"
    show "i < e" "j < e" using in_bounds_zip [OF b z] by simp_all
    from z have "s \<in> set (map unat ss)" by (metis set_zip_leftD)
    with l(2) show "0 < s" by (auto simp: unat_gt_0)
  qed
  ultimately have "\<forall>((s, e), i, j)\<in>set (zip ?P ?I). i = j"
    using chained_inject [of qs] ps(2) qs(1) set by simp
  then have "\<forall>k<length es. unat (is ! k) = unat (js ! k)" using n l by (force simp: set_zip)
  then show ?thesis using n by (intro nth_equalityI) (simp_all add: word_unat_eq_iff)
qed

lemma strides_ok_nlin:
  assumes "strides_ok ss es" "in_bounds es is"
  shows "nlin ss is < 2 ^ LENGTH('i)" "unat (stride_offset ss (is :: 'i::len word list)) = nlin ss is"
    "unat (stride_span_from 1 es ss) = Suc (nlast ss es)"
proof -
  have ok: "length ss = length es" "0 \<notin> set es" "Suc (nlast ss es) < 2 ^ LENGTH('i)"
    using assms in_bounds_nonzero by (auto simp: strides_ok_def)
  with nlin_le_nlast [OF assms(2), of ss] show b: "nlin ss is < 2 ^ LENGTH('i)" by simp
  then show "unat (stride_offset ss is) = nlin ss is" by (rule unat_stride_offset)
  show "unat (stride_span_from 1 es ss) = Suc (nlast ss es)"
    using unat_stride_span_from [of ss es 1] ok by simp
qed

lemma stride_bounded: "strides_ok ss es \<Longrightarrow> in_bounds es is \<Longrightarrow> unat (stride_offset ss is) < unat (stride_span_from 1 es ss)"
  using nlin_le_nlast [of es "is" ss] by (simp add: strides_ok_nlin)

lemma stride_injective:
  "strides_ok ss es \<Longrightarrow> in_bounds es is \<Longrightarrow> in_bounds es js \<Longrightarrow> stride_offset ss is = stride_offset ss js \<Longrightarrow> is = js"
  using nlin_inject by (metis strides_ok_nlin(2))

section \<open>The contract of the three layouts\<close>

definition representable :: "'i::len word list \<Rightarrow> bool" where
  "representable es = (nprod es < 2 ^ LENGTH('i))"

fun mapping_ok :: "'i::len word layout \<Rightarrow> 'i word list \<Rightarrow> bool" where
  "mapping_ok (LayoutStride ss) es = strides_ok ss es"
| "mapping_ok l es = representable es"

lemma nprod_pos: "0 \<notin> set es \<Longrightarrow> 0 < nprod es"
  by (induction es) (auto simp: unat_gt_0)

lemma nprod_tail: "e \<noteq> 0 \<Longrightarrow> nprod es \<le> unat e * nprod es"
  using mult_le_mono1 [of 1 "unat e" "nprod es"] by (simp add: Suc_le_eq unat_gt_0)

lemma representable_tail: "representable (e # es) \<Longrightarrow> e \<noteq> 0 \<Longrightarrow> representable es"
  using le_less_trans [OF nprod_tail [of e es]] by (simp add: representable_def)

lemma unat_prod_list: "nprod es < 2 ^ LENGTH('i) \<Longrightarrow> 0 \<notin> set es \<Longrightarrow> unat (prod_list (es :: 'i::len word list)) = nprod es"
proof (induction es)
  case (Cons e es)
  then have "nprod es \<le> nprod (e # es)" by (simp add: nprod_tail)
  with Cons have "unat (prod_list es) = nprod es" by simp
  with Cons.prems show ?case by (simp add: unat_mult_lem [THEN iffD1])
qed simp

lemma prod_list_zero: "0 \<in> set es \<Longrightarrow> prod_list (es :: 'i::len word list) = 0"
  by (induction es) auto

lemma nprod_zero: "0 \<in> set es \<Longrightarrow> nprod es = 0"
  by (induction es) auto

lemma unat_span_size: "representable es \<Longrightarrow> unat (product_span_size es) = nprod es"
  unfolding representable_def product_span_size_def foldl_times
  by (cases "0 \<in> set es") (simp_all add: unat_prod_list prod_list_zero nprod_zero)

text \<open>The strides of the exhaustive layouts leave exactly the room needed.\<close>

lemma mult_pred_add: "0 < (e :: nat) \<Longrightarrow> (e - 1) * s + s = e * s"
  by (cases e) simp_all

lemma nlast_rstrides: "representable es \<Longrightarrow> 0 \<notin> set es \<Longrightarrow> Suc (nlast (rstrides es) es) = nprod es"
proof (induction es)
  case (Cons e es)
  then have r: "representable es" "0 < unat e" by (simp_all add: representable_tail unat_gt_0)
  with Cons have "Suc (nlast (rstrides es) es) = nprod es" by simp
  with Cons.prems r show ?case
    using mult_pred_add [of "unat e" "nprod es"] by (simp add: unat_prod_list representable_def unat_minus_one)
qed simp

lemma chained_rstrides:
  "representable es \<Longrightarrow> 0 \<notin> set es \<Longrightarrow> chained (zip (map unat (rstrides es)) (map unat es)) \<and> 0 \<notin> set (rstrides es)"
proof (induction es)
  case (Cons e es)
  then have r: "representable es" by (simp add: representable_tail)
  have "prod_list es \<noteq> 0"
    using unat_prod_list [of es] r Cons.prems nprod_pos [of es] by (auto simp: representable_def)
  moreover have "unat a * unat (prod_list bs) = unat (a * prod_list bs)" if "es = a # bs" for a bs
  proof -
    have "representable bs" using representable_tail r Cons.prems(2) that by auto
    then show ?thesis
      using unat_prod_list [of bs] unat_prod_list [of es] r Cons.prems(2) that by (simp add: representable_def)
  qed
  ultimately show ?case using Cons.IH [OF r] Cons.prems(2) by (cases es) (simp_all add: mult.commute)
qed simp

lemma unat_mult_head:
  assumes "unat c * nprod (e # es) < 2 ^ LENGTH('i)" "0 \<notin> set es"
  shows "unat (c * e) = unat c * unat (e :: 'i::len word)"
proof -
  have "unat c * unat e \<le> unat c * nprod (e # es)" using nprod_pos [OF assms(2)] by (simp add: Suc_le_eq)
  from le_less_trans [OF this assms(1)] show ?thesis by (rule unat_mult_lem [THEN iffD1])
qed

lemma nlast_lstrides:
  "unat c * nprod es < 2 ^ LENGTH('i) \<Longrightarrow> 0 \<notin> set es \<Longrightarrow> nlast (lstrides c es) es + unat c = unat (c :: 'i::len word) * nprod es"
proof (induction es arbitrary: c)
  case (Cons e es)
  have e: "0 < unat e" using Cons.prems(2) by (simp add: unat_gt_0)
  have ce: "unat (c * e) = unat c * unat e" using Cons.prems by (intro unat_mult_head [where es = es]) simp_all
  with Cons.IH [of "c * e"] Cons.prems mult_pred_add [OF e, of "unat c"] show ?case
    by (simp add: ac_simps unat_minus_one)
qed simp

lemma chained_snoc: "chained (xs @ [y]) = (chained xs \<and> (xs = [] \<or> fst y * snd y \<le> fst (last xs)))"
  by (induction xs rule: chained.induct) (cases y; auto)+

lemma chained_snoc2: "chained (xs @ [y, z]) = (chained (xs @ [y]) \<and> fst z * snd z \<le> fst y)"
  using chained_snoc [of "xs @ [y]" z] by simp

lemma chained_lstrides:
  "unat c * nprod es < 2 ^ LENGTH('i) \<Longrightarrow> 0 \<notin> set es \<Longrightarrow> (c :: 'i::len word) \<noteq> 0 \<Longrightarrow>
   chained (rev (zip (map unat (lstrides c es)) (map unat es))) \<and> 0 \<notin> set (lstrides c es)"
proof (induction es arbitrary: c)
  case (Cons e es)
  have e: "0 < unat e" using Cons.prems(2) by (simp add: unat_gt_0)
  have ce: "unat (c * e) = unat c * unat e" using Cons.prems by (intro unat_mult_head [where es = es]) simp_all
  with e Cons.prems(3) have "c * e \<noteq> 0" by (metis mult_eq_0_iff unat_0 unat_eq_zero less_irrefl)
  with Cons.IH [of "c * e"] Cons.prems ce
  have "chained (rev (zip (map unat (lstrides (c * e) es)) (map unat es)))" "0 \<notin> set (lstrides (c * e) es)"
    by (simp_all add: ac_simps)
  with Cons.prems(3) ce show ?case by (cases es) (simp_all add: chained_snoc chained_snoc2 last_rev)
qed simp

lemma mapping_ok_strides: "mapping_ok l es \<Longrightarrow> has_rank l es \<and> strides_ok (strides_of l es) es"
proof (cases l)
  case LayoutLeft
  assume "mapping_ok l es"
  with LayoutLeft have r: "representable es" by simp
  show ?thesis
  proof (cases "0 \<in> set es")
    case False
    have "Suc (nlast (lstrides 1 es) es) < 2 ^ LENGTH('a)"
      using nlast_lstrides [of 1 es] r False by (simp add: representable_def)
    with chained_lstrides [of 1 es] r False LayoutLeft show ?thesis
      unfolding strides_ok_def representable_def
      by (auto simp: strides_of_simps intro!: exI [of _ "rev (zip (map unat (lstrides 1 es)) (map unat es))"])
  qed (simp add: LayoutLeft strides_ok_def)
next
  case LayoutRight
  assume "mapping_ok l es"
  with LayoutRight have r: "representable es" by simp
  show ?thesis
  proof (cases "0 \<in> set es")
    case False
    with nlast_rstrides [OF r False] chained_rstrides [OF r False] r LayoutRight show ?thesis
      unfolding strides_ok_def representable_def
      by (auto simp: strides_of_simps intro!: exI [of _ "zip (map unat (rstrides es)) (map unat es)"])
  qed (simp add: LayoutRight strides_ok_def)
next
  case (LayoutStride ss)
  assume "mapping_ok l es"
  with LayoutStride show ?thesis by (simp add: strides_of_simps strides_ok_def)
qed

lemma unat_map_span:
  assumes "mapping_ok l es" "0 \<notin> set es"
  shows "unat (map_span l es) = Suc (nlast (strides_of l es) es)"
proof (cases l)
  case LayoutLeft
  with assms nlast_lstrides [of 1 es] show ?thesis
    by (simp add: unat_span_size strides_of_simps) (simp add: representable_def)
next
  case LayoutRight
  with assms nlast_rstrides [of es] show ?thesis by (simp add: unat_span_size strides_of_simps)
next
  case (LayoutStride ss)
  with assms have "length ss = length es" "Suc (nlast ss es) < 2 ^ LENGTH('a)" by (auto simp: strides_ok_def)
  with unat_stride_span_from [of ss es 1] LayoutStride assms(2) show ?thesis by (simp add: strides_of_simps)
qed

lemma unat_map_offset:
  assumes "mapping_ok l es" "in_bounds es is"
  shows "unat (map_offset l es is) = nlin (strides_of l es) is"
    and "map_offset l es is = stride_offset (strides_of l es) is"
proof -
  note s = mapping_ok_strides [OF assms(1)]
  show lin: "map_offset l es is = stride_offset (strides_of l es) is"
    using s in_bounds_length [OF assms(2)] by (simp add: linear_offset)
  show "unat (map_offset l es is) = nlin (strides_of l es) is"
    unfolding lin using strides_ok_nlin(2) s assms(2) by blast
qed

interpretation layout: unique_mapping "map_offset l" "map_span l" "mapping_ok l" for l
proof unfold_locales
  fix es "is" assume ok: "mapping_ok l es" "in_bounds es is"
  with nlin_le_nlast [of es "is" "strides_of l es"]
  show "unat (map_offset l es is) < unat (map_span l es)"
    by (simp add: unat_map_offset(1) unat_map_span in_bounds_nonzero)
next
  fix es "is" js
  assume "mapping_ok l es" "in_bounds es is" "in_bounds es js" "map_offset l es is = map_offset l es js"
  then show "is = js"
    using stride_injective [of "strides_of l es" es "is" js] mapping_ok_strides [of l es] by (simp add: unat_map_offset(2))
qed

end
