(* ===== verification/Submdspan.thy ===== *)
theory Submdspan
  imports Layouts
begin

text \<open>
  Slicing. The fold over the slices is split into the lists it builds (\<open>handle_slices_lists\<close>); the multi-index of the
  source that an index of the slice names is \<open>expand\<close>; the linear form of the source splits into the offset and the
  linear form of the slice (\<open>nlin_expand\<close>), and a preserved layout has the strides the slice needs
  (\<open>new_layout_offset\<close>).
\<close>

section \<open>What a slice selects\<close>

fun valid_slice :: "'i::len word \<Rightarrow> slice \<Rightarrow> bool" where
  "valid_slice e (Index a) = (unat a < unat e)"
| "valid_slice e (Pair a b) = (a \<le> b \<and> unat b \<le> unat e)"
| "valid_slice e (ConstPair a b) = (a \<le> b \<and> unat b \<le> unat e)"
| "valid_slice e All = True"

fun selects :: "slice \<Rightarrow> 'i::len word \<Rightarrow> bool" where
  "selects (Index a) j = (unat j = unat a)"
| "selects (Pair a b) j = (unat a \<le> unat j \<and> unat j < unat b)"
| "selects (ConstPair a b) j = (unat a \<le> unat j \<and> unat j < unat b)"
| "selects All j = True"

definition valid_slices :: "'i::len word list \<Rightarrow> slice list \<Rightarrow> bool" where
  "valid_slices es xs = list_all2 valid_slice es xs"

definition selected :: "'i::len word list \<Rightarrow> slice list \<Rightarrow> 'i word list set" where
  "selected es xs = {js. in_bounds es js \<and> list_all2 selects xs js}"

fun expand :: "slice list \<Rightarrow> 'i::len word list \<Rightarrow> 'i word list" where
  "expand (Index a # xs) is = ucast a # expand xs is"
| "expand (Pair a b # xs) (i # is) = (ucast a + i) # expand xs is"
| "expand (ConstPair a b # xs) (i # is) = (ucast a + i) # expand xs is"
| "expand (All # xs) (i # is) = i # expand xs is"
| "expand xs is = []"

section \<open>The lists the handler builds\<close>

fun slice_start :: "slice \<Rightarrow> 'i::len word" where
  "slice_start (Index a) = ucast a"
| "slice_start (Pair a b) = ucast a"
| "slice_start (ConstPair a b) = ucast a"
| "slice_start All = 0"

fun sub_extents :: "'i::len word list \<Rightarrow> slice list \<Rightarrow> 'i word list" where
  "sub_extents (e # es) (Index a # xs) = sub_extents es xs"
| "sub_extents (e # es) (Pair a b # xs) = ucast (b - a) # sub_extents es xs"
| "sub_extents (e # es) (ConstPair a b # xs) = ucast (b - a) # sub_extents es xs"
| "sub_extents (e # es) (All # xs) = e # sub_extents es xs"
| "sub_extents es xs = []"

fun sub_strides :: "'i::len word list \<Rightarrow> slice list \<Rightarrow> 'i word list" where
  "sub_strides (s # ss) (Index a # xs) = sub_strides ss xs"
| "sub_strides (s # ss) (x # xs) = s # sub_strides ss xs"
| "sub_strides ss xs = []"

fun encounter :: "preserve \<Rightarrow> slice \<Rightarrow> preserve" where
  "encounter p (Index a) = encounter_scalar p"
| "encounter p (Pair a b) = encounter_pair p"
| "encounter p (ConstPair a b) = encounter_pair p"
| "encounter p All = encounter_all p"

lemma psa_value_entry_of [simp]: "psa_value (psa_entry_of a (ucast a)) = ucast a"
  by (simp add: psa_entry_of_def)

lemma handle_slices_lists:
  "length es = length xs \<Longrightarrow> length ss = length xs \<Longrightarrow>
   preserved (handle_slices h es ss xs) = foldl encounter (preserved h) xs \<and>
   extent_values (h_offsets (handle_slices h es ss xs)) = extent_values (h_offsets h) @ map slice_start xs \<and>
   extent_values (h_exts (handle_slices h es ss xs)) =
     extent_values (h_exts h) @ sub_extents (extent_values es) xs \<and>
   extent_values (h_strides (handle_slices h es ss xs)) = extent_values (h_strides h) @ sub_strides ss xs"
proof (induction xs arbitrary: h es ss)
  case (Cons x xs)
  then obtain e es' s ss' where c: "es = e # es'" "ss = s # ss'" "length es' = length xs" "length ss' = length xs"
    by (cases es; cases ss) auto
  show ?case using Cons.IH [OF c(3,4), of "handle_slice h e s x"] c(1,2)
    by (cases x) (simp_all add: extent_values_def)
qed (simp add: extent_values_def)

section \<open>Splitting the linear form\<close>

lemma unat_ucast_le: "unat a \<le> unat e \<Longrightarrow> unat (ucast a :: 'i::len word) = unat a" for e :: "'i::len word"
  using le_less_trans [OF _ unat_below [of e], of "unat a"] by (simp add: unsigned_ucast_eq take_bit_nat_eq_self)

lemma pair_values:
  assumes "(a :: u64) \<le> b" "unat b \<le> unat (e :: 'i::len word)"
  shows "unat (ucast a :: 'i word) = unat a" "unat (ucast (b - a) :: 'i word) = unat b - unat a"
proof -
  have ab: "unat a \<le> unat b" "unat (b - a) = unat b - unat a" using assms(1) by (simp_all add: word_le_nat_alt unat_sub)
  with assms(2) show "unat (ucast a :: 'i word) = unat a" "unat (ucast (b - a) :: 'i word) = unat b - unat a"
    by (simp_all add: unat_ucast_le [of _ e])
qed

lemma pair_le: "(a :: u64) \<le> b \<Longrightarrow> unat b \<le> unat e \<Longrightarrow> unat (ucast (b - a) :: 'i::len word) \<le> unat e" for e :: "'i::len word"
  using pair_values(2) [of a b e] by simp

lemma pair_index:
  assumes "(a :: u64) \<le> b" "unat b \<le> unat (e :: 'i::len word)" "i < ucast (b - a)"
  shows "unat (ucast a + i) = unat a + unat i" "unat a + unat i < unat b" "ucast a + i < e"
proof -
  show i: "unat a + unat i < unat b" using assms(3) pair_values [OF assms(1,2)] by (simp add: word_less_nat_alt)
  with assms(2) unat_below [of e] have "unat a + unat i < 2 ^ LENGTH('i)" by linarith
  with pair_values [OF assms(1,2)] show u: "unat (ucast a + i) = unat a + unat i"
    by (simp add: unat_add_lem [THEN iffD1])
  with i assms(2) show "ucast a + i < e" by (simp add: word_less_nat_alt)
qed

lemma valid_slices_Cons [simp]: "valid_slices (e # es) (x # xs) = (valid_slice e x \<and> valid_slices es xs)"
  by (simp add: valid_slices_def)

lemma valid_slices_length: "valid_slices es xs \<Longrightarrow> length xs = length es"
  by (simp add: valid_slices_def list_all2_lengthD)

lemma valid_slices_Nil [simp]: "valid_slices [] xs = (xs = [])" "valid_slices es [] = (es = [])"
  by (simp_all add: valid_slices_def)

lemma nlin_expand:
  "valid_slices es xs \<Longrightarrow> length ss = length es \<Longrightarrow> in_bounds (sub_extents es xs) is \<Longrightarrow>
   nlin ss (expand xs is) = nlin ss (map slice_start xs) + nlin (sub_strides ss xs) is"
proof (induction es xs arbitrary: ss "is" rule: sub_extents.induct)
  case (1 e es a xs)
  then show ?case by (cases ss) simp_all
next
  case (2 e es a b xs)
  then obtain s ss' i is' where c: "ss = s # ss'" "is = i # is'" "i < ucast (b - a)" "in_bounds (sub_extents es xs) is'"
    by (cases ss) (auto elim: in_bounds_ConsE)
  with 2 pair_index [of a b e i] pair_values [of a b e] show ?case by (simp add: algebra_simps)
next
  case (3 e es a b xs)
  then obtain s ss' i is' where c: "ss = s # ss'" "is = i # is'" "i < ucast (b - a)" "in_bounds (sub_extents es xs) is'"
    by (cases ss) (auto elim: in_bounds_ConsE)
  with 3 pair_index [of a b e i] pair_values [of a b e] show ?case by (simp add: algebra_simps)
next
  case (4 e es xs)
  then obtain s ss' i is' where c: "ss = s # ss'" "is = i # is'" "in_bounds (sub_extents es xs) is'"
    by (cases ss) (auto elim: in_bounds_ConsE)
  with 4 show ?case by simp
qed auto

lemma expand_selected:
  "valid_slices es xs \<Longrightarrow> in_bounds (sub_extents es xs) is \<Longrightarrow> expand xs is \<in> selected es xs"
proof (induction es xs arbitrary: "is" rule: sub_extents.induct)
  case (1 e es a xs)
  then show ?case using unat_ucast_le [of a e] by (simp add: selected_def in_bounds_Cons word_less_nat_alt)
next
  case (2 e es a b xs)
  then obtain i is' where c: "is = i # is'" "i < ucast (b - a)" "in_bounds (sub_extents es xs) is'"
    by (auto elim: in_bounds_ConsE)
  with 2 pair_index [of a b e i] show ?case by (simp add: selected_def in_bounds_Cons)
next
  case (3 e es a b xs)
  then obtain i is' where c: "is = i # is'" "i < ucast (b - a)" "in_bounds (sub_extents es xs) is'"
    by (auto elim: in_bounds_ConsE)
  with 3 pair_index [of a b e i] show ?case by (simp add: selected_def in_bounds_Cons)
next
  case (4 e es xs)
  then obtain i is' where c: "is = i # is'" "i < e" "in_bounds (sub_extents es xs) is'"
    by (auto elim: in_bounds_ConsE)
  with 4 show ?case by (simp add: selected_def in_bounds_Cons)
qed (auto simp: selected_def in_bounds_Nil)

fun contract :: "slice list \<Rightarrow> 'i::len word list \<Rightarrow> 'i word list" where
  "contract (Index a # xs) (j # js) = contract xs js"
| "contract (Pair a b # xs) (j # js) = (j - ucast a) # contract xs js"
| "contract (ConstPair a b # xs) (j # js) = (j - ucast a) # contract xs js"
| "contract (All # xs) (j # js) = j # contract xs js"
| "contract xs js = []"

lemma contract_expand:
  "valid_slices es xs \<Longrightarrow> in_bounds (sub_extents es xs) is \<Longrightarrow> contract xs (expand xs is) = is"
  by (induction es xs arbitrary: "is" rule: sub_extents.induct) (auto simp: in_bounds_Nil elim!: in_bounds_ConsE)

lemma pair_contract:
  assumes "(a :: u64) \<le> b" "unat b \<le> unat (e :: 'i::len word)" "unat a \<le> unat j" "unat j < unat b"
  shows "(j :: 'i word) - ucast a < ucast (b - a)"
  using assms pair_values [OF assms(1,2)] by (simp add: word_less_nat_alt word_le_nat_alt unat_sub)

lemma expand_contract:
  "valid_slices es xs \<Longrightarrow> js \<in> selected es xs \<Longrightarrow>
   expand xs (contract xs js) = js \<and> in_bounds (sub_extents es xs) (contract xs js)"
proof (induction es xs arbitrary: js rule: sub_extents.induct)
  case (1 e es a xs)
  then obtain j js' where "js = j # js'" "unat j = unat a" "js' \<in> selected es xs"
    by (auto simp: selected_def elim: in_bounds_ConsE)
  with 1 show ?case using unat_ucast_le [of a e] by (simp add: word_unat_eq_iff)
next
  case (2 e es a b xs)
  then obtain j js' where "js = j # js'" "unat a \<le> unat j" "unat j < unat b" "js' \<in> selected es xs"
    by (auto simp: selected_def elim: in_bounds_ConsE)
  with 2 show ?case using pair_contract [of a b e j] by (simp add: in_bounds_Cons)
next
  case (3 e es a b xs)
  then obtain j js' where "js = j # js'" "unat a \<le> unat j" "unat j < unat b" "js' \<in> selected es xs"
    by (auto simp: selected_def elim: in_bounds_ConsE)
  with 3 show ?case using pair_contract [of a b e j] by (simp add: in_bounds_Cons)
next
  case (4 e es xs)
  then obtain j js' where "js = j # js'" "j < e" "js' \<in> selected es xs"
    by (auto simp: selected_def elim: in_bounds_ConsE)
  with 4 show ?case by (simp add: in_bounds_Cons)
qed (auto simp: selected_def in_bounds_Nil)

lemma expand_bij:
  "valid_slices es xs \<Longrightarrow> bij_betw (expand xs) {is. in_bounds (sub_extents es xs) is} (selected es xs)"
  by (rule bij_betw_byWitness [of _ "contract xs"])
    (auto simp: contract_expand expand_contract intro: expand_selected)

section \<open>Preserved layouts\<close>

lemma encounter_ignore [simp]: "foldl encounter IgnorePreservation xs = IgnorePreservation"
proof (induction xs)
  case (Cons x xs)
  then show ?case by (cases x) simp_all
qed simp

lemma encounter_right_kind: "\<exists>res only'. foldl encounter (PreserveRight r only) xs = PreserveRight res only'"
proof (induction xs arbitrary: r only)
  case (Cons x xs)
  then show ?case by (cases x) simp_all
qed simp

lemma encounter_left_kind: "\<exists>res only'. foldl encounter (PreserveLeft r only) xs = PreserveLeft res only'"
proof (induction xs arbitrary: r only)
  case (Cons x xs)
  then show ?case by (cases x) simp_all
qed simp

lemma encounter_right_lost: "foldl encounter (PreserveRight False only) xs \<noteq> PreserveRight True only'"
proof (induction xs arbitrary: only)
  case (Cons x xs)
  then show ?case by (cases x) simp_all
qed simp

lemma encounter_left_lost: "foldl encounter (PreserveLeft False only) xs \<noteq> PreserveLeft True only'"
proof (induction xs arbitrary: only)
  case (Cons x xs)
  then show ?case by (cases x) simp_all
qed simp

text \<open>After a pair or an all, only alls keep the right layout; after a pair or a scalar, only scalars keep the left
  one.\<close>

lemma right_only_alls:
  "foldl encounter (PreserveRight True False) xs = PreserveRight True only' \<Longrightarrow> length es = length xs \<Longrightarrow>
   sub_extents es xs = es \<and> sub_strides es xs = es"
proof (induction xs arbitrary: es)
  case (Cons x xs)
  then show ?case by (cases x; cases es) (simp_all add: encounter_right_lost)
qed simp

lemma left_only_scalars:
  "foldl encounter (PreserveLeft True False) xs = PreserveLeft True only' \<Longrightarrow> sub_extents es xs = [] \<and> sub_strides ss xs = []"
proof (induction xs arbitrary: es ss)
  case (Cons x xs)
  then show ?case by (cases x; cases es; cases ss) (simp_all add: encounter_left_lost)
qed simp

lemma right_preserved:
  "foldl encounter (PreserveRight True True) xs = PreserveRight True only' \<Longrightarrow> length es = length xs \<Longrightarrow>
   rstrides (sub_extents es xs) = sub_strides (rstrides es) xs"
proof (induction xs arbitrary: es)
  case (Cons x xs)
  then obtain e es' where e: "es = e # es'" "length es' = length xs" by (cases es) auto
  with Cons right_only_alls [of xs only' es'] right_only_alls [of xs only' "rstrides es'"] show ?case
    by (cases x) simp_all
qed simp

lemma left_preserved:
  "foldl encounter (PreserveLeft True True) xs = PreserveLeft True only' \<Longrightarrow> length es = length xs \<Longrightarrow>
   lstrides c (sub_extents es xs) = sub_strides (lstrides c es) xs"
proof (induction xs arbitrary: es c)
  case (Cons x xs)
  then obtain e es' where e: "es = e # es'" "length es' = length xs" by (cases es) auto
  with Cons left_only_scalars [of xs only' es' "lstrides (c * e) es'"] show ?case
    by (cases x) simp_all
qed simp

lemma length_sub_strides: "length ss = length es \<Longrightarrow> length (sub_strides ss xs) = length (sub_extents es xs)"
proof (induction es xs arbitrary: ss rule: sub_extents.induct)
qed (auto simp: length_Suc_conv)

text \<open>The layout of the slice: whatever the analysis decides, its strides are those of the source.\<close>

definition sliced_layout :: "'i::len word layout \<Rightarrow> 'i word list \<Rightarrow> slice list \<Rightarrow> 'i word layout" where
  "sliced_layout l es xs = (case foldl encounter (preserve_of l) xs of
     PreserveRight True only \<Rightarrow> LayoutRight
   | PreserveLeft True only \<Rightarrow> LayoutLeft
   | _ \<Rightarrow> LayoutStride (sub_strides (strides_of l es) xs))"

lemma sliced_layout_cases:
  obtains (stride) "sliced_layout l es xs = LayoutStride (sub_strides (strides_of l es) xs)"
  | (right) only where "l = LayoutRight" "foldl encounter (PreserveRight True True) xs = PreserveRight True only"
      "sliced_layout l es xs = LayoutRight"
  | (left) only where "l = LayoutLeft" "foldl encounter (PreserveLeft True True) xs = PreserveLeft True only"
      "sliced_layout l es xs = LayoutLeft"
proof (cases l)
  case LayoutLeft
  obtain res only where e: "foldl encounter (PreserveLeft True True) xs = PreserveLeft res only"
    using encounter_left_kind by blast
  with LayoutLeft stride left show ?thesis by (cases res) (simp_all add: sliced_layout_def)
next
  case LayoutRight
  obtain res only where e: "foldl encounter (PreserveRight True True) xs = PreserveRight res only"
    using encounter_right_kind by blast
  with LayoutRight stride right show ?thesis by (cases res) (simp_all add: sliced_layout_def)
next
  case (LayoutStride ss)
  with stride show ?thesis by (simp add: sliced_layout_def)
qed

lemma sliced_strides:
  assumes "length xs = length es"
  shows "strides_of (sliced_layout l es xs) (sub_extents es xs) = sub_strides (strides_of l es) xs"
proof (cases rule: sliced_layout_cases [of l es xs])
  case stride
  then show ?thesis by (simp add: strides_of_simps length_sub_strides)
next
  case (right only)
  with right_preserved [of xs only es] assms show ?thesis by (simp add: strides_of_simps)
next
  case (left only)
  with left_preserved [of xs only es] assms show ?thesis by (simp add: strides_of_simps)
qed

section \<open>The preconditions of the slice\<close>

lemma chained_Cons: "chained (p # ps) = (chained ps \<and> (ps = [] \<or> fst (hd ps) * snd (hd ps) \<le> fst p))"
  by (cases p; cases ps) auto

lemma chained_drop: "chained (qs @ (s, e) # ps) \<Longrightarrow> 0 < e \<Longrightarrow> chained (qs @ ps)"
proof (induction qs)
  case (Cons q qs)
  have "a \<le> x" if "a \<le> s" "s * e \<le> x" for a x
  proof -
    have "s \<le> s * e" using \<open>0 < e\<close> by simp
    with that show ?thesis by linarith
  qed
  with Cons show ?case by (cases qs) (auto simp: chained_Cons)
qed (simp add: chained_Cons)

lemma chained_shrink: "chained (qs @ (s, e) # ps) \<Longrightarrow> e' \<le> e \<Longrightarrow> chained (qs @ (s, e') # ps)"
proof (induction qs)
  case (Cons q qs)
  have "s * e' \<le> x" if "s * e \<le> x" for x
    using mult_le_mono2 [OF Cons.prems(2), of s] that by linarith
  with Cons show ?case by (cases qs) (auto simp: chained_Cons)
qed (simp add: chained_Cons)

text \<open>Dropping and shrinking dimensions keeps an order of the strides.\<close>

lemma split_mset:
  assumes "mset ps = add_mset p N"
  obtains qs rs where "ps = qs @ p # rs" "mset (qs @ rs) = N"
proof -
  have "p \<in> set ps" using assms by (metis set_mset_mset union_single_eq_member)
  then obtain qs rs where ps: "ps = qs @ p # rs" by (meson split_list)
  moreover from assms ps have "mset (qs @ rs) = N" by simp
  ultimately show ?thesis using that by blast
qed

lemma drop_dimension:
  assumes "chained ps" "mset ps = add_mset (s, e) N" "0 < e"
  shows "\<exists>ps'. chained ps' \<and> mset ps' = N"
  using assms by (metis split_mset chained_drop)

lemma shrink_dimension:
  assumes "chained ps" "mset ps = add_mset (s, e) N" "e' \<le> e"
  shows "\<exists>ps'. chained ps' \<and> mset ps' = add_mset (s, e') N"
proof -
  obtain qs rs where "ps = qs @ (s, e) # rs" "mset (qs @ rs) = N" by (rule split_mset [OF assms(2)])
  with assms(1,3) have "chained (qs @ (s, e') # rs)" "mset (qs @ (s, e') # rs) = add_mset (s, e') N"
    by (auto intro: chained_shrink)
  then show ?thesis by blast
qed

abbreviation dimensions :: "'i::len word list \<Rightarrow> 'i word list \<Rightarrow> (nat \<times> nat) multiset" where
  "dimensions ss es \<equiv> mset (zip (map unat ss) (map unat es))"

lemma sub_chained:
  "valid_slices es xs \<Longrightarrow> length ss = length es \<Longrightarrow> chained ps \<Longrightarrow> mset ps = dimensions ss es + M \<Longrightarrow>
   \<exists>ps'. chained ps' \<and> mset ps' = dimensions (sub_strides ss xs) (sub_extents es xs) + M"
proof (induction es xs arbitrary: ss ps M rule: sub_extents.induct)
  case (1 e es a xs)
  then obtain s ss' where s: "ss = s # ss'" "length ss' = length es" by (cases ss) auto
  with 1 obtain ps' where "chained ps'" "mset ps' = dimensions ss' es + M"
    using drop_dimension [of ps "unat s" "unat e" "dimensions ss' es + M"] by auto
  with 1(1) [of ss' ps' M] 1(2) s show ?case by simp
next
  case (2 e es a b xs)
  then obtain s ss' where s: "ss = s # ss'" "length ss' = length es" by (cases ss) auto
  let ?e = "unat (ucast (b - a) :: 'a word)"
  have "?e \<le> unat e" using 2(2) by (simp add: pair_le)
  with 2 s obtain ps' where "chained ps'" "mset ps' = dimensions ss' es + add_mset (unat s, ?e) M"
    using shrink_dimension [of ps "unat s" "unat e" "dimensions ss' es + M" ?e] by auto
  with 2(1) [of ss' ps' "add_mset (unat s, ?e) M"] 2(2) s show ?case by simp
next
  case (3 e es a b xs)
  then obtain s ss' where s: "ss = s # ss'" "length ss' = length es" by (cases ss) auto
  let ?e = "unat (ucast (b - a) :: 'a word)"
  have "?e \<le> unat e" using 3(2) by (simp add: pair_le)
  with 3 s obtain ps' where "chained ps'" "mset ps' = dimensions ss' es + add_mset (unat s, ?e) M"
    using shrink_dimension [of ps "unat s" "unat e" "dimensions ss' es + M" ?e] by auto
  with 3(1) [of ss' ps' "add_mset (unat s, ?e) M"] 3(2) s show ?case by simp
next
  case (4 e es xs)
  then obtain s ss' where s: "ss = s # ss'" "length ss' = length es" by (cases ss) auto
  with 4(1) [of ss' ps "add_mset (unat s, unat e) M"] 4(2-) show ?case by simp
qed auto

lemma sub_zero: "valid_slices es xs \<Longrightarrow> 0 \<in> set es \<Longrightarrow> 0 \<in> set (sub_extents es xs)"
proof (induction es xs rule: sub_extents.induct)
  case (2 e es a b xs)
  then show ?case using pair_le [of a b e] by (auto simp: unat_eq_zero)
next
  case (3 e es a b xs)
  then show ?case using pair_le [of a b e] by (auto simp: unat_eq_zero)
qed auto

lemma sub_nonzero: "0 \<notin> set ss \<Longrightarrow> 0 \<notin> set (sub_strides ss xs)"
  by (induction ss xs rule: sub_strides.induct) auto

lemma nprod_sub: "valid_slices es xs \<Longrightarrow> nprod (sub_extents es xs) \<le> nprod es"
proof (induction es xs rule: sub_extents.induct)
  case (1 e es a xs)
  then have "1 * nprod (sub_extents es xs) \<le> unat e * nprod es" by (intro mult_le_mono) auto
  then show ?case by simp
next
  case (2 e es a b xs)
  then show ?case using pair_le [of a b e] by (simp add: mult_le_mono)
next
  case (3 e es a b xs)
  then show ?case using pair_le [of a b e] by (simp add: mult_le_mono)
qed auto

lemma pred_le: "unat x \<le> unat e \<Longrightarrow> x \<noteq> 0 \<Longrightarrow> unat (x - 1) \<le> unat (e - 1)" for x e :: "'i::len word"
proof -
  assume "unat x \<le> unat e" "x \<noteq> 0"
  moreover from this have "e \<noteq> 0" by (auto simp: unat_eq_zero)
  ultimately show ?thesis by (simp add: unat_minus_one diff_le_mono)
qed

lemma nlast_sub:
  "valid_slices es xs \<Longrightarrow> length ss = length es \<Longrightarrow> 0 \<notin> set (sub_extents es xs) \<Longrightarrow>
   nlast (sub_strides ss xs) (sub_extents es xs) \<le> nlast ss es"
proof (induction es xs arbitrary: ss rule: sub_extents.induct)
  case (1 e es a xs)
  then show ?case by (cases ss) (auto intro: trans_le_add2)
next
  case (2 e es a b xs)
  then show ?case using pred_le [OF pair_le [of a b e]] by (cases ss) (auto intro!: add_mono mult_le_mono1)
next
  case (3 e es a b xs)
  then show ?case using pred_le [OF pair_le [of a b e]] by (cases ss) (auto intro!: add_mono mult_le_mono1)
next
  case (4 e es xs)
  then show ?case by (cases ss) auto
qed auto

lemma sub_strides_ok:
  assumes "strides_ok ss es" "valid_slices es xs"
  shows "strides_ok (sub_strides ss xs) (sub_extents es xs)"
proof (cases "0 \<in> set (sub_extents es xs)")
  case True
  with assms show ?thesis by (simp add: strides_ok_def length_sub_strides)
next
  case False
  with sub_zero assms(2) have "0 \<notin> set es" by blast
  with assms(1) obtain ps where "length ss = length es" "0 \<notin> set ss" "Suc (nlast ss es) < 2 ^ LENGTH('a)"
    "mset ps = dimensions ss es" "chained ps"
    by (auto simp: strides_ok_def)
  with sub_chained [of es xs ss ps "{#}"] nlast_sub [of es xs ss] sub_nonzero [of ss xs] assms(2) False
  show ?thesis by (auto simp: strides_ok_def length_sub_strides)
qed

lemma sliced_ok:
  assumes "mapping_ok l es" "valid_slices es xs"
  shows "mapping_ok (sliced_layout l es xs) (sub_extents es xs)"
proof (cases rule: sliced_layout_cases [of l es xs])
  case stride
  with mapping_ok_strides [OF assms(1)] sub_strides_ok [OF _ assms(2)] show ?thesis by simp
next
  case (right only)
  with assms nprod_sub [of es xs] show ?thesis by (simp add: representable_def)
next
  case (left only)
  with assms nprod_sub [of es xs] show ?thesis by (simp add: representable_def)
qed

section \<open>Views\<close>

lemma extent_values_Nil: "extent_values [] = []"
  by (simp add: extent_values_def)

lemma sliced_view:
  assumes "valid_slices (extent_values (mapping_extents m)) xs"
  shows "mapping_layout (submdspan m xs) = sliced_layout (mapping_layout m) (extent_values (mapping_extents m)) xs"
    and "extent_values (mapping_extents (submdspan m xs)) = sub_extents (extent_values (mapping_extents m)) xs"
    and "data_handle (submdspan m xs) = data_handle m +
      ucast (map_offset (mapping_layout m) (extent_values (mapping_extents m)) (map slice_start xs))"
proof -
  let ?es = "extent_values (mapping_extents m)"
  let ?h0 = "\<lparr>preserved = preserve_of (mapping_layout m), h_offsets = [], h_exts = [], h_strides = []\<rparr>"
  have len: "length (mapping_extents m) = length xs" "length ?es = length xs"
    using valid_slices_length [OF assms] by (simp_all add: extent_values_def)
  note lists = handle_slices_lists [OF len(1), of "map (map_stride (mapping_layout m) ?es) [0..<length ?es]" ?h0]
  from lists len show "mapping_layout (submdspan m xs) = sliced_layout (mapping_layout m) ?es xs"
    "extent_values (mapping_extents (submdspan m xs)) = sub_extents ?es xs"
    "data_handle (submdspan m xs) = data_handle m + ucast (map_offset (mapping_layout m) ?es (map slice_start xs))"
    by (simp_all add: submdspan_def Let_def new_layout.simps sliced_layout_def strides_of_def extent_values_Nil
        split: preserve.split bool.split)
qed

lemma sliced_access:
  fixes m :: "'i::len word mdspan" and xs
  defines "es \<equiv> extent_values (mapping_extents m)"
  assumes ok: "mapping_ok (mapping_layout m) es" and v: "valid_slices es xs"
    and b: "in_bounds (sub_extents es xs) is"
  shows "mdspan_access (submdspan m xs) is = mdspan_access m (expand xs is)"
proof -
  let ?l = "mapping_layout m" and ?ss = "strides_of (mapping_layout m) es"
  note view = sliced_view [OF v [unfolded es_def], folded es_def]
  have len: "length xs = length es" by (rule valid_slices_length [OF v])
  have e: "in_bounds es (expand xs is)" using expand_selected [OF v b] by (simp add: selected_def)
  have split: "nlin ?ss (expand xs is) = nlin ?ss (map slice_start xs) + nlin (sub_strides ?ss xs) is"
    by (rule nlin_expand [OF v _ b]) simp
  have "nlin ?ss (expand xs is) < 2 ^ LENGTH('i)"
    using strides_ok_nlin(1) [OF _ e] mapping_ok_strides [OF ok] by blast
  with split have "unat (stride_offset ?ss (map slice_start xs)) = nlin ?ss (map slice_start xs)"
    by (intro unat_stride_offset) simp
  moreover have "map_offset ?l es (map slice_start xs) = stride_offset ?ss (map slice_start xs)"
    using mapping_ok_strides [OF ok] len by (simp add: linear_offset)
  moreover have "unat (map_offset (sliced_layout ?l es xs) (sub_extents es xs) is) = nlin (sub_strides ?ss xs) is"
    using unat_map_offset(1) [OF sliced_ok [OF ok v] b] by (simp add: sliced_strides len)
  ultimately have "unat (map_offset ?l es (expand xs is)) = unat (map_offset ?l es (map slice_start xs)) +
      unat (map_offset (sliced_layout ?l es xs) (sub_extents es xs) is)"
    by (simp add: unat_map_offset(1) [OF ok e] split)
  then have "(ucast (map_offset ?l es (expand xs is)) :: u64) = ucast (map_offset ?l es (map slice_start xs)) +
      ucast (map_offset (sliced_layout ?l es xs) (sub_extents es xs) is)"
    by (metis of_nat_add of_nat_unat)
  then show ?thesis unfolding mdspan_access_def view es_def [symmetric] by (simp add: ac_simps)
qed

end
