(* ===== verification/MdspanProperties.thy ===== *)
theory MdspanProperties
  imports Submdspan
begin

text \<open>
  Properties of \<open>mdspan\<close>: elements have distinct offsets inside the span, sizes and exhaustiveness are those of the
  index space, slicing selects the elements it names and keeps the preconditions, conversions keep the offsets.
\<close>

section \<open>Offsets\<close>

text \<open>C15. For a layout mapping that meets its documented precondition (the extents' product is representable, or the
  strides leave room for each other), every multi-index inside the extents has an offset below
  \<open>required_span_size()\<close>, computed without wrap-around, and two multi-indices have the same offset only when they are
  equal, for all three layouts and every index width.\<close>

theorem layouts_unique:
  assumes "mapping_ok l es" "in_bounds es is" "in_bounds es js"
  shows "unat (map_offset l es is) < unat (map_span l es) \<and> (map_offset l es is = map_offset l es js) = (is = js)"
  using layout.bounded [OF assms(1,2)] layout.no_alias [OF assms] by blast

lemma ok_example: "mapping_ok (LayoutStride [1, 5]) [4, 3 :: 8 word]"
  by (auto simp: strides_ok_def intro!: exI [of _ "[(5, 3), (1, 4)]"])

theorem layouts_unique_witness:
  "unat (map_offset (LayoutStride [1, 5]) [4, 3] [3, 1 :: 8 word]) < unat (map_span (LayoutStride [1, 5]) [4, 3 :: 8 word])
   \<and> (map_offset (LayoutStride [1, 5]) [4, 3] [3, 1 :: 8 word] = map_offset (LayoutStride [1, 5]) [4, 3] [2, 2])
     = ([3, 1 :: 8 word] = [2, 2])"
  by (rule layouts_unique [OF ok_example]) (simp_all add: in_bounds_def)

section \<open>Sizes\<close>

lemma stride_span_zero: "length ss = length es \<Longrightarrow> 0 \<in> set es \<Longrightarrow> stride_span_from n es ss = 0"
  by (induction n es ss rule: stride_span_from.induct) auto

lemma exhaustive_iff:
  assumes "mapping_ok l es"
  shows "is_exhaustive l es = (nprod es = unat (map_span l es))"
proof (cases l)
  case (LayoutStride ss)
  with assms have ok: "strides_ok ss es" by simp
  show ?thesis
  proof (cases "0 \<in> set es")
    case True
    with ok LayoutStride show ?thesis
      by (simp add: strides_ok_def stride_span_zero foldr_times prod_list_zero nprod_zero)
  next
    case False
    have "nprod es \<le> unat (map_span l es)"
      unfolding card_in_bounds [symmetric] card_image [OF layout.offsets_inj [OF assms], symmetric]
      by (metis card_lessThan card_mono finite_lessThan layout.offsets_below [OF assms])
    from le_less_trans [OF this unat_below] False have "unat (prod_list es) = nprod es" by (simp add: unat_prod_list)
    with LayoutStride show ?thesis by (simp add: foldr_times word_unat_eq_iff eq_commute)
  qed
qed (use assms in \<open>simp_all add: unat_span_size\<close>)

lemma mdspan_size_card: "mdspan_size m = of_nat (card {is. in_bounds (extent_values (mapping_extents m)) is})"
proof -
  have "foldr (\<lambda>e n. ucast e * n) es 1 = (of_nat (nprod es) :: u64)" for es :: "'a word list"
    by (induction es) (simp_all add: unsigned_of_nat [symmetric])
  then show ?thesis by (simp add: mdspan_size_def card_in_bounds)
qed

lemma mdspan_empty_iff: "mdspan_empty m = ({is. in_bounds (extent_values (mapping_extents m)) is} = {})"
proof -
  have "({is. in_bounds es is} = {}) = (0 \<in> set es)" for es :: "'a word list"
  proof
    assume "{is. in_bounds es is} = {}"
    with card_in_bounds [of es] have "nprod es = 0" by simp
    with nprod_pos [of es] show "0 \<in> set es" by fastforce
  qed (use in_bounds_nonzero in blast)
  then show ?thesis by (auto simp: mdspan_empty_def extent_values_def)
qed

text \<open>\<open>size()\<close> is the number of multi-indices inside the extents, modulo 2 to the 64, \<open>empty()\<close> holds exactly
  when there is none, and \<open>is_exhaustive()\<close> of a mapping that meets its precondition answers exactly whether the
  offsets of the elements fill the whole span.\<close>

lemma sizes_exact:
  assumes "mapping_ok (mapping_layout m) (extent_values (mapping_extents m))"
  shows "mdspan_size m = of_nat (card {is. in_bounds (extent_values (mapping_extents m)) is}) \<and>
    mdspan_empty m = ({is. in_bounds (extent_values (mapping_extents m)) is} = {}) \<and>
    is_exhaustive (mapping_layout m) (extent_values (mapping_extents m)) =
      ((\<lambda>is. unat (map_offset (mapping_layout m) (extent_values (mapping_extents m)) is)) `
         {is. in_bounds (extent_values (mapping_extents m)) is}
       = {..<unat (map_span (mapping_layout m) (extent_values (mapping_extents m)))})"
  using mdspan_size_card [of m] mdspan_empty_iff [of m] exhaustive_iff [OF assms] layout.fills_span [OF assms]
  by (simp add: card_in_bounds)

definition example_view :: "8 word mdspan" where
  "example_view = \<lparr>data_handle = 100, mapping_layout = LayoutStride [1, 5], mapping_extents = [Dynamic 4, Static 3]\<rparr>"

lemma example_view_ok: "mapping_ok (mapping_layout example_view) (extent_values (mapping_extents example_view))"
  using ok_example by (simp add: example_view_def extent_values_def)

lemma sizes_exact_witness: "mdspan_size example_view = 12 \<and> \<not> mdspan_empty example_view \<and>
    ((\<lambda>is. unat (stride_offset [1, 5] (is :: 8 word list))) ` {is. in_bounds [4, 3] is} \<noteq> {..<14})"
proof -
  note s = sizes_exact [OF example_view_ok]
  have e: "extent_values (mapping_extents example_view) = [4, 3]" "mapping_layout example_view = LayoutStride [1, 5]"
    by (simp_all add: example_view_def extent_values_def)
  have c: "card {is. in_bounds [4, 3 :: 8 word] is} = 12" by (simp add: card_in_bounds)
  then have "{is. in_bounds [4, 3 :: 8 word] is} \<noteq> {}" by force
  with s c show ?thesis unfolding e by simp
qed

section \<open>Slices\<close>

text \<open>C14. \<open>submdspan\<close> of a view that meets its layout's precondition, with slices inside the extents: the multi-indices
  of the result stand one to one for the multi-indices of the source that every slice selects (\<open>expand\<close>), and an
  access through the result reaches the same element of the same memory as the access through the source, for all
  layouts, whether the analysis preserves the layout or falls back to strides.\<close>

theorem submdspan_element:
  assumes "mapping_ok (mapping_layout m) (extent_values (mapping_extents m))"
    and "valid_slices (extent_values (mapping_extents m)) slices"
  shows "bij_betw (expand slices) {is. in_bounds (extent_values (mapping_extents (submdspan m slices))) is}
      (selected (extent_values (mapping_extents m)) slices) \<and>
    (\<forall>is \<in> {is. in_bounds (extent_values (mapping_extents (submdspan m slices))) is}.
      mdspan_access (submdspan m slices) is = mdspan_access m (expand slices is))"
  using expand_bij [OF assms(2)] sliced_access [OF assms] by (simp add: sliced_view(2) [OF assms(2)])

theorem submdspan_element_witness:
  "mdspan_access (submdspan example_view [Pair 1 3, Index 2]) [1] = mdspan_access example_view [2, 2]"
  using submdspan_element [of example_view "[Pair 1 3, Index 2]", OF example_view_ok]
  by (simp add: example_view_def extent_values_def valid_slices_def submdspan_def Let_def in_bounds_def unsigned_of_nat)

text \<open>C16. Slicing keeps the precondition of the layout: the result of \<open>submdspan\<close> has a mapping whose offsets are
  again unique, free of wrap-around and inside its span, so slices can be sliced again; and the result with a
  preserved layout is preserved only where the strides of that layout are the strides of the source.\<close>

theorem submdspan_valid:
  assumes "mapping_ok (mapping_layout m) (extent_values (mapping_extents m))"
    and "valid_slices (extent_values (mapping_extents m)) slices"
  shows "mapping_ok (mapping_layout (submdspan m slices)) (extent_values (mapping_extents (submdspan m slices))) \<and>
    strides_of (mapping_layout (submdspan m slices)) (extent_values (mapping_extents (submdspan m slices))) =
    sub_strides (strides_of (mapping_layout m) (extent_values (mapping_extents m))) slices"
  using sliced_ok [OF assms] sliced_strides [OF valid_slices_length [OF assms(2)]]
  by (simp add: sliced_view(1,2) [OF assms(2)])

theorem submdspan_valid_witness:
  "mapping_ok (mapping_layout (submdspan example_view [All, Pair 1 3])) (extent_values (mapping_extents (submdspan example_view [All, Pair 1 3])))"
  by (rule submdspan_valid [THEN conjunct1, OF example_view_ok])
    (simp add: example_view_def extent_values_def valid_slices_def)

section \<open>Conversions\<close>

lemma strides_check_iff:
  "length ss = length es \<Longrightarrow> strides_check st es ss = (map ucast ss = lstrides st (map ucast es))"
  by (induction st es ss rule: strides_check.induct) auto

lemma lstrides_snoc: "lstrides c (es @ [e]) = lstrides c es @ [c * prod_list es]"
  by (induction es arbitrary: c) (simp_all add: mult.assoc)

lemma lstrides_rev: "lstrides 1 (rev es) = rev (rstrides es)"
  by (induction es) (simp_all add: lstrides_snoc prod_list_rev)

lemma ucast_lstrides:
  "unat c * nprod es < 2 ^ LENGTH('i) \<Longrightarrow> 0 \<notin> set es \<Longrightarrow>
   map ucast (lstrides c es) = lstrides (ucast c :: u64) (map ucast (es :: 'i::len word list))"
proof (induction es arbitrary: c)
  case (Cons e es)
  then have ce: "unat (c * e) = unat c * unat e" by (intro unat_mult_head [where es = es]) simp_all
  then have "(ucast (c * e) :: u64) = ucast c * ucast e" by (metis of_nat_mult of_nat_unat)
  with Cons.IH [of "c * e"] Cons.prems ce show ?case by (simp add: ac_simps)
qed simp

lemma ucast_prod_list:
  "representable es \<Longrightarrow> 0 \<notin> set es \<Longrightarrow> (ucast (prod_list es) :: u64) = prod_list (map ucast es)"
proof (induction es)
  case (Cons e es)
  then have r: "representable es" by (simp add: representable_tail)
  with Cons.prems have "unat (e * prod_list es) = unat e * unat (prod_list es)"
    using unat_prod_list [of "e # es"] unat_prod_list [of es] by (simp add: representable_def)
  then have "(ucast (e * prod_list es) :: u64) = ucast e * ucast (prod_list es)" by (metis of_nat_mult of_nat_unat)
  with Cons r show ?case by simp
qed simp

lemma ucast_rstrides:
  "representable es \<Longrightarrow> 0 \<notin> set es \<Longrightarrow> map ucast (rstrides es) = (rstrides (map ucast es) :: u64 list)"
proof (induction es)
  case (Cons e es)
  then show ?case using representable_tail [of e es] by (simp add: ucast_prod_list)
qed simp

lemma map_ucast_inject:
  "LENGTH('i::len) \<le> 64 \<Longrightarrow> (map ucast ss = (map ucast ts :: u64 list)) = (ss = (ts :: 'i word list))"
proof (rule inj_map_eq_map)
  assume "LENGTH('i) \<le> 64"
  then show "inj (ucast :: 'i word \<Rightarrow> u64)"
    by (intro down_ucast_inj) (simp add: is_down)
qed

lemma map_offset_to_stride: "has_rank l es \<Longrightarrow> length is = length es \<Longrightarrow> map_offset (to_stride l es) es is = map_offset l es is"
  by (simp add: to_stride_def linear_offset strides_of_def [symmetric])

lemma stride_to_left_iff:
  assumes "LENGTH('i::len) \<le> 64" "representable es" "0 \<notin> set es" "length ss = length (es :: 'i word list)"
  shows "strides_check 1 es ss = (ss = strides_of LayoutLeft es)"
  using ucast_lstrides [of 1 es] map_ucast_inject [OF assms(1), of ss "lstrides 1 es"] assms(2-4)
  by (simp add: strides_check_iff strides_of_simps representable_def)

lemma stride_to_right_iff:
  assumes "LENGTH('i::len) \<le> 64" "representable es" "0 \<notin> set es" "length ss = length (es :: 'i word list)"
  shows "strides_check 1 (rev es) (rev ss) = (ss = strides_of LayoutRight es)"
  using ucast_rstrides [of es] map_ucast_inject [OF assms(1), of ss "rstrides es"] assms(2-4)
  by (simp add: strides_check_iff strides_of_simps rev_map [symmetric] lstrides_rev)

text \<open>C17. Converting a mapping to \<open>layout_stride\<close> keeps every offset. Back, the constructors of \<open>layout_left\<close> and
  \<open>layout_right\<close> accept exactly the strides of their own layout and throw on every other: for an index type of at
  most 64 bits and a non-empty index space whose size is representable, no strides that differ from them pass the
  check on \<open>size_t\<close> products, and the layout's own strides always pass.\<close>

theorem conversions_exact:
  assumes "LENGTH('i::len) \<le> 64" "representable es" "0 \<notin> set es" "length ss = length (es :: 'i word list)"
    and "has_rank l es"
  shows "(\<forall>is \<in> {is. length is = length es}. map_offset (to_stride l es) es is = map_offset l es is) \<and>
    stride_to_left (LayoutStride ss) es = (if LayoutStride ss = to_stride LayoutLeft es then Some LayoutLeft else None) \<and>
    stride_to_right (LayoutStride ss) es = (if LayoutStride ss = to_stride LayoutRight es then Some LayoutRight else None)"
  using stride_to_left_iff [OF assms(1-4)] stride_to_right_iff [OF assms(1-4)] map_offset_to_stride [OF assms(5)]
  by (simp add: to_stride_def strides_of_def)

theorem conversions_exact_witness:
  "stride_to_left (LayoutStride [1, 4 :: 8 word]) [4, 3] = Some LayoutLeft \<and>
   stride_to_right (LayoutStride [1, 4 :: 8 word]) [4, 3] = None"
  using conversions_exact [of "[4, 3 :: 8 word]" "[1, 4]" LayoutLeft]
  by (simp add: representable_def to_stride_def left_stride_def right_stride_def upt_rec)

section \<open>Extents\<close>

definition dynamic_values :: "u64 list \<Rightarrow> 'i::len word list \<Rightarrow> 'i word list" where
  "dynamic_values pat vs = map snd (filter (\<lambda>(e, v). e = dynamic_extent) (zip pat vs))"

definition agrees :: "u64 list \<Rightarrow> 'i::len word list \<Rightarrow> bool" where
  "agrees pat vs = list_all2 (\<lambda>e v. e = dynamic_extent \<or> v = ucast e) pat vs"

lemma length_dynamic_values: "length pat = length vs \<Longrightarrow> length (dynamic_values pat vs) = rank_dynamic pat"
  unfolding dynamic_values_def rank_dynamic_def
  by (induction pat vs rule: list_induct2) simp_all

lemma psa_from_dynamic_values: "agrees pat vs \<Longrightarrow> psa_from_dynamic pat (dynamic_values pat vs) = psa_from_all pat vs"
  unfolding agrees_def
  by (induction pat vs rule: list_all2_induct) (auto simp: dynamic_values_def psa_entry_of_def)

lemma psa_from_all_values: "agrees pat vs \<Longrightarrow> extent_values (psa_from_all pat vs) = vs"
  unfolding agrees_def
  by (induction pat vs rule: list_all2_induct) (auto simp: extent_values_def psa_entry_of_def)

lemma psa_get_nth: "idx \<le> n \<Longrightarrow> psa_get e idx n = (if n - idx < length e then psa_value (e ! (n - idx)) else 0)"
proof (induction e arbitrary: idx)
  case (Cons x e)
  have zero: "m < k \<Longrightarrow> psa_get e k m = 0" for k m by (induction e arbitrary: k) simp_all
  show ?case
  proof (cases "idx = n")
    case False
    with Cons.prems have "n - idx = Suc (n - Suc idx)" by simp
    with False Cons show ?thesis by simp
  qed (simp add: zero)
qed simp

text \<open>Extents constructed from all values, where the static ones agree with the template arguments, equal those
  constructed from the dynamic values only, hold exactly these values, and \<open>extent(n)\<close>, which the code computes as
  a sum over all positions, returns the \<open>n\<close>-th; the converting constructor to a pattern that agrees, with an index type of any width, keeps them converted.\<close>

lemma extents_values:
  assumes "agrees pat vs" "agrees pat' (map ucast vs :: 'j::len word list)"
  shows "make_extents pat vs = make_extents pat (dynamic_values pat vs) \<and>
    extent_values (make_extents pat vs) = vs \<and>
    (\<forall>n \<in> {..<length vs}. extent (make_extents pat vs) n = vs ! n) \<and>
    extent_values (convert_extents pat' (make_extents pat vs)) = (map ucast vs :: 'j word list)"
proof -
  have len: "length pat = length vs" using assms(1) by (simp add: agrees_def list_all2_lengthD)
  have all: "rank_dynamic pat = length vs \<Longrightarrow> dynamic_values pat vs = vs"
    using length_dynamic_values [OF len] len unfolding dynamic_values_def
    by (metis (no_types, lifting) filter_id_conv length_filter_less length_map length_zip less_irrefl map_snd_zip min.idem)
  have make: "make_extents pat vs = psa_from_all pat vs" "make_extents pat (dynamic_values pat vs) = psa_from_all pat vs"
    using all psa_from_dynamic_values [OF assms(1)] length_dynamic_values [OF len] by (auto simp: make_extents_def)
  have v: "extent_values (psa_from_all pat vs) = vs" by (rule psa_from_all_values [OF assms(1)])
  have "extent (psa_from_all pat vs) n = vs ! n" if "n < length vs" for n
  proof -
    have "length (psa_from_all pat vs) = length vs" using v by (metis extent_values_def length_map)
    with v that show ?thesis by (metis extent_def extent_values_def le0 minus_nat.diff_0 nth_map psa_get_nth)
  qed
  with make v psa_from_all_values [OF assms(2)] show ?thesis by (simp add: convert_extents_def)
qed

lemma extents_values_witness:
  "extent (make_extents [dynamic_extent, 3] [4, 3 :: 8 word]) 1 = 3 \<and>
   make_extents [dynamic_extent, 3] [4, 3 :: 8 word] = make_extents [dynamic_extent, 3] [4]"
proof -
  have a: "agrees [dynamic_extent, 3] [4, 3 :: 8 word]" "agrees [4, dynamic_extent] (map ucast [4, 3 :: 8 word] :: u32 list)"
    by (simp_all add: agrees_def dynamic_extent_def)
  have d: "dynamic_values [dynamic_extent, 3] [4, 3 :: 8 word] = [4]"
    by (simp add: dynamic_values_def dynamic_extent_def)
  note e = extents_values [OF a]
  from e have "extent (make_extents [dynamic_extent, 3] [4, 3 :: 8 word]) 1 = [4, 3] ! 1" by fastforce
  with e d show ?thesis by simp
qed

end
