(* ===== verification/NextPrime.thy ===== *)
theory NextPrime
  imports Prelude
begin

text \<open>
  \<open>__next_prime\<close>, the number of buckets of the hash tables (\<open>libcxx/src/hash.cpp\<close>), for a 64-bit \<open>size_t\<close>, with
  \<open>std::lower_bound\<close>, which it uses. The two endless loops are partial functions; the 48-fold unrolled body of the
  inner one is a walk over the list of its increments.
\<close>

section \<open>Binary search\<close>

fun lower_bound_loop :: "u32 list \<Rightarrow> u64 \<Rightarrow> nat \<Rightarrow> nat \<Rightarrow> nat" where
  "lower_bound_loop xs value first len =
     (if len = 0 then first
      else let l2 = len div 2; m = first + l2 in
        if ucast (xs ! m) < value then lower_bound_loop xs value (Suc m) (len - (l2 + 1))
        else lower_bound_loop xs value first l2)"

declare lower_bound_loop.simps [simp del]

definition lower_bound :: "u32 list \<Rightarrow> u64 \<Rightarrow> nat" where
  "lower_bound xs value = lower_bound_loop xs value 0 (length xs)"

section \<open>Tables\<close>

definition small_primes :: "u32 list" where
  "small_primes = [0, 2, 3, 5, 7, 11, 13, 17, 19, 23, 29, 31, 37, 41, 43, 47, 53, 59, 61, 67, 71, 73, 79, 83, 89, 97,
    101, 103, 107, 109, 113, 127, 131, 137, 139, 149, 151, 157, 163, 167, 173, 179, 181, 191, 193, 197,
    199, 211]"

definition indices :: "u32 list" where
  "indices = [1, 11, 13, 17, 19, 23, 29, 31, 37, 41, 43, 47, 53, 59, 61, 67, 71, 73, 79, 83, 89, 97, 101, 103,
    107, 109, 113, 121, 127, 131, 137, 139, 143, 149, 151, 157, 163, 167, 169, 173, 179, 181, 187, 191,
    193, 197, 199, 209]"

text \<open>The increments of \<open>i\<close> in the unrolled loop, apart from the last one, which leads to the next plane.\<close>

definition steps :: "u64 list" where
  "steps = [10, 2, 4, 2, 4, 6, 2, 6, 4, 2, 4, 6, 6, 2, 6, 4, 2, 6, 4, 6, 8, 4, 2, 4, 2, 4, 8, 6, 4, 6, 2, 4, 6,
    2, 6, 6, 4, 2, 4, 6, 2, 6, 4, 2, 4, 2, 10]"

section \<open>The search\<close>

datatype hash_error = OverflowError

definition check_for_overflow :: "u64 \<Rightarrow> bool" where
  "check_for_overflow n = (0xFFFFFFFFFFFFFFC5 < n)"

text \<open>The division by the small primes from 11 to 199: prime, not prime, or undecided.\<close>

fun test_small :: "u64 \<Rightarrow> u32 list \<Rightarrow> bool option" where
  "test_small n [] = None"
| "test_small n (x # xs) =
     (let p = ucast x; q = n div p in if q < p then Some True else if n = q * p then Some False else test_small n xs)"

text \<open>The division by potential primes. \<open>ds\<close> are the increments left in this plane.\<close>

partial_function (option) test_wheel :: "u64 \<Rightarrow> u64 \<Rightarrow> u64 list \<Rightarrow> bool option" where
  "test_wheel n i ds =
     (let q = n div i in
      if q < i then Some True
      else if n = q * i then Some False
      else case ds of d # ds' \<Rightarrow> test_wheel n (i + d) ds' | [] \<Rightarrow> test_wheel n (i + 2) steps)"

definition test_candidate :: "u64 \<Rightarrow> bool option" where
  "test_candidate n = (case test_small n (drop 5 (butlast small_primes)) of
     Some b \<Rightarrow> Some b | None \<Rightarrow> test_wheel n 211 steps)"

partial_function (option) search_prime :: "u64 \<Rightarrow> u64 \<Rightarrow> nat \<Rightarrow> u64 option" where
  "search_prime n k0 idx =
     Option.bind (test_candidate n) (\<lambda>prime.
       if prime then Some n
       else let last = (Suc idx = length indices);
              k0' = (if last then k0 + 1 else k0); idx' = (if last then 0 else Suc idx) in
         search_prime (210 * k0' + ucast (indices ! idx')) k0' idx')"

text \<open>\<open>__next_prime\<close>; \<open>None\<close> means that it does not return.\<close>

definition next_prime :: "u64 \<Rightarrow> (hash_error + u64) option" where
  "next_prime n =
     (if n \<le> ucast (small_primes ! (length small_primes - 1))
      then Some (Inr (ucast (small_primes ! lower_bound small_primes n)))
      else if check_for_overflow n then Some (Inl OverflowError)
      else let k0 = n div 210; idx = lower_bound indices (n - k0 * 210) in
        map_option Inr (search_prime (210 * k0 + ucast (indices ! idx)) k0 idx))"

end
