(* ===== verification/Primality.thy ===== *)
theory Primality
  imports Prelude
begin

text \<open>
  Prime numbers, as the specification of \<open>__next_prime\<close> needs them: prime factors, trial division, and Pocklington's
  criterion, with which the two large primes behind the overflow limit are certified.
\<close>

definition prime :: "nat \<Rightarrow> bool" where
  "prime p = (1 < p \<and> (\<forall>d. d dvd p \<longrightarrow> d = 1 \<or> d = p))"

lemma prime_gt_1: "prime p \<Longrightarrow> 1 < p"
  by (simp add: prime_def)

lemma prime_divisor: "1 < n \<Longrightarrow> \<exists>p. prime p \<and> p dvd n"
proof (induction n rule: less_induct)
  case (less n)
  show ?case
  proof (cases "prime n")
    case False
    with less.prems obtain d where "d dvd n" "d \<noteq> 1" "d \<noteq> n" by (auto simp: prime_def)
    with less.prems have "1 < d" "d < n" by (auto simp: dvd_imp_le nat_dvd_not_less dest: dvd_imp_le intro!: le_neq_implies_less gr0I)
    with less.IH \<open>d dvd n\<close> show ?thesis by (meson dvd_trans)
  qed auto
qed

lemma not_prime_product: "1 < a \<Longrightarrow> 1 < b \<Longrightarrow> \<not> prime (a * b)"
  unfolding prime_def by (metis dvd_triv_left mult.right_neutral nat_mult_eq_cancel1 less_irrefl less_trans zero_less_one)

text \<open>A number with no prime factor up to its square root is prime.\<close>

lemma prime_by_factors:
  assumes "1 < n" "\<And>p. prime p \<Longrightarrow> p * p \<le> n \<Longrightarrow> \<not> p dvd n"
  shows "prime n"
proof (rule ccontr)
  assume "\<not> prime n"
  with assms(1) obtain d e where n: "n = d * e" "d \<noteq> 1" "d \<noteq> n" by (auto simp: prime_def elim!: dvdE)
  with assms(1) have de: "1 < d" "1 < e" by (auto intro!: Suc_lessI gr0I)
  define f where "f = min d e"
  have f: "1 < f" "f dvd n" "f * f \<le> n" using de n(1) by (auto simp: f_def min_def)
  obtain p where p: "prime p" "p dvd f" using prime_divisor [OF f(1)] by blast
  then have "p \<le> f" using f(1) by (auto intro: dvd_imp_le)
  then have "p * p \<le> n" using f(3) by (meson le_trans mult_le_mono)
  with assms(2) p f(2) show False by (meson dvd_trans)
qed

lemma prime_by_trial: "1 < n \<Longrightarrow> n < m * m \<Longrightarrow> \<forall>d \<in> {2..<m}. \<not> d dvd n \<Longrightarrow> prime n"
proof (rule prime_by_factors)
  fix p assume *: "n < m * m" "\<forall>d \<in> {2..<m}. \<not> d dvd n" "prime p" "p * p \<le> n"
  then have "p * p < m * m" by linarith
  then have "p < m" using mult_le_mono [of m p m p] by (auto simp: not_less [symmetric])
  with * prime_gt_1 [of p] show "\<not> p dvd n" by auto
qed

section \<open>Pocklington's criterion\<close>

lemma prime_dvd_mult: "prime p \<Longrightarrow> p dvd a * b \<Longrightarrow> p dvd a \<or> p dvd (b :: nat)"
proof -
  assume p: "prime p" "p dvd a * b"
  have "gcd p a = 1 \<or> gcd p a = p" using p(1) by (auto simp: prime_def)
  with p(2) show ?thesis by (metis coprime_dvd_mult_right_iff coprime_iff_gcd_eq_1 gcd_dvd2)
qed

lemma prime_dvd_power: "prime p \<Longrightarrow> p dvd a ^ k \<Longrightarrow> p dvd (a :: nat)"
proof (induction k)
  case (Suc k)
  then show ?case using prime_dvd_mult [of p a "a ^ k"] by auto
qed (auto simp: prime_def)

lemma power_mod_one: "(a :: nat) ^ k mod p = 1 mod p \<Longrightarrow> a ^ (k * j) mod p = 1 mod p"
  by (metis power_mod power_mult power_one)

lemma cancel_power:
  assumes "prime p" "\<not> p dvd a" "i \<le> j" "a ^ i mod p = a ^ j mod p"
  shows "a ^ (j - i) mod p = (1 :: nat) mod p"
proof -
  have "int p dvd int (a ^ j) - int (a ^ i)" using assms(4) by (metis mod_eq_dvd_iff zmod_int)
  moreover have "int (a ^ j) - int (a ^ i) = int (a ^ i) * (int (a ^ (j - i)) - 1)"
    using assms(3) by (simp add: right_diff_distrib power_add [symmetric])
  ultimately have d: "int p dvd int (a ^ i) * (int (a ^ (j - i)) - 1)" by simp
  have "coprime p (a ^ i)"
  proof -
    have "gcd p (a ^ i) = 1 \<or> gcd p (a ^ i) = p" using assms(1) by (auto simp: prime_def)
    with prime_dvd_power [OF assms(1)] assms(2) show ?thesis by (metis coprime_iff_gcd_eq_1 gcd_dvd2)
  qed
  then have "coprime (int p) (int (a ^ i))" by (simp only: coprime_int_iff)
  with d have "int p dvd int (a ^ (j - i)) - 1" by (simp only: coprime_dvd_mult_right_iff)
  then show ?thesis by (metis mod_eq_dvd_iff of_nat_1 of_nat_eq_iff zmod_int)
qed

lemma order:
  assumes p: "prime p" "\<not> p dvd a" and k: "0 < k" "a ^ k mod p = 1 mod p"
  obtains d where "a ^ d mod p = 1 mod p" "d < p" "0 < d" "\<forall>e. a ^ e mod p = 1 mod p \<longrightarrow> d dvd e"
proof -
  define d where "d = (LEAST d. 0 < d \<and> a ^ d mod p = 1 mod p)"
  have d: "0 < d" "a ^ d mod p = 1 mod p" unfolding d_def using LeastI [of "\<lambda>d. 0 < d \<and> a ^ d mod p = 1 mod p" k] k by auto
  have least: "d \<le> e" if "0 < e" "a ^ e mod p = 1 mod p" for e
    unfolding d_def by (rule Least_le) (use that in simp)
  have "d dvd e" if e: "a ^ e mod p = 1 mod p" for e
  proof (rule ccontr)
    assume "\<not> d dvd e"
    then have "0 < e mod d" by (simp add: mod_greater_zero_iff_not_dvd)
    have "a ^ (d * (e div d)) mod p = 1 mod p" by (rule power_mod_one [OF d(2)])
    with e have "a ^ (e - d * (e div d)) mod p = 1 mod p" by (intro cancel_power [OF p]) simp_all
    then have "a ^ (e mod d) mod p = 1 mod p" by (simp add: minus_mult_div_eq_mod)
    with least [OF \<open>0 < e mod d\<close>] d(1) show False by (meson mod_less_divisor not_less)
  qed
  moreover have "d < p"
  proof -
    have "inj_on (\<lambda>e. a ^ e mod p) {..<d}"
    proof (rule linorder_inj_onI)
      fix i j assume "i < j" "j \<in> {..<d}"
      then have "\<not> a ^ (j - i) mod p = 1 mod p" using least [of "j - i"] by auto
      then show "a ^ i mod p \<noteq> a ^ j mod p" using cancel_power [OF p, of i j] \<open>i < j\<close> by auto
    qed auto
    moreover have "(\<lambda>e. a ^ e mod p) ` {..<d} \<subseteq> {1..<p}"
    proof
      fix x assume "x \<in> (\<lambda>e. a ^ e mod p) ` {..<d}"
      then obtain e where "x = a ^ e mod p" by blast
      moreover have "a ^ e mod p \<noteq> 0" using prime_dvd_power [OF p(1), of a e] p(2) by (auto simp: mod_eq_0_iff_dvd)
      ultimately show "x \<in> {1..<p}" using prime_gt_1 [OF p(1)] by (simp add: Suc_le_eq)
    qed
    ultimately have "card {..<d} \<le> card {1..<p}" by (rule card_inj_on_le) simp
    with prime_gt_1 [OF p(1)] show ?thesis by simp
  qed
  ultimately show ?thesis using that d by blast
qed

text \<open>A witness \<open>a\<close> whose order modulo every prime factor of \<open>n\<close> is a multiple of the prime \<open>r\<close>.\<close>

definition certifies :: "nat \<Rightarrow> nat \<Rightarrow> nat \<Rightarrow> bool" where
  "certifies n r a = (r dvd n - 1 \<and> a ^ (n - 1) mod n = 1 \<and> coprime (a ^ ((n - 1) div r) mod n - 1) n \<and>
     0 < a ^ ((n - 1) div r) mod n)"

lemma certified_order:
  assumes c: "certifies n r a" "prime r" "1 < n" and p: "prime p" "p dvd n"
    and d: "a ^ d mod p = 1 mod p" "\<forall>e. a ^ e mod p = 1 mod p \<longrightarrow> d dvd e"
  shows "r dvd d"
proof (rule ccontr)
  assume "\<not> r dvd d"
  then have "coprime r d" using c(2) by (metis coprime_iff_gcd_eq_1 gcd_dvd1 gcd_dvd2 prime_def)
  have down: "x mod n mod p = x mod p" for x using p(2) by (simp add: mod_mod_cancel)
  have "a ^ (n - 1) mod p = 1 mod p" using c(1) down by (metis certifies_def)
  then have "d dvd n - 1" using d(2) by blast
  moreover have "n - 1 = r * ((n - 1) div r)" using c(1) by (simp add: certifies_def)
  ultimately have "d dvd (n - 1) div r"
    using \<open>coprime r d\<close> by (metis coprime_commute coprime_dvd_mult_right_iff)
  then have "a ^ ((n - 1) div r) mod p = 1 mod p" using power_mod_one [OF d(1)] by (metis dvdE)
  then have "a ^ ((n - 1) div r) mod n mod p = 1 mod p" by (simp only: down)
  then have "p dvd a ^ ((n - 1) div r) mod n - 1"
    using c(1) mod_eq_dvd_iff_nat [of 1 "a ^ ((n - 1) div r) mod n" p] by (simp add: certifies_def)
  with p have "p dvd 1" using c(1) by (metis certifies_def coprime_def)
  with prime_gt_1 [OF p(1)] show False by simp
qed

lemma certified_divisors:
  assumes c: "certifies n r a" "1 < n" and p: "prime p" "p dvd n"
  obtains d where "0 < d" "d < p" "\<And>r'. certifies n r' a \<Longrightarrow> prime r' \<Longrightarrow> r' dvd d"
proof -
  have n1: "a ^ (n - 1) mod n = 1" using c(1) by (simp add: certifies_def)
  then have one: "a ^ (n - 1) mod p = 1 mod p" using p(2) by (metis mod_mod_cancel)
  have "\<not> p dvd a"
  proof
    assume "p dvd a"
    moreover have "a dvd a ^ (n - 1)" using c(2) by (intro dvd_power) simp
    ultimately have "p dvd a ^ (n - 1)" by (rule dvd_trans)
    then have "a ^ (n - 1) mod p = 0" by (rule dvd_imp_mod_0)
    with one prime_gt_1 [OF p(1)] show False by simp
  qed
  moreover have "0 < n - 1" using c(2) by simp
  ultimately obtain d where d: "a ^ d mod p = 1 mod p" "d < p" "0 < d" "\<forall>e. a ^ e mod p = 1 mod p \<longrightarrow> d dvd e"
    using order [OF p(1) _ _ one] by metis
  with certified_order [OF _ _ c(2) p d(1,4)] that show ?thesis by blast
qed

lemma pocklington:
  assumes "certifies n r a" "prime r" "1 < n" "n < r * r"
  shows "prime n"
proof (rule prime_by_factors [OF assms(3)])
  fix p assume p: "prime p" "p * p \<le> n"
  show "\<not> p dvd n"
  proof
    assume "p dvd n"
    with assms p(1) obtain d where "0 < d" "d < p" "r dvd d" by (meson certified_divisors)
    then have "r < p" by (meson dvd_imp_le le_less_trans)
    with assms(4) p(2) show False by (meson leD le_trans less_imp_le mult_le_mono)
  qed
qed

lemma pocklington2:
  assumes "certifies n r a" "certifies n s a" "prime r" "prime s" "r \<noteq> s" "1 < n" "n < (r * s) * (r * s)"
  shows "prime n"
proof (rule prime_by_factors [OF assms(6)])
  fix p assume p: "prime p" "p * p \<le> n"
  show "\<not> p dvd n"
  proof
    assume "p dvd n"
    with assms p(1) obtain d where d: "0 < d" "d < p" "r dvd d" "s dvd d" by (meson certified_divisors)
    have "coprime r s" using assms(3-5) by (metis coprime_iff_gcd_eq_1 gcd_dvd1 gcd_dvd2 prime_def)
    with d have "r * s < p" by (meson divides_mult dvd_imp_le le_less_trans)
    with assms(7) p(2) show False by (meson leD le_trans less_imp_le mult_le_mono)
  qed
qed

section \<open>Powers modulo a number\<close>

function powmod :: "int \<Rightarrow> int \<Rightarrow> int \<Rightarrow> int" where
  "powmod n a e = (if e \<le> 0 then 1 mod n
     else let h = powmod n (a * a mod n) (e div 2) in if e mod 2 = 0 then h else a * h mod n)"
  by auto

termination by (relation "measure (\<lambda>(n, a, e). nat e)") auto

declare powmod.simps [simp del]

lemma powmod: "0 \<le> e \<Longrightarrow> powmod n a e = a ^ nat e mod n"
proof (induction n a e rule: powmod.induct)
  case (1 n a e)
  show ?case
  proof (cases "e = 0")
    case False
    with 1 have h: "powmod n (a * a mod n) (e div 2) = (a * a) ^ nat (e div 2) mod n" by (simp add: power_mod)
    have e: "a ^ nat e = (if e mod 2 = 0 then 1 else a) * (a * a) ^ nat (e div 2)"
    proof -
      have "nat (e mod 2) = nat e mod 2" "nat (e div 2) = nat e div 2"
        using 1(2) by (simp_all add: nat_mod_distrib nat_div_distrib)
      then have "nat e = nat (e mod 2) + 2 * nat (e div 2)" by simp
      then have "a ^ nat e = a ^ nat (e mod 2) * (a * a) ^ nat (e div 2)"
        by (simp only: power_add power_mult power2_eq_square)
      moreover have "e mod 2 = 0 \<or> e mod 2 = 1" by presburger
      ultimately show ?thesis by auto
    qed
    with False 1(2) h show ?thesis by (simp add: powmod.simps [of n a e] Let_def mod_mult_right_eq)
  qed (simp add: powmod.simps)
qed

lemma certifies_code:
  assumes "(N - 1) mod R = 0" "powmod N A (N - 1) = 1" "gcd (powmod N A ((N - 1) div R) - 1) N = 1"
    and "1 < N" "0 < R" "0 \<le> A" "0 < powmod N A ((N - 1) div R)"
  shows "certifies (nat N) (nat R) (nat A)"
proof -
  define n r a where "n = nat N" "r = nat R" "a = nat A"
  with assms(4-6) have nra: "N = int n" "R = int r" "A = int a" by simp_all
  with assms(4,5) have n: "1 < n" "0 < r" by simp_all
  have d: "(int n - 1) div int r = int ((n - 1) div r)" using n by (simp add: zdiv_int of_nat_diff)
  have m: "int n - 1 = int (n - 1)" using n by simp
  have p1: "powmod N A (N - 1) = int (a ^ (n - 1) mod n)"
    unfolding nra m by (simp add: powmod zmod_int)
  have p2: "powmod N A ((N - 1) div R) = int (a ^ ((n - 1) div r) mod n)"
    unfolding nra d by (simp add: powmod zmod_int)
  have "0 < a ^ ((n - 1) div r) mod n" using assms(7) unfolding p2 by simp
  then have "int (a ^ ((n - 1) div r) mod n - 1) = powmod N A ((N - 1) div R) - 1" unfolding p2 by (simp add: of_nat_diff)
  with assms(3) have "gcd (int (a ^ ((n - 1) div r) mod n - 1)) (int n) = 1" by (simp only: nra(1) [symmetric])
  then have "gcd (a ^ ((n - 1) div r) mod n - 1) n = 1" by (simp only: gcd_int_int_eq of_nat_eq_1_iff)
  moreover have "r dvd n - 1" using assms(1) unfolding nra m by (simp add: zmod_int [symmetric] mod_eq_0_iff_dvd)
  moreover have "a ^ (n - 1) mod n = 1" using assms(2) unfolding p1 by simp
  ultimately show ?thesis using \<open>0 < a ^ ((n - 1) div r) mod n\<close> unfolding nra
    by (simp add: certifies_def coprime_iff_gcd_eq_1)
qed

section \<open>The largest 64-bit prime\<close>

lemma prime_by_trial_code:
  assumes "1 < N" "N < M * M" "0 \<le> M" "list_all (\<lambda>d. N mod d \<noteq> 0) [2..M - 1]"
  shows "prime (nat N)"
proof (rule prime_by_trial [where m = "nat M"])
  show "1 < nat N" using assms(1) by simp
  show "nat N < nat M * nat M" using assms(1-3) by (simp add: nat_mult_distrib [symmetric])
  show "\<forall>d \<in> {2..<nat M}. \<not> d dvd nat N"
  proof
    fix d assume "d \<in> {2..<nat M}"
    then have "int d \<in> set [2..M - 1]" by auto
    with assms(4) have "\<not> int d dvd N" by (simp add: list_all_iff dvd_eq_mod_eq_0 del: set_upto)
    with assms(1) show "\<not> d dvd nat N" by (simp add: int_dvd_int_iff [symmetric])
  qed
qed

lemma small_prime_codes: "prime (nat 2131)" "prime (nat 15331)"
  by (rule prime_by_trial_code [where M = 50]; code_simp) (rule prime_by_trial_code [where M = 130]; code_simp)



lemma prime_5594472617641: "prime 5594472617641"
proof -
  have "certifies (nat 5594472617641) (nat 15331) (nat 2)" "certifies (nat 5594472617641) (nat 2131) (nat 2)"
    by (rule certifies_code; code_simp)+
  then show ?thesis
    using pocklington2 [of 5594472617641 15331 2 2131] small_prime_codes by simp
qed

lemma prime_below_2_64: "prime 0xFFFFFFFFFFFFFFC5"
proof -
  have "certifies (nat 0xFFFFFFFFFFFFFFC5) (nat 5594472617641) (nat 2)"
    by (rule certifies_code; code_simp)
  then show ?thesis using pocklington [of "0xFFFFFFFFFFFFFFC5" 5594472617641 2] prime_5594472617641 by simp
qed

end
