(* ===== verification/NextPrimeProperties.thy ===== *)
theory NextPrimeProperties
  imports NextPrime Primality
begin

text \<open>
  \<open>__next_prime\<close> returns the least prime: the binary search finds the least table entry, every trial division keeps
  the set of excluded prime factors (\<open>unsplit\<close>), numbers between two candidates share a factor with 210, and the
  search ends because the overflow limit is itself prime.
\<close>

section \<open>Binary search\<close>

definition is_lower_bound :: "u32 list \<Rightarrow> u64 \<Rightarrow> nat \<Rightarrow> bool" where
  "is_lower_bound xs v r = (r \<le> length xs \<and> (\<forall>k<r. unat (xs ! k) < unat v) \<and>
     (\<forall>k<length xs. r \<le> k \<longrightarrow> unat v \<le> unat (xs ! k)))"

lemma less_ucast: "(ucast (x :: u32) < (v :: u64)) = (unat x < unat v)"
  by (simp add: word_less_nat_alt unat_ucast_up)

lemma lower_bound_loop:
  assumes "sorted (map unat xs)" "first + len \<le> length xs" "\<forall>k<first. unat (xs ! k) < unat v"
    "\<forall>k<length xs. first + len \<le> k \<longrightarrow> unat v \<le> unat (xs ! k)"
  shows "is_lower_bound xs v (lower_bound_loop xs v first len)"
  using assms
proof (induction xs v first len rule: lower_bound_loop.induct)
  case (1 xs v first len)
  show ?case
  proof (cases "len = 0")
    case True
    with 1(4-6) show ?thesis by (simp add: lower_bound_loop.simps [of xs v first 0] is_lower_bound_def)
  next
    case False
    define m where "m = first + len div 2"
    have m: "first \<le> m" "m < first + len" "m < length xs" using False 1(4) by (auto simp: m_def)
    have mono: "i \<le> j \<Longrightarrow> j < length xs \<Longrightarrow> unat (xs ! i) \<le> unat (xs ! j)" for i j
      using sorted_nth_mono [OF 1(3), of i j] by simp
    show ?thesis
    proof (cases "unat (xs ! m) < unat v")
      case True
      have "is_lower_bound xs v (lower_bound_loop xs v (Suc m) (len - (len div 2 + 1)))"
      proof (rule 1(1) [OF False refl m_def])
        show "ucast (xs ! m) < v" using True by (simp add: less_ucast)
        show "\<forall>k<Suc m. unat (xs ! k) < unat v"
        proof (intro allI impI)
          fix k assume "k < Suc m"
          then have "unat (xs ! k) \<le> unat (xs ! m)" using m(3) by (intro mono) auto
          with True show "unat (xs ! k) < unat v" by linarith
        qed
      qed (use 1(3-6) m False in \<open>auto simp: m_def\<close>)
      with True False show ?thesis by (simp add: lower_bound_loop.simps [of xs v first len] Let_def less_ucast m_def)
    next
      case False': False
      have "is_lower_bound xs v (lower_bound_loop xs v first (len div 2))"
      proof (rule 1(2) [OF False refl m_def])
        show "\<not> ucast (xs ! m) < v" using False' by (simp add: less_ucast)
        show "\<forall>k<length xs. first + len div 2 \<le> k \<longrightarrow> unat v \<le> unat (xs ! k)"
        proof (intro allI impI)
          fix k assume "k < length xs" "first + len div 2 \<le> k"
          then have "unat (xs ! m) \<le> unat (xs ! k)" by (intro mono) (simp_all add: m_def)
          with False' show "unat v \<le> unat (xs ! k)" by linarith
        qed
      qed (use 1(3-5) m False in \<open>auto simp: m_def\<close>)
      with False' False show ?thesis by (simp add: lower_bound_loop.simps [of xs v first len] Let_def less_ucast m_def)
    qed
  qed
qed

lemma lower_bound: "sorted (map unat xs) \<Longrightarrow> is_lower_bound xs v (lower_bound xs v)"
  unfolding lower_bound_def by (rule lower_bound_loop) simp_all

section \<open>Trial division\<close>

definition unsplit :: "nat \<Rightarrow> nat \<Rightarrow> bool" where
  "unsplit n b = (\<forall>p. prime p \<longrightarrow> p < b \<longrightarrow> \<not> p dvd n)"

definition prime_gap :: "nat \<Rightarrow> nat \<Rightarrow> bool" where
  "prime_gap a b = (\<forall>m. a < m \<longrightarrow> m < b \<longrightarrow> \<not> prime m)"

lemma unsplit_prime: "unsplit n b \<Longrightarrow> 1 < n \<Longrightarrow> n div b < b \<Longrightarrow> prime n"
proof (rule prime_by_factors)
  fix p assume *: "unsplit n b" "n div b < b" "prime p" "p * p \<le> n"
  have "p < b"
  proof (rule ccontr)
    assume "\<not> p < b"
    then have "b * b \<le> n" using *(4) by (meson le_trans mult_le_mono not_less)
    then have "b \<le> n div b" using *(2) by (metis div_le_mono div_mult_self_is_m gr_zeroI not_less_zero)
    with *(2) show False by simp
  qed
  with * show "\<not> p dvd n" by (simp add: unsplit_def)
qed

lemma split_not_prime: "n = (n div b) * b \<Longrightarrow> 1 < b \<Longrightarrow> b \<le> n div b \<Longrightarrow> \<not> prime n"
  using not_prime_product [of "n div b" b] by simp

lemma unsplit_step: "unsplit n b \<Longrightarrow> n \<noteq> (n div b) * b \<Longrightarrow> prime_gap b b' \<Longrightarrow> unsplit n b'"
  unfolding unsplit_def prime_gap_def by (metis dvd_div_mult_self linorder_neqE_nat)

lemma word_division: "n = (n div b) * b \<longleftrightarrow> unat n = (unat n div unat b) * unat b" "n div b < b \<longleftrightarrow> unat n div unat b < unat b"
  for n b :: u64
proof -
  have "(unat n div unat b) * unat b \<le> unat n" by (rule div_times_less_eq_dividend)
  also have "\<dots> < 2 ^ 64" using unsigned_less [of n, where ?'a = nat] by simp
  finally have "unat ((n div b) * b) = (unat n div unat b) * unat b"
    using unat_mult_lem [of "n div b" b] by (simp add: unat_div_distrib)
  then show "n = (n div b) * b \<longleftrightarrow> unat n = (unat n div unat b) * unat b" by (metis word_unat_eq_iff)
qed (simp add: word_less_nat_alt unat_div_distrib)

fun gaps :: "nat \<Rightarrow> nat list \<Rightarrow> nat \<Rightarrow> bool" where
  "gaps b [] e = prime_gap b e"
| "gaps b (x # xs) e = (prime_gap b x \<and> gaps x xs e)"

lemma test_small:
  assumes "unsplit (unat n) (unat x)" "1 < unat n" "\<forall>y \<in> set (x # xs). 1 < unat y" "gaps (unat x) (map unat xs) e"
  shows "case test_small n (x # xs) of Some r \<Rightarrow> r = prime (unat n) | None \<Rightarrow> unsplit (unat n) e"
  using assms
proof (induction xs arbitrary: x)
  case Nil
  then show ?case
    using unsplit_prime [of "unat n" "unat x"] split_not_prime [of "unat n" "unat x"] unsplit_step [of "unat n" "unat x" e]
    by (simp add: Let_def word_division unat_ucast_up)
next
  case (Cons y ys)
  have "unsplit (unat n) (unat y)" if "unat n \<noteq> (unat n div unat x) * unat x"
    using Cons.prems that by (auto intro: unsplit_step)
  then show ?case
    using Cons unsplit_prime [of "unat n" "unat x"] split_not_prime [of "unat n" "unat x"]
    by (simp add: Let_def word_division unat_ucast_up del: test_small.simps(2))
      (simp add: Let_def word_division unat_ucast_up)
qed

section \<open>The wheel\<close>

text \<open>Numbers without the factors 2, 3, 5 and 7.\<close>

definition rough :: "nat \<Rightarrow> bool" where
  "rough n = (\<not> 2 dvd n \<and> \<not> 3 dvd n \<and> \<not> 5 dvd n \<and> \<not> 7 dvd n)"

lemma rough_mod: "rough (210 * k + r) = rough r"
proof -
  have "d dvd 210 \<Longrightarrow> (d dvd 210 * k + r) = (d dvd r)" for d :: nat by (simp add: dvd_add_right_iff)
  then show ?thesis by (simp add: rough_def)
qed

lemma prime_rough: "prime p \<Longrightarrow> 7 < p \<Longrightarrow> rough p"
proof -
  assume p: "prime p" "7 < p"
  have "\<not> d dvd p" if "1 < d" "d \<le> 7" for d using p that by (auto simp: prime_def)
  then show ?thesis by (simp add: rough_def)
qed

definition rough_gap :: "nat \<Rightarrow> nat \<Rightarrow> bool" where
  "rough_gap r d = (\<forall>j. 0 < j \<longrightarrow> j < d \<longrightarrow> \<not> rough (r + j))"

fun wheel_ok :: "nat \<Rightarrow> nat list \<Rightarrow> bool" where
  "wheel_ok r [] = (r = 209 \<and> rough_gap r 2)"
| "wheel_ok r (d # ds) = (0 < d \<and> r + d \<le> 209 \<and> rough_gap r d \<and> wheel_ok (r + d) ds)"

lemma rough_gap_code: "list_all (\<lambda>j. \<not> rough (r + j)) [1..<d] \<Longrightarrow> rough_gap r d"
  by (simp add: rough_gap_def list_all_iff)

lemma rough_code: "rough n = (n mod 2 \<noteq> 0 \<and> n mod 3 \<noteq> 0 \<and> n mod 5 \<noteq> 0 \<and> n mod 7 \<noteq> 0)"
  by (simp add: rough_def dvd_eq_mod_eq_0)

lemma wheel_ok_steps: "wheel_ok 1 (map unat steps)"
  by (simp add: steps_def rough_gap_code upt_rec rough_code)

lemma rough_prime_gap: "rough_gap r d \<Longrightarrow> 7 < 210 * k + r \<Longrightarrow> prime_gap (210 * k + r) (210 * k + r + d)"
  unfolding prime_gap_def
proof (intro allI impI notI)
  fix m assume *: "rough_gap r d" "7 < 210 * k + r" "210 * k + r < m" "m < 210 * k + r + d" "prime m"
  then obtain j where "m = 210 * k + (r + j)" "0 < j" "j < d" by (metis add.assoc less_imp_add_positive nat_add_left_cancel_less)
  with * prime_rough [of m] show False by (simp add: rough_gap_def rough_mod)
qed

lemma no_wrap: "unat (i :: u64) + unat d < 2 ^ 64 \<Longrightarrow> unat (i + d) = unat i + unat d"
  by (simp add: unat_add_lem [THEN iffD1])

lemma quotient_bound:
  assumes "unat i \<le> unat (n :: u64) div unat i" "0 < unat (i :: u64)"
  shows "unat i < 2 ^ 32" "unat i \<le> unat n"
proof -
  have "unat i * unat i \<le> unat n" using assms(1) by (metis div_times_less_eq_dividend le_trans mult_le_mono1)
  also have "\<dots> < 2 ^ 32 * 2 ^ 32" using unsigned_less [of n, where ?'a = nat] by simp
  finally show "unat i < 2 ^ 32" by (meson mult_le_mono not_le)
  show "unat i \<le> unat n" using assms by (metis div_le_dividend le_trans)
qed

lemma test_wheel:
  assumes "unsplit (unat n) (unat i)" "1 < unat n" "unat i = 210 * k + r" "wheel_ok r (map unat ds)" "0 < k"
  shows "test_wheel n i ds = Some (prime (unat n))"
  using assms
proof (induction "unat n - unat i" arbitrary: i k r ds rule: less_induct)
  case less
  let ?n = "unat n" and ?i = "unat i"
  have i: "7 < ?i" using less.prems(3,5) by simp
  show ?case
  proof (cases "?n div ?i < ?i")
    case True
    with less.prems unsplit_prime [of ?n ?i] show ?thesis
      by (simp add: test_wheel.simps [of n i] Let_def word_division)
  next
    case False
    show ?thesis
    proof (cases "?n = (?n div ?i) * ?i")
      case True
      with False i split_not_prime [of ?n ?i] show ?thesis
        by (simp add: test_wheel.simps [of n i] Let_def word_division)
    next
      case undivided: False
      have b: "?i < 2 ^ 32" "?i \<le> ?n" using quotient_bound [of i n] False i by simp_all
      have "?i \<noteq> ?n" using undivided i by auto
      have next_unsplit: "unsplit ?n (?i + d)" if "rough_gap r d" for d
        using unsplit_step [OF less.prems(1) undivided] rough_prime_gap [OF that, of k] less.prems(3) i by simp
      have step: "test_wheel n i ds = test_wheel n (i + d) ds'"
        if "ds = d # ds' \<or> ds = [] \<and> d = 2 \<and> ds' = steps" for d ds'
        using that False undivided by (auto simp: test_wheel.simps [of n i] Let_def word_division)
      show ?thesis
      proof (cases ds)
        case Nil
        with less.prems(4) have r: "r = 209" "rough_gap r 2" by auto
        have u: "unat (i + 2) = ?i + 2" using no_wrap [of i 2] b by simp
        have "test_wheel n (i + 2) steps = Some (prime ?n)"
        proof (rule less.hyps)
          show "?n - unat (i + 2) < ?n - ?i" using u b \<open>?i \<noteq> ?n\<close> by simp
          show "unat (i + 2) = 210 * Suc k + 1" using u less.prems(3) r by simp
          show "wheel_ok 1 (map unat steps)" by (rule wheel_ok_steps)
        qed (use u next_unsplit [OF r(2)] less.prems in simp_all)
        with step [of 2 steps] Nil show ?thesis by simp
      next
        case (Cons d ds')
        with less.prems(4) have r: "0 < unat d" "r + unat d \<le> 209" "rough_gap r (unat d)" "wheel_ok (r + unat d) (map unat ds')" by simp_all
        have u: "unat (i + d) = ?i + unat d" using no_wrap [of i d] b r(2) by simp
        have "test_wheel n (i + d) ds' = Some (prime ?n)"
        proof (rule less.hyps)
          show "?n - unat (i + d) < ?n - ?i" using u b \<open>?i \<noteq> ?n\<close> r(1) by simp
          show "unat (i + d) = 210 * k + (r + unat d)" using u less.prems(3) by simp
        qed (use u next_unsplit [OF r(3)] less.prems r in simp_all)
        with step [of d ds'] Cons show ?thesis by simp
      qed
    qed
  qed
qed

section \<open>The tables\<close>

definition table :: "nat list" where
  "table = map unat indices"

lemma table_facts: "length table = 48" "table ! 0 = 1" "table ! 47 = 209" "sorted_wrt (<) table" "list_all rough table"
  by (simp_all add: table_def indices_def rough_code)

fun sums :: "nat \<Rightarrow> nat list \<Rightarrow> nat list" where
  "sums r [] = [r]"
| "sums r (d # ds) = r # sums (r + d) ds"

lemma table_sums: "table = sums 1 (map unat steps)"
  by (simp add: table_def indices_def steps_def)

lemma sums_complete: "wheel_ok r ds \<Longrightarrow> r \<le> s \<Longrightarrow> s < 210 \<Longrightarrow> rough s \<Longrightarrow> s \<in> set (sums r ds)"
proof (induction r ds rule: sums.induct)
  case (2 r d ds)
  show ?case
  proof (cases "s < r + d")
    case True
    with 2(2,3,5) have "s = r" unfolding wheel_ok.simps rough_gap_def
      by (metis add_diff_inverse_nat add_less_cancel_left le_neq_implies_less less_imp_diff_less not_less zero_less_diff)
    then show ?thesis by simp
  next
    case False
    with 2 show ?thesis by simp
  qed
qed simp

lemma table_complete: "s < 210 \<Longrightarrow> rough s \<Longrightarrow> s \<in> set table"
  using sums_complete [OF wheel_ok_steps, of s] unfolding table_sums
  by (cases "s = 0") (simp_all add: rough_code)

definition small_composite :: "nat \<Rightarrow> bool" where
  "small_composite m = list_ex (\<lambda>d. m mod d = 0 \<and> d < m) [2, 3, 5, 7, 11, 13]"

lemma small_composite: "small_composite m \<Longrightarrow> \<not> prime m"
  by (auto simp: small_composite_def prime_def dvd_eq_mod_eq_0)

lemma prime_gap_code: "list_all small_composite [Suc a..<b] \<Longrightarrow> prime_gap a b"
  using small_composite by (fastforce simp: prime_gap_def list_all_iff)

lemma small_gaps: "gaps 11 (map unat (drop 6 (butlast small_primes))) 211"
  by (simp add: small_primes_def prime_gap_code upt_rec small_composite_def)

lemma small_list: "drop 5 (butlast small_primes) = 11 # drop 6 (butlast small_primes)"
  by (simp add: small_primes_def)

lemma small_complete: "prime p \<Longrightarrow> p < 11 \<Longrightarrow> p \<in> {2, 3, 5, 7}"
proof -
  assume p: "prime p" "p < 11"
  have "\<not> prime m" if "m \<in> {4, 6, 8, 9, 10}" for m
    by (rule small_composite) (use that in \<open>auto simp: small_composite_def\<close>)
  moreover have "p \<in> {2, 3, 4, 5, 6, 7, 8, 9, 10}" using prime_gt_1 [OF p(1)] p(2) by auto
  ultimately show ?thesis using p(1) by blast
qed

lemma test_candidate:
  assumes "rough (unat n)" "1 < unat n"
  shows "test_candidate n = Some (prime (unat n))"
proof -
  have u: "unsplit (unat n) 11"
    using small_complete assms(1) by (fastforce simp: unsplit_def rough_def)
  have "case test_small n (drop 5 (butlast small_primes)) of
      Some r \<Rightarrow> r = prime (unat n) | None \<Rightarrow> unsplit (unat n) 211"
    unfolding small_list
  proof (rule test_small)
    show "\<forall>y\<in>set (11 # drop 6 (butlast small_primes)). 1 < unat y" by (simp add: small_primes_def)
    show "gaps (unat (11 :: u32)) (map unat (drop 6 (butlast small_primes))) 211" using small_gaps by simp
  qed (use u assms(2) in simp_all)
  moreover have "unsplit (unat n) 211 \<Longrightarrow> test_wheel n 211 steps = Some (prime (unat n))"
    by (rule test_wheel [where k = 1 and r = 1]) (use assms(2) wheel_ok_steps in simp_all)
  ultimately show ?thesis by (auto simp: test_candidate_def split: option.splits)
qed

section \<open>The search\<close>

abbreviation last_prime :: nat where "last_prime \<equiv> 0xFFFFFFFFFFFFFFC5"

lemma no_rough_before:
  assumes "Suc idx < 48" "table ! idx < s" "s < table ! Suc idx"
  shows "\<not> rough s"
proof
  assume "rough s"
  have mono: "i < j \<Longrightarrow> j < 48 \<Longrightarrow> table ! i < table ! j" for i j
    using table_facts(1,4) by (simp add: sorted_wrt_iff_nth_less)
  have "table ! Suc idx \<le> 209" using mono [of "Suc idx" 47] table_facts(3) assms(1) by (cases "Suc idx = 47") auto
  with assms(3) table_complete [of s] \<open>rough s\<close> obtain k where k: "k < 48" "s = table ! k"
    by (auto simp: in_set_conv_nth table_facts(1))
  then have "\<not> k \<le> idx" using mono [of k idx] assms by (cases "k = idx") auto
  moreover have "\<not> Suc idx \<le> k" using mono [of "Suc idx" k] assms(3) k by (cases "k = Suc idx") auto
  ultimately show False by simp
qed

lemma table_nth: "idx < 48 \<Longrightarrow> unat (indices ! idx) = table ! idx" "length indices = 48"
  using table_facts(1) by (simp_all add: table_def)

lemma table_le: "idx < 48 \<Longrightarrow> table ! idx \<le> 209"
proof -
  assume "idx < 48"
  then have "table ! idx \<le> table ! 47"
    using table_facts(1,4) sorted_wrt_nth_less [of "(<)" table idx 47] by (cases "idx = 47") auto
  then show ?thesis by (simp add: table_facts(3))
qed

lemma table_rough: "idx < 48 \<Longrightarrow> rough (210 * k + table ! idx)"
  using table_facts(1,5) by (simp add: rough_mod list_all_length)

text \<open>The candidate behind the one at \<open>k\<close>, \<open>idx\<close>, and what lies between.\<close>

definition next_slot :: "nat \<Rightarrow> nat \<Rightarrow> nat \<times> nat" where
  "next_slot k idx = (if Suc idx = 48 then (k + 1, 0) else (k, Suc idx))"

lemma next_slot:
  assumes "idx < 48" "next_slot k idx = (k', idx')"
  shows "idx' < 48" "k \<le> k'" "210 * k + table ! idx < 210 * k' + table ! idx'"
    and "210 * k + table ! idx < m \<Longrightarrow> m < 210 * k' + table ! idx' \<Longrightarrow> \<not> rough m"
proof -
  have "idx' < 48 \<and> k \<le> k' \<and> 210 * k + table ! idx < 210 * k' + table ! idx' \<and>
    (210 * k + table ! idx < m \<longrightarrow> m < 210 * k' + table ! idx' \<longrightarrow> \<not> rough m)"
  proof (cases "Suc idx = 48")
    case True
    then have "idx = 47" by simp
    moreover have "\<not> rough (210 * (k + 1))" by (simp add: rough_def)
    ultimately show ?thesis using assms(2) table_facts(2,3) by (auto simp: next_slot_def dest: Suc_lessI)
  next
    case False
    with assms have k: "k' = k" "idx' = Suc idx" "Suc idx < 48" by (auto simp: next_slot_def)
    moreover have "table ! idx < table ! Suc idx"
      using table_facts(1,4) k(3) sorted_wrt_nth_less [of "(<)" table idx "Suc idx"] by simp
    moreover have "\<not> rough m" if m: "210 * k + table ! idx < m" "m < 210 * k + table ! Suc idx"
    proof -
      obtain s where "m = 210 * k + s" using m(1) by (metis le_add1 le_iff_add less_imp_le le_trans)
      with m no_rough_before [OF k(3), of s] show ?thesis by (simp add: rough_mod)
    qed
    ultimately show ?thesis by simp
  qed
  then show "idx' < 48" "k \<le> k'" "210 * k + table ! idx < 210 * k' + table ! idx'"
    "210 * k + table ! idx < m \<Longrightarrow> m < 210 * k' + table ! idx' \<Longrightarrow> \<not> rough m" by blast+
qed

lemma search_prime:
  assumes "unat n = 210 * unat k0 + table ! idx" "0 < unat k0" "idx < 48" "unat n \<le> last_prime"
  shows "\<exists>p. search_prime n k0 idx = Some p \<and> prime (unat p) \<and> unat n \<le> unat p \<and>
    (\<forall>m. unat n \<le> m \<longrightarrow> m < unat p \<longrightarrow> \<not> prime m)"
  using assms
proof (induction "last_prime - unat n" arbitrary: n k0 idx rule: less_induct)
  case less
  have "rough (unat n)" using table_rough [OF less.prems(3), of "unat k0"] less.prems(1) by simp
  then have test: "test_candidate n = Some (prime (unat n))"
    using less.prems(1,2) by (intro test_candidate) simp_all
  show ?case
  proof (cases "prime (unat n)")
    case True
    with test show ?thesis by (auto simp: search_prime.simps [of n k0 idx])
  next
    case False
    obtain k' idx' where slot: "next_slot (unat k0) idx = (k', idx')" by fastforce
    note behind = next_slot [OF less.prems(3) slot]
    have "unat n \<noteq> last_prime" using False prime_below_2_64 by auto
    with less.prems(4) have "unat n < last_prime" by simp
    have below: "210 * k' + table ! idx' \<le> last_prime"
    proof (rule ccontr)
      assume "\<not> 210 * k' + table ! idx' \<le> last_prime"
      then have "\<not> rough last_prime"
        by (intro behind(4)) (use \<open>unat n < last_prime\<close> less.prems(1) in simp_all)
      moreover have "rough last_prime" using prime_rough [OF prime_below_2_64] by simp
      ultimately show False by blast
    qed
    define j0 where "j0 = (if Suc idx = 48 then k0 + 1 else k0)"
    have j: "unat j0 = k'"
      using slot below no_wrap [of k0 1] by (auto simp: j0_def next_slot_def split: if_splits)
    have i: "(if Suc idx = length indices then 0 else Suc idx) = idx'"
      using slot by (auto simp: next_slot_def table_nth(2) split: if_splits)
    define n' where "n' = 210 * j0 + ucast (indices ! idx')"
    have n': "unat n' = 210 * unat j0 + table ! idx'"
    proof -
      have "unat (ucast (indices ! idx') :: u64) = table ! idx'" using behind(1) by (simp add: unat_ucast_up table_nth)
      moreover have "unat (210 * j0) = 210 * unat j0"
        using unat_mult_lem [of 210 j0] below j by simp
      ultimately show ?thesis unfolding n'_def using no_wrap [of "210 * j0" "ucast (indices ! idx')"] below j by simp
    qed
    have "search_prime n k0 idx = search_prime n' j0 idx'"
      using test False i by (simp add: search_prime.simps [of n k0 idx] Let_def n'_def j0_def table_nth(2))
    moreover have "\<exists>p. search_prime n' j0 idx' = Some p \<and> prime (unat p) \<and> unat n' \<le> unat p \<and>
        (\<forall>m. unat n' \<le> m \<longrightarrow> m < unat p \<longrightarrow> \<not> prime m)"
      by (rule less.hyps) (use n' j behind below less.prems \<open>unat n < last_prime\<close> in auto)
    moreover have "\<not> prime m" if "unat n \<le> m" "m < unat n'" for m
      using that behind(4) [of m] False prime_rough [of m] less.prems(1,2) n' j by (cases "m = unat n") auto
    moreover have "unat n \<le> unat n'" using n' j behind(3) less.prems(1) by simp
    ultimately show ?thesis by (metis le_trans not_less)
  qed
qed

section \<open>The result\<close>

lemma prime_by_small: "1 < n \<Longrightarrow> n < 289 \<Longrightarrow> list_all (\<lambda>d. n mod d \<noteq> 0 \<or> n = d) [2, 3, 5, 7, 11, 13] \<Longrightarrow> prime n"
proof (rule prime_by_factors)
  fix p assume *: "n < 289" "list_all (\<lambda>d. n mod d \<noteq> 0 \<or> n = d) [2, 3, 5, 7, 11, 13]" "prime p" "p * p \<le> n"
  have "p < 17" using mult_le_mono [of 17 p 17 p] *(1,4) by (auto simp: not_less [symmetric])
  have composite: "\<not> prime m" if "m \<in> {12, 14, 15, 16}" for m
    by (rule small_composite) (use that in \<open>auto simp: small_composite_def\<close>)
  have "p \<in> {2, 3, 5, 7, 11, 13}"
  proof (cases "p < 11")
    case False
    with \<open>p < 17\<close> have "p \<in> {11, 13} \<or> p \<in> {12, 14, 15, 16}" by (simp; linarith)
    with composite *(3) show ?thesis by blast
  qed (use small_complete [OF *(3)] in blast)
  moreover have "n \<noteq> p" using *(4) prime_gt_1 [OF *(3)] by auto
  moreover have "\<forall>d \<in> set [2, 3, 5, 7, 11, 13]. n mod d \<noteq> 0 \<or> n = d" using *(2) by (simp only: list_all_iff)
  ultimately have "n mod p \<noteq> 0" by (metis list.set(1,2))
  then show "\<not> p dvd n" by (simp add: dvd_eq_mod_eq_0)
qed

lemma small_primes_prime: "list_all prime (map unat (tl small_primes))"
  by (simp add: small_primes_def prime_by_small)

definition small_table :: "nat list" where
  "small_table = map unat small_primes"

lemma small_table_facts: "length small_table = 48" "small_table ! 0 = 0" "small_table ! 47 = 211" "sorted_wrt (<) small_table"
  by (simp_all add: small_table_def small_primes_def)

lemma small_table_nth: "k < 48 \<Longrightarrow> unat (small_primes ! k) = small_table ! k" "length small_primes = 48"
  using small_table_facts(1) by (simp_all add: small_table_def)

lemma gaps_complete: "gaps b xs e \<Longrightarrow> prime p \<Longrightarrow> b \<le> p \<Longrightarrow> p < e \<Longrightarrow> p \<in> set (b # xs)"
  by (induction b xs e rule: gaps.induct) (fastforce simp: prime_gap_def not_less le_less)+

lemma small_table_complete: "prime p \<Longrightarrow> p \<le> 211 \<Longrightarrow> p \<in> set small_table"
proof -
  assume p: "prime p" "p \<le> 211"
  consider "p < 11" | "11 \<le> p" "p < 211" | "p = 211" using p(2) by linarith
  then have "p \<in> {2, 3, 5, 7} \<union> set (11 # map unat (drop 6 (butlast small_primes))) \<union> {211}"
    using small_complete [OF p(1)] gaps_complete [OF small_gaps p(1)] by cases auto
  then show ?thesis by (auto simp: small_table_def small_primes_def)
qed

lemma small_case:
  assumes "unat n \<le> 211" "0 < unat n"
  shows "\<exists>p. next_prime n = Some (Inr p) \<and> prime (unat p) \<and> unat n \<le> unat p \<and> (\<forall>m. unat n \<le> m \<longrightarrow> m < unat p \<longrightarrow> \<not> prime m)"
proof -
  define k where "k = lower_bound small_primes n"
  have s: "sorted (map unat small_primes)" using small_table_facts(4) by (simp add: small_table_def strict_sorted_imp_sorted)
  have l: "is_lower_bound small_primes n k" unfolding k_def by (rule lower_bound [OF s])
  have "k < 48"
  proof (rule ccontr)
    assume "\<not> k < 48"
    with l have "unat (small_primes ! 47) < unat n" by (simp add: is_lower_bound_def)
    with assms(1) show False by (simp add: small_table_nth small_table_facts)
  qed
  with l have le: "unat n \<le> small_table ! k" by (auto simp: is_lower_bound_def small_table_nth)
  with assms(2) small_table_facts(2) have "k \<noteq> 0" by (auto intro!: gr0I)
  then obtain j where j: "k = Suc j" by (cases k) auto
  have "tl small_table ! j \<in> set (tl small_table)"
    using \<open>k < 48\<close> j by (intro nth_mem) (simp add: small_table_facts(1))
  moreover have "tl small_table ! j = small_table ! k" using \<open>k < 48\<close> j by (simp add: nth_tl small_table_facts(1))
  ultimately have "prime (small_table ! k)"
    using small_primes_prime by (simp add: list_all_iff small_table_def map_tl)
  moreover have "\<not> prime m" if "unat n \<le> m" "m < small_table ! k" for m
  proof
    assume "prime m"
    have "small_table ! k \<le> 211"
      using small_table_facts \<open>k < 48\<close> sorted_wrt_nth_less [of "(<)" small_table k 47] by (cases "k = 47") auto
    with small_table_complete [OF \<open>prime m\<close>] that(2) obtain j where j: "j < 48" "m = small_table ! j"
      by (auto simp: in_set_conv_nth small_table_facts(1))
    have "j < k" using sorted_wrt_nth_less [OF small_table_facts(4), of k j] j that(2) small_table_facts(1)
      by (cases "j = k") (auto simp: not_less [symmetric] intro: ccontr)
    with l have "unat (small_primes ! j) < unat n" by (simp add: is_lower_bound_def)
    with j that(1) show False by (simp add: small_table_nth)
  qed
  moreover have "n \<le> ucast (small_primes ! 47)"
    using assms(1) by (simp add: word_le_nat_alt unat_ucast_up small_table_nth small_table_facts)
  then have "next_prime n = Some (Inr (ucast (small_primes ! k)))"
    by (simp add: next_prime_def k_def small_table_nth(2))
  ultimately show ?thesis using le \<open>k < 48\<close> by (auto simp: unat_ucast_up small_table_nth)
qed

lemma large_case:
  assumes "211 < unat n" "unat n \<le> last_prime"
  shows "\<exists>p. next_prime n = Some (Inr p) \<and> prime (unat p) \<and> unat n \<le> unat p \<and> (\<forall>m. unat n \<le> m \<longrightarrow> m < unat p \<longrightarrow> \<not> prime m)"
proof -
  define r where "r = unat n mod 210"
  define k0 where "k0 = n div 210"
  define idx where "idx = lower_bound indices (n - k0 * 210)"
  have k0: "unat k0 = unat n div 210" "0 < unat k0" using assms(1) by (simp_all add: k0_def unat_div_distrib div_greater_zero_iff)
  have "unat (k0 * 210) = unat k0 * 210"
  proof -
    have "unat n div 210 * 210 \<le> unat n" by (rule div_times_less_eq_dividend)
    also have "\<dots> < 2 ^ LENGTH(64)" by (rule unsigned_less)
    finally have "unat k0 * unat (210 :: u64) < 2 ^ LENGTH(64)" by (simp add: k0(1))
    then have "unat (k0 * 210) = unat k0 * unat (210 :: u64)" by (rule unat_mult_lem [THEN iffD1])
    then show ?thesis by simp
  qed
  then have r: "unat (n - k0 * 210) = r"
    using k0(1) by (simp add: unat_sub word_le_nat_alt r_def minus_div_mult_eq_mod)
  have "sorted (map unat indices)" using table_facts(4) by (simp add: table_def strict_sorted_imp_sorted)
  then have l: "is_lower_bound indices (n - k0 * 210) idx" unfolding idx_def by (rule lower_bound)
  have "idx < 48"
  proof (rule ccontr)
    assume "\<not> idx < 48"
    with l have "unat (indices ! 47) < r" by (simp add: is_lower_bound_def r)
    then have "209 < r" by (simp add: table_nth table_facts)
    then show False by (simp add: r_def)
  qed
  with l have le: "r \<le> table ! idx" by (auto simp: is_lower_bound_def r table_nth)
  have n: "unat n = 210 * unat k0 + r" unfolding k0 r_def by simp
  have skip: "\<not> rough m" if m: "unat n \<le> m" "m < 210 * unat k0 + table ! idx" for m
  proof
    assume "rough m"
    obtain s where s: "m = 210 * unat k0 + s" "r \<le> s" using m(1) n by (metis add.assoc le_add1 le_iff_add nat_add_left_cancel_le)
    with \<open>rough m\<close> have "rough s" by (simp add: rough_mod)
    moreover have "s < 210" using s(1) m(2) table_le [OF \<open>idx < 48\<close>] by simp
    ultimately obtain j where j: "j < 48" "s = table ! j"
      using table_complete [of s] by (auto simp: in_set_conv_nth table_facts(1))
    have "table ! j < table ! idx" using s(1) m(2) j(2) by simp
    then have "j < idx" using sorted_wrt_nth_less [OF table_facts(4), of idx j] j(1) table_facts(1)
      by (cases "j = idx") (auto simp: not_less [symmetric] intro: ccontr)
    with l have "unat (indices ! j) < r" by (simp add: is_lower_bound_def r)
    with j have "s < r" by (simp add: table_nth)
    with s(2) show False by simp
  qed
  have below: "210 * unat k0 + table ! idx \<le> last_prime"
  proof (rule ccontr)
    assume "\<not> ?thesis"
    then have "\<not> rough last_prime" by (intro skip) (use assms(2) in simp_all)
    then show False using prime_rough [OF prime_below_2_64] by simp
  qed
  define c where "c = 210 * k0 + ucast (indices ! idx)"
  have c: "unat c = 210 * unat k0 + table ! idx"
  proof -
    have "unat (ucast (indices ! idx) :: u64) = table ! idx" using \<open>idx < 48\<close> by (simp add: unat_ucast_up table_nth)
    moreover have "unat (210 * k0) = 210 * unat k0" using unat_mult_lem [of 210 k0] below by simp
    ultimately show ?thesis unfolding c_def using no_wrap [of "210 * k0" "ucast (indices ! idx)"] below by simp
  qed
  have "\<exists>p. search_prime c k0 idx = Some p \<and> prime (unat p) \<and> unat c \<le> unat p \<and>
      (\<forall>m. unat c \<le> m \<longrightarrow> m < unat p \<longrightarrow> \<not> prime m)"
    by (rule search_prime) (use c below k0 \<open>idx < 48\<close> in simp_all)
  then obtain p where p: "search_prime c k0 idx = Some p" "prime (unat p)" "unat c \<le> unat p"
    "\<And>m. unat c \<le> m \<Longrightarrow> m < unat p \<Longrightarrow> \<not> prime m" by blast
  have "next_prime n = Some (Inr p)"
    using assms p(1) small_table_facts(3)
    by (simp add: next_prime_def check_for_overflow_def word_le_nat_alt word_less_nat_alt unat_ucast_up small_table_nth
        Let_def k0_def [symmetric] idx_def [symmetric] c_def [symmetric])
  moreover have "\<not> prime m" if "unat n \<le> m" "m < unat p" for m
    using that p(4) [of m] skip [of m] prime_rough [of m] assms(1) c by (cases "m < unat c") auto
  moreover have "unat n \<le> unat p" using p(3) c le n by simp
  ultimately show ?thesis using p(2) by blast
qed

text \<open>C18. \<open>__next_prime\<close> returns for every argument. Above the largest 64-bit prime it throws \<open>overflow_error\<close>, for 0
  it returns 0, and otherwise the least prime that is not below the argument: no prime is skipped, everything
  returned is prime, and the search ends before the candidate wraps around.\<close>

theorem next_prime_least:
  "if 0xFFFFFFFFFFFFFFC5 < n then next_prime n = Some (Inl OverflowError)
   else if n = 0 then next_prime n = Some (Inr 0)
   else \<exists>p. next_prime n = Some (Inr p) \<and> prime (unat p) \<and> n \<le> p \<and>
     {m. prime m \<and> m < unat p} = {m. prime m \<and> m < unat n}"
proof -
  have "lower_bound small_primes 0 = 0"
    using lower_bound [of small_primes 0] small_table_facts(4)
    by (auto simp: is_lower_bound_def small_table_def strict_sorted_imp_sorted)
  then have zero: "next_prime 0 = Some (Inr 0)"
    using small_table_facts(2) small_table_nth(1) [of 0]
    by (simp add: next_prime_def word_le_nat_alt word_unat_eq_iff unat_ucast_up)
  have over: "next_prime n = Some (Inl OverflowError)" if "0xFFFFFFFFFFFFFFC5 < n"
    using that small_table_facts(3)
    by (simp add: next_prime_def check_for_overflow_def word_le_nat_alt word_less_nat_alt unat_ucast_up small_table_nth)
  have "\<exists>p. next_prime n = Some (Inr p) \<and> prime (unat p) \<and> n \<le> p \<and> {m. prime m \<and> m < unat p} = {m. prime m \<and> m < unat n}"
    if "\<not> 0xFFFFFFFFFFFFFFC5 < n" "n \<noteq> 0"
  proof -
    have "\<exists>p. next_prime n = Some (Inr p) \<and> prime (unat p) \<and> unat n \<le> unat p \<and> (\<forall>m. unat n \<le> m \<longrightarrow> m < unat p \<longrightarrow> \<not> prime m)"
      using that small_case [of n] large_case [of n]
      by (cases "unat n \<le> 211") (simp_all add: unat_gt_0 word_less_nat_alt not_less)
    then obtain p where p: "next_prime n = Some (Inr p)" "prime (unat p)" "unat n \<le> unat p"
      "\<And>m. unat n \<le> m \<Longrightarrow> m < unat p \<Longrightarrow> \<not> prime m" by blast
    have "{m. prime m \<and> m < unat p} = {m. prime m \<and> m < unat n}"
    proof (intro set_eqI iffI; clarsimp)
      fix m assume "prime m" "m < unat p" then show "m < unat n" using p(4) [of m] by (cases "unat n \<le> m") auto
    next
      fix m assume "m < unat n" then show "m < unat p" using p(3) by simp
    qed
    with p show ?thesis by (auto simp: word_le_nat_alt)
  qed
  then show ?thesis using zero over by simp
qed

end
