(* ===== verification/TypeInfo.thy ===== *)
theory TypeInfo
  imports EhTable
begin

text \<open>
  Run-time type information (\<open>libcxxabi/src/private_typeinfo.cpp\<close>, \<open>private_typeinfo.h\<close>): the classes of type
  information as constructors, \<open>can_catch\<close> of each, and \<open>__dynamic_cast\<close> with the searches of the base class graph.
  Type information is static data without cycles, so a pointer to it is the tree behind it, and objects are
  recognised by their names as the code does. Objects live in memory; a virtual base is found through the pointer
  to the virtual table at the address of the object. The search state is the record \<open>dynamic_cast_info\<close>, returned
  updated; its counters are unbounded. The models are of the build without \<open>_LIBCXXABI_FORGIVING_DYNAMIC_CAST\<close>, which is
  the default.
\<close>

section \<open>Type information\<close>

text \<open>The name of a type: the pointer that is the member \<open>__type_name\<close>, and the characters it points to.\<close>

datatype type_name = Name (name_pointer: u64) (name_chars: string)

datatype type_info =
    Fundamental type_name
  | Array type_name
  | Function type_name
  | Enum type_name
  | Class type_name
  | SiClass type_name type_info
  | VmiClass type_name u32 "base_class list"
  | Pointer type_name u32 type_info
  | PointerToMember type_name u32 type_info type_info
and base_class = Base type_info u64

fun type_info_name :: "type_info \<Rightarrow> type_name" where
  "type_info_name (Fundamental n) = n"
| "type_info_name (Array n) = n"
| "type_info_name (Function n) = n"
| "type_info_name (Enum n) = n"
| "type_info_name (Class n) = n"
| "type_info_name (SiClass n b) = n"
| "type_info_name (VmiClass n f bs) = n"
| "type_info_name (Pointer n f t) = n"
| "type_info_name (PointerToMember n f t c) = n"

text \<open>\<open>operator==\<close> of \<open>std::type_info\<close> where names are merged, which is the default, and \<open>is_equal\<close>. Equal addresses
  of the operands are subsumed by equal characters.\<close>

definition type_info_eq :: "type_info \<Rightarrow> type_info \<Rightarrow> bool" where
  "type_info_eq x y = (name_pointer (type_info_name x) = name_pointer (type_info_name y))"

definition is_equal :: "type_info \<Rightarrow> type_info \<Rightarrow> bool \<Rightarrow> bool" where
  "is_equal x y use_strcmp =
     (if \<not> use_strcmp then type_info_eq x y else name_chars (type_info_name x) = name_chars (type_info_name y))"

text \<open>The dynamic casts between type informations.\<close>

fun is_class :: "type_info \<Rightarrow> bool" where
  "is_class (Class n) = True"
| "is_class (SiClass n b) = True"
| "is_class (VmiClass n f bs) = True"
| "is_class t = False"

fun is_function :: "type_info \<Rightarrow> bool" where
  "is_function (Function n) = True"
| "is_function t = False"

fun pbase_flags :: "type_info \<Rightarrow> u32 option" where
  "pbase_flags (Pointer n f t) = Some f"
| "pbase_flags (PointerToMember n f t c) = Some f"
| "pbase_flags t = None"

definition virtual_mask :: u64 where "virtual_mask = 1"
definition public_mask :: u64 where "public_mask = 2"
definition offset_shift :: nat where "offset_shift = 8"
definition non_diamond_repeat_mask :: u32 where "non_diamond_repeat_mask = 1"
definition diamond_shaped_mask :: u32 where "diamond_shaped_mask = 2"
definition const_mask :: u32 where "const_mask = 1"
definition volatile_mask :: u32 where "volatile_mask = 2"
definition restrict_mask :: u32 where "restrict_mask = 4"
definition incomplete_mask :: u32 where "incomplete_mask = 8"
definition incomplete_class_mask :: u32 where "incomplete_class_mask = 0x10"
definition transaction_safe_mask :: u32 where "transaction_safe_mask = 0x20"
definition noexcept_mask :: u32 where "noexcept_mask = 0x40"
definition no_remove_flags_mask :: u32 where "no_remove_flags_mask = const_mask OR volatile_mask OR restrict_mask"
definition no_add_flags_mask :: u32 where "no_add_flags_mask = transaction_safe_mask OR noexcept_mask"

lemmas pointer_masks = const_mask_def volatile_mask_def restrict_mask_def incomplete_mask_def incomplete_class_mask_def
  transaction_safe_mask_def noexcept_mask_def no_remove_flags_mask_def no_add_flags_mask_def

section \<open>The state of a search\<close>

datatype search_value = unknown | public_path | not_public_path | yes | no

record dynamic_cast_info =
  dst_type :: type_info
  static_ptr :: u64
  static_type :: type_info
  src2dst_offset :: u64
  dst_ptr_leading_to_static_ptr :: u64
  dst_ptr_not_leading_to_static_ptr :: u64
  path_dst_ptr_to_static_ptr :: search_value
  path_dynamic_ptr_to_static_ptr :: search_value
  path_dynamic_ptr_to_dst_ptr :: search_value
  number_to_static_ptr :: nat
  number_to_dst_ptr :: nat
  is_dst_type_derived_from_static_type :: search_value
  number_of_dst_type :: nat
  found_our_static_ptr :: bool
  found_any_static_type :: bool
  search_done :: bool

definition new_info :: "type_info \<Rightarrow> u64 \<Rightarrow> type_info \<Rightarrow> u64 \<Rightarrow> dynamic_cast_info" where
  "new_info dst ptr static hint = \<lparr>dst_type = dst, static_ptr = ptr, static_type = static, src2dst_offset = hint,
     dst_ptr_leading_to_static_ptr = 0, dst_ptr_not_leading_to_static_ptr = 0,
     path_dst_ptr_to_static_ptr = unknown, path_dynamic_ptr_to_static_ptr = unknown,
     path_dynamic_ptr_to_dst_ptr = unknown, number_to_static_ptr = 0, number_to_dst_ptr = 0,
     is_dst_type_derived_from_static_type = unknown, number_of_dst_type = 0,
     found_our_static_ptr = False, found_any_static_type = False, search_done = False\<rparr>"

section \<open>Base class subobjects\<close>

text \<open>The address of a base of the object at \<open>ptr\<close>, and the path to it.\<close>

definition offset_to_base :: "memory \<Rightarrow> u64 \<Rightarrow> u64 \<Rightarrow> u64" where
  "offset_to_base mem ptr flags =
     (let offset = signed_drop_bit offset_shift flags in
      if flags AND virtual_mask \<noteq> 0 then read_bytes mem 8 (read_bytes mem 8 ptr + offset) else offset)"

definition path_to_base :: "u64 \<Rightarrow> search_value \<Rightarrow> search_value" where
  "path_to_base flags path_below = (if flags AND public_mask \<noteq> 0 then path_below else not_public_path)"

section \<open>The public base of a thrown object\<close>

definition process_found_base_class :: "dynamic_cast_info \<Rightarrow> u64 \<Rightarrow> search_value \<Rightarrow> dynamic_cast_info" where
  "process_found_base_class info adjustedPtr path_below =
     (if dst_ptr_leading_to_static_ptr info = 0
      then info\<lparr>dst_ptr_leading_to_static_ptr := adjustedPtr, path_dst_ptr_to_static_ptr := path_below,
        number_to_static_ptr := 1\<rparr>
      else if dst_ptr_leading_to_static_ptr info = adjustedPtr
      then (if path_dst_ptr_to_static_ptr info = not_public_path
        then info\<lparr>path_dst_ptr_to_static_ptr := path_below\<rparr> else info)
      else info\<lparr>number_to_static_ptr := number_to_static_ptr info + 1,
        path_dst_ptr_to_static_ptr := not_public_path, search_done := True\<rparr>)"

text \<open>The first base is searched without a test; the loop over the others tests after each.\<close>

primrec has_unambiguous_public_base ::
    "memory \<Rightarrow> type_info \<Rightarrow> dynamic_cast_info \<Rightarrow> u64 \<Rightarrow> search_value \<Rightarrow> dynamic_cast_info"
  and base_has_unambiguous_public_base ::
    "memory \<Rightarrow> base_class \<Rightarrow> dynamic_cast_info \<Rightarrow> u64 \<Rightarrow> search_value \<Rightarrow> dynamic_cast_info"
  and bases_have_unambiguous_public_base ::
    "memory \<Rightarrow> base_class list \<Rightarrow> bool \<Rightarrow> dynamic_cast_info \<Rightarrow> u64 \<Rightarrow> search_value \<Rightarrow> dynamic_cast_info" where
  "has_unambiguous_public_base mem (Class n) info adjustedPtr path_below =
     (if is_equal (Class n) (static_type info) False then process_found_base_class info adjustedPtr path_below
      else info)"
| "has_unambiguous_public_base mem (SiClass n b) info adjustedPtr path_below =
     (if is_equal (SiClass n b) (static_type info) False then process_found_base_class info adjustedPtr path_below
      else has_unambiguous_public_base mem b info adjustedPtr path_below)"
| "has_unambiguous_public_base mem (VmiClass n f bs) info adjustedPtr path_below =
     (if is_equal (VmiClass n f bs) (static_type info) False then process_found_base_class info adjustedPtr path_below
      else bases_have_unambiguous_public_base mem bs True info adjustedPtr path_below)"
| "has_unambiguous_public_base mem (Fundamental n) info adjustedPtr path_below = info"
| "has_unambiguous_public_base mem (Array n) info adjustedPtr path_below = info"
| "has_unambiguous_public_base mem (Function n) info adjustedPtr path_below = info"
| "has_unambiguous_public_base mem (Enum n) info adjustedPtr path_below = info"
| "has_unambiguous_public_base mem (Pointer n f t) info adjustedPtr path_below = info"
| "has_unambiguous_public_base mem (PointerToMember n f t c) info adjustedPtr path_below = info"
| "base_has_unambiguous_public_base mem (Base b flags) info adjustedPtr path_below =
     has_unambiguous_public_base mem b info
       (adjustedPtr + (if adjustedPtr \<noteq> 0 then offset_to_base mem adjustedPtr flags else 0))
       (path_to_base flags path_below)"
| "bases_have_unambiguous_public_base mem [] first info adjustedPtr path_below = info"
| "bases_have_unambiguous_public_base mem (p # ps) first info adjustedPtr path_below =
     (let info' = base_has_unambiguous_public_base mem p info adjustedPtr path_below in
      if \<not> first \<and> search_done info' then info'
      else bases_have_unambiguous_public_base mem ps False info' adjustedPtr path_below)"

section \<open>Catching\<close>

text \<open>What the library takes from the compiler: the type informations of \<open>std::nullptr_t\<close> and \<open>void\<close>, and the
  addresses of the two null pointers to members.\<close>

record rtti_constants =
  nullptr_type :: type_info
  void_type :: type_info
  null_function_member :: u64
  null_data_member :: u64

definition fundamental_can_catch :: "type_info \<Rightarrow> type_info \<Rightarrow> u64 \<Rightarrow> bool \<times> u64" where
  "fundamental_can_catch this thrown adjustedPtr = (is_equal this thrown False, adjustedPtr)"

definition enum_can_catch :: "type_info \<Rightarrow> type_info \<Rightarrow> u64 \<Rightarrow> bool \<times> u64" where
  "enum_can_catch this thrown adjustedPtr = (is_equal this thrown False, adjustedPtr)"

definition array_can_catch :: "type_info \<Rightarrow> type_info \<Rightarrow> u64 \<Rightarrow> bool \<times> u64" where
  "array_can_catch this thrown adjustedPtr = (False, adjustedPtr)"

definition function_can_catch :: "type_info \<Rightarrow> type_info \<Rightarrow> u64 \<Rightarrow> bool \<times> u64" where
  "function_can_catch this thrown adjustedPtr = (False, adjustedPtr)"

definition class_can_catch :: "memory \<Rightarrow> type_info \<Rightarrow> type_info \<Rightarrow> u64 \<Rightarrow> bool \<times> u64" where
  "class_can_catch mem this thrown adjustedPtr =
     (if is_equal this thrown False then (True, adjustedPtr)
      else if \<not> is_class thrown then (False, adjustedPtr)
      else
        let info = (new_info thrown 0 this (-1))\<lparr>number_of_dst_type := 1\<rparr>;
          info = has_unambiguous_public_base mem thrown info adjustedPtr public_path in
        if path_dst_ptr_to_static_ptr info = public_path then (True, dst_ptr_leading_to_static_ptr info)
        else (False, adjustedPtr))"

definition incomplete_flags :: "u32 \<Rightarrow> bool" where
  "incomplete_flags flags = (flags AND (incomplete_class_mask OR incomplete_mask) \<noteq> 0)"

definition pbase_can_catch :: "u32 \<Rightarrow> type_info \<Rightarrow> type_info \<Rightarrow> bool" where
  "pbase_can_catch flags this thrown =
     (let use_strcmp = incomplete_flags flags in
      if \<not> use_strcmp
      then (case pbase_flags thrown of None \<Rightarrow> False
        | Some thrown_flags \<Rightarrow> is_equal this thrown (incomplete_flags thrown_flags))
      else is_equal this thrown use_strcmp)"

text \<open>\<open>can_catch_nested\<close> of the type information of pointers and of pointers to members; the callers have tested
  by a dynamic cast that \<open>this\<close> is one of them.\<close>

primrec can_catch_nested :: "type_info \<Rightarrow> type_info \<Rightarrow> bool" where
  "can_catch_nested (Pointer n flags pointee) thrown = (case thrown of
     Pointer n' thrown_flags thrown_pointee \<Rightarrow>
       if thrown_flags AND NOT flags \<noteq> 0 then False
       else if is_equal pointee thrown_pointee False then True
       else if NOT flags AND const_mask \<noteq> 0 then False
       else can_catch_nested pointee thrown_pointee
   | _ \<Rightarrow> False)"
| "can_catch_nested (PointerToMember n flags pointee ctx) thrown = (case thrown of
     PointerToMember n' thrown_flags thrown_pointee thrown_context \<Rightarrow>
       if NOT flags AND thrown_flags \<noteq> 0 then False
       else if \<not> is_equal pointee thrown_pointee False then False
       else if \<not> is_equal ctx thrown_context False then False
       else True
   | _ \<Rightarrow> False)"
| "can_catch_nested (Fundamental n) thrown = False"
| "can_catch_nested (Array n) thrown = False"
| "can_catch_nested (Function n) thrown = False"
| "can_catch_nested (Enum n) thrown = False"
| "can_catch_nested (Class n) thrown = False"
| "can_catch_nested (SiClass n b) thrown = False"
| "can_catch_nested (VmiClass n f bs) thrown = False"

text \<open>The pointer to a class, the last case of \<open>__pointer_type_info::can_catch\<close>.\<close>

definition pointer_to_class_can_catch :: "memory \<Rightarrow> type_info \<Rightarrow> type_info \<Rightarrow> u64 \<Rightarrow> bool \<times> u64" where
  "pointer_to_class_can_catch mem pointee thrown_pointee adjustedPtr =
     (if \<not> is_class pointee then (False, adjustedPtr)
      else if \<not> is_class thrown_pointee then (False, adjustedPtr)
      else
        let info = (new_info thrown_pointee 0 pointee (-1))\<lparr>number_of_dst_type := 1\<rparr>;
          info = has_unambiguous_public_base mem thrown_pointee info adjustedPtr public_path in
        if path_dst_ptr_to_static_ptr info = public_path
        then (True, if adjustedPtr \<noteq> 0 then dst_ptr_leading_to_static_ptr info else adjustedPtr)
        else (False, adjustedPtr))"

definition dereference :: "memory \<Rightarrow> u64 \<Rightarrow> u64" where
  "dereference mem adjustedPtr = (if adjustedPtr \<noteq> 0 then read_bytes mem 8 adjustedPtr else adjustedPtr)"

definition pointer_can_catch ::
  "rtti_constants \<Rightarrow> memory \<Rightarrow> type_name \<Rightarrow> u32 \<Rightarrow> type_info \<Rightarrow> type_info \<Rightarrow> u64 \<Rightarrow> bool \<times> u64" where
  "pointer_can_catch env mem name flags pointee thrown adjustedPtr =
     (if is_equal thrown (nullptr_type env) False then (True, 0)
      else if pbase_can_catch flags (Pointer name flags pointee) thrown then (True, dereference mem adjustedPtr)
      else case thrown of
        Pointer thrown_name thrown_flags thrown_pointee \<Rightarrow>
          let adjustedPtr = dereference mem adjustedPtr in
          if thrown_flags AND NOT flags AND no_remove_flags_mask \<noteq> 0 then (False, adjustedPtr)
          else if flags AND NOT thrown_flags AND no_add_flags_mask \<noteq> 0 then (False, adjustedPtr)
          else if is_equal pointee thrown_pointee False then (True, adjustedPtr)
          else if is_equal pointee (void_type env) False then (\<not> is_function thrown_pointee, adjustedPtr)
          else if pbase_flags pointee \<noteq> None
          then (if NOT flags AND const_mask \<noteq> 0 then False else can_catch_nested pointee thrown_pointee, adjustedPtr)
          else pointer_to_class_can_catch mem pointee thrown_pointee adjustedPtr
      | _ \<Rightarrow> (False, adjustedPtr))"

definition pointer_to_member_can_catch ::
  "rtti_constants \<Rightarrow> type_name \<Rightarrow> u32 \<Rightarrow> type_info \<Rightarrow> type_info \<Rightarrow> type_info \<Rightarrow> u64 \<Rightarrow> bool \<times> u64" where
  "pointer_to_member_can_catch env name flags pointee ctx thrown adjustedPtr =
     (if is_equal thrown (nullptr_type env) False
      then (True, if is_function pointee then null_function_member env else null_data_member env)
      else if pbase_can_catch flags (PointerToMember name flags pointee ctx) thrown then (True, adjustedPtr)
      else case thrown of
        PointerToMember thrown_name thrown_flags thrown_pointee thrown_context \<Rightarrow>
          (if thrown_flags AND NOT flags AND no_remove_flags_mask \<noteq> 0 then False
           else if flags AND NOT thrown_flags AND no_add_flags_mask \<noteq> 0 then False
           else if \<not> is_equal pointee thrown_pointee False then False
           else is_equal ctx thrown_context False, adjustedPtr)
      | _ \<Rightarrow> (False, adjustedPtr))"

fun can_catch :: "rtti_constants \<Rightarrow> memory \<Rightarrow> type_info \<Rightarrow> type_info \<Rightarrow> u64 \<Rightarrow> bool \<times> u64" where
  "can_catch env mem (Fundamental n) thrown adjustedPtr = fundamental_can_catch (Fundamental n) thrown adjustedPtr"
| "can_catch env mem (Array n) thrown adjustedPtr = array_can_catch (Array n) thrown adjustedPtr"
| "can_catch env mem (Function n) thrown adjustedPtr = function_can_catch (Function n) thrown adjustedPtr"
| "can_catch env mem (Enum n) thrown adjustedPtr = enum_can_catch (Enum n) thrown adjustedPtr"
| "can_catch env mem (Class n) thrown adjustedPtr = class_can_catch mem (Class n) thrown adjustedPtr"
| "can_catch env mem (SiClass n b) thrown adjustedPtr = class_can_catch mem (SiClass n b) thrown adjustedPtr"
| "can_catch env mem (VmiClass n f bs) thrown adjustedPtr = class_can_catch mem (VmiClass n f bs) thrown adjustedPtr"
| "can_catch env mem (Pointer n f t) thrown adjustedPtr = pointer_can_catch env mem n f t thrown adjustedPtr"
| "can_catch env mem (PointerToMember n f t c) thrown adjustedPtr =
     pointer_to_member_can_catch env n f t c thrown adjustedPtr"

end
