(* ===== verification/DynamicCast.thy ===== *)
theory DynamicCast
  imports TypeInfo
begin

text \<open>
  \<open>__dynamic_cast\<close> (\<open>libcxxabi/src/private_typeinfo.cpp\<close>). The searches above and below the destination type are
  mutually recursive over the kinds of classes, their base class entries and the loops over these; the saved flags of
  the source are the local values of the definitions.
\<close>

definition process_static_type_above_dst ::
  "dynamic_cast_info \<Rightarrow> u64 \<Rightarrow> u64 \<Rightarrow> search_value \<Rightarrow> dynamic_cast_info" where
  "process_static_type_above_dst info dst_ptr current_ptr path_below =
     (let info = info\<lparr>found_any_static_type := True\<rparr> in
      if current_ptr = static_ptr info
      then
        let info = info\<lparr>found_our_static_ptr := True\<rparr> in
        if dst_ptr_leading_to_static_ptr info = 0
        then
          let info = info\<lparr>dst_ptr_leading_to_static_ptr := dst_ptr, path_dst_ptr_to_static_ptr := path_below,
            number_to_static_ptr := 1\<rparr> in
          if number_of_dst_type info = 1 \<and> path_dst_ptr_to_static_ptr info = public_path
          then info\<lparr>search_done := True\<rparr> else info
        else if dst_ptr_leading_to_static_ptr info = dst_ptr
        then
          let info = (if path_dst_ptr_to_static_ptr info = not_public_path
            then info\<lparr>path_dst_ptr_to_static_ptr := path_below\<rparr> else info) in
          if number_of_dst_type info = 1 \<and> path_dst_ptr_to_static_ptr info = public_path
          then info\<lparr>search_done := True\<rparr> else info
        else info\<lparr>number_to_static_ptr := number_to_static_ptr info + 1, search_done := True\<rparr>
      else info)"

definition process_static_type_below_dst :: "dynamic_cast_info \<Rightarrow> u64 \<Rightarrow> search_value \<Rightarrow> dynamic_cast_info" where
  "process_static_type_below_dst info current_ptr path_below =
     (if current_ptr = static_ptr info
      then (if path_dynamic_ptr_to_static_ptr info \<noteq> public_path
        then info\<lparr>path_dynamic_ptr_to_static_ptr := path_below\<rparr> else info)
      else info)"

section \<open>Above a destination type\<close>

abbreviation clear_found :: "dynamic_cast_info \<Rightarrow> dynamic_cast_info" where
  "clear_found info \<equiv> info\<lparr>found_our_static_ptr := False, found_any_static_type := False\<rparr>"

definition stop_above :: "u32 \<Rightarrow> dynamic_cast_info \<Rightarrow> bool" where
  "stop_above flags info =
     (if search_done info then True
      else if found_our_static_ptr info
      then path_dst_ptr_to_static_ptr info = public_path \<or> flags AND diamond_shaped_mask = 0
      else if found_any_static_type info then flags AND non_diamond_repeat_mask = 0
      else False)"

text \<open>\<open>first\<close> marks the entry that is searched before the loop over the others starts, and so without its test.\<close>

primrec search_above_dst :: "memory \<Rightarrow> bool \<Rightarrow> type_info \<Rightarrow> dynamic_cast_info \<Rightarrow> u64 \<Rightarrow> u64 \<Rightarrow> search_value \<Rightarrow> dynamic_cast_info"
  and base_search_above_dst ::
    "memory \<Rightarrow> bool \<Rightarrow> base_class \<Rightarrow> dynamic_cast_info \<Rightarrow> u64 \<Rightarrow> u64 \<Rightarrow> search_value \<Rightarrow> dynamic_cast_info"
  and bases_search_above_dst ::
    "memory \<Rightarrow> bool \<Rightarrow> base_class list \<Rightarrow> u32 \<Rightarrow> bool \<Rightarrow> bool \<Rightarrow> bool \<Rightarrow> dynamic_cast_info \<Rightarrow> u64 \<Rightarrow> u64 \<Rightarrow> search_value \<Rightarrow>
     dynamic_cast_info" where
  "search_above_dst mem use_strcmp (VmiClass n flags bs) info dst_ptr current_ptr path_below =
     (if is_equal (VmiClass n flags bs) (static_type info) use_strcmp
      then process_static_type_above_dst info dst_ptr current_ptr path_below
      else bases_search_above_dst mem use_strcmp bs flags True (found_our_static_ptr info) (found_any_static_type info)
        info dst_ptr current_ptr path_below)"
| "search_above_dst mem use_strcmp (SiClass n b) info dst_ptr current_ptr path_below =
     (if is_equal (SiClass n b) (static_type info) use_strcmp
      then process_static_type_above_dst info dst_ptr current_ptr path_below
      else search_above_dst mem use_strcmp b info dst_ptr current_ptr path_below)"
| "search_above_dst mem use_strcmp (Class n) info dst_ptr current_ptr path_below =
     (if is_equal (Class n) (static_type info) use_strcmp
      then process_static_type_above_dst info dst_ptr current_ptr path_below else info)"
| "search_above_dst mem use_strcmp (Fundamental n) info dst_ptr current_ptr path_below = info"
| "search_above_dst mem use_strcmp (Array n) info dst_ptr current_ptr path_below = info"
| "search_above_dst mem use_strcmp (Function n) info dst_ptr current_ptr path_below = info"
| "search_above_dst mem use_strcmp (Enum n) info dst_ptr current_ptr path_below = info"
| "search_above_dst mem use_strcmp (Pointer n f t) info dst_ptr current_ptr path_below = info"
| "search_above_dst mem use_strcmp (PointerToMember n f t c) info dst_ptr current_ptr path_below = info"
| "base_search_above_dst mem use_strcmp (Base b flags) info dst_ptr current_ptr path_below =
     search_above_dst mem use_strcmp b info dst_ptr (current_ptr + offset_to_base mem current_ptr flags)
       (path_to_base flags path_below)"
| "bases_search_above_dst mem use_strcmp [] flags first found_our found_any info dst_ptr current_ptr path_below =
     info\<lparr>found_our_static_ptr := found_our, found_any_static_type := found_any\<rparr>"
| "bases_search_above_dst mem use_strcmp (p # ps) flags first found_our found_any info dst_ptr current_ptr path_below =
     (if \<not> first \<and> stop_above flags info
      then info\<lparr>found_our_static_ptr := found_our, found_any_static_type := found_any\<rparr>
      else
        let info = base_search_above_dst mem use_strcmp p (clear_found info) dst_ptr current_ptr path_below in
        bases_search_above_dst mem use_strcmp ps flags False
          (found_our \<or> found_our_static_ptr info) (found_any \<or> found_any_static_type info)
          info dst_ptr current_ptr path_below)"

section \<open>Below the destination type\<close>

text \<open>The loop over the bases of a destination type in \<open>__vmi_class_type_info::search_below_dst\<close>. The result carries
  the two local flags, whether a static type and whether ours was found.\<close>

fun dst_bases_loop ::
  "memory \<Rightarrow> bool \<Rightarrow> u32 \<Rightarrow> base_class list \<Rightarrow> bool \<Rightarrow> bool \<Rightarrow> dynamic_cast_info \<Rightarrow> u64 \<Rightarrow> dynamic_cast_info \<times> bool \<times> bool" where
  "dst_bases_loop mem use_strcmp flags [] derived points info current_ptr = (info, derived, points)"
| "dst_bases_loop mem use_strcmp flags (p # ps) derived points info current_ptr =
     (let info = base_search_above_dst mem use_strcmp p (clear_found info) current_ptr current_ptr public_path in
      if search_done info then (info, derived, points)
      else if found_any_static_type info
      then
        if found_our_static_ptr info
        then
          if path_dst_ptr_to_static_ptr info = public_path then (info, True, True)
          else if flags AND diamond_shaped_mask = 0 then (info, True, True)
          else dst_bases_loop mem use_strcmp flags ps True True info current_ptr
        else
          if flags AND non_diamond_repeat_mask = 0 then (info, True, points)
          else dst_bases_loop mem use_strcmp flags ps True points info current_ptr
      else dst_bases_loop mem use_strcmp flags ps derived points info current_ptr)"

definition record_derived :: "bool \<Rightarrow> dynamic_cast_info \<Rightarrow> dynamic_cast_info" where
  "record_derived derived info = info\<lparr>is_dst_type_derived_from_static_type := (if derived then yes else no)\<rparr>"

text \<open>The search of the bases of a destination type, and whether one of them leads to the static pointer.\<close>

fun search_dst_bases ::
  "memory \<Rightarrow> bool \<Rightarrow> type_info \<Rightarrow> dynamic_cast_info \<Rightarrow> u64 \<Rightarrow> dynamic_cast_info \<times> bool" where
  "search_dst_bases mem use_strcmp (VmiClass n flags bs) info current_ptr =
     (if is_dst_type_derived_from_static_type info \<noteq> no
      then
        let (info, derived, points) = dst_bases_loop mem use_strcmp flags bs False False info current_ptr in
        (record_derived derived info, points)
      else (info, False))"
| "search_dst_bases mem use_strcmp (SiClass n b) info current_ptr =
     (if is_dst_type_derived_from_static_type info \<noteq> no
      then
        let info = search_above_dst mem use_strcmp b (clear_found info) current_ptr current_ptr public_path in
        (record_derived (found_any_static_type info) info, found_any_static_type info \<and> found_our_static_ptr info)
      else (info, False))"
| "search_dst_bases mem use_strcmp t info current_ptr = (info, False)"

text \<open>What the three kinds of classes share when the search meets the destination type. A class without bases
  records last that it does not derive from the static type.\<close>

definition search_found_dst :: "memory \<Rightarrow> bool \<Rightarrow> type_info \<Rightarrow> dynamic_cast_info \<Rightarrow> u64 \<Rightarrow> search_value \<Rightarrow> dynamic_cast_info" where
  "search_found_dst mem use_strcmp this info current_ptr path_below =
     (if current_ptr = dst_ptr_leading_to_static_ptr info \<or> current_ptr = dst_ptr_not_leading_to_static_ptr info
      then (if path_below = public_path then info\<lparr>path_dynamic_ptr_to_dst_ptr := public_path\<rparr> else info)
      else
        let info = info\<lparr>path_dynamic_ptr_to_dst_ptr := path_below\<rparr>;
          (info, points) = search_dst_bases mem use_strcmp this info current_ptr;
          info = (if \<not> points
            then
              let info = info\<lparr>dst_ptr_not_leading_to_static_ptr := current_ptr,
                number_to_dst_ptr := number_to_dst_ptr info + 1\<rparr> in
              if number_to_static_ptr info = 1 \<and> path_dst_ptr_to_static_ptr info = not_public_path
              then info\<lparr>search_done := True\<rparr> else info
            else info) in
        case this of Class n \<Rightarrow> record_derived False info | _ \<Rightarrow> info)"

text \<open>When the loop over the other bases ends, by the flags of the class and the state before the loop.\<close>

definition stop_below :: "u32 \<Rightarrow> bool \<Rightarrow> dynamic_cast_info \<Rightarrow> bool" where
  "stop_below flags found_before info =
     (if search_done info then True
      else if flags AND diamond_shaped_mask \<noteq> 0 \<or> found_before then False
      else if flags AND non_diamond_repeat_mask \<noteq> 0
      then number_to_static_ptr info = 1 \<and> path_dst_ptr_to_static_ptr info = public_path
      else number_to_static_ptr info = 1)"

text \<open>\<open>found_before\<close> is the test that the code makes once, after the first entry.\<close>

primrec search_below_dst :: "memory \<Rightarrow> bool \<Rightarrow> type_info \<Rightarrow> dynamic_cast_info \<Rightarrow> u64 \<Rightarrow> search_value \<Rightarrow> dynamic_cast_info"
  and base_search_below_dst ::
    "memory \<Rightarrow> bool \<Rightarrow> base_class \<Rightarrow> dynamic_cast_info \<Rightarrow> u64 \<Rightarrow> search_value \<Rightarrow> dynamic_cast_info"
  and bases_search_below_dst ::
    "memory \<Rightarrow> bool \<Rightarrow> base_class list \<Rightarrow> u32 \<Rightarrow> bool option \<Rightarrow> dynamic_cast_info \<Rightarrow> u64 \<Rightarrow> search_value \<Rightarrow> dynamic_cast_info" where
  "search_below_dst mem use_strcmp (VmiClass n flags bs) info current_ptr path_below =
     (if is_equal (VmiClass n flags bs) (static_type info) use_strcmp
      then process_static_type_below_dst info current_ptr path_below
      else if is_equal (VmiClass n flags bs) (dst_type info) use_strcmp
      then search_found_dst mem use_strcmp (VmiClass n flags bs) info current_ptr path_below
      else bases_search_below_dst mem use_strcmp bs flags None info current_ptr path_below)"
| "search_below_dst mem use_strcmp (SiClass n b) info current_ptr path_below =
     (if is_equal (SiClass n b) (static_type info) use_strcmp
      then process_static_type_below_dst info current_ptr path_below
      else if is_equal (SiClass n b) (dst_type info) use_strcmp
      then search_found_dst mem use_strcmp (SiClass n b) info current_ptr path_below
      else search_below_dst mem use_strcmp b info current_ptr path_below)"
| "search_below_dst mem use_strcmp (Class n) info current_ptr path_below =
     (if is_equal (Class n) (static_type info) use_strcmp
      then process_static_type_below_dst info current_ptr path_below
      else if is_equal (Class n) (dst_type info) use_strcmp
      then search_found_dst mem use_strcmp (Class n) info current_ptr path_below
      else info)"
| "search_below_dst mem use_strcmp (Fundamental n) info current_ptr path_below = info"
| "search_below_dst mem use_strcmp (Array n) info current_ptr path_below = info"
| "search_below_dst mem use_strcmp (Function n) info current_ptr path_below = info"
| "search_below_dst mem use_strcmp (Enum n) info current_ptr path_below = info"
| "search_below_dst mem use_strcmp (Pointer n f t) info current_ptr path_below = info"
| "search_below_dst mem use_strcmp (PointerToMember n f t c) info current_ptr path_below = info"
| "base_search_below_dst mem use_strcmp (Base b flags) info current_ptr path_below =
     search_below_dst mem use_strcmp b info (current_ptr + offset_to_base mem current_ptr flags)
       (path_to_base flags path_below)"
| "bases_search_below_dst mem use_strcmp [] flags found_before info current_ptr path_below = info"
| "bases_search_below_dst mem use_strcmp (p # ps) flags found_before info current_ptr path_below =
     (case found_before of
       None \<Rightarrow>
         let info = base_search_below_dst mem use_strcmp p info current_ptr path_below in
         bases_search_below_dst mem use_strcmp ps flags (Some (number_to_static_ptr info = 1)) info current_ptr path_below
     | Some found \<Rightarrow>
         if stop_below flags found info then info
         else bases_search_below_dst mem use_strcmp ps flags found_before
           (base_search_below_dst mem use_strcmp p info current_ptr path_below) current_ptr path_below)"

section \<open>The cast\<close>

text \<open>\<open>types\<close> is the type information at an address; the complete object and its type are found through the virtual
  table of the object. The result is the null pointer when the cast fails.\<close>

definition cast_result :: "dynamic_cast_info \<Rightarrow> u64" where
  "cast_result info =
     (if number_to_static_ptr info = 0
      then (if number_to_dst_ptr info = 1 \<and> path_dynamic_ptr_to_static_ptr info = public_path
          \<and> path_dynamic_ptr_to_dst_ptr info = public_path
        then dst_ptr_not_leading_to_static_ptr info else 0)
      else if number_to_static_ptr info = 1
      then (if path_dst_ptr_to_static_ptr info = public_path \<or>
            number_to_dst_ptr info = 0 \<and> path_dynamic_ptr_to_static_ptr info = public_path
            \<and> path_dynamic_ptr_to_dst_ptr info = public_path
        then dst_ptr_leading_to_static_ptr info else 0)
      else 0)"

definition cast_complete :: "memory \<Rightarrow> u64 \<Rightarrow> type_info \<Rightarrow> type_info \<Rightarrow> u64 \<Rightarrow> u64 \<Rightarrow> type_info \<Rightarrow> u64" where
  "cast_complete mem ptr source target hint dynamic_ptr dynamic_type =
     (let info = new_info target ptr source hint in
      if is_equal dynamic_type target False
      then
        let info = info\<lparr>number_of_dst_type := 1\<rparr>;
          info = search_above_dst mem False dynamic_type info dynamic_ptr dynamic_ptr public_path in
        if path_dst_ptr_to_static_ptr info = public_path then dynamic_ptr else 0
      else cast_result (search_below_dst mem False dynamic_type info dynamic_ptr public_path))"

definition complete_object :: "(u64 \<Rightarrow> type_info) \<Rightarrow> memory \<Rightarrow> u64 \<Rightarrow> type_info \<times> u64" where
  "complete_object types mem ptr =
     (let vtable = read_bytes mem 8 ptr;
        offset_to_derived = read_bytes mem 8 (vtable - 16) in
      (types (read_bytes mem 8 (vtable - 8)), ptr + offset_to_derived))"

definition dynamic_cast :: "(u64 \<Rightarrow> type_info) \<Rightarrow> memory \<Rightarrow> u64 \<Rightarrow> type_info \<Rightarrow> type_info \<Rightarrow> u64 \<Rightarrow> u64" where
  "dynamic_cast types mem ptr source target hint =
     (let (dynamic_type, dynamic_ptr) = complete_object types mem ptr in
      cast_complete mem ptr source target hint dynamic_ptr dynamic_type)"

end
