(* ===== verification/BaseGraph.thy ===== *)
theory BaseGraph
  imports DynamicCast
begin

text \<open>
  The base class subobjects of an object, as a reference for the searches: \<open>paths\<close> lists every path from the object
  to a subobject with the type and address of the subobject and whether all steps are public; \<open>visits\<close> lists the
  paths that end at the first type that is sought. \<open>off ptr flags\<close> is the offset of a base of the object at \<open>ptr\<close>.
\<close>

type_synonym subobject = "type_info \<times> u64 \<times> bool"

primrec paths :: "(u64 \<Rightarrow> u64 \<Rightarrow> u64) \<Rightarrow> type_info \<Rightarrow> u64 \<Rightarrow> bool \<Rightarrow> subobject list"
  and base_paths :: "(u64 \<Rightarrow> u64 \<Rightarrow> u64) \<Rightarrow> base_class \<Rightarrow> u64 \<Rightarrow> bool \<Rightarrow> subobject list"
  and bases_paths :: "(u64 \<Rightarrow> u64 \<Rightarrow> u64) \<Rightarrow> base_class list \<Rightarrow> u64 \<Rightarrow> bool \<Rightarrow> subobject list" where
  "paths off (Fundamental n) p pub = [(Fundamental n, p, pub)]"
| "paths off (Array n) p pub = [(Array n, p, pub)]"
| "paths off (Function n) p pub = [(Function n, p, pub)]"
| "paths off (Enum n) p pub = [(Enum n, p, pub)]"
| "paths off (Class n) p pub = [(Class n, p, pub)]"
| "paths off (SiClass n b) p pub = (SiClass n b, p, pub) # paths off b p pub"
| "paths off (VmiClass n f bs) p pub = (VmiClass n f bs, p, pub) # bases_paths off bs p pub"
| "paths off (Pointer n f t) p pub = [(Pointer n f t, p, pub)]"
| "paths off (PointerToMember n f t c) p pub = [(PointerToMember n f t c, p, pub)]"
| "base_paths off (Base b flags) p pub = paths off b (p + off p flags) (pub \<and> flags AND public_mask \<noteq> 0)"
| "bases_paths off [] p pub = []"
| "bases_paths off (b # bs) p pub = base_paths off b p pub @ bases_paths off bs p pub"

primrec visits :: "(u64 \<Rightarrow> u64 \<Rightarrow> u64) \<Rightarrow> (type_info \<Rightarrow> bool) \<Rightarrow> type_info \<Rightarrow> u64 \<Rightarrow> bool \<Rightarrow> subobject list"
  and base_visits :: "(u64 \<Rightarrow> u64 \<Rightarrow> u64) \<Rightarrow> (type_info \<Rightarrow> bool) \<Rightarrow> base_class \<Rightarrow> u64 \<Rightarrow> bool \<Rightarrow> subobject list"
  and bases_visits :: "(u64 \<Rightarrow> u64 \<Rightarrow> u64) \<Rightarrow> (type_info \<Rightarrow> bool) \<Rightarrow> base_class list \<Rightarrow> u64 \<Rightarrow> bool \<Rightarrow> subobject list" where
  "visits off m (Fundamental n) p pub = []"
| "visits off m (Array n) p pub = []"
| "visits off m (Function n) p pub = []"
| "visits off m (Enum n) p pub = []"
| "visits off m (Class n) p pub = (if m (Class n) then [(Class n, p, pub)] else [])"
| "visits off m (SiClass n b) p pub = (if m (SiClass n b) then [(SiClass n b, p, pub)] else visits off m b p pub)"
| "visits off m (VmiClass n f bs) p pub =
     (if m (VmiClass n f bs) then [(VmiClass n f bs, p, pub)] else bases_visits off m bs p pub)"
| "visits off m (Pointer n f t) p pub = []"
| "visits off m (PointerToMember n f t c) p pub = []"
| "base_visits off m (Base b flags) p pub = visits off m b (p + off p flags) (pub \<and> flags AND public_mask \<noteq> 0)"
| "bases_visits off m [] p pub = []"
| "bases_visits off m (b # bs) p pub = base_visits off m b p pub @ bases_visits off m bs p pub"

definition path_of :: "bool \<Rightarrow> search_value" where
  "path_of pub = (if pub then public_path else not_public_path)"

lemma path_of_simps [simp]: "path_of True = public_path" "path_of False = not_public_path"
  "path_of pub \<noteq> unknown" "(path_of pub = public_path) = pub" "(path_of pub = not_public_path) = (\<not> pub)"
  by (simp_all add: path_of_def)

lemma path_to_base_of [simp]: "path_to_base flags (path_of pub) = path_of (pub \<and> flags AND public_mask \<noteq> 0)"
  by (simp add: path_to_base_def path_of_def)

section \<open>Induction over classes\<close>

definition without_bases :: "type_info \<Rightarrow> bool" where
  "without_bases T = (case T of SiClass n b \<Rightarrow> False | VmiClass n f bs \<Rightarrow> False | _ \<Rightarrow> True)"

lemma paths_without_bases [simp]: "without_bases T \<Longrightarrow> paths off T p pub = [(T, p, pub)]"
  by (cases T) (simp_all add: without_bases_def)

lemma visits_without_bases [simp]:
  "without_bases T \<Longrightarrow> visits off m T p pub = (if is_class T \<and> m T then [(T, p, pub)] else [])"
  by (cases T) (simp_all add: without_bases_def)

lemma class_induct [case_names leaf Si Vmi]:
  assumes leaf: "\<And>T. without_bases T \<Longrightarrow> P T"
    and Si: "\<And>n b. P b \<Longrightarrow> P (SiClass n b)"
    and Vmi: "\<And>n f bs. (\<And>b flags. Base b flags \<in> set bs \<Longrightarrow> P b) \<Longrightarrow> P (VmiClass n f bs)"
  shows "P T"
proof -
  have "P T" and "case B of Base b f \<Rightarrow> P b" for B
  proof (induction T and B)
    case (VmiClass n f bs)
    have "P b" if "Base b flags \<in> set bs" for b flags using VmiClass [OF that] by simp
    then show ?case by (rule Vmi)
  qed (auto intro: leaf Si simp: without_bases_def)
  then show "P T" by blast
qed

lemma base_list_cases:
  assumes "bs = [] \<Longrightarrow> P" "\<And>b flags bs'. bs = Base b flags # bs' \<Longrightarrow> P"
  shows P
  using assms by (cases bs; cases "hd bs") auto

lemma in_bases_paths: "x \<in> set (bases_paths off bs p pub) \<longleftrightarrow> (\<exists>b flags. Base b flags \<in> set bs \<and> x \<in> set (base_paths off (Base b flags) p pub))"
proof (induction bs)
  case (Cons B bs) then show ?case by (cases B) auto
qed simp

lemma in_bases_visits: "x \<in> set (bases_visits off m bs p pub) \<longleftrightarrow> (\<exists>b flags. Base b flags \<in> set bs \<and> x \<in> set (base_visits off m (Base b flags) p pub))"
proof (induction bs)
  case (Cons B bs) then show ?case by (cases B) auto
qed simp

section \<open>Paths\<close>

lemma paths_self [simp]: "(T, p, pub) \<in> set (paths off T p pub)"
  by (cases T) simp_all

lemma size_base: "Base b flags \<in> set bs \<Longrightarrow> size b < size (VmiClass n f bs)"
  using size_list_estimation' [of "Base b flags" bs "size b" size] by simp

lemma paths_size: "(U, q, r) \<in> set (paths off T p pub) \<Longrightarrow> (U, q, r) = (T, p, pub) \<or> size U < size T"
proof (induction T arbitrary: p pub rule: class_induct)
  case (Si n b)
  from Si.prems Si.IH [of p pub] show ?case by auto
next
  case (Vmi n f bs)
  show ?case
  proof (cases "(U, q, r) = (VmiClass n f bs, p, pub)")
    case False
    with Vmi.prems obtain b flags where b: "Base b flags \<in> set bs" "(U, q, r) \<in> set (base_paths off (Base b flags) p pub)"
      by (auto simp: in_bases_paths)
    have "U = b \<or> size U < size b" using Vmi.IH [OF b(1)] b(2) by auto
    with size_base [OF b(1), of n f] show ?thesis by auto
  qed simp
qed simp


lemma bases_of_bases_paths:
  "Base b flags \<in> set bs \<Longrightarrow> (U, q, r) \<in> set (paths off b (p + off p flags) (pub \<and> flags AND public_mask \<noteq> 0)) \<Longrightarrow>
    (U, q, r) \<in> set (bases_paths off bs p pub)"
  using in_bases_paths [of "(U, q, r)" off bs p pub] by auto

lemma paths_trans:
  "(V, a, s) \<in> set (paths off T p pub) \<Longrightarrow> (U, q, r) \<in> set (paths off V a s) \<Longrightarrow> (U, q, r) \<in> set (paths off T p pub)"
proof (induction T arbitrary: p pub rule: class_induct)
  case (Vmi n f bs)
  show ?case
  proof (cases "(V, a, s) = (VmiClass n f bs, p, pub)")
    case False
    with Vmi.prems(1) obtain b flags where b: "Base b flags \<in> set bs" "(V, a, s) \<in> set (base_paths off (Base b flags) p pub)"
      by (auto simp: in_bases_paths)
    from Vmi.IH [OF b(1)] b(2) Vmi.prems(2) have "(U, q, r) \<in> set (base_paths off (Base b flags) p pub)" by simp
    then show ?thesis using b(1) in_bases_paths [of "(U, q, r)" off bs p pub] by auto
  qed (use Vmi.prems(2) in simp)
qed auto

lemma bases_paths_concat: "bases_paths off bs p pub = concat (map (\<lambda>B. base_paths off B p pub) bs)"
  by (induction bs) simp_all

lemma bases_visits_concat: "bases_visits off m bs p pub = concat (map (\<lambda>B. base_visits off m B p pub) bs)"
  by (induction bs) simp_all

lemma paths_conj: "paths off T p (pub \<and> r) = map (\<lambda>(U, q, s). (U, q, s \<and> pub)) (paths off T p r)"
proof (induction T arbitrary: p r rule: class_induct)
  case (Vmi n f bs)
  have "base_paths off B p (pub \<and> r) = map (\<lambda>(U, q, s). (U, q, s \<and> pub)) (base_paths off B p r)" if "B \<in> set bs" for B
    using Vmi.IH that by (cases B) (auto simp: conj_assoc)
  then show ?case by (auto simp: bases_paths_concat map_concat comp_def intro!: arg_cong [where f = concat])
qed (auto simp: conj_commute)

lemma visits_conj: "visits off m T p (pub \<and> r) = map (\<lambda>(U, q, s). (U, q, s \<and> pub)) (visits off m T p r)"
proof (induction T arbitrary: p r rule: class_induct)
  case (Vmi n f bs)
  have "base_visits off m B p (pub \<and> r) = map (\<lambda>(U, q, s). (U, q, s \<and> pub)) (base_visits off m B p r)" if "B \<in> set bs" for B
    using Vmi.IH that by (cases B) (auto simp: conj_assoc)
  then show ?case
    by (auto simp: bases_visits_concat map_concat comp_def conj_commute intro!: arg_cong [where f = concat])
qed (auto simp: conj_commute)

lemma in_paths_pub: "(U, q, r) \<in> set (paths off T p pub) \<longleftrightarrow> (\<exists>s. (U, q, s) \<in> set (paths off T p True) \<and> r = (s \<and> pub))"
  using paths_conj [of off T p pub True] by force

lemma in_visits_pub: "(U, q, r) \<in> set (visits off m T p pub) \<longleftrightarrow> (\<exists>s. (U, q, s) \<in> set (visits off m T p True) \<and> r = (s \<and> pub))"
  using visits_conj [of off m T p pub True] by force

lemma visits_types: "map fst (visits off m T p pub) = map fst (visits off m T q r)"
proof (induction T arbitrary: p pub q r rule: class_induct)
  case (Vmi n f bs)
  have "map fst (base_visits off m B p pub) = map fst (base_visits off m B q r)" if "B \<in> set bs" for B
    using Vmi.IH that by (cases B) auto
  then show ?case by (auto simp: bases_visits_concat map_concat comp_def intro!: arg_cong [where f = concat])
qed auto

lemma visits_empty: "visits off m T p pub = [] \<longleftrightarrow> visits off m T q r = []"
  using visits_types [of off m T p pub q r] by (metis map_is_Nil_conv)

section \<open>Visits are paths\<close>

lemma visits_subset: "(U, q, r) \<in> set (visits off m T p pub) \<Longrightarrow> (U, q, r) \<in> set (paths off T p pub) \<and> m U"
proof (induction T arbitrary: p pub rule: class_induct)
  case (Vmi n f bs)
  show ?case
  proof (cases "m (VmiClass n f bs)")
    case False
    with Vmi.prems obtain b flags where b: "Base b flags \<in> set bs" "(U, q, r) \<in> set (base_visits off m (Base b flags) p pub)"
      by (auto simp: in_bases_visits)
    from Vmi.IH [OF b(1)] b(2) have "(U, q, r) \<in> set (base_paths off (Base b flags) p pub) \<and> m U" by simp
    then show ?thesis using b(1) in_bases_paths [of "(U, q, r)" off bs p pub] by auto
  qed (use Vmi.prems in simp)
qed (auto split: if_splits)

lemma paths_visited:
  "(U, q, r) \<in> set (paths off T p pub) \<Longrightarrow> m U \<Longrightarrow> is_class U \<Longrightarrow>
    (U, q, r) \<in> set (visits off m T p pub) \<or>
    (\<exists>V a s. (V, a, s) \<in> set (visits off m T p pub) \<and> (U, q, r) \<in> set (paths off V a s) \<and> size U < size V)"
proof (induction T arbitrary: p pub rule: class_induct)
  case (Si n b)
  then show ?case using paths_size [of U q r off "SiClass n b" p pub] by (cases "m (SiClass n b)") auto
next
  case (Vmi n f bs)
  show ?case
  proof (cases "m (VmiClass n f bs)")
    case True
    then show ?thesis using Vmi.prems paths_size [OF Vmi.prems(1)] by auto
  next
    case False
    with Vmi.prems obtain b flags where b: "Base b flags \<in> set bs" "(U, q, r) \<in> set (base_paths off (Base b flags) p pub)"
      by (auto simp: in_bases_paths)
    from Vmi.IH [OF b(1)] b(2) Vmi.prems(2,3)
    have "(U, q, r) \<in> set (base_visits off m (Base b flags) p pub) \<or>
      (\<exists>V a s. (V, a, s) \<in> set (base_visits off m (Base b flags) p pub) \<and> (U, q, r) \<in> set (paths off V a s) \<and> size U < size V)"
      by simp
    moreover have "set (base_visits off m (Base b flags) p pub) \<subseteq> set (visits off m (VmiClass n f bs) p pub)"
      using b(1) False by (auto simp: bases_visits_concat)
    ultimately show ?thesis by blast
  qed
qed auto

lemma bases_size: "(U, q, r) \<in> set (bases_paths off bs p pub) \<Longrightarrow> size U < size (VmiClass n f bs)"
proof -
  assume "(U, q, r) \<in> set (bases_paths off bs p pub)"
  then obtain b flags where b: "Base b flags \<in> set bs" "(U, q, r) \<in> set (base_paths off (Base b flags) p pub)"
    by (auto simp: in_bases_paths)
  from b(2) have "U = b \<or> size U < size b" using paths_size [of U q r off b] by auto
  with size_base [OF b(1), of n f] show ?thesis by auto
qed

text \<open>When the types that are sought are one class \<open>S\<close>, no path to it is hidden behind another.\<close>

lemma visits_filter:
  assumes "\<And>U q r. (U, q, r) \<in> set (paths off T p pub) \<Longrightarrow> m U \<Longrightarrow> U = S" "is_class S"
  shows "visits off m T p pub = filter (\<lambda>v. m (fst v)) (paths off T p pub)"
  using assms(1)
proof (induction T arbitrary: p pub rule: class_induct)
  case (leaf T) then show ?case using assms(2) by auto
next
  case (Si n b)
  show ?case
  proof (cases "m (SiClass n b)")
    case True
    then have "S = SiClass n b" using Si.prems [of "SiClass n b" p pub] by simp
    then have "\<not> m U" if "(U, q, r) \<in> set (paths off b p pub)" for U q r
      using Si.prems [of U q r] that paths_size [OF that] by auto
    then have "filter (\<lambda>v. m (fst v)) (paths off b p pub) = []" by (auto simp: filter_empty_conv)
    then show ?thesis using True by simp
  qed (use Si.prems Si.IH [of p pub] in auto)
next
  case (Vmi n f bs)
  show ?case
  proof (cases "m (VmiClass n f bs)")
    case True
    then have "S = VmiClass n f bs" using Vmi.prems [of "VmiClass n f bs" p pub] by simp
    then have "\<not> m U" if "(U, q, r) \<in> set (bases_paths off bs p pub)" for U q r
      using Vmi.prems [of U q r] that bases_size [OF that, of n f] by auto
    then have "filter (\<lambda>v. m (fst v)) (bases_paths off bs p pub) = []" by (auto simp: filter_empty_conv)
    then show ?thesis using True by simp
  next
    case False
    have "base_visits off m (Base b flags) p pub = filter (\<lambda>v. m (fst v)) (base_paths off (Base b flags) p pub)"
      if b: "Base b flags \<in> set bs" for b flags
    proof -
      have "U = S" if "(U, q, r) \<in> set (paths off b (p + off p flags) (pub \<and> flags AND public_mask \<noteq> 0))" "m U" for U q r
        using Vmi.prems [of U q r] bases_of_bases_paths [OF b that(1)] that(2) by simp
      from Vmi.IH [OF b this] show ?thesis by simp
    qed
    then have "base_visits off m B p pub = filter (\<lambda>v. m (fst v)) (base_paths off B p pub)" if "B \<in> set bs" for B
      using that by (cases B) simp
    then show ?thesis using False
      by (auto simp: bases_visits_concat bases_paths_concat filter_concat comp_def intro!: arg_cong [where f = concat])
  qed
qed

end
