(* ===== verification/CatchProperties.thy ===== *)
theory CatchProperties
  imports BaseGraph "HOL-Library.Sublist"
begin

unbundle bit_operations_syntax

text \<open>
  What \<open>can_catch\<close> answers for classes and pointers, against the graph of base class subobjects.
\<close>

section \<open>The search is a walk over the visits\<close>

definition catch_offset :: "memory \<Rightarrow> u64 \<Rightarrow> u64 \<Rightarrow> u64" where
  "catch_offset mem ptr flags = (if ptr \<noteq> 0 then offset_to_base mem ptr flags else 0)"

definition found_step :: "dynamic_cast_info \<Rightarrow> subobject \<Rightarrow> dynamic_cast_info" where
  "found_step info = (\<lambda>(U, q, pub). process_found_base_class info q (path_of pub))"

lemma found_step_static [simp]: "static_type (found_step info v) = static_type info"
  by (simp add: found_step_def process_found_base_class_def split: prod.splits)

lemma found_steps_static [simp]: "static_type (foldl found_step info vs) = static_type info"
  by (induction vs arbitrary: info) simp_all

definition walked :: "dynamic_cast_info \<Rightarrow> subobject list \<Rightarrow> dynamic_cast_info \<Rightarrow> bool" where
  "walked info vs info' \<longleftrightarrow> (\<exists>ws. subseq ws vs \<and> info' = foldl found_step info ws \<and> (ws = vs \<or> search_done info'))"

lemma walked_refl [simp]: "walked info [] info" "walked info [v] (found_step info v)"
  unfolding walked_def by force+

lemma walked_found [simp]: "walked info [(U, q, pub)] (process_found_base_class info q (path_of pub))"
  using walked_refl(2) [of info "(U, q, pub)"] by (simp add: found_step_def)

lemma walked_append: "walked info vs info' \<Longrightarrow> walked info' us info'' \<Longrightarrow> search_done info' \<longrightarrow> search_done info'' \<Longrightarrow> walked info (vs @ us) info''"
  unfolding walked_def by (metis foldl_append list_emb_append_mono)

lemma walked_stop: "walked info vs info' \<Longrightarrow> search_done info' \<Longrightarrow> walked info (vs @ us) info'"
  unfolding walked_def by (metis list_emb_append2 append.right_neutral list_emb_append_mono list_emb_Nil)

lemma step_done: "search_done info \<Longrightarrow> search_done (found_step info v)"
  by (simp add: found_step_def process_found_base_class_def split: prod.splits)

lemma steps_done: "search_done info \<Longrightarrow> search_done (foldl found_step info vs)"
  by (induction vs arbitrary: info) (simp_all add: step_done)

lemma walked_done: "walked info vs info' \<Longrightarrow> search_done info \<Longrightarrow> search_done info'"
  unfolding walked_def using steps_done by blast

lemma walked_static: "walked info vs info' \<Longrightarrow> static_type info' = static_type info"
  unfolding walked_def by auto

lemma bases_walked:
  assumes "\<And>b flags info. Base b flags \<in> set bs \<Longrightarrow> static_type info = S \<Longrightarrow>
    walked info (base_visits (catch_offset mem) m (Base b flags) p pub)
      (base_has_unambiguous_public_base mem (Base b flags) info p (path_of pub))"
    and "static_type info = S"
  shows "walked info (bases_visits (catch_offset mem) m bs p pub)
    (bases_have_unambiguous_public_base mem bs first info p (path_of pub))"
  using assms
proof (induction bs arbitrary: first info)
  case (Cons B bs)
  obtain b flags where B: "B = Base b flags" by (cases B)
  define info' where "info' = base_has_unambiguous_public_base mem B info p (path_of pub)"
  have 1: "walked info (base_visits (catch_offset mem) m B p pub) info'"
    unfolding info'_def B using Cons.prems B by auto
  have S: "static_type info' = S" using walked_static [OF 1] Cons.prems by simp
  have 2: "walked info' (bases_visits (catch_offset mem) m bs p pub)
    (bases_have_unambiguous_public_base mem bs False info' p (path_of pub))"
    using Cons.IH [OF _ S] Cons.prems by auto
  show ?case
  proof (cases "\<not> first \<and> search_done info'")
    case True
    then show ?thesis using walked_stop [OF 1] by (simp add: Let_def flip: info'_def)
  next
    case False
    then show ?thesis using walked_append [OF 1 2] walked_done [OF 2] by (auto simp: Let_def simp flip: info'_def)
  qed
qed simp

lemma search_walked:
  "static_type info = S \<Longrightarrow> walked info (visits (catch_offset mem) (\<lambda>U. is_equal U S False) T p pub)
    (has_unambiguous_public_base mem T info p (path_of pub))"
proof (induction T arbitrary: info p pub rule: class_induct)
  case (leaf T)
  then show ?case by (cases T) (simp_all add: without_bases_def)
next
  case (Si n b)
  from Si.IH [OF Si.prems, of p pub] Si.prems show ?case by simp
next
  case (Vmi n f bs)
  have "walked i (base_visits (catch_offset mem) (\<lambda>U. is_equal U S False) (Base b flags) p pub)
      (base_has_unambiguous_public_base mem (Base b flags) i p (path_of pub))"
    if "Base b flags \<in> set bs" "static_type i = S" for b flags i
    using Vmi.IH [OF that, where p = "p + catch_offset mem p flags" and pub = "pub \<and> flags AND public_mask \<noteq> 0"]
    by (simp add: catch_offset_def [of mem p])
  from bases_walked [OF this Vmi.prems, where first = True] Vmi.prems show ?case by simp
qed

section \<open>What a walk finds\<close>

lemma found_step_simps:
  "dst_ptr_leading_to_static_ptr info = 0 \<Longrightarrow> found_step info (U, q, pub) =
     info\<lparr>dst_ptr_leading_to_static_ptr := q, path_dst_ptr_to_static_ptr := path_of pub, number_to_static_ptr := 1\<rparr>"
  "dst_ptr_leading_to_static_ptr info = q \<Longrightarrow> q \<noteq> 0 \<Longrightarrow> found_step info (U, q, pub) =
     (if path_dst_ptr_to_static_ptr info = not_public_path then info\<lparr>path_dst_ptr_to_static_ptr := path_of pub\<rparr> else info)"
  "dst_ptr_leading_to_static_ptr info \<noteq> 0 \<Longrightarrow> dst_ptr_leading_to_static_ptr info \<noteq> q \<Longrightarrow> found_step info (U, q, pub) =
     info\<lparr>number_to_static_ptr := number_to_static_ptr info + 1, path_dst_ptr_to_static_ptr := not_public_path,
       search_done := True\<rparr>"
  by (simp_all add: found_step_def process_found_base_class_def)

lemma found_step_public:
  assumes "path_dst_ptr_to_static_ptr (found_step i (U, q, pub)) = public_path"
    and "\<not> (path_dst_ptr_to_static_ptr i = public_path \<and>
      dst_ptr_leading_to_static_ptr (found_step i (U, q, pub)) = dst_ptr_leading_to_static_ptr i)"
  shows "pub \<and> dst_ptr_leading_to_static_ptr (found_step i (U, q, pub)) = q"
proof (cases "dst_ptr_leading_to_static_ptr i = 0")
  case True
  then show ?thesis using assms(1) found_step_simps(1) [OF True, of U q pub] by simp
next
  case False
  show ?thesis
  proof (cases "dst_ptr_leading_to_static_ptr i = q")
    case True
    with False have "q \<noteq> 0" by simp
    from assms found_step_simps(2) [OF True this, of U pub] True show ?thesis
      by (cases "path_dst_ptr_to_static_ptr i = not_public_path") simp_all
  next
    case ne: False
    then show ?thesis using assms(1) found_step_simps(3) [OF False ne, of U pub] by simp
  qed
qed

text \<open>Every public result was reached by a public path.\<close>

lemma found_public:
  assumes "path_dst_ptr_to_static_ptr (foldl found_step info vs) = public_path" "path_dst_ptr_to_static_ptr info \<noteq> public_path"
    and "dst_ptr_leading_to_static_ptr info = 0"
  shows "\<exists>U. (U, dst_ptr_leading_to_static_ptr (foldl found_step info vs), True) \<in> set vs"
  using assms(1)
proof (induction vs rule: rev_induct)
  case Nil then show ?case using assms(2) by simp
next
  case (snoc v vs)
  obtain U q pub where v: "v = (U, q, pub)" by (cases v)
  define i where "i = foldl found_step info vs"
  show ?case
  proof (cases "path_dst_ptr_to_static_ptr i = public_path \<and> dst_ptr_leading_to_static_ptr (found_step i v) = dst_ptr_leading_to_static_ptr i")
    case True
    then show ?thesis using snoc.IH by (auto simp: i_def)
  next
    case False
    have "path_dst_ptr_to_static_ptr (found_step i v) = public_path" using snoc.prems by (simp add: i_def)
    then have "pub \<and> dst_ptr_leading_to_static_ptr (found_step i v) = q" using found_step_public [of i U q pub] False unfolding v by blast
    then show ?thesis by (auto simp: v i_def)
  qed
qed

text \<open>When all visits are to one subobject, the walk does not stop early and records the most public path.\<close>

lemma found_same:
  assumes "\<forall>(U, r, pub)\<in>set vs. r = q" "q \<noteq> 0" "dst_ptr_leading_to_static_ptr info = 0" "\<not> search_done info" "vs \<noteq> []"
  shows "\<not> search_done (foldl found_step info vs) \<and> dst_ptr_leading_to_static_ptr (foldl found_step info vs) = q \<and>
    path_dst_ptr_to_static_ptr (foldl found_step info vs) = path_of (\<exists>U. (U, q, True) \<in> set vs)"
  using assms(1,5)
proof (induction vs rule: rev_induct)
  case (snoc v vs)
  obtain U pub where v: "v = (U, q, pub)" using snoc.prems by (cases v) auto
  show ?case
  proof (cases "vs = []")
    case True
    then show ?thesis using assms by (auto simp: v found_step_simps)
  next
    case False
    then have "\<not> search_done (foldl found_step info vs) \<and> dst_ptr_leading_to_static_ptr (foldl found_step info vs) = q \<and>
      path_dst_ptr_to_static_ptr (foldl found_step info vs) = path_of (\<exists>U. (U, q, True) \<in> set vs)"
      using snoc by simp
    then show ?thesis using assms(2) by (auto simp: v found_step_simps path_of_def)
  qed
qed simp

text \<open>When no subobject is visited twice, two visits make the result ambiguous for good.\<close>

lemma found_distinct:
  assumes "distinct (map (fst \<circ> snd) vs)" "0 \<notin> set (map (fst \<circ> snd) vs)" "dst_ptr_leading_to_static_ptr info = 0"
    and "\<not> search_done info" "vs \<noteq> []"
  shows "dst_ptr_leading_to_static_ptr (foldl found_step info vs) = fst (snd (hd vs)) \<and>
    (search_done (foldl found_step info vs) = (2 \<le> length vs)) \<and>
    (2 \<le> length vs \<longrightarrow> path_dst_ptr_to_static_ptr (foldl found_step info vs) = not_public_path)"
  using assms(1,2,5)
proof (induction vs rule: rev_induct)
  case (snoc v vs)
  obtain U q pub where v: "v = (U, q, pub)" by (cases v)
  show ?case
  proof (cases "vs = []")
    case True
    then show ?thesis using assms by (auto simp: v found_step_simps)
  next
    case False
    define i where "i = foldl found_step info vs"
    have i: "dst_ptr_leading_to_static_ptr i = fst (snd (hd vs))" using snoc False by (simp add: i_def)
    have "fst (snd (hd vs)) \<in> set (map (fst \<circ> snd) vs)" using imageI [OF hd_in_set [OF False], of "fst \<circ> snd"] by simp
    moreover have "0 \<notin> set (map (fst \<circ> snd) vs)" "q \<notin> set (map (fst \<circ> snd) vs)" using snoc.prems by (simp_all add: v)
    ultimately have "fst (snd (hd vs)) \<noteq> q" "fst (snd (hd vs)) \<noteq> 0" by metis+
    then show ?thesis using i False by (auto simp: v found_step_simps Suc_le_eq simp flip: i_def)
  qed
qed simp

section \<open>Unambiguous public bases\<close>

text \<open>The paths from the object to base class subobjects of the class \<open>S\<close>: their addresses, and which paths are public.\<close>

definition base_subobjects :: "memory \<Rightarrow> type_info \<Rightarrow> type_info \<Rightarrow> u64 \<Rightarrow> (u64 \<times> bool) list" where
  "base_subobjects mem S T p = map snd (filter (\<lambda>v. fst v = S) (paths (catch_offset mem) T p True))"

definition unambiguous_public_base :: "memory \<Rightarrow> type_info \<Rightarrow> type_info \<Rightarrow> u64 \<Rightarrow> u64 option" where
  "unambiguous_public_base mem S T p =
     (let bs = base_subobjects mem S T p in
      case remdups (map fst bs) of [q] \<Rightarrow> if (q, True) \<in> set bs then Some q else None | _ \<Rightarrow> None)"

text \<open>Type informations with the name of \<open>S\<close> are \<open>S\<close>, and no subobject of that class is at address 0.\<close>

definition proper_bases :: "memory \<Rightarrow> type_info \<Rightarrow> type_info \<Rightarrow> u64 \<Rightarrow> bool" where
  "proper_bases mem S T p \<longleftrightarrow> is_class S \<and>
     list_all (\<lambda>(U, q, pub). (type_info_eq U S \<longrightarrow> U = S) \<and> (U = S \<longrightarrow> q \<noteq> 0)) (paths (catch_offset mem) T p True)"

text \<open>No class is both a repeated base and reached by several paths.\<close>

definition not_repeated_and_shared :: "memory \<Rightarrow> type_info \<Rightarrow> type_info \<Rightarrow> u64 \<Rightarrow> bool" where
  "not_repeated_and_shared mem S T p \<longleftrightarrow>
     (let as = map fst (base_subobjects mem S T p) in distinct as \<or> length (remdups as) \<le> 1)"

lemma remdups_single: "remdups xs = [q] \<longleftrightarrow> set xs = {q}"
proof
  assume "set xs = {q}"
  then have "set (remdups xs) = {q}" "distinct (remdups xs)" by simp_all
  then show "remdups xs = [q]"
    by (metis distinct_singleton distinct_remdups card_1_singletonE distinct_card length_Suc_conv length_0_conv is_singletonI is_singleton_altdef list.set(1) list.set(2) singleton_insert_inj_eq set_empty One_nat_def)
qed (metis list.set(1) list.set(2) set_remdups)

lemma subobject_visits:
  assumes "proper_bases mem S T p"
  shows "map snd (visits (catch_offset mem) (\<lambda>U. is_equal U S False) T p True) = base_subobjects mem S T p"
proof -
  have "visits (catch_offset mem) (\<lambda>U. is_equal U S False) T p True =
    filter (\<lambda>v. is_equal (fst v) S False) (paths (catch_offset mem) T p True)"
    by (rule visits_filter [where S = S]) (use assms in \<open>auto simp: proper_bases_def list_all_iff is_equal_def\<close>)
  also have "\<dots> = filter (\<lambda>v. fst v = S) (paths (catch_offset mem) T p True)"
    using assms by (intro filter_cong) (auto simp: proper_bases_def list_all_iff is_equal_def type_info_eq_def)
  finally show ?thesis by (simp add: base_subobjects_def)
qed

lemma unambiguous_public_base_cases:
  "unambiguous_public_base mem S T p = Some q \<longleftrightarrow>
     fst ` set (base_subobjects mem S T p) = {q} \<and> (q, True) \<in> set (base_subobjects mem S T p)"
proof -
  have "(case xs of [q] \<Rightarrow> if (q, True) \<in> B then Some q else None | _ \<Rightarrow> None) = Some q \<longleftrightarrow> xs = [q] \<and> (q, True) \<in> B"
    for xs :: "u64 list" and B
    by (auto split: list.splits)
  then show ?thesis by (simp add: unambiguous_public_base_def Let_def remdups_single)
qed

abbreviation catch_info :: "type_info \<Rightarrow> type_info \<Rightarrow> dynamic_cast_info" where
  "catch_info S T \<equiv> (new_info T 0 S (-1))\<lparr>number_of_dst_type := 1\<rparr>"

lemma catch_info_simps: "static_type (catch_info S T) = S" "dst_ptr_leading_to_static_ptr (catch_info S T) = 0"
  "path_dst_ptr_to_static_ptr (catch_info S T) = unknown" "\<not> search_done (catch_info S T)"
  by (simp_all add: new_info_def)

lemma subseq_distinct: "subseq xs ys \<Longrightarrow> distinct ys \<Longrightarrow> distinct xs"
  by (induction rule: list_emb.induct) (auto dest: list_emb_set)

lemma public_base_found:
  assumes proper: "proper_bases mem S T p" and single: "not_repeated_and_shared mem S T p"
    and info: "info = has_unambiguous_public_base mem T (catch_info S T) p public_path"
  shows "unambiguous_public_base mem S T p =
    (if path_dst_ptr_to_static_ptr info = public_path then Some (dst_ptr_leading_to_static_ptr info) else None)"
proof -
  define vs where "vs = visits (catch_offset mem) (\<lambda>U. is_equal U S False) T p True"
  have bs: "base_subobjects mem S T p = map snd vs" using subobject_visits [OF proper] by (simp add: vs_def)
  have "walked (catch_info S T) vs info"
    using search_walked [OF catch_info_simps(1) [of T S], where mem = mem and T = T and p = p and pub = True] unfolding info vs_def by simp
  then obtain ws where ws: "subseq ws vs" "info = foldl found_step (catch_info S T) ws" "ws = vs \<or> search_done info"
    unfolding walked_def by blast
  have nonzero: "q \<noteq> 0" if "(U, q, pub) \<in> set vs" for U q pub
  proof -
    have "(q, pub) \<in> set (base_subobjects mem S T p)" using that unfolding bs by force
    then show ?thesis using proper by (auto simp: base_subobjects_def proper_bases_def list_all_iff)
  qed
  have sub: "set ws \<subseteq> set vs" using ws(1) by (auto dest: list_emb_set)
  show ?thesis
  proof (cases "length (remdups (map fst (map snd vs))) \<le> 1")
    case True
    show ?thesis
    proof (cases "vs = []")
      case True
      then have "ws = []" using ws(1) by simp
      then show ?thesis using True ws(2) catch_info_simps [of T S] by (simp add: unambiguous_public_base_def bs)
    next
      case False
      have "remdups (map fst (map snd vs)) \<noteq> []" using False by simp
      then obtain q where "remdups (map fst (map snd vs)) = [q]"
        using True by (cases "remdups (map fst (map snd vs))") (simp_all only: list.size le_zero_eq, simp_all)
      then have q: "fst ` snd ` set vs = {q}" unfolding remdups_single by (simp add: image_image)
      have "ws \<noteq> []" using ws False catch_info_simps [of T S] by auto
      have at_q: "fst (snd v) = q" if "v \<in> set vs" for v
        using imageI [OF imageI [OF that, of snd], of fst] unfolding q by simp
      then have "\<forall>(U, r, pub)\<in>set ws. r = q" using sub by fastforce
      moreover have "q \<noteq> 0" using nonzero [of "fst (hd vs)" q "snd (snd (hd vs))"] at_q [of "hd vs"] False
        by (cases "hd vs") (metis fst_conv hd_in_set snd_conv)
      moreover note \<open>ws \<noteq> []\<close>
      ultimately have f: "\<not> search_done info" "dst_ptr_leading_to_static_ptr info = q"
        "path_dst_ptr_to_static_ptr info = path_of (\<exists>U. (U, q, True) \<in> set ws)"
        using found_same [of ws q "catch_info S T"] catch_info_simps [of T S] ws(2) by blast+
      then have "ws = vs" using ws(3) by simp
      moreover have "unambiguous_public_base mem S T p = (if \<exists>U. (U, q, True) \<in> set vs then Some q else None)"
      proof -
        have "unambiguous_public_base mem S T p = Some r \<longleftrightarrow> r = q \<and> (\<exists>U. (U, q, True) \<in> set vs)" for r
          using q by (force simp: unambiguous_public_base_cases bs image_image)
        then show ?thesis by (cases "unambiguous_public_base mem S T p") auto
      qed
      ultimately show ?thesis using f by simp
    qed
  next
    case False
    then have d: "distinct (map (fst \<circ> snd) vs)"
      using single by (auto simp: not_repeated_and_shared_def bs Let_def comp_def)
    have "distinct (map (fst \<circ> snd) ws)" using d ws(1) subseq_map [of ws vs "fst \<circ> snd"] by (meson subseq_distinct)
    moreover have "0 \<notin> set (map (fst \<circ> snd) ws)" using sub nonzero by force
    moreover have "2 \<le> length vs" using False d by (simp add: distinct_remdups_id comp_def)
    ultimately have "path_dst_ptr_to_static_ptr info = not_public_path"
      using found_distinct [of ws "catch_info S T"] catch_info_simps [of T S] ws(2,3)
      by (cases "ws = []") auto
    moreover have "unambiguous_public_base mem S T p = None"
    proof (cases "unambiguous_public_base mem S T p")
      case (Some q)
      then have "remdups (map fst (map snd vs)) = [q]" by (simp add: unambiguous_public_base_cases bs remdups_single image_image)
      then show ?thesis using False by simp
    qed
    ultimately show ?thesis by simp
  qed
qed

lemma base_subobjects_self: "base_subobjects mem S S p = [(p, True)]"
proof -
  have "\<exists>vs. paths (catch_offset mem) S p True = (S, p, True) # vs \<and> (\<forall>v\<in>set vs. fst v \<noteq> S)"
  proof (cases S)
    case (SiClass n b)
    have "U \<noteq> SiClass n b" if "(U, q, r) \<in> set (paths (catch_offset mem) b p True)" for U q r
      using paths_size [OF that] by auto
    then show ?thesis using SiClass by auto
  next
    case (VmiClass n f bs)
    have "U \<noteq> VmiClass n f bs" if "(U, q, r) \<in> set (bases_paths (catch_offset mem) bs p True)" for U q r
      using bases_size [OF that, of n f] by auto
    then show ?thesis using VmiClass by auto
  qed simp_all
  then show ?thesis by (auto simp: base_subobjects_def filter_empty_conv)
qed

lemma class_catch:
  assumes "proper_bases mem S T p" "not_repeated_and_shared mem S T p"
  shows "class_can_catch mem S T p = (case unambiguous_public_base mem S T p of Some q \<Rightarrow> (True, q) | None \<Rightarrow> (False, p))"
proof (cases "is_equal S T False")
  case True
  have "type_info_eq T S \<longrightarrow> T = S"
    using assms(1) paths_self [of T p True "catch_offset mem"] unfolding proper_bases_def list_all_iff by blast
  then have "T = S" using True by (simp add: is_equal_def type_info_eq_def)
  moreover have "unambiguous_public_base mem S S p = Some p"
    by (simp add: unambiguous_public_base_cases base_subobjects_self)
  ultimately show ?thesis by (simp add: class_can_catch_def is_equal_def type_info_eq_def)
next
  case ne: False
  show ?thesis
  proof (cases "is_class T")
    case True
    then show ?thesis using ne public_base_found [OF assms refl] by (simp add: class_can_catch_def Let_def)
  next
    case False
    have "S \<noteq> T" using ne by (auto simp: is_equal_def type_info_eq_def)
    moreover have "paths (catch_offset mem) T p True = [(T, p, True)]" using False by (cases T) simp_all
    ultimately have "unambiguous_public_base mem S T p = None"
      by (simp add: unambiguous_public_base_def base_subobjects_def)
    then show ?thesis using ne False by (simp add: class_can_catch_def)
  qed
qed

text \<open>Whatever the hierarchy, only a public base is caught.\<close>

lemma class_catch_public:
  assumes "proper_bases mem S T p" "class_can_catch mem S T p = (True, q)"
  shows "(q, True) \<in> set (base_subobjects mem S T p)"
proof (cases "is_equal S T False")
  case True
  have "type_info_eq T S \<longrightarrow> T = S"
    using assms(1) paths_self [of T p True "catch_offset mem"] unfolding proper_bases_def list_all_iff by blast
  then have "T = S" using True by (simp add: is_equal_def type_info_eq_def)
  then show ?thesis using assms(2) True by (simp add: class_can_catch_def base_subobjects_self)
next
  case ne: False
  define info where "info = has_unambiguous_public_base mem T (catch_info S T) p public_path"
  have found: "path_dst_ptr_to_static_ptr info = public_path" "q = dst_ptr_leading_to_static_ptr info"
    using assms(2) ne by (auto simp: class_can_catch_def Let_def info_def split: if_splits)
  define vs where "vs = visits (catch_offset mem) (\<lambda>U. is_equal U S False) T p True"
  have "walked (catch_info S T) vs info"
    using search_walked [OF catch_info_simps(1) [of T S], where mem = mem and T = T and p = p and pub = True] unfolding info_def vs_def by simp
  then obtain ws where ws: "subseq ws vs" "info = foldl found_step (catch_info S T) ws" unfolding walked_def by blast
  then obtain U where "(U, q, True) \<in> set ws"
    using found_public [of "catch_info S T" ws] catch_info_simps [of T S] found by auto
  then have "(U, q, True) \<in> set vs" using ws(1) by (auto dest: list_emb_set)
  moreover have "base_subobjects mem S T p = map snd vs" using subobject_visits [OF assms(1)] by (simp add: vs_def)
  ultimately show ?thesis by force
qed

lemma class_catch_miss: "class_can_catch mem S T p = (False, q) \<Longrightarrow> q = p"
  by (auto simp: class_can_catch_def Let_def split: if_splits)

text \<open>C19. When the class of a handler is the class of the object or an unambiguous public base of it, the object is caught
  and the handler gets the address of that subobject. All other objects are not caught, except possibly objects
  in which the class is a repeated base and also reached by several paths to one subobject: where such an ambiguous
  base is caught, the handler gets a subobject to which a public path leads. Classes have different names, and no
  subobject is at address 0.\<close>

theorem class_can_catch_exact:
  assumes "proper_bases mem S T p"
  shows "case unambiguous_public_base mem S T p of
      Some q \<Rightarrow> can_catch env mem S T p = (True, q)
    | None \<Rightarrow> can_catch env mem S T p = (False, p) \<or>
        \<not> not_repeated_and_shared mem S T p \<and>
        (\<exists>q. can_catch env mem S T p = (True, q) \<and> (q, True) \<in> set (base_subobjects mem S T p))"
proof -
  have "is_class S" using assms by (simp add: proper_bases_def)
  then have catch: "can_catch env mem S T p = class_can_catch mem S T p" by (cases S) simp_all
  show ?thesis
  proof (cases "not_repeated_and_shared mem S T p")
    case True
    then show ?thesis unfolding catch using class_catch [OF assms True] by (simp split: option.splits)
  next
    case False
    have "unambiguous_public_base mem S T p = None"
    proof (cases "unambiguous_public_base mem S T p")
      case (Some q)
      then have "remdups (map fst (base_subobjects mem S T p)) = [q]" by (simp add: unambiguous_public_base_cases remdups_single)
      then show ?thesis using False by (simp add: not_repeated_and_shared_def)
    qed
    moreover obtain b q where r: "class_can_catch mem S T p = (b, q)" by (cases "class_can_catch mem S T p")
    ultimately show ?thesis
      using False class_catch_public [OF assms] class_catch_miss unfolding catch by (cases b) auto
  qed
qed

definition sample_memory :: memory where
  "sample_memory a = (if a = 0x2000 then 0x00 else if a = 0x2001 then 0x30 else if a = 0x2FE8 then 0x20 else 0)"

definition sample_base :: type_info where "sample_base = Class (Name 0x10 ''1A'')"
definition sample_left :: type_info where
  "sample_left = VmiClass (Name 0x20 ''1L'') 0 [Base sample_base 0xFFFFFFFFFFFFE803]"
definition sample_object :: type_info where
  "sample_object = VmiClass (Name 0x30 ''1D'') 0 [Base sample_left 0x2, Base (Class (Name 0x40 ''1R'')) 0x802]"

theorem class_can_catch_exact_witness:
  "can_catch \<lparr>nullptr_type = Fundamental (Name 1 ''Dn''), void_type = Fundamental (Name 2 ''v''),
       null_function_member = 0, null_data_member = 0\<rparr> sample_memory sample_base sample_object 0x2000 = (True, 0x2020)"
proof -
  have "proper_bases sample_memory sample_base sample_object 0x2000" by code_simp
  note catch = class_can_catch_exact [OF this]
  have "unambiguous_public_base sample_memory sample_base sample_object 0x2000 = Some 0x2020" by code_simp
  then show ?thesis using catch by simp
qed

section \<open>Qualification conversions\<close>

text \<open>A pointer type as the flags at each level and what is behind the last pointer, and all types on the way.\<close>

fun levels :: "type_info \<Rightarrow> u32 list \<times> type_info" where
  "levels (Pointer n f t) = (f # fst (levels t), snd (levels t))"
| "levels t = ([], t)"

fun chain :: "type_info \<Rightarrow> type_info list" where
  "chain (Pointer n f t) = Pointer n f t # chain t"
| "chain t = [t]"

text \<open>The rule of the language: no level loses a qualifier, and below a level that gains one every level is const.\<close>

definition qualification_conversion :: "u32 list \<Rightarrow> u32 list \<Rightarrow> bool" where
  "qualification_conversion gs fs \<longleftrightarrow> length gs = length fs \<and> (\<forall>i<length fs. gs ! i AND NOT (fs ! i) = 0) \<and>
     (\<forall>i<length fs. gs ! i \<noteq> fs ! i \<longrightarrow> (\<forall>k<i. fs ! k AND const_mask \<noteq> 0))"

lemma qualification_conversion_Cons:
  "qualification_conversion (g # gs) (f # fs) \<longleftrightarrow>
     g AND NOT f = 0 \<and> (gs = fs \<or> f AND const_mask \<noteq> 0 \<and> qualification_conversion gs fs)"
proof -
  have "qualification_conversion (g # gs) (f # fs) \<longleftrightarrow> g AND NOT f = 0 \<and> length gs = length fs \<and>
    (\<forall>i<length fs. gs ! i AND NOT (fs ! i) = 0) \<and>
    (\<forall>i<length fs. gs ! i \<noteq> fs ! i \<longrightarrow> f AND const_mask \<noteq> 0 \<and> (\<forall>k<i. fs ! k AND const_mask \<noteq> 0))"
    unfolding qualification_conversion_def by (auto simp: All_less_Suc2)
  also have "\<dots> \<longleftrightarrow> g AND NOT f = 0 \<and> (gs = fs \<or> f AND const_mask \<noteq> 0 \<and> qualification_conversion gs fs)"
  proof (cases "gs = fs")
    case False
    then have "length gs = length fs \<Longrightarrow> \<exists>i<length fs. gs ! i \<noteq> fs ! i" using nth_equalityI [of gs fs] by metis
    then show ?thesis using False unfolding qualification_conversion_def by blast
  qed simp
  finally show ?thesis .
qed

lemma chain_self [simp]: "T \<in> set (chain T)"
  by (cases T) simp_all

lemma not_mask: "NOT f AND const_mask \<noteq> 0 \<longleftrightarrow> f AND const_mask = (0::u32)"
  unfolding const_mask_def by (simp add: and_one_eq one_and_eq even_not_iff mod_2_eq_odd)

text \<open>The pointee of a caught pointer that is neither \<open>void\<close>, a class, nor a pointer to a member.\<close>

definition plain_pointee :: "rtti_constants \<Rightarrow> type_info \<Rightarrow> bool" where
  "plain_pointee env C \<longleftrightarrow> \<not> is_class (snd (levels C)) \<and> pbase_flags (snd (levels C)) = None \<and>
     list_all (\<lambda>X. \<not> type_info_eq X (void_type env)) (chain C)"

text \<open>Equal names mean equal types.\<close>

definition names_identify :: "type_info \<Rightarrow> type_info \<Rightarrow> bool" where
  "names_identify C T \<longleftrightarrow> list_all (\<lambda>X. list_all (\<lambda>Y. type_info_eq X Y = (levels X = levels Y)) (chain T)) (chain C)"

lemma nested_qualification:
  assumes "pbase_flags (snd (levels C)) = None" "names_identify C T"
  shows "can_catch_nested C T = (fst (levels C) \<noteq> [] \<and>
    qualification_conversion (fst (levels T)) (fst (levels C)) \<and> snd (levels C) = snd (levels T))"
  using assms
proof (induction C arbitrary: T rule: levels.induct)
  case (1 n f t)
  show ?case
  proof (cases T)
    case (Pointer n' g t')
    have names: "\<forall>X\<in>set (chain t). \<forall>Y\<in>set (chain t'). type_info_eq X Y = (levels X = levels Y)"
      using "1.prems"(2) by (simp add: Pointer names_identify_def list_all_iff)
    then have eq: "is_equal t t' False = (levels t = levels t')" "names_identify t t'"
      by (simp_all add: names_identify_def list_all_iff is_equal_def)
    have IH: "can_catch_nested t t' = (fst (levels t) \<noteq> [] \<and>
      qualification_conversion (fst (levels t')) (fst (levels t)) \<and> snd (levels t) = snd (levels t'))"
      by (rule "1.IH") (use "1.prems"(1) eq in simp_all)
    show ?thesis
      using eq(1) by (auto simp: Pointer IH qualification_conversion_Cons not_mask prod_eq_iff)
        (simp_all add: qualification_conversion_def)
  qed (simp_all add: qualification_conversion_def)
qed (simp_all)

lemma small_flags: "(f::u32) < 8 \<Longrightarrow> f AND no_remove_flags_mask = f" "f < 8 \<Longrightarrow> f AND no_add_flags_mask = 0"
  "f < 8 \<Longrightarrow> \<not> incomplete_flags f"
proof -
  assume "f < 8"
  then have "f = 0 \<or> f = 1 \<or> f = 2 \<or> f = 3 \<or> f = 4 \<or> f = 5 \<or> f = 6 \<or> f = 7"
    by (simp add: word_less_nat_alt word_unat_eq_iff) arith
  then show "f AND no_remove_flags_mask = f" "f AND no_add_flags_mask = 0" "\<not> incomplete_flags f"
    by (auto simp: pointer_masks incomplete_flags_def)
qed

text \<open>C20. A handler for a pointer, possibly to pointers, to an object that is not a class catches exactly the pointers of
  which the language allows a qualification conversion to the type of the handler: the pointers have the same depth and
  the same last pointee, no level loses a qualifier, and where the levels differ all levels above are const. The
  handler gets the value of the thrown pointer.\<close>

theorem pointer_can_catch_exact:
  assumes "C = Pointer n f t" "T = Pointer n' g t'"
    and "plain_pointee env C" "names_identify C T" "\<not> type_info_eq T (nullptr_type env)"
    and "list_all (\<lambda>f. f < 8) (fst (levels C) @ fst (levels T))"
  shows "can_catch env mem C T p =
    (qualification_conversion (fst (levels T)) (fst (levels C)) \<and> snd (levels C) = snd (levels T), dereference mem p)"
proof -
  have names: "type_info_eq X Y = (levels X = levels Y)" if "X \<in> set (chain C)" "Y \<in> set (chain T)" for X Y
    using assms(4) that by (simp add: names_identify_def list_all_iff)
  have flags: "f < 8" "g < 8" using assms(1,2,6) by simp_all
  have eq: "is_equal C T False = (levels C = levels T)" "is_equal t t' False = (levels t = levels t')"
    using names [of C T] names [of t t'] assms(1,2) by (simp_all add: is_equal_def)
  have same: "pbase_can_catch f C T = (levels C = levels T)"
    using flags eq by (simp add: pbase_can_catch_def assms(2) small_flags(3) Let_def)
  have not_void: "\<not> is_equal t (void_type env) False"
    using assms(1,3) by (simp add: plain_pointee_def is_equal_def list_all_iff)
  have nested: "pbase_flags t = None \<longleftrightarrow> fst (levels t) = []" "fst (levels t) = [] \<Longrightarrow> \<not> is_class t"
    using assms(1,3) by (cases t; simp add: plain_pointee_def)+
  have nest: "can_catch_nested t t' = (fst (levels t) \<noteq> [] \<and>
      qualification_conversion (fst (levels t')) (fst (levels t)) \<and> snd (levels t) = snd (levels t'))"
    by (rule nested_qualification)
      (use assms(1-4) in \<open>simp_all add: plain_pointee_def names_identify_def list_all_iff\<close>)
  have add: "f AND NOT g AND no_add_flags_mask = 0" "g AND NOT f AND no_remove_flags_mask = g AND NOT f"
    using small_flags(2) [OF flags(1)] small_flags(1) [OF flags(2)]
    by (simp_all add: and.left_commute [of f] and.left_commute [of g] and.commute [of "NOT f" g])
  have "can_catch env mem C T p = (if levels C = levels T then (True, dereference mem p)
      else if g AND NOT f \<noteq> 0 then (False, dereference mem p)
      else if levels t = levels t' then (True, dereference mem p)
      else (f AND const_mask \<noteq> 0 \<and> can_catch_nested t t', dereference mem p))"
    using assms(5) eq same not_void nested nest
    by (simp add: assms(1,2) pointer_can_catch_def is_equal_def add not_mask pointer_to_class_can_catch_def Let_def)
  also have "\<dots> = (qualification_conversion (fst (levels T)) (fst (levels C)) \<and> snd (levels C) = snd (levels T), dereference mem p)"
    by (auto simp: assms(1,2) nest qualification_conversion_Cons prod_eq_iff)
      (simp_all add: qualification_conversion_def)
  finally show ?thesis .
qed

definition sample_constants :: rtti_constants where
  "sample_constants = \<lparr>nullptr_type = Fundamental (Name 1 ''Dn''), void_type = Fundamental (Name 2 ''v''),
     null_function_member = 0, null_data_member = 0\<rparr>"

definition pointer_to_const_pointer :: type_info where
  "pointer_to_const_pointer = Pointer (Name 5 ''PKPKi'') 1 (Pointer (Name 6 ''PKi'') 1 (Fundamental (Name 7 ''i'')))"

definition pointer_to_pointer :: type_info where
  "pointer_to_pointer = Pointer (Name 8 ''PPi'') 0 (Pointer (Name 9 ''Pi'') 0 (Fundamental (Name 7 ''i'')))"

theorem pointer_can_catch_exact_witness:
  "can_catch sample_constants sample_memory pointer_to_const_pointer pointer_to_pointer 0x2FE8 = (True, 0x20)"
proof -
  have "plain_pointee sample_constants pointer_to_const_pointer" by code_simp
  moreover have "names_identify pointer_to_const_pointer pointer_to_pointer" by code_simp
  moreover have "\<not> type_info_eq pointer_to_pointer (nullptr_type sample_constants)" by code_simp
  moreover have "list_all (\<lambda>f. f < 8) (fst (levels pointer_to_const_pointer) @ fst (levels pointer_to_pointer))" by code_simp
  ultimately have "can_catch sample_constants sample_memory pointer_to_const_pointer pointer_to_pointer 0x2FE8 =
    (qualification_conversion (fst (levels pointer_to_pointer)) (fst (levels pointer_to_const_pointer)) \<and>
     snd (levels pointer_to_const_pointer) = snd (levels pointer_to_pointer), dereference sample_memory 0x2FE8)"
    by (rule pointer_can_catch_exact [OF pointer_to_const_pointer_def pointer_to_pointer_def])
  also have "\<dots> = (True, 0x20)"
  proof (rule prod_eqI)
    show "fst (qualification_conversion (fst (levels pointer_to_pointer)) (fst (levels pointer_to_const_pointer)) \<and>
      snd (levels pointer_to_const_pointer) = snd (levels pointer_to_pointer), dereference sample_memory 0x2FE8) = fst (True, 0x20 :: u64)"
      by (simp add: pointer_to_const_pointer_def pointer_to_pointer_def qualification_conversion_Cons const_mask_def)
  qed (simp add: dereference_def; code_simp)
  finally show ?thesis .
qed

section \<open>Where the search is wrong\<close>

text \<open>An object of the class D, whose base X has the class A twice, as a virtual base of B1 and as a base of B2, and whose
  base Y shares the virtual base.\<close>

definition shared_base :: type_info where "shared_base = Class (Name 1 ''1A'')"

definition shared_object :: type_info where
  "shared_object = VmiClass (Name 5 ''1D'') 3
     [Base (VmiClass (Name 6 ''1X'') 1
        [Base (VmiClass (Name 7 ''2B1'') 0 [Base shared_base 0xFFFFFFFFFFFFE803]) 0x2,
         Base (SiClass (Name 8 ''2B2'') shared_base) 0x802]) 0x2,
      Base (VmiClass (Name 9 ''1Y'') 0 [Base shared_base 0xFFFFFFFFFFFFE803]) 0x2002]"

definition shared_memory :: memory where
  "shared_memory a = (if a = 0x1001 then 0x30 else if a = 0x2FE8 then 0x40
     else if a = 0x1021 then 0x40 else if a = 0x3FE8 then 0x20 else 0)"

text \<open>An object with the class A twice, thrown by a pointer.\<close>

definition repeated_object :: type_info where
  "repeated_object = VmiClass (Name 5 ''1D'') 1
     [Base (SiClass (Name 7 ''2B1'') shared_base) 0x2, Base (SiClass (Name 8 ''2B2'') shared_base) 0x802]"

text \<open>Two cases in which an ambiguous base is caught. The walk over the bases looks at \<open>search_done\<close> only after the
  second base, so a visit to the first subobject again makes the path public after the ambiguity was found; and for a
  null pointer all subobjects are at address 0, which the search takes for not found yet, so that the pointer of which
  a copy with any other value is not caught is caught.\<close>

lemma ambiguous_base_caught:
  "base_subobjects shared_memory shared_base shared_object 0x1000 = [(0x1040, True), (0x1008, True), (0x1040, True)] \<and>
   can_catch sample_constants shared_memory shared_base shared_object 0x1000 = (True, 0x1040) \<and>
   can_catch sample_constants (\<lambda>a. 0) (Pointer (Name 10 ''P1A'') 0 shared_base) (Pointer (Name 11 ''P1D'') 0 repeated_object) 0x500
     = (True, 0) \<and>
   can_catch sample_constants (\<lambda>a. 8) (Pointer (Name 10 ''P1A'') 0 shared_base) (Pointer (Name 11 ''P1D'') 0 repeated_object) 0x500
     = (False, 0x808080808080808)"
  by (intro conjI) code_simp+

text \<open>Behind a pointer, a pointer to a function can gain \<open>noexcept\<close>: the nested test only looks for flags that are lost.\<close>

lemma noexcept_gained:
  "can_catch sample_constants (\<lambda>a. 0) (Pointer (Name 10 ''PKPDoFvvE'') 1 (Pointer (Name 11 ''PDoFvvE'') 0x40 (Function (Name 12 ''FvvE''))))
     (Pointer (Name 13 ''PPFvvE'') 0 (Pointer (Name 14 ''PFvvE'') 0 (Function (Name 12 ''FvvE'')))) 0x500 = (True, 0) \<and>
   can_catch sample_constants (\<lambda>a. 0) (Pointer (Name 11 ''PDoFvvE'') 0x40 (Function (Name 12 ''FvvE'')))
     (Pointer (Name 14 ''PFvvE'') 0 (Function (Name 12 ''FvvE''))) 0x500 = (False, 0)"
  by (intro conjI) code_simp+

end
