(* ===== verification/SearchAbove.thy ===== *)
theory SearchAbove
  imports BaseGraph
begin

unbundle bit_operations_syntax

text \<open>
  The search above a subobject of the destination type, compared with a walk over all visits: an early end leaves out
  only visits that change nothing, when the flags of the classes are honest.
\<close>

section \<open>What the searches rely on\<close>

text \<open>The flags of a class describe its base classes: without the diamond flag there is one path to each base subobject,
  without the repeat flag all base subobjects of a type are one.\<close>

fun honest_flags :: "(u64 \<Rightarrow> u64 \<Rightarrow> u64) \<Rightarrow> type_info \<Rightarrow> u64 \<Rightarrow> bool" where
  "honest_flags off (VmiClass n f bs) p =
     ((f AND diamond_shaped_mask = 0 \<longrightarrow> distinct (map (\<lambda>(U, q, pub). (U, q)) (bases_paths off bs p True))) \<and>
      (f AND non_diamond_repeat_mask = 0 \<longrightarrow>
        list_all (\<lambda>(U, q, pub). list_all (\<lambda>(U', q', pub'). U = U' \<longrightarrow> q = q') (bases_paths off bs p True)) (bases_paths off bs p True)))"
| "honest_flags off T p = True"

definition honest :: "(u64 \<Rightarrow> u64 \<Rightarrow> u64) \<Rightarrow> type_info \<Rightarrow> u64 \<Rightarrow> bool" where
  "honest off T p = list_all (\<lambda>(U, q, pub). honest_flags off U q) (paths off T p True)"

lemma honest_simps:
  "honest off (SiClass n b) p = honest off b p"
  "honest off (VmiClass n f bs) p = (honest_flags off (VmiClass n f bs) p \<and>
     (\<forall>b flags. Base b flags \<in> set bs \<longrightarrow> honest off b (p + off p flags)))"
proof -
  have "honest off b p = (\<forall>U q r. (U, q, r) \<in> set (paths off b p pub) \<longrightarrow> honest_flags off U q)" for b p pub
    unfolding honest_def list_all_iff using in_paths_pub [of _ _ _ off b p pub] by auto blast
  then have "honest off b (p + off p flags) = (\<forall>U q r. (U, q, r) \<in> set (base_paths off (Base b flags) p True) \<longrightarrow> honest_flags off U q)"
    for b flags by simp
  then have "(\<forall>U q r. (U, q, r) \<in> set (bases_paths off bs p True) \<longrightarrow> honest_flags off U q) =
    (\<forall>b flags. Base b flags \<in> set bs \<longrightarrow> honest off b (p + off p flags))"
    unfolding in_bases_paths by blast
  then show "honest off (VmiClass n f bs) p = (honest_flags off (VmiClass n f bs) p \<and>
     (\<forall>b flags. Base b flags \<in> set bs \<longrightarrow> honest off b (p + off p flags)))"
    unfolding honest_def [of off "VmiClass n f bs"] list_all_iff by auto
qed (simp add: honest_def)

section \<open>Above the destination type\<close>

abbreviation static_at :: "bool \<Rightarrow> dynamic_cast_info \<Rightarrow> type_info \<Rightarrow> bool" where
  "static_at use_strcmp info \<equiv> \<lambda>U. is_equal U (static_type info) use_strcmp"

definition above_step :: "u64 \<Rightarrow> dynamic_cast_info \<Rightarrow> subobject \<Rightarrow> dynamic_cast_info" where
  "above_step dst_ptr info = (\<lambda>(U, q, pub). process_static_type_above_dst info dst_ptr q (path_of pub))"

lemma above_step_other: "q \<noteq> static_ptr info \<Longrightarrow> above_step d info (U, q, pub) = info\<lparr>found_any_static_type := True\<rparr>"
  by (simp add: above_step_def process_static_type_above_dst_def)

lemma above_step_frame [simp]:
  "static_type (above_step d info v) = static_type info" "static_ptr (above_step d info v) = static_ptr info"
  "dst_type (above_step d info v) = dst_type info" "number_of_dst_type (above_step d info v) = number_of_dst_type info"
  "found_any_static_type (above_step d info v)"
  "found_our_static_ptr (above_step d info v) = (found_our_static_ptr info \<or> fst (snd v) = static_ptr info)"
  by (auto simp: above_step_def process_static_type_above_dst_def Let_def split: prod.splits)


text \<open>Visits that change nothing.\<close>

lemma above_idle:
  assumes "found_any_static_type info" "\<forall>v\<in>set vs. fst (snd v) \<noteq> static_ptr info"
  shows "foldl (above_step d) info vs = info"
  using assms(2)
proof (induction vs)
  case (Cons v vs)
  obtain U q pub where "v = (U, q, pub)" by (cases v)
  then have "above_step d info v = info" using Cons.prems assms(1) by (simp add: above_step_other)
  then show ?case using Cons by simp
qed simp

lemma above_settled:
  assumes "found_any_static_type info" "found_our_static_ptr info" "dst_ptr_leading_to_static_ptr info = d" "d \<noteq> 0"
    and "path_dst_ptr_to_static_ptr info = public_path" "number_of_dst_type info \<noteq> 1"
  shows "foldl (above_step d) info vs = info"
proof (induction vs)
  case (Cons v vs)
  obtain U q pub where "v = (U, q, pub)" by (cases v)
  then have "above_step d info v = info"
    using assms by (simp add: above_step_def process_static_type_above_dst_def Let_def)
  then show ?case using Cons by simp
qed simp

text \<open>The walk over all visits does not look at the found flags.\<close>

lemma above_step_clear:
  "above_step d (info\<lparr>found_our_static_ptr := x, found_any_static_type := y\<rparr>) v =
     (above_step d info v)\<lparr>found_our_static_ptr := x \<or> fst (snd v) = static_ptr info, found_any_static_type := True\<rparr>"
  by (auto simp: above_step_def process_static_type_above_dst_def Let_def split: prod.splits)

lemma above_steps_frame [simp]:
  "static_type (foldl (above_step d) info vs) = static_type info"
  "static_ptr (foldl (above_step d) info vs) = static_ptr info"
  "dst_type (foldl (above_step d) info vs) = dst_type info"
  "number_of_dst_type (foldl (above_step d) info vs) = number_of_dst_type info"
  "found_any_static_type (foldl (above_step d) info vs) = (found_any_static_type info \<or> vs \<noteq> [])"
  "found_our_static_ptr (foldl (above_step d) info vs) = (found_our_static_ptr info \<or> (\<exists>v\<in>set vs. fst (snd v) = static_ptr info))"
  by (induction vs arbitrary: info) auto

lemma above_steps_flags:
  "foldl (above_step d) (info\<lparr>found_our_static_ptr := x, found_any_static_type := y\<rparr>) vs =
     (foldl (above_step d) info vs)\<lparr>found_our_static_ptr := x \<or> (\<exists>v\<in>set vs. fst (snd v) = static_ptr info),
       found_any_static_type := y \<or> vs \<noteq> []\<rparr>"
proof (induction vs arbitrary: info x y)
  case (Cons v vs)
  show ?case by (simp add: above_step_clear Cons.IH disj_assoc)
qed simp

lemma above_step_done: "search_done info \<Longrightarrow> search_done (above_step d info v)"
  by (auto simp: above_step_def process_static_type_above_dst_def Let_def split: prod.splits)

lemma above_steps_done: "search_done info \<Longrightarrow> search_done (foldl (above_step d) info vs)"
  by (induction vs arbitrary: info) (simp_all add: above_step_done)

lemma above_step_leads:
  "\<not> search_done (above_step d info v) \<Longrightarrow> fst (snd v) = static_ptr info \<Longrightarrow>
    dst_ptr_leading_to_static_ptr (above_step d info v) = d \<and>
    (number_of_dst_type info = 1 \<longrightarrow> path_dst_ptr_to_static_ptr (above_step d info v) \<noteq> public_path)"
  by (auto simp: above_step_def process_static_type_above_dst_def Let_def split: prod.splits if_splits)

lemma above_steps_leads:
  assumes "\<not> search_done (foldl (above_step d) info vs)" "\<exists>v\<in>set vs. fst (snd v) = static_ptr info"
  shows "dst_ptr_leading_to_static_ptr (foldl (above_step d) info vs) = d \<and>
    (number_of_dst_type info = 1 \<longrightarrow> path_dst_ptr_to_static_ptr (foldl (above_step d) info vs) \<noteq> public_path)"
  using assms
proof (induction vs rule: rev_induct)
  case (snoc v vs)
  define i where "i = foldl (above_step d) info vs"
  have "\<not> search_done i" using snoc.prems(1) above_step_done [of i d v] by (auto simp: i_def)
  show ?case
  proof (cases "fst (snd v) = static_ptr info")
    case True
    then show ?thesis using snoc.prems(1) above_step_leads [of d i v] by (simp add: i_def)
  next
    case False
    then have "above_step d i v = i\<lparr>found_any_static_type := True\<rparr>"
      by (cases v) (simp add: above_step_other i_def)
    then show ?thesis using snoc False \<open>\<not> search_done i\<close> by (simp add: i_def)
  qed
qed simp

section \<open>The search above is a walk over the visits\<close>

text \<open>The result of a search is the one of the walk over all visits, or the search is done, after some of them.\<close>

definition walked_above :: "u64 \<Rightarrow> dynamic_cast_info \<Rightarrow> subobject list \<Rightarrow> dynamic_cast_info \<Rightarrow> bool" where
  "walked_above d info vs info' \<longleftrightarrow>
     (if search_done info' then \<exists>ws. set ws \<subseteq> set vs \<and> clear_found info' = clear_found (foldl (above_step d) info ws)
      else info' = foldl (above_step d) info vs)"

abbreviation with_found :: "bool \<Rightarrow> bool \<Rightarrow> dynamic_cast_info \<Rightarrow> dynamic_cast_info" where
  "with_found our any info \<equiv> info\<lparr>found_our_static_ptr := our, found_any_static_type := any\<rparr>"

lemma clear_above_steps: "clear_found (foldl (above_step d) (with_found x y info) ws) = clear_found (foldl (above_step d) info ws)"
  by (simp add: above_steps_flags)

lemma with_found_again [simp]: "with_found x y (with_found x' y' info) = with_found x y info"
  by simp

text \<open>The state between two bases: \<open>vs\<close> are the visits so far, \<open>our\<close> and \<open>any\<close> the flags that are kept for the end.\<close>

definition between_bases :: "u64 \<Rightarrow> subobject list \<Rightarrow> bool \<Rightarrow> bool \<Rightarrow> dynamic_cast_info \<Rightarrow> bool" where
  "between_bases d vs our any info \<longleftrightarrow>
     (found_any_static_type info \<longrightarrow> any \<and> (\<exists>v\<in>set vs. fst (snd v) = static_ptr info \<longleftrightarrow> found_our_static_ptr info)) \<and>
     (found_our_static_ptr info \<longrightarrow> found_any_static_type info \<and> our \<and> dst_ptr_leading_to_static_ptr info = d \<and>
        (number_of_dst_type info = 1 \<longrightarrow> path_dst_ptr_to_static_ptr info \<noteq> public_path))"

lemma stop_above_idle:
  assumes between: "between_bases d vs our any info" and stop: "stop_above flags info" "\<not> search_done info"
    and diamond: "flags AND diamond_shaped_mask = 0 \<longrightarrow> distinct (map (\<lambda>(U, q, pub). (U, q)) (vs @ us))"
    and repeat: "flags AND non_diamond_repeat_mask = 0 \<longrightarrow> (\<forall>v\<in>set (vs @ us). \<forall>w\<in>set (vs @ us). fst (snd v) = fst (snd w))"
    and types: "\<forall>v\<in>set (vs @ us). fst v = S" and "d \<noteq> 0"
  shows "foldl (above_step d) (with_found our any info) us = with_found our any info"
proof (cases "found_our_static_ptr info \<and> path_dst_ptr_to_static_ptr info = public_path")
  case True
  with between have "our" "any" "dst_ptr_leading_to_static_ptr info = d" "number_of_dst_type info \<noteq> 1"
    unfolding between_bases_def by blast+
  show ?thesis
  proof (rule above_settled)
    show "found_any_static_type (with_found our any info)" using \<open>any\<close> by simp
    show "found_our_static_ptr (with_found our any info)" using \<open>our\<close> by simp
    show "dst_ptr_leading_to_static_ptr (with_found our any info) = d" using \<open>dst_ptr_leading_to_static_ptr info = d\<close> by simp
    show "path_dst_ptr_to_static_ptr (with_found our any info) = public_path" using True by simp
    show "number_of_dst_type (with_found our any info) \<noteq> 1" using \<open>number_of_dst_type info \<noteq> 1\<close> by simp
  qed (rule \<open>d \<noteq> 0\<close>)
next
  case False
  have any: "found_any_static_type info" "any" using between stop by (auto simp: between_bases_def stop_above_def split: if_splits)
  then obtain v where v: "v \<in> set vs" "fst (snd v) = static_ptr info \<longleftrightarrow> found_our_static_ptr info"
    using between by (auto simp: between_bases_def)
  have "fst (snd w) \<noteq> static_ptr info" if w: "w \<in> set us" for w
  proof (cases "found_our_static_ptr info")
    case True
    then have "distinct (map (\<lambda>(U, q, pub). (U, q)) (vs @ us))"
      using stop False diamond by (auto simp: stop_above_def split: if_splits)
    then have disjoint: "(\<lambda>(U, q, pub). (U, q)) ` set vs \<inter> (\<lambda>(U, q, pub). (U, q)) ` set us = {}"
      unfolding map_append distinct_append set_map by blast
    have "(fst v, fst (snd v)) \<in> (\<lambda>(U, q, pub). (U, q)) ` set vs" using imageI [OF v(1), of "\<lambda>(U, q, pub). (U, q)"] by (simp add: case_prod_beta)
    moreover have "(fst w, fst (snd w)) \<in> (\<lambda>(U, q, pub). (U, q)) ` set us" using imageI [OF w, of "\<lambda>(U, q, pub). (U, q)"] by (simp add: case_prod_beta)
    moreover have "fst v = fst w" using types v(1) w by simp
    moreover have "fst (snd v) = static_ptr info" using v(2) True by simp
    ultimately show ?thesis using disjoint IntI [of "(fst v, fst (snd v))"] by (metis empty_iff)
  next
    case no: False
    then have "flags AND non_diamond_repeat_mask = 0" using stop any by (simp add: stop_above_def split: if_splits)
    with repeat have "\<forall>v\<in>set (vs @ us). \<forall>w\<in>set (vs @ us). fst (snd v) = fst (snd w)" by (rule mp)
    then have "fst (snd v) = fst (snd w)" using v(1) w unfolding set_append by blast
    then show ?thesis using v(2) no by simp
  qed
  then show ?thesis by (intro above_idle) (simp_all add: any)
qed

lemma walked_above_refl [simp]: "walked_above d info [] info"
  unfolding walked_above_def by (auto intro: exI [of _ "[]"])

lemma walked_above_clear:
  assumes "walked_above d info vs info'"
  shows "\<exists>ws. set ws \<subseteq> set vs \<and> clear_found info' = clear_found (foldl (above_step d) info ws)"
proof (cases "search_done info'")
  case False
  then show ?thesis using assms unfolding walked_above_def by (intro exI [of _ vs]) simp
qed (use assms in \<open>simp add: walked_above_def\<close>)

lemma walked_above_append:
  assumes 1: "walked_above d info vs info'" and 2: "walked_above d (with_found our' any' info') us info''"
    and flags: "\<not> search_done info' \<Longrightarrow> our' = (our \<or> found_our_static_ptr info') \<and> any' = (any \<or> found_any_static_type info')"
    and clear: "\<not> found_our_static_ptr info" "\<not> found_any_static_type info"
  shows "walked_above d (with_found our any info) (vs @ us) info''"
proof (cases "search_done info''")
  case True
  obtain ws1 where ws1: "set ws1 \<subseteq> set vs" "clear_found info' = clear_found (foldl (above_step d) info ws1)"
    using walked_above_clear [OF 1] by blast
  obtain ws2 where ws2: "set ws2 \<subseteq> set us" "clear_found info'' = clear_found (foldl (above_step d) (with_found our' any' info') ws2)"
    using walked_above_clear [OF 2] by blast
  have "clear_found (foldl (above_step d) i ws2) = clear_found (foldl (above_step d) (clear_found i) ws2)" for i
    by (simp add: above_steps_flags)
  then have "clear_found info'' = clear_found (foldl (above_step d) info (ws1 @ ws2))"
    using ws1(2) ws2(2) by (metis clear_above_steps foldl_append)
  then have "clear_found info'' = clear_found (foldl (above_step d) (with_found our any info) (ws1 @ ws2))"
    by (simp only: clear_above_steps)
  moreover have "set (ws1 @ ws2) \<subseteq> set (vs @ us)" using ws1(1) ws2(1) by auto
  ultimately show ?thesis unfolding walked_above_def by (simp only: True if_True) blast
next
  case False
  have "\<not> search_done info'"
    using 2 False above_steps_done [of "with_found our' any' info'" d us] by (auto simp: walked_above_def)
  then have info': "info' = foldl (above_step d) info vs" using 1 by (simp add: walked_above_def)
  have "with_found our' any' info' = foldl (above_step d) (with_found our any info) vs"
    using flags [OF \<open>\<not> search_done info'\<close>] clear by (simp add: info' above_steps_flags)
  then show ?thesis using 2 False by (simp add: walked_above_def)
qed

lemma bases_walked_above:
  assumes IH: "\<And>b fl info. Base b fl \<in> set bs \<Longrightarrow> \<not> search_done info \<Longrightarrow> static_type info = S \<Longrightarrow>
      walked_above d info (base_visits off m (Base b fl) p pub) (base_search_above_dst mem us (Base b fl) info d p (path_of pub))"
    and "static_type info = S" "first \<longrightarrow> \<not> search_done info"
    and "\<not> first \<longrightarrow> search_done info \<or> between_bases d vs our any info"
    and "flags AND diamond_shaped_mask = 0 \<longrightarrow> distinct (map (\<lambda>(U, q, pub). (U, q)) (vs @ bases_visits off m bs p pub))"
    and "flags AND non_diamond_repeat_mask = 0 \<longrightarrow>
      (\<forall>v\<in>set (vs @ bases_visits off m bs p pub). \<forall>w\<in>set (vs @ bases_visits off m bs p pub). fst (snd v) = fst (snd w))"
    and "\<forall>v\<in>set (vs @ bases_visits off m bs p pub). fst v = T" and "d \<noteq> 0"
  shows "walked_above d (with_found our any info) (bases_visits off m bs p pub)
    (bases_search_above_dst mem us bs flags first our any info d p (path_of pub))"
  using assms
proof (induction bs arbitrary: info first vs our any)
  case (Cons B bs)
  show ?case
  proof (cases "\<not> first \<and> stop_above flags info")
    case True
    have "walked_above d (with_found our any info) (bases_visits off m (B # bs) p pub) (with_found our any info)"
    proof (cases "search_done info")
      case True
      then show ?thesis unfolding walked_above_def by (auto intro: exI [of _ "[]"])
    next
      case False
      then have "between_bases d vs our any info" using True Cons.prems(4) by blast
      from stop_above_idle [OF this conjunct2 [OF True] False Cons.prems(5,6,7,8)] False
      show ?thesis by (simp add: walked_above_def)
    qed
    then show ?thesis using True by simp
  next
    case False
    then have "\<not> search_done info" using Cons.prems(3) by (auto simp: stop_above_def)
    obtain b fl where B: "B = Base b fl" by (cases B)
    define vs1 where "vs1 = base_visits off m B p pub"
    define info1 where "info1 = base_search_above_dst mem us B (clear_found info) d p (path_of pub)"
    define our1 where "our1 = (our \<or> found_our_static_ptr info1)"
    define any1 where "any1 = (any \<or> found_any_static_type info1)"
    have w: "walked_above d (clear_found info) vs1 info1"
      unfolding vs1_def info1_def B by (rule Cons.prems(1)) (use \<open>\<not> search_done info\<close> Cons.prems(2) in \<open>simp_all add: B\<close>)
    have S: "static_type info1 = S"
    proof -
      obtain ws where "clear_found info1 = clear_found (foldl (above_step d) (clear_found info) ws)"
        using walked_above_clear [OF w] by blast
      from arg_cong [OF this, of static_type] show ?thesis using Cons.prems(2) by simp
    qed
    have between: "between_bases d (vs @ vs1) our1 any1 info1" if "\<not> search_done info1"
    proof -
      have i: "info1 = foldl (above_step d) (clear_found info) vs1" using w that by (simp add: walked_above_def)
      have "found_any_static_type info1 = (vs1 \<noteq> [])" "static_ptr info1 = static_ptr info"
        "found_our_static_ptr info1 = (\<exists>v\<in>set vs1. fst (snd v) = static_ptr info)"
        unfolding i by simp_all
      moreover have "found_our_static_ptr info1 \<Longrightarrow> dst_ptr_leading_to_static_ptr info1 = d \<and>
        (number_of_dst_type info1 = 1 \<longrightarrow> path_dst_ptr_to_static_ptr info1 \<noteq> public_path)"
        using above_steps_leads [of d "clear_found info" vs1] that unfolding i by simp
      ultimately show ?thesis unfolding between_bases_def our1_def any1_def
        by (cases vs1) auto
    qed
    have "walked_above d (with_found our1 any1 info1) (bases_visits off m bs p pub)
      (bases_search_above_dst mem us bs flags False our1 any1 info1 d p (path_of pub))"
    proof (rule Cons.IH [where vs = "vs @ vs1"])
      show "walked_above d i (base_visits off m (Base b fl) p pub) (base_search_above_dst mem us (Base b fl) i d p (path_of pub))"
        if "Base b fl \<in> set bs" "\<not> search_done i" "static_type i = S" for b fl i
        using Cons.prems(1) that by simp
      have all: "vs @ bases_visits off m (B # bs) p pub = (vs @ vs1) @ bases_visits off m bs p pub" by (simp add: vs1_def)
      note facts = Cons.prems(5,6,7) [unfolded all]
      show "flags AND diamond_shaped_mask = 0 \<longrightarrow> distinct (map (\<lambda>(U, q, pub). (U, q)) ((vs @ vs1) @ bases_visits off m bs p pub))"
        by (rule facts(1))
      show "flags AND non_diamond_repeat_mask = 0 \<longrightarrow> (\<forall>v\<in>set ((vs @ vs1) @ bases_visits off m bs p pub).
          \<forall>w\<in>set ((vs @ vs1) @ bases_visits off m bs p pub). fst (snd v) = fst (snd w))"
        by (rule facts(2))
      show "\<forall>v\<in>set ((vs @ vs1) @ bases_visits off m bs p pub). fst v = T" by (rule facts(3))
      show "\<not> False \<longrightarrow> search_done info1 \<or> between_bases d (vs @ vs1) our1 any1 info1" using between by blast
    qed (use S \<open>d \<noteq> 0\<close> in simp_all)
    from walked_above_append [OF w this, of our any]
    show ?thesis using False by (auto simp: our1_def any1_def Let_def simp flip: vs1_def info1_def)
  qed
qed simp

text \<open>The types with the name of \<open>S\<close> are \<open>S\<close>.\<close>

definition only_named :: "bool \<Rightarrow> type_info \<Rightarrow> type_info \<Rightarrow> bool" where
  "only_named us S T \<longleftrightarrow> is_class S \<and> list_all (\<lambda>U. is_equal U S us \<longrightarrow> U = S) (map fst (paths (\<lambda>p f. 0) T 0 True))"

lemma paths_types: "map fst (paths off T p pub) = map fst (paths off' T q r)"
proof (induction T arbitrary: p pub q r rule: class_induct)
  case (Vmi n f bs)
  have "map fst (base_paths off B p pub) = map fst (base_paths off' B q r)" if "B \<in> set bs" for B
    using Vmi.IH that by (cases B) auto
  then show ?case by (auto simp: bases_paths_concat map_concat comp_def intro!: arg_cong [where f = concat])
qed auto

lemma only_named_iff:
  "only_named us S T \<longleftrightarrow> is_class S \<and> (\<forall>v\<in>set (paths off T p pub). is_equal (fst v) S us \<longrightarrow> fst v = S)"
  unfolding only_named_def paths_types [of "\<lambda>p f. 0" T 0 True off p pub] by (simp add: list_all_iff)

lemma only_namedD: "only_named us S T \<Longrightarrow> (U, q, r) \<in> set (paths off T p pub) \<Longrightarrow> is_equal U S us \<Longrightarrow> U = S"
  unfolding only_named_iff [of us S T off p pub] by auto

lemma only_named_bases:
  "only_named us S (SiClass n b) \<Longrightarrow> only_named us S b"
  "only_named us S (VmiClass n f bs) \<Longrightarrow> Base b fl \<in> set bs \<Longrightarrow> only_named us S b"
proof -
  assume a: "only_named us S (VmiClass n f bs)" "Base b fl \<in> set bs"
  have "v \<in> set (paths (\<lambda>p f. 0) (VmiClass n f bs) 0 True)" if "v \<in> set (paths (\<lambda>p f. 0) b 0 (fl AND public_mask \<noteq> 0))" for v
    using a(2) that by (auto simp: in_bases_paths)
  with a(1) show "only_named us S b"
    unfolding only_named_iff [of us S "VmiClass n f bs" "\<lambda>p f. 0" 0 True] only_named_iff [of us S b "\<lambda>p f. 0" 0 "fl AND public_mask \<noteq> 0"]
    by blast
qed (simp add: only_named_def)

lemma bases_paths_conj: "bases_paths off bs p (pub \<and> r) = map (\<lambda>(U, q, s). (U, q, s \<and> pub)) (bases_paths off bs p r)"
  using arg_cong [OF paths_conj [of off "VmiClass n f bs" p pub r], of tl] by (simp only: paths.simps list.map list.sel)

lemma bases_visits_filter:
  assumes "only_named us S (VmiClass n f bs)" "\<not> is_equal (VmiClass n f bs) S us"
  shows "bases_visits off (\<lambda>U. is_equal U S us) bs p pub = filter (\<lambda>v. is_equal (fst v) S us) (bases_paths off bs p pub)"
proof -
  have "visits off (\<lambda>U. is_equal U S us) (VmiClass n f bs) p pub =
    filter (\<lambda>v. is_equal (fst v) S us) (paths off (VmiClass n f bs) p pub)"
    by (rule visits_filter [where S = S]) (use only_namedD [OF assms(1)] assms(1) in \<open>auto simp: only_named_def\<close>)
  then show ?thesis using assms(2) by simp
qed

text \<open>What honest flags say of the visits.\<close>

lemma honest_visits:
  assumes "honest off (VmiClass n f bs) p" "only_named us S (VmiClass n f bs)" "\<not> is_equal (VmiClass n f bs) S us"
  shows "f AND diamond_shaped_mask = 0 \<longrightarrow>
      distinct (map (\<lambda>(U, q, pub). (U, q)) (bases_visits off (\<lambda>U. is_equal U S us) bs p pub))"
    and "f AND non_diamond_repeat_mask = 0 \<longrightarrow>
      (\<forall>v\<in>set (bases_visits off (\<lambda>U. is_equal U S us) bs p pub). \<forall>w\<in>set (bases_visits off (\<lambda>U. is_equal U S us) bs p pub).
        fst (snd v) = fst (snd w))"
    and "\<forall>v\<in>set (bases_visits off (\<lambda>U. is_equal U S us) bs p pub). fst v = S"
proof -
  show types: "\<forall>v\<in>set (bases_visits off (\<lambda>U. is_equal U S us) bs p pub). fst v = S"
  proof
    fix v assume "v \<in> set (bases_visits off (\<lambda>U. is_equal U S us) bs p pub)"
    then have "v \<in> set (bases_paths off bs p pub)" "is_equal (fst v) S us"
      using bases_visits_filter [OF assms(2,3)] by auto
    then show "fst v = S" using only_namedD [OF assms(2), of "fst v" "fst (snd v)" "snd (snd v)" off p pub] by simp
  qed
  have nodes: "map (\<lambda>(U, q, pub). (U, q)) (bases_paths off bs p pub) = map (\<lambda>(U, q, pub). (U, q)) (bases_paths off bs p True)"
    using bases_paths_conj [of off bs p pub True] by (simp add: comp_def case_prod_beta)
  show "f AND diamond_shaped_mask = 0 \<longrightarrow>
      distinct (map (\<lambda>(U, q, pub). (U, q)) (bases_visits off (\<lambda>U. is_equal U S us) bs p pub))"
    using assms(1) distinct_map_filter [of "\<lambda>(U, q, pub). (U, q)" "bases_paths off bs p pub" "\<lambda>v. is_equal (fst v) S us"]
    unfolding bases_visits_filter [OF assms(2,3)] nodes honest_simps(2) by simp
  show "f AND non_diamond_repeat_mask = 0 \<longrightarrow>
      (\<forall>v\<in>set (bases_visits off (\<lambda>U. is_equal U S us) bs p pub). \<forall>w\<in>set (bases_visits off (\<lambda>U. is_equal U S us) bs p pub).
        fst (snd v) = fst (snd w))"
  proof (intro impI ballI)
    fix v w assume f: "f AND non_diamond_repeat_mask = 0"
      and v: "v \<in> set (bases_visits off (\<lambda>U. is_equal U S us) bs p pub)"
      and w: "w \<in> set (bases_visits off (\<lambda>U. is_equal U S us) bs p pub)"
    have "list_all (\<lambda>(U, q, pub). list_all (\<lambda>(U', q', pub'). U = U' \<longrightarrow> q = q') (bases_paths off bs p True)) (bases_paths off bs p True)"
      using assms(1) f by (simp add: honest_simps)
    then have one: "q = q'" if "(U, q, r) \<in> set (bases_paths off bs p True)" "(U, q', r') \<in> set (bases_paths off bs p True)" for U q q' r r'
    proof -
      assume all: "list_all (\<lambda>(U, q, pub). list_all (\<lambda>(U', q', pub'). U = U' \<longrightarrow> q = q') (bases_paths off bs p True)) (bases_paths off bs p True)"
      have "list_all (\<lambda>(U', q', pub'). U = U' \<longrightarrow> q = q') (bases_paths off bs p True)"
        using bspec [OF all [unfolded list_all_iff [of _ "bases_paths off bs p True"]] that(1)] by (simp add: list_all_iff)
      from bspec [OF this [unfolded list_all_iff] that(2)] show "q = q'" by simp
    qed
    have "\<exists>r. (S, fst (snd v), r) \<in> set (bases_paths off bs p True)" if "v \<in> set (bases_visits off (\<lambda>U. is_equal U S us) bs p pub)" for v
    proof -
      have "fst v = S" using types that by (rule bspec)
      moreover have "v \<in> set (bases_paths off bs p pub)" using that by (simp add: bases_visits_filter [OF assms(2,3)])
      then obtain w where "w \<in> set (bases_paths off bs p True)" "v = (\<lambda>(U, q, s). (U, q, s \<and> pub)) w"
        using bases_paths_conj [of off bs p pub True] by auto
      ultimately show ?thesis by (cases w) auto
    qed
    from this [OF v] this [OF w] show "fst (snd v) = fst (snd w)" using one by blast
  qed
qed

lemma search_walked_above:
  assumes "\<not> search_done info" "static_type info = S" "d \<noteq> 0" "honest (offset_to_base mem) T p" "only_named us S T"
  shows "walked_above d info (visits (offset_to_base mem) (\<lambda>U. is_equal U S us) T p pub)
    (search_above_dst mem us T info d p (path_of pub))"
  using assms
proof (induction T arbitrary: info p pub rule: class_induct)
  case (leaf T)
  have "walked_above d info [(T, p, pub)] (process_static_type_above_dst info d p (path_of pub))"
    unfolding walked_above_def by (auto simp: above_step_def intro: exI [of _ "[(T, p, pub)]"])
  then show ?case using leaf by (cases T) (simp_all add: without_bases_def)
next
  case (Si n b)
  have "walked_above d info [(SiClass n b, p, pub)] (process_static_type_above_dst info d p (path_of pub))"
    unfolding walked_above_def by (auto simp: above_step_def intro: exI [of _ "[(SiClass n b, p, pub)]"])
  then show ?case using Si.IH [of info p pub] Si.prems only_named_bases(1) [OF Si.prems(5)] by (simp add: honest_simps)
next
  case (Vmi n f bs)
  show ?case
  proof (cases "is_equal (VmiClass n f bs) S us")
    case True
    have "walked_above d info [(VmiClass n f bs, p, pub)] (process_static_type_above_dst info d p (path_of pub))"
      unfolding walked_above_def by (auto simp: above_step_def intro: exI [of _ "[(VmiClass n f bs, p, pub)]"])
    then show ?thesis using True Vmi.prems(2) by simp
  next
    case False
    have "walked_above d (with_found (found_our_static_ptr info) (found_any_static_type info) info)
        (bases_visits (offset_to_base mem) (\<lambda>U. is_equal U S us) bs p pub)
        (bases_search_above_dst mem us bs f True (found_our_static_ptr info) (found_any_static_type info) info d p (path_of pub))"
    proof (rule bases_walked_above [where vs = "[]" and S = S and T = S])
      fix b fl and i :: dynamic_cast_info assume b: "Base b fl \<in> set bs" "\<not> search_done i" "static_type i = S"
      show "walked_above d i (base_visits (offset_to_base mem) (\<lambda>U. is_equal U S us) (Base b fl) p pub)
        (base_search_above_dst mem us (Base b fl) i d p (path_of pub))"
        using Vmi.IH [OF b(1-3) \<open>d \<noteq> 0\<close>] Vmi.prems(4) b(1) only_named_bases(2) [OF Vmi.prems(5) b(1)] by (simp add: honest_simps)
    qed (use Vmi.prems honest_visits [OF Vmi.prems(4,5) False, of pub] in \<open>simp_all only: append.simps simp_thms\<close>)
    then show ?thesis using False Vmi.prems(2) by simp
  qed
qed

section \<open>What a walk above finds\<close>

definition leads :: "u64 \<Rightarrow> subobject list \<Rightarrow> bool" where
  "leads p vs \<longleftrightarrow> (\<exists>v\<in>set vs. fst (snd v) = p)"

definition leads_publicly :: "u64 \<Rightarrow> subobject list \<Rightarrow> bool" where
  "leads_publicly p vs \<longleftrightarrow> (\<exists>v\<in>set vs. snd v = (p, True))"

lemma leads_simps [simp]: "\<not> leads p []" "leads p (vs @ us) = (leads p vs \<or> leads p us)"
  "leads p [(U, q, pub)] = (p = q)" "\<not> leads_publicly p []" "leads_publicly p [(U, q, pub)] = (p = q \<and> pub)"
  "leads_publicly p (vs @ us) = (leads_publicly p vs \<or> leads_publicly p us)"
  by (auto simp: leads_def leads_publicly_def)

lemma leads_publicly_leads: "leads_publicly p vs \<Longrightarrow> leads p vs"
  unfolding leads_def leads_publicly_def by (metis fst_conv)

lemma above_step_our:
  "dst_ptr_leading_to_static_ptr info = 0 \<Longrightarrow> number_of_dst_type info \<noteq> 1 \<Longrightarrow> clear_found (above_step d info (U, static_ptr info, pub)) =
     clear_found (info\<lparr>dst_ptr_leading_to_static_ptr := d, path_dst_ptr_to_static_ptr := path_of pub, number_to_static_ptr := 1\<rparr>)"
  "dst_ptr_leading_to_static_ptr info = d \<Longrightarrow> d \<noteq> 0 \<Longrightarrow> number_of_dst_type info \<noteq> 1 \<Longrightarrow> clear_found (above_step d info (U, static_ptr info, pub)) =
     clear_found (if path_dst_ptr_to_static_ptr info = not_public_path then info\<lparr>path_dst_ptr_to_static_ptr := path_of pub\<rparr> else info)"
  "dst_ptr_leading_to_static_ptr info \<noteq> d \<Longrightarrow> dst_ptr_leading_to_static_ptr info \<noteq> 0 \<Longrightarrow> clear_found (above_step d info (U, static_ptr info, pub)) =
     clear_found (info\<lparr>number_to_static_ptr := number_to_static_ptr info + 1, search_done := True\<rparr>)"
  by (simp_all add: above_step_def process_static_type_above_dst_def Let_def)

lemma above_step_of_clear: "clear_found (above_step d info v) = clear_found (above_step d (clear_found info) v)"
  by (simp add: above_step_clear)

lemma above_steps_first:
  assumes "dst_ptr_leading_to_static_ptr info = 0" "number_of_dst_type info \<noteq> 1" "d \<noteq> 0"
  shows "clear_found (foldl (above_step d) info vs) = clear_found (if leads (static_ptr info) vs
    then info\<lparr>dst_ptr_leading_to_static_ptr := d, path_dst_ptr_to_static_ptr := path_of (leads_publicly (static_ptr info) vs),
      number_to_static_ptr := 1\<rparr> else info)"
proof (induction vs rule: rev_induct)
  case (snoc v vs)
  obtain U q pub where v: "v = (U, q, pub)" by (cases v)
  define i where "i = (if leads (static_ptr info) vs
    then info\<lparr>dst_ptr_leading_to_static_ptr := d, path_dst_ptr_to_static_ptr := path_of (leads_publicly (static_ptr info) vs),
      number_to_static_ptr := 1\<rparr> else info)"
  have step: "clear_found (foldl (above_step d) info (vs @ [v])) = clear_found (above_step d (clear_found i) v)"
    using snoc.IH by (simp add: above_step_of_clear [of d "foldl (above_step d) info vs"] i_def)
  have "clear_found (above_step d (clear_found i) v) = clear_found (if leads (static_ptr info) (vs @ [v])
    then info\<lparr>dst_ptr_leading_to_static_ptr := d, path_dst_ptr_to_static_ptr := path_of (leads_publicly (static_ptr info) (vs @ [v])),
      number_to_static_ptr := 1\<rparr> else info)"
  proof (cases "q = static_ptr info")
    case False
    then show ?thesis unfolding v by (simp add: i_def above_step_other)
  next
    case q: True
    have sp: "static_ptr (clear_found i) = static_ptr info" by (simp add: i_def)
    show ?thesis
    proof (cases "leads (static_ptr info) vs")
      case True
      then show ?thesis unfolding v q
        using above_step_our(2) [of "clear_found i" d U pub] assms(2,3) sp by (auto simp: i_def path_of_def)
    next
      case False
      then show ?thesis unfolding v q
        using above_step_our(1) [of "clear_found i" d U pub] assms sp leads_publicly_leads [of "static_ptr info" vs]
        by (auto simp: i_def path_of_def)
    qed
  qed
  with step show ?case by (rule trans)
qed simp

lemma above_steps_other:
  assumes "\<not> leads (static_ptr info) vs"
  shows "clear_found (foldl (above_step d) info vs) = clear_found info"
  using assms
proof (induction vs rule: rev_induct)
  case (snoc v vs)
  then have "clear_found (foldl (above_step d) info (vs @ [v])) = clear_found (above_step d (clear_found info) v)"
    by (simp add: above_step_of_clear [of d "foldl (above_step d) info vs"])
  moreover obtain U q pub where v: "v = (U, q, pub)" by (cases v)
  moreover have "q \<noteq> static_ptr (clear_found info)" using snoc.prems by (auto simp: v)
  ultimately show ?case using above_step_other [of q "clear_found info" d U pub] by simp
qed simp

lemma above_steps_ambiguous:
  assumes "dst_ptr_leading_to_static_ptr info \<noteq> d" "dst_ptr_leading_to_static_ptr info \<noteq> 0" "\<not> search_done info"
    and "number_to_static_ptr info = 1"
  shows "dst_ptr_leading_to_static_ptr (foldl (above_step d) info vs) = dst_ptr_leading_to_static_ptr info \<and>
    (if leads (static_ptr info) vs then search_done (foldl (above_step d) info vs) \<and> number_to_static_ptr (foldl (above_step d) info vs) \<ge> 2
     else \<not> search_done (foldl (above_step d) info vs) \<and> number_to_static_ptr (foldl (above_step d) info vs) = 1)"
proof (induction vs rule: rev_induct)
  case (snoc v vs)
  obtain U q pub where v: "v = (U, q, pub)" by (cases v)
  define i where "i = foldl (above_step d) info vs"
  have sp: "static_ptr i = static_ptr info" by (simp add: i_def)
  have i: "dst_ptr_leading_to_static_ptr i = dst_ptr_leading_to_static_ptr info"
    "if leads (static_ptr info) vs then search_done i \<and> number_to_static_ptr i \<ge> 2 else \<not> search_done i \<and> number_to_static_ptr i = 1"
    using snoc.IH by (simp_all add: i_def)
  have step: "dst_ptr_leading_to_static_ptr (above_step d i v) = dst_ptr_leading_to_static_ptr info \<and>
    (if leads (static_ptr info) (vs @ [v]) then search_done (above_step d i v) \<and> number_to_static_ptr (above_step d i v) \<ge> 2
     else \<not> search_done (above_step d i v) \<and> number_to_static_ptr (above_step d i v) = 1)"
    using i assms(1,2) by (simp add: v sp above_step_def process_static_type_above_dst_def Let_def split: if_splits)
  show ?case unfolding foldl_append foldl_Cons foldl_Nil using step unfolding i_def .
qed (use assms in simp)

section \<open>A subobject of the destination type\<close>

lemma dst_loop_walked:
  assumes IH: "\<And>b fl info. Base b fl \<in> set bs \<Longrightarrow> \<not> search_done info \<Longrightarrow> static_type info = S \<Longrightarrow>
      walked_above d info (base_visits off m (Base b fl) d True) (base_search_above_dst mem us (Base b fl) info d d public_path)"
    and "static_type info = S" "\<not> search_done info"
    and "flags AND diamond_shaped_mask = 0 \<longrightarrow> distinct (map (\<lambda>(U, q, pub). (U, q)) (vs @ bases_visits off m bs d True))"
    and "flags AND non_diamond_repeat_mask = 0 \<longrightarrow>
      (\<forall>v\<in>set (vs @ bases_visits off m bs d True). \<forall>w\<in>set (vs @ bases_visits off m bs d True). fst (snd v) = fst (snd w))"
    and "\<forall>v\<in>set (vs @ bases_visits off m bs d True). fst v = T" and "d \<noteq> 0"
    and "dst_bases_loop mem us flags bs derived points info d = (info', derived', points')"
  shows "(\<exists>ws. set ws \<subseteq> set (bases_visits off m bs d True) \<and> clear_found info' = clear_found (foldl (above_step d) info ws)) \<and>
    (\<not> search_done info' \<longrightarrow> clear_found info' = clear_found (foldl (above_step d) info (bases_visits off m bs d True)) \<and>
      derived' = (derived \<or> bases_visits off m bs d True \<noteq> []) \<and>
      points' = (points \<or> leads (static_ptr info) (bases_visits off m bs d True)))"
  using assms
proof (induction bs arbitrary: info vs derived points)
  case Nil
  then show ?case by (auto intro: exI [of _ "[]"])
next
  case (Cons B bs)
  obtain b fl where B: "B = Base b fl" by (cases B)
  define vs1 where "vs1 = base_visits off m B d True"
  define us1 where "us1 = bases_visits off m bs d True"
  define info1 where "info1 = base_search_above_dst mem us B (clear_found info) d d public_path"
  have split: "bases_visits off m (B # bs) d True = vs1 @ us1" by (simp add: vs1_def us1_def)
  have w: "walked_above d (clear_found info) vs1 info1"
    unfolding vs1_def info1_def B by (rule Cons.prems(1)) (use Cons.prems(2,3) in \<open>simp_all add: B\<close>)
  obtain ws1 where ws1: "set ws1 \<subseteq> set vs1" "clear_found info1 = clear_found (foldl (above_step d) info ws1)"
    using walked_above_clear [OF w] by (auto simp: clear_above_steps)
  show ?case
  proof (cases "search_done info1")
    case True
    then have "info' = info1" using Cons.prems(8) by (simp add: Let_def flip: info1_def)
    then show ?thesis using True ws1 unfolding split by auto
  next
    case False
    then have i: "info1 = foldl (above_step d) (clear_found info) vs1" using w by (simp add: walked_above_def)
    have found: "found_any_static_type info1 = (vs1 \<noteq> [])" "static_ptr info1 = static_ptr info" "static_type info1 = S"
      "found_our_static_ptr info1 = leads (static_ptr info) vs1"
      unfolding i using Cons.prems(2) by (simp_all add: leads_def)
    have clear1: "clear_found info1 = clear_found (foldl (above_step d) info vs1)" unfolding i by (simp only: clear_above_steps)
    note all = Cons.prems(4,5,6) [unfolded split append_assoc [symmetric]]
    show ?thesis
    proof (cases "stop_above flags info1")
      case stop: True
      have "between_bases d (vs @ vs1) (leads (static_ptr info) vs1) (vs1 \<noteq> []) info1"
      proof -
        have "found_our_static_ptr info1 \<Longrightarrow> dst_ptr_leading_to_static_ptr info1 = d \<and>
          (number_of_dst_type info1 = 1 \<longrightarrow> path_dst_ptr_to_static_ptr info1 \<noteq> public_path)"
          using above_steps_leads [of d "clear_found info" vs1] False unfolding i by simp
        then show ?thesis unfolding between_bases_def found leads_def by (cases vs1) auto
      qed
      from stop_above_idle [OF this stop False all \<open>d \<noteq> 0\<close>]
      have idle: "foldl (above_step d) (with_found (leads (static_ptr info) vs1) (vs1 \<noteq> []) info1) us1 =
        with_found (leads (static_ptr info) vs1) (vs1 \<noteq> []) info1" unfolding us1_def .
      have "clear_found (foldl (above_step d) info1 us1) = clear_found info1"
        using arg_cong [OF idle, of clear_found] by (simp only: clear_above_steps) simp
      moreover have "clear_found (foldl (above_step d) info (vs1 @ us1)) = clear_found (foldl (above_step d) info1 us1)"
        using clear1 by (metis clear_above_steps foldl_append)
      moreover have "(info', derived', points') = (info1, True, points \<or> leads (static_ptr info) vs1) \<and> vs1 \<noteq> []"
        using Cons.prems(8) False stop found
        by (auto simp: Let_def stop_above_def leads_def simp flip: info1_def split: if_splits)
      moreover have "leads (static_ptr info) us1 \<Longrightarrow> leads (static_ptr info) vs1"
        using arg_cong [OF idle, of found_our_static_ptr] by (simp add: found leads_def)
      ultimately have "clear_found info' = clear_found (foldl (above_step d) info (vs1 @ us1)) \<and> derived' = (derived \<or> vs1 @ us1 \<noteq> []) \<and>
        points' = (points \<or> leads (static_ptr info) (vs1 @ us1))" by auto
      then show ?thesis unfolding split by blast
    next
      case go: False
      have rest: "dst_bases_loop mem us flags bs (derived \<or> vs1 \<noteq> []) (points \<or> leads (static_ptr info) vs1) info1 d = (info', derived', points')"
        using Cons.prems(8) False go found
        by (auto simp: Let_def stop_above_def leads_def simp flip: info1_def split: if_splits)
      have "(\<exists>ws. set ws \<subseteq> set us1 \<and> clear_found info' = clear_found (foldl (above_step d) info1 ws)) \<and>
        (\<not> search_done info' \<longrightarrow> clear_found info' = clear_found (foldl (above_step d) info1 us1) \<and>
          derived' = ((derived \<or> vs1 \<noteq> []) \<or> us1 \<noteq> []) \<and>
          points' = ((points \<or> leads (static_ptr info) vs1) \<or> leads (static_ptr info1) us1))"
        unfolding us1_def
      proof (rule Cons.IH [OF _ found(3) False])
        show "walked_above d i (base_visits off m (Base b fl) d True) (base_search_above_dst mem us (Base b fl) i d d public_path)"
          if "Base b fl \<in> set bs" "\<not> search_done i" "static_type i = S" for b fl i
          using Cons.prems(1) that by simp
      qed (rule all [unfolded us1_def] \<open>d \<noteq> 0\<close> rest)+
      moreover have "clear_found (foldl (above_step d) info1 ws) = clear_found (foldl (above_step d) info (vs1 @ ws))" for ws
        using clear1 by (metis clear_above_steps foldl_append)
      moreover have "set ws \<subseteq> set us1 \<Longrightarrow> set (vs1 @ ws) \<subseteq> set (vs1 @ us1)" for ws by auto
      ultimately show ?thesis unfolding split found by (metis append_is_Nil_conv leads_simps(2))
    qed
  qed
qed

lemma search_dst_bases_walked:
  assumes "\<not> search_done info" "static_type info = S" "d \<noteq> 0" "honest (offset_to_base mem) T d" "only_named us S T"
    and "\<not> is_equal T S us" "is_dst_type_derived_from_static_type info \<noteq> no"
    and "A = visits (offset_to_base mem) (\<lambda>U. is_equal U S us) T d True"
    and "search_dst_bases mem us T info d = (info', points)"
  shows "(\<exists>ws x. set ws \<subseteq> set A \<and>
      clear_found info' = (clear_found (foldl (above_step d) info ws))\<lparr>is_dst_type_derived_from_static_type := x\<rparr>) \<and>
    (\<not> search_done info' \<longrightarrow> points = leads (static_ptr info) A \<and>
      (\<exists>x. (x = no \<longrightarrow> A = []) \<and>
        clear_found info' = (clear_found (foldl (above_step d) info A))\<lparr>is_dst_type_derived_from_static_type := x\<rparr>))"
proof -
  have leaf: ?thesis if "A = []" "info' = info" "\<not> points"
    using that by (auto intro!: exI [of _ "[]"] exI [of _ "is_dst_type_derived_from_static_type info"])
  show ?thesis
  proof (cases T)
    case (SiClass n b)
    define i where "i = search_above_dst mem us b (clear_found info) d d public_path"
    have A: "A = visits (offset_to_base mem) (\<lambda>U. is_equal U S us) b d True" using assms(6,8) SiClass by simp
    have w: "walked_above d (clear_found info) A i"
      unfolding A i_def using search_walked_above [where info = "clear_found info" and S = S and d = d and mem = mem and T = b and p = d
          and us = us and pub = True] assms(1-5) SiClass
        only_named_bases(1) by (simp add: honest_simps)
    have r: "info' = record_derived (found_any_static_type i) i" "points = (found_any_static_type i \<and> found_our_static_ptr i)"
      using assms(7,9) SiClass by (simp_all add: i_def Let_def)
    obtain ws where "set ws \<subseteq> set A" "clear_found i = clear_found (foldl (above_step d) info ws)"
      using walked_above_clear [OF w] by (auto simp: clear_above_steps)
    moreover have result: "clear_found info' = (clear_found i)\<lparr>is_dst_type_derived_from_static_type := (if found_any_static_type i then yes else no)\<rparr>"
      by (simp add: r(1) record_derived_def)
    ultimately have "\<exists>ws x. set ws \<subseteq> set A \<and> clear_found info' = (clear_found (foldl (above_step d) info ws))\<lparr>is_dst_type_derived_from_static_type := x\<rparr>"
      by metis
    moreover have "points = leads (static_ptr info) A \<and> (found_any_static_type i \<longleftrightarrow> A \<noteq> []) \<and>
        clear_found i = clear_found (foldl (above_step d) info A)" if "\<not> search_done info'"
    proof -
      have i: "i = foldl (above_step d) (clear_found info) A"
        using w that by (simp add: walked_above_def r(1) record_derived_def)
      have "points = leads (static_ptr info) A" unfolding r(2) unfolding i by (auto simp: leads_def)
      moreover have "clear_found i = clear_found (foldl (above_step d) info A)" unfolding i by (rule clear_above_steps)
      moreover have "found_any_static_type i \<longleftrightarrow> A \<noteq> []" unfolding i by simp
      ultimately show ?thesis by blast
    qed
    ultimately show ?thesis using result
      by (intro conjI impI) (blast, blast, rule exI [of _ "if found_any_static_type i then yes else no"], simp)
  next
    case (VmiClass n f bs)
    have A: "A = bases_visits (offset_to_base mem) (\<lambda>U. is_equal U S us) bs d True" using assms(6,8) VmiClass by simp
    note hv = honest_visits [OF assms(4) [unfolded VmiClass] assms(5) [unfolded VmiClass] assms(6) [unfolded VmiClass], where pub = True]
    obtain i derived points' where loop: "dst_bases_loop mem us f bs False False info d = (i, derived, points')"
      by (cases "dst_bases_loop mem us f bs False False info d") auto
    have r: "info' = record_derived derived i" "points = points'"
      using assms(7,9) VmiClass loop by simp_all
    have "(\<exists>ws. set ws \<subseteq> set A \<and> clear_found i = clear_found (foldl (above_step d) info ws)) \<and>
      (\<not> search_done i \<longrightarrow> clear_found i = clear_found (foldl (above_step d) info A) \<and> derived = (False \<or> A \<noteq> []) \<and>
        points' = (False \<or> leads (static_ptr info) A))"
      unfolding A
    proof (rule dst_loop_walked [where vs = "[]" and S = S and T = S])
      fix b fl and i :: dynamic_cast_info assume b: "Base b fl \<in> set bs" "\<not> search_done i" "static_type i = S"
      have "honest (offset_to_base mem) b (d + offset_to_base mem d fl)" "only_named us S b"
        using assms(4,5) VmiClass b(1) only_named_bases(2) by (auto simp: honest_simps)
      from search_walked_above [OF b(2,3) \<open>d \<noteq> 0\<close> this, where pub = "fl AND public_mask \<noteq> 0"]
      show "walked_above d i (base_visits (offset_to_base mem) (\<lambda>U. is_equal U S us) (Base b fl) d True)
        (base_search_above_dst mem us (Base b fl) i d d public_path)"
        using path_to_base_of [of fl True] by simp
    qed (use assms(1-3) hv loop in \<open>simp_all only: append.simps simp_thms\<close>)
    moreover have "clear_found info' = (clear_found i)\<lparr>is_dst_type_derived_from_static_type := (if derived then yes else no)\<rparr>"
      "search_done info' = search_done i" by (simp_all add: r(1) record_derived_def)
    ultimately show ?thesis unfolding r(2)
      by (intro conjI impI) (metis, blast, rule exI [of _ "if derived then yes else no"], simp)
  qed (rule leaf; use assms(6,8,9) in simp)+
qed

text \<open>What the search does to a subobject of the destination type that it has not recorded.\<close>

lemma found_new_dst:
  assumes state: "\<not> search_done info" "static_type info = S" "number_of_dst_type info \<noteq> 1" "q \<noteq> 0"
      "q \<noteq> dst_ptr_leading_to_static_ptr info" "q \<noteq> dst_ptr_not_leading_to_static_ptr info"
      "if dst_ptr_leading_to_static_ptr info = 0 then number_to_static_ptr info = 0 else number_to_static_ptr info = 1"
    and type: "honest (offset_to_base mem) T q" "only_named us S T" "\<not> is_equal T S us" "is_class T"
    and A: "A = visits (offset_to_base mem) (\<lambda>U. is_equal U S us) T q True"
      "is_dst_type_derived_from_static_type info = no \<longrightarrow> A = []"
    and result: "info' = search_found_dst mem us T info q pb"
  shows "static_type info' = S \<and> static_ptr info' = static_ptr info \<and> dst_type info' = dst_type info \<and>
      number_of_dst_type info' = number_of_dst_type info \<and>
    (if leads (static_ptr info) A
     then if dst_ptr_leading_to_static_ptr info \<noteq> 0 then search_done info' \<and> number_to_static_ptr info' \<ge> 2
       else \<exists>x. x \<noteq> no \<and> clear_found info' = clear_found (info\<lparr>path_dynamic_ptr_to_dst_ptr := pb, dst_ptr_leading_to_static_ptr := q,
         path_dst_ptr_to_static_ptr := path_of (leads_publicly (static_ptr info) A), number_to_static_ptr := 1,
         is_dst_type_derived_from_static_type := x\<rparr>)
     else \<exists>x. (x = no \<longrightarrow> A = []) \<and> clear_found info' = clear_found (info\<lparr>path_dynamic_ptr_to_dst_ptr := pb,
       dst_ptr_not_leading_to_static_ptr := q, number_to_dst_ptr := number_to_dst_ptr info + 1,
       search_done := (number_to_static_ptr info = 1 \<and> path_dst_ptr_to_static_ptr info = not_public_path),
       is_dst_type_derived_from_static_type := x\<rparr>))"
proof -
  define info0 where "info0 = info\<lparr>path_dynamic_ptr_to_dst_ptr := pb\<rparr>"
  obtain i points where s: "search_dst_bases mem us T info0 q = (i, points)" by (cases "search_dst_bases mem us T info0 q")
  define j where "j = (if \<not> points
    then if number_to_static_ptr i = 1 \<and> path_dst_ptr_to_static_ptr i = not_public_path
      then i\<lparr>dst_ptr_not_leading_to_static_ptr := q, number_to_dst_ptr := number_to_dst_ptr i + 1, search_done := True\<rparr>
      else i\<lparr>dst_ptr_not_leading_to_static_ptr := q, number_to_dst_ptr := number_to_dst_ptr i + 1\<rparr>
    else i)"
  have r: "info' = (case T of Class n \<Rightarrow> record_derived False j | _ \<Rightarrow> j)"
    using state(5,6) s by (simp add: result search_found_dst_def info0_def j_def Let_def cong: type_info.case_cong)
  have i1: "\<exists>ws x. set ws \<subseteq> set A \<and> clear_found i = (clear_found (foldl (above_step q) info0 ws))\<lparr>is_dst_type_derived_from_static_type := x\<rparr>"
    and i2: "\<not> search_done i \<Longrightarrow> points = leads (static_ptr info) A \<and> (\<exists>x. (x = no \<longrightarrow> A = []) \<and>
        clear_found i = (clear_found (foldl (above_step q) info0 A))\<lparr>is_dst_type_derived_from_static_type := x\<rparr>)"
  proof -
    have "(\<exists>ws x. set ws \<subseteq> set A \<and> clear_found i = (clear_found (foldl (above_step q) info0 ws))\<lparr>is_dst_type_derived_from_static_type := x\<rparr>) \<and>
      (\<not> search_done i \<longrightarrow> points = leads (static_ptr info) A \<and> (\<exists>x. (x = no \<longrightarrow> A = []) \<and>
        clear_found i = (clear_found (foldl (above_step q) info0 A))\<lparr>is_dst_type_derived_from_static_type := x\<rparr>))"
    proof (cases "is_dst_type_derived_from_static_type info = no")
      case True
      then have "i = info0" "\<not> points" "A = []" using s A(2) by (cases T; simp add: info0_def)+
      then show ?thesis using True by (auto intro!: exI [of _ "[]"] exI [of _ no] simp: info0_def)
    next
      case False
      have "static_ptr info0 = static_ptr info" by (simp add: info0_def)
      from search_dst_bases_walked [OF _ _ state(4) type(1,2,3) _ A(1) s, unfolded this] False state(1,2)
      show ?thesis by (simp add: info0_def)
    qed
    then show "\<exists>ws x. set ws \<subseteq> set A \<and> clear_found i = (clear_found (foldl (above_step q) info0 ws))\<lparr>is_dst_type_derived_from_static_type := x\<rparr>"
      and "\<not> search_done i \<Longrightarrow> points = leads (static_ptr info) A \<and> (\<exists>x. (x = no \<longrightarrow> A = []) \<and>
        clear_found i = (clear_found (foldl (above_step q) info0 A))\<lparr>is_dst_type_derived_from_static_type := x\<rparr>)" by blast+
  qed
  obtain ws y where ws: "set ws \<subseteq> set A"
    "clear_found i = (clear_found (foldl (above_step q) info0 ws))\<lparr>is_dst_type_derived_from_static_type := y\<rparr>" using i1 by blast
  define F where "F = foldl (above_step q) info0 ws"
  have i: "search_done i = search_done F" "number_to_static_ptr i = number_to_static_ptr F"
    "static_type i = S" "static_ptr i = static_ptr info" "dst_type i = dst_type info" "number_of_dst_type i = number_of_dst_type info"
    using arg_cong [OF ws(2), of search_done] arg_cong [OF ws(2), of number_to_static_ptr] arg_cong [OF ws(2), of static_type]
      arg_cong [OF ws(2), of static_ptr] arg_cong [OF ws(2), of dst_type] arg_cong [OF ws(2), of number_of_dst_type] state(2)
    by (simp_all add: F_def info0_def)
  have frame: "static_type info' = S \<and> static_ptr info' = static_ptr info \<and> dst_type info' = dst_type info \<and>
      number_of_dst_type info' = number_of_dst_type info"
    using i by (cases T) (simp_all add: r j_def record_derived_def)
  have sub: "leads (static_ptr info) A" if "leads (static_ptr info) ws" using that ws(1) by (auto simp: leads_def)
  have single: "\<not> search_done F" if "dst_ptr_leading_to_static_ptr info = 0"
    using arg_cong [OF above_steps_first [of info0 q ws], of search_done] that state by (simp add: F_def info0_def split: if_splits)
  have other: "search_done F = leads (static_ptr info) ws" "leads (static_ptr info) ws \<Longrightarrow> number_to_static_ptr F \<ge> 2"
    if "dst_ptr_leading_to_static_ptr info \<noteq> 0"
    using above_steps_ambiguous [of info0 q ws] that state by (simp_all add: F_def info0_def split: if_splits)
  show ?thesis
  proof (cases "leads (static_ptr info) A")
    case True
    then have "A \<noteq> []" by auto
    then have j: "info' = j" using A(1) type(3) by (cases T) (simp_all add: r)
    show ?thesis
    proof (cases "dst_ptr_leading_to_static_ptr info = 0")
      case zero: True
      have "\<not> search_done i" using single [OF zero] i(1) by simp
      then obtain x where x: "points" "x \<noteq> no"
        "clear_found i = (clear_found (foldl (above_step q) info0 A))\<lparr>is_dst_type_derived_from_static_type := x\<rparr>"
        using i2 True \<open>A \<noteq> []\<close> by blast
      have "clear_found info' = clear_found (info\<lparr>path_dynamic_ptr_to_dst_ptr := pb, dst_ptr_leading_to_static_ptr := q,
         path_dst_ptr_to_static_ptr := path_of (leads_publicly (static_ptr info) A), number_to_static_ptr := 1,
         is_dst_type_derived_from_static_type := x\<rparr>)"
        using above_steps_first [of info0 q A] zero state True x(1,3) by (simp add: j j_def info0_def)
      then show ?thesis using frame True zero x(2) by auto
    next
      case False
      have "search_done i"
      proof (rule ccontr)
        assume "\<not> search_done i"
        then obtain x where "clear_found i = (clear_found (foldl (above_step q) info0 A))\<lparr>is_dst_type_derived_from_static_type := x\<rparr>"
          using i2 by blast
        from arg_cong [OF this, of search_done] \<open>\<not> search_done i\<close> show False
          using above_steps_ambiguous [of info0 q A] False state True by (simp add: info0_def)
      qed
      then have "search_done i" "number_to_static_ptr i \<ge> 2" using other [OF False] i(1,2) by simp_all
      then have "search_done info' \<and> number_to_static_ptr info' \<ge> 2" by (simp add: j j_def)
      then show ?thesis using frame True False by simp
    qed
  next
    case False
    have "\<not> search_done i"
      using single other(1) sub False i(1) by (cases "dst_ptr_leading_to_static_ptr info = 0") auto
    then obtain x where x: "\<not> points" "x = no \<longrightarrow> A = []"
        "clear_found i = (clear_found (foldl (above_step q) info0 A))\<lparr>is_dst_type_derived_from_static_type := x\<rparr>"
      using i2 False by blast
    have ci: "clear_found i = clear_found (info0\<lparr>is_dst_type_derived_from_static_type := x\<rparr>)"
      using x(3) above_steps_other [of info0 A q] False by (simp add: info0_def)
    have cj: "clear_found j = clear_found (info\<lparr>path_dynamic_ptr_to_dst_ptr := pb,
       dst_ptr_not_leading_to_static_ptr := q, number_to_dst_ptr := number_to_dst_ptr info + 1,
       search_done := (number_to_static_ptr info = 1 \<and> path_dst_ptr_to_static_ptr info = not_public_path),
       is_dst_type_derived_from_static_type := x\<rparr>)"
    proof -
      have "number_to_static_ptr i = number_to_static_ptr info" "path_dst_ptr_to_static_ptr i = path_dst_ptr_to_static_ptr info"
        "number_to_dst_ptr i = number_to_dst_ptr info" "search_done i = search_done info"
        using arg_cong [OF ci, of number_to_static_ptr] arg_cong [OF ci, of path_dst_ptr_to_static_ptr]
          arg_cong [OF ci, of number_to_dst_ptr] arg_cong [OF ci, of search_done] by (simp_all add: info0_def)
      then have "clear_found j = (clear_found i)\<lparr>dst_ptr_not_leading_to_static_ptr := q, number_to_dst_ptr := number_to_dst_ptr info + 1,
        search_done := (number_to_static_ptr info = 1 \<and> path_dst_ptr_to_static_ptr info = not_public_path)\<rparr>"
        using x(1) state(1) by (simp add: j_def)
      then show ?thesis unfolding ci by (simp add: info0_def)
    qed
    have "\<exists>x. (x = no \<longrightarrow> A = []) \<and> clear_found info' = clear_found (info\<lparr>path_dynamic_ptr_to_dst_ptr := pb,
       dst_ptr_not_leading_to_static_ptr := q, number_to_dst_ptr := number_to_dst_ptr info + 1,
       search_done := (number_to_static_ptr info = 1 \<and> path_dst_ptr_to_static_ptr info = not_public_path),
       is_dst_type_derived_from_static_type := x\<rparr>)"
    proof (cases "\<exists>n. T = Class n")
      case True
      then have "A = []" "info' = record_derived False j" using A(1) type(3) by (auto simp: r)
      moreover have "clear_found (record_derived False j) = (clear_found j)\<lparr>is_dst_type_derived_from_static_type := no\<rparr>"
        by (simp add: record_derived_def)
      ultimately show ?thesis unfolding cj by (intro exI [of _ no]) simp
    next
      case False
      then have "info' = j" by (cases T) (simp_all add: r)
      then show ?thesis using cj x(2) by blast
    qed
    then show ?thesis using frame False by simp
  qed
qed

end
