(* ===== verification/CastProperties.thy ===== *)
theory CastProperties
  imports SearchAbove
begin

unbundle bit_operations_syntax

text \<open>
  \<open>__dynamic_cast\<close> against the rule that its comment states, on the graph of base class subobjects. The search below is
  compared with the set of the visits it accounts for: \<open>good_state\<close> says what the search state records of them, and
  \<open>bad_state\<close> that the cast has failed for good.
\<close>

section \<open>The rule\<close>

text \<open>An object is its type and address.\<close>

definition is_base :: "memory \<Rightarrow> type_info \<times> u64 \<Rightarrow> type_info \<times> u64 \<Rightarrow> bool" where
  "is_base mem = (\<lambda>(T, p) (U, q). (U, q) \<in> set (map (\<lambda>(U, q, pub). (U, q)) (paths (offset_to_base mem) T p True)))"

definition is_public_base :: "memory \<Rightarrow> type_info \<times> u64 \<Rightarrow> type_info \<times> u64 \<Rightarrow> bool" where
  "is_public_base mem = (\<lambda>(T, p) (U, q). (U, q, True) \<in> set (paths (offset_to_base mem) T p True))"

text \<open>The addresses of the subobjects of the destination type, split by whether the static object is a base of them.\<close>

definition dst_addresses :: "memory \<Rightarrow> type_info \<times> u64 \<Rightarrow> type_info \<Rightarrow> u64 list" where
  "dst_addresses mem = (\<lambda>(T, p) dst. remdups (map (fst \<circ> snd) (filter (\<lambda>v. fst v = dst) (paths (offset_to_base mem) T p True))))"

definition flavor_1 :: "memory \<Rightarrow> type_info \<times> u64 \<Rightarrow> type_info \<Rightarrow> type_info \<times> u64 \<Rightarrow> u64 list" where
  "flavor_1 mem N dst S = filter (\<lambda>q. is_base mem (dst, q) S) (dst_addresses mem N dst)"

definition flavor_2 :: "memory \<Rightarrow> type_info \<times> u64 \<Rightarrow> type_info \<Rightarrow> type_info \<times> u64 \<Rightarrow> u64 list" where
  "flavor_2 mem N dst S = filter (\<lambda>q. \<not> is_base mem (dst, q) S) (dst_addresses mem N dst)"

definition cast_spec :: "memory \<Rightarrow> type_info \<times> u64 \<Rightarrow> type_info \<Rightarrow> type_info \<times> u64 \<Rightarrow> u64" where
  "cast_spec mem N dst S = (case (flavor_1 mem N dst S, flavor_2 mem N dst S) of
     ([q], others) \<Rightarrow>
       if is_public_base mem (dst, q) S \<or> others = [] \<and> is_public_base mem N S \<and> is_public_base mem N (dst, q) then q else 0
   | ([], [q]) \<Rightarrow> if is_public_base mem N S \<and> is_public_base mem N (dst, q) then q else 0
   | _ \<Rightarrow> 0)"

section \<open>What a search records\<close>

definition above :: "memory \<Rightarrow> bool \<Rightarrow> type_info \<Rightarrow> type_info \<Rightarrow> u64 \<Rightarrow> subobject list" where
  "above mem us S D q = visits (offset_to_base mem) (\<lambda>U. is_equal U S us) D q True"

definition leading :: "memory \<Rightarrow> bool \<Rightarrow> type_info \<Rightarrow> u64 \<Rightarrow> type_info \<Rightarrow> subobject set \<Rightarrow> u64 set" where
  "leading mem us S sp D E = {q. (\<exists>pub. (D, q, pub) \<in> E) \<and> leads sp (above mem us S D q)}"

definition not_leading :: "memory \<Rightarrow> bool \<Rightarrow> type_info \<Rightarrow> u64 \<Rightarrow> type_info \<Rightarrow> subobject set \<Rightarrow> u64 set" where
  "not_leading mem us S sp D E = {q. (\<exists>pub. (D, q, pub) \<in> E) \<and> \<not> leads sp (above mem us S D q)}"

definition search_state :: "type_info \<Rightarrow> u64 \<Rightarrow> type_info \<Rightarrow> dynamic_cast_info \<Rightarrow> bool" where
  "search_state S sp D info \<longleftrightarrow> static_type info = S \<and> static_ptr info = sp \<and> dst_type info = D \<and> number_of_dst_type info \<noteq> 1"

definition records_leading :: "memory \<Rightarrow> bool \<Rightarrow> type_info \<Rightarrow> u64 \<Rightarrow> type_info \<Rightarrow> subobject set \<Rightarrow> dynamic_cast_info \<Rightarrow> bool" where
  "records_leading mem us S sp D E info \<longleftrightarrow>
     leading mem us S sp D E = {} \<and> dst_ptr_leading_to_static_ptr info = 0 \<and> number_to_static_ptr info = 0 \<and>
       path_dst_ptr_to_static_ptr info = unknown \<or>
     leading mem us S sp D E = {dst_ptr_leading_to_static_ptr info} \<and> dst_ptr_leading_to_static_ptr info \<noteq> 0 \<and>
       number_to_static_ptr info = 1 \<and>
       path_dst_ptr_to_static_ptr info = path_of (leads_publicly sp (above mem us S D (dst_ptr_leading_to_static_ptr info)))"

definition records_not_leading :: "memory \<Rightarrow> bool \<Rightarrow> type_info \<Rightarrow> u64 \<Rightarrow> type_info \<Rightarrow> subobject set \<Rightarrow> dynamic_cast_info \<Rightarrow> bool" where
  "records_not_leading mem us S sp D E info \<longleftrightarrow>
     not_leading mem us S sp D E = {} \<and> number_to_dst_ptr info = 0 \<and> dst_ptr_not_leading_to_static_ptr info = 0 \<or>
     not_leading mem us S sp D E = {dst_ptr_not_leading_to_static_ptr info} \<and> number_to_dst_ptr info = 1 \<or>
     2 \<le> number_to_dst_ptr info \<and> (\<exists>a\<in>not_leading mem us S sp D E. \<exists>b\<in>not_leading mem us S sp D E. a \<noteq> b)"

definition records_static_path :: "type_info \<Rightarrow> u64 \<Rightarrow> subobject set \<Rightarrow> dynamic_cast_info \<Rightarrow> bool" where
  "records_static_path S sp E info \<longleftrightarrow> (path_dynamic_ptr_to_static_ptr info = public_path \<longleftrightarrow> (S, sp, True) \<in> E)"

text \<open>The path to the subobject of the destination type only matters when there is one.\<close>

definition records_dst_path :: "type_info \<Rightarrow> subobject set \<Rightarrow> dynamic_cast_info \<Rightarrow> bool" where
  "records_dst_path D E info \<longleftrightarrow> (\<forall>q. (\<exists>c. (D, q, c) \<in> E) \<and> (\<forall>a c. (D, a, c) \<in> E \<longrightarrow> a = q) \<longrightarrow>
     (path_dynamic_ptr_to_dst_ptr info = public_path \<longleftrightarrow> (D, q, True) \<in> E))"

definition good_state :: "memory \<Rightarrow> bool \<Rightarrow> type_info \<Rightarrow> u64 \<Rightarrow> type_info \<Rightarrow> subobject set \<Rightarrow> dynamic_cast_info \<Rightarrow> bool" where
  "good_state mem us S sp D E info \<longleftrightarrow> search_state S sp D info \<and> \<not> search_done info \<and> records_leading mem us S sp D E info \<and>
     (dst_ptr_not_leading_to_static_ptr info \<noteq> 0 \<longrightarrow> \<not> leads sp (above mem us S D (dst_ptr_not_leading_to_static_ptr info))) \<and>
     (is_dst_type_derived_from_static_type info = no \<longrightarrow> (\<forall>q. above mem us S D q = [])) \<and>
     (path_dst_ptr_to_static_ptr info \<noteq> public_path \<longrightarrow>
       records_not_leading mem us S sp D E info \<and> records_static_path S sp E info \<and> records_dst_path D E info)"

definition cast_fails :: "memory \<Rightarrow> bool \<Rightarrow> type_info \<Rightarrow> u64 \<Rightarrow> type_info \<Rightarrow> subobject set \<Rightarrow> bool" where
  "cast_fails mem us S sp D E \<longleftrightarrow>
     (\<exists>a\<in>leading mem us S sp D E. \<exists>b\<in>leading mem us S sp D E. a \<noteq> b) \<or>
     (\<exists>q\<in>leading mem us S sp D E. \<not> leads_publicly sp (above mem us S D q)) \<and> not_leading mem us S sp D E \<noteq> {}"

definition bad_state :: "memory \<Rightarrow> bool \<Rightarrow> type_info \<Rightarrow> u64 \<Rightarrow> type_info \<Rightarrow> subobject set \<Rightarrow> dynamic_cast_info \<Rightarrow> bool" where
  "bad_state mem us S sp D E info \<longleftrightarrow> search_done info \<and> cast_result info = 0 \<and> cast_fails mem us S sp D E"

definition recorded :: "memory \<Rightarrow> bool \<Rightarrow> type_info \<Rightarrow> u64 \<Rightarrow> type_info \<Rightarrow> subobject set \<Rightarrow> dynamic_cast_info \<Rightarrow> bool" where
  "recorded mem us S sp D E info \<longleftrightarrow> good_state mem us S sp D E info \<or> bad_state mem us S sp D E info"

lemma leading_mono: "E \<subseteq> E' \<Longrightarrow> leading mem us S sp D E \<subseteq> leading mem us S sp D E'"
  "E \<subseteq> E' \<Longrightarrow> not_leading mem us S sp D E \<subseteq> not_leading mem us S sp D E'"
  by (auto simp: leading_def not_leading_def)

lemma leading_Un: "leading mem us S sp D (E \<union> X) = leading mem us S sp D E \<union> leading mem us S sp D X"
  "not_leading mem us S sp D (E \<union> X) = not_leading mem us S sp D E \<union> not_leading mem us S sp D X"
  by (auto simp: leading_def not_leading_def)

lemma cast_fails_mono: "cast_fails mem us S sp D E \<Longrightarrow> E \<subseteq> E' \<Longrightarrow> cast_fails mem us S sp D E'"
  using leading_mono [of E E' mem us S sp D] unfolding cast_fails_def by blast

lemma bad_state_mono: "bad_state mem us S sp D E info \<Longrightarrow> E \<subseteq> E' \<Longrightarrow> bad_state mem us S sp D E' info"
  unfolding bad_state_def using cast_fails_mono by blast

section \<open>One visit\<close>

lemma leading_insert:
  "leading mem us S sp D (insert (U, q, pub) E) =
     (if U = D \<and> leads sp (above mem us S D q) then insert q (leading mem us S sp D E) else leading mem us S sp D E)"
  "not_leading mem us S sp D (insert (U, q, pub) E) =
     (if U = D \<and> \<not> leads sp (above mem us S D q) then insert q (not_leading mem us S sp D E) else not_leading mem us S sp D E)"
  by (auto simp: leading_def not_leading_def)

lemma records_leading_cong:
  "dst_ptr_leading_to_static_ptr i = dst_ptr_leading_to_static_ptr j \<Longrightarrow> number_to_static_ptr i = number_to_static_ptr j \<Longrightarrow>
    path_dst_ptr_to_static_ptr i = path_dst_ptr_to_static_ptr j \<Longrightarrow> leading mem us S sp D E = leading mem us S sp D E' \<Longrightarrow>
    records_leading mem us S sp D E i = records_leading mem us S sp D E' j"
  by (simp add: records_leading_def)

lemma records_not_leading_cong:
  "dst_ptr_not_leading_to_static_ptr i = dst_ptr_not_leading_to_static_ptr j \<Longrightarrow> number_to_dst_ptr i = number_to_dst_ptr j \<Longrightarrow>
    not_leading mem us S sp D E = not_leading mem us S sp D E' \<Longrightarrow>
    records_not_leading mem us S sp D E i = records_not_leading mem us S sp D E' j"
  by (simp add: records_not_leading_def)

text \<open>A change of what is not recorded of the leading subobjects.\<close>

lemma good_state_update:
  assumes good: "good_state mem us S sp D E info"
    and same: "search_state S sp D info'" "\<not> search_done info'"
      "dst_ptr_leading_to_static_ptr info' = dst_ptr_leading_to_static_ptr info"
      "number_to_static_ptr info' = number_to_static_ptr info" "path_dst_ptr_to_static_ptr info' = path_dst_ptr_to_static_ptr info"
      "is_dst_type_derived_from_static_type info' = is_dst_type_derived_from_static_type info"
    and "leading mem us S sp D E' = leading mem us S sp D E"
    and "dst_ptr_not_leading_to_static_ptr info' = dst_ptr_not_leading_to_static_ptr info"
    and "path_dst_ptr_to_static_ptr info \<noteq> public_path \<Longrightarrow>
      records_not_leading mem us S sp D E' info' \<and> records_static_path S sp E' info' \<and> records_dst_path D E' info'"
  shows "good_state mem us S sp D E' info'"
proof -
  have "records_leading mem us S sp D E' info' = records_leading mem us S sp D E info"
    by (rule records_leading_cong) (use same assms(8) in simp_all)
  then show ?thesis using good same assms(9,10) unfolding good_state_def by simp
qed

lemma good_states: "good_state mem us S sp D E info \<Longrightarrow> search_state S sp D info \<and> \<not> search_done info \<and> static_ptr info = sp"
  by (simp add: good_state_def search_state_def)

lemma static_visit:
  assumes good: "good_state mem us S sp D E info" and "S \<noteq> D"
  shows "good_state mem us S sp D (insert (S, q, pub) E) (process_static_type_below_dst info q (path_of pub))"
proof -
  define info' where "info' = process_static_type_below_dst info q (path_of pub)"
  note sp = good_states [OF good]
  have same: "leading mem us S sp D (insert (S, q, pub) E) = leading mem us S sp D E"
    "not_leading mem us S sp D (insert (S, q, pub) E) = not_leading mem us S sp D E"
    using \<open>S \<noteq> D\<close> by (simp_all add: leading_insert)
  have path: "path_dynamic_ptr_to_static_ptr info' = public_path \<longleftrightarrow>
      path_dynamic_ptr_to_static_ptr info = public_path \<or> q = sp \<and> pub"
    using sp by (simp add: info'_def process_static_type_below_dst_def)
  have rest: "info' = info \<or> info' = info\<lparr>path_dynamic_ptr_to_static_ptr := path_of pub\<rparr>"
    by (simp add: info'_def process_static_type_below_dst_def)
  show ?thesis unfolding info'_def [symmetric]
  proof (rule good_state_update [OF good])
    assume "path_dst_ptr_to_static_ptr info \<noteq> public_path"
    then have old: "records_not_leading mem us S sp D E info" "records_static_path S sp E info" "records_dst_path D E info"
      using good by (simp_all add: good_state_def)
    have "records_not_leading mem us S sp D (insert (S, q, pub) E) info' = records_not_leading mem us S sp D E info"
      by (rule records_not_leading_cong) (use rest same(2) in auto)
    moreover have "records_static_path S sp (insert (S, q, pub) E) info'"
      using old(2) path by (auto simp: records_static_path_def)
    moreover have "records_dst_path D (insert (S, q, pub) E) info'"
      using old(3) rest \<open>S \<noteq> D\<close> by (auto simp: records_dst_path_def)
    ultimately show "records_not_leading mem us S sp D (insert (S, q, pub) E) info' \<and>
      records_static_path S sp (insert (S, q, pub) E) info' \<and> records_dst_path D (insert (S, q, pub) E) info'" using old(1) by blast
  qed (use rest sp same(1) in \<open>auto simp: search_state_def\<close>)
qed

lemma dst_revisit:
  assumes good: "good_state mem us S sp D E info" and "S \<noteq> D" "q \<noteq> 0"
    and seen: "q = dst_ptr_leading_to_static_ptr info \<or> q = dst_ptr_not_leading_to_static_ptr info"
    and info': "info' = (if pub then info\<lparr>path_dynamic_ptr_to_dst_ptr := public_path\<rparr> else info)"
  shows "good_state mem us S sp D (insert (D, q, pub) E) info'"
proof -
  have L: "records_leading mem us S sp D E info" using good by (simp add: good_state_def)
  have iff: "leads sp (above mem us S D q) \<longleftrightarrow> q = dst_ptr_leading_to_static_ptr info"
  proof
    assume "q = dst_ptr_leading_to_static_ptr info"
    then show "leads sp (above mem us S D q)" using L \<open>q \<noteq> 0\<close> by (auto simp: records_leading_def leading_def)
  next
    assume "leads sp (above mem us S D q)"
    then show "q = dst_ptr_leading_to_static_ptr info" using seen good \<open>q \<noteq> 0\<close> by (auto simp: good_state_def)
  qed
  then have lead: "leading mem us S sp D (insert (D, q, pub) E) = leading mem us S sp D E"
    using L \<open>q \<noteq> 0\<close> by (auto simp: leading_insert records_leading_def)
  show ?thesis
  proof (rule good_state_update [OF good _ _ _ _ _ _ lead])
    assume "path_dst_ptr_to_static_ptr info \<noteq> public_path"
    then have old: "records_not_leading mem us S sp D E info" "records_static_path S sp E info" "records_dst_path D E info"
      using good by (simp_all add: good_state_def)
    have known: "(\<exists>pub. (D, q, pub) \<in> E) \<or> (\<exists>a b. a \<noteq> b \<and> (\<exists>pub. (D, a, pub) \<in> E) \<and> (\<exists>pub. (D, b, pub) \<in> E))"
    proof (cases "q = dst_ptr_leading_to_static_ptr info")
      case True
      then have "q \<in> leading mem us S sp D E" using L \<open>q \<noteq> 0\<close> by (auto simp: records_leading_def)
      then show ?thesis by (auto simp: leading_def)
    next
      case False
      then have "q = dst_ptr_not_leading_to_static_ptr info" using seen by blast
      then have "q \<in> not_leading mem us S sp D E \<or> (\<exists>a\<in>not_leading mem us S sp D E. \<exists>b\<in>not_leading mem us S sp D E. a \<noteq> b)"
        using old(1) \<open>q \<noteq> 0\<close> unfolding records_not_leading_def by blast
      then show ?thesis unfolding not_leading_def by blast
    qed
    have "records_not_leading mem us S sp D (insert (D, q, pub) E) info'"
    proof (cases "leads sp (above mem us S D q)")
      case True
      have "records_not_leading mem us S sp D (insert (D, q, pub) E) info' = records_not_leading mem us S sp D E info"
        by (rule records_not_leading_cong) (use info' True in \<open>simp_all add: leading_insert\<close>)
      then show ?thesis using old(1) by simp
    next
      case False
      then have q: "q = dst_ptr_not_leading_to_static_ptr info" using iff seen by blast
      have set: "not_leading mem us S sp D (insert (D, q, pub) E) = insert q (not_leading mem us S sp D E)"
        using False by (simp add: leading_insert)
      have same: "dst_ptr_not_leading_to_static_ptr info' = q" "number_to_dst_ptr info' = number_to_dst_ptr info"
        using info' q by simp_all
      from old(1) \<open>q \<noteq> 0\<close> have "not_leading mem us S sp D E = {q} \<and> number_to_dst_ptr info = 1 \<or>
        2 \<le> number_to_dst_ptr info \<and> (\<exists>a\<in>not_leading mem us S sp D E. \<exists>b\<in>not_leading mem us S sp D E. a \<noteq> b)"
        unfolding records_not_leading_def q by auto
      then show ?thesis
      proof
        assume "not_leading mem us S sp D E = {q} \<and> number_to_dst_ptr info = 1"
        then show ?thesis by (simp add: records_not_leading_def set same)
      next
        assume "2 \<le> number_to_dst_ptr info \<and> (\<exists>a\<in>not_leading mem us S sp D E. \<exists>b\<in>not_leading mem us S sp D E. a \<noteq> b)"
        then have "2 \<le> number_to_dst_ptr info' \<and> (\<exists>a\<in>insert q (not_leading mem us S sp D E). \<exists>b\<in>insert q (not_leading mem us S sp D E). a \<noteq> b)"
          unfolding same by (meson insertI2)
        then show ?thesis unfolding records_not_leading_def set by (intro disjI2)
      qed
    qed
    moreover have "records_static_path S sp (insert (D, q, pub) E) info'"
      using old(2) info' \<open>S \<noteq> D\<close> by (auto simp: records_static_path_def)
    moreover have "records_dst_path D (insert (D, q, pub) E) info'"
      unfolding records_dst_path_def
    proof (intro allI impI)
      fix r assume r: "(\<exists>c. (D, r, c) \<in> insert (D, q, pub) E) \<and> (\<forall>a c. (D, a, c) \<in> insert (D, q, pub) E \<longrightarrow> a = r)"
      then have only: "a = r" if "(D, a, c) \<in> insert (D, q, pub) E" for a c using that by blast
      have "q = r" using only [of q pub] by simp
      moreover have "\<exists>c. (D, r, c) \<in> E" using known only \<open>q = r\<close> by (metis insertI2)
      then have "path_dynamic_ptr_to_dst_ptr info = public_path \<longleftrightarrow> (D, r, True) \<in> E"
        using old(3) only unfolding records_dst_path_def by (meson insertI2)
      ultimately show "path_dynamic_ptr_to_dst_ptr info' = public_path \<longleftrightarrow> (D, r, True) \<in> insert (D, q, pub) E"
        by (auto simp: info')
    qed
    ultimately show "records_not_leading mem us S sp D (insert (D, q, pub) E) info' \<and>
      records_static_path S sp (insert (D, q, pub) E) info' \<and> records_dst_path D (insert (D, q, pub) E) info'" by blast
  qed (use good_states [OF good] info' in \<open>auto simp: search_state_def\<close>)
qed

lemma cast_result_zero:
  "2 \<le> number_to_static_ptr info \<Longrightarrow> cast_result info = 0"
  "number_to_static_ptr info = 1 \<Longrightarrow> path_dst_ptr_to_static_ptr info \<noteq> public_path \<Longrightarrow> 0 < number_to_dst_ptr info \<Longrightarrow> cast_result info = 0"
  by (simp_all add: cast_result_def)

lemma dst_first_visit:
  assumes good: "good_state mem us S sp D E info" and "S \<noteq> D" "q \<noteq> 0"
    and new: "q \<noteq> dst_ptr_leading_to_static_ptr info" "q \<noteq> dst_ptr_not_leading_to_static_ptr info"
    and type: "honest (offset_to_base mem) D q" "only_named us S D" "\<not> is_equal D S us" "is_class D"
    and info': "info' = search_found_dst mem us D info q (path_of pub)"
  shows "recorded mem us S sp D (insert (D, q, pub) E) info'"
proof -
  define A where "A = above mem us S D q"
  have state: "search_state S sp D info" "\<not> search_done info" "records_leading mem us S sp D E info"
    "is_dst_type_derived_from_static_type info = no \<longrightarrow> (\<forall>q. above mem us S D q = [])"
    using good by (simp_all add: good_state_def)
  have sp: "static_type info = S" "static_ptr info = sp" "dst_type info = D" "number_of_dst_type info \<noteq> 1"
    using state(1) by (simp_all add: search_state_def)
  have n: "if dst_ptr_leading_to_static_ptr info = 0 then number_to_static_ptr info = 0 else number_to_static_ptr info = 1"
    using state(3) by (auto simp: records_leading_def)
  have A: "A = visits (offset_to_base mem) (\<lambda>U. is_equal U S us) D q True" by (simp add: A_def above_def)
  have empty: "is_dst_type_derived_from_static_type info = no \<longrightarrow> A = []" using state(4) by (simp add: A_def)
  note f = found_new_dst [OF state(2) sp(1,4) \<open>q \<noteq> 0\<close> new n type A empty info', unfolded sp]
  have types: "(\<forall>q. above mem us S D q = []) \<longleftrightarrow> A = []"
    unfolding A_def above_def using visits_empty [of "offset_to_base mem" "\<lambda>U. is_equal U S us" D] by blast
  show ?thesis
  proof (cases "leads sp A")
    case True
    show ?thesis
    proof (cases "dst_ptr_leading_to_static_ptr info = 0")
      case zero: True
      then obtain x where x: "x \<noteq> no" "clear_found info' = clear_found (info\<lparr>path_dynamic_ptr_to_dst_ptr := path_of pub, dst_ptr_leading_to_static_ptr := q,
         path_dst_ptr_to_static_ptr := path_of (leads_publicly sp A), number_to_static_ptr := 1,
         is_dst_type_derived_from_static_type := x\<rparr>)"
        using f True by auto
      have fields: "search_done info' = search_done info" "dst_ptr_leading_to_static_ptr info' = q" "number_to_static_ptr info' = 1"
        "path_dst_ptr_to_static_ptr info' = path_of (leads_publicly sp A)" "is_dst_type_derived_from_static_type info' = x"
        "dst_ptr_not_leading_to_static_ptr info' = dst_ptr_not_leading_to_static_ptr info"
        "number_to_dst_ptr info' = number_to_dst_ptr info" "path_dynamic_ptr_to_dst_ptr info' = path_of pub"
        "path_dynamic_ptr_to_static_ptr info' = path_dynamic_ptr_to_static_ptr info"
        using arg_cong [OF x(2), of search_done] arg_cong [OF x(2), of dst_ptr_leading_to_static_ptr]
          arg_cong [OF x(2), of number_to_static_ptr] arg_cong [OF x(2), of path_dst_ptr_to_static_ptr]
          arg_cong [OF x(2), of is_dst_type_derived_from_static_type] arg_cong [OF x(2), of dst_ptr_not_leading_to_static_ptr]
          arg_cong [OF x(2), of number_to_dst_ptr] arg_cong [OF x(2), of path_dynamic_ptr_to_dst_ptr]
          arg_cong [OF x(2), of path_dynamic_ptr_to_static_ptr] by simp_all
      have none: "leading mem us S sp D E = {}" "path_dst_ptr_to_static_ptr info = unknown"
        using state(3) zero by (auto simp: records_leading_def)
      then have old: "records_not_leading mem us S sp D E info" "records_static_path S sp E info" "records_dst_path D E info"
        using good by (simp_all add: good_state_def)
      have lead: "leading mem us S sp D (insert (D, q, pub) E) = {q}"
        "not_leading mem us S sp D (insert (D, q, pub) E) = not_leading mem us S sp D E"
        using True none by (simp_all add: leading_insert A_def)
      have fresh: "(D, q, c) \<notin> E" for c using none(1) True by (auto simp: leading_def A_def)
      have "search_state S sp D info'" using f sp by (simp add: search_state_def)
      moreover have "records_leading mem us S sp D (insert (D, q, pub) E) info'"
        unfolding records_leading_def lead fields using \<open>q \<noteq> 0\<close> by (simp add: A_def)
      moreover have "records_not_leading mem us S sp D (insert (D, q, pub) E) info'"
        using old(1) by (subst records_not_leading_cong [OF fields(6,7) lead(2)])
      moreover have "records_static_path S sp (insert (D, q, pub) E) info'"
        using old(2) \<open>S \<noteq> D\<close> by (auto simp: records_static_path_def fields)
      moreover have "records_dst_path D (insert (D, q, pub) E) info'"
        unfolding records_dst_path_def fields
      proof (intro allI impI)
        fix r assume r: "(\<exists>c. (D, r, c) \<in> insert (D, q, pub) E) \<and> (\<forall>a c. (D, a, c) \<in> insert (D, q, pub) E \<longrightarrow> a = r)"
        then have "q = r" by (meson insertI1)
        then show "path_of pub = public_path \<longleftrightarrow> (D, r, True) \<in> insert (D, q, pub) E" using fresh by auto
      qed
      moreover have "dst_ptr_not_leading_to_static_ptr info \<noteq> 0 \<longrightarrow> \<not> leads sp (above mem us S D (dst_ptr_not_leading_to_static_ptr info))"
        using good by (simp add: good_state_def)
      ultimately have "good_state mem us S sp D (insert (D, q, pub) E) info'"
        unfolding good_state_def fields using state(2) x(1) by blast
      then show ?thesis by (simp add: recorded_def)
    next
      case False
      then have "search_done info'" "number_to_static_ptr info' \<ge> 2" using f True by simp_all
      moreover have "cast_fails mem us S sp D (insert (D, q, pub) E)"
        using state(3) False True new(1) unfolding cast_fails_def records_leading_def leading_insert A_def by auto
      ultimately show ?thesis using cast_result_zero(1) by (simp add: recorded_def bad_state_def)
    qed
  next
    case False
    then obtain x where x: "x = no \<longrightarrow> A = []" "clear_found info' = clear_found (info\<lparr>path_dynamic_ptr_to_dst_ptr := path_of pub,
       dst_ptr_not_leading_to_static_ptr := q, number_to_dst_ptr := number_to_dst_ptr info + 1,
       search_done := (number_to_static_ptr info = 1 \<and> path_dst_ptr_to_static_ptr info = not_public_path),
       is_dst_type_derived_from_static_type := x\<rparr>)"
      using f by auto
    have fields: "search_done info' = (number_to_static_ptr info = 1 \<and> path_dst_ptr_to_static_ptr info = not_public_path)"
      "dst_ptr_leading_to_static_ptr info' = dst_ptr_leading_to_static_ptr info"
      "number_to_static_ptr info' = number_to_static_ptr info" "path_dst_ptr_to_static_ptr info' = path_dst_ptr_to_static_ptr info"
      "is_dst_type_derived_from_static_type info' = x" "dst_ptr_not_leading_to_static_ptr info' = q"
      "number_to_dst_ptr info' = number_to_dst_ptr info + 1" "path_dynamic_ptr_to_dst_ptr info' = path_of pub"
      "path_dynamic_ptr_to_static_ptr info' = path_dynamic_ptr_to_static_ptr info"
      using arg_cong [OF x(2), of search_done] arg_cong [OF x(2), of dst_ptr_leading_to_static_ptr]
        arg_cong [OF x(2), of number_to_static_ptr] arg_cong [OF x(2), of path_dst_ptr_to_static_ptr]
        arg_cong [OF x(2), of is_dst_type_derived_from_static_type] arg_cong [OF x(2), of dst_ptr_not_leading_to_static_ptr]
        arg_cong [OF x(2), of number_to_dst_ptr] arg_cong [OF x(2), of path_dynamic_ptr_to_dst_ptr]
        arg_cong [OF x(2), of path_dynamic_ptr_to_static_ptr] by simp_all
    have lead: "leading mem us S sp D (insert (D, q, pub) E) = leading mem us S sp D E"
      "not_leading mem us S sp D (insert (D, q, pub) E) = insert q (not_leading mem us S sp D E)"
      using False by (simp_all add: leading_insert A_def)
    show ?thesis
    proof (cases "number_to_static_ptr info = 1 \<and> path_dst_ptr_to_static_ptr info = not_public_path")
      case True
      then have "leading mem us S sp D E = {dst_ptr_leading_to_static_ptr info}"
        "\<not> leads_publicly sp (above mem us S D (dst_ptr_leading_to_static_ptr info))"
        using state(3) by (auto simp: records_leading_def)
      then have "cast_fails mem us S sp D (insert (D, q, pub) E)" unfolding cast_fails_def lead by blast
      moreover have "cast_result info' = 0" by (rule cast_result_zero(2)) (use True fields in simp_all)
      ultimately show ?thesis using True fields(1) by (simp add: recorded_def bad_state_def)
    next
      case no: False
      have "records_not_leading mem us S sp D (insert (D, q, pub) E) info' \<and> records_static_path S sp (insert (D, q, pub) E) info' \<and>
        records_dst_path D (insert (D, q, pub) E) info'" if "path_dst_ptr_to_static_ptr info \<noteq> public_path"
      proof -
        have old: "records_not_leading mem us S sp D E info" "records_static_path S sp E info" "records_dst_path D E info"
          using good that by (simp_all add: good_state_def)
        from old(1) have "records_not_leading mem us S sp D (insert (D, q, pub) E) info'" unfolding records_not_leading_def lead fields
        proof (elim disjE conjE)
          assume "not_leading mem us S sp D E = {dst_ptr_not_leading_to_static_ptr info}" "number_to_dst_ptr info = 1"
          then show "insert q (not_leading mem us S sp D E) = {} \<and> number_to_dst_ptr info + 1 = 0 \<and> q = 0 \<or>
            insert q (not_leading mem us S sp D E) = {q} \<and> number_to_dst_ptr info + 1 = 1 \<or>
            2 \<le> number_to_dst_ptr info + 1 \<and>
              (\<exists>a\<in>insert q (not_leading mem us S sp D E). \<exists>b\<in>insert q (not_leading mem us S sp D E). a \<noteq> b)"
            using new(2) by auto
        next
          assume "2 \<le> number_to_dst_ptr info" "\<exists>a\<in>not_leading mem us S sp D E. \<exists>b\<in>not_leading mem us S sp D E. a \<noteq> b"
          then show "insert q (not_leading mem us S sp D E) = {} \<and> number_to_dst_ptr info + 1 = 0 \<and> q = 0 \<or>
            insert q (not_leading mem us S sp D E) = {q} \<and> number_to_dst_ptr info + 1 = 1 \<or>
            2 \<le> number_to_dst_ptr info + 1 \<and>
              (\<exists>a\<in>insert q (not_leading mem us S sp D E). \<exists>b\<in>insert q (not_leading mem us S sp D E). a \<noteq> b)"
            by (intro disjI2 conjI) (simp, meson insertI2)
        qed simp
        moreover have "records_static_path S sp (insert (D, q, pub) E) info'"
          using old(2) \<open>S \<noteq> D\<close> by (auto simp: records_static_path_def fields)
        moreover have "records_dst_path D (insert (D, q, pub) E) info'"
          unfolding records_dst_path_def fields
        proof (intro allI impI)
          fix r assume r: "(\<exists>c. (D, r, c) \<in> insert (D, q, pub) E) \<and> (\<forall>a c. (D, a, c) \<in> insert (D, q, pub) E \<longrightarrow> a = r)"
          then have "q = r" by (meson insertI1)
          have "(D, q, c) \<notin> E" for c
          proof
            assume "(D, q, c) \<in> E"
            then have "q \<in> not_leading mem us S sp D E" using False by (auto simp: not_leading_def A_def)
            moreover have "a = r" if "a \<in> not_leading mem us S sp D E" for a
              using that r unfolding not_leading_def by blast
            ultimately show False using old(1) new(2) unfolding records_not_leading_def by (metis empty_iff singletonD)
          qed
          then show "path_of pub = public_path \<longleftrightarrow> (D, r, True) \<in> insert (D, q, pub) E" using \<open>q = r\<close> by auto
        qed
        ultimately show ?thesis by blast
      qed
      moreover have "records_leading mem us S sp D (insert (D, q, pub) E) info'"
        using state(3) by (subst records_leading_cong [OF fields(2,3,4) lead(1)])
      moreover have "search_state S sp D info'" using f sp by (simp add: search_state_def)
      moreover have "x = no \<longrightarrow> (\<forall>q. above mem us S D q = [])" using x(1) types by blast
      moreover have "\<not> leads sp (above mem us S D q)" using False by (simp add: A_def)
      ultimately have "good_state mem us S sp D (insert (D, q, pub) E) info'"
        unfolding good_state_def fields using no by simp
      then show ?thesis by (simp add: recorded_def)
    qed
  qed
qed

section \<open>Visits that are left out\<close>

lemma skip_after_public:
  assumes "good_state mem us S sp D E info" "path_dst_ptr_to_static_ptr info = public_path"
    and "leading mem us S sp D X \<subseteq> leading mem us S sp D E"
  shows "good_state mem us S sp D (E \<union> X) info"
proof (rule good_state_update [OF assms(1)])
  show "leading mem us S sp D (E \<union> X) = leading mem us S sp D E" using assms(3) by (auto simp: leading_Un)
qed (use good_states [OF assms(1)] assms(2) in simp_all)

lemma skip_other:
  assumes good: "good_state mem us S sp D E info" and X: "\<And>q c. (D, q, c) \<notin> X" "(S, sp, True) \<notin> X"
  shows "good_state mem us S sp D (E \<union> X) info"
proof -
  have none: "leading mem us S sp D X = {}" "not_leading mem us S sp D X = {}" using X(1) by (auto simp: leading_def not_leading_def)
  show ?thesis
  proof (rule good_state_update [OF good])
    assume "path_dst_ptr_to_static_ptr info \<noteq> public_path"
    then have old: "records_not_leading mem us S sp D E info" "records_static_path S sp E info" "records_dst_path D E info"
      using good by (simp_all add: good_state_def)
    have "records_not_leading mem us S sp D (E \<union> X) info"
      using old(1) none by (subst records_not_leading_cong [where j = info and E' = E]) (simp_all add: leading_Un)
    moreover have "records_static_path S sp (E \<union> X) info" using old(2) X(2) by (simp add: records_static_path_def)
    moreover have "records_dst_path D (E \<union> X) info" using old(3) X(1) by (simp add: records_dst_path_def)
    ultimately show "records_not_leading mem us S sp D (E \<union> X) info \<and> records_static_path S sp (E \<union> X) info \<and>
      records_dst_path D (E \<union> X) info" by blast
  qed (use good_states [OF good] none in \<open>simp_all add: leading_Un\<close>)
qed

lemma bases_paths_append: "bases_paths off (as @ bs) p pub = bases_paths off as p pub @ bases_paths off bs p pub"
  by (simp add: bases_paths_concat)

lemma bases_visits_append: "bases_visits off m (as @ bs) p pub = bases_visits off m as p pub @ bases_visits off m bs p pub"
  by (simp add: bases_visits_concat)

lemma bases_visits_subset: "(U, q, r) \<in> set (bases_visits off m bs p pub) \<Longrightarrow> (U, q, r) \<in> set (bases_paths off bs p pub) \<and> m U"
  unfolding in_bases_paths in_bases_visits base_paths.simps base_visits.simps using visits_subset [of U q r off m] by blast

lemma bases_paths_trans:
  "(V, a, s) \<in> set (bases_paths off bs p pub) \<Longrightarrow> (U, q, r) \<in> set (paths off V a s) \<Longrightarrow> (U, q, r) \<in> set (bases_paths off bs p pub)"
  unfolding in_bases_paths base_paths.simps using paths_trans [of V a s off _ _ _ U q r] by blast

lemma above_path:
  assumes "(D, q, c) \<in> set (bases_paths (offset_to_base mem) bs p pub)" "leads sp (above mem us S D q)" "only_named us S D"
  shows "\<exists>r. (S, sp, r) \<in> set (bases_paths (offset_to_base mem) bs p pub)"
proof -
  obtain U r where U: "(U, sp, r) \<in> set (visits (offset_to_base mem) (\<lambda>U. is_equal U S us) D q True)"
    using assms(2) by (auto simp: leads_def above_def)
  from visits_subset [OF this] have "(U, sp, r) \<in> set (paths (offset_to_base mem) D q True)" "is_equal U S us" by auto
  then have "(S, sp, r) \<in> set (paths (offset_to_base mem) D q True)" using only_namedD [OF assms(3)] by blast
  then have "(S, sp, r \<and> c) \<in> set (paths (offset_to_base mem) D q c)" using in_paths_pub [of S sp "r \<and> c" _ D q c] by blast
  then show ?thesis using bases_paths_trans [OF assms(1)] by blast
qed

lemma distinct_nodes:
  assumes "distinct (map (\<lambda>(U, q, pub). (U, q)) (xs @ ys))" "(U, q, r) \<in> set xs" "(U, q, r') \<in> set ys"
  shows False
proof -
  have "(U, q) \<in> (\<lambda>(U, q, pub). (U, q)) ` set xs" using imageI [OF assms(2), of "\<lambda>(U, q, pub). (U, q)"] by simp
  moreover have "(U, q) \<in> (\<lambda>(U, q, pub). (U, q)) ` set ys" using imageI [OF assms(3), of "\<lambda>(U, q, pub). (U, q)"] by simp
  ultimately show False using assms(1) unfolding map_append distinct_append set_map by blast
qed

lemma stop_below_skip:
  fixes as bs mem p pub m
  defines "vs \<equiv> bases_visits (offset_to_base mem) m as p pub" and "us' \<equiv> bases_visits (offset_to_base mem) m bs p pub"
  assumes good: "good_state mem us S sp D (E \<union> set vs) info" and before: "leading mem us S sp D E = {}"
    and stop: "stop_below flags False info"
    and flags: "flags AND diamond_shaped_mask = 0 \<longrightarrow>
        distinct (map (\<lambda>(U, q, pub). (U, q)) (bases_paths (offset_to_base mem) (as @ bs) p pub))"
      "flags AND non_diamond_repeat_mask = 0 \<longrightarrow> (\<forall>U q r q' r'. (U, q, r) \<in> set (bases_paths (offset_to_base mem) (as @ bs) p pub) \<longrightarrow>
        (U, q', r') \<in> set (bases_paths (offset_to_base mem) (as @ bs) p pub) \<longrightarrow> q = q')"
    and named: "only_named us S D"
  shows "good_state mem us S sp D (E \<union> set vs \<union> set us') info"
proof -
  have nd: "\<not> search_done info" using good_states [OF good] by blast
  have dia: "flags AND diamond_shaped_mask = 0" using stop nd by (simp add: stop_below_def split: if_splits)
  have n: "number_to_static_ptr info = 1" using stop nd by (simp add: stop_below_def split: if_splits)
  define d where "d = dst_ptr_leading_to_static_ptr info"
  have "leading mem us S sp D (E \<union> set vs) = {d}" using good n by (auto simp: good_state_def records_leading_def d_def)
  then have "d \<in> leading mem us S sp D (set vs)" using before by (auto simp: leading_Un)
  then obtain c where c: "(D, d, c) \<in> set vs" "leads sp (above mem us S D d)" by (auto simp: leading_def)
  have d_path: "(D, d, c) \<in> set (bases_paths (offset_to_base mem) as p pub)" using bases_visits_subset c(1) unfolding vs_def by blast
  obtain r where sp_path: "(S, sp, r) \<in> set (bases_paths (offset_to_base mem) as p pub)" using above_path [OF d_path c(2) named] by blast
  have distinct: "distinct (map (\<lambda>(U, q, pub). (U, q)) (bases_paths (offset_to_base mem) as p pub @ bases_paths (offset_to_base mem) bs p pub))"
    using flags(1) dia by (simp only: bases_paths_append simp_thms)
  show ?thesis
  proof (cases "flags AND non_diamond_repeat_mask = 0")
    case False
    then have "path_dst_ptr_to_static_ptr info = public_path" using stop nd dia by (simp add: stop_below_def)
    moreover have "q \<notin> leading mem us S sp D (set us')" for q
    proof
      assume "q \<in> leading mem us S sp D (set us')"
      then obtain c' where c': "(D, q, c') \<in> set us'" "leads sp (above mem us S D q)" by (auto simp: leading_def)
      have "(D, q, c') \<in> set (bases_paths (offset_to_base mem) bs p pub)" using bases_visits_subset c'(1) unfolding us'_def by blast
      from above_path [OF this c'(2) named] obtain r' where "(S, sp, r') \<in> set (bases_paths (offset_to_base mem) bs p pub)" by blast
      from distinct_nodes [OF distinct sp_path this] show False .
    qed
    ultimately show ?thesis by (intro skip_after_public [OF good]) blast+
  next
    case True
    have "(D, q, c') \<notin> set us'" for q c'
    proof
      assume "(D, q, c') \<in> set us'"
      then have q: "(D, q, c') \<in> set (bases_paths (offset_to_base mem) bs p pub)" using bases_visits_subset unfolding us'_def by blast
      have "q = d" using flags(2) True q d_path unfolding bases_paths_append set_append by blast
      from distinct_nodes [OF distinct d_path] q this show False by blast
    qed
    moreover have "(S, sp, True) \<notin> set us'"
    proof
      assume "(S, sp, True) \<in> set us'"
      then have "(S, sp, True) \<in> set (bases_paths (offset_to_base mem) bs p pub)" using bases_visits_subset unfolding us'_def by blast
      from distinct_nodes [OF distinct sp_path this] show False .
    qed
    ultimately show ?thesis by (rule skip_other [OF good])
  qed
qed

section \<open>The search below\<close>

text \<open>What is assumed of an object: honest flags, names that identify the two types, no subobject of the destination type
  at address 0.\<close>

definition proper_object :: "memory \<Rightarrow> bool \<Rightarrow> type_info \<Rightarrow> type_info \<Rightarrow> type_info \<Rightarrow> u64 \<Rightarrow> bool" where
  "proper_object mem us S D T p \<longleftrightarrow> honest (offset_to_base mem) T p \<and> only_named us S T \<and> only_named us D T \<and>
     (\<forall>v\<in>set (paths (offset_to_base mem) T p True). fst v = D \<longrightarrow> fst (snd v) \<noteq> 0)"

lemma proper_base:
  assumes "proper_object mem us S D (VmiClass n f bs) p" "Base b fl \<in> set bs"
  shows "proper_object mem us S D b (p + offset_to_base mem p fl)"
proof -
  have "fst (snd v) \<noteq> 0" if a: "v \<in> set (paths (offset_to_base mem) b (p + offset_to_base mem p fl) True)" "fst v = D" for v
  proof -
    obtain q r where v: "v = (D, q, r)" using a(2) by (cases v) auto
    have "(D, q, r \<and> fl AND public_mask \<noteq> 0) \<in> set (paths (offset_to_base mem) b (p + offset_to_base mem p fl) (fl AND public_mask \<noteq> 0))"
      using a(1) unfolding v in_paths_pub [of D q "r \<and> _"] by blast
    then have "(D, q, r \<and> fl AND public_mask \<noteq> 0) \<in> set (paths (offset_to_base mem) (VmiClass n f bs) p True)"
      using bases_of_bases_paths [OF assms(2), of D q _ "offset_to_base mem" p True] by simp
    then show ?thesis using assms(1) unfolding proper_object_def v by fastforce
  qed
  then show ?thesis using assms only_named_bases(2) [OF _ assms(2)] unfolding proper_object_def honest_simps by blast
qed

lemma proper_base_si: "proper_object mem us S D (SiClass n b) p \<Longrightarrow> proper_object mem us S D b p"
  using only_named_bases(1) [of us S n b] only_named_bases(1) [of us D n b] unfolding proper_object_def honest_simps by simp

abbreviation sought :: "bool \<Rightarrow> type_info \<Rightarrow> type_info \<Rightarrow> type_info \<Rightarrow> bool" where
  "sought us S D \<equiv> \<lambda>U. is_equal U S us \<or> is_equal U D us"

lemma recorded_done:
  "recorded mem us S sp D E info \<Longrightarrow> search_done info \<Longrightarrow> E \<subseteq> E' \<Longrightarrow> recorded mem us S sp D E' info"
  unfolding recorded_def using bad_state_mono [of mem us S sp D E info E'] good_states by blast

lemma bases_recorded:
  assumes IH: "\<And>b fl E info. Base b fl \<in> set bs \<Longrightarrow> good_state mem us S sp D E info \<Longrightarrow>
      recorded mem us S sp D (E \<union> set (base_visits (offset_to_base mem) m (Base b fl) p pub))
        (base_search_below_dst mem us (Base b fl) info p (path_of pub))"
    and "recorded mem us S sp D (E \<union> set (bases_visits (offset_to_base mem) m as p pub)) info"
    and "found_before = None \<Longrightarrow> good_state mem us S sp D (E \<union> set (bases_visits (offset_to_base mem) m as p pub)) info"
    and "found_before = Some False \<Longrightarrow> search_done info \<or> leading mem us S sp D E = {}"
    and "found_before = None \<Longrightarrow> as = []"
    and "flags AND diamond_shaped_mask = 0 \<longrightarrow>
        distinct (map (\<lambda>(U, q, pub). (U, q)) (bases_paths (offset_to_base mem) (as @ bs) p pub))"
    and "flags AND non_diamond_repeat_mask = 0 \<longrightarrow> (\<forall>U q r q' r'. (U, q, r) \<in> set (bases_paths (offset_to_base mem) (as @ bs) p pub) \<longrightarrow>
        (U, q', r') \<in> set (bases_paths (offset_to_base mem) (as @ bs) p pub) \<longrightarrow> q = q')"
    and named: "only_named us S D"
  shows "recorded mem us S sp D (E \<union> set (bases_visits (offset_to_base mem) m as p pub) \<union> set (bases_visits (offset_to_base mem) m bs p pub))
    (bases_search_below_dst mem us bs flags found_before info p (path_of pub))"
  using assms(1-7)
proof (induction bs arbitrary: as info found_before)
  case Nil then show ?case by simp
next
  case (Cons B bs)
  define vs where "vs = bases_visits (offset_to_base mem) m as p pub"
  define us1 where "us1 = bases_visits (offset_to_base mem) m (B # bs) p pub"
  show ?case
  proof (cases "\<exists>found. found_before = Some found \<and> stop_below flags found info")
    case True
    then obtain found where found: "found_before = Some found" "stop_below flags found info" by blast
    have "recorded mem us S sp D (E \<union> set vs \<union> set us1) info"
    proof (cases "search_done info")
      case True
      then show ?thesis using recorded_done Cons.prems(2) unfolding vs_def by blast
    next
      case False
      then have "good_state mem us S sp D (E \<union> set vs) info"
        using Cons.prems(2) by (simp add: recorded_def bad_state_def vs_def)
      moreover have "\<not> found" using found(2) False by (auto simp: stop_below_def)
      moreover have "leading mem us S sp D E = {}" using Cons.prems(4) found(1) \<open>\<not> found\<close> False by simp
      ultimately have "good_state mem us S sp D (E \<union> set vs \<union> set us1) info"
        using stop_below_skip [OF _ _ _ Cons.prems(6,7) named] found(2) unfolding vs_def us1_def by simp
      then show ?thesis by (simp add: recorded_def)
    qed
    then show ?thesis using found by (simp add: vs_def us1_def)
  next
    case False
    have good: "good_state mem us S sp D (E \<union> set vs) info"
      using False Cons.prems(2,3) by (cases found_before) (auto simp: recorded_def bad_state_def stop_below_def vs_def)
    obtain b fl where B: "B = Base b fl" by (cases B)
    define info1 where "info1 = base_search_below_dst mem us B info p (path_of pub)"
    define fb where "fb = (case found_before of None \<Rightarrow> Some (number_to_static_ptr info1 = 1) | Some found \<Rightarrow> Some found)"
    have split: "bases_visits (offset_to_base mem) m (as @ [B]) p pub = vs @ base_visits (offset_to_base mem) m B p pub"
      by (simp add: bases_visits_append vs_def)
    have r1: "recorded mem us S sp D (E \<union> set (bases_visits (offset_to_base mem) m (as @ [B]) p pub)) info1"
    proof -
      have "recorded mem us S sp D (E \<union> set vs \<union> set (base_visits (offset_to_base mem) m B p pub)) info1"
        unfolding info1_def B by (rule Cons.prems(1) [OF _ good]) (simp add: B)
      then show ?thesis by (simp add: split Un_assoc)
    qed
    have "recorded mem us S sp D (E \<union> set (bases_visits (offset_to_base mem) m (as @ [B]) p pub) \<union> set (bases_visits (offset_to_base mem) m bs p pub))
      (bases_search_below_dst mem us bs flags fb info1 p (path_of pub))"
    proof (rule Cons.IH [OF _ r1])
      show "recorded mem us S sp D (E \<union> set (base_visits (offset_to_base mem) m (Base b fl) p pub))
        (base_search_below_dst mem us (Base b fl) info p (path_of pub))"
        if "Base b fl \<in> set bs" "good_state mem us S sp D E info" for b fl E info
        using Cons.prems(1) that by simp
      show "search_done info1 \<or> leading mem us S sp D E = {}" if "fb = Some False"
      proof (cases found_before)
        case None
        then have "number_to_static_ptr info1 \<noteq> 1" using that by (simp add: fb_def)
        then show ?thesis using r1 leading_mono(1) [of E "E \<union> _"]
          unfolding recorded_def bad_state_def good_state_def records_leading_def by blast
      next
        case (Some found)
        then have "leading mem us S sp D E = {}" using that Cons.prems(4) good_states [OF good] by (simp add: fb_def)
        then show ?thesis by blast
      qed
      show "flags AND diamond_shaped_mask = 0 \<longrightarrow>
          distinct (map (\<lambda>(U, q, pub). (U, q)) (bases_paths (offset_to_base mem) ((as @ [B]) @ bs) p pub))"
        using Cons.prems(6) by simp
      show "flags AND non_diamond_repeat_mask = 0 \<longrightarrow> (\<forall>U q r q' r'. (U, q, r) \<in> set (bases_paths (offset_to_base mem) ((as @ [B]) @ bs) p pub) \<longrightarrow>
        (U, q', r') \<in> set (bases_paths (offset_to_base mem) ((as @ [B]) @ bs) p pub) \<longrightarrow> q = q')"
        using Cons.prems(7) by simp
    qed (simp_all add: fb_def split: option.splits)
    moreover have "bases_search_below_dst mem us (B # bs) flags found_before info p (path_of pub) =
      bases_search_below_dst mem us bs flags fb info1 p (path_of pub)"
      using False by (auto simp: fb_def info1_def Let_def split: option.splits)
    ultimately show ?thesis by (simp add: split vs_def Un_assoc)
  qed
qed

lemma is_equal_refl [simp]: "is_equal T T us"
  by (simp add: is_equal_def type_info_eq_def)

lemma proper_nonzero:
  assumes "proper_object mem us S D D p"
  shows "p \<noteq> 0"
proof -
  have "\<forall>v\<in>set (paths (offset_to_base mem) D p True). fst v = D \<longrightarrow> fst (snd v) \<noteq> 0" using assms by (simp add: proper_object_def)
  from bspec [OF this paths_self] show ?thesis by simp
qed

lemma node_recorded:
  assumes good: "good_state mem us S sp D E info" and proper: "proper_object mem us S D T p"
    and types: "\<not> is_equal D S us" "only_named us S D"
    and sought: "is_equal T S us \<or> is_equal T D us"
  shows "recorded mem us S sp D (insert (T, p, pub) E)
    (if is_equal T S us then process_static_type_below_dst info p (path_of pub)
     else search_found_dst mem us T info p (path_of pub))"
proof -
  have "S \<noteq> D" using types(1) by auto
  show ?thesis
  proof (cases "is_equal T S us")
    case True
    then have "T = S" using proper only_namedD [of us S T T p True "offset_to_base mem" p True] by (simp add: proper_object_def)
    then show ?thesis using static_visit [OF good \<open>S \<noteq> D\<close>, of p pub] True by (simp add: recorded_def)
  next
    case False
    then have D: "T = D" using sought proper only_namedD [of us D T T p True "offset_to_base mem" p True] by (simp add: proper_object_def)
    then have "p \<noteq> 0" using proper proper_nonzero by blast
    have cD: "is_class D" "honest (offset_to_base mem) D p" using proper by (auto simp: proper_object_def D only_named_def)
    show ?thesis
    proof (cases "p = dst_ptr_leading_to_static_ptr info \<or> p = dst_ptr_not_leading_to_static_ptr info")
      case True
      have "search_found_dst mem us D info p (path_of pub) = (if pub then info\<lparr>path_dynamic_ptr_to_dst_ptr := public_path\<rparr> else info)"
        using True by (simp add: search_found_dst_def)
      from dst_revisit [OF good \<open>S \<noteq> D\<close> \<open>p \<noteq> 0\<close> True this] show ?thesis using types(1) by (simp add: recorded_def D)
    next
      case False
      then show ?thesis using dst_first_visit [OF good \<open>S \<noteq> D\<close> \<open>p \<noteq> 0\<close> _ _ cD(2) types(2,1) cD(1) refl] types(1) by (simp add: D)
    qed
  qed
qed

lemma honest_nodes:
  assumes "honest off (VmiClass n f bs) p"
  shows "f AND diamond_shaped_mask = 0 \<longrightarrow> distinct (map (\<lambda>(U, q, pub). (U, q)) (bases_paths off bs p pub))"
    and "f AND non_diamond_repeat_mask = 0 \<longrightarrow> (\<forall>U q r q' r'. (U, q, r) \<in> set (bases_paths off bs p pub) \<longrightarrow>
        (U, q', r') \<in> set (bases_paths off bs p pub) \<longrightarrow> q = q')"
proof -
  have conj: "bases_paths off bs p pub = map (\<lambda>(U, q, s). (U, q, s \<and> pub)) (bases_paths off bs p True)"
    using bases_paths_conj [of off bs p pub True] by simp
  have nodes: "map (\<lambda>(U, q, pub). (U, q)) (bases_paths off bs p pub) = map (\<lambda>(U, q, pub). (U, q)) (bases_paths off bs p True)"
    unfolding conj by (simp add: comp_def case_prod_beta)
  show "f AND diamond_shaped_mask = 0 \<longrightarrow> distinct (map (\<lambda>(U, q, pub). (U, q)) (bases_paths off bs p pub))"
    unfolding nodes using assms by (simp add: honest_simps)
  show "f AND non_diamond_repeat_mask = 0 \<longrightarrow> (\<forall>U q r q' r'. (U, q, r) \<in> set (bases_paths off bs p pub) \<longrightarrow>
        (U, q', r') \<in> set (bases_paths off bs p pub) \<longrightarrow> q = q')"
  proof (intro impI allI)
    fix U q r q' r' assume f: "f AND non_diamond_repeat_mask = 0"
      and q: "(U, q, r) \<in> set (bases_paths off bs p pub)" "(U, q', r') \<in> set (bases_paths off bs p pub)"
    obtain s s' where s: "(U, q, s) \<in> set (bases_paths off bs p True)" "(U, q', s') \<in> set (bases_paths off bs p True)"
      using q unfolding conj by auto
    have all: "list_all (\<lambda>(U, q, pub). list_all (\<lambda>(U', q', pub'). U = U' \<longrightarrow> q = q') (bases_paths off bs p True)) (bases_paths off bs p True)"
      using assms f by (simp add: honest_simps)
    have "list_all (\<lambda>(U', q', pub'). U = U' \<longrightarrow> q = q') (bases_paths off bs p True)"
      using bspec [OF all [unfolded list_all_iff [of _ "bases_paths off bs p True"]] s(1)] by (simp add: list_all_iff)
    from bspec [OF this [unfolded list_all_iff] s(2)] show "q = q'" by simp
  qed
qed

lemma search_recorded:
  assumes "good_state mem us S sp D E info" "proper_object mem us S D T p" "\<not> is_equal D S us" "only_named us S D"
  shows "recorded mem us S sp D (E \<union> set (visits (offset_to_base mem) (sought us S D) T p pub))
    (search_below_dst mem us T info p (path_of pub))"
  using assms
proof (induction T arbitrary: E info p pub rule: class_induct)
  case (leaf T)
  have st: "static_type info = S" "dst_type info = D" using good_states [OF leaf.prems(1)] by (simp_all add: search_state_def)
  show ?case
  proof (cases "is_class T \<and> sought us S D T")
    case True
    then obtain n where T: "T = Class n" using leaf.hyps by (cases T) (simp_all add: without_bases_def)
    show ?thesis using node_recorded [OF leaf.prems conjunct2 [OF True], of pub] st True unfolding T by (auto split: if_splits)
  next
    case False
    then have "search_below_dst mem us T info p (path_of pub) = info" using st leaf.hyps by (cases T) (simp_all add: without_bases_def)
    moreover have "visits (offset_to_base mem) (sought us S D) T p pub = []"
      using False leaf.hyps by (simp only: visits_without_bases if_False)
    ultimately show ?thesis using leaf.prems(1) by (simp add: recorded_def)
  qed
next
  case (Si n b)
  have st: "static_type info = S" "dst_type info = D" using good_states [OF Si.prems(1)] by (simp_all add: search_state_def)
  show ?case
  proof (cases "sought us S D (SiClass n b)")
    case True
    then show ?thesis using node_recorded [OF Si.prems True, of pub] st by (auto split: if_splits)
  next
    case False
    then show ?thesis using Si.IH [OF Si.prems(1) proper_base_si [OF Si.prems(2)] Si.prems(3,4), of pub] st by simp
  qed
next
  case (Vmi n f bs)
  have st: "static_type info = S" "dst_type info = D" using good_states [OF Vmi.prems(1)] by (simp_all add: search_state_def)
  show ?case
  proof (cases "sought us S D (VmiClass n f bs)")
    case True
    then show ?thesis using node_recorded [OF Vmi.prems True, of pub] st by (auto split: if_splits)
  next
    case False
    have h: "honest (offset_to_base mem) (VmiClass n f bs) p" using Vmi.prems(2) by (simp add: proper_object_def)
    have "recorded mem us S sp D (E \<union> set (bases_visits (offset_to_base mem) (sought us S D) [] p pub) \<union>
        set (bases_visits (offset_to_base mem) (sought us S D) bs p pub))
      (bases_search_below_dst mem us bs f None info p (path_of pub))"
    proof (rule bases_recorded)
      show "recorded mem us S sp D (E \<union> set (base_visits (offset_to_base mem) (sought us S D) (Base b fl) p pub))
        (base_search_below_dst mem us (Base b fl) info p (path_of pub))"
        if b: "Base b fl \<in> set bs" and g: "good_state mem us S sp D E info" for b fl E info
        using Vmi.IH [OF b g proper_base [OF Vmi.prems(2) b] Vmi.prems(3,4)] by simp
    qed (use Vmi.prems(1,4) honest_nodes [OF h, of pub] in \<open>simp_all add: recorded_def\<close>)
    then show ?thesis using False st by simp
  qed
qed

section \<open>The rule in terms of the visits\<close>

definition proper_cast :: "memory \<Rightarrow> bool \<Rightarrow> type_info \<Rightarrow> type_info \<Rightarrow> type_info \<times> u64 \<Rightarrow> bool" where
  "proper_cast mem us S D = (\<lambda>(T, p). proper_object mem us S D T p \<and> \<not> is_equal D S us \<and> only_named us S D \<and>
     D \<notin> set (map fst (paths (\<lambda>p f. 0) S 0 True)))"

lemma not_above: "D \<notin> set (map fst (paths (\<lambda>p f. 0) S 0 True)) \<Longrightarrow> (D, q, r) \<notin> set (paths off S p pub)"
  unfolding paths_types [of "\<lambda>p f. 0" S 0 True off p pub] by force

lemma only_named_self: "only_named us S T \<Longrightarrow> (U, q, r) \<in> set (visits off (\<lambda>U. is_equal U S us) T p pub) \<Longrightarrow> U = S"
  using visits_subset [of U q r off] only_namedD [of us S T U q r off p pub] by blast

lemma leads_is_base:
  assumes "only_named us S D"
  shows "leads sp (above mem us S D q) \<longleftrightarrow> is_base mem (D, q) (S, sp)"
    and "leads_publicly sp (above mem us S D q) \<longleftrightarrow> is_public_base mem (D, q) (S, sp)"
proof -
  have "(S, sp, r) \<in> set (above mem us S D q) \<longleftrightarrow> (S, sp, r) \<in> set (paths (offset_to_base mem) D q True)" for r
  proof
    assume "(S, sp, r) \<in> set (above mem us S D q)"
    then show "(S, sp, r) \<in> set (paths (offset_to_base mem) D q True)" unfolding above_def using visits_subset by blast
  next
    assume p: "(S, sp, r) \<in> set (paths (offset_to_base mem) D q True)"
    have "is_class S" using assms by (simp add: only_named_def)
    from paths_visited [where m = "\<lambda>U. is_equal U S us", OF p _ this]
    show "(S, sp, r) \<in> set (above mem us S D q)" unfolding above_def using only_named_self [OF assms] by fastforce
  qed
  moreover have "U = S" if "(U, a, r) \<in> set (above mem us S D q)" for U a r
    using that only_named_self [OF assms] unfolding above_def by blast
  ultimately show "leads sp (above mem us S D q) \<longleftrightarrow> is_base mem (D, q) (S, sp)"
    and "leads_publicly sp (above mem us S D q) \<longleftrightarrow> is_public_base mem (D, q) (S, sp)"
    by (force simp: leads_def leads_publicly_def is_base_def is_public_base_def)+
qed

lemma visited_subobjects:
  assumes proper: "proper_object mem us S D T p" "\<not> is_equal D S us" "only_named us S D"
    and above: "D \<notin> set (map fst (paths (\<lambda>p f. 0) S 0 True))"
    and V: "V = set (visits (offset_to_base mem) (sought us S D) T p True)"
  shows "(D, q, c) \<in> V \<longleftrightarrow> (D, q, c) \<in> set (paths (offset_to_base mem) T p True)"
    and "is_public_base mem (T, p) (S, sp) \<longleftrightarrow> (S, sp, True) \<in> V \<or>
      (\<exists>q. (D, q, True) \<in> V \<and> is_public_base mem (D, q) (S, sp))"
proof -
  have named: "only_named us S T" "only_named us D T" using proper(1) by (simp_all add: proper_object_def)
  have cls: "is_class S" "is_class D" using named by (simp_all add: only_named_def)
  have types: "U = S \<or> U = D" if "(U, a, r) \<in> V" for U a r
    using visits_subset [of U a r "offset_to_base mem" "sought us S D" T p True] that named only_namedD unfolding V by blast
  show dst: "(D, q, c) \<in> V \<longleftrightarrow> (D, q, c) \<in> set (paths (offset_to_base mem) T p True)" for q c
  proof
    assume "(D, q, c) \<in> V" then show "(D, q, c) \<in> set (paths (offset_to_base mem) T p True)" unfolding V using visits_subset by blast
  next
    assume path: "(D, q, c) \<in> set (paths (offset_to_base mem) T p True)"
    show "(D, q, c) \<in> V"
      using paths_visited [where m = "sought us S D", OF path _ cls(2)] types not_above [OF above] unfolding V by fastforce
  qed
  show "is_public_base mem (T, p) (S, sp) \<longleftrightarrow> (S, sp, True) \<in> V \<or> (\<exists>q. (D, q, True) \<in> V \<and> is_public_base mem (D, q) (S, sp))"
  proof
    assume "is_public_base mem (T, p) (S, sp)"
    then have path: "(S, sp, True) \<in> set (paths (offset_to_base mem) T p True)" by (simp add: is_public_base_def)
    from paths_visited [where m = "sought us S D", OF path _ cls(1)]
    consider "(S, sp, True) \<in> V" | U a s where "(U, a, s) \<in> V" "(S, sp, True) \<in> set (paths (offset_to_base mem) U a s)" "size S < size U"
      unfolding V by auto
    then show "(S, sp, True) \<in> V \<or> (\<exists>q. (D, q, True) \<in> V \<and> is_public_base mem (D, q) (S, sp))"
    proof cases
      case 2
      then have "U = D" using types by blast
      moreover have "s" "(S, sp, True) \<in> set (paths (offset_to_base mem) U a True)" using 2(2) in_paths_pub [of S sp True _ U a s] by auto
      ultimately show ?thesis using 2(1) by (auto simp: is_public_base_def)
    qed blast
  next
    assume "(S, sp, True) \<in> V \<or> (\<exists>q. (D, q, True) \<in> V \<and> is_public_base mem (D, q) (S, sp))"
    then show "is_public_base mem (T, p) (S, sp)"
    proof
      assume "(S, sp, True) \<in> V" then show ?thesis unfolding V is_public_base_def using visits_subset by auto
    next
      assume "\<exists>q. (D, q, True) \<in> V \<and> is_public_base mem (D, q) (S, sp)"
      then obtain q where q: "(D, q, True) \<in> set (paths (offset_to_base mem) T p True)" "(S, sp, True) \<in> set (paths (offset_to_base mem) D q True)"
        using dst by (auto simp: is_public_base_def)
      show ?thesis using paths_trans [OF q] by (simp add: is_public_base_def)
    qed
  qed
qed

lemma distinct_single: "distinct xs \<Longrightarrow> xs = [q] \<longleftrightarrow> set xs = {q}"
proof
  assume "distinct xs" "set xs = {q}"
  then show "xs = [q]" by (cases xs; cases "tl xs") auto
qed simp

lemma set_dst_addresses: "set (dst_addresses mem (T, p) D) = {q. \<exists>c. (D, q, c) \<in> set (paths (offset_to_base mem) T p True)}"
proof -
  have "map (fst \<circ> snd) (filter (\<lambda>v. fst v = D) vs) = map (\<lambda>v. fst (snd v)) (filter (\<lambda>v. fst v = D) vs)" for vs :: "subobject list" by simp
  moreover have "set (map (\<lambda>v. fst (snd v)) (filter (\<lambda>v. fst v = D) vs)) = {q. \<exists>c. (D, q, c) \<in> set vs}" for vs :: "subobject list"
    by (induction vs) auto
  ultimately show ?thesis by (simp add: dst_addresses_def)
qed

lemma flavors:
  assumes "only_named us S D" "\<And>q c. (D, q, c) \<in> V \<longleftrightarrow> (D, q, c) \<in> set (paths (offset_to_base mem) T p True)"
  shows "set (flavor_1 mem (T, p) D (S, sp)) = leading mem us S sp D V" "distinct (flavor_1 mem (T, p) D (S, sp))"
    "set (flavor_2 mem (T, p) D (S, sp)) = not_leading mem us S sp D V" "distinct (flavor_2 mem (T, p) D (S, sp))"
proof -
  have "set (dst_addresses mem (T, p) D) = {q. \<exists>c. (D, q, c) \<in> V}" unfolding assms(2) set_dst_addresses ..
  then show "set (flavor_1 mem (T, p) D (S, sp)) = leading mem us S sp D V" "set (flavor_2 mem (T, p) D (S, sp)) = not_leading mem us S sp D V"
    using leads_is_base(1) [OF assms(1)] by (auto simp: flavor_1_def flavor_2_def leading_def not_leading_def)
  have "distinct (dst_addresses mem (T, p) D)" by (simp add: dst_addresses_def)
  then show "distinct (flavor_1 mem (T, p) D (S, sp))" "distinct (flavor_2 mem (T, p) D (S, sp))"
    by (simp_all add: flavor_1_def flavor_2_def)
qed

lemma cast_spec_zero:
  assumes "flavor_1 mem N D S = []" "flavor_2 mem N D S = [] \<or> (\<exists>a\<in>set (flavor_2 mem N D S). \<exists>b\<in>set (flavor_2 mem N D S). a \<noteq> b)"
  shows "cast_spec mem N D S = 0"
  using assms by (auto simp: cast_spec_def split: list.splits)

lemma cast_spec_ambiguous:
  "\<exists>a\<in>set (flavor_1 mem N D S). \<exists>b\<in>set (flavor_1 mem N D S). a \<noteq> b \<Longrightarrow> cast_spec mem N D S = 0"
  by (auto simp: cast_spec_def split: list.splits)

lemma bad_state_spec:
  assumes "bad_state mem us S sp D V info" "only_named us S D"
    and "\<And>q c. (D, q, c) \<in> V \<longleftrightarrow> (D, q, c) \<in> set (paths (offset_to_base mem) T p True)"
  shows "cast_result info = cast_spec mem (T, p) D (S, sp)"
proof -
  note f = flavors [OF assms(2,3), of sp]
  have "cast_fails mem us S sp D V" "cast_result info = 0" using assms(1) by (simp_all add: bad_state_def)
  then consider "\<exists>a\<in>leading mem us S sp D V. \<exists>b\<in>leading mem us S sp D V. a \<noteq> b"
    | q where "leading mem us S sp D V = {q}" "\<not> leads_publicly sp (above mem us S D q)" "not_leading mem us S sp D V \<noteq> {}"
    unfolding cast_fails_def by blast
  then have "cast_spec mem (T, p) D (S, sp) = 0"
  proof cases
    case 1 then show ?thesis unfolding f(1) [symmetric] by (rule cast_spec_ambiguous)
  next
    case 2
    then have "flavor_1 mem (T, p) D (S, sp) = [q]" using distinct_single [OF f(2)] f(1) by simp
    moreover have "flavor_2 mem (T, p) D (S, sp) \<noteq> []" using 2(3) f(3) by auto
    moreover have "\<not> is_public_base mem (D, q) (S, sp)" using 2(2) leads_is_base(2) [OF assms(2)] by simp
    ultimately show ?thesis by (simp add: cast_spec_def)
  qed
  with \<open>cast_result info = 0\<close> show ?thesis by simp
qed

lemma good_state_spec:
  assumes good: "good_state mem us S sp D V info" and named: "only_named us S D"
    and dst: "\<And>q c. (D, q, c) \<in> V \<longleftrightarrow> (D, q, c) \<in> set (paths (offset_to_base mem) T p True)"
    and static: "is_public_base mem (T, p) (S, sp) \<longleftrightarrow> (S, sp, True) \<in> V \<or> (\<exists>q. (D, q, True) \<in> V \<and> is_public_base mem (D, q) (S, sp))"
  shows "cast_result info = cast_spec mem (T, p) D (S, sp)"
proof -
  note f = flavors [OF named dst, of sp]
  have pub: "is_public_base mem (T, p) (D, q) \<longleftrightarrow> (D, q, True) \<in> V" for q by (simp add: is_public_base_def dst)
  have L: "records_leading mem us S sp D V info" using good by (simp add: good_state_def)
  have leads: "q \<in> leading mem us S sp D V" if "(D, q, c) \<in> V" "is_public_base mem (D, q) (S, sp)" for q c
  proof -
    have "leads sp (above mem us S D q)" by (rule leads_publicly_leads) (use that(2) leads_is_base(2) [OF named] in simp)
    then show ?thesis using that(1) by (auto simp: leading_def)
  qed
  show ?thesis
  proof (cases "path_dst_ptr_to_static_ptr info = public_path")
    case True
    then have d: "leading mem us S sp D V = {dst_ptr_leading_to_static_ptr info}" "number_to_static_ptr info = 1"
      "is_public_base mem (D, dst_ptr_leading_to_static_ptr info) (S, sp)"
      using L leads_is_base(2) [OF named] by (auto simp: records_leading_def path_of_def split: if_splits)
    then have "flavor_1 mem (T, p) D (S, sp) = [dst_ptr_leading_to_static_ptr info]" using distinct_single [OF f(2)] f(1) by simp
    then show ?thesis using True d by (simp add: cast_result_def cast_spec_def)
  next
    case False
    then have old: "records_not_leading mem us S sp D V info" "records_static_path S sp V info" "records_dst_path D V info"
      using good by (simp_all add: good_state_def)
    have all: "(D, q, c) \<in> V \<Longrightarrow> q \<in> leading mem us S sp D V \<union> not_leading mem us S sp D V" for q c
      by (auto simp: leading_def not_leading_def)
    have some: "q \<in> leading mem us S sp D V \<union> not_leading mem us S sp D V \<Longrightarrow> \<exists>c. (D, q, c) \<in> V" for q
      by (auto simp: leading_def not_leading_def)
    have dst_path: "path_dynamic_ptr_to_dst_ptr info = public_path \<longleftrightarrow> is_public_base mem (T, p) (D, q)"
      if "leading mem us S sp D V \<union> not_leading mem us S sp D V = {q}" for q
      using old(3) all some that unfolding records_dst_path_def pub by (metis insertI1 singletonD)
    have static_path: "path_dynamic_ptr_to_static_ptr info = public_path \<longleftrightarrow> is_public_base mem (T, p) (S, sp)"
      if "\<And>q. q \<in> leading mem us S sp D V \<Longrightarrow> \<not> is_public_base mem (D, q) (S, sp)"
      using old(2) that leads unfolding records_static_path_def static by blast
    from L show ?thesis unfolding records_leading_def
    proof (elim disjE conjE)
      assume l: "leading mem us S sp D V = {}" "number_to_static_ptr info = 0"
      then have f1: "flavor_1 mem (T, p) D (S, sp) = []" using f(1) by simp
      from old(1) show ?thesis unfolding records_not_leading_def
      proof (elim disjE conjE)
        assume "not_leading mem us S sp D V = {}" "number_to_dst_ptr info = 0"
        then show ?thesis using f1 f(3) l(2) by (simp add: cast_result_def cast_spec_def)
      next
        assume n: "not_leading mem us S sp D V = {dst_ptr_not_leading_to_static_ptr info}" "number_to_dst_ptr info = 1"
        then have "flavor_2 mem (T, p) D (S, sp) = [dst_ptr_not_leading_to_static_ptr info]" using distinct_single [OF f(4)] f(3) by simp
        then show ?thesis using f1 n(2) l dst_path [of "dst_ptr_not_leading_to_static_ptr info"] n(1) static_path
          by (simp add: cast_result_def cast_spec_def)
      next
        assume n: "2 \<le> number_to_dst_ptr info" "\<exists>a\<in>not_leading mem us S sp D V. \<exists>b\<in>not_leading mem us S sp D V. a \<noteq> b"
        then show ?thesis using cast_spec_zero [OF f1] f(3) l(2) by (simp add: cast_result_def)
      qed
    next
      define d where "d = dst_ptr_leading_to_static_ptr info"
      assume l: "leading mem us S sp D V = {dst_ptr_leading_to_static_ptr info}" "number_to_static_ptr info = 1"
        "path_dst_ptr_to_static_ptr info = path_of (leads_publicly sp (above mem us S D (dst_ptr_leading_to_static_ptr info)))"
      then have priv: "\<not> is_public_base mem (D, d) (S, sp)" using False leads_is_base(2) [OF named] by (auto simp: d_def)
      have f1: "flavor_1 mem (T, p) D (S, sp) = [d]" using distinct_single [OF f(2)] f(1) l(1) by (simp add: d_def)
      show ?thesis
      proof (cases "not_leading mem us S sp D V = {}")
        case True
        then have "number_to_dst_ptr info = 0" using old(1) by (auto simp: records_not_leading_def)
        then show ?thesis using True f1 f(3) priv l dst_path [of d] static_path False
          by (simp add: cast_result_def cast_spec_def d_def)
      next
        case more: False
        then have "number_to_dst_ptr info \<noteq> 0" using old(1) by (auto simp: records_not_leading_def)
        moreover have "flavor_2 mem (T, p) D (S, sp) \<noteq> []" using more f(3) by auto
        ultimately show ?thesis using f1 priv l(2) False by (simp add: cast_result_def cast_spec_def)
      qed
    qed
  qed
qed

section \<open>The cast\<close>

lemma shortcut_steps:
  assumes "dst_ptr_leading_to_static_ptr info = 0" "path_dst_ptr_to_static_ptr info = unknown" "\<not> search_done info" "d \<noteq> 0"
    and "number_of_dst_type info = 1"
  shows "(dst_ptr_leading_to_static_ptr (foldl (above_step d) info vs) = 0 \<and> \<not> search_done (foldl (above_step d) info vs) \<and>
      path_dst_ptr_to_static_ptr (foldl (above_step d) info vs) = unknown \<and> \<not> leads (static_ptr info) vs \<or>
     dst_ptr_leading_to_static_ptr (foldl (above_step d) info vs) = d \<and>
      path_dst_ptr_to_static_ptr (foldl (above_step d) info vs) = path_of (leads_publicly (static_ptr info) vs) \<and>
      search_done (foldl (above_step d) info vs) = leads_publicly (static_ptr info) vs)"
proof (induction vs rule: rev_induct)
  case (snoc v vs)
  obtain U q pub where v: "v = (U, q, pub)" by (cases v)
  define i where "i = foldl (above_step d) info vs"
  have sp: "static_ptr i = static_ptr info" "number_of_dst_type i = 1" by (simp_all add: i_def assms(5))
  note IH = snoc.IH [folded i_def]
  have "(dst_ptr_leading_to_static_ptr (above_step d i v) = 0 \<and> \<not> search_done (above_step d i v) \<and>
      path_dst_ptr_to_static_ptr (above_step d i v) = unknown \<and> \<not> leads (static_ptr info) (vs @ [v]) \<or>
     dst_ptr_leading_to_static_ptr (above_step d i v) = d \<and>
      path_dst_ptr_to_static_ptr (above_step d i v) = path_of (leads_publicly (static_ptr info) (vs @ [v])) \<and>
      search_done (above_step d i v) = leads_publicly (static_ptr info) (vs @ [v]))"
  proof (cases "q = static_ptr info")
    case False
    then show ?thesis using IH sp by (simp add: v above_step_other)
  next
    case True
    then show ?thesis using IH sp \<open>d \<noteq> 0\<close> leads_publicly_leads [of "static_ptr info" vs]
      by (auto simp: v above_step_def process_static_type_above_dst_def Let_def path_of_def)
  qed
  then show ?case by (simp only: i_def foldl_append foldl_Cons foldl_Nil)
qed (use assms in simp)

lemma cast_shortcut:
  assumes "proper_cast mem False S D (D, p)"
  shows "cast_complete mem sp S D hint p D = cast_spec mem (D, p) D (S, sp)"
proof -
  have proper: "proper_object mem False S D D p" using assms by (simp add: proper_cast_def)
  then have h: "honest (offset_to_base mem) D p" "only_named False S D" by (simp_all add: proper_object_def)
  note nz = proper_nonzero [OF proper]
  define info where "info = (new_info D sp S hint)\<lparr>number_of_dst_type := 1\<rparr>"
  have start: "dst_ptr_leading_to_static_ptr info = 0" "path_dst_ptr_to_static_ptr info = unknown" "\<not> search_done info"
    "number_of_dst_type info = 1" "static_ptr info = sp" "static_type info = S" by (simp_all add: info_def new_info_def)
  define vs where "vs = above mem False S D p"
  define i where "i = search_above_dst mem False D info p p public_path"
  have w: "walked_above p info vs i"
    using search_walked_above [OF start(3,6) nz h, of True] by (simp add: vs_def above_def i_def)
  have "path_dst_ptr_to_static_ptr i = public_path \<longleftrightarrow> leads_publicly sp vs"
  proof (cases "search_done i")
    case True
    then obtain ws where ws: "set ws \<subseteq> set vs" "clear_found i = clear_found (foldl (above_step p) info ws)"
      using w unfolding walked_above_def by auto
    from arg_cong [OF ws(2), of search_done] arg_cong [OF ws(2), of path_dst_ptr_to_static_ptr] True
    have "search_done (foldl (above_step p) info ws)"
      "path_dst_ptr_to_static_ptr i = path_dst_ptr_to_static_ptr (foldl (above_step p) info ws)" by simp_all
    then have "leads_publicly sp ws" "path_dst_ptr_to_static_ptr i = public_path"
      using shortcut_steps [OF start(1,2,3) nz start(4), of ws] start(5) by auto
    then show ?thesis using ws(1) by (auto simp: leads_publicly_def)
  next
    case False
    then have "i = foldl (above_step p) info vs" using w by (simp add: walked_above_def)
    then show ?thesis using shortcut_steps [OF start(1,2,3) nz start(4), of vs] start(5) leads_publicly_leads [of sp vs] by auto
  qed
  then have "cast_complete mem sp S D hint p D = (if is_public_base mem (D, p) (S, sp) then p else 0)"
    using leads_is_base(2) [OF h(2)] by (simp add: cast_complete_def i_def info_def vs_def Let_def)
  moreover have dst: "dst_addresses mem (D, p) D = [p]"
  proof -
    have "q = p" if "(D, q, c) \<in> set (paths (offset_to_base mem) D p True)" for q c using paths_size [OF that] by simp
    moreover have "(D, p, True) \<in> set (paths (offset_to_base mem) D p True)" by (rule paths_self)
    ultimately have "{q. \<exists>c. (D, q, c) \<in> set (paths (offset_to_base mem) D p True)} = {p}" by blast
    then have "set (dst_addresses mem (D, p) D) = {p}" unfolding set_dst_addresses .
    moreover have "distinct (dst_addresses mem (D, p) D)" by (simp add: dst_addresses_def)
    ultimately show ?thesis using distinct_single [of "dst_addresses mem (D, p) D" p] by simp
  qed
  moreover have "is_public_base mem (D, p) (S, sp) \<Longrightarrow> is_base mem (D, p) (S, sp)" by (force simp: is_public_base_def is_base_def)
  ultimately show ?thesis by (auto simp: cast_spec_def flavor_1_def flavor_2_def)
qed

lemma cast_search:
  assumes "proper_cast mem False S D (T, p)" "\<not> is_equal T D False"
  shows "cast_complete mem sp S D hint p T = cast_spec mem (T, p) D (S, sp)"
proof -
  have a: "proper_object mem False S D T p" "\<not> is_equal D S False" "only_named False S D"
    "D \<notin> set (map fst (paths (\<lambda>p f. 0) S 0 True))" using assms(1) by (simp_all add: proper_cast_def)
  define V where "V = set (visits (offset_to_base mem) (sought False S D) T p True)"
  define info where "info = search_below_dst mem False T (new_info D sp S hint) p public_path"
  have "good_state mem False S sp D {} (new_info D sp S hint)"
    by (simp add: good_state_def search_state_def new_info_def records_leading_def records_not_leading_def leading_def
        not_leading_def records_static_path_def records_dst_path_def)
  from search_recorded [OF this a(1-3), of True] have "recorded mem False S sp D V info" by (simp add: V_def info_def)
  then have "cast_result info = cast_spec mem (T, p) D (S, sp)"
    using good_state_spec [OF _ a(3) visited_subobjects(1) [OF a V_def] visited_subobjects(2) [OF a V_def]]
      bad_state_spec [OF _ a(3) visited_subobjects(1) [OF a V_def]] unfolding recorded_def by blast
  then show ?thesis using assms(2) by (simp add: cast_complete_def info_def Let_def)
qed

lemma cast_exact:
  assumes "proper_cast mem False S D (T, p)"
  shows "cast_complete mem sp S D hint p T = cast_spec mem (T, p) D (S, sp)"
proof (cases "is_equal T D False")
  case True
  then have "T = D" using assms only_namedD [of False D T T p True "offset_to_base mem" p True]
    by (simp add: proper_cast_def proper_object_def)
  then show ?thesis using cast_shortcut assms by simp
qed (rule cast_search [OF assms])

text \<open>C21. \<open>__dynamic_cast\<close> computes what its comment promises, on every object whose classes have honest flags: with one
  subobject of the destination type derived from the static object, the result is that one if it is publicly derived, or
  if there is no other and both are public bases of the complete object; with none derived and one other, it is
  that one if both are public bases of the complete object; otherwise the cast fails. No early end of the search
  changes the result.\<close>

theorem dynamic_cast_exact:
  assumes "proper_cast mem False source target (complete_object types mem ptr)"
  shows "dynamic_cast types mem ptr source target hint = cast_spec mem (complete_object types mem ptr) target (source, ptr)"
proof (cases "complete_object types mem ptr")
  case (Pair T p)
  with assms show ?thesis using cast_exact [of mem source target T p] by (simp add: dynamic_cast_def)
qed

definition cast_base :: type_info where "cast_base = Class (Name 1 ''1S'')"
definition cast_right :: type_info where "cast_right = VmiClass (Name 3 ''1Y'') 0 [Base cast_base 0xFFFFFFFFFFFFE803]"
definition cast_object :: type_info where
  "cast_object = VmiClass (Name 4 ''1D'') 2
     [Base (VmiClass (Name 2 ''1X'') 0 [Base cast_base 0xFFFFFFFFFFFFE803]) 0x2, Base cast_right 0x2002]"
definition cast_memory :: memory where
  "cast_memory a = (if a = 0x1001 then 0x30 else if a = 0x2FE8 then 0x40 else if a = 0x1021 then 0x40 else if a = 0x3FE8 then 0x20
     else if a = 0x1041 then 0x50 else if a = 0x4FF0 then 0xC0 else if 0x4FF0 < a \<and> a < 0x4FF8 then 0xFF
     else if a = 0x4FF8 then 0x77 else 0)"

lemmas cast_sample = cast_base_def cast_right_def cast_object_def

lemma cast_sample_offsets:
  "offset_to_base cast_memory 0x1000 2 = 0" "offset_to_base cast_memory 0x1000 0x2002 = 0x20"
  "offset_to_base cast_memory 0x1000 0xFFFFFFFFFFFFE803 = 0x40" "offset_to_base cast_memory 0x1020 0xFFFFFFFFFFFFE803 = 0x20"
  by code_simp+

lemma cast_sample_proper: "proper_cast cast_memory False cast_base cast_right (cast_object, 0x1000)"
proof -
  have "honest (offset_to_base cast_memory) cast_object 0x1000"
    by (simp add: honest_def cast_sample cast_sample_offsets diamond_shaped_mask_def non_diamond_repeat_mask_def)
  moreover have "only_named False cast_base cast_object" by code_simp
  moreover have "only_named False cast_right cast_object" by code_simp
  moreover have "\<forall>v\<in>set (paths (offset_to_base cast_memory) cast_object 0x1000 True). fst v = cast_right \<longrightarrow> fst (snd v) \<noteq> 0"
    by code_simp
  moreover have "\<not> is_equal cast_right cast_base False" by code_simp
  moreover have "only_named False cast_base cast_right" by code_simp
  moreover have "cast_right \<notin> set (map fst (paths (\<lambda>p f. 0) cast_base 0 True))" by code_simp
  ultimately show ?thesis by (simp add: proper_cast_def proper_object_def)
qed

theorem dynamic_cast_exact_witness:
  "dynamic_cast (\<lambda>a. if a = 0x77 then cast_object else cast_base) cast_memory 0x1040 cast_base cast_right 0 = 0x1020"
proof -
  have object: "complete_object (\<lambda>a. if a = 0x77 then cast_object else cast_base) cast_memory 0x1040 = (cast_object, 0x1000)"
    by code_simp
  have "cast_spec cast_memory (cast_object, 0x1000) cast_right (cast_base, 0x1040) = 0x1020"
    by (simp add: cast_spec_def flavor_1_def flavor_2_def dst_addresses_def is_base_def is_public_base_def cast_sample
        cast_sample_offsets public_mask_def)
  then show ?thesis
    using dynamic_cast_exact [of cast_memory cast_base cast_right "\<lambda>a. if a = 0x77 then cast_object else cast_base" "0x1040" 0]
      cast_sample_proper by (simp add: object)
qed

end
