(* ===== verification/AddressSpace.thy ===== *)
theory AddressSpace
  imports EhSpec
begin

unbundle bit_operations_syntax

text \<open>
  Reading memory for the unwinder (\<open>libunwind/src/AddressSpace.hpp\<close>): integers, LEB128 numbers with a limit, and
  encoded pointers, for 64-shift pointers and little-endian memory. A computation is \<open>None\<close> when it does not end, \<open>Inl\<close>
  when the program is aborted (\<open>Fatal\<close>, also for a failed assertion) or its behaviour is not defined (\<open>Undefined\<close>),
  and \<open>Inr\<close> otherwise. The end of this theory has the encodings of numbers that the readers invert.
\<close>

named_theorems dwarf_simps

datatype dwarf_stop = Fatal | Undefined

type_synonym 'a dw = "(dwarf_stop + 'a) option"

section \<open>Integers\<close>

definition get8 :: "memory \<Rightarrow> u64 \<Rightarrow> u8" where
  "get8 mem addr = mem addr"

definition get16 :: "memory \<Rightarrow> u64 \<Rightarrow> u16" where
  "get16 mem addr = ucast (read_bytes mem 2 addr)"

definition get32 :: "memory \<Rightarrow> u64 \<Rightarrow> u32" where
  "get32 mem addr = ucast (read_bytes mem 4 addr)"

definition get64 :: "memory \<Rightarrow> u64 \<Rightarrow> u64" where
  "get64 mem addr = read_bytes mem 8 addr"

definition getP :: "memory \<Rightarrow> u64 \<Rightarrow> u64" where
  "getP mem addr = get64 mem addr"

text \<open>\<open>getRegister\<close> of the address space; the register sets have a function of that name too.\<close>

definition get_saved :: "memory \<Rightarrow> u64 \<Rightarrow> u64" where
  "get_saved mem addr = get64 mem addr"

section \<open>LEB128 numbers\<close>

function getULEB128_loop :: "memory \<Rightarrow> u64 \<Rightarrow> nat \<Rightarrow> u64 \<Rightarrow> u64 \<Rightarrow> (u64 \<times> u64) dw" where
  "getULEB128_loop mem result shift p pend =
     (if p = pend then eh_stop Fatal
      else
        let b = ucast (get8 mem p AND 0x7F) in
        if 64 \<le> shift \<or> drop_bit shift (push_bit shift b) \<noteq> b then eh_stop Fatal
        else
          let result = result OR push_bit shift b in
          if 0x80 \<le> get8 mem p then getULEB128_loop mem result (shift + 7) (p + 1) pend
          else eh_return (result, p + 1))"
  by auto
termination by (relation "measure (\<lambda>(mem, result, shift, p, pend). 71 - shift)") auto

definition getULEB128 :: "memory \<Rightarrow> u64 \<Rightarrow> u64 \<Rightarrow> (u64 \<times> u64) dw" where
  "getULEB128 mem addr pend = getULEB128_loop mem 0 0 addr pend"

text \<open>The signed reader does not test the count of the shift, so that a number of more than ten bytes shifts by 64 or more.\<close>

function getSLEB128_loop :: "memory \<Rightarrow> u64 \<Rightarrow> nat \<Rightarrow> u64 \<Rightarrow> u64 \<Rightarrow> (u64 \<times> u64) dw" where
  "getSLEB128_loop mem result shift p pend =
     (if p = pend then eh_stop Fatal
      else if 64 \<le> shift then eh_stop Undefined
      else
        let byte = get8 mem p;
          result = result OR push_bit shift (ucast (byte AND 0x7F));
          shift = shift + 7 in
        if byte AND 0x80 \<noteq> 0 then getSLEB128_loop mem result shift (p + 1) pend
        else eh_return (if byte AND 0x40 \<noteq> 0 \<and> shift < 64 then result OR push_bit shift (- 1) else result, p + 1))"
  by auto
termination by (relation "measure (\<lambda>(mem, result, shift, p, pend). 71 - shift)") auto

definition getSLEB128 :: "memory \<Rightarrow> u64 \<Rightarrow> u64 \<Rightarrow> (u64 \<times> u64) dw" where
  "getSLEB128 mem addr pend = getSLEB128_loop mem 0 0 addr pend"

declare getULEB128_loop.simps [simp del] getSLEB128_loop.simps [simp del]

section \<open>Encoded pointers\<close>

definition DW_EH_PE_textrel :: u8 where "DW_EH_PE_textrel = 0x20"
definition DW_EH_PE_datarel :: u8 where "DW_EH_PE_datarel = 0x30"
definition DW_EH_PE_funcrel :: u8 where "DW_EH_PE_funcrel = 0x40"
definition DW_EH_PE_aligned :: u8 where "DW_EH_PE_aligned = 0x50"

lemmas dwarf_encodings [dwarf_simps] = eh_encodings DW_EH_PE_textrel_def DW_EH_PE_datarel_def DW_EH_PE_funcrel_def
  DW_EH_PE_aligned_def

definition encoded_value :: "memory \<Rightarrow> u64 \<Rightarrow> u64 \<Rightarrow> u8 \<Rightarrow> (u64 \<times> u64) dw" where
  "encoded_value mem addr pend format =
     (if format = DW_EH_PE_absptr then eh_return (getP mem addr, addr + 8)
      else if format = DW_EH_PE_uleb128 then getULEB128 mem addr pend
      else if format = DW_EH_PE_udata2 then eh_return (ucast (get16 mem addr), addr + 2)
      else if format = DW_EH_PE_udata4 then eh_return (ucast (get32 mem addr), addr + 4)
      else if format = DW_EH_PE_udata8 then eh_return (get64 mem addr, addr + 8)
      else if format = DW_EH_PE_sleb128 then getSLEB128 mem addr pend
      else if format = DW_EH_PE_sdata2 then eh_return (scast (get16 mem addr), addr + 2)
      else if format = DW_EH_PE_sdata4 then eh_return (scast (get32 mem addr), addr + 4)
      else if format = DW_EH_PE_sdata8 then eh_return (get64 mem addr, addr + 8)
      else eh_stop Fatal)"

definition encoded_base :: "u64 \<Rightarrow> u8 \<Rightarrow> u64 \<Rightarrow> u64 \<Rightarrow> u64 dw" where
  "encoded_base startAddr application datarelBase result =
     (if application = DW_EH_PE_absptr then eh_return result
      else if application = DW_EH_PE_pcrel then eh_return (result + startAddr)
      else if application = DW_EH_PE_textrel then eh_stop Fatal
      else if application = DW_EH_PE_datarel
      then (if datarelBase = 0 then eh_stop Fatal else eh_return (result + datarelBase))
      else if application = DW_EH_PE_funcrel then eh_stop Fatal
      else if application = DW_EH_PE_aligned then eh_stop Fatal
      else eh_stop Fatal)"

definition getEncodedP :: "memory \<Rightarrow> u64 \<Rightarrow> u64 \<Rightarrow> u8 \<Rightarrow> u64 \<Rightarrow> (u64 \<times> u64) dw" where
  "getEncodedP mem addr pend encoding datarelBase =
     eh_bind (encoded_value mem addr pend (encoding AND 0x0F)) (\<lambda>(result, addr').
     eh_bind (encoded_base addr (encoding AND 0x70) datarelBase result) (\<lambda>result.
     eh_return (if encoding AND DW_EH_PE_indirect \<noteq> 0 then getP mem result else result, addr')))"

section \<open>Encodings of numbers\<close>

text \<open>The shortest encodings, as digits to the base 128, least significant first.\<close>

fun uleb_digits :: "nat \<Rightarrow> nat list" where
  "uleb_digits n = (if n < 128 then [n] else n mod 128 # uleb_digits (n div 128))"

function sleb_digits :: "int \<Rightarrow> nat list" where
  "sleb_digits z = (if - 64 \<le> z \<and> z < 64 then [nat (z mod 128)] else nat (z mod 128) # sleb_digits (z div 128))"
  by auto
termination
proof (relation "measure (\<lambda>z. nat (if 0 \<le> z then z else - z))")
  fix z :: int
  assume "\<not> (- 64 \<le> z \<and> z < 64)"
  then show "(z div 128, z) \<in> measure (\<lambda>z. nat (if 0 \<le> z then z else - z))" by auto
qed simp

declare uleb_digits.simps [simp del] sleb_digits.simps [simp del]

definition uleb :: "nat \<Rightarrow> u8 list" where
  "uleb n = leb_bytes (uleb_digits n)"

definition sleb :: "int \<Rightarrow> u8 list" where
  "sleb z = leb_bytes (sleb_digits z)"

lemma uleb_digits_facts: "uleb_digits n \<noteq> [] \<and> (\<forall>d\<in>set (uleb_digits n). d < 128) \<and> leb_value (uleb_digits n) = n"
proof (induction n rule: uleb_digits.induct)
  case (1 n)
  then show ?case by (subst (1 2 3) uleb_digits.simps) (auto)
qed

lemma uleb_digits_length: "n < 128 ^ k \<Longrightarrow> 0 < k \<Longrightarrow> length (uleb_digits n) \<le> k"
proof (induction k arbitrary: n)
  case (Suc k)
  show ?case
  proof (cases "n < 128")
    case False
    then have "n div 128 < 128 ^ k" "0 < k" using Suc.prems by (auto simp: div_less_iff_less_mult mult.commute intro: gr0I)
    then show ?thesis using Suc.IH False by (subst uleb_digits.simps) simp
  qed (simp add: uleb_digits.simps)
qed simp

lemma leb_signed_Cons: "ds \<noteq> [] \<Longrightarrow> leb_signed (d # ds) = int d + 128 * leb_signed ds"
  by (simp add: leb_signed_def)

lemma sleb_digits_facts: "sleb_digits z \<noteq> [] \<and> (\<forall>d\<in>set (sleb_digits z). d < 128) \<and> leb_signed (sleb_digits z) = z"
proof (induction z rule: sleb_digits.induct)
  case (1 z)
  show ?case
  proof (cases "- 64 \<le> z \<and> z < 64")
    case True
    then have "leb_signed [nat (z mod 128)] = z"
    proof (cases "0 \<le> z")
      case False
      then have "z mod 128 = z + 128" using True mod_add_self2 [of z 128] mod_pos_pos_trivial [of "z + 128" 128] by simp
      then show ?thesis using True False by (simp add: leb_signed_def nat_add_distrib)
    qed (simp add: leb_signed_def mod_pos_pos_trivial)
    moreover have "nat (z mod 128) < 128" by (simp add: nat_less_iff)
    ultimately show ?thesis using True by (simp add: sleb_digits.simps)
  next
    case False
    have "nat (z mod 128) < 128" by (simp add: nat_less_iff)
    then show ?thesis using 1 False by (subst (1 2 3) sleb_digits.simps) (auto simp: leb_signed_Cons)
  qed
qed

lemma sleb_digits_length: "- 64 * 128 ^ k \<le> z \<Longrightarrow> z < 64 * 128 ^ k \<Longrightarrow> length (sleb_digits z) \<le> Suc k"
proof (induction k arbitrary: z)
  case (Suc k)
  show ?case
  proof (cases "- 64 \<le> z \<and> z < 64")
    case False
    have "- 64 * 128 ^ k \<le> z div 128" "z div 128 < 64 * 128 ^ k" using Suc.prems by simp_all
    then show ?thesis using Suc.IH False by (subst sleb_digits.simps) simp
  qed (simp add: sleb_digits.simps)
qed (simp add: sleb_digits.simps)

lemma leb_bytes_length [simp]: "length (leb_bytes ds) = length ds"
  by (induction ds rule: leb_bytes.induct) simp_all

text \<open>The end of the readable part is not met before the last of \<open>n\<close> bytes.\<close>

definition room :: "u64 \<Rightarrow> nat \<Rightarrow> u64 \<Rightarrow> bool" where
  "room p n pend \<longleftrightarrow> unat p + n \<le> unat pend"

lemma room_step: "room p (Suc n) pend \<Longrightarrow> p \<noteq> pend \<and> room (p + 1) n pend"
proof -
  assume r: "room p (Suc n) pend"
  then have "unat p + 1 < 18446744073709551616" using unat_64_bound [of pend] unfolding room_def by linarith
  then have "unat (p + 1) = unat p + 1" by (simp add: unat_word_ariths)
  then show ?thesis using r by (auto simp: room_def)
qed

text \<open>The end is not met before the last of \<open>n\<close> bytes, when the end may be behind the largest address.\<close>

definition away :: "u64 \<Rightarrow> nat \<Rightarrow> u64 \<Rightarrow> bool" where
  "away p n pend \<longleftrightarrow> n \<le> unat (pend - p)"

lemma room_away: "room p n pend \<Longrightarrow> away p n pend"
  by (simp add: room_def away_def unat_sub word_le_nat_alt)

lemma away_step: "away p (Suc n) pend \<Longrightarrow> p \<noteq> pend \<and> away (p + 1) n pend"
proof -
  assume a: "away p (Suc n) pend"
  then have ne: "pend - p \<noteq> 0" by (auto simp: away_def)
  have "pend - (p + 1) = pend - p - 1" by simp
  moreover have "unat (pend - p - 1) = unat (pend - p) - 1" using ne by (simp add: unat_sub word_le_nat_alt unat_gt_0 Suc_leI)
  ultimately have "unat (pend - (p + 1)) = unat (pend - p) - 1" by (simp only:)
  then show ?thesis using a ne by (auto simp: away_def)
qed

lemma digit_high_bit: "d < 128 \<Longrightarrow> \<not> 0x80 \<le> (of_nat d :: u8) \<and> 0x80 \<le> (of_nat (d + 128) :: u8)"
proof -
  assume "d < 128"
  then have "unat (of_nat d :: u8) = d" "unat (of_nat (d + 128) :: u8) = d + 128"
    by (simp_all only: unat_of_nat) simp_all
  then show ?thesis using \<open>d < 128\<close> by (simp add: word_le_nat_alt)
qed

lemma shift_round_trip:
  assumes "d * 2 ^ shift < 2 ^ 64"
  shows "drop_bit shift (push_bit shift (of_nat d :: u64)) = of_nat d"
proof -
  have "push_bit shift (of_nat d :: u64) = of_nat (d * 2 ^ shift)" by (simp add: push_bit_eq_mult)
  then have "unat (push_bit shift (of_nat d :: u64)) = d * 2 ^ shift" using assms by (simp only: unat_of_nat) simp
  then have "unat (drop_bit shift (push_bit shift (of_nat d :: u64))) = d"
    by (simp only: unat_drop_bit_eq) (simp add: drop_bit_eq_div)
  from arg_cong [OF this, of "of_nat :: nat \<Rightarrow> u64"] show ?thesis by simp
qed

lemma getULEB128_loop_digits:
  assumes "ds \<noteq> []" "\<forall>d\<in>set ds. d < 128" "holds mem p (leb_bytes ds)" "away p (length ds) pend"
    "leb_value ds * 2 ^ shift < 2 ^ 64" "shift + 7 * length ds < 71"
  shows "getULEB128_loop mem acc shift p pend = eh_return (acc OR push_bit shift (of_nat (leb_value ds)), p + of_nat (length ds))"
  using assms
proof (induction ds arbitrary: acc shift p rule: leb_bytes.induct)
  case (2 d)
  then have "p \<noteq> pend" using away_step [of p 0 pend] by simp
  then show ?case using "2.prems" digit_bits [of d] digit_high_bit [of d] shift_round_trip [of d shift]
    by (subst getULEB128_loop.simps) (simp add: get8_def Let_def)
next
  case (3 d e es)
  have d: "d < 128" using "3.prems" by simp
  have r: "p \<noteq> pend" "away (p + 1) (length (e # es)) pend" using away_step [of p "length (e # es)" pend] "3.prems"(4) by simp_all
  have v: "(of_nat (leb_value (d # e # es)) :: u64) = of_nat d OR push_bit 7 (of_nat (leb_value (e # es)))"
    using or_disjoint [of d 7 "of_nat (leb_value (e # es)) :: u64"] d by (simp add: push_bit_eq_mult)
  have "d * 2 ^ shift \<le> leb_value (d # e # es) * 2 ^ shift" by simp
  then have "d * 2 ^ shift < 2 ^ 64" using "3.prems"(5) by linarith
  then have "getULEB128_loop mem acc shift p pend = getULEB128_loop mem (acc OR push_bit shift (of_nat d)) (shift + 7) (p + 1) pend"
    using r(1) digit_bits [OF d] digit_high_bit [OF d] shift_round_trip [of d shift] "3.prems"(3,6)
    by (subst getULEB128_loop.simps) (simp add: get8_def Let_def)
  moreover have "getULEB128_loop mem (acc OR push_bit shift (of_nat d)) (shift + 7) (p + 1) pend =
    eh_return ((acc OR push_bit shift (of_nat d)) OR push_bit (shift + 7) (of_nat (leb_value (e # es))), p + 1 + of_nat (length (e # es)))"
  proof (rule "3.IH")
    have "128 * leb_value (e # es) * 2 ^ shift \<le> leb_value (d # e # es) * 2 ^ shift" by (rule mult_right_mono) simp_all
    then have "leb_value (e # es) * (2 ^ shift * 128) < 2 ^ 64" using "3.prems"(5) by (simp only: mult_ac)
    then show "leb_value (e # es) * 2 ^ (shift + 7) < 2 ^ 64" by (simp only: power_add) simp
  qed (use "3.prems" r in simp_all)
  ultimately show ?case using v by (simp add: push_bit_or push_bit_push_bit or.assoc add.commute add.left_commute)
qed simp

lemma getULEB128_away:
  assumes "holds mem p (uleb n)" "n < 2 ^ 64" "away p (length (uleb n)) pend"
  shows "getULEB128 mem p pend = eh_return (of_nat n, p + of_nat (length (uleb n)))"
proof -
  have "n < 128 ^ 10" using assms(2) by simp
  then have "length (uleb_digits n) \<le> 10" by (rule uleb_digits_length) simp
  then show ?thesis using getULEB128_loop_digits [of "uleb_digits n" mem p pend 0 0] uleb_digits_facts [of n] assms
    by (simp add: getULEB128_def uleb_def)
qed

lemma getULEB128_uleb:
  assumes "holds mem p (uleb n)" "n < 2 ^ 64" "room p (length (uleb n)) pend"
  shows "getULEB128 mem p pend = eh_return (of_nat n, p + of_nat (length (uleb n)))"
  using getULEB128_away [OF assms(1,2) room_away [OF assms(3)]] .

lemma getSLEB128_loop_digits:
  assumes "ds \<noteq> []" "\<forall>d\<in>set ds. d < 128" "holds mem p (leb_bytes ds)" "room p (length ds) pend"
    "shift + 7 * length ds < 71"
  shows "getSLEB128_loop mem acc shift p pend = eh_return
    (let v = acc OR push_bit shift (of_nat (leb_value ds)); n = shift + 7 * length ds in
     if 64 \<le> last ds \<and> n < 64 then v OR push_bit n (- 1) else v, p + of_nat (length ds))"
  using assms
proof (induction ds arbitrary: acc shift p rule: leb_bytes.induct)
  case (2 d)
  then have "p \<noteq> pend" using room_step [of p 0 pend] by simp
  then show ?case using "2.prems" digit_bits [of d]
    by (subst getSLEB128_loop.simps) (simp add: get8_def Let_def)
next
  case (3 d e es)
  have d: "d < 128" using "3.prems" by simp
  have r: "p \<noteq> pend" "room (p + 1) (length (e # es)) pend" using room_step [of p "length (e # es)" pend] "3.prems"(4) by simp_all
  have v: "(of_nat (leb_value (d # e # es)) :: u64) = of_nat d OR push_bit 7 (of_nat (leb_value (e # es)))"
    using or_disjoint [of d 7 "of_nat (leb_value (e # es)) :: u64"] d by (simp add: push_bit_eq_mult)
  have "getSLEB128_loop mem acc shift p pend = getSLEB128_loop mem (acc OR push_bit shift (of_nat d)) (shift + 7) (p + 1) pend"
    using r(1) digit_bits [OF d] "3.prems"(3,5) by (subst getSLEB128_loop.simps) (simp add: get8_def Let_def)
  also note "3.IH" [of "p + 1" "shift + 7" "acc OR push_bit shift (of_nat d)"]
  finally show ?case using "3.prems" r v
    by (simp add: push_bit_or push_bit_push_bit or.assoc add.commute add.left_commute)
qed simp

lemma getSLEB128_sleb:
  assumes "holds mem p (sleb z)" "- (2 ^ 63) \<le> z" "z < 2 ^ 63" "room p (length (sleb z)) pend"
  shows "getSLEB128 mem p pend = eh_return (of_int z, p + of_nat (length (sleb z)))"
proof -
  define ds where "ds = sleb_digits z"
  note f = sleb_digits_facts [of z, folded ds_def]
  have n: "length ds \<le> 10" unfolding ds_def by (rule order_trans [OF sleb_digits_length [of 9]]) (use assms in simp_all)
  have "holds mem p (leb_bytes ds)" using assms(1) by (simp add: sleb_def ds_def)
  note l = leb128_loop_digits [OF _ _ this, of 0 0] leb128_digits [OF _ n _ this]
  then have "(if 64 \<le> last ds \<and> 7 * length ds < 64 then (of_nat (leb_value ds) :: u64) OR push_bit (7 * length ds) (- 1)
      else of_nat (leb_value ds)) = of_int z"
    using f by (auto simp: readSLEB128_def eh_return_def digit_bits(5) split: if_splits)
  then show ?thesis using getSLEB128_loop_digits [of ds mem p pend 0 0] f n assms
    by (simp del: push_bit_minus_one_eq_not_mask add: getSLEB128_def sleb_def Let_def flip: ds_def)
qed

section \<open>The two readers of the libraries\<close>

text \<open>The reader with a limit agrees with the one of the personality routine wherever it does not abort.\<close>

lemma getULEB128_loop_read:
  "getULEB128_loop mem acc shift p pend = eh_return r \<Longrightarrow>
    map_option (\<lambda>(result, shift, byte, p'). (result, p')) (leb128_loop mem acc shift p) = Some r"
proof (induction mem acc shift p pend rule: getULEB128_loop.induct)
  case (1 mem acc shift p pend)
  have high: "(0x80 \<le> mem p) = (mem p AND 0x80 \<noteq> 0)"
  proof -
    have "\<forall>w\<in>set (map (of_nat :: nat \<Rightarrow> u8) [0..<256]). (0x80 \<le> w) = (w AND 0x80 \<noteq> 0)" by code_simp
    moreover have "of_nat (unat (mem p)) \<in> set (map (of_nat :: nat \<Rightarrow> u8) [0..<256])"
      unfolding set_map by (rule imageI) simp
    ultimately have "(0x80 \<le> (of_nat (unat (mem p)) :: u8)) = (of_nat (unat (mem p)) AND 0x80 \<noteq> (0 :: u8))" by (rule bspec)
    then show ?thesis by simp
  qed
  from "1.prems" "1.IH" show ?case
    by (subst (asm) getULEB128_loop.simps, subst leb128_loop.simps)
      (auto simp: Let_def high get8_def eh_return_def eh_stop_def split: if_splits)
qed

lemma getULEB128_read: "getULEB128 mem p pend = eh_return r \<Longrightarrow> readULEB128 mem p = eh_return r"
  using getULEB128_loop_read [of mem 0 0 p pend r]
  by (cases "leb128_loop mem 0 0 p") (auto simp: getULEB128_def readULEB128_def eh_return_def)

end
