(* ===== verification/DwarfCfi.thy ===== *)
theory DwarfCfi
  imports AddressSpace
begin

unbundle bit_operations_syntax

text \<open>
  Call frame information (\<open>libunwind/src/DwarfParser.hpp\<close>, \<open>dwarf2.h\<close>) for x86-64: reading the records of a section
  and running the instructions that tell how a frame saved its registers. The structures of the code are records; the
  ones it fills are threaded through, with the fields it does not assign left as they were. Pointers to error
  messages are optional strings.
\<close>

section \<open>Records\<close>

record cie_info =
  cieStart :: u64
  cieLength :: u64
  cieInstructions :: u64
  pointerEncoding :: u8
  lsdaEncoding :: u8
  personalityEncoding :: u8
  personalityOffsetInCIE :: u8
  cie_personality :: u64
  codeAlignFactor :: u32
  dataAlignFactor :: u32
  isSignalFrame :: bool
  fdesHaveAugmentationData :: bool
  returnAddressRegister :: u8

record fde_info =
  fdeStart :: u64
  fdeLength :: u64
  fdeInstructions :: u64
  pcStart :: u64
  pcEnd :: u64
  fde_lsda :: u64

text \<open>The length of a record, of 4 or of 12 bytes, and the address behind it.\<close>

definition cfi_length :: "memory \<Rightarrow> u64 \<Rightarrow> u64 \<times> u64" where
  "cfi_length mem p =
     (let cfiLength = ucast (get32 mem p); p = p + 4 in
      if cfiLength = 0xFFFFFFFF then (get64 mem p, p + 8) else (cfiLength, p))"

section \<open>Common information entries\<close>

partial_function (option) string_end :: "memory \<Rightarrow> u64 \<Rightarrow> u64 dw" where
  "string_end mem p = (if get8 mem p \<noteq> 0 then string_end mem (p + 1) else eh_return p)"

text \<open>The loop over the letters of the augmentation string at \<open>s\<close>, with the position in the data of the entry.\<close>

partial_function (option) augmentation_loop :: "memory \<Rightarrow> u64 \<Rightarrow> u64 \<Rightarrow> cie_info \<Rightarrow> u64 \<Rightarrow> u64 \<Rightarrow> (u64 \<times> cie_info) dw" where
  "augmentation_loop mem cie cieContentEnd info p s =
     (let letter = get8 mem s in
      if letter = 0 then eh_return (p, info)
      else if letter = 0x7A
      then augmentation_loop mem cie cieContentEnd (info\<lparr>fdesHaveAugmentationData := True\<rparr>) p (s + 1)
      else if letter = 0x50
      then
        let info = info\<lparr>personalityEncoding := get8 mem p\<rparr>; p = p + 1; info = info\<lparr>personalityOffsetInCIE := ucast (p - cie)\<rparr> in
        eh_bind (getEncodedP mem p cieContentEnd (personalityEncoding info) 0) (\<lambda>(v, p').
          augmentation_loop mem cie cieContentEnd (info\<lparr>cie_personality := v\<rparr>) p' (s + 1))
      else if letter = 0x4C
      then augmentation_loop mem cie cieContentEnd (info\<lparr>lsdaEncoding := get8 mem p\<rparr>) (p + 1) (s + 1)
      else if letter = 0x52
      then augmentation_loop mem cie cieContentEnd (info\<lparr>pointerEncoding := get8 mem p\<rparr>) (p + 1) (s + 1)
      else if letter = 0x53
      then augmentation_loop mem cie cieContentEnd (info\<lparr>isSignalFrame := True\<rparr>) p (s + 1)
      else augmentation_loop mem cie cieContentEnd info p (s + 1))"

definition reset_cie :: "u64 \<Rightarrow> cie_info \<Rightarrow> cie_info" where
  "reset_cie cie info = info\<lparr>pointerEncoding := 0, lsdaEncoding := DW_EH_PE_omit, personalityEncoding := 0,
     personalityOffsetInCIE := 0, cie_personality := 0, codeAlignFactor := 0, dataAlignFactor := 0, isSignalFrame := False,
     fdesHaveAugmentationData := False, cieStart := cie\<rparr>"

text \<open>The end of an entry of length \<open>0xFFFFFFFF\<close> is behind its 64-bit length.\<close>

definition parseCIE :: "memory \<Rightarrow> u64 \<Rightarrow> cie_info \<Rightarrow> (string option \<times> cie_info) dw" where
  "parseCIE mem cie info =
     (let info = reset_cie cie info;
        (cieLength, p) = cfi_length mem cie;
        cieContentEnd = p + cieLength in
      if cieLength = 0 then eh_return (None, info)
      else if get32 mem p \<noteq> 0 then eh_return (Some ''CIE ID is not zero'', info)
      else
        let p = p + 4; version = get8 mem p in
        if version \<noteq> 1 \<and> version \<noteq> 3 then eh_return (Some ''CIE version is not 1 or 3'', info)
        else
          let strStart = p + 1 in
          eh_bind (string_end mem strStart) (\<lambda>p.
          eh_bind (getULEB128 mem (p + 1) cieContentEnd) (\<lambda>(codeAlign, p).
          eh_bind (getSLEB128 mem p cieContentEnd) (\<lambda>(dataAlign, p).
          eh_bind (if version = 1 then eh_return (ucast (get8 mem p), p + 1) else getULEB128 mem p cieContentEnd) (\<lambda>(raReg, p).
          if \<not> raReg < 255 then eh_stop Fatal
          else
            let info = info\<lparr>codeAlignFactor := ucast codeAlign, dataAlignFactor := ucast dataAlign,
              returnAddressRegister := ucast raReg\<rparr> in
            eh_bind
              (if get8 mem strStart = 0x7A
               then eh_bind (getULEB128 mem p cieContentEnd) (\<lambda>(_, p). augmentation_loop mem cie cieContentEnd info p strStart)
               else eh_return (p, info))
              (\<lambda>(p, info). eh_return (None, info\<lparr>cieLength := cieContentEnd - cie, cieInstructions := p\<rparr>)))))))"

section \<open>Frame description entries\<close>

text \<open>What \<open>decodeFDE\<close> and \<open>findFDE\<close> do alike after the range of the function: the language specific data area.\<close>

definition fde_augmentation :: "memory \<Rightarrow> u64 \<Rightarrow> cie_info \<Rightarrow> u64 \<Rightarrow> (u64 \<times> u64) dw" where
  "fde_augmentation mem nextCFI cie p =
     (if fdesHaveAugmentationData cie
      then eh_bind (getULEB128 mem p nextCFI) (\<lambda>(augLen, p).
        let endOfAug = p + augLen in
        if lsdaEncoding cie \<noteq> DW_EH_PE_omit
        then eh_bind (getEncodedP mem p nextCFI (lsdaEncoding cie AND 0x0F) 0) (\<lambda>(v, _).
          if v \<noteq> 0
          then eh_bind (getEncodedP mem p nextCFI (lsdaEncoding cie) 0) (\<lambda>(lsda, _). eh_return (lsda, endOfAug))
          else eh_return (0, endOfAug))
        else eh_return (0, endOfAug))
      else eh_return (0, p))"

text \<open>The range of the function: its first address, its length and the position behind them.\<close>

definition fde_range :: "memory \<Rightarrow> u64 \<Rightarrow> cie_info \<Rightarrow> u64 \<Rightarrow> (u64 \<times> u64 \<times> u64) dw" where
  "fde_range mem nextCFI cie p =
     eh_bind (getEncodedP mem p nextCFI (pointerEncoding cie) 0) (\<lambda>(start, p).
     eh_bind (getEncodedP mem p nextCFI (pointerEncoding cie AND 0x0F) 0) (\<lambda>(range, p).
     eh_return (start, range, p)))"

definition decodeFDE :: "memory \<Rightarrow> u64 \<Rightarrow> fde_info \<Rightarrow> cie_info \<Rightarrow> (string option \<times> fde_info \<times> cie_info) dw" where
  "decodeFDE mem fde fdeInfo cieInfo =
     (let (cfiLength, p) = cfi_length mem fde in
      if cfiLength = 0 then eh_return (Some ''FDE has zero length'', fdeInfo, cieInfo)
      else
        let ciePointer = get32 mem p in
        if ciePointer = 0 then eh_return (Some ''FDE is really a CIE'', fdeInfo, cieInfo)
        else
          let nextCFI = p + cfiLength in
          eh_bind (parseCIE mem (p - ucast ciePointer) cieInfo) (\<lambda>(err, cieInfo).
          if err \<noteq> None then eh_return (err, fdeInfo, cieInfo)
          else
            eh_bind (fde_range mem nextCFI cieInfo (p + 4)) (\<lambda>(start, range, p).
            eh_bind (fde_augmentation mem nextCFI cieInfo p) (\<lambda>(lsda, p).
            eh_return (None, fdeInfo\<lparr>fde_lsda := lsda, fdeStart := fde, fdeLength := nextCFI - fde, fdeInstructions := p,
              pcStart := start, pcEnd := start + range\<rparr>, cieInfo)))))"

partial_function (option) findFDE_loop ::
  "memory \<Rightarrow> u64 \<Rightarrow> u64 \<Rightarrow> u64 \<Rightarrow> fde_info \<Rightarrow> cie_info \<Rightarrow> u64 \<Rightarrow> (bool \<times> fde_info \<times> cie_info) dw" where
  "findFDE_loop mem pc ehSectionStart ehSectionEnd fdeInfo cieInfo currentCFI =
     (if \<not> currentCFI < ehSectionEnd then eh_return (False, fdeInfo, cieInfo)
      else
        let (cfiLength, p) = cfi_length mem currentCFI in
        if cfiLength = 0 then eh_return (False, fdeInfo, cieInfo)
        else
          let ciePointer = get32 mem p; nextCFI = p + cfiLength; cieStart = p - ucast ciePointer in
          if ciePointer = 0 \<or> \<not> (ehSectionStart \<le> cieStart \<and> cieStart < ehSectionEnd)
          then findFDE_loop mem pc ehSectionStart ehSectionEnd fdeInfo cieInfo nextCFI
          else
            eh_bind (parseCIE mem cieStart cieInfo) (\<lambda>(err, cieInfo).
            if err \<noteq> None then findFDE_loop mem pc ehSectionStart ehSectionEnd fdeInfo cieInfo nextCFI
            else
              eh_bind (fde_range mem nextCFI cieInfo (p + 4)) (\<lambda>(start, range, p).
              if start < pc \<and> pc \<le> start + range
              then eh_bind (fde_augmentation mem nextCFI cieInfo p) (\<lambda>(lsda, p).
                eh_return (True, fdeInfo\<lparr>fde_lsda := lsda, fdeStart := currentCFI, fdeLength := nextCFI - currentCFI,
                  fdeInstructions := p, pcStart := start, pcEnd := start + range\<rparr>, cieInfo))
              else findFDE_loop mem pc ehSectionStart ehSectionEnd fdeInfo cieInfo nextCFI)))"

definition findFDE ::
  "memory \<Rightarrow> u64 \<Rightarrow> u64 \<Rightarrow> u64 \<Rightarrow> u64 \<Rightarrow> fde_info \<Rightarrow> cie_info \<Rightarrow> (bool \<times> fde_info \<times> cie_info) dw" where
  "findFDE mem pc ehSectionStart sectionLength fdeHint fdeInfo cieInfo =
     (let ehSectionEnd = (if sectionLength = - 1 then - 1 else ehSectionStart + sectionLength) in
      findFDE_loop mem pc ehSectionStart ehSectionEnd fdeInfo cieInfo (if fdeHint \<noteq> 0 then fdeHint else ehSectionStart))"

section \<open>The state of the instructions\<close>

datatype saved_where = kRegisterUnused | kRegisterUndefined | kRegisterInCFA | kRegisterOffsetFromCFA
  | kRegisterInRegister | kRegisterAtExpression | kRegisterIsExpression

record register_location =
  location :: saved_where
  initialStateSaved :: bool
  location_value :: u64

type_synonym saved_registers = "u64 \<Rightarrow> register_location"

record prolog_info =
  cfaRegister :: u32
  cfaRegisterOffset :: u32
  cfaExpression :: u64
  spExtraArgSize :: u32
  codeOffsetAtStackDecrement :: u32
  registersInOtherRegisters :: bool
  sameValueUsed :: bool
  savedRegisters :: saved_registers

definition kMaxRegisterNumber :: u64 where "kMaxRegisterNumber = 32"

definition zero_prolog :: prolog_info where
  "zero_prolog = \<lparr>cfaRegister = 0, cfaRegisterOffset = 0, cfaExpression = 0, spExtraArgSize = 0,
     codeOffsetAtStackDecrement = 0, registersInOtherRegisters = False, sameValueUsed = False,
     savedRegisters = (\<lambda>reg. \<lparr>location = kRegisterUnused, initialStateSaved = False, location_value = 0\<rparr>)\<rparr>"

text \<open>The variables of \<open>parseInstructions\<close>. Only the registers of \<open>initialState\<close> are used; it is not initialized.\<close>

record cfi_state =
  cfi_p :: u64
  codeOffset :: u64
  rememberStack :: "prolog_info list"
  results :: prolog_info
  initialState :: saved_registers

definition checkSaveRegister :: "u64 \<Rightarrow> cfi_state \<Rightarrow> cfi_state" where
  "checkSaveRegister reg st =
     (let regs = savedRegisters (results st) in
      if \<not> initialStateSaved (regs reg)
      then st\<lparr>initialState := (initialState st)(reg := regs reg),
        results := (results st)\<lparr>savedRegisters := regs(reg := (regs reg)\<lparr>initialStateSaved := True\<rparr>)\<rparr>\<rparr>
      else st)"

definition setRegister :: "u64 \<Rightarrow> saved_where \<Rightarrow> u64 \<Rightarrow> cfi_state \<Rightarrow> cfi_state" where
  "setRegister reg newLocation newValue st =
     (let st = checkSaveRegister reg st; regs = savedRegisters (results st) in
      st\<lparr>results := (results st)\<lparr>savedRegisters := regs(reg := (regs reg)\<lparr>location := newLocation, location_value := newValue\<rparr>)\<rparr>\<rparr>)"

definition setRegisterLocation :: "u64 \<Rightarrow> saved_where \<Rightarrow> cfi_state \<Rightarrow> cfi_state" where
  "setRegisterLocation reg newLocation st =
     (let st = checkSaveRegister reg st; regs = savedRegisters (results st) in
      st\<lparr>results := (results st)\<lparr>savedRegisters := regs(reg := (regs reg)\<lparr>location := newLocation\<rparr>)\<rparr>\<rparr>)"

definition restoreRegisterToInitialState :: "u64 \<Rightarrow> cfi_state \<Rightarrow> cfi_state" where
  "restoreRegisterToInitialState reg st =
     (let regs = savedRegisters (results st) in
      if initialStateSaved (regs reg)
      then st\<lparr>results := (results st)\<lparr>savedRegisters := regs(reg := initialState st reg)\<rparr>\<rparr>
      else st)"

section \<open>The instructions\<close>

abbreviation DW_CFA_nop :: u8 where "DW_CFA_nop \<equiv> 0x00"
abbreviation DW_CFA_set_loc :: u8 where "DW_CFA_set_loc \<equiv> 0x01"
abbreviation DW_CFA_advance_loc1 :: u8 where "DW_CFA_advance_loc1 \<equiv> 0x02"
abbreviation DW_CFA_advance_loc2 :: u8 where "DW_CFA_advance_loc2 \<equiv> 0x03"
abbreviation DW_CFA_advance_loc4 :: u8 where "DW_CFA_advance_loc4 \<equiv> 0x04"
abbreviation DW_CFA_offset_extended :: u8 where "DW_CFA_offset_extended \<equiv> 0x05"
abbreviation DW_CFA_restore_extended :: u8 where "DW_CFA_restore_extended \<equiv> 0x06"
abbreviation DW_CFA_undefined :: u8 where "DW_CFA_undefined \<equiv> 0x07"
abbreviation DW_CFA_same_value :: u8 where "DW_CFA_same_value \<equiv> 0x08"
abbreviation DW_CFA_register :: u8 where "DW_CFA_register \<equiv> 0x09"
abbreviation DW_CFA_remember_state :: u8 where "DW_CFA_remember_state \<equiv> 0x0A"
abbreviation DW_CFA_restore_state :: u8 where "DW_CFA_restore_state \<equiv> 0x0B"
abbreviation DW_CFA_def_cfa :: u8 where "DW_CFA_def_cfa \<equiv> 0x0C"
abbreviation DW_CFA_def_cfa_register :: u8 where "DW_CFA_def_cfa_register \<equiv> 0x0D"
abbreviation DW_CFA_def_cfa_offset :: u8 where "DW_CFA_def_cfa_offset \<equiv> 0x0E"
abbreviation DW_CFA_def_cfa_expression :: u8 where "DW_CFA_def_cfa_expression \<equiv> 0x0F"
abbreviation DW_CFA_expression :: u8 where "DW_CFA_expression \<equiv> 0x10"
abbreviation DW_CFA_offset_extended_sf :: u8 where "DW_CFA_offset_extended_sf \<equiv> 0x11"
abbreviation DW_CFA_def_cfa_sf :: u8 where "DW_CFA_def_cfa_sf \<equiv> 0x12"
abbreviation DW_CFA_def_cfa_offset_sf :: u8 where "DW_CFA_def_cfa_offset_sf \<equiv> 0x13"
abbreviation DW_CFA_val_offset :: u8 where "DW_CFA_val_offset \<equiv> 0x14"
abbreviation DW_CFA_val_offset_sf :: u8 where "DW_CFA_val_offset_sf \<equiv> 0x15"
abbreviation DW_CFA_val_expression :: u8 where "DW_CFA_val_expression \<equiv> 0x16"
abbreviation DW_CFA_GNU_args_size :: u8 where "DW_CFA_GNU_args_size \<equiv> 0x2E"
abbreviation DW_CFA_GNU_negative_offset_extended :: u8 where "DW_CFA_GNU_negative_offset_extended \<equiv> 0x2F"
abbreviation DW_CFA_advance_loc :: u8 where "DW_CFA_advance_loc \<equiv> 0x40"
abbreviation DW_CFA_offset :: u8 where "DW_CFA_offset \<equiv> 0x80"
abbreviation DW_CFA_restore :: u8 where "DW_CFA_restore \<equiv> 0xC0"

abbreviation advance :: "cie_info \<Rightarrow> u32 \<Rightarrow> cfi_state \<Rightarrow> cfi_state" where
  "advance cie delta st \<equiv> st\<lparr>codeOffset := codeOffset st + ucast (delta * codeAlignFactor cie)\<rparr>"

abbreviation factored :: "cie_info \<Rightarrow> u64 \<Rightarrow> u64" where
  "factored cie v \<equiv> v * scast (dataAlignFactor cie)"

abbreviation go_on :: "cfi_state \<Rightarrow> cfi_state option dw" where
  "go_on st \<equiv> eh_return (Some st)"

text \<open>The expression of an instruction is left where it is: its address is kept and its length is skipped.\<close>

definition skip_expression :: "memory \<Rightarrow> u64 \<Rightarrow> cfi_state \<Rightarrow> cfi_state option dw" where
  "skip_expression mem iend st =
     eh_bind (getULEB128 mem (cfi_p st) iend) (\<lambda>(len, p). if len = - 1 then eh_stop Fatal else go_on (st\<lparr>cfi_p := p + len\<rparr>))"

text \<open>One turn of the switch, after its opcode is read; \<open>None\<close> where the code returns false. The register and the
  offset of an instruction are read in the order of the code, with the test of the register where the code has it.\<close>

definition cfi_instruction ::
  "memory \<Rightarrow> cie_info \<Rightarrow> u64 \<Rightarrow> (prolog_info list \<Rightarrow> bool) \<Rightarrow> u8 \<Rightarrow> cfi_state \<Rightarrow> cfi_state option dw" where
  "cfi_instruction mem cie iend can_allocate opcode st =
     (let p = cfi_p st; fail = eh_return None; uleb = (\<lambda>p. getULEB128 mem p iend); sleb = (\<lambda>p. getSLEB128 mem p iend) in
      if opcode = DW_CFA_nop then go_on st
      else if opcode = DW_CFA_set_loc
      then eh_bind (getEncodedP mem p iend (pointerEncoding cie) 0) (\<lambda>(v, p). go_on (st\<lparr>codeOffset := v, cfi_p := p\<rparr>))
      else if opcode = DW_CFA_advance_loc1 then go_on (advance cie (ucast (get8 mem p)) (st\<lparr>cfi_p := p + 1\<rparr>))
      else if opcode = DW_CFA_advance_loc2 then go_on (advance cie (ucast (get16 mem p)) (st\<lparr>cfi_p := p + 2\<rparr>))
      else if opcode = DW_CFA_advance_loc4 then go_on (advance cie (get32 mem p) (st\<lparr>cfi_p := p + 4\<rparr>))
      else if opcode = DW_CFA_offset_extended
      then eh_bind (uleb p) (\<lambda>(reg, p). eh_bind (uleb p) (\<lambda>(v, p).
        if kMaxRegisterNumber < reg then fail
        else go_on (setRegister reg kRegisterInCFA (factored cie v) (st\<lparr>cfi_p := p\<rparr>))))
      else if opcode = DW_CFA_restore_extended
      then eh_bind (uleb p) (\<lambda>(reg, p).
        if kMaxRegisterNumber < reg then fail else go_on (restoreRegisterToInitialState reg (st\<lparr>cfi_p := p\<rparr>)))
      else if opcode = DW_CFA_undefined
      then eh_bind (uleb p) (\<lambda>(reg, p).
        if kMaxRegisterNumber < reg then fail else go_on (setRegisterLocation reg kRegisterUndefined (st\<lparr>cfi_p := p\<rparr>)))
      else if opcode = DW_CFA_same_value
      then eh_bind (uleb p) (\<lambda>(reg, p).
        if kMaxRegisterNumber < reg then fail
        else
          let st = setRegisterLocation reg kRegisterUnused (st\<lparr>cfi_p := p\<rparr>) in
          go_on (st\<lparr>results := (results st)\<lparr>sameValueUsed := True\<rparr>\<rparr>))
      else if opcode = DW_CFA_register
      then eh_bind (uleb p) (\<lambda>(reg, p). eh_bind (uleb p) (\<lambda>(reg2, p).
        if kMaxRegisterNumber < reg then fail
        else if kMaxRegisterNumber < reg2 then fail
        else
          let st = setRegister reg kRegisterInRegister reg2 (st\<lparr>cfi_p := p\<rparr>) in
          go_on (st\<lparr>results := (results st)\<lparr>registersInOtherRegisters := True\<rparr>\<rparr>)))
      else if opcode = DW_CFA_remember_state
      then (if can_allocate (rememberStack st) then go_on (st\<lparr>rememberStack := results st # rememberStack st\<rparr>) else fail)
      else if opcode = DW_CFA_restore_state
      then (case rememberStack st of [] \<Rightarrow> fail | info # rest \<Rightarrow> go_on (st\<lparr>results := info, rememberStack := rest\<rparr>))
      else if opcode = DW_CFA_def_cfa
      then eh_bind (uleb p) (\<lambda>(reg, p). eh_bind (uleb p) (\<lambda>(v, p).
        if kMaxRegisterNumber < reg then fail
        else go_on (st\<lparr>cfi_p := p, results := (results st)\<lparr>cfaRegister := ucast reg, cfaRegisterOffset := ucast v\<rparr>\<rparr>)))
      else if opcode = DW_CFA_def_cfa_register
      then eh_bind (uleb p) (\<lambda>(reg, p).
        if kMaxRegisterNumber < reg then fail
        else go_on (st\<lparr>cfi_p := p, results := (results st)\<lparr>cfaRegister := ucast reg\<rparr>\<rparr>))
      else if opcode = DW_CFA_def_cfa_offset
      then eh_bind (uleb p) (\<lambda>(v, p). go_on (st\<lparr>cfi_p := p,
        results := (results st)\<lparr>cfaRegisterOffset := ucast v, codeOffsetAtStackDecrement := ucast (codeOffset st)\<rparr>\<rparr>))
      else if opcode = DW_CFA_def_cfa_expression
      then skip_expression mem iend (st\<lparr>results := (results st)\<lparr>cfaRegister := 0, cfaExpression := p\<rparr>\<rparr>)
      else if opcode = DW_CFA_expression
      then eh_bind (uleb p) (\<lambda>(reg, p).
        if kMaxRegisterNumber < reg then fail
        else skip_expression mem iend (setRegister reg kRegisterAtExpression p (st\<lparr>cfi_p := p\<rparr>)))
      else if opcode = DW_CFA_offset_extended_sf
      then eh_bind (uleb p) (\<lambda>(reg, p).
        if kMaxRegisterNumber < reg then fail
        else eh_bind (sleb p) (\<lambda>(v, p). go_on (setRegister reg kRegisterInCFA (factored cie v) (st\<lparr>cfi_p := p\<rparr>))))
      else if opcode = DW_CFA_def_cfa_sf
      then eh_bind (uleb p) (\<lambda>(reg, p). eh_bind (sleb p) (\<lambda>(v, p).
        if kMaxRegisterNumber < reg then fail
        else go_on (st\<lparr>cfi_p := p,
          results := (results st)\<lparr>cfaRegister := ucast reg, cfaRegisterOffset := ucast (factored cie v)\<rparr>\<rparr>)))
      else if opcode = DW_CFA_def_cfa_offset_sf
      then eh_bind (sleb p) (\<lambda>(v, p). go_on (st\<lparr>cfi_p := p, results := (results st)\<lparr>cfaRegisterOffset := ucast (factored cie v),
        codeOffsetAtStackDecrement := ucast (codeOffset st)\<rparr>\<rparr>))
      else if opcode = DW_CFA_val_offset
      then eh_bind (uleb p) (\<lambda>(reg, p).
        if kMaxRegisterNumber < reg then fail
        else eh_bind (uleb p) (\<lambda>(v, p). go_on (setRegister reg kRegisterOffsetFromCFA (factored cie v) (st\<lparr>cfi_p := p\<rparr>))))
      else if opcode = DW_CFA_val_offset_sf
      then eh_bind (uleb p) (\<lambda>(reg, p).
        if kMaxRegisterNumber < reg then fail
        else eh_bind (sleb p) (\<lambda>(v, p). go_on (setRegister reg kRegisterOffsetFromCFA (factored cie v) (st\<lparr>cfi_p := p\<rparr>))))
      else if opcode = DW_CFA_val_expression
      then eh_bind (uleb p) (\<lambda>(reg, p).
        if kMaxRegisterNumber < reg then fail
        else skip_expression mem iend (setRegister reg kRegisterIsExpression p (st\<lparr>cfi_p := p\<rparr>)))
      else if opcode = DW_CFA_GNU_args_size
      then eh_bind (uleb p) (\<lambda>(len, p). go_on (st\<lparr>cfi_p := p, results := (results st)\<lparr>spExtraArgSize := ucast len\<rparr>\<rparr>))
      else if opcode = DW_CFA_GNU_negative_offset_extended
      then eh_bind (uleb p) (\<lambda>(reg, p).
        if kMaxRegisterNumber < reg then fail
        else eh_bind (uleb p) (\<lambda>(v, p). go_on (setRegister reg kRegisterInCFA (- factored cie v) (st\<lparr>cfi_p := p\<rparr>))))
      else
        let operand = opcode AND 0x3F; reg = ucast operand in
        if opcode AND 0xC0 = DW_CFA_offset
        then (if kMaxRegisterNumber < reg then fail
          else eh_bind (uleb p) (\<lambda>(v, p). go_on (setRegister reg kRegisterInCFA (factored cie v) (st\<lparr>cfi_p := p\<rparr>))))
        else if opcode AND 0xC0 = DW_CFA_advance_loc then go_on (advance cie (ucast operand) st)
        else if opcode AND 0xC0 = DW_CFA_restore
        then (if kMaxRegisterNumber < reg then fail else go_on (restoreRegisterToInitialState reg st))
        else fail)"

partial_function (option) parse_loop ::
  "memory \<Rightarrow> cie_info \<Rightarrow> u64 \<Rightarrow> u64 \<Rightarrow> (prolog_info list \<Rightarrow> bool) \<Rightarrow> cfi_state \<Rightarrow> cfi_state option dw" where
  "parse_loop mem cie iend pcoffset can_allocate st =
     (if cfi_p st < iend \<and> codeOffset st < pcoffset
      then eh_bind (cfi_instruction mem cie iend can_allocate (get8 mem (cfi_p st)) (st\<lparr>cfi_p := cfi_p st + 1\<rparr>)) (\<lambda>r.
        case r of None \<Rightarrow> eh_return None | Some st \<Rightarrow> parse_loop mem cie iend pcoffset can_allocate st)
      else eh_return (Some st))"

text \<open>The remembered states and the results after a run, or \<open>None\<close> for false; \<open>uninit\<close> is what \<open>initialState\<close> holds
  before it is written.\<close>

definition parseInstructions ::
  "memory \<Rightarrow> u64 \<Rightarrow> u64 \<Rightarrow> cie_info \<Rightarrow> u64 \<Rightarrow> (prolog_info list \<Rightarrow> bool) \<Rightarrow> saved_registers \<Rightarrow>
    prolog_info list \<Rightarrow> prolog_info \<Rightarrow> (prolog_info list \<times> prolog_info) option dw" where
  "parseInstructions mem instructions instructionsEnd cie pcoffset can_allocate uninit stack info =
     eh_bind (parse_loop mem cie instructionsEnd pcoffset can_allocate
        \<lparr>cfi_p = instructions, codeOffset = 0, rememberStack = stack, results = info, initialState = uninit\<rparr>)
       (\<lambda>r. eh_return (map_option (\<lambda>st. (rememberStack st, results st)) r))"

definition parseFDEInstructions ::
  "memory \<Rightarrow> fde_info \<Rightarrow> cie_info \<Rightarrow> u64 \<Rightarrow> (prolog_info list \<Rightarrow> bool) \<Rightarrow> saved_registers \<Rightarrow> saved_registers \<Rightarrow>
    prolog_info \<Rightarrow> prolog_info option dw" where
  "parseFDEInstructions mem fdeInfo cieInfo upToPC can_allocate uninit1 uninit2 info =
     eh_bind (parseInstructions mem (cieInstructions cieInfo) (cieStart cieInfo + cieLength cieInfo) cieInfo (- 1)
        can_allocate uninit1 [] info) (\<lambda>r.
       case r of None \<Rightarrow> eh_return None
       | Some (stack, info) \<Rightarrow>
           eh_bind (parseInstructions mem (fdeInstructions fdeInfo) (fdeStart fdeInfo + fdeLength fdeInfo) cieInfo
              (upToPC - pcStart fdeInfo) can_allocate uninit2 stack info) (\<lambda>r. eh_return (map_option snd r)))"

end
