(* ===== verification/CfiSpec.thy ===== *)
theory CfiSpec
  imports DwarfCfi
begin

unbundle bit_operations_syntax

text \<open>
  What call frame instructions mean: the table of rows of the DWARF standard. A row says how to compute the canonical
  frame address and where each register of the caller is; instructions change the current row, and advancing the
  location closes it. \<open>encode\<close> is the byte form of an instruction, \<open>row_shown\<close> relates a row to what the code records.
\<close>

section \<open>Rows and instructions\<close>

datatype reg_rule = Unspecified | Undefined_value | At_offset int | Is_offset int | In_register nat
  | At_expression "u8 list" | Is_expression "u8 list"

datatype cfa_rule = Cfa_register nat int | Cfa_expression "u8 list"

record row =
  cfa :: "cfa_rule option"
  rules :: "nat \<Rightarrow> reg_rule"

definition no_row :: row where
  "no_row = \<lparr>cfa = None, rules = (\<lambda>r. Unspecified)\<rparr>"

text \<open>The instructions, with their operands as numbers; \<open>DW_CFA_set_loc\<close> is left out.\<close>

datatype cfi = Nop | Advance_loc nat | Advance_loc1 nat | Advance_loc2 nat | Advance_loc4 nat
  | Offset nat nat | Offset_extended nat nat | Offset_extended_sf nat int | Negative_offset_extended nat nat
  | Restore nat | Restore_extended nat | Undefined_register nat | Same_value nat | Register nat nat
  | Remember_state | Restore_state
  | Def_cfa nat nat | Def_cfa_sf nat int | Def_cfa_register nat | Def_cfa_offset nat | Def_cfa_offset_sf int
  | Def_cfa_expression "u8 list" | Expression nat "u8 list" | Val_expression nat "u8 list"
  | Val_offset nat nat | Val_offset_sf nat int | Args_size nat

fun location_delta :: "cfi \<Rightarrow> nat option" where
  "location_delta (Advance_loc d) = Some d"
| "location_delta (Advance_loc1 d) = Some d"
| "location_delta (Advance_loc2 d) = Some d"
| "location_delta (Advance_loc4 d) = Some d"
| "location_delta i = None"

text \<open>The rule that an instruction gives to a register.\<close>

fun register_rule :: "int \<Rightarrow> row \<Rightarrow> cfi \<Rightarrow> (nat \<times> reg_rule) option" where
  "register_rule da init (Offset r n) = Some (r, At_offset (int n * da))"
| "register_rule da init (Offset_extended r n) = Some (r, At_offset (int n * da))"
| "register_rule da init (Offset_extended_sf r z) = Some (r, At_offset (z * da))"
| "register_rule da init (Negative_offset_extended r n) = Some (r, At_offset (- (int n * da)))"
| "register_rule da init (Restore r) = Some (r, rules init r)"
| "register_rule da init (Restore_extended r) = Some (r, rules init r)"
| "register_rule da init (Undefined_register r) = Some (r, Undefined_value)"
| "register_rule da init (Same_value r) = Some (r, Unspecified)"
| "register_rule da init (Register r s) = Some (r, In_register s)"
| "register_rule da init (Expression r b) = Some (r, At_expression b)"
| "register_rule da init (Val_expression r b) = Some (r, Is_expression b)"
| "register_rule da init (Val_offset r n) = Some (r, Is_offset (int n * da))"
| "register_rule da init (Val_offset_sf r z) = Some (r, Is_offset (z * da))"
| "register_rule da init i = None"

fun cfa_effect :: "int \<Rightarrow> cfa_rule option \<Rightarrow> cfi \<Rightarrow> cfa_rule option option" where
  "cfa_effect da c (Def_cfa r n) = Some (Some (Cfa_register r (int n)))"
| "cfa_effect da c (Def_cfa_sf r z) = Some (Some (Cfa_register r (z * da)))"
| "cfa_effect da c (Def_cfa_register r) = (case c of Some (Cfa_register s z) \<Rightarrow> Some (Some (Cfa_register r z)) | _ \<Rightarrow> None)"
| "cfa_effect da c (Def_cfa_offset n) = (case c of Some (Cfa_register s z) \<Rightarrow> Some (Some (Cfa_register s (int n))) | _ \<Rightarrow> None)"
| "cfa_effect da c (Def_cfa_offset_sf y) = (case c of Some (Cfa_register s z) \<Rightarrow> Some (Some (Cfa_register s (y * da))) | _ \<Rightarrow> None)"
| "cfa_effect da c (Def_cfa_expression b) = Some (Some (Cfa_expression b))"
| "cfa_effect da c i = Some c"

text \<open>The effect on the current row and the remembered ones; \<open>None\<close> where the instruction is not valid.\<close>

fun effect :: "int \<Rightarrow> row \<Rightarrow> cfi \<Rightarrow> row \<times> row list \<Rightarrow> (row \<times> row list) option" where
  "effect da init Remember_state (r, stack) = Some (r, r # stack)"
| "effect da init Restore_state (r, stack) = (case stack of [] \<Rightarrow> None | s # stack \<Rightarrow> Some (s, stack))"
| "effect da init i (r, stack) = (case register_rule da init i of
     Some (n, rule) \<Rightarrow> Some (r\<lparr>rules := (rules r)(n := rule)\<rparr>, stack)
   | None \<Rightarrow> map_option (\<lambda>c. (r\<lparr>cfa := c\<rparr>, stack)) (cfa_effect da (cfa r) i))"

text \<open>The row that the instructions of an entry leave as the initial one: they do not advance.\<close>

fun cfi_run :: "int \<Rightarrow> row \<Rightarrow> cfi list \<Rightarrow> row \<times> row list \<Rightarrow> (row \<times> row list) option" where
  "cfi_run da init [] s = Some s"
| "cfi_run da init (i # is) s = (if location_delta i \<noteq> None then None else Option.bind (effect da init i s) (cfi_run da init is))"

text \<open>The rows of a function, each with the offset of its first location.\<close>

fun cfi_table :: "nat \<Rightarrow> int \<Rightarrow> row \<Rightarrow> cfi list \<Rightarrow> nat \<Rightarrow> row \<times> row list \<Rightarrow> (nat \<times> row) list option" where
  "cfi_table ca da init [] loc s = Some [(loc, fst s)]"
| "cfi_table ca da init (i # is) loc s = (case location_delta i of
     Some d \<Rightarrow> map_option (Cons (loc, fst s)) (cfi_table ca da init is (loc + d * ca) s)
   | None \<Rightarrow> Option.bind (effect da init i s) (cfi_table ca da init is loc))"

text \<open>The row in effect at the instruction before the offset \<open>n\<close>, such as a call that returns there.\<close>

fun row_before :: "nat \<Rightarrow> row \<Rightarrow> (nat \<times> row) list \<Rightarrow> row" where
  "row_before n r [] = r"
| "row_before n r ((loc, s) # rows) = (if loc < n then row_before n s rows else r)"

section \<open>Bytes\<close>

fun le_bytes :: "nat \<Rightarrow> nat \<Rightarrow> u8 list" where
  "le_bytes 0 n = []"
| "le_bytes (Suc k) n = of_nat (n mod 256) # le_bytes k (n div 256)"

definition block :: "u8 list \<Rightarrow> u8 list" where
  "block b = uleb (length b) @ b"

fun encode :: "cfi \<Rightarrow> u8 list" where
  "encode Nop = [DW_CFA_nop]"
| "encode (Advance_loc d) = [DW_CFA_advance_loc OR of_nat d]"
| "encode (Advance_loc1 d) = DW_CFA_advance_loc1 # le_bytes 1 d"
| "encode (Advance_loc2 d) = DW_CFA_advance_loc2 # le_bytes 2 d"
| "encode (Advance_loc4 d) = DW_CFA_advance_loc4 # le_bytes 4 d"
| "encode (Offset r n) = (DW_CFA_offset OR of_nat r) # uleb n"
| "encode (Offset_extended r n) = DW_CFA_offset_extended # uleb r @ uleb n"
| "encode (Offset_extended_sf r z) = DW_CFA_offset_extended_sf # uleb r @ sleb z"
| "encode (Negative_offset_extended r n) = DW_CFA_GNU_negative_offset_extended # uleb r @ uleb n"
| "encode (Restore r) = [DW_CFA_restore OR of_nat r]"
| "encode (Restore_extended r) = DW_CFA_restore_extended # uleb r"
| "encode (Undefined_register r) = DW_CFA_undefined # uleb r"
| "encode (Same_value r) = DW_CFA_same_value # uleb r"
| "encode (Register r s) = DW_CFA_register # uleb r @ uleb s"
| "encode Remember_state = [DW_CFA_remember_state]"
| "encode Restore_state = [DW_CFA_restore_state]"
| "encode (Def_cfa r n) = DW_CFA_def_cfa # uleb r @ uleb n"
| "encode (Def_cfa_sf r z) = DW_CFA_def_cfa_sf # uleb r @ sleb z"
| "encode (Def_cfa_register r) = DW_CFA_def_cfa_register # uleb r"
| "encode (Def_cfa_offset n) = DW_CFA_def_cfa_offset # uleb n"
| "encode (Def_cfa_offset_sf z) = DW_CFA_def_cfa_offset_sf # sleb z"
| "encode (Def_cfa_expression b) = DW_CFA_def_cfa_expression # block b"
| "encode (Expression r b) = DW_CFA_expression # uleb r @ block b"
| "encode (Val_expression r b) = DW_CFA_val_expression # uleb r @ block b"
| "encode (Val_offset r n) = DW_CFA_val_offset # uleb r @ uleb n"
| "encode (Val_offset_sf r z) = DW_CFA_val_offset_sf # uleb r @ sleb z"
| "encode (Args_size n) = DW_CFA_GNU_args_size # uleb n"

section \<open>Well-formed instructions\<close>

text \<open>The operands that the format and the code have room for. The register of a frame address is not 0, which the code
  takes for an expression, and its offset fits into 32 bits.\<close>

abbreviation reg_ok :: "nat \<Rightarrow> bool" where
  "reg_ok r \<equiv> r \<le> 32"

abbreviation uleb_ok :: "nat \<Rightarrow> bool" where
  "uleb_ok n \<equiv> n < 2 ^ 64"

abbreviation sleb_ok :: "int \<Rightarrow> bool" where
  "sleb_ok z \<equiv> - (2 ^ 63) \<le> z \<and> z < 2 ^ 63"

abbreviation block_ok :: "u8 list \<Rightarrow> bool" where
  "block_ok b \<equiv> length b < 2 ^ 64 - 1"

fun cfi_ok :: "nat \<Rightarrow> cfi \<Rightarrow> bool" where
  "cfi_ok ca Nop = True"
| "cfi_ok ca (Advance_loc d) = (d < 64 \<and> d * ca < 2 ^ 32)"
| "cfi_ok ca (Advance_loc1 d) = (d < 2 ^ 8 \<and> d * ca < 2 ^ 32)"
| "cfi_ok ca (Advance_loc2 d) = (d < 2 ^ 16 \<and> d * ca < 2 ^ 32)"
| "cfi_ok ca (Advance_loc4 d) = (d < 2 ^ 32 \<and> d * ca < 2 ^ 32)"
| "cfi_ok ca (Offset r n) = (reg_ok r \<and> uleb_ok n)"
| "cfi_ok ca (Offset_extended r n) = (reg_ok r \<and> uleb_ok n)"
| "cfi_ok ca (Offset_extended_sf r z) = (reg_ok r \<and> sleb_ok z)"
| "cfi_ok ca (Negative_offset_extended r n) = (reg_ok r \<and> uleb_ok n)"
| "cfi_ok ca (Restore r) = reg_ok r"
| "cfi_ok ca (Restore_extended r) = reg_ok r"
| "cfi_ok ca (Undefined_register r) = reg_ok r"
| "cfi_ok ca (Same_value r) = reg_ok r"
| "cfi_ok ca (Register r s) = (reg_ok r \<and> reg_ok s)"
| "cfi_ok ca Remember_state = True"
| "cfi_ok ca Restore_state = True"
| "cfi_ok ca (Def_cfa r n) = (reg_ok r \<and> r \<noteq> 0 \<and> uleb_ok n)"
| "cfi_ok ca (Def_cfa_sf r z) = (reg_ok r \<and> r \<noteq> 0 \<and> sleb_ok z)"
| "cfi_ok ca (Def_cfa_register r) = (reg_ok r \<and> r \<noteq> 0)"
| "cfi_ok ca (Def_cfa_offset n) = uleb_ok n"
| "cfi_ok ca (Def_cfa_offset_sf z) = sleb_ok z"
| "cfi_ok ca (Def_cfa_expression b) = block_ok b"
| "cfi_ok ca (Expression r b) = (reg_ok r \<and> block_ok b)"
| "cfi_ok ca (Val_expression r b) = (reg_ok r \<and> block_ok b)"
| "cfi_ok ca (Val_offset r n) = (reg_ok r \<and> uleb_ok n)"
| "cfi_ok ca (Val_offset_sf r z) = (reg_ok r \<and> sleb_ok z)"
| "cfi_ok ca (Args_size n) = uleb_ok n"

text \<open>The registers whose rule an instruction changes, and the one it restores.\<close>

definition touched :: "cfi list \<Rightarrow> nat set" where
  "touched is = set (map fst (List.map_filter (register_rule 0 no_row) is))"

fun restored :: "cfi \<Rightarrow> nat option" where
  "restored (Restore r) = Some r"
| "restored (Restore_extended r) = Some r"
| "restored i = None"

section \<open>What the code records\<close>

definition block_at :: "memory \<Rightarrow> u64 \<Rightarrow> u8 list \<Rightarrow> bool" where
  "block_at mem a b \<longleftrightarrow> holds mem a (block b) \<and> block_ok b \<and> unat a + length (block b) < 2 ^ 64"

definition location_shown :: "memory \<Rightarrow> register_location \<Rightarrow> reg_rule \<Rightarrow> bool" where
  "location_shown mem l rule = (case rule of
     Unspecified \<Rightarrow> location l = kRegisterUnused
   | Undefined_value \<Rightarrow> location l = kRegisterUndefined
   | At_offset z \<Rightarrow> location l = kRegisterInCFA \<and> location_value l = of_int z
   | Is_offset z \<Rightarrow> location l = kRegisterOffsetFromCFA \<and> location_value l = of_int z
   | In_register r \<Rightarrow> location l = kRegisterInRegister \<and> location_value l = of_nat r \<and> reg_ok r
   | At_expression b \<Rightarrow> location l = kRegisterAtExpression \<and> block_at mem (location_value l) b
   | Is_expression b \<Rightarrow> location l = kRegisterIsExpression \<and> block_at mem (location_value l) b)"

definition cfa_shown :: "memory \<Rightarrow> prolog_info \<Rightarrow> cfa_rule option \<Rightarrow> bool" where
  "cfa_shown mem info c = (case c of
     None \<Rightarrow> cfaRegister info = 0 \<and> cfaExpression info = 0
   | Some (Cfa_register r z) \<Rightarrow> reg_ok r \<and> r \<noteq> 0 \<and> cfaRegister info = of_nat r \<and> cfaRegisterOffset info = of_int z
   | Some (Cfa_expression b) \<Rightarrow> cfaRegister info = 0 \<and> cfaExpression info \<noteq> 0 \<and> block_at mem (cfaExpression info) b)"

definition row_shown :: "memory \<Rightarrow> prolog_info \<Rightarrow> row \<Rightarrow> bool" where
  "row_shown mem info r \<longleftrightarrow> cfa_shown mem info (cfa r) \<and>
     (\<forall>n. reg_ok n \<longrightarrow> location_shown mem (savedRegisters info (of_nat n)) (rules r n))"

end
