(* ===== verification/CfiProperties.thy ===== *)
theory CfiProperties
  imports CfiSpec
begin

unbundle bit_operations_syntax

text \<open>
  Running call frame instructions computes the rows of the standard: the code's one pass over the bytes, with its lazily
  saved initial state, against the table that \<open>CfiSpec\<close> builds from the instructions.
\<close>

section \<open>Reading bytes\<close>

lemma holds_append [simp]: "holds mem p (xs @ ys) = (holds mem p xs \<and> holds mem (p + of_nat (length xs)) ys)"
  by (induction xs arbitrary: p) (auto simp: add.assoc)

lemma room_split: "room p (m + n) pend \<Longrightarrow> room p m pend \<and> room (p + of_nat m) n pend"
proof -
  assume r: "room p (m + n) pend"
  then have "unat p + m < 18446744073709551616" using unat_64_bound [of pend] unfolding room_def by linarith
  then have "unat (p + of_nat m) = unat p + m" by (simp add: unat_word_ariths unat_of_nat)
  then show ?thesis using r by (auto simp: room_def)
qed

lemma room_less: "room p n pend \<Longrightarrow> 0 < n \<Longrightarrow> p < pend"
  by (simp add: room_def word_less_nat_alt)

lemma read_uleb:
  assumes "holds mem p (uleb n @ rest)" "uleb_ok n" "room p (length (uleb n) + k) pend"
  shows "getULEB128 mem p pend = eh_return (of_nat n, p + of_nat (length (uleb n)))"
  using getULEB128_uleb [of mem p n pend] assms room_split [OF assms(3)] by simp

lemma read_sleb:
  assumes "holds mem p (sleb z @ rest)" "sleb_ok z" "room p (length (sleb z) + k) pend"
  shows "getSLEB128 mem p pend = eh_return (of_int z, p + of_nat (length (sleb z)))"
  using getSLEB128_sleb [of mem p z pend] assms room_split [OF assms(3)] by simp

lemma ucast_of_nat_small: "n < 2 ^ LENGTH('a::len) \<Longrightarrow> ucast (of_nat n :: 'a word) = (of_nat n :: 'b::len word)"
  by (simp add: unsigned_of_nat take_bit_nat_eq_self)

lemma read_bytes_le: "n < 256 ^ k \<Longrightarrow> holds mem p (le_bytes k n) \<Longrightarrow> read_bytes mem k p = of_nat n"
proof (induction k arbitrary: n p)
  case (Suc k)
  have "n div 256 < 256 ^ k" using Suc.prems(1) by (simp add: div_less_iff_less_mult mult.commute)
  then have "read_bytes mem k (p + 1) = of_nat (n div 256)" using Suc by simp
  moreover have "ucast (mem p) = (of_nat (n mod 256) :: u64)" using Suc.prems(2) by (simp add: ucast_of_nat_small)
  ultimately have "read_bytes mem (Suc k) p = of_nat (n mod 256) OR push_bit 8 (of_nat (n div 256))" by simp
  also have "\<dots> = of_nat (n mod 256) + push_bit 8 (of_nat (n div 256))" by (rule or_disjoint) simp
  also have "\<dots> = of_nat (n mod 256 + n div 256 * 256)" by (simp only: push_bit_eq_mult of_nat_add of_nat_mult) simp
  finally show ?case by (simp only: mod_div_mult_eq)
qed simp

lemma le_bytes_length [simp]: "length (le_bytes k n) = k"
  by (induction k arbitrary: n) simp_all

lemma read_le:
  "holds mem p (le_bytes 1 d) \<Longrightarrow> d < 2 ^ 8 \<Longrightarrow> ucast (get8 mem p) = (of_nat d :: u32)"
  "holds mem p (le_bytes 2 d) \<Longrightarrow> d < 2 ^ 16 \<Longrightarrow> ucast (get16 mem p) = (of_nat d :: u32)"
  "holds mem p (le_bytes 4 d) \<Longrightarrow> d < 2 ^ 32 \<Longrightarrow> get32 mem p = of_nat d"
  using read_bytes_le [of d 2 mem p] read_bytes_le [of d 4 mem p]
  by (simp_all add: get8_def get16_def get32_def unsigned_of_nat take_bit_nat_eq_self)

section \<open>Saved registers\<close>

lemma reg_word: "reg_ok m \<Longrightarrow> reg_ok n \<Longrightarrow> (of_nat m :: u64) = of_nat n \<longleftrightarrow> m = n"
  proof -
  assume "reg_ok m" "reg_ok n"
  then have "unat (of_nat m :: u64) = m" "unat (of_nat n :: u64) = n" by (simp_all add: unat_of_nat)
  then show ?thesis by metis
qed

text \<open>What the saved initial state adds to a register: unless \<open>C\<close> excludes it, its initial rule; and only
  the registers of \<open>T\<close> have it saved.\<close>

definition initial_ok :: "memory \<Rightarrow> nat set \<Rightarrow> nat set \<Rightarrow> row \<Rightarrow> saved_registers \<Rightarrow> saved_registers \<Rightarrow> bool" where
  "initial_ok mem C T init ini regs \<longleftrightarrow>
     (\<forall>n. reg_ok n \<and> n \<notin> C \<longrightarrow>
       location_shown mem (if initialStateSaved (regs (of_nat n)) then ini (of_nat n) else regs (of_nat n)) (rules init n)) \<and>
     (\<forall>n. reg_ok n \<and> n \<notin> T \<longrightarrow> \<not> initialStateSaved (regs (of_nat n)))"

definition info_ok :: "memory \<Rightarrow> nat set \<Rightarrow> nat set \<Rightarrow> row \<Rightarrow> saved_registers \<Rightarrow> prolog_info \<Rightarrow> row \<Rightarrow> bool" where
  "info_ok mem C T init ini info r \<longleftrightarrow> row_shown mem info r \<and> initial_ok mem C T init ini (savedRegisters info)"

text \<open>A state of the run at an offset, with the current row and the remembered ones.\<close>

definition related :: "memory \<Rightarrow> nat set \<Rightarrow> nat set \<Rightarrow> row \<Rightarrow> cfi_state \<Rightarrow> row \<times> row list \<Rightarrow> bool" where
  "related mem C T init st s \<longleftrightarrow> info_ok mem C T init (initialState st) (results st) (fst s) \<and>
     list_all2 (info_ok mem C T init (initialState st)) (rememberStack st) (snd s)"

lemma related_fields: "related mem C T init (st\<lparr>cfi_p := p\<rparr>) s = related mem C T init st s"
  "related mem C T init (st\<lparr>codeOffset := n\<rparr>) s = related mem C T init st s"
  by (simp_all add: related_def)

lemma location_shown_cong: "location l = location l' \<Longrightarrow> location_value l = location_value l' \<Longrightarrow>
    location_shown mem l rule = location_shown mem l' rule"
  by (simp add: location_shown_def split: reg_rule.splits)

lemma initial_ok_saved:
  assumes "initial_ok mem C T init ini regs" "initial_ok mem C T init ini regs'" "\<not> initialStateSaved (regs reg)"
  shows "initial_ok mem C T init (ini(reg := regs reg)) regs'"
  unfolding initial_ok_def
proof (intro conjI allI impI)
  fix n
  assume n: "reg_ok n \<and> n \<notin> C"
  note a = assms(1) [unfolded initial_ok_def, THEN conjunct1, rule_format, OF n]
    assms(2) [unfolded initial_ok_def, THEN conjunct1, rule_format, OF n]
  show "location_shown mem (if initialStateSaved (regs' (of_nat n)) then (ini(reg := regs reg)) (of_nat n) else regs' (of_nat n)) (rules init n)"
    using a assms(3) by (cases "of_nat n = reg") auto
qed (use assms(2) in \<open>simp add: initial_ok_def\<close>)

lemma cfa_shown_saved [simp]: "cfa_shown mem (info\<lparr>savedRegisters := regs\<rparr>) c = cfa_shown mem info c"
  by (simp add: cfa_shown_def split: option.splits cfa_rule.splits)

lemma row_shown_update:
  assumes "row_shown mem info r" "reg_ok n" "location_shown mem l rule"
  shows "row_shown mem (info\<lparr>savedRegisters := (savedRegisters info)(of_nat n := l)\<rparr>) (r\<lparr>rules := (rules r)(n := rule)\<rparr>)"
proof -
  have "location_shown mem (((savedRegisters info)(of_nat n := l)) (of_nat m)) (((rules r)(n := rule)) m)" if "reg_ok m" for m
    using assms reg_word [OF that assms(2)] that by (cases "m = n") (simp_all add: row_shown_def)
  then show ?thesis using assms(1) by (simp add: row_shown_def)
qed

lemma related_check:
  assumes "related mem C T init st s" "\<And>n. reg_ok n \<Longrightarrow> of_nat n = reg \<Longrightarrow> n \<in> T"
  shows "related mem C T init (checkSaveRegister reg st) s"
proof (cases "initialStateSaved (savedRegisters (results st) reg)")
  case False
  define ini where "ini = (initialState st)(reg := savedRegisters (results st) reg)"
  define regs where "regs = savedRegisters (results st)"
  define regs' where "regs' = regs(reg := (regs reg)\<lparr>initialStateSaved := True\<rparr>)"
  have i: "initial_ok mem C T init ini regs'" if "initial_ok mem C T init (initialState st) regs"
    unfolding initial_ok_def
  proof (intro conjI allI impI)
    fix n
    assume "reg_ok n \<and> n \<notin> C"
    from that [unfolded initial_ok_def, THEN conjunct1, rule_format, OF this]
    show "location_shown mem (if initialStateSaved (regs' (of_nat n)) then ini (of_nat n) else regs' (of_nat n)) (rules init n)"
      using False unfolding ini_def regs'_def regs_def by (cases "of_nat n = reg") auto
  next
    fix n
    assume "reg_ok n \<and> n \<notin> T"
    then show "\<not> initialStateSaved (regs' (of_nat n))"
      using that assms(2) [of n] unfolding regs'_def initial_ok_def by (cases "of_nat n = reg") auto
  qed
  have "initial_ok mem C T init ini (savedRegisters info)"
    if "initial_ok mem C T init (initialState st) (savedRegisters info)" for info
    using initial_ok_saved [where regs = "savedRegisters (results st)", OF _ that False] assms by (simp add: ini_def related_def info_ok_def)
  then have stack: "list_all2 (info_ok mem C T init ini) (rememberStack st) (snd s)"
    using assms unfolding related_def by (auto simp: info_ok_def elim!: list_all2_mono)
  have same: "location_shown mem (regs' n) rule = location_shown mem (regs n) rule" for n rule
    by (rule location_shown_cong) (simp_all add: regs'_def)
  have "row_shown mem ((results st)\<lparr>savedRegisters := regs'\<rparr>) (fst s)"
    using assms by (simp add: related_def info_ok_def row_shown_def same flip: regs_def)
  moreover have "ini = (initialState st)(reg := regs reg)" by (simp add: ini_def regs_def)
  ultimately show ?thesis using False assms i stack
    by (simp add: checkSaveRegister_def Let_def related_def info_ok_def flip: regs_def regs'_def)
qed (use assms in \<open>simp add: checkSaveRegister_def Let_def\<close>)

lemma check_facts: "initialStateSaved (savedRegisters (results (checkSaveRegister reg st)) reg)"
  "codeOffset (checkSaveRegister reg st) = codeOffset st" "cfi_p (checkSaveRegister reg st) = cfi_p st"
  by (simp_all add: checkSaveRegister_def Let_def)

lemma related_set:
  assumes "related mem C T init st s" "reg_ok n" "initialStateSaved (savedRegisters (results st) (of_nat n))"
    "initialStateSaved l" "location_shown mem l rule"
  shows "related mem C T init (st\<lparr>results := (results st)\<lparr>savedRegisters := (savedRegisters (results st))(of_nat n := l)\<rparr>\<rparr>)
    ((fst s)\<lparr>rules := (rules (fst s))(n := rule)\<rparr>, snd s)"
proof -
  have r: "row_shown mem (results st) (fst s)" "initial_ok mem C T init (initialState st) (savedRegisters (results st))"
    using assms(1) by (simp_all add: related_def info_ok_def)
  note row_shown_update [OF r(1) assms(2,5)]
  moreover have "initial_ok mem C T init (initialState st) ((savedRegisters (results st))(of_nat n := l))"
    unfolding initial_ok_def
  proof (intro conjI allI impI)
    fix m
    assume m: "reg_ok m \<and> m \<notin> C"
    show "location_shown mem (if initialStateSaved (((savedRegisters (results st))(of_nat n := l)) (of_nat m))
        then initialState st (of_nat m) else ((savedRegisters (results st))(of_nat n := l)) (of_nat m)) (rules init m)"
      using r(2) [unfolded initial_ok_def, THEN conjunct1, rule_format, OF m] assms(3,4)
      by (cases "of_nat m = (of_nat n :: u64)") auto
  next
    fix m
    assume "reg_ok m \<and> m \<notin> T"
    then show "\<not> initialStateSaved (((savedRegisters (results st))(of_nat n := l)) (of_nat m))"
      using r(2) assms(3) unfolding initial_ok_def by (cases "of_nat m = (of_nat n :: u64)") auto
  qed
  ultimately show ?thesis using assms(1) by (simp add: related_def info_ok_def)
qed

lemma related_check_register:
  "related mem C T init st s \<Longrightarrow> reg_ok n \<Longrightarrow> n \<in> T \<Longrightarrow> related mem C T init (checkSaveRegister (of_nat n) st) s"
  by (rule related_check) (simp_all add: reg_word)

lemma related_setRegister:
  assumes "related mem C T init st s" "reg_ok n" "n \<in> T"
    "location_shown mem \<lparr>location = loc, initialStateSaved = True, location_value = v\<rparr> rule"
  shows "related mem C T init (setRegister (of_nat n) loc v st) ((fst s)\<lparr>rules := (rules (fst s))(n := rule)\<rparr>, snd s)"
  unfolding setRegister_def Let_def
  by (rule related_set [OF related_check_register [OF assms(1-3)] assms(2) check_facts(1)])
    (use check_facts(1) in simp, rule location_shown_cong [THEN iffD1, OF _ _ assms(4)], simp_all)

lemma related_setRegisterLocation:
  assumes "related mem C T init st s" "reg_ok n" "n \<in> T" "rule = Undefined_value \<and> loc = kRegisterUndefined \<or> rule = Unspecified \<and> loc = kRegisterUnused"
  shows "related mem C T init (setRegisterLocation (of_nat n) loc st) ((fst s)\<lparr>rules := (rules (fst s))(n := rule)\<rparr>, snd s)"
  unfolding setRegisterLocation_def Let_def
  by (rule related_set [OF related_check_register [OF assms(1-3)] assms(2) check_facts(1)])
    (use assms(4) check_facts(1) in \<open>auto simp: location_shown_def\<close>)

lemma related_restore:
  assumes "related mem C T init st s" "reg_ok n" "n \<in> T" "n \<notin> C"
  shows "related mem C T init (restoreRegisterToInitialState (of_nat n) st)
    ((fst s)\<lparr>rules := (rules (fst s))(n := rules init n)\<rparr>, snd s)"
proof (cases "initialStateSaved (savedRegisters (results st) (of_nat n))")
  case True
  define regs where "regs = (savedRegisters (results st))(of_nat n := initialState st (of_nat n))"
  have i: "initial_ok mem C T init (initialState st) (savedRegisters (results st))"
    using assms(1) by (simp add: related_def info_ok_def)
  from i [unfolded initial_ok_def, THEN conjunct1, rule_format, of n] have shown: "location_shown mem (initialState st (of_nat n)) (rules init n)"
    using assms(2,4) True by simp
  have "initial_ok mem C T init (initialState st) regs"
    unfolding initial_ok_def
  proof (intro conjI allI impI)
    fix m
    assume m: "reg_ok m \<and> m \<notin> C"
    show "location_shown mem (if initialStateSaved (regs (of_nat m)) then initialState st (of_nat m) else regs (of_nat m)) (rules init m)"
      using i [unfolded initial_ok_def, THEN conjunct1, rule_format, OF m] shown reg_word [of m n] m assms(2)
      by (cases "m = n") (auto simp: regs_def)
  next
    fix m
    assume "reg_ok m \<and> m \<notin> T"
    then show "\<not> initialStateSaved (regs (of_nat m))"
      using i reg_word [of m n] assms(2,3) unfolding initial_ok_def regs_def by (cases "m = n") auto
  qed
  moreover have "row_shown mem ((results st)\<lparr>savedRegisters := regs\<rparr>) ((fst s)\<lparr>rules := (rules (fst s))(n := rules init n)\<rparr>)"
    unfolding regs_def by (rule row_shown_update) (use assms(1,2) shown in \<open>simp_all add: related_def info_ok_def\<close>)
  ultimately show ?thesis using True assms(1)
    by (simp add: restoreRegisterToInitialState_def Let_def related_def info_ok_def flip: regs_def)
next
  case False
  then have "location_shown mem (savedRegisters (results st) (of_nat n)) (rules init n)"
    using assms unfolding related_def info_ok_def initial_ok_def by auto
  then have "row_shown mem (results st) ((fst s)\<lparr>rules := (rules (fst s))(n := rules init n)\<rparr>)"
    using assms(1) by (auto simp: related_def info_ok_def row_shown_def)
  then show ?thesis using False assms(1) by (simp add: restoreRegisterToInitialState_def Let_def related_def info_ok_def)
qed

section \<open>One instruction\<close>

lemma state_fields [simp]:
  "cfi_p (setRegister reg loc v st) = cfi_p st" "codeOffset (setRegister reg loc v st) = codeOffset st"
  "cfi_p (setRegisterLocation reg loc st) = cfi_p st" "codeOffset (setRegisterLocation reg loc st) = codeOffset st"
  "cfi_p (restoreRegisterToInitialState reg st) = cfi_p st"
  "codeOffset (restoreRegisterToInitialState reg st) = codeOffset st"
  by (simp_all add: setRegister_def setRegisterLocation_def restoreRegisterToInitialState_def Let_def check_facts)

lemma read_register:
  assumes "holds mem p (uleb r @ rest)" "reg_ok r" "room p (length (uleb r) + length rest) iend"
  shows "getULEB128 mem p iend = eh_return (of_nat r, p + of_nat (length (uleb r))) \<and> \<not> kMaxRegisterNumber < of_nat r \<and>
    holds mem (p + of_nat (length (uleb r))) rest \<and> room (p + of_nat (length (uleb r))) (length rest) iend"
proof -
  have "\<not> kMaxRegisterNumber < (of_nat r :: u64)"
    using assms(2) by (simp add: kMaxRegisterNumber_def word_less_nat_alt unat_of_nat)
  then show ?thesis using read_uleb [OF assms(1) _ assms(3)] room_split [OF assms(3)] assms(1,2) by simp
qed

lemma read_last:
  "holds mem p (uleb n) \<Longrightarrow> uleb_ok n \<Longrightarrow> room p (length (uleb n)) iend \<Longrightarrow>
    getULEB128 mem p iend = eh_return (of_nat n, p + of_nat (length (uleb n)))"
  "holds mem p (sleb z) \<Longrightarrow> sleb_ok z \<Longrightarrow> room p (length (sleb z)) iend \<Longrightarrow>
    getSLEB128 mem p iend = eh_return (of_int z, p + of_nat (length (sleb z)))"
  by (rule getULEB128_uleb, simp_all) (rule getSLEB128_sleb, simp_all)

lemma room_block: "holds mem p (block b) \<Longrightarrow> block_ok b \<Longrightarrow> room p (length (block b)) iend \<Longrightarrow> block_at mem p b"
proof -
  assume "holds mem p (block b)" "block_ok b" "room p (length (block b)) iend"
  moreover from this(3) have "unat p + length (block b) < 18446744073709551616"
    using unat_64_bound [of iend] unfolding room_def by linarith
  ultimately show ?thesis by (simp add: block_at_def)
qed

lemma skip_block:
  assumes "holds mem (cfi_p st) (block b)" "block_ok b" "room (cfi_p st) (length (block b)) iend"
  shows "skip_expression mem iend st = go_on (st\<lparr>cfi_p := cfi_p st + of_nat (length (block b))\<rparr>)"
proof -
  have "(of_nat (length b) :: u64) \<noteq> - 1"
  proof
    assume "(of_nat (length b) :: u64) = - 1"
    moreover have "(- 1 :: u64) = 18446744073709551615" by simp
    ultimately have "unat (of_nat (length b) :: u64) = unat (18446744073709551615 :: u64)" by (simp only:)
    then show False using assms(2) by (simp add: unat_of_nat)
  qed
  then show ?thesis
    using read_uleb [of mem "cfi_p st" "length b" b "length b" iend] assms by (simp add: skip_expression_def block_def add.assoc)
qed

lemma small_factor: "- (2 ^ 31) \<le> da \<Longrightarrow> da < 2 ^ 31 \<Longrightarrow> scast (of_int da :: u32) = (of_int da :: u64)"
  by (simp add: signed_of_int signed_take_bit_int_eq_self)

lemma primary_opcode:
  assumes "opcode AND 0xC0 \<noteq> 0"
  shows "cfi_instruction mem cie iend can_allocate opcode st =
    (let operand = opcode AND 0x3F; reg = ucast operand in
     if opcode AND 0xC0 = DW_CFA_offset
     then (if kMaxRegisterNumber < reg then eh_return None
       else eh_bind (getULEB128 mem (cfi_p st) iend)
         (\<lambda>(v, p). go_on (setRegister reg kRegisterInCFA (factored cie v) (st\<lparr>cfi_p := p\<rparr>))))
     else if opcode AND 0xC0 = DW_CFA_advance_loc then go_on (advance cie (ucast operand) st)
     else if opcode AND 0xC0 = DW_CFA_restore
     then (if kMaxRegisterNumber < reg then eh_return None else go_on (restoreRegisterToInitialState reg st))
     else eh_return None)"
proof -
  have "opcode \<noteq> n" if "n AND 0xC0 = 0" for n using that assms by auto
  note ne = this [of "0x00"] this [of "0x01"] this [of "0x02"] this [of "0x03"] this [of "0x04"] this [of "0x05"] this [of "0x06"]
    this [of "0x07"] this [of "0x08"] this [of "0x09"] this [of "0x0A"] this [of "0x0B"] this [of "0x0C"] this [of "0x0D"]
    this [of "0x0E"] this [of "0x0F"] this [of "0x10"] this [of "0x11"] this [of "0x12"] this [of "0x13"] this [of "0x14"]
    this [of "0x15"] this [of "0x16"] this [of "0x2E"] this [of "0x2F"]
  then show ?thesis by (simp add: cfi_instruction_def Let_def)
qed

lemma primary_operand:
  assumes "n < 64"
  shows "(DW_CFA_offset OR of_nat n) AND 0xC0 = DW_CFA_offset" "(DW_CFA_restore OR of_nat n) AND 0xC0 = DW_CFA_restore"
    "(DW_CFA_advance_loc OR of_nat n) AND 0xC0 = DW_CFA_advance_loc"
    "(DW_CFA_offset OR of_nat n) AND 0x3F = of_nat n" "(DW_CFA_restore OR of_nat n) AND 0x3F = of_nat n"
    "(DW_CFA_advance_loc OR of_nat n) AND 0x3F = of_nat n"
proof -
  have "\<forall>n\<in>set [0..<64]. (DW_CFA_offset OR of_nat n) AND 0xC0 = DW_CFA_offset \<and>
    (DW_CFA_restore OR of_nat n) AND 0xC0 = DW_CFA_restore \<and> (DW_CFA_advance_loc OR of_nat n) AND 0xC0 = DW_CFA_advance_loc \<and>
    (DW_CFA_offset OR of_nat n) AND 0x3F = of_nat n \<and> (DW_CFA_restore OR of_nat n) AND 0x3F = of_nat n \<and>
    (DW_CFA_advance_loc OR of_nat n) AND 0x3F = of_nat n" by code_simp
  moreover have "n \<in> set [0..<64]" using assms by simp
  ultimately show "(DW_CFA_offset OR of_nat n) AND 0xC0 = DW_CFA_offset" "(DW_CFA_restore OR of_nat n) AND 0xC0 = DW_CFA_restore"
    "(DW_CFA_advance_loc OR of_nat n) AND 0xC0 = DW_CFA_advance_loc"
    "(DW_CFA_offset OR of_nat n) AND 0x3F = of_nat n" "(DW_CFA_restore OR of_nat n) AND 0x3F = of_nat n"
    "(DW_CFA_advance_loc OR of_nat n) AND 0x3F = of_nat n" by blast+
qed

text \<open>What a step from \<open>st\<close> at the instruction \<open>i\<close> does: it ends behind the instruction, related to \<open>s\<close>.\<close>

definition steps_to :: "memory \<Rightarrow> cie_info \<Rightarrow> u64 \<Rightarrow> nat set \<Rightarrow> nat set \<Rightarrow> row \<Rightarrow> cfi \<Rightarrow> u64 \<Rightarrow> cfi_state \<Rightarrow> row \<times> row list \<Rightarrow> bool" where
  "steps_to mem cie iend C T init i p st s \<longleftrightarrow>
     (\<exists>st'. cfi_instruction mem cie iend (\<lambda>stack. True) (mem p) (st\<lparr>cfi_p := p + 1\<rparr>) = go_on st' \<and>
       cfi_p st' = p + of_nat (length (encode i)) \<and> codeOffset st' = codeOffset st \<and> related mem C T init st' s)"

text \<open>An encoded instruction at \<open>p\<close> in the range of an entry with the factor \<open>da\<close>.\<close>

definition instruction_at :: "memory \<Rightarrow> cie_info \<Rightarrow> u64 \<Rightarrow> int \<Rightarrow> nat \<Rightarrow> u64 \<Rightarrow> cfi \<Rightarrow> bool" where
  "instruction_at mem cie iend da ca p i \<longleftrightarrow> holds mem p (encode i) \<and> room p (length (encode i)) iend \<and> cfi_ok ca i \<and>
     scast (dataAlignFactor cie) = (of_int da :: u64)"

lemma instruction_room: "instruction_at mem cie iend da ca p i \<Longrightarrow> room (p + 1) (length (encode i) - 1) iend"
  using room_step [of p "length (encode i) - 1" iend] by (cases i) (simp_all add: instruction_at_def)

definition set_rule :: "nat \<times> reg_rule \<Rightarrow> row \<times> row list \<Rightarrow> row \<times> row list" where
  "set_rule x s = ((fst s)\<lparr>rules := (rules (fst s))(fst x := snd x)\<rparr>, snd s)"

lemma set_rule_related:
  assumes "related mem C T init st s" "reg_ok n" "n \<in> T"
  shows "w = of_int z \<Longrightarrow> related mem C T init (setRegister (of_nat n) kRegisterInCFA w (st\<lparr>cfi_p := q\<rparr>)) (set_rule (n, At_offset z) s)"
    "w = of_int z \<Longrightarrow> related mem C T init (setRegister (of_nat n) kRegisterOffsetFromCFA w (st\<lparr>cfi_p := q\<rparr>)) (set_rule (n, Is_offset z) s)"
    "reg_ok m \<Longrightarrow> related mem C T init (setRegister (of_nat n) kRegisterInRegister (of_nat m) (st\<lparr>cfi_p := q\<rparr>)) (set_rule (n, In_register m) s)"
    "block_at mem a b \<Longrightarrow>
      related mem C T init (setRegister (of_nat n) kRegisterAtExpression a (st\<lparr>cfi_p := q\<rparr>)) (set_rule (n, At_expression b) s)"
    "block_at mem a b \<Longrightarrow>
      related mem C T init (setRegister (of_nat n) kRegisterIsExpression a (st\<lparr>cfi_p := q\<rparr>)) (set_rule (n, Is_expression b) s)"
    "related mem C T init (setRegisterLocation (of_nat n) kRegisterUndefined (st\<lparr>cfi_p := q\<rparr>)) (set_rule (n, Undefined_value) s)"
    "related mem C T init (setRegisterLocation (of_nat n) kRegisterUnused (st\<lparr>cfi_p := q\<rparr>)) (set_rule (n, Unspecified) s)"
    "n \<notin> C \<Longrightarrow> related mem C T init (restoreRegisterToInitialState (of_nat n) (st\<lparr>cfi_p := q\<rparr>)) (set_rule (n, rules init n) s)"
    "n \<notin> C \<Longrightarrow> related mem C T init (restoreRegisterToInitialState (of_nat n) (st\<lparr>cfi_p := q\<rparr>)) (set_rule (n, rules init n) s)"
  unfolding set_rule_def fst_conv snd_conv
  by ((rule related_setRegister related_setRegisterLocation related_restore, use assms in \<open>simp_all add: related_fields location_shown_def\<close>)+)

lemma row_shown_cong:
  "cfaRegister info' = cfaRegister info \<Longrightarrow> cfaRegisterOffset info' = cfaRegisterOffset info \<Longrightarrow>
    cfaExpression info' = cfaExpression info \<Longrightarrow> savedRegisters info' = savedRegisters info \<Longrightarrow>
    row_shown mem info' r = row_shown mem info r"
  by (simp add: row_shown_def cfa_shown_def split: option.splits cfa_rule.splits)

lemma related_flags:
  "related mem C T init (st\<lparr>results := (results st)\<lparr>sameValueUsed := b\<rparr>\<rparr>) s = related mem C T init st s"
  "related mem C T init (st\<lparr>results := (results st)\<lparr>registersInOtherRegisters := b\<rparr>\<rparr>) s = related mem C T init st s"
  "related mem C T init (st\<lparr>cfi_p := q, results := (results st)\<lparr>spExtraArgSize := n\<rparr>\<rparr>) s = related mem C T init st s"
  using row_shown_cong [of "(results st)\<lparr>sameValueUsed := b\<rparr>" "results st" mem "fst s"]
    row_shown_cong [of "(results st)\<lparr>registersInOtherRegisters := b\<rparr>" "results st" mem "fst s"]
    row_shown_cong [of "(results st)\<lparr>spExtraArgSize := n\<rparr>" "results st" mem "fst s"]
  by (simp_all add: related_def info_ok_def)

lemma offset_step:
  assumes "instruction_at mem cie iend da ca p i" "related mem C T init st s" "register_rule da init i = Some x"
    "fst x \<in> T" "restored i = None"
  shows "steps_to mem cie iend C T init i p st (set_rule x s)"
proof -
  note a = assms(1) [unfolded instruction_at_def] and room = instruction_room [OF assms(1)]
  note set_facts = steps_to_def Let_def related_flags set_rule_related [OF assms(2)] add.assoc add.left_commute
  note facts = cfi_instruction_def set_facts
  have T: "fst (the (register_rule da init i)) \<in> T" using assms(3,4) by simp
  have "steps_to mem cie iend C T init i p st (set_rule (the (register_rule da init i)) s)"
  proof (cases i)
    case (Offset r v)
    then show ?thesis using a T room read_last(1) [of mem "p + 1" v iend] primary_operand [of r]
      by (simp add: primary_opcode set_facts kMaxRegisterNumber_def ucast_of_nat_small word_less_nat_alt unat_of_nat)
  next
    case (Offset_extended r v)
    then show ?thesis using a T room read_register [of mem "p + 1" r "uleb v" iend]
      read_last(1) [of mem "p + 1 + of_nat (length (uleb r))" v iend] by (simp add: facts)
  next
    case (Offset_extended_sf r v)
    then show ?thesis using a T room read_register [of mem "p + 1" r "sleb v" iend]
      read_last(2) [of mem "p + 1 + of_nat (length (uleb r))" v iend] by (simp add: facts)
  next
    case (Negative_offset_extended r v)
    then show ?thesis using a T room read_register [of mem "p + 1" r "uleb v" iend]
      read_last(1) [of mem "p + 1 + of_nat (length (uleb r))" v iend] by (simp add: facts)
  next
    case (Val_offset r v)
    then show ?thesis using a T room read_register [of mem "p + 1" r "uleb v" iend]
      read_last(1) [of mem "p + 1 + of_nat (length (uleb r))" v iend] by (simp add: facts)
  next
    case (Val_offset_sf r v)
    then show ?thesis using a T room read_register [of mem "p + 1" r "sleb v" iend]
      read_last(2) [of mem "p + 1 + of_nat (length (uleb r))" v iend] by (simp add: facts)
  next
    case (Undefined_register r)
    then show ?thesis using a T room read_register [of mem "p + 1" r "[]" iend] by (simp add: facts)
  next
    case (Same_value r)
    then show ?thesis using a T room read_register [of mem "p + 1" r "[]" iend] by (simp add: facts)
  next
    case (Register r v)
    then show ?thesis using a T room read_register [of mem "p + 1" r "uleb v" iend]
      read_register [of mem "p + 1 + of_nat (length (uleb r))" v "[]" iend] by (simp add: facts)
  next
    case (Expression r b)
    then show ?thesis using a T room read_register [of mem "p + 1" r "block b" iend]
      by (simp add: facts skip_block [where b = b] related_fields room_block [where iend = iend])
  next
    case (Val_expression r b)
    then show ?thesis using a T room read_register [of mem "p + 1" r "block b" iend]
      by (simp add: facts skip_block [where b = b] related_fields room_block [where iend = iend])
  qed (use assms(3,5) in simp_all)
  then show ?thesis by (simp add: assms(3))
qed

lemma restore_step:
  assumes "instruction_at mem cie iend da ca p i" "related mem C T init st s" "register_rule da init i = Some x"
    "fst x \<in> T" "restored i = Some r" "r \<notin> C"
  shows "steps_to mem cie iend C T init i p st (set_rule x s)"
proof -
  note a = assms(1) [unfolded instruction_at_def] and room = instruction_room [OF assms(1)]
  note set_facts = steps_to_def set_rule_related [OF assms(2)] add.assoc add.left_commute
  have T: "fst (the (register_rule da init i)) \<in> T" using assms(3,4) by simp
  have "steps_to mem cie iend C T init i p st (set_rule (the (register_rule da init i)) s)"
  proof (cases i)
    case (Restore r)
    then show ?thesis using a T room assms(5,6) primary_operand [of r]
      by (simp add: primary_opcode set_facts kMaxRegisterNumber_def ucast_of_nat_small word_less_nat_alt unat_of_nat)
  next
    case (Restore_extended r)
    then show ?thesis using a T room assms(5,6) read_register [of mem "p + 1" r "[]" iend]
      by (simp add: cfi_instruction_def set_facts)
  qed (use assms(5) in simp_all)
  then show ?thesis by (simp add: assms(3))
qed

text \<open>The instructions that define the frame address.\<close>

lemma room_nonzero: "room p (Suc n) pend \<Longrightarrow> p + 1 \<noteq> 0"
proof
  assume r: "room p (Suc n) pend" "p + 1 = 0"
  then have "unat p + 1 < 18446744073709551616" using unat_64_bound [of pend] unfolding room_def by linarith
  then have "unat (p + 1) = unat p + 1" by (simp add: unat_word_ariths)
  then show False using r(2) by simp
qed

lemma related_cfa:
  assumes "related mem C T init st s" "cfa_shown mem info c" "savedRegisters info = savedRegisters (results st)"
  shows "related mem C T init (st\<lparr>cfi_p := q, results := info\<rparr>) ((fst s)\<lparr>cfa := c\<rparr>, snd s)"
    "related mem C T init (st\<lparr>results := info, cfi_p := q\<rparr>) ((fst s)\<lparr>cfa := c\<rparr>, snd s)"
  using assms by (simp_all add: related_def info_ok_def row_shown_def)

lemma narrow_int: "ucast (of_int z * of_int d :: u64) = (of_int z * of_int d :: u32)"
proof -
  have "ucast (of_int k :: u64) = (of_int k :: u32)" for k
    by (simp add: unsigned_of_int word_of_int_eq_iff)
  from this [of "z * d"] show ?thesis by simp
qed

lemma cfa_step:
  assumes "instruction_at mem cie iend da ca p i" "related mem C T init st s" "register_rule da init i = None"
    "i \<noteq> Remember_state" "i \<noteq> Restore_state" "location_delta i = None" "cfa_effect da (cfa (fst s)) i = Some c"
  shows "steps_to mem cie iend C T init i p st ((fst s)\<lparr>cfa := c\<rparr>, snd s)"
proof -
  note a = assms(1) [unfolded instruction_at_def] and room = instruction_room [OF assms(1)]
  have shown: "cfa_shown mem (results st) (cfa (fst s))" using assms(2) by (simp add: related_def info_ok_def row_shown_def)
  note facts = steps_to_def cfi_instruction_def related_cfa [OF assms(2)] add.assoc add.left_commute ucast_of_nat_small cfa_shown_def narrow_int
  have same: "((fst s)\<lparr>cfa := c\<rparr>, snd s) = s" if "c = cfa (fst s)" using that by (cases s, cases "fst s") simp
  show ?thesis
  proof (cases i)
    case Nop
    then show ?thesis using a assms(2) assms(7) [symmetric] same by (simp add: steps_to_def cfi_instruction_def related_fields)
  next
    case (Args_size n)
    then show ?thesis using a room assms(2) assms(7) [symmetric] same read_last(1) [of mem "p + 1" n iend]
      by (simp add: steps_to_def cfi_instruction_def related_flags add.assoc add.left_commute)
  next
    case (Def_cfa r n)
    then show ?thesis using a room assms(7) [symmetric] read_register [of mem "p + 1" r "uleb n" iend]
      read_last(1) [of mem "p + 1 + of_nat (length (uleb r))" n iend] by (simp add: facts)
  next
    case (Def_cfa_sf r z)
    then show ?thesis using a room assms(7) [symmetric] read_register [of mem "p + 1" r "sleb z" iend]
      read_last(2) [of mem "p + 1 + of_nat (length (uleb r))" z iend] by (simp add: facts)
  next
    case (Def_cfa_register r)
    then show ?thesis using a room assms(7) [symmetric] shown read_register [of mem "p + 1" r "[]" iend]
      by (auto simp: facts split: option.splits cfa_rule.splits)
  next
    case (Def_cfa_offset n)
    then show ?thesis using a room assms(7) [symmetric] shown read_last(1) [of mem "p + 1" n iend]
      by (auto simp: facts split: option.splits cfa_rule.splits)
  next
    case (Def_cfa_offset_sf z)
    then show ?thesis using a room assms(7) [symmetric] shown read_last(2) [of mem "p + 1" z iend]
      by (auto simp: facts split: option.splits cfa_rule.splits)
  next
    case (Def_cfa_expression b)
    then show ?thesis using a room assms(7) [symmetric] room_nonzero [of p "length (block b)" iend]
      by (simp add: facts skip_block [where b = b] room_block [where iend = iend])
  qed (use assms(3-6) in simp_all)
qed

lemma instruction_step:
  assumes "instruction_at mem cie iend da ca p i" "related mem C T init st s" "location_delta i = None"
    "\<And>r. restored i = Some r \<Longrightarrow> r \<notin> C" "\<And>x. register_rule da init i = Some x \<Longrightarrow> fst x \<in> T"
    "effect da init i s = Some s'"
  shows "steps_to mem cie iend C T init i p st s'"
proof (cases "i = Remember_state \<or> i = Restore_state")
  case True
  then show ?thesis using assms(1,2,6)
    by (auto simp: steps_to_def instruction_at_def cfi_instruction_def related_def list_all2_Cons2
        split: list.splits elim!: effect.elims)
next
  case False
  then have e: "effect da init i s = (case register_rule da init i of Some x \<Rightarrow> Some (set_rule x s)
      | None \<Rightarrow> map_option (\<lambda>c. ((fst s)\<lparr>cfa := c\<rparr>, snd s)) (cfa_effect da (cfa (fst s)) i))"
    by (cases i; cases s) (simp_all add: set_rule_def)
  show ?thesis
  proof (cases "register_rule da init i")
    case None
    then show ?thesis using assms False e cfa_step [OF assms(1,2) None] by auto
  next
    case (Some x)
    then show ?thesis using assms e offset_step [OF assms(1,2) Some] restore_step [OF assms(1,2) Some]
      by (cases "restored i") auto
  qed
qed

lemma advance_step:
  assumes "instruction_at mem cie iend da ca p i" "location_delta i = Some d" "codeAlignFactor cie = of_nat ca"
  shows "cfi_instruction mem cie iend (\<lambda>stack. True) (mem p) (st\<lparr>cfi_p := p + 1\<rparr>) =
    go_on (st\<lparr>cfi_p := p + of_nat (length (encode i)), codeOffset := codeOffset st + of_nat (d * ca)\<rparr>)"
proof -
  note a = assms(1) [unfolded instruction_at_def]
  have "d * ca < 2 ^ 32" using a assms(2) by (cases i) simp_all
  then have m: "ucast (of_nat d * of_nat ca :: u32) = (of_nat (d * ca) :: u64)"
    using ucast_of_nat_small [of "d * ca", where 'a = 32 and 'b = 64] by simp
  show ?thesis
  proof (cases i)
    case (Advance_loc e)
    then show ?thesis using a assms(2,3) m primary_operand [of e]
      by (simp add: primary_opcode ucast_of_nat_small)
  next
    case (Advance_loc1 e)
    then show ?thesis using a assms(2,3) m read_le(1) [of mem "p + 1" e] by (simp add: cfi_instruction_def)
  next
    case (Advance_loc2 e)
    then show ?thesis using a assms(2,3) m read_le(2) [of mem "p + 1" e] by (simp add: cfi_instruction_def)
  next
    case (Advance_loc4 e)
    then show ?thesis using a assms(2,3) m read_le(3) [of mem "p + 1" e] by (simp add: cfi_instruction_def)
  qed (use assms(2) in simp_all)
qed

section \<open>Programs\<close>

fun program_at :: "memory \<Rightarrow> cie_info \<Rightarrow> u64 \<Rightarrow> int \<Rightarrow> nat \<Rightarrow> u64 \<Rightarrow> cfi list \<Rightarrow> bool" where
  "program_at mem cie iend da ca p [] = (p = iend)"
| "program_at mem cie iend da ca p (i # is) =
     (instruction_at mem cie iend da ca p i \<and> program_at mem cie iend da ca (p + of_nat (length (encode i))) is)"

text \<open>The registers that the instructions may change and restore.\<close>

definition confined :: "nat set \<Rightarrow> nat set \<Rightarrow> cfi list \<Rightarrow> bool" where
  "confined C T is \<longleftrightarrow> (\<forall>i\<in>set is. (\<forall>r. restored i = Some r \<longrightarrow> r \<notin> C) \<and> (\<forall>da init x. register_rule da init i = Some x \<longrightarrow> fst x \<in> T))"

lemma confined_head:
  assumes "confined C T (i # is)"
  shows "restored i = Some r \<Longrightarrow> r \<notin> C" "register_rule da init i = Some x \<Longrightarrow> fst x \<in> T"
proof -
  have "(\<forall>r. restored i = Some r \<longrightarrow> r \<notin> C) \<and> (\<forall>da init x. register_rule da init i = Some x \<longrightarrow> fst x \<in> T)"
    using assms unfolding confined_def by (rule bspec) simp
  then show "restored i = Some r \<Longrightarrow> r \<notin> C" "register_rule da init i = Some x \<Longrightarrow> fst x \<in> T" by blast+
qed

lemma confined_Cons: "confined C T (i # is) \<Longrightarrow> confined C T is"
  by (simp add: confined_def)

lemma instruction_nonempty: "instruction_at mem cie iend da ca p i \<Longrightarrow> p < iend"
  by (rule room_less [of p "length (encode i)"]) (cases i; simp add: instruction_at_def)+

lemma parse_run:
  assumes "cfi_run da init is s = Some s'" "program_at mem cie iend da ca (cfi_p st) is" "related mem C T init st s"
    "codeOffset st < pcoffset" "confined C T is"
  shows "\<exists>st'. parse_loop mem cie iend pcoffset (\<lambda>stack. True) st = go_on st' \<and> related mem C T init st' s'"
  using assms
proof (induction "is" arbitrary: st s)
  case Nil
  then show ?case by (subst parse_loop.simps) simp
next
  case (Cons i "is")
  from Cons.prems(1) obtain t where t: "location_delta i = None" "effect da init i s = Some t" "cfi_run da init is t = Some s'"
    by (auto simp: bind_eq_Some_conv split: if_splits)
  have at: "instruction_at mem cie iend da ca (cfi_p st) i" using Cons.prems(2) by simp
  have "steps_to mem cie iend C T init i (cfi_p st) st t"
    by (rule instruction_step [OF at Cons.prems(3) t(1) confined_head [OF Cons.prems(5)] t(2)])
  then obtain st' where st': "cfi_instruction mem cie iend (\<lambda>stack. True) (mem (cfi_p st)) (st\<lparr>cfi_p := cfi_p st + 1\<rparr>) = go_on st'"
    "cfi_p st' = cfi_p st + of_nat (length (encode i))" "codeOffset st' = codeOffset st" "related mem C T init st' t"
    unfolding steps_to_def by blast
  have "parse_loop mem cie iend pcoffset (\<lambda>stack. True) st = parse_loop mem cie iend pcoffset (\<lambda>stack. True) st'"
    using st'(1) instruction_nonempty [OF at] Cons.prems(4) by (subst parse_loop.simps) (simp add: get8_def)
  moreover have "program_at mem cie iend da ca (cfi_p st') is" using Cons.prems(2) st'(2) by simp
  ultimately show ?case
    using Cons.IH [OF t(3) _ st'(4)] st'(3) Cons.prems(4) confined_Cons [OF Cons.prems(5)] by simp
qed

fun span :: "nat \<Rightarrow> cfi list \<Rightarrow> nat" where
  "span ca [] = 0"
| "span ca (i # is) = (case location_delta i of Some d \<Rightarrow> d * ca | None \<Rightarrow> 0) + span ca is"

lemma cfi_table_head: "cfi_table ca da init is loc s = Some rows \<Longrightarrow> \<exists>r rest. rows = (loc, r) # rest"
  by (induction "is" arbitrary: loc s rows) (auto split: option.splits bind_splits)

lemma parse_table:
  assumes "cfi_table ca da init is loc s = Some rows" "program_at mem cie iend da ca (cfi_p st) is"
    "related mem C T init st s" "codeOffset st = of_nat loc" "loc + span ca is < 2 ^ 64" "confined C T is"
    "codeAlignFactor cie = of_nat ca"
  shows "\<exists>st'. parse_loop mem cie iend pcoffset (\<lambda>stack. True) st = go_on st' \<and>
    row_shown mem (results st') (row_before (unat pcoffset) (fst s) rows)"
  using assms
proof (induction "is" arbitrary: loc s rows st)
  case Nil
  then have "rows = [(loc, fst s)]" by simp
  then show ?case using Nil.prems(2,3) by (subst parse_loop.simps) (simp add: related_def info_ok_def)
next
  case (Cons i "is")
  have at: "instruction_at mem cie iend da ca (cfi_p st) i" using Cons.prems(2) by simp
  obtain r rest where head: "rows = (loc, r) # rest" using cfi_table_head [OF Cons.prems(1)] by blast
  have n: "codeOffset st < pcoffset \<longleftrightarrow> loc < unat pcoffset"
    using Cons.prems(4,5) by (simp add: word_less_nat_alt unat_of_nat)
  show ?case
  proof (cases "loc < unat pcoffset")
    case False
    then show ?thesis using n head Cons.prems(3) by (subst parse_loop.simps) (simp add: related_def info_ok_def)
  next
    case before: True
    note loop = parse_loop.simps [of mem cie iend pcoffset "\<lambda>stack. True" st]
    show ?thesis
    proof (cases "location_delta i")
      case (Some d)
      then obtain rows' where rows: "cfi_table ca da init is (loc + d * ca) s = Some rows'" "rows = (loc, fst s) # rows'"
        using Cons.prems(1) by auto
      define st' where "st' = st\<lparr>cfi_p := cfi_p st + of_nat (length (encode i)), codeOffset := codeOffset st + of_nat (d * ca)\<rparr>"
      have "parse_loop mem cie iend pcoffset (\<lambda>stack. True) st = parse_loop mem cie iend pcoffset (\<lambda>stack. True) st'"
        using advance_step [OF at Some Cons.prems(7), of st] instruction_nonempty [OF at] n before
        by (simp add: loop get8_def st'_def)
      moreover have "program_at mem cie iend da ca (cfi_p st') is" "related mem C T init st' s"
        "codeOffset st' = of_nat (loc + d * ca)"
        using Cons.prems(2,3,4) by (simp_all add: st'_def related_def)
      ultimately show ?thesis
        using Cons.IH [OF rows(1)] Cons.prems(5,7) confined_Cons [OF Cons.prems(6)] Some before rows(2) by simp
    next
      case None
      then obtain t where t: "effect da init i s = Some t" "cfi_table ca da init is loc t = Some rows"
        using Cons.prems(1) by (auto simp: bind_eq_Some_conv)
      have "steps_to mem cie iend C T init i (cfi_p st) st t"
        by (rule instruction_step [OF at Cons.prems(3) None confined_head [OF Cons.prems(6)] t(1)])
      then obtain st' where st': "cfi_instruction mem cie iend (\<lambda>stack. True) (mem (cfi_p st)) (st\<lparr>cfi_p := cfi_p st + 1\<rparr>) = go_on st'"
        "cfi_p st' = cfi_p st + of_nat (length (encode i))" "codeOffset st' = codeOffset st" "related mem C T init st' t"
        unfolding steps_to_def by blast
      have "parse_loop mem cie iend pcoffset (\<lambda>stack. True) st = parse_loop mem cie iend pcoffset (\<lambda>stack. True) st'"
        using st'(1) instruction_nonempty [OF at] n before by (simp add: loop get8_def)
      then show ?thesis
        using Cons.IH [OF t(2) _ st'(4)] st'(2,3) Cons.prems(2,4,5,7) confined_Cons [OF Cons.prems(6)] None before head by simp
    qed
  qed
qed

text \<open>The bytes between two addresses are the encoding of instructions.\<close>

definition code_at :: "memory \<Rightarrow> u64 \<Rightarrow> u64 \<Rightarrow> cfi list \<Rightarrow> bool" where
  "code_at mem p iend is \<longleftrightarrow> holds mem p (concat (map encode is)) \<and> unat p + length (concat (map encode is)) = unat iend"

lemma code_program:
  assumes "code_at mem p iend is" "\<forall>i\<in>set is. cfi_ok ca i" "scast (dataAlignFactor cie) = (of_int da :: u64)"
  shows "program_at mem cie iend da ca p is"
  using assms
proof (induction "is" arbitrary: p)
  case Nil
  then show ?case by (simp add: code_at_def word_unat_eq_iff)
next
  case (Cons i "is")
  let ?n = "length (encode i)"
  have r: "unat p + ?n + length (concat (map encode is)) = unat iend" using Cons.prems(1) by (simp add: code_at_def)
  then have "unat p + ?n < 18446744073709551616" using unat_64_bound [of iend] by linarith
  then have "unat (p + of_nat ?n) = unat p + ?n" by (simp add: unat_word_ariths unat_of_nat)
  then have "code_at mem (p + of_nat ?n) iend is" using Cons.prems(1) by (simp add: code_at_def)
  then show ?case using Cons r by (simp add: instruction_at_def room_def code_at_def)
qed

text \<open>An entry and a description whose instructions are \<open>cis\<close> and \<open>fis\<close>, with the factors of the entry. The entry restores
  no register, and the description restores none that the entry gives a rule.\<close>

definition unwind_code :: "memory \<Rightarrow> cie_info \<Rightarrow> fde_info \<Rightarrow> nat \<Rightarrow> int \<Rightarrow> cfi list \<Rightarrow> cfi list \<Rightarrow> bool" where
  "unwind_code mem cie fde ca da cis fis \<longleftrightarrow>
     code_at mem (cieInstructions cie) (cieStart cie + cieLength cie) cis \<and>
     code_at mem (fdeInstructions fde) (fdeStart fde + fdeLength fde) fis \<and>
     (\<forall>i\<in>set (cis @ fis). cfi_ok ca i) \<and> span ca fis < 2 ^ 64 \<and>
     codeAlignFactor cie = of_nat ca \<and> dataAlignFactor cie = of_int da \<and> - (2 ^ 31) \<le> da \<and> da < 2 ^ 31 \<and>
     (\<forall>i\<in>set cis. restored i = None) \<and> (\<forall>i\<in>set fis. case restored i of None \<Rightarrow> True | Some r \<Rightarrow> r \<notin> touched cis)"

text \<open>The row of the table for a location, or \<open>None\<close> if an instruction is not valid.\<close>

definition unwind_row :: "nat \<Rightarrow> int \<Rightarrow> cfi list \<Rightarrow> cfi list \<Rightarrow> nat \<Rightarrow> row option" where
  "unwind_row ca da cis fis n =
     (case cfi_run da no_row cis (no_row, []) of
        Some (init, []) \<Rightarrow> map_option (row_before n init) (cfi_table ca da init fis 0 (init, []))
      | _ \<Rightarrow> None)"

lemma touched_rule: "i \<in> set is \<Longrightarrow> register_rule da init i = Some x \<Longrightarrow> fst x \<in> touched is"
proof -
  assume i: "i \<in> set is" "register_rule da init i = Some x"
  from i(2) obtain rule where "register_rule 0 no_row i = Some (fst x, rule)" by (cases i) auto
  then have "(fst x, rule) \<in> set (List.map_filter (register_rule 0 no_row) is)"
    using i(1) by (force simp: List.map_filter_def)
  from imageI [OF this, of fst] show ?thesis by (simp add: touched_def)
qed

lemma unwind_confined:
  assumes "unwind_code mem cie fde ca da cis fis"
  shows "confined {} (touched cis) cis" "confined (touched cis) UNIV fis"
  using assms touched_rule unfolding confined_def unwind_code_def by (simp_all del: split_paired_All) (metis option.simps(5))

lemma fde_row:
  assumes "unwind_code mem cie fde ca da cis fis" "unwind_row ca da cis fis (unat (pc - pcStart fde)) = Some r"
  shows "\<exists>info. parseFDEInstructions mem fde cie pc (\<lambda>stack. True) uninit1 uninit2 zero_prolog = eh_return (Some info) \<and>
    row_shown mem info r"
proof -
  from assms(2) obtain init rows where rows: "cfi_run da no_row cis (no_row, []) = Some (init, [])"
    "cfi_table ca da init fis 0 (init, []) = Some rows" "r = row_before (unat (pc - pcStart fde)) init rows"
    by (auto simp: unwind_row_def split: option.splits list.splits)
  note code = assms(1) [unfolded unwind_code_def]
  have da: "scast (dataAlignFactor cie) = (of_int da :: u64)" using small_factor [of da] code by simp
  have prog: "program_at mem cie (cieStart cie + cieLength cie) da ca (cieInstructions cie) cis"
    "program_at mem cie (fdeStart fde + fdeLength fde) da ca (fdeInstructions fde) fis"
    using code by (auto intro: code_program [OF _ _ da])
  define st where "st = \<lparr>cfi_p = cieInstructions cie, codeOffset = 0, rememberStack = [], results = zero_prolog, initialState = uninit1\<rparr>"
  have "related mem {} (touched cis) no_row st (no_row, [])"
    by (simp add: st_def related_def info_ok_def row_shown_def cfa_shown_def initial_ok_def no_row_def zero_prolog_def location_shown_def)
  from parse_run [OF rows(1) _ this _ unwind_confined(1) [OF assms(1)], of cie _ ca "- 1"]
  obtain st1 where st1: "parse_loop mem cie (cieStart cie + cieLength cie) (- 1) (\<lambda>stack. True) st = go_on st1"
    "related mem {} (touched cis) no_row st1 (init, [])"
    using prog(1) word_gt_0 [of "- 1 :: u64"] by (auto simp: st_def)
  define st2 where "st2 = \<lparr>cfi_p = fdeInstructions fde, codeOffset = 0, rememberStack = [], results = results st1, initialState = uninit2\<rparr>"
  have "related mem (touched cis) UNIV init st2 (init, [])"
    using st1(2) by (simp add: st2_def related_def info_ok_def row_shown_def initial_ok_def)
  from parse_table [OF rows(2) _ this _ _ unwind_confined(2) [OF assms(1)], of cie "fdeStart fde + fdeLength fde" "pc - pcStart fde"]
  obtain st3 where "parse_loop mem cie (fdeStart fde + fdeLength fde) (pc - pcStart fde) (\<lambda>stack. True) st2 = go_on st3"
    "row_shown mem (results st3) r"
    using prog(2) code rows(3) by (auto simp: st2_def)
  moreover have "rememberStack st1 = []" using st1(2) by (simp add: related_def)
  ultimately show ?thesis using st1(1)
    by (simp add: parseFDEInstructions_def parseInstructions_def st_def st2_def)
qed

end
