(* ===== verification/RegistersX86_64.thy ===== *)
theory RegistersX86_64
  imports AddressSpace
begin

text \<open>
  The register set of x86-64 (\<open>libunwind/src/Registers.hpp\<close>, class \<open>Registers_x86_64\<close>, outside Windows), with the
  register numbers of \<open>libunwind/include/libunwind.h\<close>. Reading or writing a number that is no register aborts.
\<close>

record registers =
  reg_rax :: u64
  reg_rbx :: u64
  reg_rcx :: u64
  reg_rdx :: u64
  reg_rdi :: u64
  reg_rsi :: u64
  reg_rbp :: u64
  reg_rsp :: u64
  reg_r8 :: u64
  reg_r9 :: u64
  reg_r10 :: u64
  reg_r11 :: u64
  reg_r12 :: u64
  reg_r13 :: u64
  reg_r14 :: u64
  reg_r15 :: u64
  reg_rip :: u64
  reg_rflags :: u64
  reg_cs :: u64
  reg_fs :: u64
  reg_gs :: u64

definition lastDwarfRegNum :: nat where "lastDwarfRegNum = 32"

definition validRegister :: "int \<Rightarrow> bool" where
  "validRegister regNum =
     (if regNum = UNW_REG_IP then True
      else if regNum = UNW_REG_SP then True
      else if regNum < 0 then False
      else if 15 < regNum then False
      else True)"

definition getRegister :: "registers \<Rightarrow> int \<Rightarrow> u64 dw" where
  "getRegister r regNum =
     (if regNum = UNW_REG_IP then eh_return (reg_rip r)
      else if regNum = UNW_REG_SP then eh_return (reg_rsp r)
      else if regNum = 0 then eh_return (reg_rax r)
      else if regNum = 1 then eh_return (reg_rdx r)
      else if regNum = 2 then eh_return (reg_rcx r)
      else if regNum = 3 then eh_return (reg_rbx r)
      else if regNum = 4 then eh_return (reg_rsi r)
      else if regNum = 5 then eh_return (reg_rdi r)
      else if regNum = 6 then eh_return (reg_rbp r)
      else if regNum = 7 then eh_return (reg_rsp r)
      else if regNum = 8 then eh_return (reg_r8 r)
      else if regNum = 9 then eh_return (reg_r9 r)
      else if regNum = 10 then eh_return (reg_r10 r)
      else if regNum = 11 then eh_return (reg_r11 r)
      else if regNum = 12 then eh_return (reg_r12 r)
      else if regNum = 13 then eh_return (reg_r13 r)
      else if regNum = 14 then eh_return (reg_r14 r)
      else if regNum = 15 then eh_return (reg_r15 r)
      else eh_stop Fatal)"

text \<open>The function \<open>setRegister\<close> of the class; the state of the instructions has one of that name too.\<close>

definition set_register :: "int \<Rightarrow> u64 \<Rightarrow> registers \<Rightarrow> registers dw" where
  "set_register regNum v r =
     (if regNum = UNW_REG_IP then eh_return (r\<lparr>reg_rip := v\<rparr>)
      else if regNum = UNW_REG_SP then eh_return (r\<lparr>reg_rsp := v\<rparr>)
      else if regNum = 0 then eh_return (r\<lparr>reg_rax := v\<rparr>)
      else if regNum = 1 then eh_return (r\<lparr>reg_rdx := v\<rparr>)
      else if regNum = 2 then eh_return (r\<lparr>reg_rcx := v\<rparr>)
      else if regNum = 3 then eh_return (r\<lparr>reg_rbx := v\<rparr>)
      else if regNum = 4 then eh_return (r\<lparr>reg_rsi := v\<rparr>)
      else if regNum = 5 then eh_return (r\<lparr>reg_rdi := v\<rparr>)
      else if regNum = 6 then eh_return (r\<lparr>reg_rbp := v\<rparr>)
      else if regNum = 7 then eh_return (r\<lparr>reg_rsp := v\<rparr>)
      else if regNum = 8 then eh_return (r\<lparr>reg_r8 := v\<rparr>)
      else if regNum = 9 then eh_return (r\<lparr>reg_r9 := v\<rparr>)
      else if regNum = 10 then eh_return (r\<lparr>reg_r10 := v\<rparr>)
      else if regNum = 11 then eh_return (r\<lparr>reg_r11 := v\<rparr>)
      else if regNum = 12 then eh_return (r\<lparr>reg_r12 := v\<rparr>)
      else if regNum = 13 then eh_return (r\<lparr>reg_r13 := v\<rparr>)
      else if regNum = 14 then eh_return (r\<lparr>reg_r14 := v\<rparr>)
      else if regNum = 15 then eh_return (r\<lparr>reg_r15 := v\<rparr>)
      else eh_stop Fatal)"

definition setSP :: "u64 \<Rightarrow> registers \<Rightarrow> registers" where
  "setSP v r = r\<lparr>reg_rsp := v\<rparr>"

definition setIP :: "u64 \<Rightarrow> registers \<Rightarrow> registers" where
  "setIP v r = r\<lparr>reg_rip := v\<rparr>"

definition register_names :: "(int \<times> string) list" where
  "register_names = [(UNW_REG_IP, ''rip''), (UNW_REG_SP, ''rsp''), (0, ''rax''), (1, ''rdx''), (2, ''rcx''), (3, ''rbx''),
     (4, ''rsi''), (5, ''rdi''), (6, ''rbp''), (7, ''rsp''), (8, ''r8''), (9, ''r9''), (10, ''r10''), (11, ''r11''),
     (12, ''r12''), (13, ''r13''), (14, ''r14''), (15, ''r15''), (17, ''xmm0''), (18, ''xmm1''), (19, ''xmm2''),
     (20, ''xmm3''), (21, ''xmm4''), (22, ''xmm5''), (23, ''xmm6''), (24, ''xmm7''), (25, ''xmm8''), (26, ''xmm9''),
     (27, ''xmm10''), (28, ''xmm11''), (29, ''xmm12''), (30, ''xmm13''), (31, ''xmm14''), (32, ''xmm15'')]"

definition getRegisterName :: "int \<Rightarrow> string" where
  "getRegisterName regNum = (case map_of register_names regNum of Some n \<Rightarrow> n | None \<Rightarrow> ''unknown register'')"

text \<open>Registers with a vector or floating point value are valid only on Windows.\<close>

definition validFloatRegister :: "int \<Rightarrow> bool" where
  "validFloatRegister regNum = False"

definition validVectorRegister :: "int \<Rightarrow> bool" where
  "validVectorRegister regNum = False"

section \<open>Lemmas\<close>

lemma valid_register: "validRegister n \<longleftrightarrow> n \<in> {-2, -1} \<or> 0 \<le> n \<and> n \<le> 15"
  by (auto simp: validRegister_def UNW_REG_IP_def UNW_REG_SP_def)

lemma valid_cases: "validRegister n \<Longrightarrow> n \<in> {-2, -1, 0, 1, 2, 3, 4, 5, 6, 7, 8, 9, 10, 11, 12, 13, 14, 15}"
  unfolding valid_register insert_iff empty_iff by presburger

lemma get_register_valid: "validRegister n \<Longrightarrow> \<exists>v. getRegister r n = eh_return v"
  by (drule valid_cases) (auto simp: getRegister_def UNW_REG_IP_def UNW_REG_SP_def)

lemma set_register_valid: "validRegister n \<Longrightarrow> \<exists>r'. set_register n v r = eh_return r'"
  by (drule valid_cases) (auto simp: set_register_def UNW_REG_IP_def UNW_REG_SP_def)

text \<open>The stack pointer has two numbers.\<close>

definition same_register :: "int \<Rightarrow> int \<Rightarrow> bool" where
  "same_register m n \<longleftrightarrow> m = n \<or> m \<in> {UNW_REG_SP, 7} \<and> n \<in> {UNW_REG_SP, 7}"

lemma get_set_register:
  assumes "set_register n v r = eh_return r'" "validRegister m"
  shows "getRegister r' m = (if same_register m n then eh_return v else getRegister r m)"
proof -
  have n: "validRegister n" using assms(1) by (auto simp: set_register_def valid_register UNW_REG_IP_def UNW_REG_SP_def split: if_splits)
  note defs = set_register_def getRegister_def same_register_def UNW_REG_IP_def UNW_REG_SP_def
  show ?thesis using valid_cases [OF n] assms(1) unfolding insert_iff empty_iff
    by (elim disjE; cases "same_register m n"; auto simp: defs)
qed

end
