(* ===== verification/DwarfExpression.thy ===== *)
theory DwarfExpression
  imports RegistersX86_64
begin

unbundle bit_operations_syntax

text \<open>
  The stack machine of DWARF expressions (\<open>evaluateExpression\<close> in \<open>libunwind/src/DwarfInstructions.hpp\<close>) for x86-64.
  The stack is an array of 100 words whose entry 0 is below the first value: it is the list of the entries up to the
  stack pointer, top first, and an entry that was not written is \<open>None\<close>. Reading such an entry, leaving the array, a
  division by zero or of the least number by minus one and a shift by 64 or more are \<open>Undefined\<close>; other signed
  operations wrap.
\<close>

abbreviation DW_OP_addr :: u8 where "DW_OP_addr \<equiv> 0x03"
abbreviation DW_OP_deref :: u8 where "DW_OP_deref \<equiv> 0x06"
abbreviation DW_OP_const1u :: u8 where "DW_OP_const1u \<equiv> 0x08"
abbreviation DW_OP_const1s :: u8 where "DW_OP_const1s \<equiv> 0x09"
abbreviation DW_OP_const2u :: u8 where "DW_OP_const2u \<equiv> 0x0A"
abbreviation DW_OP_const2s :: u8 where "DW_OP_const2s \<equiv> 0x0B"
abbreviation DW_OP_const4u :: u8 where "DW_OP_const4u \<equiv> 0x0C"
abbreviation DW_OP_const4s :: u8 where "DW_OP_const4s \<equiv> 0x0D"
abbreviation DW_OP_const8u :: u8 where "DW_OP_const8u \<equiv> 0x0E"
abbreviation DW_OP_const8s :: u8 where "DW_OP_const8s \<equiv> 0x0F"
abbreviation DW_OP_constu :: u8 where "DW_OP_constu \<equiv> 0x10"
abbreviation DW_OP_consts :: u8 where "DW_OP_consts \<equiv> 0x11"
abbreviation DW_OP_dup :: u8 where "DW_OP_dup \<equiv> 0x12"
abbreviation DW_OP_drop :: u8 where "DW_OP_drop \<equiv> 0x13"
abbreviation DW_OP_over :: u8 where "DW_OP_over \<equiv> 0x14"
abbreviation DW_OP_pick :: u8 where "DW_OP_pick \<equiv> 0x15"
abbreviation DW_OP_swap :: u8 where "DW_OP_swap \<equiv> 0x16"
abbreviation DW_OP_rot :: u8 where "DW_OP_rot \<equiv> 0x17"
abbreviation DW_OP_xderef :: u8 where "DW_OP_xderef \<equiv> 0x18"
abbreviation DW_OP_abs :: u8 where "DW_OP_abs \<equiv> 0x19"
abbreviation DW_OP_and :: u8 where "DW_OP_and \<equiv> 0x1A"
abbreviation DW_OP_div :: u8 where "DW_OP_div \<equiv> 0x1B"
abbreviation DW_OP_minus :: u8 where "DW_OP_minus \<equiv> 0x1C"
abbreviation DW_OP_mod :: u8 where "DW_OP_mod \<equiv> 0x1D"
abbreviation DW_OP_mul :: u8 where "DW_OP_mul \<equiv> 0x1E"
abbreviation DW_OP_neg :: u8 where "DW_OP_neg \<equiv> 0x1F"
abbreviation DW_OP_not :: u8 where "DW_OP_not \<equiv> 0x20"
abbreviation DW_OP_or :: u8 where "DW_OP_or \<equiv> 0x21"
abbreviation DW_OP_plus :: u8 where "DW_OP_plus \<equiv> 0x22"
abbreviation DW_OP_plus_uconst :: u8 where "DW_OP_plus_uconst \<equiv> 0x23"
abbreviation DW_OP_shl :: u8 where "DW_OP_shl \<equiv> 0x24"
abbreviation DW_OP_shr :: u8 where "DW_OP_shr \<equiv> 0x25"
abbreviation DW_OP_shra :: u8 where "DW_OP_shra \<equiv> 0x26"
abbreviation DW_OP_xor :: u8 where "DW_OP_xor \<equiv> 0x27"
abbreviation DW_OP_bra :: u8 where "DW_OP_bra \<equiv> 0x28"
abbreviation DW_OP_eq :: u8 where "DW_OP_eq \<equiv> 0x29"
abbreviation DW_OP_ge :: u8 where "DW_OP_ge \<equiv> 0x2A"
abbreviation DW_OP_gt :: u8 where "DW_OP_gt \<equiv> 0x2B"
abbreviation DW_OP_le :: u8 where "DW_OP_le \<equiv> 0x2C"
abbreviation DW_OP_lt :: u8 where "DW_OP_lt \<equiv> 0x2D"
abbreviation DW_OP_ne :: u8 where "DW_OP_ne \<equiv> 0x2E"
abbreviation DW_OP_skip :: u8 where "DW_OP_skip \<equiv> 0x2F"
abbreviation DW_OP_lit0 :: u8 where "DW_OP_lit0 \<equiv> 0x30"
abbreviation DW_OP_reg0 :: u8 where "DW_OP_reg0 \<equiv> 0x50"
abbreviation DW_OP_breg0 :: u8 where "DW_OP_breg0 \<equiv> 0x70"
abbreviation DW_OP_regx :: u8 where "DW_OP_regx \<equiv> 0x90"
abbreviation DW_OP_bregx :: u8 where "DW_OP_bregx \<equiv> 0x92"
abbreviation DW_OP_deref_size :: u8 where "DW_OP_deref_size \<equiv> 0x94"

type_synonym entries = "u64 option list"

section \<open>Operations on the stack\<close>

definition stack_read :: "nat \<Rightarrow> entries \<Rightarrow> u64 dw" where
  "stack_read n s = (if n < length s then case s ! n of Some v \<Rightarrow> eh_return v | None \<Rightarrow> eh_stop Undefined else eh_stop Undefined)"

definition stack_push :: "u64 \<Rightarrow> entries \<Rightarrow> entries dw" where
  "stack_push v s = (if length s < 100 then eh_return (Some v # s) else eh_stop Undefined)"

text \<open>Moving the stack pointer down; it must stay in the array.\<close>

definition stack_drop :: "entries \<Rightarrow> entries dw" where
  "stack_drop s = (if 1 < length s then eh_return (tl s) else eh_stop Undefined)"

definition stack_pop :: "entries \<Rightarrow> (u64 \<times> entries) dw" where
  "stack_pop s = eh_bind (stack_read 0 s) (\<lambda>v. eh_bind (stack_drop s) (\<lambda>s. eh_return (v, s)))"

definition stack_write :: "nat \<Rightarrow> u64 \<Rightarrow> entries \<Rightarrow> entries dw" where
  "stack_write n v s = (if n < length s then eh_return (s[n := Some v]) else eh_stop Undefined)"

text \<open>An operation on the top, and one of the popped value and the entry under it.\<close>

definition on_top :: "(u64 \<Rightarrow> u64 dw) \<Rightarrow> entries \<Rightarrow> entries dw" where
  "on_top f s = eh_bind (stack_read 0 s) (\<lambda>v. eh_bind (f v) (\<lambda>w. stack_write 0 w s))"

definition on_two :: "(u64 \<Rightarrow> u64 \<Rightarrow> u64 dw) \<Rightarrow> entries \<Rightarrow> entries dw" where
  "on_two f s = eh_bind (stack_pop s) (\<lambda>(v, s). on_top (\<lambda>w. f w v) s)"

abbreviation pure2 :: "(u64 \<Rightarrow> u64 \<Rightarrow> u64) \<Rightarrow> entries \<Rightarrow> entries dw" where
  "pure2 f \<equiv> on_two (\<lambda>x y. eh_return (f x y))"

definition word_of_bool :: "bool \<Rightarrow> u64" where
  "word_of_bool b = (if b then 1 else 0)"

text \<open>Division of signed words, which rounds towards zero.\<close>

definition trunc_div :: "int \<Rightarrow> int \<Rightarrow> int" where
  "trunc_div a b = sgn a * sgn b * (\<bar>a\<bar> div \<bar>b\<bar>)"

definition signed_div :: "u64 \<Rightarrow> u64 \<Rightarrow> u64 dw" where
  "signed_div x y = (if y = 0 \<or> sint x = - (2 ^ 63) \<and> sint y = - 1 then eh_stop Undefined
     else eh_return (of_int (trunc_div (sint x) (sint y))))"

definition signed_mod :: "u64 \<Rightarrow> u64 \<Rightarrow> u64 dw" where
  "signed_mod x y = (if y = 0 \<or> sint x = - (2 ^ 63) \<and> sint y = - 1 then eh_stop Undefined
     else eh_return (of_int (sint x - sint y * trunc_div (sint x) (sint y))))"

definition shift_by :: "(nat \<Rightarrow> u64 \<Rightarrow> u64) \<Rightarrow> u64 \<Rightarrow> u64 \<Rightarrow> u64 dw" where
  "shift_by f x y = (if y < 64 then eh_return (f (unat y) x) else eh_stop Undefined)"

definition arith_shift :: "nat \<Rightarrow> u64 \<Rightarrow> u64" where
  "arith_shift n x = of_int (sint x div 2 ^ n)"

section \<open>The loop\<close>

abbreviation next_at :: "u64 \<Rightarrow> entries dw \<Rightarrow> (u64 \<times> entries) dw" where
  "next_at p m \<equiv> eh_bind m (\<lambda>s. eh_return (p, s))"

definition push_sleb_register ::
  "memory \<Rightarrow> registers \<Rightarrow> u64 \<Rightarrow> int \<Rightarrow> u64 \<times> entries \<Rightarrow> (u64 \<times> entries) dw" where
  "push_sleb_register mem regs pend reg = (\<lambda>(p, s).
     eh_bind (getSLEB128 mem p pend) (\<lambda>(z, p). eh_bind (getRegister regs reg) (\<lambda>v. next_at p (stack_push (z + v) s))))"

text \<open>One turn of the switch, with the position after the opcode.\<close>

definition expression_op ::
  "memory \<Rightarrow> registers \<Rightarrow> u64 \<Rightarrow> u8 \<Rightarrow> u64 \<times> entries \<Rightarrow> (u64 \<times> entries) dw" where
  "expression_op mem regs pend opcode = (\<lambda>(p, s).
     if opcode = DW_OP_addr then next_at (p + 8) (stack_push (getP mem p) s)
     else if opcode = DW_OP_deref then next_at p (eh_bind (stack_pop s) (\<lambda>(v, s). stack_push (getP mem v) s))
     else if opcode = DW_OP_const1u then next_at (p + 1) (stack_push (ucast (get8 mem p)) s)
     else if opcode = DW_OP_const1s then next_at (p + 1) (stack_push (scast (get8 mem p)) s)
     else if opcode = DW_OP_const2u then next_at (p + 2) (stack_push (ucast (get16 mem p)) s)
     else if opcode = DW_OP_const2s then next_at (p + 2) (stack_push (scast (get16 mem p)) s)
     else if opcode = DW_OP_const4u then next_at (p + 4) (stack_push (ucast (get32 mem p)) s)
     else if opcode = DW_OP_const4s then next_at (p + 4) (stack_push (scast (get32 mem p)) s)
     else if opcode = DW_OP_const8u then next_at (p + 8) (stack_push (get64 mem p) s)
     else if opcode = DW_OP_const8s then next_at (p + 8) (stack_push (get64 mem p) s)
     else if opcode = DW_OP_constu then eh_bind (getULEB128 mem p pend) (\<lambda>(v, p). next_at p (stack_push v s))
     else if opcode = DW_OP_consts then eh_bind (getSLEB128 mem p pend) (\<lambda>(v, p). next_at p (stack_push v s))
     else if opcode = DW_OP_dup then next_at p (eh_bind (stack_read 0 s) (\<lambda>v. stack_push v s))
     else if opcode = DW_OP_drop then next_at p (stack_drop s)
     else if opcode = DW_OP_over then next_at p (eh_bind (stack_read 1 s) (\<lambda>v. stack_push v s))
     else if opcode = DW_OP_pick
     then next_at (p + 1) (eh_bind (stack_read (unat (get8 mem p)) s) (\<lambda>v. stack_push v s))
     else if opcode = DW_OP_swap
     then next_at p (eh_bind (stack_read 0 s) (\<lambda>v. eh_bind (stack_read 1 s) (\<lambda>w.
       eh_bind (stack_write 0 w s) (stack_write 1 v))))
     else if opcode = DW_OP_rot
     then next_at p (eh_bind (stack_read 0 s) (\<lambda>v. eh_bind (stack_read 1 s) (\<lambda>w. eh_bind (stack_read 2 s) (\<lambda>x.
       eh_bind (stack_write 0 w s) (\<lambda>s. eh_bind (stack_write 1 x s) (stack_write 2 v))))))
     else if opcode = DW_OP_xderef then next_at p (eh_bind (stack_pop s) (\<lambda>(v, s). stack_write 0 (getP mem v) s))
     else if opcode = DW_OP_abs then next_at p (on_top (\<lambda>v. eh_return (if sint v < 0 then - v else v)) s)
     else if opcode = DW_OP_and then next_at p (pure2 (AND) s)
     else if opcode = DW_OP_div then next_at p (on_two signed_div s)
     else if opcode = DW_OP_minus then next_at p (pure2 (-) s)
     else if opcode = DW_OP_mod then next_at p (on_two signed_mod s)
     else if opcode = DW_OP_mul then next_at p (pure2 (*) s)
     else if opcode = DW_OP_neg then next_at p (on_top (\<lambda>v. eh_return (0 - v)) s)
     else if opcode = DW_OP_not then next_at p (on_top (\<lambda>v. eh_return (NOT v)) s)
     else if opcode = DW_OP_or then next_at p (pure2 (OR) s)
     else if opcode = DW_OP_plus then next_at p (pure2 (+) s)
     else if opcode = DW_OP_plus_uconst
     then eh_bind (getULEB128 mem p pend) (\<lambda>(v, p). next_at p (on_top (\<lambda>w. eh_return (w + v)) s))
     else if opcode = DW_OP_shl then next_at p (on_two (shift_by push_bit) s)
     else if opcode = DW_OP_shr then next_at p (on_two (shift_by drop_bit) s)
     else if opcode = DW_OP_shra then next_at p (on_two (shift_by arith_shift) s)
     else if opcode = DW_OP_xor then next_at p (pure2 (XOR) s)
     else if opcode = DW_OP_skip then eh_return (p + 2 + scast (get16 mem p), s)
     else if opcode = DW_OP_bra
     then eh_bind (stack_pop s) (\<lambda>(v, s). eh_return (if v \<noteq> 0 then p + 2 + scast (get16 mem p) else p + 2, s))
     else if opcode = DW_OP_eq then next_at p (pure2 (\<lambda>x y. word_of_bool (x = y)) s)
     else if opcode = DW_OP_ge then next_at p (pure2 (\<lambda>x y. word_of_bool (x \<ge> y)) s)
     else if opcode = DW_OP_gt then next_at p (pure2 (\<lambda>x y. word_of_bool (x > y)) s)
     else if opcode = DW_OP_le then next_at p (pure2 (\<lambda>x y. word_of_bool (x \<le> y)) s)
     else if opcode = DW_OP_lt then next_at p (pure2 (\<lambda>x y. word_of_bool (x < y)) s)
     else if opcode = DW_OP_ne then next_at p (pure2 (\<lambda>x y. word_of_bool (x \<noteq> y)) s)
     else if DW_OP_lit0 \<le> opcode \<and> opcode < 0x50 then next_at p (stack_push (ucast (opcode - DW_OP_lit0)) s)
     else if DW_OP_reg0 \<le> opcode \<and> opcode < 0x70
     then eh_bind (getRegister regs (uint (opcode - DW_OP_reg0))) (\<lambda>v. next_at p (stack_push v s))
     else if opcode = DW_OP_regx
     then eh_bind (getULEB128 mem p pend) (\<lambda>(reg, p).
       eh_bind (getRegister regs (sint (ucast reg :: u32))) (\<lambda>v. next_at p (stack_push v s)))
     else if DW_OP_breg0 \<le> opcode \<and> opcode < 0x90
     then push_sleb_register mem regs pend (uint (opcode - DW_OP_breg0)) (p, s)
     else if opcode = DW_OP_bregx
     then eh_bind (getULEB128 mem p pend) (\<lambda>(reg, p). push_sleb_register mem regs pend (sint (ucast reg :: u32)) (p, s))
     else if opcode = DW_OP_deref_size
     then
       let size = get8 mem p in
       next_at (p + 1) (eh_bind (stack_pop s) (\<lambda>(v, s).
         if size = 1 then stack_push (ucast (get8 mem v)) s
         else if size = 2 then stack_push (ucast (get16 mem v)) s
         else if size = 4 then stack_push (ucast (get32 mem v)) s
         else if size = 8 then stack_push (get64 mem v) s
         else eh_stop Fatal))
     else eh_stop Fatal)"

partial_function (option) expression_loop ::
  "memory \<Rightarrow> registers \<Rightarrow> u64 \<Rightarrow> u64 \<times> entries \<Rightarrow> (u64 \<times> entries) dw" where
  "expression_loop mem regs pend ps =
     (if fst ps < pend
      then eh_bind (expression_op mem regs pend (get8 mem (fst ps)) (fst ps + 1, snd ps)) (expression_loop mem regs pend)
      else eh_return ps)"

definition evaluateExpression :: "memory \<Rightarrow> registers \<Rightarrow> u64 \<Rightarrow> u64 \<Rightarrow> u64 dw" where
  "evaluateExpression mem regs expression initialStackValue =
     eh_bind (getULEB128 mem expression (expression + 20)) (\<lambda>(len, p).
     eh_bind (stack_push initialStackValue [None]) (\<lambda>s.
     eh_bind (expression_loop mem regs (p + len) (p, s)) (\<lambda>(p, s). stack_read 0 s)))"

end
