(* ===== verification/ExpressionProperties.thy ===== *)
theory ExpressionProperties
  imports CfiProperties DwarfExpression
begin

unbundle bit_operations_syntax

text \<open>
  The stack machine against expressions with a value: code compiled from an expression leaves its value on the stack,
  whatever is below it, jumps included.
\<close>

section \<open>Expressions\<close>

datatype unary = Neg | Not | Abs
datatype binary = Add | Sub | Mul | Div | And | Or | Xor | Shl | Shr | Shra | Eq | Ne

text \<open>\<open>Cond\<close> is a choice by whether the first value is zero, compiled to two jumps.\<close>

datatype dexpr = Small nat | Constant u64 | Unsigned nat | Signed int | Reg nat | Based nat int | Deref dexpr
  | Unary unary dexpr | Binary binary dexpr dexpr | Plus_const dexpr nat | Cond dexpr dexpr dexpr

fun unary_value :: "unary \<Rightarrow> u64 \<Rightarrow> u64" where
  "unary_value Neg x = - x"
| "unary_value Not x = NOT x"
| "unary_value Abs x = (if sint x < 0 then - x else x)"

fun binary_value :: "binary \<Rightarrow> u64 \<Rightarrow> u64 \<Rightarrow> u64 option" where
  "binary_value Add x y = Some (x + y)"
| "binary_value Sub x y = Some (x - y)"
| "binary_value Mul x y = Some (x * y)"
| "binary_value Div x y = (if y = 0 \<or> sint x = - (2 ^ 63) \<and> sint y = - 1 then None else Some (of_int (trunc_div (sint x) (sint y))))"
| "binary_value And x y = Some (x AND y)"
| "binary_value Or x y = Some (x OR y)"
| "binary_value Xor x y = Some (x XOR y)"
| "binary_value Shl x y = (if y < 64 then Some (x * 2 ^ unat y) else None)"
| "binary_value Shr x y = (if y < 64 then Some (of_nat (unat x div 2 ^ unat y)) else None)"
| "binary_value Shra x y = (if y < 64 then Some (of_int (sint x div 2 ^ unat y)) else None)"
| "binary_value Eq x y = Some (if x = y then 1 else 0)"
| "binary_value Ne x y = Some (if x \<noteq> y then 1 else 0)"

definition register_value :: "registers \<Rightarrow> nat \<Rightarrow> u64 option" where
  "register_value regs r = (case getRegister regs (int r) of Some (Inr v) \<Rightarrow> Some v | _ \<Rightarrow> None)"

fun dvalue :: "memory \<Rightarrow> registers \<Rightarrow> dexpr \<Rightarrow> u64 option" where
  "dvalue mem regs (Small n) = Some (of_nat n)"
| "dvalue mem regs (Constant w) = Some w"
| "dvalue mem regs (Unsigned n) = Some (of_nat n)"
| "dvalue mem regs (Signed z) = Some (of_int z)"
| "dvalue mem regs (Reg r) = register_value regs r"
| "dvalue mem regs (Based r z) = map_option (\<lambda>v. of_int z + v) (register_value regs r)"
| "dvalue mem regs (Deref e) = map_option (getP mem) (dvalue mem regs e)"
| "dvalue mem regs (Unary f e) = map_option (unary_value f) (dvalue mem regs e)"
| "dvalue mem regs (Binary f a b) = Option.bind (dvalue mem regs a) (\<lambda>x. Option.bind (dvalue mem regs b) (binary_value f x))"
| "dvalue mem regs (Plus_const e n) = map_option (\<lambda>v. v + of_nat n) (dvalue mem regs e)"
| "dvalue mem regs (Cond c a b) = Option.bind (dvalue mem regs c) (\<lambda>v. if v \<noteq> 0 then dvalue mem regs a else dvalue mem regs b)"

section \<open>Compilation\<close>

fun unary_code :: "unary \<Rightarrow> u8" where
  "unary_code Neg = DW_OP_neg"
| "unary_code Not = DW_OP_not"
| "unary_code Abs = DW_OP_abs"

fun binary_code :: "binary \<Rightarrow> u8" where
  "binary_code Add = DW_OP_plus"
| "binary_code Sub = DW_OP_minus"
| "binary_code Mul = DW_OP_mul"
| "binary_code Div = DW_OP_div"
| "binary_code And = DW_OP_and"
| "binary_code Or = DW_OP_or"
| "binary_code Xor = DW_OP_xor"
| "binary_code Shl = DW_OP_shl"
| "binary_code Shr = DW_OP_shr"
| "binary_code Shra = DW_OP_shra"
| "binary_code Eq = DW_OP_eq"
| "binary_code Ne = DW_OP_ne"

text \<open>The condition jumps over the second branch, which ends with a jump over the first.\<close>

fun dcode :: "dexpr \<Rightarrow> u8 list" where
  "dcode (Small n) = [DW_OP_lit0 + of_nat n]"
| "dcode (Constant w) = DW_OP_const8u # le_bytes 8 (unat w)"
| "dcode (Unsigned n) = DW_OP_constu # uleb n"
| "dcode (Signed z) = DW_OP_consts # sleb z"
| "dcode (Reg r) = [DW_OP_reg0 + of_nat r]"
| "dcode (Based r z) = (DW_OP_breg0 + of_nat r) # sleb z"
| "dcode (Deref e) = dcode e @ [DW_OP_deref]"
| "dcode (Unary f e) = dcode e @ [unary_code f]"
| "dcode (Binary f a b) = dcode a @ dcode b @ [binary_code f]"
| "dcode (Plus_const e n) = dcode e @ DW_OP_plus_uconst # uleb n"
| "dcode (Cond c a b) = dcode c @ DW_OP_bra # le_bytes 2 (length (dcode b) + 3) @
     dcode b @ DW_OP_skip # le_bytes 2 (length (dcode a)) @ dcode a"

fun dexpr_ok :: "dexpr \<Rightarrow> bool" where
  "dexpr_ok (Small n) = (n < 32)"
| "dexpr_ok (Constant w) = True"
| "dexpr_ok (Unsigned n) = (n < 2 ^ 64)"
| "dexpr_ok (Signed z) = (- (2 ^ 63) \<le> z \<and> z < 2 ^ 63)"
| "dexpr_ok (Reg r) = (r < 32)"
| "dexpr_ok (Based r z) = (r < 32 \<and> - (2 ^ 63) \<le> z \<and> z < 2 ^ 63)"
| "dexpr_ok (Deref e) = dexpr_ok e"
| "dexpr_ok (Unary f e) = dexpr_ok e"
| "dexpr_ok (Binary f a b) = (dexpr_ok a \<and> dexpr_ok b)"
| "dexpr_ok (Plus_const e n) = (dexpr_ok e \<and> n < 2 ^ 64)"
| "dexpr_ok (Cond c a b) = (dexpr_ok c \<and> dexpr_ok a \<and> dexpr_ok b \<and> length (dcode b) + 3 < 2 ^ 15 \<and> length (dcode a) < 2 ^ 15)"

text \<open>How many entries the evaluation needs at once.\<close>

fun depth :: "dexpr \<Rightarrow> nat" where
  "depth (Deref e) = depth e"
| "depth (Unary f e) = depth e"
| "depth (Binary f a b) = max (depth a) (depth b + 1)"
| "depth (Plus_const e n) = depth e"
| "depth (Cond c a b) = max (depth c) (max (depth a) (depth b))"
| "depth e = 1"

section \<open>Running compiled code\<close>

abbreviation runs :: "memory \<Rightarrow> registers \<Rightarrow> u64 \<Rightarrow> u64 \<Rightarrow> entries \<Rightarrow> u64 \<Rightarrow> entries \<Rightarrow> bool" where
  "runs mem regs pend p s p' s' \<equiv> expression_loop mem regs pend (p, s) = expression_loop mem regs pend (p', s')"

lemma run_op:
  assumes "p < pend" "expression_op mem regs pend (mem p) (p + 1, s) = eh_return (p', s')"
  shows "runs mem regs pend p s p' s'"
  using assms by (subst expression_loop.simps) (simp add: get8_def)

lemma stack_simps [simp]:
  "stack_read 0 (Some v # s) = eh_return v"
  "length s < 100 \<Longrightarrow> stack_push v s = eh_return (Some v # s)"
  "s \<noteq> [] \<Longrightarrow> stack_pop (Some v # s) = eh_return (v, s)"
  "stack_write 0 v (x # s) = eh_return (Some v # s)"
  by (simp_all add: stack_read_def stack_push_def stack_pop_def stack_drop_def stack_write_def)

lemma on_stack [simp]:
  "f v = eh_return w \<Longrightarrow> on_top f (Some v # s) = eh_return (Some w # s)"
  "g v w = eh_return x \<Longrightarrow> on_two g (Some w # Some v # s) = eh_return (Some x # s)"
  by (simp_all add: on_top_def on_two_def)

lemma read_le2: "holds mem p (le_bytes 2 d) \<Longrightarrow> d < 2 ^ 15 \<Longrightarrow> scast (get16 mem p) = (of_nat d :: u64)"
proof -
  assume a: "holds mem p (le_bytes 2 d)" "d < 2 ^ 15"
  have "get16 mem p = of_nat d" using read_bytes_le [of d 2 mem p] a by (simp add: get16_def unsigned_of_nat take_bit_nat_eq_self)
  moreover have "sint (of_nat d :: u16) = int d" using a(2) by (simp add: signed_of_nat signed_take_bit_int_eq_self)
  ultimately show ?thesis by (metis of_int_of_nat_eq of_int_sint)
qed

lemma read_le8: "holds mem p (le_bytes 8 (unat w)) \<Longrightarrow> get64 mem p = w"
  using read_bytes_le [of "unat w" 8 mem p] by (simp add: get64_def)

lemma unary_run:
  "expression_op mem regs pend (unary_code f) (p, Some x # s) = eh_return (p, Some (unary_value f x) # s)"
  by (cases f) (simp_all add: expression_op_def)

lemma drop_bit_div: "drop_bit n x = (of_nat (unat x div 2 ^ n) :: u64)"
proof -
  have "unat (drop_bit n x) = unat x div 2 ^ n" by (simp only: unat_drop_bit_eq) (simp add: drop_bit_eq_div)
  from arg_cong [OF this, of "of_nat :: nat \<Rightarrow> u64"] show ?thesis by simp
qed

lemma binary_run:
  "binary_value f x y = Some z \<Longrightarrow>
    expression_op mem regs pend (binary_code f) (p, Some y # Some x # s) = eh_return (p, Some z # s)"
  by (cases f) (auto simp: expression_op_def signed_div_def shift_by_def arith_shift_def word_of_bool_def
      push_bit_eq_mult drop_bit_div split: if_splits)

text \<open>The opcodes that hold a number: literals, registers and based registers.\<close>

lemma literal_op:
  assumes "n < 32"
  shows "expression_op mem regs pend (DW_OP_lit0 + of_nat n) (p, s) = next_at p (stack_push (of_nat n) s)"
    "expression_op mem regs pend (DW_OP_reg0 + of_nat n) (p, s) =
      eh_bind (getRegister regs (int n)) (\<lambda>v. next_at p (stack_push v s))"
    "expression_op mem regs pend (DW_OP_breg0 + of_nat n) (p, s) = push_sleb_register mem regs pend (int n) (p, s)"
proof -
  have op: "unat (c + of_nat n :: u8) = unat c + n" if "unat c < 0xE0" for c :: u8
    using assms that by (simp add: unat_word_ariths unat_of_nat)
  have sub: "c + of_nat n - c = (of_nat n :: u8)" "uint (of_nat n :: u8) = int n" "ucast (of_nat n :: u8) = (of_nat n :: u64)" for c :: u8
    using assms by (simp_all add: ucast_of_nat_small unsigned_of_nat take_bit_nat_eq_self)
  have ne: "c < 0x30 \<Longrightarrow> (d + of_nat n = c) = False" if "0x30 \<le> unat d" "unat d < 0xE0" for c d :: u8
    using op [OF that(2)] that by (auto simp: word_less_nat_alt)
  note o = op [of "0x30"] op [of "0x50"] op [of "0x70"]
  show "expression_op mem regs pend (DW_OP_lit0 + of_nat n) (p, s) = next_at p (stack_push (of_nat n) s)"
    using o assms by (simp add: expression_op_def ne sub word_less_nat_alt word_le_nat_alt)
  have r: "(DW_OP_reg0 + of_nat n < 0x50) = False" "(DW_OP_breg0 + of_nat n < 0x50) = False"
    "(DW_OP_breg0 + of_nat n < 0x70) = False" "DW_OP_reg0 \<le> DW_OP_reg0 + of_nat n" "DW_OP_reg0 + of_nat n < 0x70"
    "DW_OP_breg0 \<le> DW_OP_breg0 + of_nat n" "DW_OP_breg0 + of_nat n < 0x90" "(DW_OP_breg0 + of_nat n = DW_OP_regx) = False"
    using o assms by (auto simp: word_less_nat_alt word_le_nat_alt word_unat_eq_iff)
  show "expression_op mem regs pend (DW_OP_reg0 + of_nat n) (p, s) =
      eh_bind (getRegister regs (int n)) (\<lambda>v. next_at p (stack_push v s))"
    by (simp add: expression_op_def ne sub r)
  show "expression_op mem regs pend (DW_OP_breg0 + of_nat n) (p, s) = push_sleb_register mem regs pend (int n) (p, s)"
    by (simp add: expression_op_def ne sub r)
qed

lemma depth_positive: "0 < depth e"
  by (induction e) auto

lemma register_value_run: "register_value regs r = Some v \<Longrightarrow> getRegister regs (int r) = eh_return v"
  by (auto simp: register_value_def eh_return_def split: option.splits sum.splits)

text \<open>An operation at the end of code: the code runs, then its last opcode.\<close>

lemma run_then:
  assumes "runs mem regs pend p s q t" "q < pend" "expression_op mem regs pend (mem q) (q + 1, t) = eh_return (p', s')"
  shows "runs mem regs pend p s p' s'"
  using assms(1) run_op [OF assms(2,3)] by simp

lemma leaf_run:
  assumes "dvalue mem regs e = Some v" "dexpr_ok e" "holds mem p (dcode e)" "room p (length (dcode e)) pend" "length s < 100"
    "case e of Small n \<Rightarrow> True | Constant w \<Rightarrow> True | Unsigned n \<Rightarrow> True | Signed z \<Rightarrow> True | Reg r \<Rightarrow> True | Based r z \<Rightarrow> True | _ \<Rightarrow> False"
  shows "runs mem regs pend p s (p + of_nat (length (dcode e))) (Some v # s)"
proof (rule run_op)
  show "p < pend" using assms(4,6) by (cases e) (auto intro: room_less)
  have r: "room (p + 1) (length (dcode e) - 1) pend"
    using assms(4,6) room_step [of p "length (dcode e) - 1" pend] by (cases e) simp_all
  show "expression_op mem regs pend (mem p) (p + 1, s) = eh_return (p + of_nat (length (dcode e)), Some v # s)"
  proof (cases e)
    case (Constant w)
    then show ?thesis using assms read_le8 [of mem "p + 1" w] by (simp add: expression_op_def add.assoc)
  next
    case (Unsigned n)
    then show ?thesis using assms r read_last(1) [of mem "p + 1" n pend] by (simp add: expression_op_def add.assoc)
  next
    case (Signed z)
    then show ?thesis using assms r read_last(2) [of mem "p + 1" z pend] by (simp add: expression_op_def add.assoc)
  next
    case (Based r z)
    then show ?thesis using assms \<open>room (p + 1) (length (dcode e) - 1) pend\<close> read_last(2) [of mem "p + 1" z pend]
      by (auto simp: literal_op push_sleb_register_def add.assoc dest!: register_value_run)
  qed (use assms in \<open>auto simp: literal_op dest!: register_value_run\<close>)
qed

lemma run_code:
  assumes "dvalue mem regs e = Some v" "dexpr_ok e" "holds mem p (dcode e)" "room p (length (dcode e)) pend"
    "length s + depth e \<le> 100" "s \<noteq> []"
  shows "runs mem regs pend p s (p + of_nat (length (dcode e))) (Some v # s)"
  using assms
proof (induction e arbitrary: v p s)
  case (Deref e)
  let ?q = "p + of_nat (length (dcode e))"
  from Deref.prems obtain x where x: "dvalue mem regs e = Some x" "v = getP mem x" by auto
  have r: "room p (length (dcode e)) pend" "room ?q 1 pend" using room_split [of p "length (dcode e)" 1 pend] Deref.prems(4) by simp_all
  have "runs mem regs pend p s ?q (Some x # s)" using Deref.IH [OF x(1)] r Deref.prems by simp
  from run_then [OF this room_less [OF r(2)]] show ?case
    using Deref.prems depth_positive [of e] x(2) by (simp add: expression_op_def add.assoc add.commute [of 1])
next
  case (Unary f e)
  let ?q = "p + of_nat (length (dcode e))"
  from Unary.prems obtain x where x: "dvalue mem regs e = Some x" "v = unary_value f x" by auto
  have r: "room p (length (dcode e)) pend" "room ?q 1 pend" using room_split [of p "length (dcode e)" 1 pend] Unary.prems(4) by simp_all
  have "runs mem regs pend p s ?q (Some x # s)" using Unary.IH [OF x(1)] r Unary.prems by simp
  from run_then [OF this room_less [OF r(2)]] show ?case
    using Unary.prems x(2) unary_run by (simp add: add.assoc add.commute [of 1])
next
  case (Plus_const e n)
  let ?q = "p + of_nat (length (dcode e))"
  from Plus_const.prems obtain x where x: "dvalue mem regs e = Some x" "v = x + of_nat n" by auto
  have r: "room p (length (dcode e)) pend" "room ?q (Suc (length (uleb n))) pend"
    using room_split [of p "length (dcode e)" "Suc (length (uleb n))" pend] Plus_const.prems(4) by simp_all
  have "runs mem regs pend p s ?q (Some x # s)" using Plus_const.IH [OF x(1)] r Plus_const.prems by simp
  from run_then [OF this room_less [OF r(2)]] show ?case
    using Plus_const.prems x(2) room_step [OF r(2)] read_last(1) [of mem "?q + 1" n pend]
    by (simp add: expression_op_def add.assoc add.commute [of 1])
next
  case (Binary f a b)
  let ?q = "p + of_nat (length (dcode a))" and ?m = "p + of_nat (length (dcode a)) + of_nat (length (dcode b))"
  from Binary.prems obtain x y where xy: "dvalue mem regs a = Some x" "dvalue mem regs b = Some y" "binary_value f x y = Some v"
    by (auto simp: bind_eq_Some_conv)
  have r: "room p (length (dcode a)) pend" "room ?q (length (dcode b)) pend" "room ?m 1 pend"
    using room_split [of p "length (dcode a)" "length (dcode b) + 1" pend]
      room_split [of ?q "length (dcode b)" 1 pend] Binary.prems(4) by simp_all
  have "runs mem regs pend p s ?q (Some x # s)" using Binary.IH(1) [OF xy(1)] r Binary.prems by simp
  also have "runs mem regs pend ?q (Some x # s) ?m (Some y # Some x # s)" using Binary.IH(2) [OF xy(2)] r Binary.prems by simp
  finally have "runs mem regs pend p s ?m (Some y # Some x # s)" .
  from run_then [OF this room_less [OF r(3)]] show ?case
    using Binary.prems binary_run [OF xy(3)] by (simp add: add.assoc add.commute [of 1])
next
  case (Cond c a b)
  define q where "q = p + of_nat (length (dcode c))"
  define k where "k = q + 3 + of_nat (length (dcode b))"
  let ?la = "length (dcode a)" and ?lb = "length (dcode b)"
  from Cond.prems obtain x where x: "dvalue mem regs c = Some x" "(if x \<noteq> 0 then dvalue mem regs a else dvalue mem regs b) = Some v"
    by (auto simp: bind_eq_Some_conv)
  have "length (dcode (Cond c a b)) = length (dcode c) + (3 + ?lb + 3 + ?la)" by simp
  with Cond.prems(4) have "room p (length (dcode c) + (3 + ?lb + 3 + ?la)) pend" by (simp only:)
  from room_split [OF this] have r: "room p (length (dcode c)) pend" "room q (3 + ?lb + 3 + ?la) pend"
    by (simp_all only: q_def)
  have r': "room q 3 pend" "room (q + 3) ?lb pend" "room k 3 pend" "room (k + 3) ?la pend"
    using room_split [of q 3 "?lb + 3 + ?la" pend] room_split [of "q + 3" ?lb "3 + ?la" pend] room_split [of k 3 ?la pend] r(2)
    by (simp_all add: k_def add.assoc)
  have code: "holds mem q (DW_OP_bra # le_bytes 2 (?lb + 3))" "holds mem (q + 3) (dcode b)"
    "holds mem k (DW_OP_skip # le_bytes 2 ?la)" "holds mem (k + 3) (dcode a)"
    using Cond.prems(3) by (simp_all add: q_def k_def add.assoc numeral_3_eq_3)
  have start: "runs mem regs pend p s q (Some x # s)"
    using Cond.IH(1) [OF x(1)] r(1) Cond.prems by (simp add: q_def)
  have bra: "scast (get16 mem (q + 1)) = (of_nat (?lb + 3) :: u64)" using read_le2 [of mem "q + 1" "?lb + 3"] code(1) Cond.prems(2) by simp
  have skip: "scast (get16 mem (k + 1)) = (of_nat ?la :: u64)" using read_le2 [of mem "k + 1" ?la] code(3) Cond.prems(2) by simp
  show ?case
  proof (cases "x = 0")
    case False
    have "runs mem regs pend p s (k + 3) s"
      by (rule run_then [OF start room_less [OF r'(1)]])
        (use code(1) bra False Cond.prems(6) in \<open>simp_all add: expression_op_def k_def add.assoc\<close>)
    also have "runs mem regs pend (k + 3) s (k + 3 + of_nat ?la) (Some v # s)"
      using Cond.IH(2) [of v "k + 3" s] x(2) False r'(4) code(4) Cond.prems by simp
    finally show ?thesis by (simp add: k_def q_def add.assoc add.left_commute)
  next
    case True
    have "runs mem regs pend p s (q + 3) s"
      by (rule run_then [OF start room_less [OF r'(1)]])
        (use code(1) True Cond.prems(6) in \<open>simp_all add: expression_op_def add.assoc\<close>)
    also have "runs mem regs pend (q + 3) s k (Some v # s)"
      using Cond.IH(3) [of v "q + 3" s] x(2) True r'(2) code(2) Cond.prems by (simp add: k_def)
    finally have "runs mem regs pend p s k (Some v # s)" .
    from run_then [OF this room_less [OF r'(3)]] show ?thesis
      using code(3) skip by (simp add: expression_op_def k_def q_def add.assoc add.left_commute)
  qed
qed (rule leaf_run, assumption, assumption, assumption, assumption, simp, simp)+

lemma uleb_length: "n < 2 ^ 64 \<Longrightarrow> length (uleb n) \<le> 10"
  using uleb_digits_length [of n 10] by (simp add: uleb_def)

lemma room_end: "unat p + n < 2 ^ 64 \<Longrightarrow> m \<le> n \<Longrightarrow> room p m (p + of_nat n)"
  by (simp add: room_def unat_word_ariths unat_of_nat)

lemma evaluate_compiled:
  assumes "dvalue mem regs e = Some v" "dexpr_ok e" "depth e \<le> 98" "block_at mem a (dcode e)"
  shows "evaluateExpression mem regs a initial = eh_return v"
proof -
  let ?n = "length (dcode e)" and ?u = "length (uleb (length (dcode e)))"
  have b: "holds mem a (uleb ?n)" "holds mem (a + of_nat ?u) (dcode e)" "?n < 2 ^ 64" "unat a + ?u + ?n < 2 ^ 64"
    using assms(4) by (simp_all add: block_at_def block_def)
  have "away a ?u (a + 20)" using uleb_length [OF b(3)] by (simp add: away_def)
  then have len: "getULEB128 mem a (a + 20) = eh_return (of_nat ?n, a + of_nat ?u)" by (rule getULEB128_away [OF b(1,3)])
  have "unat (a + of_nat ?u) = unat a + ?u" using b(4) by (simp add: unat_word_ariths unat_of_nat)
  then have "room (a + of_nat ?u) ?n (a + of_nat ?u + of_nat ?n)" by (intro room_end) (use b(4) in linarith)+
  then have "runs mem regs (a + of_nat ?u + of_nat ?n) (a + of_nat ?u) [Some initial, None] (a + of_nat ?u + of_nat ?n)
      (Some v # [Some initial, None])"
    using run_code [OF assms(1,2)] assms(3) b(2) by simp
  also have "\<dots> = eh_return (a + of_nat ?u + of_nat ?n, Some v # [Some initial, None])"
    by (subst expression_loop.simps) simp
  finally show ?thesis using len by (simp add: evaluateExpression_def)
qed

end
