(* ===== verification/DwarfStep.thy ===== *)
theory DwarfStep
  imports ExpressionProperties
begin

unbundle bit_operations_syntax

text \<open>
  Stepping to the caller with DWARF unwind information (\<open>libunwind/src/DwarfInstructions.hpp\<close>) on x86-64, where no
  register has a floating point or vector value. What the code does not initialize is a parameter.
\<close>

definition UNW_STEP_END :: int where "UNW_STEP_END = 0"
definition UNW_STEP_SUCCESS :: int where "UNW_STEP_SUCCESS = 1"
definition UNW_EBADREG :: int where "UNW_EBADREG = -6542"
definition UNW_EBADFRAME :: int where "UNW_EBADFRAME = -6546"

section \<open>The code\<close>

text \<open>Neither a register nor an expression for the frame address fails an assertion.\<close>

definition getCFA :: "memory \<Rightarrow> prolog_info \<Rightarrow> registers \<Rightarrow> u64 dw" where
  "getCFA mem prolog regs =
     (if cfaRegister prolog \<noteq> 0
      then eh_bind (getRegister regs (sint (cfaRegister prolog))) (\<lambda>v. eh_return (v + scast (cfaRegisterOffset prolog)))
      else if cfaExpression prolog \<noteq> 0 then evaluateExpression mem regs (cfaExpression prolog) 0
      else eh_stop Fatal)"

definition getSavedRegister :: "memory \<Rightarrow> registers \<Rightarrow> u64 \<Rightarrow> register_location \<Rightarrow> u64 dw" where
  "getSavedRegister mem regs cfaddr savedReg = (case location savedReg of
     kRegisterInCFA \<Rightarrow> eh_return (get_saved mem (cfaddr + location_value savedReg))
   | kRegisterAtExpression \<Rightarrow>
       eh_bind (evaluateExpression mem regs (location_value savedReg) cfaddr) (\<lambda>a. eh_return (get_saved mem a))
   | kRegisterIsExpression \<Rightarrow> evaluateExpression mem regs (location_value savedReg) cfaddr
   | kRegisterInRegister \<Rightarrow> getRegister regs (sint (ucast (location_value savedReg) :: u32))
   | kRegisterUndefined \<Rightarrow> eh_return 0
   | kRegisterUnused \<Rightarrow> eh_stop Fatal
   | kRegisterOffsetFromCFA \<Rightarrow> eh_stop Fatal)"

text \<open>The loop over the register numbers, with the new registers and the return address; \<open>None\<close> for a number that is no
  register.\<close>

fun restore_loop ::
  "memory \<Rightarrow> registers \<Rightarrow> u64 \<Rightarrow> saved_registers \<Rightarrow> u8 \<Rightarrow> nat list \<Rightarrow> registers \<Rightarrow> u64 \<Rightarrow> (registers \<times> u64) option dw" where
  "restore_loop mem regs cfaddr saved raReg [] newRegisters returnAddress = eh_return (Some (newRegisters, returnAddress))"
| "restore_loop mem regs cfaddr saved raReg (i # is) newRegisters returnAddress =
     (if location (saved (of_nat i)) \<noteq> kRegisterUnused
      then
        if i = unat raReg
        then eh_bind (getSavedRegister mem regs cfaddr (saved (of_nat i)))
          (restore_loop mem regs cfaddr saved raReg is newRegisters)
        else if validRegister (int i)
        then eh_bind (getSavedRegister mem regs cfaddr (saved (of_nat i))) (\<lambda>v.
          eh_bind (set_register (int i) v newRegisters) (\<lambda>newRegisters.
          restore_loop mem regs cfaddr saved raReg is newRegisters returnAddress))
        else eh_return None
      else if i = unat raReg
      then eh_bind (getRegister regs (int (unat raReg))) (restore_loop mem regs cfaddr saved raReg is newRegisters)
      else restore_loop mem regs cfaddr saved raReg is newRegisters returnAddress)"

record uninitialized =
  some_fde :: fde_info
  some_cie :: cie_info
  some_saved1 :: saved_registers
  some_saved2 :: saved_registers

text \<open>The result is the code, the registers and whether the frame is one of a signal.\<close>

definition stepWithDwarf ::
  "memory \<Rightarrow> (prolog_info list \<Rightarrow> bool) \<Rightarrow> uninitialized \<Rightarrow> u64 \<Rightarrow> u64 \<Rightarrow> registers \<Rightarrow> bool \<Rightarrow> (int \<times> registers \<times> bool) dw" where
  "stepWithDwarf mem can_allocate u pc fde regs signal =
     eh_bind (decodeFDE mem fde (some_fde u) (some_cie u)) (\<lambda>(err, fdeInfo, cieInfo).
     if err = None
     then
       eh_bind (parseFDEInstructions mem fdeInfo cieInfo pc can_allocate (some_saved1 u) (some_saved2 u) zero_prolog) (\<lambda>r.
       case r of None \<Rightarrow> eh_return (UNW_EBADFRAME, regs, signal)
       | Some prolog \<Rightarrow>
           eh_bind (getCFA mem prolog regs) (\<lambda>cfaddr.
           if lastDwarfRegNum < unat (returnAddressRegister cieInfo) then eh_stop Fatal
           else
             eh_bind (restore_loop mem regs cfaddr (savedRegisters prolog) (returnAddressRegister cieInfo)
                [0..<Suc lastDwarfRegNum] regs 0) (\<lambda>r.
             case r of None \<Rightarrow> eh_return (UNW_EBADREG, regs, signal)
             | Some (newRegisters, returnAddress) \<Rightarrow>
                 eh_return (UNW_STEP_SUCCESS, setIP returnAddress (setSP cfaddr newRegisters), isSignalFrame cieInfo))))
     else eh_return (UNW_EBADFRAME, regs, signal))"

section \<open>The caller of a row\<close>

text \<open>What the bytes of an expression evaluate to.\<close>

definition gives :: "memory \<Rightarrow> registers \<Rightarrow> u8 list \<Rightarrow> u64 \<Rightarrow> bool" where
  "gives mem regs b v \<longleftrightarrow> (\<exists>e. b = dcode e \<and> dexpr_ok e \<and> depth e \<le> 98 \<and> dvalue mem regs e = Some v)"

definition cfa_gives :: "memory \<Rightarrow> registers \<Rightarrow> cfa_rule option \<Rightarrow> u64 \<Rightarrow> bool" where
  "cfa_gives mem regs c v = (case c of
     None \<Rightarrow> False
   | Some (Cfa_register r z) \<Rightarrow> - (2 ^ 31) \<le> z \<and> z < 2 ^ 31 \<and> map_option (\<lambda>w. w + of_int z) (register_value regs r) = Some v
   | Some (Cfa_expression b) \<Rightarrow> gives mem regs b v)"

text \<open>The value of a register of the caller, where the frame address is \<open>c\<close>. An undefined value is zero; a value that is
  an offset from the frame address is not supported by the code.\<close>

definition rule_gives :: "memory \<Rightarrow> registers \<Rightarrow> u64 \<Rightarrow> reg_rule \<Rightarrow> u64 \<Rightarrow> bool" where
  "rule_gives mem regs c rule v = (case rule of
     Unspecified \<Rightarrow> False
   | Undefined_value \<Rightarrow> v = 0
   | At_offset z \<Rightarrow> v = get64 mem (c + of_int z)
   | Is_offset z \<Rightarrow> False
   | In_register m \<Rightarrow> register_value regs m = Some v
   | At_expression b \<Rightarrow> (\<exists>a. gives mem regs b a \<and> v = get64 mem a)
   | Is_expression b \<Rightarrow> gives mem regs b v)"

text \<open>A row that the code can follow on x86-64: the return address, register 16, has a rule and the registers behind it
  have none.\<close>

definition row_usable :: "memory \<Rightarrow> registers \<Rightarrow> u64 \<Rightarrow> row \<Rightarrow> bool" where
  "row_usable mem regs c r \<longleftrightarrow> cfa_gives mem regs (cfa r) c \<and> rules r 16 \<noteq> Unspecified \<and>
     (\<forall>n\<in>set [0..<17]. rules r n \<noteq> Unspecified \<longrightarrow> (\<exists>v. rule_gives mem regs c (rules r n) v)) \<and>
     (\<forall>n\<in>set [17..<33]. rules r n = Unspecified)"

definition caller :: "memory \<Rightarrow> registers \<Rightarrow> u64 \<Rightarrow> row \<Rightarrow> registers \<Rightarrow> bool" where
  "caller mem regs c r regs' \<longleftrightarrow> reg_rsp regs' = c \<and> rule_gives mem regs c (rules r 16) (reg_rip regs') \<and>
     (\<forall>n\<in>set [0..<16]. n \<noteq> 7 \<longrightarrow> (\<exists>v. register_value regs' n = Some v \<and>
       (if rules r n = Unspecified then register_value regs n = Some v else rule_gives mem regs c (rules r n) v)))"

section \<open>The step\<close>

lemma gives_value: "gives mem regs b v \<Longrightarrow> block_at mem a b \<Longrightarrow> evaluateExpression mem regs a initial = eh_return v"
  by (auto simp: gives_def intro: evaluate_compiled)

lemma cfa_value:
  assumes "cfa_shown mem prolog c" "cfa_gives mem regs c v"
  shows "getCFA mem prolog regs = eh_return v"
proof (cases c)
  case None
  then show ?thesis using assms by (simp add: cfa_gives_def)
next
  case (Some rule)
  show ?thesis
  proof (cases rule)
    case (Cfa_register r z)
    from Cfa_register Some assms(1) have shown: "reg_ok r" "r \<noteq> 0" "cfaRegister prolog = of_nat r" "cfaRegisterOffset prolog = of_int z"
      by (auto simp: cfa_shown_def)
    from Cfa_register Some assms(2) obtain w where w: "register_value regs r = Some w" "v = w + of_int z" "- (2 ^ 31) \<le> z" "z < 2 ^ 31"
      by (auto simp: cfa_gives_def)
    have "int r < 2 ^ 31" using shown(1) by simp
    then have "cfaRegister prolog \<noteq> 0" "sint (cfaRegister prolog) = int r" unfolding shown(3)
      using shown(2) by (simp_all add: of_nat_eq_0_iff signed_of_nat signed_take_bit_int_eq_self word_unat_eq_iff unsigned_of_nat take_bit_nat_eq_self)
    moreover have "scast (cfaRegisterOffset prolog) = (of_int z :: u64)" using shown(4) w(3,4) by (simp add: small_factor)
    ultimately show ?thesis using register_value_run [OF w(1)] w(2) by (simp add: getCFA_def)
  next
    case (Cfa_expression b)
    then show ?thesis using assms Some by (auto simp: cfa_shown_def cfa_gives_def getCFA_def intro: gives_value)
  qed
qed

lemma saved_value:
  assumes "location_shown mem l rule" "rule_gives mem regs c rule v"
  shows "getSavedRegister mem regs c l = eh_return v"
  using assms
  by (auto simp: location_shown_def rule_gives_def getSavedRegister_def get_saved_def gives_value ucast_of_nat_small
      signed_of_nat signed_take_bit_int_eq_self split: reg_rule.splits dest!: register_value_run)

definition restored_to ::
  "memory \<Rightarrow> registers \<Rightarrow> u64 \<Rightarrow> saved_registers \<Rightarrow> nat list \<Rightarrow> registers \<Rightarrow> u64 \<Rightarrow> registers \<times> u64 \<Rightarrow> bool" where
  "restored_to mem regs c saved is new ra = (\<lambda>(regs', ra').
     (if 16 \<in> set is then getSavedRegister mem regs c (saved 16) = eh_return ra' else ra' = ra) \<and>
     (\<forall>m\<le>15. getRegister regs' (int m) = (if m \<in> set is \<and> location (saved (of_nat m)) \<noteq> kRegisterUnused
       then getSavedRegister mem regs c (saved (of_nat m)) else getRegister new (int m))))"

lemma restored_to_unused:
  assumes "restored_to mem regs c saved is new ra x" "location (saved (of_nat i)) = kRegisterUnused" "i \<noteq> 16"
  shows "restored_to mem regs c saved (i # is) new ra x"
  using assms by (cases x) (auto simp: restored_to_def)

lemma restored_to_address:
  assumes "restored_to mem regs c saved is new v x" "getSavedRegister mem regs c (saved 16) = eh_return v" "16 \<notin> set is"
  shows "restored_to mem regs c saved (16 # is) new ra x"
  using assms by (cases x) (auto simp: restored_to_def)

lemma restored_to_register:
  assumes "restored_to mem regs c saved is new' ra x" "location (saved (of_nat i)) \<noteq> kRegisterUnused" "i \<noteq> 16" "i \<notin> set is"
    "getSavedRegister mem regs c (saved (of_nat i)) = eh_return v"
    "\<And>m. m \<le> 15 \<Longrightarrow> getRegister new' (int m) = (if m = i then eh_return v else getRegister new (int m))"
  shows "restored_to mem regs c saved (i # is) new ra x"
  using assms by (cases x) (auto simp: restored_to_def)

lemma restore_loop_result:
  assumes "distinct is" "\<And>i. i \<in> set is \<Longrightarrow> location (saved (of_nat i)) \<noteq> kRegisterUnused \<Longrightarrow>
      i \<le> 16 \<and> (\<exists>v. getSavedRegister mem regs c (saved (of_nat i)) = eh_return v)"
    "location (saved 16) \<noteq> kRegisterUnused"
  shows "\<exists>x. restore_loop mem regs c saved 16 is new ra = eh_return (Some x) \<and> restored_to mem regs c saved is new ra x"
  using assms(1,2)
proof (induction "is" arbitrary: new ra)
  case Nil
  then show ?case by (simp add: restored_to_def)
next
  case (Cons i "is")
  have IH: "\<exists>x. restore_loop mem regs c saved 16 is new ra = eh_return (Some x) \<and> restored_to mem regs c saved is new ra x" for new ra
    by (rule Cons.IH) (use Cons.prems in auto)
  show ?case
  proof (cases "location (saved (of_nat i)) = kRegisterUnused")
    case True
    then have "i \<noteq> 16" using assms(3) by auto
    from IH [of new ra] obtain x where x: "restore_loop mem regs c saved 16 is new ra = eh_return (Some x)"
      "restored_to mem regs c saved is new ra x" by blast
    have "restore_loop mem regs c saved 16 (i # is) new ra = eh_return (Some x)" using x(1) True \<open>i \<noteq> 16\<close> by simp
    then show ?thesis using restored_to_unused [OF x(2) True \<open>i \<noteq> 16\<close>] by blast
  next
    case False
    then obtain v where v: "i \<le> 16" "getSavedRegister mem regs c (saved (of_nat i)) = eh_return v" using Cons.prems(2) [of i] by auto
    show ?thesis
    proof (cases "i = 16")
      case True
      from IH [of new v] obtain x where x: "restore_loop mem regs c saved 16 is new v = eh_return (Some x)"
        "restored_to mem regs c saved is new v x" by blast
      have saved16: "getSavedRegister mem regs c (saved 16) = eh_return v" using v(2) True by simp
      have "restore_loop mem regs c saved 16 (16 # is) new ra = eh_return (Some x)" using x(1) assms(3) saved16 by simp
      moreover have "16 \<notin> set is" using Cons.prems(1) True by simp
      ultimately show ?thesis using restored_to_address [OF x(2) saved16] True by blast
    next
      case i: False
      then have valid: "validRegister (int i)" using v(1) by (simp add: valid_register)
      from set_register_valid [OF this, of v new] obtain new' where new': "set_register (int i) v new = eh_return new'" ..
      have get: "getRegister new' (int m) = (if m = i then eh_return v else getRegister new (int m))" if "m \<le> 15" for m
        using get_set_register [OF new', of "int m"] that by (auto simp: same_register_def valid_register UNW_REG_SP_def)
      from IH [of new' ra] obtain x where x: "restore_loop mem regs c saved 16 is new' ra = eh_return (Some x)"
        "restored_to mem regs c saved is new' ra x" by blast
      have "restore_loop mem regs c saved 16 (i # is) new ra = eh_return (Some x)" using x(1) False i v(2) valid new' by simp
      moreover have "i \<notin> set is" using Cons.prems(1) by simp
      ultimately show ?thesis using restored_to_register [OF x(2) False i _ v(2) get] by blast
    qed
  qed
qed

lemma unused_shown: "location_shown mem l rule \<Longrightarrow> location l = kRegisterUnused \<longleftrightarrow> rule = Unspecified"
  by (auto simp: location_shown_def split: reg_rule.splits)

lemma get_after_set: "n \<le> 15 \<Longrightarrow> n \<noteq> 7 \<Longrightarrow> getRegister (setIP v (setSP w r)) (int n) = getRegister r (int n)"
  by (simp add: getRegister_def setIP_def setSP_def UNW_REG_IP_def UNW_REG_SP_def)

lemma restored_caller:
  assumes "restored_to mem regs c saved [0..<33] regs 0 (new, ra)" "row_usable mem regs c r"
    "\<And>n. n \<le> 32 \<Longrightarrow> location_shown mem (saved (of_nat n)) (rules r n)"
  shows "caller mem regs c r (setIP ra (setSP c new))"
proof -
  note res = assms(1) [unfolded restored_to_def prod.case]
  have rule: "\<exists>v. rule_gives mem regs c (rules r n) v \<and> getSavedRegister mem regs c (saved (of_nat n)) = eh_return v"
    if "n \<le> 16" "rules r n \<noteq> Unspecified" for n
  proof -
    from assms(2) that obtain v where "rule_gives mem regs c (rules r n) v" by (fastforce simp: row_usable_def)
    then show ?thesis using saved_value [OF assms(3)] that by auto
  qed
  have "rule_gives mem regs c (rules r 16) ra"
  proof -
    from assms(2) have "rules r 16 \<noteq> Unspecified" by (simp add: row_usable_def)
    from rule [OF _ this] obtain v where v: "rule_gives mem regs c (rules r 16) v" "getSavedRegister mem regs c (saved 16) = eh_return v" by auto
    have "getSavedRegister mem regs c (saved 16) = eh_return ra" using res by simp
    with v show ?thesis by (simp add: eh_return_def)
  qed
  moreover have "\<exists>v. register_value (setIP ra (setSP c new)) n = Some v \<and>
       (if rules r n = Unspecified then register_value regs n = Some v else rule_gives mem regs c (rules r n) v)"
    if n: "n < 16" "n \<noteq> 7" for n
  proof (cases "rules r n = Unspecified")
    case True
    then have "getRegister new (int n) = getRegister regs (int n)" using res n unused_shown [OF assms(3) [of n]] by simp
    then have "register_value (setIP ra (setSP c new)) n = register_value regs n" using n by (simp add: register_value_def get_after_set)
    moreover obtain v where "getRegister regs (int n) = eh_return v" using get_register_valid [of "int n" regs] n by (auto simp: valid_register)
    ultimately show ?thesis using True by (simp add: register_value_def eh_return_def)
  next
    case False
    from rule [OF _ this] n obtain v where v: "rule_gives mem regs c (rules r n) v" "getSavedRegister mem regs c (saved (of_nat n)) = eh_return v"
      by auto
    have "getRegister new (int n) = eh_return v" using res n v(2) False unused_shown [OF assms(3) [of n]] by simp
    then have "register_value (setIP ra (setSP c new)) n = Some v" using n by (simp add: register_value_def get_after_set eh_return_def)
    then show ?thesis using v(1) False by simp
  qed
  ultimately show ?thesis by (auto simp: caller_def setIP_def setSP_def)
qed

lemma step_row:
  assumes "decodeFDE mem fde (some_fde u) (some_cie u) = eh_return (None, fdeInfo, cieInfo)" "returnAddressRegister cieInfo = 16"
    "unwind_code mem cieInfo fdeInfo ca da cis fis" "unwind_row ca da cis fis (unat (pc - pcStart fdeInfo)) = Some r"
    "row_usable mem regs c r"
  shows "\<exists>regs'. stepWithDwarf mem (\<lambda>stack. True) u pc fde regs signal =
    eh_return (UNW_STEP_SUCCESS, regs', isSignalFrame cieInfo) \<and> caller mem regs c r regs'"
proof -
  from fde_row [OF assms(3,4)] obtain info where
    info: "parseFDEInstructions mem fdeInfo cieInfo pc (\<lambda>stack. True) (some_saved1 u) (some_saved2 u) zero_prolog = eh_return (Some info)"
      "row_shown mem info r" by blast
  have shown: "location_shown mem (savedRegisters info (of_nat n)) (rules r n)" if "n \<le> 32" for n
    using info(2) that by (simp add: row_shown_def)
  have cfa: "getCFA mem info regs = eh_return c" using info(2) assms(5) by (auto simp: row_shown_def row_usable_def intro: cfa_value)
  have "\<exists>x. restore_loop mem regs c (savedRegisters info) 16 [0..<33] regs 0 = eh_return (Some x) \<and>
    restored_to mem regs c (savedRegisters info) [0..<33] regs 0 x"
  proof (rule restore_loop_result)
    fix i :: nat
    assume i: "i \<in> set [0..<33]" "location (savedRegisters info (of_nat i)) \<noteq> kRegisterUnused"
    then have "rules r i \<noteq> Unspecified" using unused_shown [OF shown [of i]] by simp
    moreover have "i \<le> 16"
    proof (rule ccontr)
      assume "\<not> i \<le> 16"
      with i(1) have "i \<in> set [17..<33]" by (subst set_upt) simp
      with assms(5) \<open>rules r i \<noteq> Unspecified\<close> show False unfolding row_usable_def by blast
    qed
    ultimately obtain v where "rule_gives mem regs c (rules r i) v" using assms(5) by (fastforce simp: row_usable_def)
    then show "i \<le> 16 \<and> (\<exists>v. getSavedRegister mem regs c (savedRegisters info (of_nat i)) = eh_return v)"
      using saved_value [OF shown [of i]] \<open>i \<le> 16\<close> by auto
  next
    show "location (savedRegisters info 16) \<noteq> kRegisterUnused"
      using unused_shown [OF shown [of 16]] assms(5) by (simp add: row_usable_def)
  qed simp
  then obtain new ra where loop: "restore_loop mem regs c (savedRegisters info) 16 [0..<33] regs 0 = eh_return (Some (new, ra))"
    "restored_to mem regs c (savedRegisters info) [0..<33] regs 0 (new, ra)" by auto
  have "[0..<Suc lastDwarfRegNum] = [0..<33]" "unat (16 :: u8) \<le> lastDwarfRegNum" by (simp_all add: lastDwarfRegNum_def)
  then have "stepWithDwarf mem (\<lambda>stack. True) u pc fde regs signal =
    eh_return (UNW_STEP_SUCCESS, setIP ra (setSP c new), isSignalFrame cieInfo)"
    using assms(1,2) info(1) cfa loop(1) by (simp add: stepWithDwarf_def del: upt_Suc)
  then show ?thesis using restored_caller [OF loop(2) assms(5) shown] by blast
qed

end
