(* ===== verification/CfiEntry.thy ===== *)
theory CfiEntry
  imports DwarfStep
begin

unbundle bit_operations_syntax

text \<open>
  The records of an unwind section as data: their bytes, and that the code reads back from the bytes what was written.
\<close>

section \<open>Encoded pointers\<close>

definition pointer_size :: "u8 \<Rightarrow> nat" where
  "pointer_size enc = (let f = enc AND 0x0F in
     if f = DW_EH_PE_udata2 \<or> f = DW_EH_PE_sdata2 then 2 else if f = DW_EH_PE_udata4 \<or> f = DW_EH_PE_sdata4 then 4 else 8)"

text \<open>A format of fixed size, absolute or relative to the place of the pointer.\<close>

definition plain_encoding :: "u8 \<Rightarrow> bool" where
  "plain_encoding enc \<longleftrightarrow> enc AND 0x0F \<in> {DW_EH_PE_absptr, DW_EH_PE_udata2, DW_EH_PE_udata4, DW_EH_PE_udata8, DW_EH_PE_sdata2,
     DW_EH_PE_sdata4, DW_EH_PE_sdata8} \<and> enc AND 0x70 \<in> {DW_EH_PE_absptr, DW_EH_PE_pcrel}"

definition pointer_distance :: "u8 \<Rightarrow> u64 \<Rightarrow> u64 \<Rightarrow> u64" where
  "pointer_distance enc a v = (if enc AND 0x70 = DW_EH_PE_pcrel then v - a else v)"

definition pointer_bytes :: "u8 \<Rightarrow> u64 \<Rightarrow> u64 \<Rightarrow> u8 list" where
  "pointer_bytes enc a v = le_bytes (pointer_size enc) (unat (pointer_distance enc a v))"

definition pointer_fits :: "u8 \<Rightarrow> u64 \<Rightarrow> u64 \<Rightarrow> bool" where
  "pointer_fits enc a v \<longleftrightarrow> (let d = pointer_distance enc a v; f = enc AND 0x0F in
     if f = DW_EH_PE_sdata2 then - (2 ^ 15) \<le> sint d \<and> sint d < 2 ^ 15
     else if f = DW_EH_PE_sdata4 then - (2 ^ 31) \<le> sint d \<and> sint d < 2 ^ 31
     else unat d < 256 ^ pointer_size enc)"

definition pointer_target :: "memory \<Rightarrow> u8 \<Rightarrow> u64 \<Rightarrow> u64" where
  "pointer_target mem enc v = (if enc AND DW_EH_PE_indirect \<noteq> 0 then getP mem v else v)"

lemma read_bytes_cut: "holds mem p (le_bytes k n) \<Longrightarrow> read_bytes mem k p = of_nat (n mod 256 ^ k)"
proof (induction k arbitrary: n p)
  case (Suc k)
  then have "read_bytes mem k (p + 1) = of_nat (n div 256 mod 256 ^ k)" by simp
  moreover have "ucast (mem p) = (of_nat (n mod 256) :: u64)" using Suc.prems by (simp add: ucast_of_nat_small)
  ultimately have "read_bytes mem (Suc k) p = of_nat (n mod 256) OR push_bit 8 (of_nat (n div 256 mod 256 ^ k))" by simp
  also have "\<dots> = of_nat (n mod 256) + push_bit 8 (of_nat (n div 256 mod 256 ^ k))" by (rule or_disjoint) simp
  also have "\<dots> = of_nat (n mod 256 + n div 256 mod 256 ^ k * 256)" by (simp only: push_bit_eq_mult of_nat_add of_nat_mult) simp
  also have "n mod 256 + n div 256 mod 256 ^ k * 256 = n mod 256 ^ Suc k" by (simp add: mod_mult2_eq mult.commute)
  finally show ?case .
qed simp

lemma signed_field:
  fixes d :: u64
  shows "- (2 ^ 15) \<le> sint d \<Longrightarrow> sint d < 2 ^ 15 \<Longrightarrow> scast (ucast d :: u16) = d"
    "- (2 ^ 31) \<le> sint d \<Longrightarrow> sint d < 2 ^ 31 \<Longrightarrow> scast (ucast d :: u32) = d"
proof -
  have "ucast (of_int z :: u64) = (of_int z :: u16)" "ucast (of_int z :: u64) = (of_int z :: u32)"
    "- (2 ^ 15) \<le> z \<Longrightarrow> z < 2 ^ 15 \<Longrightarrow> scast (of_int z :: u16) = (of_int z :: u64)"
    "- (2 ^ 31) \<le> z \<Longrightarrow> z < 2 ^ 31 \<Longrightarrow> scast (of_int z :: u32) = (of_int z :: u64)" for z
    by (simp_all add: unsigned_of_int signed_of_int signed_take_bit_int_eq_self word_of_int_eq_iff)
  from this [of "sint d"] show "- (2 ^ 15) \<le> sint d \<Longrightarrow> sint d < 2 ^ 15 \<Longrightarrow> scast (ucast d :: u16) = d"
    "- (2 ^ 31) \<le> sint d \<Longrightarrow> sint d < 2 ^ 31 \<Longrightarrow> scast (ucast d :: u32) = d" by simp_all
qed

lemma read_field:
  assumes "holds mem p (le_bytes k (unat (d :: u64)))"
  shows "k = 2 \<Longrightarrow> get16 mem p = ucast d" "k = 4 \<Longrightarrow> get32 mem p = ucast d" "k = 8 \<Longrightarrow> get64 mem p = d"
proof -
  have r: "read_bytes mem k p = of_nat (unat d mod 256 ^ k)" by (rule read_bytes_cut [OF assms])
  show "k = 2 \<Longrightarrow> get16 mem p = ucast d" "k = 4 \<Longrightarrow> get32 mem p = ucast d" "k = 8 \<Longrightarrow> get64 mem p = d"
    using r unat_64_bound [of d]
    by (simp_all add: get16_def get32_def get64_def word_unat_eq_iff unat_of_nat unsigned_ucast_eq take_bit_eq_mod unsigned_of_nat mod_mod_cancel)
qed

lemma getEncodedP_pointer:
  assumes "plain_encoding enc" "pointer_fits enc a v" "holds mem a (pointer_bytes enc a v)"
  shows "getEncodedP mem a pend enc 0 = eh_return (pointer_target mem enc v, a + of_nat (pointer_size enc))"
proof -
  define d where "d = pointer_distance enc a v"
  have bytes: "holds mem a (le_bytes (pointer_size enc) (unat d))" using assms(3) by (simp add: pointer_bytes_def d_def)
  have unsigned: "unat d < 2 ^ 16 \<Longrightarrow> ucast (ucast d :: u16) = d" "unat d < 2 ^ 32 \<Longrightarrow> ucast (ucast d :: u32) = d"
    by (simp_all add: word_unat_eq_iff unat_ucast_up unat_ucast_small)
  have "encoded_value mem a pend (enc AND 0x0F) = eh_return (d, a + of_nat (pointer_size enc))"
    using assms(1,2) unfolding plain_encoding_def
    by (auto simp: d_def [symmetric] Let_def pointer_fits_def pointer_size_def encoded_value_def getP_def dwarf_simps unsigned signed_field
        read_field [OF bytes])
  moreover have "encoded_base a (enc AND 0x70) 0 d = eh_return v"
    using assms(1) by (auto simp: plain_encoding_def encoded_base_def d_def pointer_distance_def dwarf_simps)
  ultimately show ?thesis by (simp add: getEncodedP_def pointer_target_def)
qed

section \<open>Common information entries\<close>

text \<open>The parts of an augmentation: the personality routine, the encoding of the language specific data, that of the
  locations, and the mark of a signal frame.\<close>

datatype augmentation = Personality u8 u64 | Lsda u8 | Pointers u8 | Signal_frame

fun letter :: "augmentation \<Rightarrow> u8" where
  "letter (Personality enc v) = 0x50"
| "letter (Lsda enc) = 0x4C"
| "letter (Pointers enc) = 0x52"
| "letter Signal_frame = 0x53"

fun part_bytes :: "u64 \<Rightarrow> augmentation \<Rightarrow> u8 list" where
  "part_bytes a (Personality enc v) = enc # pointer_bytes enc (a + 1) v"
| "part_bytes a (Lsda enc) = [enc]"
| "part_bytes a (Pointers enc) = [enc]"
| "part_bytes a Signal_frame = []"

fun part_size :: "augmentation \<Rightarrow> nat" where
  "part_size (Personality enc v) = 1 + pointer_size enc"
| "part_size (Lsda enc) = 1"
| "part_size (Pointers enc) = 1"
| "part_size Signal_frame = 0"

fun part_ok :: "u64 \<Rightarrow> augmentation \<Rightarrow> bool" where
  "part_ok a (Personality enc v) = (plain_encoding enc \<and> pointer_fits enc (a + 1) v)"
| "part_ok a (Lsda enc) = (enc = DW_EH_PE_omit \<or> plain_encoding enc)"
| "part_ok a (Pointers enc) = (plain_encoding enc \<and> enc AND DW_EH_PE_indirect = 0)"
| "part_ok a Signal_frame = True"

fun part_effect :: "memory \<Rightarrow> u64 \<Rightarrow> u64 \<Rightarrow> augmentation \<Rightarrow> cie_info \<Rightarrow> cie_info" where
  "part_effect mem cie a (Personality enc v) info = info\<lparr>personalityEncoding := enc,
     personalityOffsetInCIE := ucast (a + 1 - cie), cie_personality := pointer_target mem enc v\<rparr>"
| "part_effect mem cie a (Lsda enc) info = info\<lparr>lsdaEncoding := enc\<rparr>"
| "part_effect mem cie a (Pointers enc) info = info\<lparr>pointerEncoding := enc\<rparr>"
| "part_effect mem cie a Signal_frame info = info\<lparr>isSignalFrame := True\<rparr>"

fun parts_bytes :: "u64 \<Rightarrow> augmentation list \<Rightarrow> u8 list" where
  "parts_bytes a [] = []"
| "parts_bytes a (x # xs) = part_bytes a x @ parts_bytes (a + of_nat (part_size x)) xs"

fun parts_ok :: "u64 \<Rightarrow> augmentation list \<Rightarrow> bool" where
  "parts_ok a [] = True"
| "parts_ok a (x # xs) = (part_ok a x \<and> parts_ok (a + of_nat (part_size x)) xs)"

fun parts_effect :: "memory \<Rightarrow> u64 \<Rightarrow> u64 \<Rightarrow> augmentation list \<Rightarrow> cie_info \<Rightarrow> cie_info" where
  "parts_effect mem cie a [] info = info"
| "parts_effect mem cie a (x # xs) info = parts_effect mem cie (a + of_nat (part_size x)) xs (part_effect mem cie a x info)"

definition parts_size :: "augmentation list \<Rightarrow> nat" where
  "parts_size xs = sum_list (map part_size xs)"

lemma pointer_bytes_length [simp]: "length (pointer_bytes enc a v) = pointer_size enc"
  by (simp add: pointer_bytes_def)

lemma part_bytes_length [simp]: "length (part_bytes a x) = part_size x"
  by (cases x) simp_all

lemma parts_bytes_length [simp]: "length (parts_bytes a xs) = parts_size xs"
  by (induction xs arbitrary: a) (simp_all add: parts_size_def)

lemma augmentation_loop_parts:
  assumes "holds mem s (map letter xs @ [0])" "holds mem p (parts_bytes p xs)" "parts_ok p xs"
  shows "augmentation_loop mem cie cend info p s = eh_return (p + of_nat (parts_size xs), parts_effect mem cie p xs info)"
  using assms
proof (induction xs arbitrary: s p info)
  case Nil
  then show ?case by (subst augmentation_loop.simps) (simp add: get8_def parts_size_def)
next
  case (Cons x xs)
  note loop = augmentation_loop.simps [of mem cie cend info p s]
  have rest: "augmentation_loop mem cie cend info' (p + of_nat (part_size x)) (s + 1) =
    eh_return (p + of_nat (part_size x) + of_nat (parts_size xs), parts_effect mem cie (p + of_nat (part_size x)) xs info')" for info'
    by (rule Cons.IH) (use Cons.prems in simp_all)
  have step: "augmentation_loop mem cie cend info p s =
    augmentation_loop mem cie cend (part_effect mem cie p x info) (p + of_nat (part_size x)) (s + 1)"
  proof (cases x)
    case (Personality enc v)
    with Cons.prems have "getEncodedP mem (p + 1) cend enc 0 = eh_return (pointer_target mem enc v, p + 1 + of_nat (pointer_size enc))"
      by (intro getEncodedP_pointer) simp_all
    with Personality Cons.prems show ?thesis unfolding loop by (simp add: get8_def Let_def add.assoc)
  qed (use Cons.prems in \<open>simp_all add: loop get8_def Let_def\<close>)
  show ?case unfolding step rest by (simp add: parts_size_def add.assoc)
qed

record cie_entry =
  entry_version :: u8
  entry_augmentation :: "augmentation list option"
  entry_code_align :: nat
  entry_data_align :: int
  entry_return :: nat
  entry_code :: "cfi list"

text \<open>The length of a record, with the escape to 64 bits.\<close>

definition length_bytes :: "nat \<Rightarrow> u8 list" where
  "length_bytes n = (if n < 2 ^ 32 - 1 then le_bytes 4 n else le_bytes 4 (2 ^ 32 - 1) @ le_bytes 8 n)"

definition instruction_bytes :: "cfi list \<Rightarrow> u8 list" where
  "instruction_bytes is = concat (map encode is)"

definition cie_string :: "cie_entry \<Rightarrow> u8 list" where
  "cie_string e = (case entry_augmentation e of None \<Rightarrow> [] | Some xs \<Rightarrow> 0x7A # map letter xs)"

definition return_bytes :: "cie_entry \<Rightarrow> u8 list" where
  "return_bytes e = (if entry_version e = 1 then [of_nat (entry_return e)] else uleb (entry_return e))"

definition size_bytes :: "cie_entry \<Rightarrow> u8 list" where
  "size_bytes e = (case entry_augmentation e of None \<Rightarrow> [] | Some xs \<Rightarrow> uleb (parts_size xs))"

definition data_size :: "cie_entry \<Rightarrow> nat" where
  "data_size e = (case entry_augmentation e of None \<Rightarrow> 0 | Some xs \<Rightarrow> parts_size xs)"

definition front_size :: "cie_entry \<Rightarrow> nat" where
  "front_size e = 4 + 1 + length (cie_string e) + 1 + length (uleb (entry_code_align e)) + length (sleb (entry_data_align e)) +
     length (return_bytes e) + length (size_bytes e)"

definition cie_length :: "cie_entry \<Rightarrow> nat" where
  "cie_length e = front_size e + data_size e + length (instruction_bytes (entry_code e))"

definition cie_head :: "cie_entry \<Rightarrow> nat" where
  "cie_head e = length (length_bytes (cie_length e))"

text \<open>The address of the data of the augmentation and that of the instructions.\<close>

definition cie_data :: "u64 \<Rightarrow> cie_entry \<Rightarrow> u64" where
  "cie_data a e = a + of_nat (cie_head e + front_size e)"

definition cie_code :: "u64 \<Rightarrow> cie_entry \<Rightarrow> u64" where
  "cie_code a e = cie_data a e + of_nat (data_size e)"

definition data_bytes :: "u64 \<Rightarrow> cie_entry \<Rightarrow> u8 list" where
  "data_bytes a e = (case entry_augmentation e of None \<Rightarrow> [] | Some xs \<Rightarrow> parts_bytes (cie_data a e) xs)"

definition cie_bytes :: "u64 \<Rightarrow> cie_entry \<Rightarrow> u8 list" where
  "cie_bytes a e = length_bytes (cie_length e) @ le_bytes 4 0 @ [entry_version e] @ cie_string e @ [0] @
     uleb (entry_code_align e) @ sleb (entry_data_align e) @ return_bytes e @ size_bytes e @ data_bytes a e @
     instruction_bytes (entry_code e)"

definition cie_size :: "cie_entry \<Rightarrow> nat" where
  "cie_size e = cie_head e + cie_length e"

definition cie_ok :: "u64 \<Rightarrow> cie_entry \<Rightarrow> bool" where
  "cie_ok a e \<longleftrightarrow> entry_version e \<in> {1, 3} \<and> entry_code_align e < 2 ^ 32 \<and>
     - (2 ^ 31) \<le> entry_data_align e \<and> entry_data_align e < 2 ^ 31 \<and> entry_return e < 255 \<and>
     (case entry_augmentation e of None \<Rightarrow> True | Some xs \<Rightarrow> parts_ok (cie_data a e) xs) \<and>
     (\<forall>i\<in>set (entry_code e). cfi_ok (entry_code_align e) i) \<and> unat a + cie_size e < 2 ^ 64"

definition cie_at :: "memory \<Rightarrow> u64 \<Rightarrow> cie_entry \<Rightarrow> bool" where
  "cie_at mem a e \<longleftrightarrow> holds mem a (cie_bytes a e) \<and> cie_ok a e"

text \<open>What the code is to read.\<close>

definition cie_of :: "memory \<Rightarrow> u64 \<Rightarrow> cie_entry \<Rightarrow> cie_info" where
  "cie_of mem a e = (case entry_augmentation e of None \<Rightarrow> id | Some xs \<Rightarrow> parts_effect mem a (cie_data a e) xs)
     \<lparr>cieStart = a, cieLength = of_nat (cie_size e), cieInstructions = cie_code a e, pointerEncoding = 0,
      lsdaEncoding = DW_EH_PE_omit, personalityEncoding = 0, personalityOffsetInCIE = 0, cie_personality = 0,
      codeAlignFactor = of_nat (entry_code_align e), dataAlignFactor = of_int (entry_data_align e), isSignalFrame = False,
      fdesHaveAugmentationData = (entry_augmentation e \<noteq> None), returnAddressRegister = of_nat (entry_return e)\<rparr>"

lemma length_field:
  assumes "holds mem p (length_bytes n)" "n < 2 ^ 64"
  shows "cfi_length mem p = (of_nat n, p + of_nat (length (length_bytes n)))"
proof (cases "n < 2 ^ 32 - 1")
  case True
  then have "get32 mem p = of_nat n" using assms(1) by (intro read_le) (simp_all add: length_bytes_def)
  moreover have "ucast (of_nat n :: u32) = (of_nat n :: u64)" "(of_nat n :: u64) \<noteq> 0xFFFFFFFF"
    using True by (simp_all add: ucast_of_nat_small word_unat_eq_iff unsigned_of_nat take_bit_nat_eq_self)
  ultimately show ?thesis using True by (simp add: cfi_length_def Let_def length_bytes_def)
next
  case False
  then have h: "holds mem p (le_bytes 4 (2 ^ 32 - 1))" "holds mem (p + 4) (le_bytes 8 n)" using assms(1) by (simp_all add: length_bytes_def)
  have "get32 mem p = of_nat (2 ^ 32 - 1)" using h(1) by (rule read_le) simp
  moreover have "get64 mem (p + 4) = of_nat n" using read_bytes_le [of n 8 mem "p + 4"] h(2) assms(2) by (simp add: get64_def)
  ultimately show ?thesis using False by (simp add: cfi_length_def Let_def length_bytes_def add.assoc)
qed

lemma string_end_at: "holds mem p (xs @ [0]) \<Longrightarrow> 0 \<notin> set xs \<Longrightarrow> string_end mem p = eh_return (p + of_nat (length xs))"
proof (induction xs arbitrary: p)
  case (Cons x xs)
  then show ?case by (subst string_end.simps) (simp add: get8_def add.assoc)
qed (subst string_end.simps, simp add: get8_def)

lemma letter_nonzero: "0 \<notin> set (map letter xs)"
proof -
  have "letter x \<noteq> 0" for x by (cases x) simp_all
  then show ?thesis by (auto simp: eq_commute [of 0])
qed

lemma unat_offset: "unat a + k < 2 ^ 64 \<Longrightarrow> unat (a + of_nat k :: u64) = unat a + k"
  by (simp add: unat_word_ariths unat_of_nat)

lemma room_at: "k + n \<le> t \<Longrightarrow> unat a + t < 2 ^ 64 \<Longrightarrow> room (a + of_nat k) n (a + of_nat t)"
  by (simp add: room_def unat_word_ariths unat_of_nat)

lemma entry_lengths [simp]: "length (data_bytes a e) = data_size e" "length (cie_bytes a e) = cie_size e"
proof -
  show d: "length (data_bytes a e) = data_size e" by (simp add: data_bytes_def data_size_def split: option.split)
  show "length (cie_bytes a e) = cie_size e" by (simp add: cie_bytes_def cie_size_def cie_length_def cie_head_def front_size_def d)
qed

lemma parts_effect_frame:
  "parts_effect mem cie a xs (i\<lparr>cieLength := x, cieInstructions := y\<rparr>) =
    (parts_effect mem cie a xs i)\<lparr>cieLength := x, cieInstructions := y\<rparr>"
proof (induction xs arbitrary: a i)
  case (Cons p xs)
  have "part_effect mem cie a p (i\<lparr>cieLength := x, cieInstructions := y\<rparr>) =
    (part_effect mem cie a p i)\<lparr>cieLength := x, cieInstructions := y\<rparr>" by (cases p) simp_all
  then show ?case using Cons by simp
qed simp

lemma parseCIE_entry:
  assumes "cie_at mem a e"
  shows "parseCIE mem a info = eh_return (None, cie_of mem a e)"
proof -
  note ok = assms [unfolded cie_at_def, THEN conjunct2, unfolded cie_ok_def]
  let ?h = "cie_head e" and ?L = "cie_length e"
  define p0 where "p0 = a + of_nat ?h"
  define s where "s = p0 + 5"
  define q1 where "q1 = s + of_nat (length (cie_string e)) + 1"
  define q2 where "q2 = q1 + of_nat (length (uleb (entry_code_align e)))"
  define q3 where "q3 = q2 + of_nat (length (sleb (entry_data_align e)))"
  define q4 where "q4 = q3 + of_nat (length (return_bytes e))"
  define cend where "cend = a + of_nat (?h + ?L)"
  note pos = p0_def s_def q1_def q2_def q3_def q4_def
  have data: "q4 + of_nat (length (size_bytes e)) = cie_data a e" by (simp add: pos cie_data_def front_size_def add.assoc)
  have h: "holds mem a (length_bytes ?L)" "holds mem p0 (le_bytes 4 0)" "mem (p0 + 4) = entry_version e" "holds mem s (cie_string e @ [0])"
    "holds mem q1 (uleb (entry_code_align e))" "holds mem q2 (sleb (entry_data_align e))" "holds mem q3 (return_bytes e)"
    "holds mem q4 (size_bytes e)" "holds mem (cie_data a e) (data_bytes a e)"
    using assms unfolding cie_at_def cie_bytes_def data [symmetric] by (simp_all add: pos cie_head_def add.assoc)
  have total: "unat a + (?h + ?L) < 2 ^ 64" using ok by (simp add: cie_size_def)
  have room: "room q1 (length (uleb (entry_code_align e))) cend" "room q2 (length (sleb (entry_data_align e))) cend"
    "room q3 (length (return_bytes e)) cend" "room q4 (length (size_bytes e)) cend"
    using room_at [OF _ total, of "?h + 6 + length (cie_string e)"]
      room_at [OF _ total, of "?h + 6 + length (cie_string e) + length (uleb (entry_code_align e))"]
      room_at [OF _ total, of "?h + 6 + length (cie_string e) + length (uleb (entry_code_align e)) + length (sleb (entry_data_align e))"]
      room_at [OF _ total, of "?h + 6 + length (cie_string e) + length (uleb (entry_code_align e)) + length (sleb (entry_data_align e)) +
        length (return_bytes e)"]
    by (simp_all add: pos cend_def cie_length_def front_size_def add.assoc)
  have len: "cfi_length mem a = (of_nat ?L, p0)" using length_field [OF h(1)] total by (simp add: p0_def cie_head_def)
  have "0 < ?L" "?L < 2 ^ 64" using total by (simp_all add: cie_length_def front_size_def)
  then have L: "of_nat ?L \<noteq> (0 :: u64)" by (simp add: word_unat_eq_iff unsigned_of_nat take_bit_nat_eq_self)
  have cend: "p0 + of_nat ?L = cend" by (simp add: p0_def cend_def)
  have id: "get32 mem p0 = 0" using read_le(3) [OF h(2)] by simp
  have version: "get8 mem (p0 + 4) = entry_version e" "entry_version e = 1 \<or> entry_version e = 3" using h(3) ok by (simp_all add: get8_def)
  have "0 \<notin> set (cie_string e)" using letter_nonzero by (auto simp: cie_string_def split: option.splits)
  then have str: "string_end mem s = eh_return (q1 - 1)" using string_end_at [OF h(4)] by (simp add: q1_def)
  have code: "getULEB128 mem q1 cend = eh_return (of_nat (entry_code_align e), q2)"
    using getULEB128_uleb [OF h(5) _ room(1)] ok by (simp add: q2_def)
  have data_align: "getSLEB128 mem q2 cend = eh_return (of_int (entry_data_align e), q3)"
    using getSLEB128_sleb [OF h(6) _ _ room(2)] ok by (simp add: q3_def)
  have ret: "(if entry_version e = 1 then eh_return (ucast (get8 mem q3), q3 + 1) else getULEB128 mem q3 cend) =
    eh_return (of_nat (entry_return e) :: u64, q4)"
  proof (cases "entry_version e = 1")
    case True
    then show ?thesis using h(7) ok by (simp add: return_bytes_def get8_def q4_def ucast_of_nat_small)
  next
    case False
    then show ?thesis using getULEB128_uleb [of mem q3 "entry_return e" cend] h(7) room(3) ok by (simp add: return_bytes_def q4_def)
  qed
  have aug: "(if get8 mem s = 0x7A then eh_bind (getULEB128 mem q4 cend) (\<lambda>(_, p). augmentation_loop mem a cend i p s)
      else eh_return (q4, i)) = eh_return (cie_code a e, case entry_augmentation e of None \<Rightarrow> i
        | Some xs \<Rightarrow> parts_effect mem a (cie_data a e) xs (i\<lparr>fdesHaveAugmentationData := True\<rparr>))" for i
  proof (cases "entry_augmentation e")
    case None
    then show ?thesis using h(4) data by (simp add: cie_string_def get8_def cie_code_def size_bytes_def data_size_def)
  next
    case (Some xs)
    then have "parts_size xs < 2 ^ 64" using \<open>?L < 2 ^ 64\<close> by (simp add: cie_length_def data_size_def)
    then have "getULEB128 mem q4 cend = eh_return (of_nat (parts_size xs), cie_data a e)"
      using getULEB128_uleb [of mem q4 "parts_size xs" cend] h(8) room(4) Some data by (simp add: size_bytes_def)
    moreover have "augmentation_loop mem a cend j (cie_data a e) (s + 1) =
      eh_return (cie_data a e + of_nat (parts_size xs), parts_effect mem a (cie_data a e) xs j)" for j
      by (rule augmentation_loop_parts) (use h(4,9) ok Some in \<open>simp_all add: cie_string_def data_bytes_def\<close>)
    moreover have "augmentation_loop mem a cend i (cie_data a e) s =
      augmentation_loop mem a cend (i\<lparr>fdesHaveAugmentationData := True\<rparr>) (cie_data a e) (s + 1)"
      using h(4) Some by (subst augmentation_loop.simps) (simp add: get8_def cie_string_def)
    ultimately show ?thesis using h(4) Some by (simp add: cie_string_def get8_def cie_code_def data_size_def)
  qed
  have ra: "(of_nat (entry_return e) :: u64) < 255" "ucast (of_nat (entry_return e) :: u64) = (of_nat (entry_return e) :: u8)"
    using ok by (simp_all add: word_less_nat_alt unsigned_of_nat take_bit_nat_eq_self ucast_of_nat_small)
  have casts: "ucast (of_nat (entry_code_align e) :: u64) = (of_nat (entry_code_align e) :: u32)"
    "ucast (of_int (entry_data_align e) :: u64) = (of_int (entry_data_align e) :: u32)"
    using ok narrow_int [of "entry_data_align e" 1] by (simp_all add: ucast_of_nat_small)
  have sums: "q1 - 1 + 1 = q1" "p0 + 4 + 1 = s" by (simp_all add: s_def add.assoc)
  have v: "\<not> (entry_version e \<noteq> 1 \<and> entry_version e \<noteq> 3)" "\<not> (0 :: u32) \<noteq> 0" using version(2) by simp_all
  have "parseCIE mem a info = eh_return (None,
      (case entry_augmentation e of None \<Rightarrow> \<lambda>i. i | Some xs \<Rightarrow> \<lambda>i. parts_effect mem a (cie_data a e) xs (i\<lparr>fdesHaveAugmentationData := True\<rparr>))
        (reset_cie a info\<lparr>codeAlignFactor := of_nat (entry_code_align e), dataAlignFactor := of_int (entry_data_align e),
          returnAddressRegister := of_nat (entry_return e)\<rparr>)\<lparr>cieLength := cend - a, cieInstructions := cie_code a e\<rparr>)"
    by (simp only: parseCIE_def Let_def len prod.case L if_False cend id v version(1) sums str eh_bind_simps code data_align ret ra
        not_True_eq_False if_True aug casts case_prod_conv split: option.split) simp
  also have "\<dots> = eh_return (None, cie_of mem a e)"
    by (cases info) (simp add: reset_cie_def cie_of_def cend_def cie_size_def parts_effect_frame [symmetric] split: option.split)
  finally show ?thesis .
qed

section \<open>Frame description entries\<close>

record fde_entry =
  desc_start :: u64
  desc_range :: u64
  desc_lsda :: "u64 option"
  desc_code :: "cfi list"

fun pointers_part :: "u8 \<Rightarrow> augmentation \<Rightarrow> u8" where
  "pointers_part d (Pointers enc) = enc"
| "pointers_part d x = d"

fun lsda_part :: "u8 \<Rightarrow> augmentation \<Rightarrow> u8" where
  "lsda_part d (Lsda enc) = enc"
| "lsda_part d x = d"

text \<open>The encodings that an entry gives to the pointers of its descriptions.\<close>

definition location_encoding :: "cie_entry \<Rightarrow> u8" where
  "location_encoding e = (case entry_augmentation e of None \<Rightarrow> 0 | Some xs \<Rightarrow> foldl pointers_part 0 xs)"

definition area_encoding :: "cie_entry \<Rightarrow> u8" where
  "area_encoding e = (case entry_augmentation e of None \<Rightarrow> DW_EH_PE_omit | Some xs \<Rightarrow> foldl lsda_part DW_EH_PE_omit xs)"

definition area_size :: "cie_entry \<Rightarrow> nat" where
  "area_size e = (if area_encoding e = DW_EH_PE_omit then 0 else pointer_size (area_encoding e))"

definition area_size_bytes :: "cie_entry \<Rightarrow> u8 list" where
  "area_size_bytes e = (if entry_augmentation e = None then [] else uleb (area_size e))"

definition fde_length :: "cie_entry \<Rightarrow> fde_entry \<Rightarrow> nat" where
  "fde_length e d = 4 + 2 * pointer_size (location_encoding e) + length (area_size_bytes e) + area_size e +
     length (instruction_bytes (desc_code d))"

definition fde_head :: "cie_entry \<Rightarrow> fde_entry \<Rightarrow> nat" where
  "fde_head e d = length (length_bytes (fde_length e d))"

definition fde_size :: "cie_entry \<Rightarrow> fde_entry \<Rightarrow> nat" where
  "fde_size e d = fde_head e d + fde_length e d"

text \<open>The addresses of the pointer to the entry, the end of the range, the area pointer and the instructions.\<close>

definition fde_id :: "cie_entry \<Rightarrow> u64 \<Rightarrow> fde_entry \<Rightarrow> u64" where
  "fde_id e a d = a + of_nat (fde_head e d)"

definition fde_behind :: "cie_entry \<Rightarrow> u64 \<Rightarrow> fde_entry \<Rightarrow> u64" where
  "fde_behind e a d = fde_id e a d + 4 + of_nat (2 * pointer_size (location_encoding e))"

definition fde_area :: "cie_entry \<Rightarrow> u64 \<Rightarrow> fde_entry \<Rightarrow> u64" where
  "fde_area e a d = fde_behind e a d + of_nat (length (area_size_bytes e))"

definition fde_code :: "cie_entry \<Rightarrow> u64 \<Rightarrow> fde_entry \<Rightarrow> u64" where
  "fde_code e a d = fde_area e a d + of_nat (area_size e)"

definition area_bytes :: "cie_entry \<Rightarrow> u64 \<Rightarrow> fde_entry \<Rightarrow> u8 list" where
  "area_bytes e a d = (if area_encoding e = DW_EH_PE_omit then [] else case desc_lsda d of
     None \<Rightarrow> le_bytes (pointer_size (area_encoding e)) 0
   | Some v \<Rightarrow> pointer_bytes (area_encoding e) (fde_area e a d) v)"

definition fde_bytes :: "u64 \<Rightarrow> cie_entry \<Rightarrow> u64 \<Rightarrow> fde_entry \<Rightarrow> u8 list" where
  "fde_bytes c e a d = length_bytes (fde_length e d) @ le_bytes 4 (unat (fde_id e a d - c)) @
     pointer_bytes (location_encoding e) (fde_id e a d + 4) (desc_start d) @
     le_bytes (pointer_size (location_encoding e)) (unat (desc_range d)) @
     area_size_bytes e @ area_bytes e a d @ instruction_bytes (desc_code d)"

definition fde_ok :: "u64 \<Rightarrow> cie_entry \<Rightarrow> u64 \<Rightarrow> fde_entry \<Rightarrow> bool" where
  "fde_ok c e a d \<longleftrightarrow> fde_id e a d \<noteq> c \<and> unat (fde_id e a d - c) < 2 ^ 32 \<and>
     pointer_fits (location_encoding e) (fde_id e a d + 4) (desc_start d) \<and>
     pointer_fits (location_encoding e AND 0x0F) 0 (desc_range d) \<and>
     (case desc_lsda d of None \<Rightarrow> True | Some v \<Rightarrow> area_encoding e \<noteq> DW_EH_PE_omit \<and>
        pointer_fits (area_encoding e) (fde_area e a d) v \<and> pointer_distance (area_encoding e) (fde_area e a d) v \<noteq> 0) \<and>
     (\<forall>i\<in>set (desc_code d). cfi_ok (entry_code_align e) i) \<and> unat a + fde_size e d < 2 ^ 64"

definition fde_at :: "memory \<Rightarrow> u64 \<Rightarrow> cie_entry \<Rightarrow> u64 \<Rightarrow> fde_entry \<Rightarrow> bool" where
  "fde_at mem c e a d \<longleftrightarrow> holds mem a (fde_bytes c e a d) \<and> fde_ok c e a d \<and> cie_at mem c e"

definition fde_of :: "memory \<Rightarrow> cie_entry \<Rightarrow> u64 \<Rightarrow> fde_entry \<Rightarrow> fde_info" where
  "fde_of mem e a d = \<lparr>fdeStart = a, fdeLength = of_nat (fde_size e d), fdeInstructions = fde_code e a d, pcStart = desc_start d,
     pcEnd = desc_start d + desc_range d,
     fde_lsda = (case desc_lsda d of None \<Rightarrow> 0 | Some v \<Rightarrow> pointer_target mem (area_encoding e) v)\<rparr>"

text \<open>What the effects of the parts leave in the record.\<close>

lemma parts_fields:
  "pointerEncoding (parts_effect mem cie a xs i) = foldl pointers_part (pointerEncoding i) xs"
  "lsdaEncoding (parts_effect mem cie a xs i) = foldl lsda_part (lsdaEncoding i) xs"
  "fdesHaveAugmentationData (parts_effect mem cie a xs i) = fdesHaveAugmentationData i"
  "cieStart (parts_effect mem cie a xs i) = cieStart i" "cieLength (parts_effect mem cie a xs i) = cieLength i"
  "cieInstructions (parts_effect mem cie a xs i) = cieInstructions i" "codeAlignFactor (parts_effect mem cie a xs i) = codeAlignFactor i"
  "dataAlignFactor (parts_effect mem cie a xs i) = dataAlignFactor i"
  "returnAddressRegister (parts_effect mem cie a xs i) = returnAddressRegister i"
  "isSignalFrame (parts_effect mem cie a xs i) = (isSignalFrame i \<or> Signal_frame \<in> set xs)"
proof (induction xs arbitrary: a i)
  case (Cons x xs)
  case 1 then show ?case using Cons by (cases x) simp_all
  case 2 then show ?case using Cons by (cases x) simp_all
  case 3 then show ?case using Cons by (cases x) simp_all
  case 4 then show ?case using Cons by (cases x) simp_all
  case 5 then show ?case using Cons by (cases x) simp_all
  case 6 then show ?case using Cons by (cases x) simp_all
  case 7 then show ?case using Cons by (cases x) simp_all
  case 8 then show ?case using Cons by (cases x) simp_all
  case 9 then show ?case using Cons by (cases x) simp_all
  case 10 then show ?case using Cons by (cases x) simp_all
qed simp_all

lemma cie_fields:
  "pointerEncoding (cie_of mem c e) = location_encoding e" "lsdaEncoding (cie_of mem c e) = area_encoding e"
  "fdesHaveAugmentationData (cie_of mem c e) = (entry_augmentation e \<noteq> None)" "cieStart (cie_of mem c e) = c"
  "cieLength (cie_of mem c e) = of_nat (cie_size e)" "cieInstructions (cie_of mem c e) = cie_code c e"
  "codeAlignFactor (cie_of mem c e) = of_nat (entry_code_align e)" "dataAlignFactor (cie_of mem c e) = of_int (entry_data_align e)"
  "returnAddressRegister (cie_of mem c e) = of_nat (entry_return e)"
  "isSignalFrame (cie_of mem c e) = (case entry_augmentation e of None \<Rightarrow> False | Some xs \<Rightarrow> Signal_frame \<in> set xs)"
  by (simp_all add: cie_of_def location_encoding_def area_encoding_def parts_fields split: option.split)

lemma location_plain:
  assumes "cie_at mem c e"
  shows "plain_encoding (location_encoding e)" "location_encoding e AND DW_EH_PE_indirect = 0"
    "area_encoding e = DW_EH_PE_omit \<or> plain_encoding (area_encoding e)"
proof -
  define good fine where "good enc \<longleftrightarrow> plain_encoding enc \<and> enc AND DW_EH_PE_indirect = 0"
    "fine enc \<longleftrightarrow> enc = DW_EH_PE_omit \<or> plain_encoding enc" for enc
  note defs = good_fine_def
  have good: "parts_ok a xs \<Longrightarrow> good enc \<Longrightarrow> good (foldl pointers_part enc xs)" for a xs enc
  proof (induction xs arbitrary: a enc)
    case (Cons x xs)
    then show ?case by (cases x) (auto simp: defs)
  qed simp
  have fine: "parts_ok a xs \<Longrightarrow> fine enc \<Longrightarrow> fine (foldl lsda_part enc xs)" for a xs enc
  proof (induction xs arbitrary: a enc)
    case (Cons x xs)
    then show ?case by (cases x) (auto simp: defs)
  qed simp
  have start: "good 0" "fine DW_EH_PE_omit" by (simp_all add: defs plain_encoding_def dwarf_simps)
  have "case entry_augmentation e of None \<Rightarrow> True | Some xs \<Rightarrow> parts_ok (cie_data c e) xs" using assms by (simp add: cie_at_def cie_ok_def)
  then have "good (location_encoding e) \<and> fine (area_encoding e)"
    using good [OF _ start(1)] fine [OF _ start(2)] start by (auto simp: location_encoding_def area_encoding_def split: option.splits)
  then show "plain_encoding (location_encoding e)" "location_encoding e AND DW_EH_PE_indirect = 0"
    "area_encoding e = DW_EH_PE_omit \<or> plain_encoding (area_encoding e)" by (auto simp: defs)
qed

lemma format_only:
  "plain_encoding enc \<Longrightarrow> plain_encoding (enc AND 0x0F)" "pointer_size (enc AND 0x0F) = pointer_size enc"
  "pointer_distance (enc AND 0x0F) a v = v" "(enc AND 0x0F) AND DW_EH_PE_indirect = 0"
  "pointer_fits (enc AND 0x0F) b (pointer_distance enc a v) = pointer_fits enc a v"
  by (simp_all add: plain_encoding_def pointer_size_def pointer_distance_def pointer_fits_def dwarf_simps and.assoc Let_def)

lemma raw_pointer:
  assumes "plain_encoding enc" "pointer_fits (enc AND 0x0F) 0 v" "holds mem a (le_bytes (pointer_size enc) (unat v))"
  shows "getEncodedP mem a pend (enc AND 0x0F) 0 = eh_return (v, a + of_nat (pointer_size enc))"
proof -
  have "pointer_fits (enc AND 0x0F) a v" using assms(2) format_only(5) [of enc _ a v] by (simp add: pointer_fits_def format_only)
  then show ?thesis using getEncodedP_pointer [of "enc AND 0x0F" a v mem pend] assms(1,3)
    by (simp add: format_only pointer_bytes_def pointer_target_def)
qed

text \<open>The parts of a description, as \<open>decodeFDE\<close> and \<open>findFDE\<close> read them.\<close>

lemma fde_parts:
  assumes "fde_at mem c e a d"
  shows "cfi_length mem a = (of_nat (fde_length e d), fde_id e a d)" "(of_nat (fde_length e d) :: u64) \<noteq> 0"
    "get32 mem (fde_id e a d) \<noteq> 0" "fde_id e a d - ucast (get32 mem (fde_id e a d)) = c"
    "fde_range mem pend (cie_of mem c e) (fde_id e a d + 4) =
       eh_return (desc_start d, desc_range d, fde_behind e a d)"
    "fde_augmentation mem (fde_id e a d + of_nat (fde_length e d)) (cie_of mem c e) (fde_behind e a d) =
       eh_return (case desc_lsda d of None \<Rightarrow> 0 | Some v \<Rightarrow> pointer_target mem (area_encoding e) v, fde_code e a d)"
proof -
  let ?L = "fde_length e d" and ?k = "pointer_size (location_encoding e)" and ?p0 = "fde_id e a d" and ?enc = "location_encoding e"
    and ?area = "area_encoding e"
  define q where "q = fde_behind e a d"
  then have q_def: "q = ?p0 + 4 + of_nat (2 * ?k)" and q_behind: "fde_behind e a d = q" by (simp_all add: fde_behind_def)
  have ok: "fde_ok c e a d" "cie_at mem c e" using assms by (simp_all add: fde_at_def)
  note enc = location_plain [OF ok(2)]
  have total: "unat a + (fde_head e d + ?L) < 2 ^ 64" using ok(1) by (simp add: fde_ok_def fde_size_def)
  have h: "holds mem a (length_bytes ?L)" "holds mem ?p0 (le_bytes 4 (unat (?p0 - c)))"
    "holds mem (?p0 + 4) (pointer_bytes ?enc (?p0 + 4) (desc_start d))"
    "holds mem (?p0 + 4 + of_nat ?k) (le_bytes ?k (unat (desc_range d)))" "holds mem q (area_size_bytes e)"
    "holds mem (fde_area e a d) (area_bytes e a d)"
    using assms unfolding fde_at_def fde_bytes_def by (simp_all add: q_def q_behind fde_id_def fde_head_def fde_area_def add.assoc)
  show "cfi_length mem a = (of_nat ?L, ?p0)" using length_field [OF h(1)] total by (simp add: fde_id_def fde_head_def)
  have "0 < ?L" "?L < 2 ^ 64" using total by (simp_all add: fde_length_def)
  then show "(of_nat ?L :: u64) \<noteq> 0" by (simp add: word_unat_eq_iff unsigned_of_nat take_bit_nat_eq_self)
  have "get32 mem ?p0 = ucast (?p0 - c)" by (rule read_field(2) [OF h(2)]) simp
  moreover have "ucast (ucast (?p0 - c) :: u32) = ?p0 - c" using ok(1)
    by (simp add: fde_ok_def word_unat_eq_iff unat_ucast_up unat_ucast_small)
  ultimately show "get32 mem ?p0 \<noteq> 0" "?p0 - ucast (get32 mem ?p0) = c" using ok(1) by (auto simp: fde_ok_def)
  show "fde_range mem pend (cie_of mem c e) (?p0 + 4) = eh_return (desc_start d, desc_range d, fde_behind e a d)"
    using getEncodedP_pointer [OF enc(1) _ h(3), of pend] raw_pointer [OF enc(1) _ h(4), of pend] ok(1) enc(2)
    by (simp add: fde_range_def cie_fields fde_ok_def pointer_target_def fde_behind_def add.assoc)
  have q: "q + of_nat (length (area_size_bytes e)) = fde_area e a d" by (simp add: q_behind fde_area_def)
  have "fde_augmentation mem (?p0 + of_nat ?L) (cie_of mem c e) q =
    eh_return (case desc_lsda d of None \<Rightarrow> 0 | Some v \<Rightarrow> pointer_target mem ?area v, fde_code e a d)"
  proof (cases "entry_augmentation e")
    case None
    then show ?thesis using q ok(1)
      by (auto simp: fde_augmentation_def cie_fields fde_ok_def fde_code_def area_size_def area_encoding_def area_size_bytes_def split: option.split)
  next
    case (Some xs)
    have room: "room q (length (area_size_bytes e)) (?p0 + of_nat ?L)"
      using room_at [OF _ total, of "fde_head e d + 4 + 2 * ?k"] by (simp add: q_def fde_id_def fde_length_def add.assoc)
    have "area_size e < 2 ^ 64" using \<open>?L < 2 ^ 64\<close> by (simp add: fde_length_def)
    then have size: "getULEB128 mem q (?p0 + of_nat ?L) = eh_return (of_nat (area_size e), fde_area e a d)"
      using getULEB128_uleb [of mem q "area_size e" "?p0 + of_nat ?L"] h(5) room q Some by (simp add: area_size_bytes_def)
    show ?thesis
    proof (cases "?area = DW_EH_PE_omit")
      case True
      then show ?thesis using Some size ok(1)
        by (auto simp: fde_augmentation_def cie_fields fde_ok_def fde_code_def area_size_def split: option.split)
    next
      case False
      with enc(3) have plain: "plain_encoding ?area" by simp
      define v where "v = (case desc_lsda d of None \<Rightarrow> 0 | Some v \<Rightarrow> pointer_distance ?area (fde_area e a d) v)"
      have "pointer_fits (?area AND 0x0F) 0 v" "holds mem (fde_area e a d) (le_bytes (pointer_size ?area) (unat v))"
        using h(6) ok(1) False
        by (auto simp: v_def area_bytes_def fde_ok_def pointer_bytes_def pointer_fits_def format_only Let_def split: option.splits)
      from raw_pointer [OF plain this, of "?p0 + of_nat ?L"] have peek: "getEncodedP mem (fde_area e a d) (?p0 + of_nat ?L) (?area AND 0x0F) 0 =
        eh_return (v, fde_area e a d + of_nat (pointer_size ?area))" .
      show ?thesis
      proof (cases "desc_lsda d")
        case None
        then show ?thesis using Some False size peek
          by (simp add: fde_augmentation_def cie_fields v_def fde_code_def area_size_def Let_def)
      next
        case (Some w)
        then have "getEncodedP mem (fde_area e a d) (?p0 + of_nat ?L) ?area 0 =
          eh_return (pointer_target mem ?area w, fde_area e a d + of_nat (pointer_size ?area))"
          using plain ok(1) h(6) False by (intro getEncodedP_pointer) (simp_all add: fde_ok_def area_bytes_def)
        then show ?thesis using Some False size peek ok(1) \<open>entry_augmentation e = Some xs\<close>
          by (simp add: fde_augmentation_def cie_fields v_def fde_code_def area_size_def Let_def fde_ok_def)
      qed
    qed
  qed
  then show "fde_augmentation mem (?p0 + of_nat ?L) (cie_of mem c e) (fde_behind e a d) =
    eh_return (case desc_lsda d of None \<Rightarrow> 0 | Some v \<Rightarrow> pointer_target mem ?area v, fde_code e a d)" by (simp add: q_behind)
qed

lemma decodeFDE_entry:
  assumes "fde_at mem c e a d"
  shows "decodeFDE mem a fdeInfo cieInfo = eh_return (None, fde_of mem e a d, cie_of mem c e)"
proof -
  have "fde_id e a d + of_nat (fde_length e d) - a = of_nat (fde_size e d)" by (simp add: fde_id_def fde_size_def)
  moreover have "parseCIE mem c cieInfo = eh_return (None, cie_of mem c e)" using assms by (intro parseCIE_entry) (simp add: fde_at_def)
  ultimately show ?thesis by (simp add: decodeFDE_def Let_def fde_parts [OF assms] fde_of_def)
qed

section \<open>Sections\<close>

datatype cfi_record = Common cie_entry | Description u64 cie_entry fde_entry

fun record_size :: "cfi_record \<Rightarrow> nat" where
  "record_size (Common e) = cie_size e"
| "record_size (Description c e d) = fde_size e d"

text \<open>Records from \<open>a\<close> to the end of the section or to a length of zero; the entries of the descriptions are in the section.\<close>

fun section_at :: "memory \<Rightarrow> u64 \<Rightarrow> u64 \<Rightarrow> u64 \<Rightarrow> cfi_record list \<Rightarrow> bool" where
  "section_at mem start stop a [] = (stop \<le> a \<or> get32 mem a = 0)"
| "section_at mem start stop a (r # rs) = (a < stop \<and>
     (case r of Common e \<Rightarrow> cie_at mem a e | Description c e d \<Rightarrow> start \<le> c \<and> c < stop \<and> fde_at mem c e a d) \<and>
     section_at mem start stop (a + of_nat (record_size r)) rs)"

definition covers :: "fde_entry \<Rightarrow> u64 \<Rightarrow> bool" where
  "covers d pc \<longleftrightarrow> desc_start d < pc \<and> pc \<le> desc_start d + desc_range d"

text \<open>The first description that covers a location, with its entry and their addresses.\<close>

fun description_for :: "u64 \<Rightarrow> u64 \<Rightarrow> cfi_record list \<Rightarrow> (u64 \<times> cie_entry \<times> u64 \<times> fde_entry) option" where
  "description_for pc a [] = None"
| "description_for pc a (Common e # rs) = description_for pc (a + of_nat (cie_size e)) rs"
| "description_for pc a (Description c e d # rs) =
     (if covers d pc then Some (c, e, a, d) else description_for pc (a + of_nat (fde_size e d)) rs)"

lemma cie_parts:
  assumes "cie_at mem a e"
  shows "cfi_length mem a = (of_nat (cie_length e), a + of_nat (cie_head e))" "(of_nat (cie_length e) :: u64) \<noteq> 0"
    "get32 mem (a + of_nat (cie_head e)) = 0" "a + of_nat (cie_head e) + of_nat (cie_length e) = a + of_nat (cie_size e)"
proof -
  have h: "holds mem a (length_bytes (cie_length e))" "holds mem (a + of_nat (cie_head e)) (le_bytes 4 0)"
    using assms unfolding cie_at_def cie_bytes_def by (simp_all add: cie_head_def)
  have "cie_length e < 2 ^ 64" "0 < cie_length e" using assms
    by (simp_all add: cie_at_def cie_ok_def cie_size_def cie_length_def front_size_def)
  then show "cfi_length mem a = (of_nat (cie_length e), a + of_nat (cie_head e))" "(of_nat (cie_length e) :: u64) \<noteq> 0"
    using length_field [OF h(1)] by (simp_all add: cie_head_def word_unat_eq_iff unsigned_of_nat take_bit_nat_eq_self)
  show "get32 mem (a + of_nat (cie_head e)) = 0" using read_le(3) [OF h(2)] by simp
  show "a + of_nat (cie_head e) + of_nat (cie_length e) = a + of_nat (cie_size e)" by (simp add: cie_size_def)
qed

lemma findFDE_loop_first:
  assumes "section_at mem start stop a rs"
  shows "\<exists>ci. findFDE_loop mem pc start stop fdeInfo cieInfo a = eh_return (case description_for pc a rs of
    None \<Rightarrow> (False, fdeInfo, ci) | Some (c, e, a', d) \<Rightarrow> (True, fde_of mem e a' d, cie_of mem c e))"
  using assms
proof (induction rs arbitrary: a cieInfo)
  case Nil
  then show ?case by (subst findFDE_loop.simps) (auto simp: cfi_length_def not_less)
next
  case (Cons r rs)
  note loop = findFDE_loop.simps [of mem pc start stop fdeInfo cieInfo a]
  have rest: "section_at mem start stop (a + of_nat (record_size r)) rs" "a < stop" using Cons.prems by simp_all
  note IH = Cons.IH [OF rest(1)]
  show ?case
  proof (cases r)
    case (Common e)
    with Cons.prems have e: "cie_at mem a e" by simp
    have "findFDE_loop mem pc start stop fdeInfo cieInfo a = findFDE_loop mem pc start stop fdeInfo cieInfo (a + of_nat (cie_size e))"
      unfolding loop by (simp add: rest(2) cie_parts [OF e] Let_def)
    then show ?thesis using IH [of cieInfo] Common by simp
  next
    case (Description c e d)
    with Cons.prems have d: "fde_at mem c e a d" "start \<le> c" "c < stop" by simp_all
    then have "cie_at mem c e" by (simp add: fde_at_def)
    have behind: "fde_id e a d + of_nat (fde_length e d) - a = of_nat (fde_size e d)"
      "fde_id e a d + of_nat (fde_length e d) = a + of_nat (fde_size e d)" by (simp_all add: fde_id_def fde_size_def)
    show ?thesis
    proof (cases "covers d pc")
      case True
      have "findFDE_loop mem pc start stop fdeInfo cieInfo a = eh_return (True, fde_of mem e a d, cie_of mem c e)"
        using d True unfolding loop covers_def
        by (simp add: rest(2) fde_parts [OF d(1)] Let_def parseCIE_entry [OF \<open>cie_at mem c e\<close>] fde_of_def behind(1))
      then show ?thesis using True Description by simp
    next
      case False
      have "findFDE_loop mem pc start stop fdeInfo cieInfo a =
        findFDE_loop mem pc start stop fdeInfo (cie_of mem c e) (a + of_nat (fde_size e d))"
        using d False unfolding loop covers_def
        by (auto simp: rest(2) fde_parts [OF d(1)] Let_def parseCIE_entry [OF \<open>cie_at mem c e\<close>] behind(2))
      then show ?thesis using False IH [of "cie_of mem c e"] Description by simp
    qed
  qed
qed

text \<open>The instructions of a description, as the code runs them.\<close>

lemma entry_unwind_code:
  assumes "fde_at mem c e a d" "\<forall>i\<in>set (entry_code e). restored i = None"
    "\<forall>i\<in>set (desc_code d). case restored i of None \<Rightarrow> True | Some r \<Rightarrow> r \<notin> touched (entry_code e)"
    "span (entry_code_align e) (desc_code d) < 2 ^ 64"
  shows "unwind_code mem (cie_of mem c e) (fde_of mem e a d) (entry_code_align e) (entry_data_align e) (entry_code e) (desc_code d)"
proof -
  have e: "cie_at mem c e" using assms(1) by (simp add: fde_at_def)
  have code: "cie_code c e = c + of_nat (cie_head e + front_size e + data_size e)"
    "fde_code e a d = a + of_nat (fde_head e d + 4 + 2 * pointer_size (location_encoding e) + length (area_size_bytes e) + area_size e)"
    by (simp_all add: cie_code_def cie_data_def fde_code_def fde_area_def fde_behind_def fde_id_def add.assoc)
  have area: "length (area_bytes e a d) = area_size e" using assms(1)
    by (auto simp: area_bytes_def area_size_def fde_at_def fde_ok_def split: option.splits)
  have holds: "holds mem (cie_code c e) (instruction_bytes (entry_code e))" "holds mem (fde_code e a d) (instruction_bytes (desc_code d))"
    unfolding code using assms(1) e unfolding cie_at_def cie_bytes_def fde_at_def fde_bytes_def
    by (simp_all add: cie_head_def front_size_def fde_head_def area add.assoc)
  have ends: "unat (cie_code c e) + length (instruction_bytes (entry_code e)) = unat (c + of_nat (cie_size e))"
    "unat (fde_code e a d) + length (instruction_bytes (desc_code d)) = unat (a + of_nat (fde_size e d))"
    unfolding code using assms(1) e
    by (simp_all only: fde_at_def fde_ok_def cie_at_def cie_ok_def unat_offset cie_size_def cie_length_def fde_size_def fde_length_def)
      (simp_all add: unat_offset del: of_nat_add)
  have "\<forall>i\<in>set (entry_code e @ desc_code d). cfi_ok (entry_code_align e) i" using assms(1) e by (auto simp: fde_at_def fde_ok_def cie_at_def cie_ok_def)
  then show ?thesis using holds ends assms(2-4) e
    by (simp add: unwind_code_def code_at_def cie_fields fde_of_def instruction_bytes_def cie_at_def cie_ok_def)
qed

end
