(* ===== verification/CfiSafety.thy ===== *)
theory CfiSafety
  imports CfiProperties
begin

unbundle bit_operations_syntax

text \<open>
  Instructions from any memory, well-formed or not, access register locations only inside their array. The arrays of
  the model are functions on all numbers, so an access outside would read or write a value behind the last register:
  a run does not depend on these values and leaves them as they are.
\<close>

section \<open>Values behind the array\<close>

definition with_outside :: "saved_registers \<Rightarrow> saved_registers \<Rightarrow> saved_registers" where
  "with_outside g regs = (\<lambda>reg. if kMaxRegisterNumber < reg then g reg else regs reg)"

definition outside :: "saved_registers \<Rightarrow> prolog_info \<Rightarrow> prolog_info" where
  "outside g info = info\<lparr>savedRegisters := with_outside g (savedRegisters info)\<rparr>"

definition alter :: "saved_registers \<Rightarrow> saved_registers \<Rightarrow> cfi_state \<Rightarrow> cfi_state" where
  "alter g h st = st\<lparr>results := outside g (results st), rememberStack := map (outside g) (rememberStack st),
     initialState := with_outside h (initialState st)\<rparr>"

lemma outside_fields [simp]:
  "(outside g i)\<lparr>sameValueUsed := b\<rparr> = outside g (i\<lparr>sameValueUsed := b\<rparr>)"
  "(outside g i)\<lparr>registersInOtherRegisters := b\<rparr> = outside g (i\<lparr>registersInOtherRegisters := b\<rparr>)"
  "(outside g i)\<lparr>cfaRegister := r\<rparr> = outside g (i\<lparr>cfaRegister := r\<rparr>)"
  "(outside g i)\<lparr>cfaRegisterOffset := r\<rparr> = outside g (i\<lparr>cfaRegisterOffset := r\<rparr>)"
  "(outside g i)\<lparr>cfaExpression := a\<rparr> = outside g (i\<lparr>cfaExpression := a\<rparr>)"
  "(outside g i)\<lparr>codeOffsetAtStackDecrement := r\<rparr> = outside g (i\<lparr>codeOffsetAtStackDecrement := r\<rparr>)"
  "(outside g i)\<lparr>spExtraArgSize := r\<rparr> = outside g (i\<lparr>spExtraArgSize := r\<rparr>)"
  by (simp_all add: outside_def)

lemma alter_fields [simp]:
  "cfi_p (alter g h st) = cfi_p st" "codeOffset (alter g h st) = codeOffset st" "results (alter g h st) = outside g (results st)"
  "rememberStack (alter g h st) = map (outside g) (rememberStack st)"
  "(alter g h st)\<lparr>cfi_p := p\<rparr> = alter g h (st\<lparr>cfi_p := p\<rparr>)" "(alter g h st)\<lparr>codeOffset := n\<rparr> = alter g h (st\<lparr>codeOffset := n\<rparr>)"
  "(alter g h st)\<lparr>results := outside g i\<rparr> = alter g h (st\<lparr>results := i\<rparr>)"
  "(alter g h st)\<lparr>rememberStack := outside g i # map (outside g) is\<rparr> = alter g h (st\<lparr>rememberStack := i # is\<rparr>)"
  "(alter g h st)\<lparr>rememberStack := map (outside g) is\<rparr> = alter g h (st\<lparr>rememberStack := is\<rparr>)"
  by (simp_all add: alter_def)

lemma alter_registers [simp]:
  assumes "\<not> kMaxRegisterNumber < reg"
  shows "setRegister reg l v (alter g h st) = alter g h (setRegister reg l v st)"
    "setRegisterLocation reg l (alter g h st) = alter g h (setRegisterLocation reg l st)"
    "restoreRegisterToInitialState reg (alter g h st) = alter g h (restoreRegisterToInitialState reg st)"
  using assms
  by (auto simp: setRegister_def setRegisterLocation_def checkSaveRegister_def restoreRegisterToInitialState_def Let_def alter_def
      outside_def with_outside_def fun_eq_iff)

section \<open>Runs\<close>

definition map_dw :: "('a \<Rightarrow> 'b) \<Rightarrow> 'a option dw \<Rightarrow> 'b option dw" where
  "map_dw f m = eh_bind m (\<lambda>r. eh_return (map_option f r))"

lemma map_dw_simps [simp]:
  "map_dw f (eh_return r) = eh_return (map_option f r)" "map_dw f (eh_stop e) = eh_stop e"
  "map_dw f (if b then m else m') = (if b then map_dw f m else map_dw f m')"
  "map_dw f (eh_bind n k) = eh_bind n (\<lambda>x. map_dw f (k x))"
  "map_dw f (case z of (x, y) \<Rightarrow> j x y) = (case z of (x, y) \<Rightarrow> map_dw f (j x y))"
  "map_dw f (case q of None \<Rightarrow> m | Some w \<Rightarrow> k' w) = (case q of None \<Rightarrow> map_dw f m | Some w \<Rightarrow> map_dw f (k' w))"
  by (auto simp: map_dw_def eh_bind_def eh_return_def eh_stop_def split: Option.bind_splits sum.splits prod.splits option.splits)

lemma skip_alter [simp]: "skip_expression mem iend (alter g h st) = map_dw (alter g h) (skip_expression mem iend st)"
  by (simp add: skip_expression_def cong: if_cong)

lemma instruction_alter:
  "cfi_instruction mem cie iend (\<lambda>s. c (length s)) opcode (alter g h st) =
     map_dw (alter g h) (cfi_instruction mem cie iend (\<lambda>s. c (length s)) opcode st)"
  unfolding cfi_instruction_def Let_def
  by (simp cong: if_cong split del: if_split) (simp split: list.split)

lemma loop_alter:
  assumes "parse_loop mem cie iend pcoffset (\<lambda>s. c (length s)) st = Some r"
  shows "parse_loop mem cie iend pcoffset (\<lambda>s. c (length s)) (alter g h st) = map_dw (alter g h) (Some r)"
  using assms
proof (rule parse_loop.raw_induct [where P = "\<lambda>mem cie iend pcoffset ca st r. ca = (\<lambda>s. c (length s)) \<longrightarrow>
    parse_loop mem cie iend pcoffset ca (alter g h st) = map_dw (alter g h) (Some r)", rule_format, rotated])
  fix loop mem cie iend pcoffset ca st r
  assume IH: "\<And>mem cie iend pcoffset ca st r. loop mem cie iend pcoffset ca st = Some r \<Longrightarrow> ca = (\<lambda>s. c (length s)) \<Longrightarrow>
      parse_loop mem cie iend pcoffset ca (alter g h st) = map_dw (alter g h) (Some r)"
    and body: "(if cfi_p st < iend \<and> codeOffset st < pcoffset
      then eh_bind (cfi_instruction mem cie iend ca (get8 mem (cfi_p st)) (st\<lparr>cfi_p := cfi_p st + 1\<rparr>)) (\<lambda>r.
        case r of None \<Rightarrow> eh_return None | Some st \<Rightarrow> loop mem cie iend pcoffset ca st)
      else eh_return (Some st)) = Some r" and ca: "ca = (\<lambda>s. c (length s))"
  let ?loop = "parse_loop mem cie iend pcoffset ca"
  show "?loop (alter g h st) = map_dw (alter g h) (Some r)"
  proof (cases "cfi_p st < iend \<and> codeOffset st < pcoffset")
    case False
    then have "Some r = eh_return (Some st)" using body by (auto simp: eh_return_def)
    then have "map_dw (alter g h) (Some r) = eh_return (Some (alter g h st))" by (simp only: map_dw_simps option.map)
    moreover have "?loop (alter g h st) = eh_return (Some (alter g h st))"
      using False by (subst parse_loop.simps, subst if_not_P) simp_all
    ultimately show ?thesis by simp
  next
    case True
    let ?i = "cfi_instruction mem cie iend ca (get8 mem (cfi_p st)) (st\<lparr>cfi_p := cfi_p st + 1\<rparr>)"
    have step: "?loop (alter g h st) = eh_bind (map_dw (alter g h) ?i) (\<lambda>r. case r of None \<Rightarrow> eh_return None | Some st \<Rightarrow> ?loop st)"
      using True unfolding ca by (subst parse_loop.simps) (simp add: instruction_alter)
    have run: "eh_bind ?i (\<lambda>r. case r of None \<Rightarrow> eh_return None | Some st \<Rightarrow> loop mem cie iend pcoffset ca st) = Some r"
      using body True by (simp only: simp_thms if_True)
    show ?thesis
    proof (cases ?i)
      case None
      then show ?thesis using run by simp
    next
      case (Some x)
      show ?thesis
      proof (cases x)
        case (Inl e)
        then show ?thesis using Some run step by (auto simp: map_dw_def)
      next
        case (Inr y)
        show ?thesis
        proof (cases y)
          case None
          then have "r = Inr None" using Some Inr run by (simp add: eh_return_def)
          then show ?thesis using Some Inr None step by (simp add: map_dw_def eh_return_def)
        next
          case y: (Some st2)
          then have "loop mem cie iend pcoffset ca st2 = Some r" using Some Inr run by simp
          from IH [OF this ca] show ?thesis using Some Inr y step by (simp add: map_dw_def)
        qed
      qed
    qed
  qed
qed simp

lemma with_outside_back [simp]: "with_outside regs regs = regs" "with_outside regs (with_outside g regs) = regs"
  "with_outside g (with_outside g' regs) = with_outside g regs"
  by (auto simp: with_outside_def)

lemma outside_back [simp]: "outside (savedRegisters i) i = i" "outside (savedRegisters i) (outside g i) = i" "outside g (outside g' i) = outside g i"
  by (simp_all add: outside_def)

text \<open>A run of the instructions of one record from a list of remembered states with the same values behind their arrays.\<close>

definition parsed :: "saved_registers \<Rightarrow> (prolog_info list \<times> prolog_info) \<Rightarrow> prolog_info list \<times> prolog_info" where
  "parsed g = map_prod (map (outside g)) (outside g)"

lemma instructions_alter:
  assumes "parseInstructions mem p iend cie pcoffset (\<lambda>s. c (length s)) uninit stack info = Some r"
  shows "parseInstructions mem p iend cie pcoffset (\<lambda>s. c (length s)) (with_outside h uninit) (map (outside g) stack) (outside g info) =
    map_dw (parsed g) (Some r)"
proof -
  let ?st = "\<lparr>cfi_p = p, codeOffset = 0, rememberStack = stack, results = info, initialState = uninit\<rparr>"
  have st: "\<lparr>cfi_p = p, codeOffset = 0, rememberStack = map (outside g) stack, results = outside g info, initialState = with_outside h uninit\<rparr> =
    alter g h ?st" by (simp add: alter_def)
  from assms obtain q where "parse_loop mem cie iend pcoffset (\<lambda>s. c (length s)) ?st = Some q"
    "eh_bind (Some q) (\<lambda>r. eh_return (map_option (\<lambda>st. (rememberStack st, results st)) r)) = Some r"
    by (cases "parse_loop mem cie iend pcoffset (\<lambda>s. c (length s)) ?st") (auto simp: parseInstructions_def)
  then show ?thesis
    unfolding parseInstructions_def st using loop_alter [of mem cie iend pcoffset c ?st q g h]
    by (cases q) (auto simp: map_dw_def parsed_def eh_return_def option.map_comp comp_def)
qed

lemma fde_instructions_alter:
  assumes "parseFDEInstructions mem fde cie pc (\<lambda>s. c (length s)) saved1 saved2 info = Some r"
  shows "parseFDEInstructions mem fde cie pc (\<lambda>s. c (length s)) (with_outside h1 saved1) (with_outside h2 saved2) (outside g info) =
    map_dw (outside g) (Some r)"
proof -
  let ?first = "parseInstructions mem (cieInstructions cie) (cieStart cie + cieLength cie) cie (- 1) (\<lambda>s. c (length s)) saved1 [] info"
  from assms obtain q where q: "?first = Some q" by (cases ?first) (auto simp: parseFDEInstructions_def)
  note first = instructions_alter [OF q, of h1 g, simplified]
  show ?thesis
  proof (cases q)
    case (Inl e)
    then show ?thesis using assms q first by (auto simp: parseFDEInstructions_def map_dw_def)
  next
    case (Inr y)
    show ?thesis
    proof (cases y)
      case None
      then show ?thesis using assms q first Inr by (auto simp: parseFDEInstructions_def map_dw_def eh_return_def)
    next
      case (Some z)
      obtain stack info1 where z: "z = (stack, info1)" by (cases z)
      let ?second = "\<lambda>saved stack info. parseInstructions mem (fdeInstructions fde) (fdeStart fde + fdeLength fde) cie (pc - pcStart fde)
        (\<lambda>s. c (length s)) saved stack info"
      have run: "eh_bind (?second saved2 stack info1) (\<lambda>r. eh_return (map_option snd r)) = Some r"
        using assms q Inr Some z by (simp add: parseFDEInstructions_def)
      then obtain q2 where q2: "?second saved2 stack info1 = Some q2" by (cases "?second saved2 stack info1") auto
      have "parseFDEInstructions mem fde cie pc (\<lambda>s. c (length s)) (with_outside h1 saved1) (with_outside h2 saved2) (outside g info) =
        eh_bind (?second (with_outside h2 saved2) (map (outside g) stack) (outside g info1)) (\<lambda>r. eh_return (map_option snd r))"
        using first Inr Some z by (simp add: parseFDEInstructions_def map_dw_def parsed_def)
      also have "\<dots> = map_dw (outside g) (Some r)"
        unfolding instructions_alter [OF q2, of h2 g] using run q2
        by (cases q2) (auto simp: map_dw_def parsed_def eh_return_def option.map_comp comp_def)
      finally show ?thesis .
    qed
  qed
qed

lemma fde_instructions_inside:
  "parseFDEInstructions mem fde cie pc (\<lambda>s. c (length s)) (with_outside h1 saved1) (with_outside h2 saved2) (outside g info) =
    map_dw (outside g) (parseFDEInstructions mem fde cie pc (\<lambda>s. c (length s)) saved1 saved2 info)" (is "?run' = map_dw _ ?run")
proof (cases ?run)
  case None
  have "?run' = None"
  proof (rule ccontr)
    assume "?run' \<noteq> None"
    then obtain r where "?run' = Some r" by blast
    from fde_instructions_alter [OF this, of saved1 saved2 "savedRegisters info"] None show False
      by (cases r) (simp_all add: map_dw_def eh_return_def)
  qed
  then show ?thesis using None by (simp add: map_dw_def)
next
  case (Some r)
  then show ?thesis using fde_instructions_alter by simp
qed

end
