(* ===== verification/DwarfProperties.thy ===== *)
theory DwarfProperties
  imports CfiEntry CfiSafety
begin

unbundle bit_operations_syntax

text \<open>
  What the DWARF unwinder guarantees: records and numbers are read as they were written, a location finds the first
  description that covers it, the instructions compute the row of the table of the standard, expressions compute their
  values and a step restores the registers of the caller.
\<close>

section \<open>A sample section\<close>

definition bytes_at :: "u64 \<Rightarrow> u8 list \<Rightarrow> memory" where
  "bytes_at base bs a = (let n = unat (a - base) in if n < length bs then bs ! n else 0)"

lemma holds_nth: "(\<And>i. i < length bs \<Longrightarrow> mem (p + of_nat i) = bs ! i) \<Longrightarrow> holds mem p bs"
proof (induction bs arbitrary: p)
  case (Cons b bs)
  have "mem (p + 1 + of_nat i) = bs ! i" if "i < length bs" for i
    using Cons.prems [of "Suc i"] that by (simp add: add.assoc)
  then show ?case using Cons.IH [of "p + 1"] Cons.prems [of 0] by simp
qed simp

lemma holds_bytes_at: "length bs \<le> 2 ^ 64 \<Longrightarrow> holds (bytes_at base bs) base bs"
  by (rule holds_nth) (simp add: bytes_at_def unsigned_of_nat take_bit_nat_eq_self)

text \<open>A function at \<open>0x5000\<close> of 32 bytes that pushes and then uses a frame pointer, register 6.\<close>

definition sample_cie :: cie_entry where
  "sample_cie = \<lparr>entry_version = 1, entry_augmentation = Some [Lsda 0x1B, Pointers 0x1B], entry_code_align = 1, entry_data_align = - 8,
     entry_return = 16, entry_code = [Def_cfa 7 8, Offset 16 1]\<rparr>"

definition sample_fde :: fde_entry where
  "sample_fde = \<lparr>desc_start = 0x5000, desc_range = 0x20, desc_lsda = Some 0x4000,
     desc_code = [Advance_loc 1, Def_cfa_offset 16, Offset 6 2, Advance_loc 3, Def_cfa_register 6]\<rparr>"

definition sample_memory :: memory where
  "sample_memory = bytes_at 0x1000 (cie_bytes 0x1000 sample_cie @ fde_bytes 0x1000 sample_cie 0x1018 sample_fde)"

lemmas entry_sizes = cie_size_def cie_head_def cie_length_def front_size_def length_bytes_def instruction_bytes_def cie_string_def
  return_bytes_def size_bytes_def data_size_def parts_size_def fde_size_def fde_head_def fde_length_def area_size_bytes_def
  area_size_def pointer_size_def area_encoding_def location_encoding_def uleb_def sleb_def uleb_digits.simps sleb_digits.simps

lemma sample_sizes: "cie_size sample_cie = 24" "fde_size sample_cie sample_fde = 29"
  by (simp_all add: entry_sizes sample_cie_def sample_fde_def dwarf_simps)

lemma sample_addresses: "cie_data 0x1000 sample_cie = 0x1011" "fde_id sample_cie 0x1018 sample_fde = 0x101C"
    "fde_area sample_cie 0x1018 sample_fde = 0x1029" "area_encoding sample_cie = 0x1B" "location_encoding sample_cie = 0x1B"
  by (simp_all add: entry_sizes sample_cie_def sample_fde_def cie_data_def fde_id_def fde_area_def fde_behind_def dwarf_simps)

lemma sample_cie_ok: "cie_ok 0x1000 sample_cie"
  unfolding cie_ok_def sample_sizes sample_addresses
  by (simp add: sample_cie_def plain_encoding_def dwarf_simps)

lemma sample_fde_ok: "fde_ok 0x1000 sample_cie 0x1018 sample_fde"
  unfolding fde_ok_def sample_sizes sample_addresses
  by (simp add: sample_cie_def sample_fde_def pointer_fits_def pointer_distance_def pointer_size_def dwarf_simps)

lemma sample_at: "cie_at sample_memory 0x1000 sample_cie" "fde_at sample_memory 0x1000 sample_cie 0x1018 sample_fde"
proof -
  have fde_length: "length (fde_bytes 0x1000 sample_cie 0x1018 sample_fde) = 29"
    by (simp add: fde_bytes_def area_bytes_def sample_addresses entry_sizes sample_cie_def sample_fde_def dwarf_simps pointer_bytes_def)
  have "holds sample_memory 0x1000 (cie_bytes 0x1000 sample_cie @ fde_bytes 0x1000 sample_cie 0x1018 sample_fde)"
    unfolding sample_memory_def by (rule holds_bytes_at) (simp add: sample_sizes fde_length)
  then show "cie_at sample_memory 0x1000 sample_cie" "fde_at sample_memory 0x1000 sample_cie 0x1018 sample_fde"
    using sample_cie_ok sample_fde_ok by (simp_all add: cie_at_def fde_at_def sample_sizes)
qed

text \<open>The row of a description: the table of its entry and its instructions.\<close>

definition fde_row_at :: "cie_entry \<Rightarrow> fde_entry \<Rightarrow> u64 \<Rightarrow> row option" where
  "fde_row_at e d pc = unwind_row (entry_code_align e) (entry_data_align e) (entry_code e) (desc_code d) (unat (pc - desc_start d))"

text \<open>The entry restores no register and the description none that the entry gives a rule; the locations do not wrap.\<close>

definition restores_fresh :: "cie_entry \<Rightarrow> fde_entry \<Rightarrow> bool" where
  "restores_fresh e d \<longleftrightarrow> (\<forall>i\<in>set (entry_code e). restored i = None) \<and>
     (\<forall>i\<in>set (desc_code d). case restored i of None \<Rightarrow> True | Some r \<Rightarrow> r \<notin> touched (entry_code e)) \<and>
     span (entry_code_align e) (desc_code d) < 2 ^ 64"

lemma entry_code_at:
  "fde_at mem c e a d \<Longrightarrow> restores_fresh e d \<Longrightarrow>
    unwind_code mem (cie_of mem c e) (fde_of mem e a d) (entry_code_align e) (entry_data_align e) (entry_code e) (desc_code d)"
  unfolding restores_fresh_def by (elim conjE) (rule entry_unwind_code)

lemma fde_start: "pcStart (fde_of mem e a d) = desc_start d"
  by (simp add: fde_of_def)

definition sample_row :: row where
  "sample_row = \<lparr>cfa = Some (Cfa_register 6 16), rules = (\<lambda>r. Unspecified)(16 := At_offset (- 8), 6 := At_offset (- 16))\<rparr>"

lemma sample_fresh: "restores_fresh sample_cie sample_fde"
  by (simp add: restores_fresh_def sample_cie_def sample_fde_def)

lemma sample_row_at: "fde_row_at sample_cie sample_fde 0x5010 = Some sample_row"
  by (simp add: fde_row_at_def unwind_row_def sample_cie_def sample_fde_def sample_row_def no_row_def)

section \<open>Records\<close>

text \<open>C25. A frame description and the entry that it refers to, written at any addresses in 32 or 64 bits with pointers of any
  supported encoding, are read back by \<open>decodeFDE\<close> without an error, whatever was in the structures before.\<close>

theorem records_round_trip:
  assumes "fde_at mem c e a d"
  shows "decodeFDE mem a fdeInfo cieInfo = eh_return (None, fde_of mem e a d, cie_of mem c e)"
  by (rule decodeFDE_entry [OF assms])

theorem records_round_trip_witness:
  "\<forall>fdeInfo cieInfo. decodeFDE sample_memory 0x1018 fdeInfo cieInfo =
    eh_return (None, fde_of sample_memory sample_cie 0x1018 sample_fde, cie_of sample_memory 0x1000 sample_cie)"
  using records_round_trip [OF sample_at(2)] by simp

text \<open>The scan of a section finds the first description that covers the location, from its beginning or from a hint at
  one of its records, and passes entries and other descriptions; it ends at the end of the section or at a length of zero.\<close>

lemma findFDE_first:
  assumes "section_at mem start stop (if hint = 0 then start else hint) rs" "stop - start \<noteq> - 1"
  shows "\<exists>ci. findFDE mem pc start (stop - start) hint fdeInfo cieInfo =
    eh_return (case description_for pc (if hint = 0 then start else hint) rs of
      None \<Rightarrow> (False, fdeInfo, ci) | Some (c, e, a, d) \<Rightarrow> (True, fde_of mem e a d, cie_of mem c e))"
proof -
  have "(if stop - start = - 1 then - 1 else start + (stop - start)) = stop" using assms(2) by simp
  then have "findFDE mem pc start (stop - start) hint fdeInfo cieInfo =
    findFDE_loop mem pc start stop fdeInfo cieInfo (if hint = 0 then start else hint)" unfolding findFDE_def Let_def by simp
  then show ?thesis using findFDE_loop_first [OF assms(1), of pc fdeInfo cieInfo] by simp
qed

lemma sample_section:
  "section_at sample_memory 0x1000 0x1035 0x1000 [Common sample_cie, Description 0x1000 sample_cie sample_fde]"
  using sample_at by (simp add: sample_sizes)

lemma findFDE_first_witness:
  "\<forall>fdeInfo cieInfo. findFDE sample_memory 0x5010 0x1000 0x35 0 fdeInfo cieInfo =
    eh_return (True, fde_of sample_memory sample_cie 0x1018 sample_fde, cie_of sample_memory 0x1000 sample_cie)"
proof (intro allI)
  fix fdeInfo cieInfo
  have "covers sample_fde 0x5010" by (simp add: covers_def sample_fde_def)
  then show "findFDE sample_memory 0x5010 0x1000 0x35 0 fdeInfo cieInfo =
    eh_return (True, fde_of sample_memory sample_cie 0x1018 sample_fde, cie_of sample_memory 0x1000 sample_cie)"
    using findFDE_first [where mem = sample_memory and start = "0x1000" and stop = "0x1035" and hint = 0 and pc = "0x5010"
        and rs = "[Common sample_cie, Description 0x1000 sample_cie sample_fde]"] sample_section by (simp add: sample_sizes)
qed

section \<open>Rows\<close>

text \<open>C23. The instructions of an entry and of a description, with remembered states, restored registers, expressions and
  all forms of advance, leave in \<open>PrologInfo\<close> the row that the table of the DWARF standard has for the location. Three
  uses, which the code gets wrong, are excluded: \<open>DW_CFA_set_loc\<close>, restoring a register that the entry gives a rule
  (\<open>restores_fresh\<close>), and register 0 as the register of the frame address. Locations do not wrap around.\<close>

theorem instructions_compute_row:
  assumes "fde_at mem c e a d" "restores_fresh e d" "fde_row_at e d pc = Some r"
  shows "\<exists>info. parseFDEInstructions mem (fde_of mem e a d) (cie_of mem c e) pc (\<lambda>stack. True) saved1 saved2 zero_prolog =
    eh_return (Some info) \<and> row_shown mem info r"
  using fde_row [OF entry_code_at [OF assms(1,2)]] assms(3) unfolding fde_row_at_def fde_start by blast

theorem instructions_compute_row_witness:
  "\<forall>saved. \<exists>info. parseFDEInstructions sample_memory (fde_of sample_memory sample_cie 0x1018 sample_fde)
      (cie_of sample_memory 0x1000 sample_cie) 0x5010 (\<lambda>stack. True) saved saved zero_prolog = eh_return (Some info) \<and>
    cfaRegister info = 6 \<and> cfaRegisterOffset info = 16"
proof
  fix saved
  from instructions_compute_row [OF sample_at(2) sample_fresh sample_row_at, of saved saved]
  show "\<exists>info. parseFDEInstructions sample_memory (fde_of sample_memory sample_cie 0x1018 sample_fde)
      (cie_of sample_memory 0x1000 sample_cie) 0x5010 (\<lambda>stack. True) saved saved zero_prolog = eh_return (Some info) \<and>
    cfaRegister info = 6 \<and> cfaRegisterOffset info = 16"
    by (auto simp: row_shown_def sample_row_def cfa_shown_def)
qed

text \<open>C26. Whatever bytes the instructions are and however their run ends, with a result, a refusal, an abort or not at all,
  it neither reads nor writes a register location outside the array of 33: values behind the arrays, of the results, of
  remembered states and of the uninitialized initial states, make no difference and stay as they were. Only the number of
  remembered states decides whether another one can be allocated.\<close>

theorem rules_in_array:
  "parseFDEInstructions mem fde cie pc (\<lambda>stack. can_allocate (length stack)) (with_outside h1 saved1) (with_outside h2 saved2) (outside g info) =
    map_dw (outside g) (parseFDEInstructions mem fde cie pc (\<lambda>stack. can_allocate (length stack)) saved1 saved2 info)"
  by (rule fde_instructions_inside)

section \<open>Expressions\<close>

text \<open>C24. The stack machine of \<open>evaluateExpression\<close> computes the value of an expression from the code compiled from it,
  for expressions that fit its stack: arithmetic, register and memory reads and choices by conditional jumps.\<close>

theorem expression_machine:
  assumes "dvalue mem regs e = Some v" "dexpr_ok e" "depth e \<le> 98" "block_at mem a (dcode e)"
  shows "evaluateExpression mem regs a initial = eh_return v"
  by (rule evaluate_compiled [OF assms])

definition sample_registers :: registers where
  "sample_registers = \<lparr>reg_rax = 0, reg_rbx = 1, reg_rcx = 2, reg_rdx = 3, reg_rdi = 4, reg_rsi = 5, reg_rbp = 0x7000, reg_rsp = 0x6F00,
     reg_r8 = 8, reg_r9 = 9, reg_r10 = 10, reg_r11 = 11, reg_r12 = 12, reg_r13 = 13, reg_r14 = 14, reg_r15 = 15, reg_rip = 0x5010,
     reg_rflags = 0, reg_cs = 0, reg_fs = 0, reg_gs = 0\<rparr>"

text \<open>The expression of the entries of a procedure linkage table: eight more if the location is past the push.\<close>

definition plt_expression :: dexpr where
  "plt_expression = Binary Add (Based 7 8) (Cond (Binary And (Reg 8) (Small 15)) (Small 8) (Small 0))"

theorem expression_machine_witness:
  "\<exists>mem. evaluateExpression mem sample_registers 0x2000 0 = eh_return 0x6F10"
proof -
  let ?mem = "bytes_at 0x2000 (block (dcode plt_expression))"
  have "length (dcode plt_expression) < 127" by (simp add: plt_expression_def sleb_def sleb_digits.simps uleb_def uleb_digits.simps)
  then have "length (block (dcode plt_expression)) < 128" "length (dcode plt_expression) < 127"
    by (simp_all add: block_def uleb_def uleb_digits.simps)
  then have "block_at ?mem 0x2000 (dcode plt_expression)"
    using holds_bytes_at [of "block (dcode plt_expression)" "0x2000"] by (simp add: block_at_def)
  moreover have "dvalue ?mem sample_registers plt_expression = Some 0x6F10"
    by (simp add: plt_expression_def register_value_def getRegister_def sample_registers_def UNW_REG_IP_def UNW_REG_SP_def eh_return_def)
  ultimately have "evaluateExpression ?mem sample_registers 0x2000 0 = eh_return 0x6F10"
    by (intro expression_machine [of ?mem sample_registers plt_expression]) (simp_all add: plt_expression_def)
  then show ?thesis by blast
qed

section \<open>Steps\<close>

text \<open>C22. A step of the unwinder from a location whose row has values gives the registers of the caller: the stack pointer
  is the canonical frame address, the instruction pointer the return address, and every other register has the value of
  its rule or is unchanged if it has none. The records are as in C23, without the three uses excluded there, the
  return address is register 16, and no rule is an offset from the frame address itself or for a register behind it.\<close>

theorem step_restores_caller:
  assumes "fde_at mem c e a d" "restores_fresh e d" "fde_row_at e d pc = Some r" "entry_return e = 16"
    "row_usable mem regs frame r"
  shows "\<exists>regs'. stepWithDwarf mem (\<lambda>stack. True) u pc a regs signal =
    eh_return (UNW_STEP_SUCCESS, regs', isSignalFrame (cie_of mem c e)) \<and> caller mem regs frame r regs'"
proof (rule step_row)
  show "decodeFDE mem a (some_fde u) (some_cie u) = eh_return (None, fde_of mem e a d, cie_of mem c e)"
    by (rule decodeFDE_entry [OF assms(1)])
  show "returnAddressRegister (cie_of mem c e) = 16" using assms(4) by (simp add: cie_fields)
  show "unwind_row (entry_code_align e) (entry_data_align e) (entry_code e) (desc_code d) (unat (pc - pcStart (fde_of mem e a d))) = Some r"
    using assms(3) by (simp add: fde_row_at_def fde_start)
qed (rule entry_code_at [OF assms(1,2)], rule assms(5))

lemma sample_usable: "row_usable sample_memory sample_registers 0x7010 sample_row"
  by (simp add: row_usable_def sample_row_def cfa_gives_def register_value_def getRegister_def sample_registers_def rule_gives_def
      UNW_REG_IP_def UNW_REG_SP_def eh_return_def)

theorem step_restores_caller_witness:
  "\<forall>u. \<exists>regs'. stepWithDwarf sample_memory (\<lambda>stack. True) u 0x5010 0x1018 sample_registers False =
    eh_return (UNW_STEP_SUCCESS, regs', False) \<and> caller sample_memory sample_registers 0x7010 sample_row regs'"
proof
  fix u
  have "entry_return sample_cie = 16" "\<not> isSignalFrame (cie_of sample_memory 0x1000 sample_cie)"
    by (simp_all add: sample_cie_def cie_fields)
  with step_restores_caller [OF sample_at(2) sample_fresh sample_row_at _ sample_usable, of u False]
  show "\<exists>regs'. stepWithDwarf sample_memory (\<lambda>stack. True) u 0x5010 0x1018 sample_registers False =
    eh_return (UNW_STEP_SUCCESS, regs', False) \<and> caller sample_memory sample_registers 0x7010 sample_row regs'" by simp
qed

end
