(* ===== verification/ExceptionObjects.thy ===== *)
theory ExceptionObjects
  imports Prelude
begin

unbundle bit_operations_syntax

text \<open>
  Exception objects and the stack of caught exceptions of a thread (\<open>libcxxabi/src/cxa_exception.cpp\<close>,
  \<open>cxa_exception.h\<close>, \<open>cxa_exception_storage.cpp\<close>, \<open>cxa_handlers.cpp\<close>) on a 64-bit target other than ARM EHABI, with
  the globals in thread-specific storage. Headers are found by their addresses. Calls of destructors and releases of
  memory are a list of events; raising an exception is a parameter that tells whether it returns.
\<close>

section \<open>Headers and globals\<close>

datatype cleanup = No_cleanup | exception_cleanup_func | dependent_exception_cleanup | Other_cleanup u64

text \<open>\<open>__cxa_exception\<close> and \<open>__cxa_dependent_exception\<close> have the same layout, with the address of the primary exception in
  the place of the count of references.\<close>

record exception_header =
  referenceCount :: u64
  exceptionType :: u64
  exceptionDestructor :: u64
  unexpectedHandler :: u64
  terminateHandler :: u64
  nextException :: u64
  handlerCount :: int
  adjustedPtr :: u64
  exception_class :: u64
  exception_cleanup :: cleanup

abbreviation primaryException :: "exception_header \<Rightarrow> u64" where
  "primaryException \<equiv> referenceCount"

definition zero_header :: exception_header where
  "zero_header = \<lparr>referenceCount = 0, exceptionType = 0, exceptionDestructor = 0, unexpectedHandler = 0, terminateHandler = 0,
     nextException = 0, handlerCount = 0, adjustedPtr = 0, exception_class = 0, exception_cleanup = No_cleanup\<rparr>"

record eh_globals =
  caughtExceptions :: u64
  uncaughtExceptions :: u32

datatype event = Destructor u64 u64 | Freed u64 | Foreign_deleted u64

record eh_state =
  headers :: "u64 \<Rightarrow> exception_header"
  eh_tls :: "eh_globals option"
  terminate_handler :: u64
  unexpected_handler :: u64
  events :: "event list"

text \<open>How a call ends: it returns, the unwinder takes over with an exception in flight, a terminate handler is called or the
  program is aborted with a message.\<close>

datatype 'a flow = Return 'a | Raise u64 | Terminate u64 | Abort_message

definition kOurExceptionClass :: u64 where "kOurExceptionClass = 0x434C4E47432B2B00"
definition kOurDependentExceptionClass :: u64 where "kOurDependentExceptionClass = 0x434C4E47432B2B01"
definition get_vendor_and_language :: u64 where "get_vendor_and_language = 0xFFFFFFFFFFFFFF00"

definition isOurExceptionClass :: "exception_header \<Rightarrow> bool" where
  "isOurExceptionClass h \<longleftrightarrow> exception_class h AND get_vendor_and_language = kOurExceptionClass AND get_vendor_and_language"

definition isDependentException :: "exception_header \<Rightarrow> bool" where
  "isDependentException h \<longleftrightarrow> exception_class h AND 0xFF = 0x01"

definition sizeof_cxa_exception :: u64 where "sizeof_cxa_exception = 128"
definition sizeof_unwind_exception :: u64 where "sizeof_unwind_exception = 32"
definition alignof_cxa_exception :: u64 where "alignof_cxa_exception = 16"

definition cxa_exception_from_thrown_object :: "u64 \<Rightarrow> u64" where
  "cxa_exception_from_thrown_object thrown_object = thrown_object - sizeof_cxa_exception"

definition thrown_object_from_cxa_exception :: "u64 \<Rightarrow> u64" where
  "thrown_object_from_cxa_exception header = header + sizeof_cxa_exception"

definition cxa_exception_from_exception_unwind_exception :: "u64 \<Rightarrow> u64" where
  "cxa_exception_from_exception_unwind_exception unwind = cxa_exception_from_thrown_object (unwind + sizeof_unwind_exception)"

definition unwindHeader :: "u64 \<Rightarrow> u64" where
  "unwindHeader header = header + (sizeof_cxa_exception - sizeof_unwind_exception)"

definition aligned_allocation_size :: "u64 \<Rightarrow> u64 \<Rightarrow> u64" where
  "aligned_allocation_size s a = (s + a - 1) AND NOT (a - 1)"

definition cxa_exception_size_from_exception_thrown_size :: "u64 \<Rightarrow> u64" where
  "cxa_exception_size_from_exception_thrown_size s = aligned_allocation_size (s + sizeof_cxa_exception) alignof_cxa_exception"

definition get_cxa_exception_offset :: u64 where
  "get_cxa_exception_offset =
     (let aligned_size = (sizeof_cxa_exception + alignof_cxa_exception - 1) div alignof_cxa_exception * alignof_cxa_exception in
      aligned_size - sizeof_cxa_exception)"

abbreviation set_header :: "u64 \<Rightarrow> exception_header \<Rightarrow> eh_state \<Rightarrow> eh_state" where
  "set_header p h st \<equiv> st\<lparr>headers := (headers st)(p := h)\<rparr>"

abbreviation occurs :: "event \<Rightarrow> eh_state \<Rightarrow> eh_state" where
  "occurs e st \<equiv> st\<lparr>events := events st @ [e]\<rparr>"

section \<open>Storage and handlers\<close>

text \<open>The first call of a thread allocates its globals; it fails if \<open>calloc\<close> does.\<close>

definition cxa_get_globals :: "bool \<Rightarrow> eh_state \<Rightarrow> (eh_state \<times> eh_globals) option" where
  "cxa_get_globals calloc_succeeds st = (case eh_tls st of
     Some g \<Rightarrow> Some (st, g)
   | None \<Rightarrow>
       if calloc_succeeds
       then let g = \<lparr>caughtExceptions = 0, uncaughtExceptions = 0\<rparr> in Some (st\<lparr>eh_tls := Some g\<rparr>, g)
       else None)"

abbreviation cxa_get_globals_fast :: "eh_state \<Rightarrow> eh_globals option" where
  "cxa_get_globals_fast \<equiv> eh_tls"

text \<open>The handler that \<open>std::terminate\<close> calls.\<close>

definition std_terminate :: "eh_state \<Rightarrow> u64" where
  "std_terminate st = (case cxa_get_globals_fast st of
     None \<Rightarrow> terminate_handler st
   | Some g \<Rightarrow>
       let header = headers st (caughtExceptions g) in
       if caughtExceptions g \<noteq> 0 \<and> isOurExceptionClass header then terminateHandler header else terminate_handler st)"

section \<open>Allocation and references\<close>

definition cxa_allocate_exception :: "(u64 \<Rightarrow> u64) \<Rightarrow> u64 \<Rightarrow> eh_state \<Rightarrow> eh_state \<times> u64 flow" where
  "cxa_allocate_exception malloc thrown_size st =
     (let actual_size = cxa_exception_size_from_exception_thrown_size thrown_size;
        raw_buffer = malloc (get_cxa_exception_offset + actual_size) in
      if raw_buffer = 0 then (st, Terminate (std_terminate st))
      else
        let header = raw_buffer + get_cxa_exception_offset in
        (set_header header zero_header st, Return (thrown_object_from_cxa_exception header)))"

definition cxa_free_exception :: "u64 \<Rightarrow> eh_state \<Rightarrow> eh_state" where
  "cxa_free_exception thrown_object st = occurs (Freed (cxa_exception_from_thrown_object thrown_object - get_cxa_exception_offset)) st"

definition cxa_allocate_dependent_exception :: "(u64 \<Rightarrow> u64) \<Rightarrow> eh_state \<Rightarrow> eh_state \<times> u64 flow" where
  "cxa_allocate_dependent_exception malloc st =
     (let ptr = malloc sizeof_cxa_exception in
      if ptr = 0 then (st, Terminate (std_terminate st)) else (set_header ptr zero_header st, Return ptr))"

definition cxa_free_dependent_exception :: "u64 \<Rightarrow> eh_state \<Rightarrow> eh_state" where
  "cxa_free_dependent_exception p st = occurs (Freed p) st"

definition cxa_increment_exception_refcount :: "u64 \<Rightarrow> eh_state \<Rightarrow> eh_state" where
  "cxa_increment_exception_refcount thrown_object st =
     (if thrown_object \<noteq> 0
      then
        let p = cxa_exception_from_thrown_object thrown_object; h = headers st p in
        set_header p (h\<lparr>referenceCount := referenceCount h + 1\<rparr>) st
      else st)"

definition cxa_decrement_exception_refcount :: "u64 \<Rightarrow> eh_state \<Rightarrow> eh_state" where
  "cxa_decrement_exception_refcount thrown_object st =
     (if thrown_object \<noteq> 0
      then
        let p = cxa_exception_from_thrown_object thrown_object; h = headers st p;
          st = set_header p (h\<lparr>referenceCount := referenceCount h - 1\<rparr>) st in
        if referenceCount h - 1 = 0
        then
          let st = (if exceptionDestructor h \<noteq> 0 then occurs (Destructor (exceptionDestructor h) thrown_object) st else st) in
          cxa_free_exception thrown_object st
        else st
      else st)"

section \<open>Catching\<close>

definition cxa_begin_catch :: "bool \<Rightarrow> u64 \<Rightarrow> eh_state \<Rightarrow> eh_state \<times> u64 flow" where
  "cxa_begin_catch calloc_succeeds unwind_exception st =
     (let p = cxa_exception_from_exception_unwind_exception unwind_exception;
        native_exception = isOurExceptionClass (headers st p) in
      case cxa_get_globals calloc_succeeds st of
        None \<Rightarrow> (st, Abort_message)
      | Some (st, g) \<Rightarrow>
          let h = headers st p in
          if native_exception
          then
            let h = h\<lparr>handlerCount := if handlerCount h < 0 then - handlerCount h + 1 else handlerCount h + 1\<rparr>;
              (h, g) = (if p \<noteq> caughtExceptions g
                then (h\<lparr>nextException := caughtExceptions g\<rparr>, g\<lparr>caughtExceptions := p\<rparr>) else (h, g));
              g = g\<lparr>uncaughtExceptions := uncaughtExceptions g - 1\<rparr> in
            ((set_header p h st)\<lparr>eh_tls := Some g\<rparr>, Return (adjustedPtr h))
          else if caughtExceptions g \<noteq> 0 then (st, Terminate (std_terminate st))
          else (st\<lparr>eh_tls := Some (g\<lparr>caughtExceptions := p\<rparr>)\<rparr>, Return (unwind_exception + sizeof_unwind_exception)))"

text \<open>The end of a handler of a native exception that was not rethrown and has no handler left.\<close>

definition destroy_caught :: "u64 \<Rightarrow> eh_state \<Rightarrow> eh_state" where
  "destroy_caught p st =
     (let h = headers st p in
      if isDependentException h
      then
        cxa_decrement_exception_refcount
          (thrown_object_from_cxa_exception (cxa_exception_from_thrown_object (primaryException h))) (cxa_free_dependent_exception p st)
      else cxa_decrement_exception_refcount (thrown_object_from_cxa_exception p) st)"

text \<open>The code uses the globals without a test, as a handler has been entered before.\<close>

definition cxa_end_catch :: "eh_state \<Rightarrow> eh_state option" where
  "cxa_end_catch st = (case cxa_get_globals_fast st of None \<Rightarrow> None | Some g \<Rightarrow>
     Some (let p = caughtExceptions g; h = headers st p in
      if p = 0 then st
      else if isOurExceptionClass h
      then
        if handlerCount h < 0
        then
          let st = set_header p (h\<lparr>handlerCount := handlerCount h + 1\<rparr>) st in
          if handlerCount h + 1 = 0 then st\<lparr>eh_tls := Some (g\<lparr>caughtExceptions := nextException h\<rparr>)\<rparr> else st
        else
          let st = set_header p (h\<lparr>handlerCount := handlerCount h - 1\<rparr>) st in
          if handlerCount h - 1 = 0
          then destroy_caught p (st\<lparr>eh_tls := Some (g\<lparr>caughtExceptions := nextException h\<rparr>)\<rparr>)
          else st
      else (occurs (Foreign_deleted (unwindHeader p)) st)\<lparr>eh_tls := Some (g\<lparr>caughtExceptions := 0\<rparr>)\<rparr>))"

definition cxa_get_exception_ptr :: "u64 \<Rightarrow> eh_state \<Rightarrow> u64" where
  "cxa_get_exception_ptr unwind_exception st = adjustedPtr (headers st (cxa_exception_from_exception_unwind_exception unwind_exception))"

definition cxa_current_exception_type :: "eh_state \<Rightarrow> u64" where
  "cxa_current_exception_type st = (case cxa_get_globals_fast st of None \<Rightarrow> 0 | Some g \<Rightarrow>
     let p = caughtExceptions g; h = headers st p in
     if p = 0 then 0 else if \<not> isOurExceptionClass h then 0 else exceptionType h)"

definition cxa_uncaught_exceptions :: "eh_state \<Rightarrow> u32" where
  "cxa_uncaught_exceptions st = (case cxa_get_globals_fast st of None \<Rightarrow> 0 | Some g \<Rightarrow> uncaughtExceptions g)"

definition cxa_uncaught_exception :: "eh_state \<Rightarrow> bool" where
  "cxa_uncaught_exception st \<longleftrightarrow> cxa_uncaught_exceptions st \<noteq> 0"

definition cxa_current_primary_exception :: "eh_state \<Rightarrow> eh_state \<times> u64" where
  "cxa_current_primary_exception st = (case cxa_get_globals_fast st of None \<Rightarrow> (st, 0) | Some g \<Rightarrow>
     let p = caughtExceptions g; h = headers st p in
     if p = 0 then (st, 0)
     else if \<not> isOurExceptionClass h then (st, 0)
     else
       let p = (if isDependentException h then cxa_exception_from_thrown_object (primaryException h) else p);
         thrown_object = thrown_object_from_cxa_exception p in
       (cxa_increment_exception_refcount thrown_object st, thrown_object))"

section \<open>Throwing\<close>

text \<open>\<open>raise\<close> is what the unwinder does with an exception: \<open>None\<close> if it does not return, else the state after it.\<close>

definition begin_catch_then :: "bool \<Rightarrow> u64 \<Rightarrow> (eh_state \<Rightarrow> 'a flow) \<Rightarrow> eh_state \<Rightarrow> eh_state \<times> 'a flow" where
  "begin_catch_then calloc_succeeds p f st = (case cxa_begin_catch calloc_succeeds (unwindHeader p) st of
     (st, Return _) \<Rightarrow> (st, f st) | (st, Raise u) \<Rightarrow> (st, Raise u) | (st, Terminate t) \<Rightarrow> (st, Terminate t)
   | (st, Abort_message) \<Rightarrow> (st, Abort_message))"

definition failed_throw :: "bool \<Rightarrow> u64 \<Rightarrow> eh_state \<Rightarrow> eh_state \<times> unit flow" where
  "failed_throw calloc_succeeds p = begin_catch_then calloc_succeeds p (\<lambda>st. Terminate (terminateHandler (headers st p)))"

definition cxa_throw ::
  "bool \<Rightarrow> (eh_state \<Rightarrow> eh_state option) \<Rightarrow> u64 \<Rightarrow> u64 \<Rightarrow> u64 \<Rightarrow> eh_state \<Rightarrow> eh_state \<times> unit flow" where
  "cxa_throw calloc_succeeds raise thrown_object tinfo dest st = (case cxa_get_globals calloc_succeeds st of
     None \<Rightarrow> (st, Abort_message)
   | Some (st, g) \<Rightarrow>
       let p = cxa_exception_from_thrown_object thrown_object;
         h = (headers st p)\<lparr>unexpectedHandler := unexpected_handler st, terminateHandler := terminate_handler st,
           exceptionType := tinfo, exceptionDestructor := dest, exception_class := kOurExceptionClass, referenceCount := 1,
           exception_cleanup := exception_cleanup_func\<rparr>;
         st = (set_header p h st)\<lparr>eh_tls := Some (g\<lparr>uncaughtExceptions := uncaughtExceptions g + 1\<rparr>)\<rparr> in
       case raise st of None \<Rightarrow> (st, Raise (unwindHeader p)) | Some st \<Rightarrow> failed_throw calloc_succeeds p st)"

definition cxa_rethrow :: "bool \<Rightarrow> (eh_state \<Rightarrow> eh_state option) \<Rightarrow> eh_state \<Rightarrow> eh_state \<times> unit flow" where
  "cxa_rethrow calloc_succeeds raise st = (case cxa_get_globals calloc_succeeds st of
     None \<Rightarrow> (st, Abort_message)
   | Some (st, g) \<Rightarrow>
       let p = caughtExceptions g; h = headers st p; native_exception = isOurExceptionClass h in
       if p = 0 then (st, Terminate (std_terminate st))
       else
         let st = (if native_exception
             then (set_header p (h\<lparr>handlerCount := - handlerCount h\<rparr>) st)\<lparr>
               eh_tls := Some (g\<lparr>uncaughtExceptions := uncaughtExceptions g + 1\<rparr>)\<rparr>
             else st\<lparr>eh_tls := Some (g\<lparr>caughtExceptions := 0\<rparr>)\<rparr>) in
         case raise st of None \<Rightarrow> (st, Raise (unwindHeader p))
         | Some st \<Rightarrow> begin_catch_then calloc_succeeds p (\<lambda>st.
             if native_exception then Terminate (terminateHandler (headers st p)) else Terminate (std_terminate st)) st)"

definition cxa_rethrow_primary_exception ::
  "bool \<Rightarrow> (u64 \<Rightarrow> u64) \<Rightarrow> (eh_state \<Rightarrow> eh_state option) \<Rightarrow> u64 \<Rightarrow> eh_state \<Rightarrow> eh_state \<times> unit flow" where
  "cxa_rethrow_primary_exception calloc_succeeds malloc raise thrown_object st =
     (if thrown_object \<noteq> 0
      then
        let p = cxa_exception_from_thrown_object thrown_object in
        case cxa_allocate_dependent_exception malloc st of
          (st, Return d) \<Rightarrow>
            let st = set_header d ((headers st d)\<lparr>referenceCount := thrown_object\<rparr>) st;
              st = cxa_increment_exception_refcount thrown_object st;
              st = set_header d ((headers st d)\<lparr>exceptionType := exceptionType (headers st p),
                unexpectedHandler := unexpected_handler st, terminateHandler := terminate_handler st,
                exception_class := kOurDependentExceptionClass\<rparr>) st in
            (case cxa_get_globals calloc_succeeds st of
               None \<Rightarrow> (st, Abort_message)
             | Some (st, g) \<Rightarrow>
                 let st = (set_header d ((headers st d)\<lparr>exception_cleanup := dependent_exception_cleanup\<rparr>) st)\<lparr>
                     eh_tls := Some (g\<lparr>uncaughtExceptions := uncaughtExceptions g + 1\<rparr>)\<rparr> in
                 case raise st of None \<Rightarrow> (st, Raise (unwindHeader d))
                 | Some st \<Rightarrow> begin_catch_then calloc_succeeds d (\<lambda>st. Return ()) st)
        | (st, Raise u) \<Rightarrow> (st, Raise u) | (st, Terminate t) \<Rightarrow> (st, Terminate t) | (st, Abort_message) \<Rightarrow> (st, Abort_message)
      else (st, Return ()))"

section \<open>Exception pointers\<close>

text \<open>\<open>std::exception_ptr\<close> (\<open>libcxx/src/support/runtime/exception_pointer_cxxabi.ipp\<close>) is the address of the thrown object, 0
  for none.\<close>

definition exception_ptr_destroy :: "u64 \<Rightarrow> eh_state \<Rightarrow> eh_state" where
  "exception_ptr_destroy ptr st = cxa_decrement_exception_refcount ptr st"

definition exception_ptr_copy :: "u64 \<Rightarrow> eh_state \<Rightarrow> eh_state \<times> u64" where
  "exception_ptr_copy other st = (let ptr = other in (cxa_increment_exception_refcount ptr st, ptr))"

definition exception_ptr_assign :: "u64 \<Rightarrow> u64 \<Rightarrow> eh_state \<Rightarrow> eh_state \<times> u64" where
  "exception_ptr_assign ptr other st =
     (if ptr \<noteq> other
      then (cxa_decrement_exception_refcount ptr (cxa_increment_exception_refcount other st), other)
      else (st, ptr))"

definition current_exception :: "eh_state \<Rightarrow> eh_state \<times> u64" where
  "current_exception st = (let (st, p) = cxa_current_primary_exception st in (st, p))"

definition rethrow_exception ::
  "bool \<Rightarrow> (u64 \<Rightarrow> u64) \<Rightarrow> (eh_state \<Rightarrow> eh_state option) \<Rightarrow> u64 \<Rightarrow> eh_state \<Rightarrow> eh_state \<times> unit flow" where
  "rethrow_exception calloc_succeeds malloc raise ptr st =
     (case cxa_rethrow_primary_exception calloc_succeeds malloc raise ptr st of
        (st, Return _) \<Rightarrow> (st, Terminate (std_terminate st))
      | r \<Rightarrow> r)"

text \<open>The argument of \<open>rethrow_exception\<close> is a copy.\<close>

definition rethrow_nested ::
  "bool \<Rightarrow> (u64 \<Rightarrow> u64) \<Rightarrow> (eh_state \<Rightarrow> eh_state option) \<Rightarrow> u64 \<Rightarrow> eh_state \<Rightarrow> eh_state \<times> unit flow" where
  "rethrow_nested calloc_succeeds malloc raise ptr st =
     (if ptr = 0 then (st, Terminate (std_terminate st))
      else let (st, p) = exception_ptr_copy ptr st in rethrow_exception calloc_succeeds malloc raise p st)"

section \<open>Cleanup by another runtime\<close>

text \<open>The cleanup functions of the unwind headers; \<open>foreign_caught\<close> is whether the reason is
  \<open>_URC_FOREIGN_EXCEPTION_CAUGHT\<close>.\<close>

definition run_exception_cleanup :: "bool \<Rightarrow> u64 \<Rightarrow> eh_state \<Rightarrow> eh_state \<times> unit flow" where
  "run_exception_cleanup foreign_caught unwind_exception st =
     (let p = cxa_exception_from_exception_unwind_exception unwind_exception in
      if \<not> foreign_caught then (st, Terminate (terminateHandler (headers st p)))
      else (cxa_decrement_exception_refcount (unwind_exception + sizeof_unwind_exception) st, Return ()))"

definition run_dependent_cleanup :: "bool \<Rightarrow> u64 \<Rightarrow> eh_state \<Rightarrow> eh_state \<times> unit flow" where
  "run_dependent_cleanup foreign_caught unwind_exception st =
     (let d = cxa_exception_from_exception_unwind_exception unwind_exception in
      if \<not> foreign_caught then (st, Terminate (terminateHandler (headers st d)))
      else
        (cxa_free_dependent_exception d (cxa_decrement_exception_refcount (primaryException (headers st d)) st), Return ()))"

end
