(* ===== verification/ExceptionStack.thy ===== *)
theory ExceptionStack
  imports ExceptionObjects Schedules
begin

unbundle bit_operations_syntax

text \<open>
  What the calls of \<open>ExceptionObjects\<close> implement: a thread is in a stack of contexts, each the handling of an exception
  or its way to a handler; objects of \<open>std::exception_ptr\<close> share exceptions; an exception is destroyed when nothing
  refers to it.
\<close>

section \<open>Contexts\<close>

datatype situation = Handling u64 | Unwinding u64

text \<open>A header is that of a thrown object, with its type and destructor, or of an exception that was rethrown from a
  pointer, with the header of the object.\<close>

datatype origin = Primary u64 u64 | Dependent u64

record eh_spec =
  situations :: "situation list"
  origin :: "u64 \<Rightarrow> origin option"
  pointers :: "u64 \<Rightarrow> nat"
  history :: "event list"

fun header_of :: "situation \<Rightarrow> u64" where
  "header_of (Handling h) = h"
| "header_of (Unwinding h) = h"

fun handled :: "situation list \<Rightarrow> u64 list" where
  "handled [] = []"
| "handled (Handling h # cs) = h # handled cs"
| "handled (Unwinding h # cs) = handled cs"

fun in_flight :: "situation list \<Rightarrow> u64 list" where
  "in_flight [] = []"
| "in_flight (Handling h # cs) = in_flight cs"
| "in_flight (Unwinding h # cs) = h # in_flight cs"

definition mentioned :: "eh_spec \<Rightarrow> u64 set" where
  "mentioned A = set (map header_of (situations A))"

definition dependents :: "eh_spec \<Rightarrow> u64 \<Rightarrow> u64 set" where
  "dependents A p = set (filter (\<lambda>d. origin A d = Some (Dependent p)) (map header_of (situations A)))"

text \<open>The references to an exception: its situations count as one, each pointer and each dependent exception as one.\<close>

definition references :: "eh_spec \<Rightarrow> u64 \<Rightarrow> nat" where
  "references A p = of_bool (p \<in> mentioned A) + pointers A p + card (dependents A p)"

definition primary_of :: "eh_spec \<Rightarrow> u64 \<Rightarrow> u64" where
  "primary_of A h = (case origin A h of Some (Dependent p) \<Rightarrow> p | _ \<Rightarrow> h)"

definition object_of :: "u64 \<Rightarrow> u64" where
  "object_of h = h + 128"

definition address_ok :: "u64 \<Rightarrow> bool" where
  "address_ok h \<longleftrightarrow> h \<noteq> 0 \<and> object_of h \<noteq> 0"

definition free_address :: "eh_spec \<Rightarrow> u64 \<Rightarrow> bool" where
  "free_address A h \<longleftrightarrow> address_ok h \<and> references A h = 0"

section \<open>Steps\<close>

definition destruction :: "eh_spec \<Rightarrow> u64 \<Rightarrow> event list" where
  "destruction A p = (case origin A p of
     Some (Primary t dest) \<Rightarrow> (if dest \<noteq> 0 then [Destructor dest (object_of p)] else []) @ [Freed p]
   | _ \<Rightarrow> [])"

definition release :: "u64 \<Rightarrow> eh_spec \<Rightarrow> eh_spec" where
  "release p A = (if references A p = 0 then A\<lparr>history := history A @ destruction A p\<rparr> else A)"

text \<open>A situation of \<open>h\<close> has ended.\<close>

definition ended :: "u64 \<Rightarrow> eh_spec \<Rightarrow> eh_spec" where
  "ended h A = (if h \<in> mentioned A then A else case origin A h of
     Some (Dependent p) \<Rightarrow> release p (A\<lparr>history := history A @ [Freed h]\<rparr>)
   | _ \<Rightarrow> release h A)"

definition point_to :: "u64 \<Rightarrow> eh_spec \<Rightarrow> eh_spec option" where
  "point_to p A = (if references A p < 2 ^ 64 - 1 then Some (A\<lparr>pointers := (pointers A)(p := pointers A p + 1)\<rparr>) else None)"

definition unpoint :: "u64 \<Rightarrow> eh_spec \<Rightarrow> eh_spec" where
  "unpoint p A = release p (A\<lparr>pointers := (pointers A)(p := pointers A p - 1)\<rparr>)"

text \<open>What a thread does: a throw-expression with the address of the new object's header, entering a handler, leaving it at
  its end or by an exception, \<open>throw;\<close>, and the making, copying, assignment, destruction and rethrowing of pointers.\<close>

datatype call = Throw u64 u64 u64 u64 | Enter u64 | Leave | Leave_by_exception | Rethrow
  | Capture | Copy u64 | Assign u64 u64 | Drop u64 | Rethrow_pointer u64 u64

fun spec_step :: "call \<Rightarrow> eh_spec \<Rightarrow> eh_spec option" where
  "spec_step (Throw h n t dest) A =
     (if free_address A h then Some (A\<lparr>situations := Unwinding h # situations A, origin := (origin A)(h \<mapsto> Primary t dest)\<rparr>) else None)"
| "spec_step (Enter h) A = (case situations A of
     Unwinding h' # cs \<Rightarrow> if h' = h then Some (A\<lparr>situations := Handling h # cs\<rparr>) else None
   | _ \<Rightarrow> None)"
| "spec_step Leave A = (case situations A of Handling h # cs \<Rightarrow> Some (ended h (A\<lparr>situations := cs\<rparr>)) | _ \<Rightarrow> None)"
| "spec_step Leave_by_exception A = (case situations A of
     Unwinding g # Handling h # cs \<Rightarrow> Some (ended h (A\<lparr>situations := Unwinding g # cs\<rparr>))
   | _ \<Rightarrow> None)"
| "spec_step Rethrow A = (case handled (situations A) of
     h # hs \<Rightarrow> if Unwinding h \<in> set (situations A) then None else Some (A\<lparr>situations := Unwinding h # situations A\<rparr>)
   | [] \<Rightarrow> None)"
| "spec_step Capture A = (case handled (situations A) of h # hs \<Rightarrow> point_to (primary_of A h) A | [] \<Rightarrow> None)"
| "spec_step (Copy p) A = (if 0 < pointers A p then point_to p A else None)"
| "spec_step (Assign q p) A =
     (if 0 < pointers A q \<and> 0 < pointers A p
      then if q = p then Some A else Option.bind (point_to p A) (\<lambda>A. Some (unpoint q A))
      else None)"
| "spec_step (Drop p) A =
     (if 0 < pointers A p then Some (unpoint p A) else None)"
| "spec_step (Rethrow_pointer p d) A =
     (if 0 < pointers A p \<and> free_address A d \<and> references A p < 2 ^ 64 - 1
      then Some (A\<lparr>situations := Unwinding d # situations A, origin := (origin A)(d \<mapsto> Dependent p)\<rparr>) else None)"

abbreviation spec_run :: "call list \<Rightarrow> eh_spec \<Rightarrow> eh_spec option" where
  "spec_run \<equiv> run_calls spec_step"

text \<open>The same calls on the state of the code. The allocator gives the address of the call, the unwinder finds a handler.
  \<open>None\<close> where a call ends in another way than it should.\<close>

abbreviation raised :: "u64 \<Rightarrow> eh_state \<times> unit flow \<Rightarrow> eh_state option" where
  "raised h r \<equiv> (case r of (st, f) \<Rightarrow> if f = Raise (unwindHeader h) then Some st else None)"

fun code_step :: "call \<Rightarrow> eh_state \<Rightarrow> eh_state option" where
  "code_step (Throw h n t dest) st = (case cxa_allocate_exception (\<lambda>k. h) n st of
     (st, Return obj) \<Rightarrow> raised h (cxa_throw True (\<lambda>st. None) obj t dest st)
   | _ \<Rightarrow> None)"
| "code_step (Enter h) st = (case cxa_begin_catch True (unwindHeader h) st of (st, Return v) \<Rightarrow> Some st | _ \<Rightarrow> None)"
| "code_step Leave st = cxa_end_catch st"
| "code_step Leave_by_exception st = cxa_end_catch st"
| "code_step Rethrow st = (case cxa_rethrow True (\<lambda>st. None) st of (st, Raise u) \<Rightarrow> Some st | _ \<Rightarrow> None)"
| "code_step Capture st = (case current_exception st of (st, obj) \<Rightarrow> if obj = 0 then None else Some st)"
| "code_step (Copy p) st = Some (fst (exception_ptr_copy (object_of p) st))"
| "code_step (Assign q p) st = Some (fst (exception_ptr_assign (object_of q) (object_of p) st))"
| "code_step (Drop p) st = Some (exception_ptr_destroy (object_of p) st)"
| "code_step (Rethrow_pointer p d) st = raised d (rethrow_exception True (\<lambda>k. d) (\<lambda>st. None) (object_of p) st)"

abbreviation code_run :: "call list \<Rightarrow> eh_state \<Rightarrow> eh_state option" where
  "code_run \<equiv> run_calls code_step"

section \<open>The relation\<close>

fun chain :: "(u64 \<Rightarrow> exception_header) \<Rightarrow> u64 \<Rightarrow> u64 list \<Rightarrow> bool" where
  "chain hs a [] = (a = 0)"
| "chain hs a (h # rest) = (a = h \<and> h \<noteq> 0 \<and> chain hs (nextException (hs h)) rest)"

text \<open>Situations of one exception are next to each other among the handlers, and it is in flight at most once, above them.\<close>

fun situations_ok :: "situation list \<Rightarrow> bool" where
  "situations_ok [] = True"
| "situations_ok (c # cs) \<longleftrightarrow> situations_ok cs \<and> Unwinding (header_of c) \<notin> set cs \<and>
     (header_of c \<in> set (handled cs) \<longrightarrow> hd (handled cs) = header_of c)"

definition handler_count :: "situation list \<Rightarrow> u64 \<Rightarrow> int" where
  "handler_count cs h = (if Unwinding h \<in> set cs then - int (count_list (handled cs) h) else int (count_list (handled cs) h))"

definition shows_header :: "eh_spec \<Rightarrow> (u64 \<Rightarrow> exception_header) \<Rightarrow> u64 \<Rightarrow> bool" where
  "shows_header A hs h \<longleftrightarrow> address_ok h \<and> handlerCount (hs h) = handler_count (situations A) h \<and>
     (case origin A h of
        None \<Rightarrow> False
      | Some (Primary t dest) \<Rightarrow> exception_class (hs h) = kOurExceptionClass \<and> exceptionType (hs h) = t \<and>
          exceptionDestructor (hs h) = dest \<and> referenceCount (hs h) = of_nat (references A h) \<and> references A h < 2 ^ 64
      | Some (Dependent p) \<Rightarrow> exception_class (hs h) = kOurDependentExceptionClass \<and> primaryException (hs h) = object_of p \<and>
          pointers A h = 0 \<and> (\<exists>t dest. origin A p = Some (Primary t dest) \<and> exceptionType (hs h) = t))"

definition related :: "eh_spec \<Rightarrow> eh_state \<Rightarrow> bool" where
  "related A st \<longleftrightarrow> situations_ok (situations A) \<and> history A = events st \<and>
     (case eh_tls st of None \<Rightarrow> situations A = []
      | Some g \<Rightarrow> chain (headers st) (caughtExceptions g) (remdups_adj (handled (situations A))) \<and>
          uncaughtExceptions g = of_nat (length (in_flight (situations A)))) \<and>
     (\<forall>h. 0 < references A h \<longrightarrow> shows_header A (headers st) h)"

definition spec_init :: eh_spec where
  "spec_init = \<lparr>situations = [], origin = (\<lambda>h. None), pointers = (\<lambda>h. 0), history = []\<rparr>"

lemma related_init: "eh_tls st = None \<Longrightarrow> events st = [] \<Longrightarrow> related spec_init st"
  by (simp add: related_def spec_init_def references_def mentioned_def dependents_def)

section \<open>Lemmas\<close>

lemma mentioned_sets: "mentioned A = set (handled (situations A)) \<union> set (in_flight (situations A))"
proof -
  have "set (map header_of cs) = set (handled cs) \<union> set (in_flight cs)" for cs
    by (induction cs rule: handled.induct) auto
  then show ?thesis by (simp add: mentioned_def)
qed

lemma in_flight_iff: "h \<in> set (in_flight cs) \<longleftrightarrow> Unwinding h \<in> set cs"
  by (induction cs rule: handled.induct) auto

lemma handled_iff: "h \<in> set (handled cs) \<longleftrightarrow> Handling h \<in> set cs"
  by (induction cs rule: handled.induct) auto

lemma finite_dependents [simp]: "finite (dependents A p)"
  by (simp add: dependents_def)

lemma dependents_eq: "dependents A p = {d \<in> mentioned A. origin A d = Some (Dependent p)}"
  by (auto simp: dependents_def mentioned_def)

lemma referenced:
  "h \<in> mentioned A \<Longrightarrow> 0 < references A h" "0 < pointers A h \<Longrightarrow> 0 < references A h"
  "d \<in> mentioned A \<Longrightarrow> origin A d = Some (Dependent h) \<Longrightarrow> 0 < references A h"
  by (auto simp: references_def dependents_eq card_gt_0_iff mentioned_def)

lemma related_header: "related A st \<Longrightarrow> 0 < references A h \<Longrightarrow> shows_header A (headers st) h"
  by (simp add: related_def)

lemma chain_cong:
  assumes "chain hs a xs" "\<And>x. x \<in> set xs \<Longrightarrow> nextException (hs' x) = nextException (hs x)"
  shows "chain hs' a xs"
  using assms by (induction xs arbitrary: a) auto

lemma class_tests:
  "exception_class h = kOurExceptionClass \<Longrightarrow> isOurExceptionClass h \<and> \<not> isDependentException h"
  "exception_class h = kOurDependentExceptionClass \<Longrightarrow> isOurExceptionClass h \<and> isDependentException h"
  by (simp_all add: isOurExceptionClass_def isDependentException_def kOurExceptionClass_def kOurDependentExceptionClass_def
      get_vendor_and_language_def)

lemma addresses [simp]:
  "cxa_exception_from_exception_unwind_exception (unwindHeader h) = h"
  "cxa_exception_from_thrown_object (object_of h) = h" "thrown_object_from_cxa_exception h = object_of h"
  "get_cxa_exception_offset = 0" "unwindHeader h = unwindHeader g \<longleftrightarrow> h = g" "object_of h = object_of g \<longleftrightarrow> h = g"
proof -
  show "get_cxa_exception_offset = 0"
    by (simp add: get_cxa_exception_offset_def sizeof_cxa_exception_def alignof_cxa_exception_def word_div_def)
qed (simp_all add: cxa_exception_from_exception_unwind_exception_def cxa_exception_from_thrown_object_def unwindHeader_def
    object_of_def thrown_object_from_cxa_exception_def sizeof_cxa_exception_def sizeof_unwind_exception_def)

end
