(* ===== verification/ExceptionSteps.thy ===== *)
theory ExceptionSteps
  imports ExceptionStack
begin

text \<open>
  Every call of the code does what the specification says.
\<close>

section \<open>Frame lemmas\<close>

lemma references_cong:
  "mentioned A' = mentioned A \<Longrightarrow> origin A' = origin A \<Longrightarrow> pointers A' h = pointers A h \<Longrightarrow> references A' h = references A h"
  by (simp add: references_def dependents_eq)

lemma shows_cong:
  assumes "shows_header A hs h" "hs' h = hs h" "handler_count (situations A') h = handler_count (situations A) h"
    "references A' h = references A h" "pointers A' h = pointers A h" "origin A' h = origin A h"
    "\<And>p. origin A h = Some (Dependent p) \<Longrightarrow> origin A' p = origin A p"
  shows "shows_header A' hs' h"
  using assms by (auto simp: shows_header_def split: option.splits origin.splits)

lemma shows_update:
  assumes "shows_header A hs h" "handlerCount (hs' h) = handler_count (situations A') h"
    "exception_class (hs' h) = exception_class (hs h)" "exceptionType (hs' h) = exceptionType (hs h)"
    "exceptionDestructor (hs' h) = exceptionDestructor (hs h)" "referenceCount (hs' h) = referenceCount (hs h)"
    "references A' h = references A h" "pointers A' h = pointers A h" "origin A' = origin A"
  shows "shows_header A' hs' h"
  using assms by (auto simp: shows_header_def split: option.splits origin.splits)

lemma chain_head: "chain hs a (remdups_adj xs) \<Longrightarrow> a = (case xs of [] \<Rightarrow> 0 | x # _ \<Rightarrow> x)"
  by (cases xs) (auto simp: remdups_adj_Cons split: list.splits if_splits)

lemma chain_nonzero: "chain hs a xs \<Longrightarrow> 0 \<notin> set xs"
  by (induction xs arbitrary: a) auto

lemma remdups_adj_push:
  "remdups_adj (x # xs) = (if xs \<noteq> [] \<and> hd xs = x then remdups_adj xs else x # remdups_adj xs)"
  by (cases xs) auto

lemma native_header:
  assumes "shows_header A hs h"
  shows "isOurExceptionClass (hs h)"
  using assms class_tests by (auto simp: shows_header_def split: option.splits origin.splits)

lemma related_globals:
  assumes "related A st" "situations A \<noteq> []"
  obtains g where "eh_tls st = Some g" "chain (headers st) (caughtExceptions g) (remdups_adj (handled (situations A)))"
    "uncaughtExceptions g = of_nat (length (in_flight (situations A)))"
  using assms by (auto simp: related_def split: option.splits)

lemma handler_count_simps [simp]:
  "x \<noteq> h \<Longrightarrow> handler_count (Handling h # cs) x = handler_count cs x"
  "x \<noteq> h \<Longrightarrow> handler_count (Unwinding h # cs) x = handler_count cs x"
  by (simp_all add: handler_count_def)

section \<open>Entering a handler\<close>

lemma enter_step:
  assumes R: "related A st" and step: "spec_step (Enter h) A = Some A'"
  shows "\<exists>st'. code_step (Enter h) st = Some st' \<and> related A' st'"
proof -
  from step obtain cs where cs: "situations A = Unwinding h # cs" "A' = A\<lparr>situations := Handling h # cs\<rparr>"
    by (auto split: list.splits situation.splits if_splits)
  from R cs(1) obtain g where g: "eh_tls st = Some g" "chain (headers st) (caughtExceptions g) (remdups_adj (handled cs))"
    "uncaughtExceptions g = of_nat (Suc (length (in_flight cs)))" using related_globals [OF R] by auto
  have mention: "mentioned A' = mentioned A" using cs by (simp add: mentioned_def)
  then have refs: "references A' x = references A x" for x by (rule references_cong) (simp_all add: cs(2))
  have "0 < references A h" using cs by (intro referenced) (simp add: mentioned_def)
  then have header: "shows_header A (headers st) h" using R by (rule related_header [rotated])
  have ok: "situations_ok (Unwinding h # cs)" using R cs(1) by (simp add: related_def)
  define count where "count = int (count_list (handled cs) h)"
  have count: "handlerCount (headers st h) = - count" "0 \<le> count" using header cs(1)
    by (simp_all add: shows_header_def handler_count_def count_def)
  have head: "caughtExceptions g = (case handled cs of [] \<Rightarrow> 0 | x # _ \<Rightarrow> x)" by (rule chain_head [OF g(2)])
  have "h \<noteq> 0" using header by (simp add: shows_header_def address_ok_def)
  let ?h = "(headers st h)\<lparr>handlerCount := count + 1\<rparr>"
  define h' where "h' = (if h \<noteq> caughtExceptions g then ?h\<lparr>nextException := caughtExceptions g\<rparr> else ?h)"
  define st' where "st' = (st\<lparr>headers := (headers st)(h := h'), eh_tls := Some (g\<lparr>caughtExceptions := h,
    uncaughtExceptions := uncaughtExceptions g - 1\<rparr>)\<rparr>)"
  have "code_step (Enter h) st = Some st'"
    using native_header [OF header] count
    by (auto simp: cxa_begin_catch_def g(1) cxa_get_globals_def Let_def h'_def st'_def add.commute split: if_splits)
  moreover have "related A' st'"
    unfolding related_def
  proof (intro conjI allI impI)
    show "situations_ok (situations A')" using ok cs(2) by simp
    show "history A' = events st'" using R by (simp add: related_def cs(2) st'_def)
    have "chain ((headers st)(h := h')) h (remdups_adj (h # handled cs))"
    proof (cases "handled cs \<noteq> [] \<and> hd (handled cs) = h")
      case True
      then have "h = caughtExceptions g" using head by (cases "handled cs") auto
      then have "chain ((headers st)(h := h')) h (remdups_adj (handled cs))"
        using g(2) by (auto intro: chain_cong simp: h'_def)
      then show ?thesis using True by (simp add: remdups_adj_push)
    next
      case False
      then have "h \<notin> set (handled cs)" "h \<noteq> caughtExceptions g" using ok head \<open>h \<noteq> 0\<close> by (auto split: list.splits)
      then show ?thesis using False \<open>h \<noteq> 0\<close> g(2) by (auto simp: remdups_adj_push h'_def intro: chain_cong)
    qed
    then show "case eh_tls st' of None \<Rightarrow> situations A' = [] | Some g \<Rightarrow>
        chain (headers st') (caughtExceptions g) (remdups_adj (handled (situations A'))) \<and>
        uncaughtExceptions g = word_of_nat (length (in_flight (situations A')))"
      using g(3) by (simp add: st'_def cs(2))
    fix x
    assume x: "0 < references A' x"
    show "shows_header A' (headers st') x"
    proof (cases "x = h")
      case True
      have "handler_count (Handling h # cs) h = count + 1" using ok by (simp add: handler_count_def count_def)
      then show ?thesis unfolding True using count
        by (intro shows_update [OF header]) (simp_all add: refs, simp_all add: st'_def h'_def cs(2))
    next
      case False
      show ?thesis
        by (rule shows_cong [OF related_header [OF R]]) (use x False in \<open>simp_all add: refs\<close>, simp_all add: cs st'_def)
    qed
  qed
  ultimately show ?thesis by blast
qed

section \<open>Throwing\<close>

lemma rethrow_step:
  assumes R: "related A st" and step: "spec_step Rethrow A = Some A'"
  shows "\<exists>st'. code_step Rethrow st = Some st' \<and> related A' st'"
proof -
  from step obtain h hs where h: "handled (situations A) = h # hs" "Unwinding h \<notin> set (situations A)"
    "A' = A\<lparr>situations := Unwinding h # situations A\<rparr>"
    by (auto split: list.splits if_splits)
  then have "situations A \<noteq> []" by auto
  with R obtain g where g: "eh_tls st = Some g" "chain (headers st) (caughtExceptions g) (remdups_adj (h # hs))"
    "uncaughtExceptions g = of_nat (length (in_flight (situations A)))" using related_globals h(1) by metis
  have "h \<in> mentioned A" using h(1) by (simp add: mentioned_sets)
  then have mention: "mentioned A' = mentioned A" by (auto simp: h(3) mentioned_def)
  then have refs: "references A' x = references A x" for x by (rule references_cong) (simp_all add: h(3))
  have header: "shows_header A (headers st) h" using R \<open>h \<in> mentioned A\<close> by (intro related_header referenced)
  have head: "caughtExceptions g = h" "h \<noteq> 0" using chain_head [OF g(2)] header by (simp_all add: shows_header_def address_ok_def)
  let ?h = "(headers st h)\<lparr>handlerCount := - handlerCount (headers st h)\<rparr>"
  define st' where "st' = st\<lparr>headers := (headers st)(h := ?h), eh_tls := Some (g\<lparr>uncaughtExceptions := uncaughtExceptions g + 1\<rparr>)\<rparr>"
  have "code_step Rethrow st = Some st'"
    using native_header [OF header] head by (simp add: cxa_rethrow_def cxa_get_globals_def g(1) Let_def st'_def)
  moreover have "related A' st'"
    unfolding related_def
  proof (intro conjI allI impI)
    show "situations_ok (situations A')" using R h by (simp add: related_def)
    show "history A' = events st'" using R by (simp add: related_def h(3) st'_def)
    have "chain ((headers st)(h := ?h)) (caughtExceptions g) (remdups_adj (h # hs))" by (rule chain_cong [OF g(2)]) simp
    then show "case eh_tls st' of None \<Rightarrow> situations A' = [] | Some g \<Rightarrow>
        chain (headers st') (caughtExceptions g) (remdups_adj (handled (situations A'))) \<and>
        uncaughtExceptions g = word_of_nat (length (in_flight (situations A')))"
      using g(3) h by (simp add: st'_def)
    fix x
    assume x: "0 < references A' x"
    show "shows_header A' (headers st') x"
    proof (cases "x = h")
      case True
      have "handlerCount ?h = handler_count (situations A') h" using header h(2,3) by (simp add: shows_header_def handler_count_def)
      then show ?thesis unfolding True by (intro shows_update [OF header]) (simp_all add: refs, simp_all add: st'_def h(3))
    next
      case False
      show ?thesis by (rule shows_cong [OF related_header [OF R]]) (use x False in \<open>simp_all add: refs\<close>, simp_all add: h(3) st'_def)
    qed
  qed
  ultimately show ?thesis by blast
qed

text \<open>A header that is in use and depends on another one is that of an exception of some situation.\<close>

lemma dependent_unreferenced:
  assumes "related A st" "0 < references A h" "origin A h = Some (Dependent p)"
  shows "pointers A h = 0" "dependents A h = {}"
proof -
  show "pointers A h = 0" using related_header [OF assms(1,2)] assms(3) by (simp add: shows_header_def)
  show "dependents A h = {}"
  proof (rule ccontr)
    assume "dependents A h \<noteq> {}"
    then obtain d where d: "d \<in> mentioned A" "origin A d = Some (Dependent h)" by (auto simp: dependents_eq)
    then have "0 < references A d" by (intro referenced(1))
    from related_header [OF assms(1) this] d(2) assms(3) show False by (simp add: shows_header_def)
  qed
qed

lemma dependent_mentioned:
  "related A st \<Longrightarrow> 0 < references A h \<Longrightarrow> origin A h = Some (Dependent p) \<Longrightarrow> h \<in> mentioned A"
proof (rule ccontr)
  assume R: "related A st" "0 < references A h" "origin A h = Some (Dependent p)" and "h \<notin> mentioned A"
  then have "references A h = 0" using dependent_unreferenced [OF R] by (subst references_def) simp
  then show False using R(2) by simp
qed

lemma pointed_primary:
  assumes "related A st" "0 < pointers A p"
  obtains t dest where "origin A p = Some (Primary t dest)"
  using related_header [OF assms(1) referenced(2) [OF assms(2)]] assms(2)
  by (auto simp: shows_header_def split: option.splits origin.splits)

lemma throw_references:
  assumes "spec_step (Throw h n t dest) A = Some A'"
  shows "references A' x = (if x = h then 1 else references A x)"
proof -
  from assms have A': "A' = A\<lparr>situations := Unwinding h # situations A, origin := (origin A)(h \<mapsto> Primary t dest)\<rparr>"
    and "references A h = 0" by (auto simp: free_address_def split: if_splits)
  then have new: "h \<notin> mentioned A" "pointers A h = 0" "dependents A h = {}" by (auto simp: references_def)
  have deps: "dependents A' x = dependents A x" for x using new(1) by (auto simp: dependents_eq A' mentioned_def)
  then show ?thesis using new by (auto simp: references_def A' mentioned_def)
qed

lemma throw_step:
  assumes R: "related A st" and step: "spec_step (Throw h n t dest) A = Some A'"
  shows "\<exists>st'. code_step (Throw h n t dest) st = Some st' \<and> related A' st'"
proof -
  from step have A': "A' = A\<lparr>situations := Unwinding h # situations A, origin := (origin A)(h \<mapsto> Primary t dest)\<rparr>"
    and free: "address_ok h" "references A h = 0" by (auto simp: free_address_def split: if_splits)
  have new: "h \<notin> mentioned A" "pointers A h = 0" "dependents A h = {}" using free(2) by (auto simp: references_def)
  define g where "g = (case eh_tls st of None \<Rightarrow> \<lparr>caughtExceptions = 0, uncaughtExceptions = 0\<rparr> | Some g \<Rightarrow> g)"
  have g: "chain (headers st) (caughtExceptions g) (remdups_adj (handled (situations A)))"
    "uncaughtExceptions g = of_nat (length (in_flight (situations A)))"
    using R by (auto simp: related_def g_def split: option.splits)
  let ?h = "\<lparr>referenceCount = 1, exceptionType = t, exceptionDestructor = dest, unexpectedHandler = unexpected_handler st,
    terminateHandler = terminate_handler st, nextException = 0, handlerCount = 0, adjustedPtr = 0,
    exception_class = kOurExceptionClass, exception_cleanup = exception_cleanup_func\<rparr>"
  define st' where "st' = st\<lparr>headers := (headers st)(h := ?h), eh_tls := Some (g\<lparr>uncaughtExceptions := uncaughtExceptions g + 1\<rparr>)\<rparr>"
  have "code_step (Throw h n t dest) st = Some st'"
    using free(1) by (simp add: cxa_allocate_exception_def Let_def address_ok_def cxa_throw_def cxa_get_globals_def g_def st'_def
        zero_header_def split: option.split)
  moreover have "related A' st'"
    unfolding related_def
  proof (intro conjI allI impI)
    have "Unwinding h \<notin> set (situations A)" "h \<notin> set (handled (situations A))"
      using new(1) by (auto simp: mentioned_sets in_flight_iff)
    then show "situations_ok (situations A')" using R by (simp add: related_def A')
    show "history A' = events st'" using R by (simp add: related_def A' st'_def)
    have "chain ((headers st)(h := ?h)) (caughtExceptions g) (remdups_adj (handled (situations A)))"
      using \<open>h \<notin> set (handled (situations A))\<close> by (intro chain_cong [OF g(1)]) auto
    then show "case eh_tls st' of None \<Rightarrow> situations A' = [] | Some g \<Rightarrow>
        chain (headers st') (caughtExceptions g) (remdups_adj (handled (situations A'))) \<and>
        uncaughtExceptions g = word_of_nat (length (in_flight (situations A')))"
      using g(2) by (simp add: st'_def A')
    have refs: "references A' x = (if x = h then 1 else references A x)" for x by (rule throw_references [OF step])
    fix x
    assume x: "0 < references A' x"
    show "shows_header A' (headers st') x"
    proof (cases "x = h")
      case True
      have "count_list (handled (situations A)) h = 0" using new(1) by (simp add: mentioned_sets count_list_0_iff)
      then have "handler_count (situations A') h = 0" by (simp add: handler_count_def A')
      moreover have "origin A' h = Some (Primary t dest)" by (simp add: A')
      ultimately show ?thesis using free(1) refs True by (simp add: shows_header_def st'_def)
    next
      case False
      with x have x': "0 < references A x" by (simp add: refs)
      have "p \<noteq> h" if "origin A x = Some (Dependent p)" for p
        using dependent_mentioned [OF R x' that] that new(3) by (auto simp: dependents_eq)
      then show ?thesis
        by (intro shows_cong [OF related_header [OF R x']]) (use False in \<open>simp_all add: refs\<close>, simp_all add: A' st'_def)
    qed
  qed
  ultimately show ?thesis by blast
qed

section \<open>Pointers\<close>

lemma same_globals:
  assumes "related A st" "situations A' = situations A" "eh_tls st' = eh_tls st"
    "\<And>x. nextException (headers st' x) = nextException (headers st x)"
  shows "case eh_tls st' of None \<Rightarrow> situations A' = [] | Some g \<Rightarrow>
      chain (headers st') (caughtExceptions g) (remdups_adj (handled (situations A'))) \<and>
      uncaughtExceptions g = word_of_nat (length (in_flight (situations A')))"
  using assms by (auto simp: related_def split: option.splits intro: chain_cong)

text \<open>A count of references changes at one primary header, with or without events.\<close>

lemma related_count:
  assumes R: "related A st" and A': "situations A' = situations A" "origin A' = origin A" "history A' = history A @ es"
      "\<And>x. x \<noteq> p \<Longrightarrow> pointers A' x = pointers A x"
    and st': "st' = st\<lparr>headers := (headers st)(p := (headers st p)\<lparr>referenceCount := of_nat (references A' p)\<rparr>), events := events st @ es\<rparr>"
    and p: "origin A p = Some (Primary t dest)" "0 < references A p" "references A' p < 2 ^ 64"
  shows "related A' st'"
  unfolding related_def
proof (intro conjI allI impI)
  show "situations_ok (situations A')" "history A' = events st'" using R A' by (simp_all add: related_def st')
  show "case eh_tls st' of None \<Rightarrow> situations A' = [] | Some g \<Rightarrow>
      chain (headers st') (caughtExceptions g) (remdups_adj (handled (situations A'))) \<and>
      uncaughtExceptions g = word_of_nat (length (in_flight (situations A')))"
    by (rule same_globals [OF R A'(1)]) (simp_all add: st')
  fix x
  assume x: "0 < references A' x"
  have mention: "mentioned A' = mentioned A" by (simp add: mentioned_def A'(1))
  show "shows_header A' (headers st') x"
  proof (cases "x = p")
    case True
    then show ?thesis using related_header [OF R p(2)] p A'(1,2) by (simp add: shows_header_def st')
  next
    case False
    have refs: "references A' x = references A x" by (rule references_cong) (simp_all add: mention A' False)
    show ?thesis
    proof (rule shows_cong)
      show "shows_header A (headers st) x" using related_header [OF R] x refs by simp
      show "headers st' x = headers st x" using False by (simp add: st')
    qed (simp_all add: refs A'(1,2,4) False)
  qed
qed

lemma increment:
  assumes "related A st" "point_to p A = Some A'" "0 < references A p" "origin A p = Some (Primary t dest)"
  shows "related A' (cxa_increment_exception_refcount (object_of p) st)"
proof -
  have A': "A' = A\<lparr>pointers := (pointers A)(p := pointers A p + 1)\<rparr>" "references A p < 2 ^ 64 - 1"
    using assms(2) by (simp_all add: point_to_def split: if_splits)
  have refs: "references A' p = Suc (references A p)" by (simp add: references_def dependents_eq mentioned_def A'(1))
  then have bound: "references A' p < 2 ^ 64" using A'(2) by simp
  have header: "shows_header A (headers st) p" by (rule related_header [OF assms(1,3)])
  show ?thesis
  proof (rule related_count [OF assms(1) _ _ _ _ _ assms(4,3), where es = "[]"])
    show "cxa_increment_exception_refcount (object_of p) st = st\<lparr>headers := (headers st)(p := (headers st p)\<lparr>referenceCount :=
        of_nat (references A' p)\<rparr>), events := events st @ []\<rparr>"
      using header assms(4) by (simp add: cxa_increment_exception_refcount_def Let_def shows_header_def address_ok_def refs add.commute)
  qed (rule bound | simp add: A'(1))+
qed

lemma copy_step:
  assumes R: "related A st" and step: "spec_step (Copy p) A = Some A'"
  shows "\<exists>st'. code_step (Copy p) st = Some st' \<and> related A' st'"
proof -
  from step have p: "0 < pointers A p" "point_to p A = Some A'" by (simp_all split: if_splits)
  obtain t dest where "origin A p = Some (Primary t dest)" by (rule pointed_primary [OF R p(1)])
  then show ?thesis using increment [OF R p(2) referenced(2) [OF p(1)]] by (simp add: exception_ptr_copy_def Let_def)
qed

lemma current_header:
  assumes R: "related A st" and h: "handled (situations A) = h # hs"
  obtains g where "eh_tls st = Some g" "caughtExceptions g = h" "h \<noteq> 0" "0 < references A h" "shows_header A (headers st) h"
proof -
  have "situations A \<noteq> []" using h by auto
  from related_globals [OF R this] obtain g where g: "eh_tls st = Some g"
    "chain (headers st) (caughtExceptions g) (remdups_adj (handled (situations A)))" by metis
  have "h \<in> mentioned A" using h by (simp add: mentioned_sets)
  then have "0 < references A h" by (rule referenced)
  with related_header [OF R this] chain_head [OF g(2)] g(1) h that [of g] show ?thesis by (simp add: shows_header_def address_ok_def)
qed

lemma primary_header:
  assumes R: "related A st" and h: "h \<in> mentioned A"
  shows "0 < references A (primary_of A h) \<and> (\<exists>t dest. origin A (primary_of A h) = Some (Primary t dest) \<and>
    exceptionType (headers st h) = t)"
proof -
  have header: "shows_header A (headers st) h" using related_header [OF R referenced(1) [OF h]] .
  show ?thesis
  proof (cases "\<exists>p. origin A h = Some (Dependent p)")
    case True
    then obtain p where p: "origin A h = Some (Dependent p)" ..
    then show ?thesis using header referenced(3) [OF h p] by (auto simp: primary_of_def shows_header_def)
  next
    case False
    then show ?thesis using header referenced(1) [OF h] by (auto simp: primary_of_def shows_header_def split: option.splits origin.splits)
  qed
qed

lemma capture_step:
  assumes R: "related A st" and step: "spec_step Capture A = Some A'"
  shows "\<exists>st'. code_step Capture st = Some st' \<and> related A' st'"
proof -
  from step obtain h hs where h: "handled (situations A) = h # hs" "point_to (primary_of A h) A = Some A'"
    by (auto split: list.splits)
  from current_header [OF R h(1)] obtain g where g: "eh_tls st = Some g" "caughtExceptions g = h" "h \<noteq> 0" "0 < references A h"
    "shows_header A (headers st) h" .
  have "h \<in> mentioned A" using h(1) by (simp add: mentioned_sets)
  from primary_header [OF R this] obtain t dest where p: "0 < references A (primary_of A h)"
    "origin A (primary_of A h) = Some (Primary t dest)" by blast
  have "object_of (primary_of A h) \<noteq> 0" using related_header [OF R p(1)] by (simp add: shows_header_def address_ok_def)
  moreover have "(if isDependentException (headers st h) then cxa_exception_from_thrown_object (primaryException (headers st h)) else h) =
    primary_of A h"
    using g(5) class_tests by (auto simp: shows_header_def primary_of_def split: option.splits origin.splits)
  ultimately have "code_step Capture st = Some (cxa_increment_exception_refcount (object_of (primary_of A h)) st)"
    using g native_header [OF g(5)] by (simp add: current_exception_def cxa_current_primary_exception_def Let_def)
  then show ?thesis using increment [OF R h(2) p] by blast
qed

lemma decrement:
  assumes "referenceCount (headers st p) = of_nat (Suc n)" "Suc n < 2 ^ 64" "object_of p \<noteq> 0"
  shows "cxa_decrement_exception_refcount (object_of p) st =
    st\<lparr>headers := (headers st)(p := (headers st p)\<lparr>referenceCount := of_nat n\<rparr>),
      events := events st @ (if n = 0 then (if exceptionDestructor (headers st p) \<noteq> 0
        then [Destructor (exceptionDestructor (headers st p)) (object_of p)] else []) @ [Freed p] else [])\<rparr>"
proof -
  have "(of_nat n :: u64) = 0 \<longleftrightarrow> n = 0" using assms(2) by (simp add: of_nat_eq_0_iff word_unat_eq_iff unsigned_of_nat take_bit_nat_eq_self)
  then show ?thesis using assms by (simp add: cxa_decrement_exception_refcount_def Let_def cxa_free_exception_def)
qed

lemma decrement_unpoint:
  assumes R: "related A st" and p: "0 < pointers A p"
  shows "related (unpoint p A) (cxa_decrement_exception_refcount (object_of p) st)"
proof -
  define A1 where "A1 = A\<lparr>pointers := (pointers A)(p := pointers A p - 1)\<rparr>"
  define A' where "A' = release p A1"
  obtain t dest where o: "origin A p = Some (Primary t dest)" by (rule pointed_primary [OF R p(1)])
  have header: "shows_header A (headers st) p" by (rule related_header [OF R referenced(2) [OF p]])
  have refs: "references A p = Suc (references A1 p)" using p by (simp add: references_def dependents_eq mentioned_def A1_def)
  have refs': "references A' p = references A1 p"
    by (rule references_cong) (simp_all add: A'_def release_def mentioned_def)
  have facts: "referenceCount (headers st p) = of_nat (Suc (references A1 p))" "Suc (references A1 p) < 2 ^ 64" "object_of p \<noteq> 0"
    "exceptionDestructor (headers st p) = dest" using header o by (simp_all add: shows_header_def address_ok_def refs)
  have bound: "references A' p < 2 ^ 64" using facts(2) refs' by simp
  have "related A' (cxa_decrement_exception_refcount (object_of p) st)"
  proof (rule related_count [OF R _ _ _ _ _ o referenced(2) [OF p] bound])
    show "cxa_decrement_exception_refcount (object_of p) st = st\<lparr>headers := (headers st)(p := (headers st p)\<lparr>referenceCount :=
        of_nat (references A' p)\<rparr>), events := events st @ (if references A1 p = 0 then destruction A p else [])\<rparr>"
      unfolding refs' decrement [OF facts(1-3)] by (simp add: facts(4) destruction_def o)
  qed (simp_all add: A'_def release_def A1_def destruction_def)
  then show ?thesis by (simp add: A'_def A1_def unpoint_def)
qed

lemma drop_step:
  assumes R: "related A st" and step: "spec_step (Drop p) A = Some A'"
  shows "\<exists>st'. code_step (Drop p) st = Some st' \<and> related A' st'"
  using decrement_unpoint [OF R, of p] step by (simp add: exception_ptr_destroy_def split: if_splits)

lemma assign_step:
  assumes R: "related A st" and step: "spec_step (Assign q p) A = Some A'"
  shows "\<exists>st'. code_step (Assign q p) st = Some st' \<and> related A' st'"
proof (cases "q = p")
  case True
  then have "A' = A" using step by (simp split: if_splits)
  then show ?thesis using R True by (simp add: exception_ptr_assign_def)
next
  case False
  with step obtain A1 where A1: "0 < pointers A q" "0 < pointers A p" "point_to p A = Some A1" "A' = unpoint q A1"
    by (auto simp: bind_eq_Some_conv split: if_splits)
  obtain t dest where "origin A p = Some (Primary t dest)" by (rule pointed_primary [OF R A1(2)])
  then have "related A1 (cxa_increment_exception_refcount (object_of p) st)"
    by (rule increment [OF R A1(3) referenced(2) [OF A1(2)]])
  moreover have "0 < pointers A1 q" using A1(1,3) False by (auto simp: point_to_def split: if_splits)
  ultimately show ?thesis using decrement_unpoint A1(4) False by (simp add: exception_ptr_assign_def)
qed

lemma rethrow_pointer_references:
  assumes "spec_step (Rethrow_pointer p d) A = Some A'"
  shows "references A' x = (if x = d then 1 else if x = p then Suc (references A p) else references A x)"
proof -
  from assms have A': "A' = A\<lparr>situations := Unwinding d # situations A, origin := (origin A)(d \<mapsto> Dependent p)\<rparr>"
    and "0 < pointers A p" "references A d = 0" by (simp_all add: free_address_def split: if_splits)
  then have new: "p \<noteq> d" "d \<notin> mentioned A" "pointers A d = 0" "dependents A d = {}" by (auto simp: references_def)
  have deps: "dependents A' x = (if x = p then insert d (dependents A p) else dependents A x)" for x
    using new(2) by (auto simp: dependents_eq A' mentioned_def)
  have "d \<notin> dependents A p" using new(2) by (simp add: dependents_eq)
  then show ?thesis using new by (auto simp: references_def A' mentioned_def deps [unfolded A'])
qed

lemma rethrow_pointer_step:
  assumes R: "related A st" and step: "spec_step (Rethrow_pointer p d) A = Some A'"
  shows "\<exists>st'. code_step (Rethrow_pointer p d) st = Some st' \<and> related A' st'"
proof -
  from step have p: "0 < pointers A p" "references A p < 2 ^ 64 - 1" and free: "address_ok d" "references A d = 0"
    and A': "A' = A\<lparr>situations := Unwinding d # situations A, origin := (origin A)(d \<mapsto> Dependent p)\<rparr>"
    by (simp_all add: free_address_def split: if_splits)
  obtain t dest where o: "origin A p = Some (Primary t dest)" by (rule pointed_primary [OF R p(1)])
  have header: "shows_header A (headers st) p" by (rule related_header [OF R referenced(2) [OF p(1)]])
  have "p \<noteq> d" using p(1) free(2) by (auto simp: references_def)
  have new: "d \<notin> mentioned A" "pointers A d = 0" "dependents A d = {}" using free(2) by (auto simp: references_def)
  define g where "g = (case eh_tls st of None \<Rightarrow> \<lparr>caughtExceptions = 0, uncaughtExceptions = 0\<rparr> | Some g \<Rightarrow> g)"
  have g: "chain (headers st) (caughtExceptions g) (remdups_adj (handled (situations A)))"
    "uncaughtExceptions g = of_nat (length (in_flight (situations A)))"
    using R by (auto simp: related_def g_def split: option.splits)
  let ?p = "(headers st p)\<lparr>referenceCount := referenceCount (headers st p) + 1\<rparr>"
  let ?d = "zero_header\<lparr>referenceCount := object_of p, exceptionType := t, unexpectedHandler := unexpected_handler st,
    terminateHandler := terminate_handler st, exception_class := kOurDependentExceptionClass,
    exception_cleanup := dependent_exception_cleanup\<rparr>"
  define st' where "st' = st\<lparr>headers := (headers st)(p := ?p, d := ?d),
    eh_tls := Some (g\<lparr>uncaughtExceptions := uncaughtExceptions g + 1\<rparr>)\<rparr>"
  have facts: "object_of p \<noteq> 0" "exceptionType (headers st p) = t" "d \<noteq> 0"
    using header o free(1) by (simp_all add: shows_header_def address_ok_def)
  have "code_step (Rethrow_pointer p d) st = Some st'"
    using facts \<open>p \<noteq> d\<close> by (simp add: rethrow_exception_def cxa_rethrow_primary_exception_def cxa_allocate_dependent_exception_def Let_def
        cxa_increment_exception_refcount_def cxa_get_globals_def g_def st'_def fun_upd_twist split: option.split)
  moreover have "related A' st'"
    unfolding related_def
  proof (intro conjI allI impI)
    have "Unwinding d \<notin> set (situations A)" "d \<notin> set (handled (situations A))"
      using new(1) by (auto simp: mentioned_sets in_flight_iff)
    then show "situations_ok (situations A')" using R by (simp add: related_def A')
    show "history A' = events st'" using R by (simp add: related_def A' st'_def)
    have "chain ((headers st)(p := ?p, d := ?d)) (caughtExceptions g) (remdups_adj (handled (situations A)))"
      using \<open>d \<notin> set (handled (situations A))\<close> by (intro chain_cong [OF g(1)]) auto
    then show "case eh_tls st' of None \<Rightarrow> situations A' = [] | Some g \<Rightarrow>
        chain (headers st') (caughtExceptions g) (remdups_adj (handled (situations A'))) \<and>
        uncaughtExceptions g = word_of_nat (length (in_flight (situations A')))"
      using g(2) by (simp add: st'_def A')
    have refs: "references A' x = (if x = d then 1 else if x = p then Suc (references A p) else references A x)" for x
      by (rule rethrow_pointer_references [OF step])
    fix x
    assume x: "0 < references A' x"
    consider "x = d" | "x = p" "x \<noteq> d" | "x \<noteq> d" "x \<noteq> p" by blast
    then show "shows_header A' (headers st') x"
    proof cases
      case 1
      have "count_list (handled (situations A)) d = 0" using new(1) by (simp add: mentioned_sets count_list_0_iff)
      then have "handler_count (situations A') d = 0" by (simp add: handler_count_def A')
      moreover have "origin A' d = Some (Dependent p)" "origin A' p = Some (Primary t dest)" "pointers A' d = 0"
        using o new(2) \<open>p \<noteq> d\<close> by (simp_all add: A')
      ultimately show ?thesis using free(1) 1 by (simp add: shows_header_def st'_def zero_header_def)
    next
      case 2
      have "handler_count (situations A') p = handler_count (situations A) p" "origin A' p = origin A p"
        using \<open>p \<noteq> d\<close> by (simp_all add: A')
      then show ?thesis using header o 2 refs [of p] p(2) \<open>p \<noteq> d\<close> by (simp add: shows_header_def st'_def)
    next
      case 3
      with x have x': "0 < references A x" by (simp add: refs)
      have "q \<noteq> d" if "origin A x = Some (Dependent q)" for q
        using dependent_mentioned [OF R x' that] that new(3) by (auto simp: dependents_eq)
      then show ?thesis
        by (intro shows_cong [OF related_header [OF R x']]) (use 3 in \<open>simp_all add: refs\<close>, simp_all add: A' st'_def)
    qed
  qed
  ultimately show ?thesis by blast
qed

section \<open>Leaving a handler\<close>

lemma handled_again: "situations_ok cs \<Longrightarrow> handled cs = h # hs \<Longrightarrow> h \<in> set hs \<Longrightarrow> hs \<noteq> [] \<and> hd hs = h"
  by (induction cs rule: handled.induct) auto

lemma last_origin:
  assumes R: "related A st" and h: "h \<in> mentioned A"
  obtains t dest where "origin A (primary_of A h) = Some (Primary t dest)"
    "origin A h = (if primary_of A h = h then Some (Primary t dest) else Some (Dependent (primary_of A h)))"
proof -
  from primary_header [OF R h] obtain t dest where p: "origin A (primary_of A h) = Some (Primary t dest)" by blast
  show ?thesis
  proof (rule that [OF p])
    show "origin A h = (if primary_of A h = h then Some (Primary t dest) else Some (Dependent (primary_of A h)))"
      using p related_header [OF R referenced(1) [OF h]]
      by (cases "origin A h") (auto simp: primary_of_def shows_header_def split: origin.splits)
  qed
qed

text \<open>The last situation of an exception has ended.\<close>

lemma last_references:
  assumes R: "related A st" and h: "handled (situations A) = h # handled cs" "in_flight cs = in_flight (situations A)"
    and last: "h \<notin> mentioned (A\<lparr>situations := cs\<rparr>)"
  shows "references A (primary_of A h) = Suc (references (A\<lparr>situations := cs\<rparr>) (primary_of A h))"
    "x \<noteq> primary_of A h \<Longrightarrow> x \<noteq> h \<Longrightarrow> references (A\<lparr>situations := cs\<rparr>) x = references A x"
    "primary_of A h \<noteq> h \<Longrightarrow> references (A\<lparr>situations := cs\<rparr>) h = 0"
proof -
  let ?A = "A\<lparr>situations := cs\<rparr>"
  define p where "p = primary_of A h"
  have mention: "mentioned ?A = mentioned A - {h}" "h \<in> mentioned A" using last h by (auto simp: mentioned_sets)
  from last_origin [OF R mention(2), folded p_def] obtain t dest
    where origin_h: "origin A h = (if p = h then Some (Primary t dest) else Some (Dependent p))" .
  have deps: "dependents ?A x = dependents A x - {h}" for x by (auto simp: dependents_eq mention(1))
  show "references A (primary_of A h) = Suc (references ?A (primary_of A h))" unfolding p_def [symmetric]
  proof (cases "p = h")
    case True
    then have "h \<notin> dependents A p" using origin_h by (simp add: dependents_eq)
    then show "references A p = Suc (references ?A p)" using True mention by (simp add: references_def deps)
  next
    case False
    then have "h \<in> dependents A p" using origin_h mention(2) by (simp add: dependents_eq)
    then have "card (dependents A p) = Suc (card (dependents A p - {h}))" by (intro card.remove) simp_all
    then show "references A p = Suc (references ?A p)" using False mention by (simp add: references_def deps)
  qed
  assume "primary_of A h \<noteq> h"
  then show "references ?A h = 0" using dependent_unreferenced [OF R referenced(1) [OF mention(2)], of p] origin_h mention
    by (simp add: references_def deps p_def)
next
  let ?A = "A\<lparr>situations := cs\<rparr>"
  have mention: "mentioned ?A = mentioned A - {h}" "h \<in> mentioned A" using last h by (auto simp: mentioned_sets)
  have deps: "dependents ?A x = dependents A x - {h}" by (auto simp: dependents_eq mention(1))
  assume x: "x \<noteq> primary_of A h" "x \<noteq> h"
  then have "h \<notin> dependents A x" by (auto simp: dependents_eq primary_of_def)
  then show "references ?A x = references A x" using x mention by (simp add: references_def deps)
qed

lemma last_ended:
  assumes R: "related A st" and h: "h \<in> mentioned A" and last: "h \<notin> mentioned (A\<lparr>situations := cs\<rparr>)"
  shows "situations (ended h (A\<lparr>situations := cs\<rparr>)) = cs" "origin (ended h (A\<lparr>situations := cs\<rparr>)) = origin A"
    "pointers (ended h (A\<lparr>situations := cs\<rparr>)) = pointers A"
    "history (ended h (A\<lparr>situations := cs\<rparr>)) = history A @ (if primary_of A h = h then [] else [Freed h]) @
      (if references (A\<lparr>situations := cs\<rparr>) (primary_of A h) = 0 then destruction A (primary_of A h) else [])"
proof -
  from last_origin [OF R h] obtain t dest where p: "origin A (primary_of A h) = Some (Primary t dest)"
    and o: "origin A h = (if primary_of A h = h then Some (Primary t dest) else Some (Dependent (primary_of A h)))" .
  show "situations (ended h (A\<lparr>situations := cs\<rparr>)) = cs" "origin (ended h (A\<lparr>situations := cs\<rparr>)) = origin A"
    "pointers (ended h (A\<lparr>situations := cs\<rparr>)) = pointers A"
    by (simp_all add: ended_def release_def split: option.splits origin.splits)
  show "history (ended h (A\<lparr>situations := cs\<rparr>)) = history A @ (if primary_of A h = h then [] else [Freed h]) @
      (if references (A\<lparr>situations := cs\<rparr>) (primary_of A h) = 0 then destruction A (primary_of A h) else [])"
  proof (cases "primary_of A h = h")
    case True
    then show ?thesis using last p o by (simp add: ended_def release_def destruction_def)
  next
    case False
    then show ?thesis using last p o
      by (simp add: ended_def release_def destruction_def references_def dependents_eq mentioned_def)
  qed
qed

text \<open>The situation \<open>Handling h\<close> is taken out of the situations: what is left is \<open>cs\<close>.\<close>

lemma end_catch_step:
  assumes R: "related A st" and h: "handled (situations A) = h # handled cs" "in_flight cs = in_flight (situations A)" "situations_ok cs"
  shows "\<exists>st'. cxa_end_catch st = Some st' \<and> related (ended h (A\<lparr>situations := cs\<rparr>)) st'"
proof -
  let ?A = "A\<lparr>situations := cs\<rparr>"
  from current_header [OF R h(1)] obtain g where g: "eh_tls st = Some g" "caughtExceptions g = h" "h \<noteq> 0" "0 < references A h"
    "shows_header A (headers st) h" .
  have tls: "chain (headers st) h (remdups_adj (h # handled cs))" "uncaughtExceptions g = of_nat (length (in_flight cs))"
    using R g(1,2) h(1,2) by (simp_all add: related_def)
  have unwinding: "Unwinding x \<in> set cs \<longleftrightarrow> Unwinding x \<in> set (situations A)" for x by (simp add: in_flight_iff [symmetric] h(2))
  define n where "n = count_list (handled cs) h"
  have count: "handler_count (situations A) x = (if x = h then (if Unwinding h \<in> set cs then - int (n + 1) else int (n + 1))
      else handler_count cs x)" for x
    by (simp add: handler_count_def h(1) unwinding n_def)
  have count_h: "handler_count cs h = (if Unwinding h \<in> set cs then - int n else int n)" by (simp add: handler_count_def n_def)
  define g' where "g' = (if n = 0 then g\<lparr>caughtExceptions := nextException (headers st h)\<rparr> else g)"
  let ?h = "(headers st h)\<lparr>handlerCount := handler_count cs h\<rparr>"
  define st1 where "st1 = st\<lparr>headers := (headers st)(h := ?h), eh_tls := Some g'\<rparr>"
  have chain': "chain hs (caughtExceptions g') (remdups_adj (handled cs))" if "\<And>x. nextException (hs x) = nextException (headers st x)" for hs
  proof -
    have "handled cs \<noteq> [] \<and> hd (handled cs) = h" if "n \<noteq> 0"
    proof -
      have "h \<in> set (handled cs)" using that by (metis n_def count_list_0_iff)
      moreover have "situations_ok (situations A)" using R by (simp add: related_def)
      ultimately show ?thesis using h(1) by (auto dest: handled_again)
    qed
    moreover have "\<not> (handled cs \<noteq> [] \<and> hd (handled cs) = h)" if "n = 0"
      using that hd_in_set [of "handled cs"] by (auto simp: n_def count_list_0_iff)
    ultimately have "chain (headers st) (caughtExceptions g') (remdups_adj (handled cs))"
      using tls(1) g(2) by (cases "n = 0") (auto simp: g'_def remdups_adj_push split: if_splits)
    then show ?thesis by (rule chain_cong) (simp add: that)
  qed
  have uncaught: "uncaughtExceptions g' = of_nat (length (in_flight cs))" using tls(2) by (simp add: g'_def)
  have hcount: "handlerCount (headers st h) = handler_count (situations A) h" using g(5) by (simp add: shows_header_def)
  have native: "isOurExceptionClass (headers st h)" by (rule native_header [OF g(5)])
  have code: "cxa_end_catch st = Some (if n = 0 \<and> Unwinding h \<notin> set cs then destroy_caught h st1 else st1)"
    using g native hcount count [of h] count_h
    by (auto simp: cxa_end_catch_def Let_def st1_def g'_def)
  show ?thesis
  proof (cases "h \<in> mentioned ?A")
    case True
    then have alive: "\<not> (n = 0 \<and> Unwinding h \<notin> set cs)" by (auto simp: mentioned_sets n_def in_flight_iff count_list_0_iff)
    have "mentioned ?A = mentioned A" using True h(1,2) by (auto simp: mentioned_sets)
    then have refs: "references ?A x = references A x" for x by (intro references_cong) simp_all
    have "related ?A st1"
      unfolding related_def
    proof (intro conjI allI impI)
      show "situations_ok (situations ?A)" "history ?A = events st1" using R h(3) by (simp_all add: related_def st1_def)
      show "case eh_tls st1 of None \<Rightarrow> situations ?A = [] | Some g \<Rightarrow>
          chain (headers st1) (caughtExceptions g) (remdups_adj (handled (situations ?A))) \<and>
          uncaughtExceptions g = word_of_nat (length (in_flight (situations ?A)))"
        using chain' [of "headers st1"] uncaught by (simp add: st1_def)
      fix x
      assume x: "0 < references ?A x"
      show "shows_header ?A (headers st1) x"
      proof (cases "x = h")
        case True
        show ?thesis unfolding True by (intro shows_update [OF g(5)]) (simp_all add: refs, simp_all add: st1_def)
      next
        case False
        show ?thesis by (rule shows_cong [OF related_header [OF R]])
          (use x False in \<open>simp_all add: refs count\<close>, simp_all add: st1_def)
      qed
    qed
    then show ?thesis using code alive True by (simp add: ended_def)
  next
    case False
    then have dead: "n = 0" "Unwinding h \<notin> set cs" by (auto simp: mentioned_sets n_def in_flight_iff count_list_0_iff)
    have mention: "mentioned ?A = mentioned A - {h}" "h \<in> mentioned A" using False h(1,2) by (auto simp: mentioned_sets)
    define p where "p = primary_of A h"
    define es where "es = (if p = h then [] else [Freed h])"
    from last_origin [OF R mention(2), folded p_def] obtain t dest where p: "origin A p = Some (Primary t dest)"
      and origin_h: "origin A h = (if p = h then Some (Primary t dest) else Some (Dependent p))" .
    have "0 < references A p" using primary_header [OF R mention(2)] by (simp add: p_def)
    then have header_p: "shows_header A (headers st) p" by (rule related_header [OF R])
    note refs = last_references [OF R h(1,2) False, folded p_def]
    have facts: "referenceCount (headers st1 p) = of_nat (Suc (references ?A p))" "Suc (references ?A p) < 2 ^ 64" "object_of p \<noteq> 0"
      "exceptionDestructor (headers st1 p) = dest"
      using header_p p refs(1) by (auto simp: shows_header_def address_ok_def st1_def)
    let ?es = "es @ (if references ?A p = 0 then destruction A p else [])"
    define st' where "st' = st1\<lparr>headers := (headers st1)(p := (headers st1 p)\<lparr>referenceCount := of_nat (references ?A p)\<rparr>),
      events := events st @ ?es\<rparr>"
    define A' where "A' = ended h ?A"
    have A': "situations A' = cs" "origin A' = origin A" "pointers A' = pointers A" "history A' = history A @ ?es"
      using last_ended [OF R mention(2) False, folded p_def] by (simp_all add: A'_def es_def)
    have refs': "references A' x = references ?A x" for x by (rule references_cong) (simp_all add: mentioned_def A')
    have "destroy_caught h st1 = cxa_decrement_exception_refcount (object_of p) (st1\<lparr>events := events st1 @ es\<rparr>)"
      using g(5) origin_h class_tests [of "headers st1 h"]
      by (auto simp: destroy_caught_def Let_def es_def shows_header_def cxa_free_dependent_exception_def st1_def split: if_splits)
    then have code': "cxa_end_catch st = Some st'"
      using decrement [of "st1\<lparr>events := events st1 @ es\<rparr>" p "references ?A p"] facts dead
      by (simp add: code st'_def destruction_def p) (simp add: st1_def)
    moreover have "related A' st'"
      unfolding related_def
    proof (intro conjI allI impI)
      show "situations_ok (situations A')" "history A' = events st'" using R h(3) by (simp_all add: related_def A' st'_def)
      show "case eh_tls st' of None \<Rightarrow> situations A' = [] | Some g \<Rightarrow>
          chain (headers st') (caughtExceptions g) (remdups_adj (handled (situations A'))) \<and>
          uncaughtExceptions g = word_of_nat (length (in_flight (situations A')))"
        using chain' [of "headers st'"] uncaught by (simp add: st'_def st1_def A')
      fix x
      assume x: "0 < references A' x"
      consider "x = p" | "x \<noteq> p" "x \<noteq> h" | "x = h" "x \<noteq> p" by blast
      then show "shows_header A' (headers st') x"
      proof cases
        case 1
        show ?thesis unfolding 1 using header_p p facts(2) count [of p]
          by (auto simp: shows_header_def st'_def st1_def A' refs' [unfolded A'])
      next
        case 2
        show ?thesis by (rule shows_cong [OF related_header [OF R]])
          (use x 2 in \<open>simp_all add: refs' refs\<close>, simp_all add: st'_def st1_def A' count)
      next
        case 3
        then show ?thesis using x refs(3) by (simp add: refs')
      qed
    qed
    ultimately show ?thesis by (simp add: A'_def)
  qed
qed

lemma leave_step:
  assumes R: "related A st" and step: "spec_step Leave A = Some A'"
  shows "\<exists>st'. code_step Leave st = Some st' \<and> related A' st'"
proof -
  from step obtain h cs where h: "situations A = Handling h # cs" "A' = ended h (A\<lparr>situations := cs\<rparr>)"
    by (auto split: list.splits situation.splits)
  have "situations_ok cs" using R h(1) by (simp add: related_def)
  then show ?thesis using end_catch_step [OF R, of h cs] h by simp
qed

lemma leave_by_exception_step:
  assumes R: "related A st" and step: "spec_step Leave_by_exception A = Some A'"
  shows "\<exists>st'. code_step Leave_by_exception st = Some st' \<and> related A' st'"
proof -
  from step obtain g h cs where h: "situations A = Unwinding g # Handling h # cs" "A' = ended h (A\<lparr>situations := Unwinding g # cs\<rparr>)"
    by (auto split: list.splits situation.splits)
  have ok: "situations_ok (Unwinding g # Handling h # cs)" using R h(1) by (simp add: related_def)
  have "hd (handled cs) = g" if "g \<in> set (handled cs)"
  proof -
    have "h = g" using ok that by simp
    then show ?thesis using ok that by simp
  qed
  then have "situations_ok (Unwinding g # cs)" using ok by simp
  then show ?thesis using end_catch_step [OF R, of h "Unwinding g # cs"] h by simp
qed

section \<open>Runs\<close>

lemma code_follows_spec:
  assumes "related A st" "spec_step c A = Some A'"
  shows "\<exists>st'. code_step c st = Some st' \<and> related A' st'"
proof (cases c)
  case (Throw h n t dest) then show ?thesis using throw_step assms by simp
next
  case (Enter h) then show ?thesis using enter_step assms by simp
next
  case Leave then show ?thesis using leave_step assms by simp
next
  case Leave_by_exception then show ?thesis using leave_by_exception_step assms by simp
next
  case Rethrow then show ?thesis using rethrow_step assms by simp
next
  case Capture then show ?thesis using capture_step assms by simp
next
  case (Copy p) then show ?thesis using copy_step assms by simp
next
  case (Assign q p) then show ?thesis using assign_step assms by simp
next
  case (Drop p) then show ?thesis using drop_step assms by simp
next
  case (Rethrow_pointer p d) then show ?thesis using rethrow_pointer_step assms by simp
qed

interpretation eh: simulation spec_step code_step related
  by unfold_locales (rule code_follows_spec)

end
