(* ===== verification/ExceptionProperties.thy ===== *)
theory ExceptionProperties
  imports ExceptionSteps
begin

text \<open>
  What the calls of the exception objects promise to a thread: they refine the stack of contexts, every exception is
  released once, when nothing refers to it, and an exception without a handler ends in its own terminate handler. The
  last property is about a rethrow that the specification leaves out.
\<close>

section \<open>Observers\<close>

definition current_type :: "eh_spec \<Rightarrow> u64" where
  "current_type A = (case handled (situations A) of
     [] \<Rightarrow> 0
   | h # hs \<Rightarrow> (case origin A (primary_of A h) of Some (Primary t dest) \<Rightarrow> t | _ \<Rightarrow> 0))"

lemma uncaught_shown: "related A st \<Longrightarrow> cxa_uncaught_exceptions st = of_nat (length (in_flight (situations A)))"
  by (auto simp: related_def cxa_uncaught_exceptions_def split: option.splits)

lemma type_shown:
  assumes R: "related A st"
  shows "cxa_current_exception_type st = current_type A"
proof (cases "handled (situations A)")
  case Nil
  then show ?thesis using R
    by (auto simp: related_def cxa_current_exception_type_def current_type_def Let_def split: option.splits)
next
  case (Cons h hs)
  from current_header [OF R Cons] obtain g where g: "eh_tls st = Some g" "caughtExceptions g = h" "h \<noteq> 0"
    "shows_header A (headers st) h" by metis
  have "h \<in> mentioned A" using Cons by (simp add: mentioned_sets)
  from primary_header [OF R this] obtain t dest where "origin A (primary_of A h) = Some (Primary t dest)"
    "exceptionType (headers st h) = t" by blast
  then show ?thesis using g native_header [OF g(4)]
    by (simp add: cxa_current_exception_type_def current_type_def Let_def Cons)
qed

text \<open>C27. Whatever a thread does with exceptions, as long as it does not rethrow an exception that is already on its way and
  the counts of references do not overflow, the calls of the library succeed. The destructors and the releases of memory
  then are those of the specification, in its order, \<open>__cxa_uncaught_exceptions\<close> is the number of exceptions in flight, and
  \<open>__cxa_current_exception_type\<close> is the type of the object that the innermost active handler handles, also when it was
  rethrown from a pointer.\<close>

theorem exception_calls_refine:
  assumes "spec_run cs spec_init = Some A" and "eh_tls st = None" and "events st = []"
  shows "\<exists>st'. code_run cs st = Some st' \<and> events st' = history A \<and>
    cxa_uncaught_exceptions st' = of_nat (length (in_flight (situations A))) \<and>
    cxa_current_exception_type st' = current_type A"
proof -
  obtain st' where "code_run cs st = Some st'" "related A st'"
    using eh.run [OF related_init [OF assms(2,3)] assms(1)] by blast
  then show ?thesis using uncaught_shown type_shown by (auto simp: related_def)
qed

text \<open>A thread catches an exception, keeps a pointer to it, and rethrows and catches it from there.\<close>

definition sample_calls :: "call list" where
  "sample_calls = [Throw 0x1000 8 0x50 0x60, Enter 0x1000, Capture, Leave, Rethrow_pointer 0x1000 0x2000, Enter 0x2000]"

definition sample_state :: eh_state where
  "sample_state = \<lparr>headers = (\<lambda>h. zero_header), eh_tls = None, terminate_handler = 0x70, unexpected_handler = 0x80, events = []\<rparr>"

definition sample_spec :: eh_spec where
  "sample_spec = \<lparr>situations = [Handling 0x2000], origin = [0x1000 \<mapsto> Primary 0x50 0x60, 0x2000 \<mapsto> Dependent 0x1000],
     pointers = (\<lambda>h. 0)(0x1000 := 1), history = []\<rparr>"

lemma sample_spec_run: "spec_run sample_calls spec_init = Some sample_spec"
  by (simp add: sample_calls_def sample_spec_def spec_init_def free_address_def address_ok_def object_of_def references_def
      mentioned_def dependents_def primary_of_def point_to_def ended_def release_def)

lemma sample_state_simps [simp]: "eh_tls sample_state = None" "events sample_state = []"
  by (simp_all add: sample_state_def)

lemma sample_type: "current_type sample_spec = 0x50"
  by (simp add: current_type_def sample_spec_def primary_of_def)

theorem exception_calls_refine_witness:
  "\<exists>st'. code_run sample_calls sample_state = Some st' \<and> events st' = [] \<and> cxa_uncaught_exceptions st' = 0 \<and>
    cxa_current_exception_type st' = 0x50"
  using exception_calls_refine [OF sample_spec_run, of sample_state] by (simp add: sample_type) (simp add: sample_spec_def)

section \<open>Releases\<close>

text \<open>The calls that allocate a header at \<open>h\<close>.\<close>

fun allocates :: "u64 \<Rightarrow> call \<Rightarrow> bool" where
  "allocates h (Throw h' n t dest) = (h' = h)"
| "allocates h (Rethrow_pointer p d) = (d = h)"
| "allocates h c = False"

abbreviation releases :: "eh_spec \<Rightarrow> u64 \<Rightarrow> nat" where
  "releases A h \<equiv> count_list (history A) (Freed h)"

abbreviation live :: "eh_spec \<Rightarrow> u64 \<Rightarrow> nat" where
  "live A h \<equiv> of_bool (0 < references A h)"

lemma references_history [simp]: "references (A\<lparr>history := es\<rparr>) x = references A x"
  by (simp add: references_def dependents_eq mentioned_def)

lemma destruction_releases:
  "origin A p = Some (Primary t dest) \<Longrightarrow> count_list (destruction A p) (Freed x) = of_bool (x = p)"
  by (simp add: destruction_def)

lemma release_balance:
  assumes "references A p = Suc (references A1 p)" "\<And>x. x \<noteq> p \<Longrightarrow> references A1 x = references A x"
    "history A1 = history A" "origin A1 p = Some (Primary t dest)"
  shows "releases (release p A1) x + live (release p A1) x = releases A x + live A x"
  using assms by (cases "x = p") (auto simp: release_def destruction_releases [OF assms(4)])

lemma ended_balance:
  assumes R: "related A st" and h: "handled (situations A) = h # handled cs" "in_flight cs = in_flight (situations A)"
  shows "releases (ended h (A\<lparr>situations := cs\<rparr>)) x + live (ended h (A\<lparr>situations := cs\<rparr>)) x = releases A x + live A x"
proof (cases "h \<in> mentioned (A\<lparr>situations := cs\<rparr>)")
  case True
  then have "mentioned (A\<lparr>situations := cs\<rparr>) = mentioned A" using h by (auto simp: mentioned_sets)
  then have "references (A\<lparr>situations := cs\<rparr>) x = references A x" by (intro references_cong) simp_all
  then show ?thesis using True by (simp add: ended_def)
next
  case False
  have mention: "h \<in> mentioned A" using h by (simp add: mentioned_sets)
  define p where "p = primary_of A h"
  from last_origin [OF R mention, folded p_def] obtain t dest where o: "origin A p = Some (Primary t dest)" by metis
  note refs = last_references [OF R h False, folded p_def]
  note A' = last_ended [OF R mention False, folded p_def]
  have same: "references (ended h (A\<lparr>situations := cs\<rparr>)) y = references (A\<lparr>situations := cs\<rparr>) y" for y
    by (rule references_cong) (simp_all add: mentioned_def A')
  have "0 < references A h" by (rule referenced(1) [OF mention])
  consider "x = p" | "x = h" "x \<noteq> p" | "x \<noteq> h" "x \<noteq> p" by blast
  then show ?thesis
  proof cases
    case 1
    then show ?thesis using refs(1) by (simp add: same A'(4) destruction_releases [OF o])
  next
    case 2
    then have "p \<noteq> h" by simp
    then show ?thesis using refs(3) 2 \<open>0 < references A h\<close> by (simp add: same A'(4) destruction_releases [OF o])
  next
    case 3
    then show ?thesis using refs(2) by (simp add: same A'(4) destruction_releases [OF o])
  qed
qed

lemma point_to_balance:
  assumes "point_to p A = Some A'" "0 < references A p"
  shows "releases A' x + live A' x = releases A x + live A x"
proof -
  have "A' = A\<lparr>pointers := (pointers A)(p := pointers A p + 1)\<rparr>" using assms(1) by (simp add: point_to_def split: if_splits)
  then show ?thesis using assms(2) by (cases "x = p") (simp_all add: references_def dependents_eq mentioned_def)
qed

lemma unpoint_balance:
  assumes p: "0 < pointers A p" and o: "origin A p = Some (Primary t dest)"
  shows "releases (unpoint p A) x + live (unpoint p A) x = releases A x + live A x"
  unfolding unpoint_def
proof (rule release_balance)
  show "references A p = Suc (references (A\<lparr>pointers := (pointers A)(p := pointers A p - 1)\<rparr>) p)"
    "y \<noteq> p \<Longrightarrow> references (A\<lparr>pointers := (pointers A)(p := pointers A p - 1)\<rparr>) y = references A y" for y
    using p by (simp_all add: references_def dependents_eq mentioned_def)
qed (simp_all add: o)

lemma step_balance:
  assumes R: "related A st" and step: "spec_step c A = Some A'"
  shows "releases A' x + live A' x = releases A x + live A x + of_bool (allocates x c)"
proof (cases c)
  case (Throw h n t dest)
  have "references A' x = (if x = h then 1 else references A x)" by (rule throw_references) (use step Throw in simp)
  moreover have "history A' = history A" "references A h = 0" using step Throw by (auto simp: free_address_def split: if_splits)
  ultimately show ?thesis using Throw by auto
next
  case (Rethrow_pointer p d)
  have "references A' x = (if x = d then 1 else if x = p then Suc (references A p) else references A x)"
    by (rule rethrow_pointer_references) (use step Rethrow_pointer in simp)
  moreover have "history A' = history A" "references A d = 0" "0 < references A p"
    using step Rethrow_pointer referenced(2) [of A p] by (auto simp: free_address_def split: if_splits)
  ultimately show ?thesis using Rethrow_pointer by auto
next
  case (Enter h)
  then have "mentioned A' = mentioned A" "origin A' = origin A" "pointers A' = pointers A" "history A' = history A"
    using step by (auto simp: mentioned_def split: list.splits situation.splits if_splits)
  then show ?thesis using Enter references_cong [of A' A x] by simp
next
  case Rethrow
  then have "mentioned A' = mentioned A" "origin A' = origin A" "pointers A' = pointers A" "history A' = history A"
    using step by (auto simp: mentioned_sets split: list.splits if_splits)
  then show ?thesis using Rethrow references_cong [of A' A x] by simp
next
  case Leave
  then obtain h cs where "situations A = Handling h # cs" "A' = ended h (A\<lparr>situations := cs\<rparr>)"
    using step by (auto split: list.splits situation.splits)
  then show ?thesis using ended_balance [OF R, of h cs x] Leave by simp
next
  case Leave_by_exception
  then obtain g h cs where "situations A = Unwinding g # Handling h # cs" "A' = ended h (A\<lparr>situations := Unwinding g # cs\<rparr>)"
    using step by (auto split: list.splits situation.splits)
  then show ?thesis using ended_balance [OF R, of h "Unwinding g # cs" x] Leave_by_exception by simp
next
  case Capture
  then obtain h hs where h: "handled (situations A) = h # hs" "point_to (primary_of A h) A = Some A'"
    using step by (auto split: list.splits)
  then have "h \<in> mentioned A" by (simp add: mentioned_sets)
  then show ?thesis using point_to_balance [OF h(2)] primary_header [OF R] Capture by simp
next
  case (Copy p)
  then have "point_to p A = Some A'" "0 < references A p" using step referenced(2) [of A p] by (simp_all split: if_splits)
  then show ?thesis using point_to_balance Copy by simp
next
  case (Assign q p)
  show ?thesis
  proof (cases "q = p")
    case True
    then show ?thesis using step Assign by (simp split: if_splits)
  next
    case False
    with step Assign obtain A1 where A1: "0 < pointers A q" "0 < pointers A p" "point_to p A = Some A1" "A' = unpoint q A1"
      by (auto simp: bind_eq_Some_conv split: if_splits)
    obtain t dest where "origin A q = Some (Primary t dest)" by (rule pointed_primary [OF R A1(1)])
    moreover have "0 < pointers A1 q" "origin A1 = origin A" using A1(1,3) False by (auto simp: point_to_def split: if_splits)
    ultimately show ?thesis using unpoint_balance point_to_balance [OF A1(3) referenced(2) [OF A1(2)]] A1(4) Assign by simp
  qed
next
  case (Drop p)
  then have p: "0 < pointers A p" "A' = unpoint p A" using step by (simp_all split: if_splits)
  obtain t dest where "origin A p = Some (Primary t dest)" by (rule pointed_primary [OF R p(1)])
  then show ?thesis using unpoint_balance p Drop by simp
qed

lemma run_balance:
  assumes "related A st" "spec_run cs A = Some A'"
  shows "releases A' x + live A' x = releases A x + live A x + length (filter (allocates x) cs)"
  using assms
proof (induction cs arbitrary: A st)
  case (Cons c cs)
  then obtain A1 where A1: "spec_step c A = Some A1" "spec_run cs A1 = Some A'" by (auto simp: bind_eq_Some_conv)
  obtain st1 where "related A1 st1" using code_follows_spec [OF Cons.prems(1) A1(1)] by blast
  from Cons.IH [OF this A1(2)] step_balance [OF Cons.prems(1) A1(1), of x] show ?case by simp
qed simp

text \<open>C28. No exception leaks and none is released twice: after any run of a thread, the code has released an address exactly
  as often as a throw-expression or the rethrowing of a pointer allocated it, except for one allocation that is still
  outstanding when a context, an exception pointer or a dependent exception refers to it.\<close>

theorem exceptions_released_once:
  assumes "spec_run cs spec_init = Some A" and "eh_tls st = None" and "events st = []" and "code_run cs st = Some st'"
  shows "count_list (events st') (Freed h) + (if references A h = 0 then 0 else 1) = length (filter (allocates h) cs)"
proof -
  have R: "related spec_init st" by (rule related_init [OF assms(2,3)])
  have "history A = events st'" using eh.run [OF R assms(1)] assms(4) by (auto simp: related_def)
  moreover have "releases A h + live A h = length (filter (allocates h) cs)"
    using run_balance [OF R assms(1), of h] by (simp add: spec_init_def references_def mentioned_def dependents_def)
  ultimately show ?thesis by (auto split: if_splits)
qed

theorem exceptions_released_once_witness:
  "\<exists>st'. code_run (sample_calls @ [Leave, Drop 0x1000]) sample_state = Some st' \<and>
    count_list (events st') (Freed 0x1000) = 1 \<and> count_list (events st') (Freed 0x2000) = 1"
proof -
  let ?A = "\<lparr>situations = [], origin = [0x1000 \<mapsto> Primary 0x50 0x60, 0x2000 \<mapsto> Dependent 0x1000], pointers = (\<lambda>h. 0),
     history = [Freed 0x2000, Destructor 0x60 0x1080, Freed 0x1000]\<rparr>"
  let ?cs = "sample_calls @ [Leave, Drop 0x1000]"
  have run: "spec_run ?cs spec_init = Some ?A"
    by (simp add: run_calls_append sample_spec_run) (simp add: sample_spec_def references_def mentioned_def dependents_def ended_def release_def
        unpoint_def destruction_def object_of_def fun_upd_idem)
  then obtain st' where st': "code_run ?cs sample_state = Some st'"
    using eh.run [OF related_init] sample_state_simps by blast
  note once = exceptions_released_once [OF run sample_state_simps st']
  have "references ?A a = 0" for a by (simp add: references_def mentioned_def dependents_def)
  then show ?thesis using st' once [of "0x1000"] once [of "0x2000"] by (simp add: sample_calls_def)
qed

section \<open>No handler\<close>

text \<open>When the unwinder finds no handler and \<open>_Unwind_RaiseException\<close> returns, \<open>__cxa_throw\<close> marks the exception as caught
  and calls the terminate handler that was installed when it was thrown; the handler sees it as the current exception and
  no longer as uncaught.\<close>

lemma uncaught_throw_terminates:
  assumes "cxa_throw True Some (object_of h) t dest st = (st', f)" and "h \<noteq> 0"
  shows "f = Terminate (terminate_handler st) \<and> std_terminate st' = terminate_handler st \<and>
    cxa_current_exception_type st' = t \<and> cxa_uncaught_exceptions st' = cxa_uncaught_exceptions st"
proof -
  define g where "g = (case eh_tls st of None \<Rightarrow> \<lparr>caughtExceptions = 0, uncaughtExceptions = 0\<rparr> | Some g \<Rightarrow> g)"
  have uncaught: "cxa_uncaught_exceptions st = uncaughtExceptions g"
    by (simp add: cxa_uncaught_exceptions_def g_def split: option.splits)
  have ours: "isOurExceptionClass e" if "exception_class e = kOurExceptionClass" for e
    using class_tests(1) [OF that] by simp
  have globals: "cxa_get_globals True st = Some (st\<lparr>eh_tls := Some g\<rparr>, g)"
    by (simp add: cxa_get_globals_def g_def Let_def split: option.splits)
  show ?thesis using assms
    by (simp add: cxa_throw_def globals failed_throw_def begin_catch_then_def cxa_begin_catch_def Let_def ours uncaught
        cxa_get_globals_def [of True "a\<lparr>eh_tls := Some b\<rparr>" for a b])
      (auto simp: std_terminate_def cxa_current_exception_type_def cxa_uncaught_exceptions_def ours split: if_splits)
qed

lemma uncaught_throw_terminates_witness:
  "\<exists>st'. cxa_throw True Some (object_of 0x1000) 0x50 0x60 sample_state = (st', Terminate 0x70) \<and>
    std_terminate st' = 0x70 \<and> cxa_current_exception_type st' = 0x50 \<and> cxa_uncaught_exceptions st' = 0"
proof -
  obtain st' f where r: "cxa_throw True Some (object_of 0x1000) 0x50 0x60 sample_state = (st', f)" by (metis surj_pair)
  have "terminate_handler sample_state = 0x70" "cxa_uncaught_exceptions sample_state = 0"
    by (simp_all add: sample_state_def cxa_uncaught_exceptions_def)
  then show ?thesis using uncaught_throw_terminates [OF r] r by auto
qed

section \<open>A rethrow that is not in the specification\<close>

text \<open>C39. A local object of the handler of an exception, destroyed because of \<open>throw;\<close>, may itself rethrow the exception and
  catch it. \<open>__cxa_rethrow\<close> then negates the count of handlers a second time, so that it no longer shows that the
  exception is on its way: the end of the outer handler destroys an exception that is still in flight.\<close>

theorem nested_rethrow_destroys:
  assumes "eh_tls st = None" and "events st = []" and "address_ok h"
  shows "\<exists>st'. code_run [Throw h n t dest, Enter h, Rethrow, Rethrow, Enter h, Leave, Leave_by_exception] st = Some st' \<and>
    Freed h \<in> set (events st') \<and> cxa_uncaught_exceptions st' = 1"
proof -
  have ours: "isOurExceptionClass e \<and> \<not> isDependentException e" if "exception_class e = kOurExceptionClass" for e
    using class_tests(1) [OF that] .
  have h: "h \<noteq> 0" "object_of h \<noteq> 0" using assms(3) by (simp_all add: address_ok_def)
  show ?thesis
    using h by (simp add: assms(1,2) cxa_allocate_exception_def Let_def cxa_throw_def cxa_get_globals_def zero_header_def
        cxa_begin_catch_def cxa_rethrow_def cxa_end_catch_def destroy_caught_def cxa_decrement_exception_refcount_def
        cxa_free_exception_def cxa_uncaught_exceptions_def ours)
qed

theorem nested_rethrow_destroys_witness:
  "\<exists>st'. code_run [Throw 0x1000 8 0x50 0x60, Enter 0x1000, Rethrow, Rethrow, Enter 0x1000, Leave, Leave_by_exception] sample_state =
      Some st' \<and> Freed 0x1000 \<in> set (events st') \<and> cxa_uncaught_exceptions st' = 1"
  by (rule nested_rethrow_destroys) (simp_all add: address_ok_def object_of_def)

end
