(* ===== verification/PhaseBarrier.thy ===== *)
theory PhaseBarrier
  imports Schedules
begin

unbundle bit_operations_syntax

text \<open>
  Barriers for the threads of a device (\<open>include/hip/std/detail/libcxx/include/barrier\<close>, in the build without the tree
  barrier, as \<open>hip/std/detail/__config\<close> selects): the contract that \<open>barrier\<close> keeps, the central barrier with a completion
  function, and the barrier without one, packed into a word of 64 bits. Every atomic operation is one step of a thread, the
  interleaving is arbitrary and memory is sequentially consistent. A thread that polls has no step while the test fails.
\<close>

section \<open>The contract\<close>

text \<open>One step of some member.\<close>

definition moves :: "('s \<Rightarrow> 't \<Rightarrow> 's list) \<Rightarrow> 't set \<Rightarrow> 's \<Rightarrow> 's \<Rightarrow> bool" where
  "moves steps members s s' \<longleftrightarrow> (\<exists>t\<in>members. s' \<in> set (steps s t))"

lemma follow_moves:
  "follow steps s ks = Some s' \<Longrightarrow> fst ` set ks \<subseteq> members \<Longrightarrow> reached (moves steps members) start s \<Longrightarrow>
   reached (moves steps members) start s'"
proof (induction steps s ks rule: follow.induct)
  case (2 steps s t k ks)
  then have k: "k < length (steps s t)" and f: "follow steps (steps s t ! k) ks = Some s'"
    by (simp_all split: if_splits)
  have "moves steps members s (steps s t ! k)" using "2.prems"(2) k by (auto simp: moves_def intro!: bexI [of _ t])
  then have "reached (moves steps members) start (steps s t ! k)" using "2.prems"(3) by (blast intro: reached_step)
  with "2.IH" [OF k f] "2.prems"(2) show ?case by simp
qed simp

text \<open>\<open>arrivals s t\<close> counts the calls of \<open>arrive\<close> by \<open>t\<close> whose arrival has been counted; \<open>passed s t\<close> says that \<open>t\<close> is not
  in a call and holds no token, \<open>left s t\<close> that it has dropped out.\<close>

locale phase_barrier =
  fixes steps :: "'s \<Rightarrow> 't \<Rightarrow> 's list" and members :: "'t set" and inv :: "'s \<Rightarrow> bool"
    and arrivals :: "'s \<Rightarrow> 't \<Rightarrow> nat" and passed :: "'s \<Rightarrow> 't \<Rightarrow> bool" and left :: "'s \<Rightarrow> 't \<Rightarrow> bool"
  assumes inv_step: "inv s \<Longrightarrow> t \<in> members \<Longrightarrow> s' \<in> set (steps s t) \<Longrightarrow> inv s'"
    and inv_passed: "inv s \<Longrightarrow> t \<in> members \<Longrightarrow> passed s t \<Longrightarrow> u \<in> members \<Longrightarrow> \<not> left s u \<Longrightarrow> arrivals s t \<le> arrivals s u"
    and inv_blocked: "inv s \<Longrightarrow> t \<in> members \<Longrightarrow> \<not> left s t \<Longrightarrow> steps s t = [] \<Longrightarrow>
      \<exists>u\<in>members. \<not> left s u \<and> (arrivals s u < arrivals s t \<or> steps s u \<noteq> [])"
begin

lemma reached_inv: "reached (moves steps members) start s \<Longrightarrow> inv start \<Longrightarrow> inv s"
  by (induction rule: reached.induct) (auto intro: inv_step simp: moves_def)

text \<open>Nobody passes before all have arrived.\<close>

lemma synchronized:
  "reached (moves steps members) start s \<Longrightarrow> inv start \<Longrightarrow> t \<in> members \<Longrightarrow> passed s t \<Longrightarrow> u \<in> members \<Longrightarrow> \<not> left s u \<Longrightarrow> arrivals s t \<le> arrivals s u"
  by (blast intro: inv_passed reached_inv)

text \<open>As long as somebody is left, somebody can go on.\<close>

lemma never_stuck:
  assumes "reached (moves steps members) start s" "inv start" "t \<in> members" "\<not> left s t"
  shows "\<exists>u\<in>members. steps s u \<noteq> []"
  using assms(3,4)
proof (induction "arrivals s t" arbitrary: t rule: less_induct)
  case less
  show ?case
  proof (cases "steps s t = []")
    case True
    from inv_blocked [OF reached_inv [OF assms(1,2)] less.prems True] show ?thesis using less.hyps by blast
  qed (use less.prems in blast)
qed

end

section \<open>Counting members\<close>

lemma card_update:
  assumes "finite M" "t \<in> M"
  shows "card {u \<in> M. Q ((f(t := x)) u)} + of_bool (Q (f t)) = card {u \<in> M. Q (f u)} + of_bool (Q x)"
proof -
  let ?R = "{u \<in> M. u \<noteq> t \<and> Q (f u)}"
  have "{u \<in> M. Q ((f(t := x)) u)} = (if Q x then insert t ?R else ?R)"
    "{u \<in> M. Q (f u)} = (if Q (f t) then insert t ?R else ?R)" using assms(2) by auto
  then show ?thesis using assms(1) by simp
qed

lemma card_filter_less:
  "finite M \<Longrightarrow> t \<in> M \<Longrightarrow> \<not> Q t \<Longrightarrow> card {u \<in> M. Q u} < card M"
  by (rule psubset_card_mono) auto

lemma card_filter_all: "finite M \<Longrightarrow> card {u \<in> M. Q u} = card M \<Longrightarrow> u \<in> M \<Longrightarrow> Q u"
  using card_filter_less by (metis less_irrefl)

end
