(* ===== verification/PackedBarrier.thy ===== *)
theory PackedBarrier
  imports PhaseBarrier
begin

unbundle bit_operations_syntax

text \<open>
  The barrier without a completion function: \<open>__barrier_base<__empty_completion>\<close> of
  \<open>include/hip/std/detail/libcxx/include/barrier\<close>. One word has the parity of the phase in its top bit, below it the
  missing arrivals, counted up to \<open>2 ^ 31\<close>, and in the lower half the expected arrivals, in the same way.
\<close>

section \<open>The word\<close>

definition expected_unit :: u64 where "expected_unit = 1"
definition arrived_unit :: u64 where "arrived_unit = push_bit 32 1"
definition expected_mask :: u64 where "expected_mask = arrived_unit - 1"
definition phase_bit :: u64 where "phase_bit = push_bit 63 1"

definition packed_init :: "u64 \<Rightarrow> u64" where
  "packed_init n = push_bit 32 (push_bit 31 1 - n) OR (push_bit 31 1 - n)"

text \<open>The second addition of the last arrival.\<close>

definition packed_reset :: "u64 \<Rightarrow> u64" where
  "packed_reset old = push_bit 32 (old AND expected_mask)"

definition changes_phase :: "u64 \<Rightarrow> u64 \<Rightarrow> bool" where
  "changes_phase old inc \<longleftrightarrow> (old XOR (old + inc)) AND phase_bit \<noteq> 0"

text \<open>The operations, without interruption.\<close>

definition packed_arrive :: "u64 \<Rightarrow> u64 \<Rightarrow> u64 \<times> u64" where
  "packed_arrive update w =
     (let inc = arrived_unit * update; old = w; w = w + inc in
      (if changes_phase old inc then w + packed_reset old else w, old AND phase_bit))"

definition packed_arrive_and_drop :: "u64 \<Rightarrow> u64" where
  "packed_arrive_and_drop w = fst (packed_arrive 1 (w + expected_unit))"

definition packed_try_wait_phase :: "u64 \<Rightarrow> u64 \<Rightarrow> bool" where
  "packed_try_wait_phase phase w \<longleftrightarrow> w AND phase_bit \<noteq> phase"

definition packed_try_wait :: "u64 \<Rightarrow> u64 \<Rightarrow> bool" where
  "packed_try_wait old w \<longleftrightarrow> packed_try_wait_phase (old AND phase_bit) w"

definition packed_try_wait_parity :: "bool \<Rightarrow> u64 \<Rightarrow> bool" where
  "packed_try_wait_parity parity w \<longleftrightarrow> packed_try_wait_phase (if parity then phase_bit else 0) w"

section \<open>Threads\<close>

text \<open>\<open>Resetting out old\<close>: the thread made the last arrival of a phase and has not done the second addition. The count of
  a thread is that of its arrivals. \<open>drops\<close> allows \<open>arrive_and_drop\<close>.\<close>

datatype packed_pc = Outside | Dropping | Resetting bool u64 | Holding u64 | Left

record 't packed_state =
  phase_arrived_expected :: u64
  packed_threads :: "'t \<Rightarrow> packed_pc \<times> nat"

definition after_arrival :: "bool \<Rightarrow> u64 \<Rightarrow> packed_pc" where
  "after_arrival out old = (if out then Left else Holding (old AND phase_bit))"

definition first_addition :: "bool \<Rightarrow> u64 \<Rightarrow> nat \<Rightarrow> packed_pc \<times> nat \<times> u64" where
  "first_addition out old n =
     (let inc = arrived_unit * 1 in
      (if changes_phase old inc then Resetting out old else after_arrival out old, Suc n, old + inc))"

fun packed_do :: "bool \<Rightarrow> packed_pc \<times> nat \<Rightarrow> u64 \<Rightarrow> (packed_pc \<times> nat \<times> u64) list" where
  "packed_do drops (Outside, n) w = first_addition False w n # (if drops then [(Dropping, n, w + expected_unit)] else [])"
| "packed_do drops (Dropping, n) w = [first_addition True w n]"
| "packed_do drops (Resetting out old, n) w = [(after_arrival out old, n, w + packed_reset old)]"
| "packed_do drops (Holding old, n) w = (if packed_try_wait old w then [(Outside, n, w)] else [])"
| "packed_do drops (Left, n) w = []"

definition packed_steps :: "bool \<Rightarrow> 't packed_state \<Rightarrow> 't \<Rightarrow> 't packed_state list" where
  "packed_steps drops s t = map (\<lambda>(p, n, w). s\<lparr>phase_arrived_expected := w, packed_threads := (packed_threads s)(t := (p, n))\<rparr>)
     (packed_do drops (packed_threads s t) (phase_arrived_expected s))"

definition packed_start :: "u64 \<Rightarrow> 't packed_state" where
  "packed_start count = \<lparr>phase_arrived_expected = packed_init count, packed_threads = (\<lambda>t. (Outside, 0))\<rparr>"

section \<open>Reading the word\<close>

definition packed_word :: "nat \<Rightarrow> nat \<Rightarrow> nat \<Rightarrow> u64" where
  "packed_word k a e = of_nat (k * 2 ^ 63 + a * 2 ^ 32 + e)"

definition parity :: "nat \<Rightarrow> u64" where
  "parity k = (if odd k then phase_bit else 0)"

lemma bit_phase_bit: "bit phase_bit n \<longleftrightarrow> n = 63"
  unfolding phase_bit_def bit_push_bit_iff by (auto simp: bit_1_iff)

lemma and_phase_bit: "w AND phase_bit = (if bit w 63 then phase_bit else 0)"
  by (rule bit_word_eqI) (auto simp: bit_and_iff bit_phase_bit)

lemma phase_bit_nonzero [simp]: "phase_bit \<noteq> 0"
  by (simp add: phase_bit_def)

lemma bit_packed_word: "a < 2 ^ 31 \<Longrightarrow> e < 2 ^ 32 \<Longrightarrow> bit (packed_word k a e) 63 \<longleftrightarrow> odd k"
proof -
  assume ae: "a < 2 ^ 31" "e < 2 ^ 32"
  then have "a * 2 ^ 32 + e < 2 ^ 63" by simp
  then have "(k * 2 ^ 63 + (a * 2 ^ 32 + e)) div 2 ^ 63 = k" by (subst div_mult_self3) simp_all
  then have "bit (k * 2 ^ 63 + (a * 2 ^ 32 + e)) 63 \<longleftrightarrow> odd k" by (simp only: bit_iff_odd)
  then show ?thesis unfolding packed_word_def bit_of_nat_iff by (simp add: add.assoc)
qed

lemma phase_packed_word: "a < 2 ^ 31 \<Longrightarrow> e < 2 ^ 32 \<Longrightarrow> packed_word k a e AND phase_bit = parity k"
  by (simp only: and_phase_bit bit_packed_word parity_def)

lemma expected_packed_word: "e < 2 ^ 32 \<Longrightarrow> packed_word k a e AND expected_mask = of_nat e"
proof -
  assume e: "e < 2 ^ 32"
  have mask: "expected_mask = mask 32" by (simp add: expected_mask_def arrived_unit_def mask_eq_exp_minus_1)
  have "k * 2 ^ 63 + a * 2 ^ 32 = (k * 2 ^ 31 + a) * 2 ^ 32" by simp
  then have "take_bit 32 (k * 2 ^ 63 + a * 2 ^ 32 + e) = e"
    unfolding take_bit_eq_mod using e by (simp only: mod_mult_self3 mod_less)
  then show ?thesis unfolding mask take_bit_eq_mask [symmetric] packed_word_def take_bit_of_nat by simp
qed

lemma packed_word_arrive: "packed_word k a e + arrived_unit * of_nat n = packed_word k (a + n) e"
  by (simp add: packed_word_def arrived_unit_def algebra_simps)

lemma packed_word_drop: "packed_word k a e + expected_unit = packed_word k a (Suc e)"
  by (simp add: packed_word_def expected_unit_def)

lemma packed_word_full: "packed_word k (2 ^ 31) e = packed_word (Suc k) 0 e"
  by (simp add: packed_word_def)

lemma packed_reset_word: "e < 2 ^ 32 \<Longrightarrow> packed_reset (packed_word k a e) = arrived_unit * of_nat e"
  by (simp add: packed_reset_def expected_packed_word push_bit_eq_mult arrived_unit_def)

lemma changes_phase_iff: "changes_phase old inc \<longleftrightarrow> old AND phase_bit \<noteq> (old + inc) AND phase_bit"
proof -
  have "(old XOR (old + inc)) AND phase_bit = (old AND phase_bit) XOR ((old + inc) AND phase_bit)"
    by (rule bit_word_eqI) (auto simp: bit_simps)
  moreover have "x XOR y = 0 \<longleftrightarrow> x = y" for x y :: u64
    by (auto simp: bit_eq_iff bit_xor_iff)
  ultimately show ?thesis by (simp add: changes_phase_def)
qed

lemma parity_Suc [simp]: "parity k \<noteq> parity (Suc k)" "parity (Suc k) \<noteq> parity k"
  by (simp_all add: parity_def)

text \<open>An arrival with \<open>n\<close> of the missing arrivals, and what it leaves.\<close>

lemma arrival_word:
  assumes "a + n \<le> 2 ^ 31" "a < 2 ^ 31" "e < 2 ^ 32"
  shows "changes_phase (packed_word k a e) (arrived_unit * of_nat n) \<longleftrightarrow> a + n = 2 ^ 31"
    "packed_word k a e + arrived_unit * of_nat n =
      (if a + n = 2 ^ 31 then packed_word (Suc k) 0 e else packed_word k (a + n) e)"
proof -
  show word: "packed_word k a e + arrived_unit * of_nat n =
      (if a + n = 2 ^ 31 then packed_word (Suc k) 0 e else packed_word k (a + n) e)"
    using packed_word_full [of k e] by (auto simp: packed_word_arrive)
  have "(packed_word k a e + arrived_unit * of_nat n) AND phase_bit = (if a + n = 2 ^ 31 then parity (Suc k) else parity k)"
    unfolding word using assms by (simp add: phase_packed_word)
  then show "changes_phase (packed_word k a e) (arrived_unit * of_nat n) \<longleftrightarrow> a + n = 2 ^ 31"
    using assms by (simp add: changes_phase_iff phase_packed_word)
qed

section \<open>The invariant\<close>

text \<open>In phase \<open>k\<close>, with \<open>e\<close> in the lower half of the word.\<close>

fun packed_fine :: "nat \<Rightarrow> nat \<Rightarrow> packed_pc \<times> nat \<Rightarrow> bool" where
  "packed_fine k e (Outside, n) = (n = k)"
| "packed_fine k e (Holding token, n) = ((n = k \<or> n = Suc k) \<and> (\<exists>m. n = Suc m \<and> token = parity m))"
| "packed_fine k e (Resetting out old, n) =
     (\<not> out \<and> n = k \<and> (\<exists>m a. n = Suc m \<and> a < 2 ^ 31 \<and> old = packed_word m a e))"
| "packed_fine k e (p, n) = False"

fun resetting :: "packed_pc \<times> nat \<Rightarrow> bool" where
  "resetting (Resetting out old, n) = True"
| "resetting (p, n) = False"

definition spare :: "'t set \<Rightarrow> nat" where
  "spare M = 2 ^ 31 - card M"

definition packed_phase :: "'t set \<Rightarrow> nat \<Rightarrow> 't packed_state \<Rightarrow> bool" where
  "packed_phase M k s \<longleftrightarrow>
     (let e = spare M; arrived = card {t \<in> M. snd (packed_threads s t) = Suc k}; resets = card {t \<in> M. resetting (packed_threads s t)} in
      (\<forall>t\<in>M. packed_fine k e (packed_threads s t)) \<and> resets \<le> 1 \<and> arrived < card M \<and>
      phase_arrived_expected s = packed_word k (arrived + (if resets = 0 then e else 0)) e)"

definition packed_inv :: "'t set \<Rightarrow> 't packed_state \<Rightarrow> bool" where
  "packed_inv M s \<longleftrightarrow> finite M \<and> card M \<le> 2 ^ 31 \<and> (\<exists>k. packed_phase M k s)"

lemma packed_fine_count: "packed_fine k e x \<Longrightarrow> snd x = k \<or> snd x = Suc k"
  by (cases "(k, e, x)" rule: packed_fine.cases) auto

lemma parity_phase_bit [simp]: "parity m AND phase_bit = parity m"
  by (simp add: parity_def)

lemma packed_step:
  assumes M: "finite M" "card M \<le> 2 ^ 31" and inv: "packed_phase M k s" and t: "t \<in> M" "s' \<in> set (packed_steps False s t)"
  shows "\<exists>k. packed_phase M k s'"
proof -
  define e where "e = spare M"
  define arrived where "arrived = card {u \<in> M. snd (packed_threads s u) = Suc k}"
  define resets where "resets = card {u \<in> M. resetting (packed_threads s u)}"
  let ?a = "arrived + (if resets = 0 then e else 0)"
  note inv = inv [unfolded packed_phase_def Let_def, folded e_def arrived_def resets_def]
  have fine: "\<And>u. u \<in> M \<Longrightarrow> packed_fine k e (packed_threads s u)" and "resets \<le> 1" "arrived < card M"
    and word: "phase_arrived_expected s = packed_word k ?a e" using inv by auto
  have e: "e < 2 ^ 31" "card M + e = 2 ^ 31" using M \<open>arrived < card M\<close> by (auto simp: e_def spare_def)
  from t(2) obtain p n w where new: "(p, n, w) \<in> set (packed_do False (packed_threads s t) (phase_arrived_expected s))"
    and s': "phase_arrived_expected s' = w" "packed_threads s' = (packed_threads s)(t := (p, n))" by (auto simp: packed_steps_def)
  have counts: "card {u \<in> M. Q (packed_threads s' u)} + of_bool (Q (packed_threads s t)) = card {u \<in> M. Q (packed_threads s u)} + of_bool (Q (p, n))" for Q
    unfolding s' by (rule card_update [OF M(1) t(1)])
  note counts' = counts [of "\<lambda>x. snd x = Suc k", folded arrived_def] counts [of resetting, folded resets_def]
  have fine': "(\<forall>u\<in>M. packed_fine k e (packed_threads s' u)) \<longleftrightarrow> packed_fine k e (p, n)" using fine t(1) by (auto simp: s')
  obtain q m where q: "packed_threads s t = (q, m)" by (cases "packed_threads s t") auto
  show ?thesis
  proof (cases q)
    case Outside
    then have m: "m = k" using fine [OF t(1)] q by simp
    have room: "arrived + resets < card M"
    proof -
      have "{u \<in> M. snd (packed_threads s u) = Suc k} \<inter> {u \<in> M. resetting (packed_threads s u)} = {}"
        using fine by (auto elim!: resetting.elims) force
      then have "arrived + resets = card ({u \<in> M. snd (packed_threads s u) = Suc k} \<union> {u \<in> M. resetting (packed_threads s u)})"
        unfolding arrived_def resets_def using M(1) by (subst card_Un_disjoint) auto
      also have "\<dots> = card {u \<in> M. snd (packed_threads s u) = Suc k \<or> resetting (packed_threads s u)}"
        by (rule arg_cong [where f = card]) auto
      also have "\<dots> < card M" using q Outside m by (intro card_filter_less [OF M(1) t(1)]) simp
      finally show ?thesis .
    qed
    have a: "?a < 2 ^ 31" "?a + 1 = 2 ^ 31 \<longleftrightarrow> resets = 0 \<and> Suc arrived = card M" using room e by auto
    note word' = arrival_word [of ?a 1 e k] a e(1)
    show ?thesis
    proof (cases "?a + 1 = 2 ^ 31")
      case True
      then have all: "resets = 0" "Suc arrived = card M" using a(2) by auto
      have "{u \<in> M. snd (packed_threads s u) = Suc k} = M - {t}"
        using all(2) M(1) t(1) q m by (intro card_subset_eq) (auto simp: arrived_def)
      then have others: "snd (packed_threads s u) = Suc k" if "u \<in> M" "u \<noteq> t" for u using that by blast
      have p: "p = Resetting False (phase_arrived_expected s)" "n = Suc k" "w = packed_word (Suc k) 0 e"
        using new word' True by (auto simp: q Outside m first_addition_def Let_def word)
      have "packed_fine (Suc k) e (packed_threads s' u)" if "u \<in> M" for u
      proof (cases "u = t")
        case True
        then show ?thesis using a(1) by (auto simp: s' p word)
      next
        case False
        obtain x y where xy: "packed_threads s u = (x, y)" by (cases "packed_threads s u") auto
        then have "y = Suc k" using others [OF that False] by simp
        with fine [OF that] xy False show ?thesis by (cases x) (auto simp: s')
      qed
      moreover have "card {u \<in> M. resetting (packed_threads s' u)} = 1" using counts'(2) all(1) by (simp add: q Outside p)
      moreover have "{u \<in> M. snd (packed_threads s' u) = Suc (Suc k)} = {}" using others p by (auto simp: s')
      then have "card {u \<in> M. snd (packed_threads s' u) = Suc (Suc k)} = 0" by (simp only: card.empty)
      ultimately have "packed_phase M (Suc k) s'"
        using \<open>arrived < card M\<close> by (simp add: packed_phase_def Let_def e_def [symmetric] s'(1) p(3))
      then show ?thesis ..
    next
      case False
      then have p: "p = Holding (parity k)" "n = Suc k" "w = packed_word k (?a + 1) e"
        using new word' by (auto simp: q Outside m first_addition_def Let_def word after_arrival_def phase_packed_word)
      have "Suc arrived < card M" using False a(2) room by (cases "resets = 0") auto
      moreover have "card {u \<in> M. snd (packed_threads s' u) = Suc k} = Suc arrived" "card {u \<in> M. resetting (packed_threads s' u)} = resets"
        using counts' by (simp_all add: q Outside m p)
      ultimately have "packed_phase M k s'"
        using fine' \<open>resets \<le> 1\<close> by (simp add: packed_phase_def Let_def e_def [symmetric] s'(1) p)
      then show ?thesis ..
    qed
  next
    case (Resetting out old)
    then obtain i b where i: "\<not> out" "m = k" "k = Suc i" "b < 2 ^ 31" "old = packed_word i b e" using fine [OF t(1)] q by auto
    have p: "p = Holding (parity i)" "n = k" "w = packed_word k ?a e + arrived_unit * of_nat e"
      using new i e(1) by (auto simp: q Resetting word after_arrival_def phase_packed_word packed_reset_word)
    have "resets = 1" using counts'(2) \<open>resets \<le> 1\<close> by (simp add: q Resetting p)
    then have "card {u \<in> M. snd (packed_threads s' u) = Suc k} = arrived" "card {u \<in> M. resetting (packed_threads s' u)} = 0"
      "w = packed_word k (arrived + e) e"
      using counts' by (simp_all add: q Resetting p i(2) packed_word_arrive)
    then have "packed_phase M k s'"
      using fine' \<open>arrived < card M\<close> i(3) by (simp add: packed_phase_def Let_def e_def [symmetric] s'(1) p)
    then show ?thesis ..
  next
    case (Holding token)
    then obtain i where i: "m = Suc i" "token = parity i" "m = k \<or> m = Suc k" using fine [OF t(1)] q by auto
    have "?a < 2 ^ 31" using \<open>arrived < card M\<close> e by simp
    then have "m = k" "p = Outside" "n = k" "w = phase_arrived_expected s" using new i e(1)
      by (auto simp: q Holding word packed_try_wait_def packed_try_wait_phase_def phase_packed_word split: if_splits)
    moreover from this have "card {u \<in> M. snd (packed_threads s' u) = Suc k} = arrived" "card {u \<in> M. resetting (packed_threads s' u)} = resets"
      using counts' by (simp_all add: q Holding)
    ultimately have "packed_phase M k s'"
      using fine' \<open>arrived < card M\<close> \<open>resets \<le> 1\<close> by (simp add: packed_phase_def Let_def e_def [symmetric] s'(1) word)
    then show ?thesis ..
  qed (use fine [OF t(1)] q in auto)
qed

lemma packed_init_word:
  assumes "0 < n" "n \<le> 2 ^ 31"
  shows "packed_init (of_nat n) = packed_word 0 (2 ^ 31 - n) (2 ^ 31 - n)"
proof -
  define e where "e = 2 ^ 31 - n"
  have e: "e < 2 ^ 31" "push_bit 31 1 - of_nat n = (of_nat e :: u64)" using assms by (simp_all add: e_def of_nat_diff)
  have "of_nat e AND (push_bit 32 (of_nat e) :: u64) = 0"
  proof (rule bit_word_eqI)
    fix i
    have "\<not> bit e i" if "32 \<le> i"
    proof -
      have "(2::nat) ^ 31 \<le> 2 ^ i" using that by (intro power_increasing) simp_all
      then have "e < 2 ^ i" using e(1) by linarith
      then show ?thesis by (simp add: bit_iff_odd)
    qed
    then show "bit (of_nat e AND (push_bit 32 (of_nat e) :: u64)) i \<longleftrightarrow> bit (0 :: u64) i"
      by (auto simp: bit_and_iff bit_push_bit_iff bit_of_nat_iff)
  qed
  then have "push_bit 32 (of_nat e) OR of_nat e = push_bit 32 (of_nat e) + (of_nat e :: u64)"
    by (subst disjunctive_add_eq_or) (simp_all add: ac_simps)
  then show ?thesis unfolding packed_init_def e(2) by (simp add: packed_word_def e_def push_bit_eq_mult)
qed

lemma packed_inv_start:
  assumes "finite M" "M \<noteq> {}" "card M \<le> 2 ^ 31"
  shows "packed_inv M (packed_start (of_nat (card M)))"
proof -
  have "0 < card M" using assms(1,2) by (simp add: card_gt_0_iff)
  moreover have "resetting (Outside, 0) = False" by simp
  ultimately have "packed_phase M 0 (packed_start (of_nat (card M)))"
    using assms(3) by (simp add: packed_phase_def packed_start_def Let_def spare_def packed_init_word)
  then show ?thesis using assms by (auto simp: packed_inv_def)
qed

abbreviation outside :: "'t packed_state \<Rightarrow> 't \<Rightarrow> bool" where
  "outside s t \<equiv> fst (packed_threads s t) = Outside"

interpretation packed: phase_barrier "packed_steps False" M "packed_inv M" "\<lambda>s t. snd (packed_threads s t)" outside
  "\<lambda>s t. fst (packed_threads s t) = Left" for M :: "'t set"
proof unfold_locales
  fix s s' :: "'t packed_state" and t
  assume "packed_inv M s" "t \<in> M" "s' \<in> set (packed_steps False s t)"
  then show "packed_inv M s'" using packed_step by (auto simp: packed_inv_def)
next
  fix s :: "'t packed_state" and t u
  assume inv: "packed_inv M s" and tu: "t \<in> M" "outside s t" "u \<in> M"
  then obtain k where k: "\<And>v. v \<in> M \<Longrightarrow> packed_fine k (spare M) (packed_threads s v)" by (auto simp: packed_inv_def packed_phase_def Let_def)
  have "snd (packed_threads s t) = k" using k [OF tu(1)] tu(2) by (cases "packed_threads s t") auto
  then show "snd (packed_threads s t) \<le> snd (packed_threads s u)" using packed_fine_count [OF k [OF tu(3)]] by auto
next
  fix s :: "'t packed_state" and t
  assume inv: "packed_inv M s" and t: "t \<in> M" "fst (packed_threads s t) \<noteq> Left" "packed_steps False s t = []"
  then obtain k a where k: "\<And>v. v \<in> M \<Longrightarrow> packed_fine k (spare M) (packed_threads s v)" and "card {v \<in> M. snd (packed_threads s v) = Suc k} < card M"
    and word: "phase_arrived_expected s AND phase_bit = parity k" and "finite M"
  proof -
    from inv obtain k where k: "finite M" "card M \<le> 2 ^ 31" "packed_phase M k s" by (auto simp: packed_inv_def)
    then have "phase_arrived_expected s AND phase_bit = parity k"
      by (auto simp: packed_phase_def Let_def spare_def intro!: phase_packed_word)
    then show ?thesis using k that by (auto simp: packed_phase_def Let_def)
  qed
  have "\<exists>u\<in>M. snd (packed_threads s u) \<noteq> Suc k"
  proof (rule ccontr)
    assume "\<not> ?thesis"
    then have "{v \<in> M. snd (packed_threads s v) = Suc k} = M" by auto
    then show False using \<open>card _ < card M\<close> by simp
  qed
  then obtain u where u: "u \<in> M" "snd (packed_threads s u) = k" using packed_fine_count [OF k] by blast
  obtain q n where q: "packed_threads s t = (q, n)" by (cases "packed_threads s t") auto
  have "n = Suc k"
    using t k [OF t(1)] word by (cases q) (auto simp: q packed_steps_def packed_try_wait_def packed_try_wait_phase_def split: if_splits)
  moreover have "fst (packed_threads s u) \<noteq> Left" using k [OF u(1)] by (cases "packed_threads s u") auto
  ultimately show "\<exists>u\<in>M. fst (packed_threads s u) \<noteq> Left \<and> (snd (packed_threads s u) < snd (packed_threads s t) \<or> packed_steps False s u \<noteq> [])"
    using u q by auto
qed

end
