(* ===== verification/CentralBarrier.thy ===== *)
theory CentralBarrier
  imports PhaseBarrier
begin

text \<open>
  The barrier with a completion function: \<open>__barrier_base\<close> of \<open>include/hip/std/detail/libcxx/include/barrier\<close>. The
  missing and the expected arrivals are two integers, whose wrap-around the model keeps, the phase is a truth value.
\<close>

section \<open>The model\<close>

text \<open>Program counters with the local variables of \<open>arrive\<close>; the flag tells a call from \<open>arrive_and_drop\<close>.
  \<open>Calling\<close> is the completion function running.\<close>

datatype central_pc = Free | Subtracted | Loaded bool bool | Counted bool bool u64 | Calling bool bool u64
  | StoreArrived bool bool u64 | StorePhase bool bool | Token bool | Gone

text \<open>\<open>completions\<close> counts the calls of the completion function that have ended.\<close>

record 't central_state =
  expected :: u64
  arrived :: u64
  phase :: bool
  completions :: nat
  threads :: "'t \<Rightarrow> central_pc \<times> nat"

definition central_start :: "u64 \<Rightarrow> 't central_state" where
  "central_start n = \<lparr>expected = n, arrived = n, phase = False, completions = 0, threads = (\<lambda>t. (Free, 0))\<rparr>"

definition returns :: "bool \<Rightarrow> bool \<Rightarrow> central_pc" where
  "returns out old_phase = (if out then Gone else Token old_phase)"

definition central_try_wait :: "bool \<Rightarrow> 't central_state \<Rightarrow> bool" where
  "central_try_wait old s \<longleftrightarrow> phase s \<noteq> old"

fun central_do :: "central_pc \<times> nat \<Rightarrow> 't central_state \<Rightarrow> (central_pc \<times> nat \<times> 't central_state) list" where
  "central_do (Free, n) s = [(Loaded False (phase s), n, s), (Subtracted, n, s\<lparr>expected := expected s - 1\<rparr>)]"
| "central_do (Subtracted, n) s = [(Loaded True (phase s), n, s)]"
| "central_do (Loaded out old_phase, n) s =
     [(Counted out old_phase (arrived s - 1), Suc n, s\<lparr>arrived := arrived s - 1\<rparr>)]"
| "central_do (Counted out old_phase result, n) s =
     [(if result = 0 then Calling out old_phase (expected s) else returns out old_phase, n, s)]"
| "central_do (Calling out old_phase new_expected, n) s =
     [(StoreArrived out old_phase new_expected, n, s\<lparr>completions := Suc (completions s)\<rparr>)]"
| "central_do (StoreArrived out old_phase new_expected, n) s = [(StorePhase out old_phase, n, s\<lparr>arrived := new_expected\<rparr>)]"
| "central_do (StorePhase out old_phase, n) s = [(returns out old_phase, n, s\<lparr>phase := \<not> old_phase\<rparr>)]"
| "central_do (Token old_phase, n) s = (if central_try_wait old_phase s then [(Free, n, s)] else [])"
| "central_do (Gone, n) s = []"

definition central_steps :: "'t central_state \<Rightarrow> 't \<Rightarrow> 't central_state list" where
  "central_steps s t = map (\<lambda>(p, n, s'). s'\<lparr>threads := (threads s)(t := (p, n))\<rparr>) (central_do (threads s t) s)"

section \<open>The invariant\<close>

text \<open>The thread has been subtracted from the expected arrivals.\<close>

fun marked :: "central_pc \<times> nat \<Rightarrow> bool" where
  "marked (Subtracted, n) = True"
| "marked (Loaded out old, n) = out"
| "marked (Counted out old r, n) = out"
| "marked (Calling out old e, n) = out"
| "marked (StoreArrived out old e, n) = out"
| "marked (StorePhase out old, n) = out"
| "marked (Gone, n) = True"
| "marked (p, n) = False"

text \<open>Its last arrival does not end a phase, or the phase has ended.\<close>

fun finished :: "central_pc \<times> nat \<Rightarrow> bool" where
  "finished (Counted out old r, n) = (out \<and> r \<noteq> 0)"
| "finished (Gone, n) = True"
| "finished (p, n) = False"

text \<open>It made the last arrival of the current phase.\<close>

fun completing :: "central_pc \<times> nat \<Rightarrow> bool" where
  "completing (Counted out old r, n) = (r = 0)"
| "completing (Calling out old e, n) = True"
| "completing (StoreArrived out old e, n) = True"
| "completing (StorePhase out old, n) = True"
| "completing (p, n) = False"

fun central_fine :: "nat \<Rightarrow> central_pc \<times> nat \<Rightarrow> bool" where
  "central_fine k (Free, n) = (n = k)"
| "central_fine k (Subtracted, n) = (n = k)"
| "central_fine k (Loaded out old, n) = (n = k \<and> old = odd k)"
| "central_fine k (Counted out old r, n) =
     (if r = 0 then n = Suc k \<and> old = odd k else out \<or> (n = k \<or> n = Suc k) \<and> 0 < n \<and> old = even n)"
| "central_fine k (Calling out old e, n) = (n = Suc k \<and> old = odd k)"
| "central_fine k (StoreArrived out old e, n) = (n = Suc k \<and> old = odd k)"
| "central_fine k (StorePhase out old, n) = (n = Suc k \<and> old = odd k)"
| "central_fine k (Token old, n) = ((n = k \<or> n = Suc k) \<and> 0 < n \<and> old = even n)"
| "central_fine k (Gone, n) = True"

fun holds_expected :: "u64 \<Rightarrow> u64 \<Rightarrow> nat \<Rightarrow> nat \<Rightarrow> central_pc \<times> nat \<Rightarrow> bool" where
  "holds_expected x a c k (Counted out old r, n) = (a = 0 \<and> c = k)"
| "holds_expected x a c k (Calling out old e, n) = (e = x \<and> c = k)"
| "holds_expected x a c k (StoreArrived out old e, n) = (e = x \<and> c = Suc k)"
| "holds_expected x a c k (StorePhase out old, n) = (a = x \<and> c = Suc k)"
| "holds_expected x a c k (p, n) = True"

definition missing :: "nat \<Rightarrow> central_pc \<times> nat \<Rightarrow> bool" where
  "missing k x \<longleftrightarrow> \<not> finished x \<and> snd x = k"

definition central_phase :: "'t set \<Rightarrow> nat \<Rightarrow> 't central_state \<Rightarrow> bool" where
  "central_phase M k s \<longleftrightarrow>
     (\<forall>t\<in>M. central_fine k (threads s t)) \<and> phase s = odd k \<and>
     expected s = of_nat (card {t \<in> M. \<not> marked (threads s t)}) \<and>
     (if card {t \<in> M. completing (threads s t)} = 0
      then arrived s = of_nat (card {t \<in> M. missing k (threads s t)}) \<and> completions s = k \<and>
        (card {t \<in> M. missing k (threads s t)} = 0 \<longrightarrow> (\<forall>t\<in>M. finished (threads s t)))
      else card {t \<in> M. completing (threads s t)} = 1 \<and> card {t \<in> M. missing k (threads s t)} = 0 \<and>
        (\<forall>t\<in>M. completing (threads s t) \<longrightarrow> holds_expected (expected s) (arrived s) (completions s) k (threads s t)))"

definition central_inv :: "'t set \<Rightarrow> 't central_state \<Rightarrow> bool" where
  "central_inv M s \<longleftrightarrow> finite M \<and> card M < 2 ^ 63 \<and> (\<exists>k. central_phase M k s)"

lemma missing_pair [simp]: "missing k (p, n) \<longleftrightarrow> \<not> finished (p, n) \<and> n = k"
  by (simp add: missing_def)

lemma card_nonzero: "finite M \<Longrightarrow> t \<in> M \<Longrightarrow> Q t \<Longrightarrow> card {u \<in> M. Q u} \<noteq> 0"
  by (auto simp: card_eq_0_iff)

lemma central_members:
  assumes "finite M" "central_phase M k s" "t \<in> M"
  shows "central_fine k (threads s t)"
    "missing k (threads s t) \<Longrightarrow> card {u \<in> M. completing (threads s u)} = 0"
    "completing (threads s t) \<Longrightarrow> card {u \<in> M. completing (threads s u)} = 1 \<and> card {u \<in> M. missing k (threads s u)} = 0 \<and>
      holds_expected (expected s) (arrived s) (completions s) k (threads s t)"
    "completing (threads s t) \<Longrightarrow> u \<in> M \<Longrightarrow> completing (threads s u) \<longleftrightarrow> u = t"
proof -
  show "central_fine k (threads s t)" using assms(2,3) by (simp add: central_phase_def)
  show none: "card {u \<in> M. completing (threads s u)} = 0" if "missing k (threads s t)"
    using assms that by (auto simp: central_phase_def card_eq_0_iff split: if_splits)
  show one: "card {u \<in> M. completing (threads s u)} = 1 \<and> card {u \<in> M. missing k (threads s u)} = 0 \<and>
      holds_expected (expected s) (arrived s) (completions s) k (threads s t)" if "completing (threads s t)"
    using assms that by (auto simp: central_phase_def card_eq_0_iff split: if_splits)
  show "completing (threads s u) \<longleftrightarrow> u = t" if "completing (threads s t)" "u \<in> M"
  proof -
    note c = that
    obtain v where "{u \<in> M. completing (threads s u)} = {v}" using one [OF c(1)] by (auto simp: card_1_singleton_iff)
    moreover have "t \<in> {u \<in> M. completing (threads s u)}" "completing (threads s u) \<longleftrightarrow> u \<in> {u \<in> M. completing (threads s u)}"
      using c assms(3) by simp_all
    ultimately show ?thesis by simp
  qed
qed

text \<open>A step that changes nothing but the place of its thread in the code.\<close>

lemma central_quiet:
  assumes M: "finite M" and inv: "central_phase M k s" and t: "t \<in> M"
    and y: "central_fine k y" "marked y = marked (threads s t)" "missing k y = missing k (threads s t)"
      "\<not> completing (threads s t)" "\<not> completing y" "finished y = finished (threads s t)"
    and s': "s' = s\<lparr>threads := (threads s)(t := y)\<rparr>"
  shows "central_phase M k s'"
proof -
  have threads': "threads s' = (threads s)(t := y)" by (simp add: s')
  have counts: "card {u \<in> M. Q (threads s' u)} + of_bool (Q (threads s t)) = card {u \<in> M. Q (threads s u)} + of_bool (Q y)" for Q
    unfolding threads' by (rule card_update [OF M t])
  have "card {u \<in> M. \<not> marked (threads s' u)} = card {u \<in> M. \<not> marked (threads s u)}"
    "card {u \<in> M. missing k (threads s' u)} = card {u \<in> M. missing k (threads s u)}"
    "card {u \<in> M. completing (threads s' u)} = card {u \<in> M. completing (threads s u)}"
    using counts [of "\<lambda>x. \<not> marked x"] counts [of "missing k"] counts [of completing] y by simp_all
  then show ?thesis using inv y by (auto simp: central_phase_def s' split: if_splits)
qed

text \<open>A step of the thread that ends the phase, up to the store of the phase.\<close>

lemma central_ending:
  assumes M: "finite M" and inv: "central_phase M k s" and t: "t \<in> M"
    and y: "central_fine k y" "marked y = marked (threads s t)" "missing k y = missing k (threads s t)"
      "completing (threads s t)" "completing y"
    and s': "threads s' = (threads s)(t := y)" "phase s' = phase s" "expected s' = expected s"
      "holds_expected (expected s') (arrived s') (completions s') k y"
  shows "central_phase M k s'"
proof -
  note facts = central_members(2-) [OF M inv t] and fine = central_members(1) [OF M inv]
  have counts: "card {u \<in> M. Q (threads s' u)} + of_bool (Q (threads s t)) = card {u \<in> M. Q (threads s u)} + of_bool (Q y)" for Q
    unfolding s' by (rule card_update [OF M t])
  have same: "card {u \<in> M. \<not> marked (threads s' u)} = card {u \<in> M. \<not> marked (threads s u)}"
    "card {u \<in> M. missing k (threads s' u)} = 0" "card {u \<in> M. completing (threads s' u)} = 1"
    using counts [of "\<lambda>x. \<not> marked x"] counts [of "missing k"] counts [of completing] y facts(2) by simp_all
  have holds: "holds_expected (expected s') (arrived s') (completions s') k (threads s' u)"
    if "u \<in> M" "completing (threads s' u)" for u
    using that s'(4) facts(3) [OF y(4) that(1)] by (cases "u = t") (simp_all add: s'(1))
  have "central_fine k (threads s' u)" if "u \<in> M" for u using fine [OF that] y(1) by (simp add: s'(1))
  moreover have "phase s = odd k" "expected s = of_nat (card {t \<in> M. \<not> marked (threads s t)})" using inv by (simp_all add: central_phase_def)
  ultimately show ?thesis using holds unfolding central_phase_def same s'(2,3) by simp
qed

lemma central_step:
  assumes M: "finite M" "card M < 2 ^ 63" and inv: "central_phase M k s" and t: "t \<in> M" "s' \<in> set (central_steps s t)"
  shows "\<exists>k. central_phase M k s'"
proof -
  note fine = central_members(1) [OF M(1) inv]
  note facts = central_members(2-) [OF M(1) inv t(1)]
  from t(2) obtain p n s1 where new: "(p, n, s1) \<in> set (central_do (threads s t) s)"
    and s': "s' = s1\<lparr>threads := (threads s)(t := (p, n))\<rparr>" by (auto simp: central_steps_def)
  have threads': "threads s' = (threads s)(t := (p, n))" by (simp add: s')
  have counts: "card {u \<in> M. Q (threads s' u)} + of_bool (Q (threads s t)) = card {u \<in> M. Q (threads s u)} + of_bool (Q (p, n))" for Q
    unfolding threads' by (rule card_update [OF M(1) t(1)])
  note unmarked = counts [of "\<lambda>x. \<not> marked x"] and lacking = counts [of "missing k"] and enders = counts [of completing]
  have fine': "(\<forall>u\<in>M. central_fine k (threads s' u)) \<longleftrightarrow> central_fine k (p, n)" using fine t(1) by (auto simp: threads')
  obtain q m where q: "threads s t = (q, m)" by (cases "threads s t") auto
  show ?thesis
  proof (cases q)
    case Free
    then have m: "m = k" using fine [OF t(1)] q by simp
    then have none: "card {u \<in> M. completing (threads s u)} = 0" using facts(1) q Free by (simp add: missing_def)
    show ?thesis
    proof (cases p)
      case (Loaded out old)
      then have "out = False" "old = odd k" "n = k" "s1 = s" using new inv m by (auto simp: q Free central_phase_def)
      then have "central_phase M k s'" using m Loaded
        by (intro central_quiet [OF M(1) inv t(1) _ _ _ _ _ _ s' [unfolded \<open>s1 = s\<close>]]) (simp_all add: q Free)
      then show ?thesis ..
    next
      case Subtracted
      then have p: "n = k" "s1 = s\<lparr>expected := expected s - 1\<rparr>" using new m by (auto simp: q Free)
      have "card {u \<in> M. \<not> marked (threads s u)} = Suc (card {u \<in> M. \<not> marked (threads s' u)})"
        "card {u \<in> M. missing k (threads s' u)} = card {u \<in> M. missing k (threads s u)}"
        "card {u \<in> M. completing (threads s' u)} = 0" "card {u \<in> M. missing k (threads s u)} \<noteq> 0"
        using unmarked lacking enders none p m Subtracted card_nonzero [OF M(1) t(1), of "\<lambda>u. missing k (threads s u)"]
        by (simp_all add: q Free)
      then have "central_phase M k s'" using inv none fine' p Subtracted by (simp add: central_phase_def s')
      then show ?thesis ..
    qed (use new in \<open>auto simp: q Free\<close>)
  next
    case Subtracted
    then have "m = k" "s1 = s" "n = m" "p = Loaded True (odd k)" using fine [OF t(1)] new inv by (auto simp: q central_phase_def)
    then have "central_phase M k s'"
      by (intro central_quiet [OF M(1) inv t(1) _ _ _ _ _ _ s' [unfolded \<open>s1 = s\<close>]]) (simp_all add: q Subtracted)
    then show ?thesis ..
  next
    case (Loaded out old)
    then have m: "m = k" "old = odd k" using fine [OF t(1)] q by simp_all
    then have none: "card {u \<in> M. completing (threads s u)} = 0" using facts(1) q Loaded by (simp add: missing_def)
    have p: "p = Counted out old (arrived s - 1)" "n = Suc k" "s1 = s\<lparr>arrived := arrived s - 1\<rparr>" using new by (auto simp: q Loaded m)
    define i where "i = card {u \<in> M. missing k (threads s' u)}"
    have i: "card {u \<in> M. missing k (threads s u)} = Suc i" using lacking m p by (simp add: q Loaded i_def)
    have "card {u \<in> M. missing k (threads s u)} \<le> card M" using M(1) by (intro card_mono) auto
    then have small: "(of_nat i :: u64) = 0 \<longleftrightarrow> i = 0" using M(2) i
      by (simp add: word_unat_eq_iff unsigned_of_nat take_bit_nat_eq_self)
    have arrived: "arrived s = of_nat (Suc i)" "arrived s' = of_nat i" "completions s' = k" "expected s' = expected s" "phase s' = phase s"
      using inv none i by (simp_all add: central_phase_def s' p)
    have same: "card {u \<in> M. \<not> marked (threads s' u)} = card {u \<in> M. \<not> marked (threads s u)}"
      using unmarked by (simp add: q Loaded p)
    have ends: "card {u \<in> M. completing (threads s' u)} = of_bool (i = 0)"
      using enders none small by (simp add: q Loaded p arrived)
    have "completing (threads s u) = False" if "u \<in> M" for u using none that M(1) by (auto simp: card_eq_0_iff)
    then have holds: "holds_expected (expected s') (arrived s') (completions s') k (threads s' u)"
      if "u \<in> M" "completing (threads s' u)" for u
      using that by (cases "u = t") (simp_all add: threads' p arrived)
    have "phase s = odd k" "expected s = of_nat (card {t \<in> M. \<not> marked (threads s t)})" using inv by (simp_all add: central_phase_def)
    moreover have "central_fine k (p, n)" using m small by (simp add: p arrived)
    ultimately have "central_phase M k s'"
      using fine' holds unfolding central_phase_def same ends i_def [symmetric] arrived by (cases "i = 0") simp_all
    then show ?thesis ..
  next
    case (Counted out old r)
    then have p: "n = m" "s1 = s" "p = (if r = 0 then Calling out old (expected s) else returns out old)" using new by (auto simp: q)
    show ?thesis
    proof (cases "r = 0")
      case True
      then have "central_phase M k s'" using fine [OF t(1)] facts(2) p
        by (intro central_ending [OF M(1) inv t(1), where y = "(p, n)"]) (simp_all add: q Counted s')
      then show ?thesis ..
    next
      case False
      then have "central_phase M k s'" using fine [OF t(1)] p
        by (intro central_quiet [OF M(1) inv t(1) _ _ _ _ _ _ s' [unfolded \<open>s1 = s\<close>]])
          (auto simp: q Counted returns_def)
      then show ?thesis ..
    qed
  next
    case (Calling out old e)
    have p: "n = m" "s1 = s\<lparr>completions := Suc (completions s)\<rparr>" "p = StoreArrived out old e" using new by (auto simp: q Calling)
    then have "central_phase M k s'" using fine [OF t(1)] facts(2)
      by (intro central_ending [OF M(1) inv t(1), where y = "(p, n)"]) (simp_all add: q Calling s')
    then show ?thesis ..
  next
    case (StoreArrived out old e)
    have p: "n = m" "s1 = s\<lparr>arrived := e\<rparr>" "p = StorePhase out old" using new by (auto simp: q StoreArrived)
    then have "central_phase M k s'" using fine [OF t(1)] facts(2)
      by (intro central_ending [OF M(1) inv t(1), where y = "(p, n)"]) (simp_all add: q StoreArrived s')
    then show ?thesis ..
  next
    case (StorePhase out old)
    note one = facts(2) and alone = facts(3)
    have p: "n = m" "s1 = s\<lparr>phase := \<not> old\<rparr>" "p = returns out old" using new by (auto simp: q StorePhase)
    have m: "m = Suc k" "old = odd k" using fine [OF t(1)] by (simp_all add: q StorePhase)
    have others: "missing (Suc k) (threads s u) \<longleftrightarrow> \<not> marked (threads s u)" "central_fine (Suc k) (threads s u)"
      "finished (threads s u) \<longleftrightarrow> marked (threads s u)" "\<not> completing (threads s u)" if u: "u \<in> M" "u \<noteq> t" for u
    proof -
      have c: "\<not> completing (threads s u)" using alone u by (simp add: q StorePhase)
      have "card {v \<in> M. missing k (threads s v)} = 0" using one by (simp add: q StorePhase)
      then have "\<not> missing k (threads s u)" using u(1) M(1) by (auto simp: card_eq_0_iff)
      with c fine [OF u(1)] show "missing (Suc k) (threads s u) \<longleftrightarrow> \<not> marked (threads s u)" "central_fine (Suc k) (threads s u)"
        "finished (threads s u) \<longleftrightarrow> marked (threads s u)" "\<not> completing (threads s u)"
        by (cases "(k, threads s u)" rule: central_fine.cases; auto simp: missing_def)+
    qed
    have mine: "missing (Suc k) (p, n) \<longleftrightarrow> \<not> marked (p, n)" "central_fine (Suc k) (p, n)" "finished (p, n) \<longleftrightarrow> marked (p, n)"
      "\<not> completing (p, n)" "marked (p, n) = marked (threads s t)"
      using p m by (simp_all add: returns_def q StorePhase)
    have all: "missing (Suc k) (threads s' u) \<longleftrightarrow> \<not> marked (threads s' u)" "central_fine (Suc k) (threads s' u)"
      "finished (threads s' u) \<longleftrightarrow> marked (threads s' u)" "\<not> completing (threads s' u)" if "u \<in> M" for u
      using others [OF that] mine by (cases "u = t"; simp add: threads')+
    then have sets: "{u \<in> M. missing (Suc k) (threads s' u)} = {u \<in> M. \<not> marked (threads s' u)}"
      "{u \<in> M. completing (threads s' u)} = {}" by auto
    have "card {u \<in> M. \<not> marked (threads s' u)} = card {u \<in> M. \<not> marked (threads s u)}" using unmarked mine(5) by simp
    moreover have "expected s' = expected s" "arrived s' = expected s" "completions s' = Suc k" "phase s' = odd (Suc k)"
      using one m(2) by (simp_all add: s' p q StorePhase)
    moreover have "expected s = of_nat (card {u \<in> M. \<not> marked (threads s u)})" using inv by (simp add: central_phase_def)
    moreover have "finished (threads s' u)" if "card {u \<in> M. \<not> marked (threads s' u)} = 0" "u \<in> M" for u
      using that all(3) [OF that(2)] M(1) by (auto simp: card_eq_0_iff)
    ultimately have "central_phase M (Suc k) s'"
      using all(2) unfolding central_phase_def sets by simp
    then show ?thesis ..
  next
    case (Token old)
    then have m: "m = k \<or> m = Suc k" "old = even m" using fine [OF t(1)] q by simp_all
    have "phase s = odd k" using inv by (simp add: central_phase_def)
    then have "m = k" "p = Free" "n = k" "s1 = s" using new m by (auto simp: q Token central_try_wait_def split: if_splits)
    then have "central_phase M k s'"
      by (intro central_quiet [OF M(1) inv t(1) _ _ _ _ _ _ s' [unfolded \<open>s1 = s\<close>]]) (simp_all add: q Token)
    then show ?thesis ..
  qed (use new in \<open>simp add: q\<close>)
qed

lemma central_inv_start: "finite M \<Longrightarrow> card M < 2 ^ 63 \<Longrightarrow> central_inv M (central_start (of_nat (card M)))"
proof -
  assume M: "finite M" "card M < 2 ^ 63"
  have "central_phase M 0 (central_start (of_nat (card M)))"
    using M(1) by (simp add: central_phase_def central_start_def)
  then show ?thesis using M by (auto simp: central_inv_def)
qed

abbreviation free :: "'t central_state \<Rightarrow> 't \<Rightarrow> bool" where
  "free s t \<equiv> fst (threads s t) = Free"

lemma central_fine_count: "central_fine k x \<Longrightarrow> \<not> finished x \<Longrightarrow> snd x = k \<or> snd x = Suc k"
  by (cases "(k, x)" rule: central_fine.cases) (auto split: if_splits)

interpretation central: phase_barrier central_steps M "central_inv M" "\<lambda>s t. snd (threads s t)" free
  "\<lambda>s t. finished (threads s t)" for M :: "'t set"
proof unfold_locales
  fix s s' :: "'t central_state" and t
  assume "central_inv M s" "t \<in> M" "s' \<in> set (central_steps s t)"
  then show "central_inv M s'" using central_step by (auto simp: central_inv_def)
next
  fix s :: "'t central_state" and t u
  assume inv: "central_inv M s" and tu: "t \<in> M" "free s t" "u \<in> M" "\<not> finished (threads s u)"
  then obtain k where k: "\<And>v. v \<in> M \<Longrightarrow> central_fine k (threads s v)" by (auto simp: central_inv_def central_phase_def)
  have "snd (threads s t) = k" using k [OF tu(1)] tu(2) by (cases "threads s t") auto
  then show "snd (threads s t) \<le> snd (threads s u)" using central_fine_count [OF k [OF tu(3)] tu(4)] by auto
next
  fix s :: "'t central_state" and t
  assume inv: "central_inv M s" and t: "t \<in> M" "\<not> finished (threads s t)" "central_steps s t = []"
  then obtain k where k: "finite M" "central_phase M k s" by (auto simp: central_inv_def)
  obtain q n where q: "threads s t = (q, n)" by (cases "threads s t") auto
  have "phase s = odd k" using k(2) by (simp add: central_phase_def)
  then have n: "n = Suc k"
    using t(2,3) central_members(1) [OF k t(1)] by (cases q) (auto simp: q central_steps_def central_try_wait_def split: if_splits)
  show "\<exists>u\<in>M. \<not> finished (threads s u) \<and> (snd (threads s u) < snd (threads s t) \<or> central_steps s u \<noteq> [])"
  proof (cases "card {u \<in> M. completing (threads s u)} = 0")
    case True
    then have "card {u \<in> M. missing k (threads s u)} \<noteq> 0" using k(2) t(1,2) by (auto simp: central_phase_def)
    then obtain u where "u \<in> M" "missing k (threads s u)" by (auto simp: card_eq_0_iff)
    then show ?thesis using n q by (intro bexI [of _ u]) (auto simp: missing_def)
  next
    case False
    then obtain u where u: "u \<in> M" "completing (threads s u)" by (auto simp: card_eq_0_iff)
    then have "\<not> finished (threads s u)" "central_steps s u \<noteq> []"
      by (cases "threads s u" rule: completing.cases; simp add: central_steps_def)+
    then show ?thesis using u(1) by blast
  qed
qed

text \<open>While the completion function runs, all others wait for it.\<close>

lemma central_calling:
  assumes inv: "central_inv M s" and t: "t \<in> M" "threads s t = (Calling out old e, n)" and u: "u \<in> M" "u \<noteq> t" "\<not> finished (threads s u)"
  shows "n = Suc (completions s) \<and> snd (threads s u) = n \<and> fst (threads s u) \<noteq> Free"
proof -
  from inv obtain k where k: "finite M" "central_phase M k s" by (auto simp: central_inv_def)
  note facts = central_members [OF k]
  have n: "n = Suc k" "completions s = k" using facts(1,3) [OF t(1)] by (simp_all add: t(2))
  have "card {u \<in> M. missing k (threads s u)} = 0" using facts(3) [OF t(1)] by (simp add: t(2))
  then have "snd (threads s u) \<noteq> k" using u k(1) by (auto simp: card_eq_0_iff missing_def)
  moreover have "fst (threads s u) \<noteq> Free" using calculation facts(1) [OF u(1)] by (cases "threads s u") auto
  ultimately show ?thesis using central_fine_count [OF facts(1) [OF u(1)] u(3)] n by simp
qed

text \<open>The completion function has run in every phase that somebody has left, and in no phase in which somebody is missing.\<close>

lemma central_completions:
  assumes inv: "central_inv M s" and t: "t \<in> M"
  shows "free s t \<Longrightarrow> snd (threads s t) \<le> completions s" "\<not> finished (threads s t) \<Longrightarrow> completions s \<le> snd (threads s t)"
proof -
  from inv obtain k where k: "finite M" "central_phase M k s" by (auto simp: central_inv_def)
  note facts = central_members [OF k]
  have ran: "completions s = k \<or> completions s = Suc k \<and> card {u \<in> M. missing k (threads s u)} = 0"
  proof (cases "card {u \<in> M. completing (threads s u)} = 0")
    case True
    then show ?thesis using k(2) by (simp add: central_phase_def)
  next
    case False
    then obtain v where v: "v \<in> M" "completing (threads s v)" by (auto simp: card_eq_0_iff)
    from facts(3) [OF this] v(2) show ?thesis by (cases "threads s v" rule: completing.cases) auto
  qed
  show "snd (threads s t) \<le> completions s" if "free s t"
    using facts(1) [OF t] that ran by (cases "threads s t") auto
  show "completions s \<le> snd (threads s t)" if "\<not> finished (threads s t)"
  proof -
    have "snd (threads s t) = k \<or> snd (threads s t) = Suc k" by (rule central_fine_count [OF facts(1) [OF t] that])
    moreover have "snd (threads s t) \<noteq> k" if "card {u \<in> M. missing k (threads s u)} = 0"
      using that t \<open>\<not> finished (threads s t)\<close> k(1) by (auto simp: card_eq_0_iff missing_def)
    ultimately show ?thesis using ran by auto
  qed
qed

end
