(* ===== verification/BarrierProperties.thy ===== *)
theory BarrierProperties
  imports PackedBarrier CentralBarrier
begin

unbundle bit_operations_syntax

text \<open>
  The properties of the two barriers, and the packed barrier without interruption as an abstract barrier.
\<close>

section \<open>Threads that meet\<close>

text \<open>C29. Barrier without a completion function: however the atomic operations of its members are interleaved, and as long as none
  drops out, a member that has returned from its \<open>n\<close>-th wait knows that every member has arrived at least \<open>n\<close> times, although the word only keeps
  the parity of the phase and the last arrival resets the count after it has released the others.\<close>

theorem packed_barrier_synchronizes:
  assumes "finite M" and "card M \<le> 2 ^ 31" and "reached (moves (packed_steps False) M) (packed_start (of_nat (card M))) s"
    and "t \<in> M" and "u \<in> M" and "outside s t"
  shows "snd (packed_threads s t) \<le> snd (packed_threads s u)"
proof -
  have "packed_inv M (packed_start (of_nat (card M)))" using assms(1,2,4) by (intro packed_inv_start) auto
  note facts = packed.synchronized [OF assms(3) this assms(4,6,5)] packed.reached_inv [OF assms(3) this]
  show ?thesis
  proof (cases "fst (packed_threads s u) = Left")
    case True
    then show ?thesis using facts(2) assms(5) by (cases "packed_threads s u") (auto simp: packed_inv_def packed_phase_def Let_def)
  qed (use facts in simp)
qed

text \<open>C30. As long as no member drops out, the members of this barrier are never all blocked. With \<open>arrive_and_drop\<close> they can be,
  as the race at the end of this theory shows.\<close>

theorem packed_barrier_never_stuck:
  assumes "finite M" and "M \<noteq> {}" and "card M \<le> 2 ^ 31" and "reached (moves (packed_steps False) M) (packed_start (of_nat (card M))) s"
  shows "\<exists>t\<in>M. packed_steps False s t \<noteq> []"
proof -
  have start: "packed_inv M (packed_start (of_nat (card M)))" using assms(1-3) by (rule packed_inv_start)
  obtain t where t: "t \<in> M" using assms(2) by blast
  have "fst (packed_threads s t) \<noteq> Left" using packed.reached_inv [OF assms(4) start] t
    by (cases "packed_threads s t") (auto simp: packed_inv_def packed_phase_def Let_def)
  with packed.never_stuck [OF assms(4) start t] show ?thesis .
qed

text \<open>C31. Barrier with a completion function, where members may drop out at any time: a member that has returned from its
  \<open>n\<close>-th wait knows that every member that has not dropped out has arrived at least \<open>n\<close> times.\<close>

theorem central_barrier_synchronizes:
  assumes "finite M" and "card M < 2 ^ 63" and "reached (moves central_steps M) (central_start (of_nat (card M))) s"
    and "t \<in> M" and "u \<in> M" and "free s t" and "\<not> finished (threads s u)"
  shows "snd (threads s t) \<le> snd (threads s u)"
  by (rule central.synchronized [OF assms(3) central_inv_start [OF assms(1,2)] assms(4,6,5,7)])

text \<open>Some member that has not dropped out can go on.\<close>

lemma central_barrier_never_stuck:
  assumes "finite M" and "card M < 2 ^ 63" and "reached (moves central_steps M) (central_start (of_nat (card M))) s"
    and "t \<in> M" and "\<not> finished (threads s t)"
  shows "\<exists>u\<in>M. central_steps s u \<noteq> []"
  by (rule central.never_stuck [OF assms(3) central_inv_start [OF assms(1,2)] assms(4,5)])

text \<open>C32. The completion function runs exactly once in every phase, after all members have arrived and before any of them
  passes: a member that has returned from its \<open>n\<close>-th wait knows that the function has run at least \<open>n\<close> times, and it has run at
  most as often as any member that has not dropped out has arrived. While it runs for the \<open>n\<close>-th time, for the member
  \<open>t\<close>, every other such member has arrived \<open>n\<close> times and has not passed.\<close>

theorem completion_between_phases:
  assumes "finite M" and "card M < 2 ^ 63" and "reached (moves central_steps M) (central_start (of_nat (card M))) s"
    and "t \<in> M" and "u \<in> M" and "\<not> finished (threads s u)"
  shows "(free s t \<longrightarrow> snd (threads s t) \<le> completions s) \<and> completions s \<le> snd (threads s u) \<and>
    (\<forall>out old e n. threads s t = (Calling out old e, n) \<and> u \<noteq> t \<longrightarrow>
       n = Suc (completions s) \<and> snd (threads s u) = n \<and> \<not> free s u)"
proof -
  have inv: "central_inv M s" by (rule central.reached_inv [OF assms(3) central_inv_start [OF assms(1,2)]])
  from central_completions [OF inv] central_calling [OF inv assms(4) _ assms(5) _ assms(6)] assms(4-6) show ?thesis by blast
qed

section \<open>Without interruption\<close>

record abs_barrier =
  odd_phase :: bool
  pending :: nat
  expecting :: nat

datatype barrier_call = Arrive nat | Arrive_and_drop

definition abs_arrive :: "nat \<Rightarrow> abs_barrier \<Rightarrow> abs_barrier" where
  "abs_arrive n b = (if n < pending b then b\<lparr>pending := pending b - n\<rparr> else b\<lparr>odd_phase := \<not> odd_phase b, pending := expecting b\<rparr>)"

text \<open>No more arrivals than are missing; the last expected one does not drop out.\<close>

fun abs_call :: "barrier_call \<Rightarrow> abs_barrier \<Rightarrow> abs_barrier option" where
  "abs_call (Arrive n) b = (if n \<le> pending b then Some (abs_arrive n b) else None)"
| "abs_call Arrive_and_drop b = (if 2 \<le> expecting b then Some (abs_arrive 1 (b\<lparr>expecting := expecting b - 1\<rparr>)) else None)"

fun packed_call :: "barrier_call \<Rightarrow> u64 \<Rightarrow> u64 option" where
  "packed_call (Arrive n) w = Some (fst (packed_arrive (of_nat n) w))"
| "packed_call Arrive_and_drop w = Some (packed_arrive_and_drop w)"

definition packs :: "abs_barrier \<Rightarrow> u64 \<Rightarrow> bool" where
  "packs b w \<longleftrightarrow> 0 < pending b \<and> pending b \<le> 2 ^ 31 \<and> 0 < expecting b \<and> expecting b \<le> 2 ^ 31 \<and>
     w = packed_word (of_bool (odd_phase b)) (2 ^ 31 - pending b) (2 ^ 31 - expecting b)"

lemma packed_word_two: "packed_word (Suc (Suc k)) a e = packed_word k a e"
proof -
  have "(of_nat (2 ^ 64) :: u64) = 0" by simp
  then show ?thesis by (simp add: packed_word_def)
qed

lemma packed_arrive_word:
  assumes "a + n \<le> 2 ^ 31" "a < 2 ^ 31" "e < 2 ^ 32"
  shows "packed_arrive (of_nat n) (packed_word k a e) =
    (if a + n = 2 ^ 31 then packed_word (Suc k) e e else packed_word k (a + n) e, parity k)"
  using arrival_word [OF assms, of k] assms packed_word_arrive [of "Suc k" 0 e e]
  by (simp add: packed_arrive_def Let_def phase_packed_word packed_reset_word)

lemma packs_arrive:
  assumes "packs b w" "n \<le> pending b"
  shows "packs (abs_arrive n b) (fst (packed_arrive (of_nat n) w))"
proof -
  define p where "p = 2 ^ 31 - pending b"
  define e where "e = 2 ^ 31 - expecting b"
  have b: "0 < pending b" "pending b \<le> 2 ^ 31" "0 < expecting b" "expecting b \<le> 2 ^ 31" "w = packed_word (of_bool (odd_phase b)) p e"
    using assms(1) by (simp_all add: packs_def p_def e_def)
  have p: "p < 2 ^ 31" "p + n \<le> 2 ^ 31" "e < 2 ^ 32" "p + n = 2 ^ 31 \<longleftrightarrow> \<not> n < pending b" "p + n = 2 ^ 31 - (pending b - n)"
    using b assms(2) by (auto simp: p_def e_def)
  show ?thesis
  proof (cases "n < pending b")
    case True
    then show ?thesis using packed_arrive_word [OF p(2,1,3), of "of_bool (odd_phase b)"] p b
      by (simp add: packs_def abs_arrive_def e_def)
  next
    case False
    then have "packed_word (Suc (of_bool (odd_phase b))) e e = packed_word (of_bool (\<not> odd_phase b)) e e"
      using packed_word_two [of 0] by (cases "odd_phase b") simp_all
    then show ?thesis using packed_arrive_word [OF p(2,1,3), of "of_bool (odd_phase b)"] p b False
      by (simp add: packs_def abs_arrive_def e_def)
  qed
qed

interpretation calls: simulation abs_call packed_call packs
proof
  fix b w c b'
  assume R: "packs b w" and step: "abs_call c b = Some b'"
  show "\<exists>w'. packed_call c w = Some w' \<and> packs b' w'"
  proof (cases c)
    case (Arrive n)
    then show ?thesis using packs_arrive [OF R, of n] step by (simp split: if_splits)
  next
    case Arrive_and_drop
    then have two: "2 \<le> expecting b" "b' = abs_arrive 1 (b\<lparr>expecting := expecting b - 1\<rparr>)" using step by (simp_all split: if_splits)
    then have "packs (b\<lparr>expecting := expecting b - 1\<rparr>) (w + expected_unit)"
      using R by (auto simp: packs_def packed_word_drop intro!: arg_cong [where f = "packed_word k a" for k a])
    from packs_arrive [OF this, of 1] R two show ?thesis by (simp add: Arrive_and_drop packed_arrive_and_drop_def packs_def)
  qed
qed

text \<open>C33. Called one after the other, the operations of the packed barrier are those of a barrier with a phase, a count of
  missing arrivals, also of several at once, and a count of expected arrivals that dropping out decreases; waiting for the
  phase of a token or a parity ends exactly when the phase is another one.\<close>

theorem packed_calls_refine:
  assumes "0 < n" and "n \<le> 2 ^ 31" and "run_calls abs_call cs \<lparr>odd_phase = False, pending = n, expecting = n\<rparr> = Some b"
  shows "\<exists>w. run_calls packed_call cs (packed_init (of_nat n)) = Some w \<and> packs b w \<and>
    (\<forall>p. packed_try_wait_parity p w \<longleftrightarrow> odd_phase b \<noteq> p) \<and> snd (packed_arrive 1 w) = parity (of_bool (odd_phase b))"
proof -
  have "packs \<lparr>odd_phase = False, pending = n, expecting = n\<rparr> (packed_init (of_nat n))"
    using assms(1,2) by (simp add: packs_def packed_init_word)
  from calls.run [OF this assms(3)] obtain w where w: "run_calls packed_call cs (packed_init (of_nat n)) = Some w" "packs b w" by blast
  then have "w AND phase_bit = parity (of_bool (odd_phase b))" by (auto simp: packs_def intro!: phase_packed_word)
  then show ?thesis using w
    by (auto simp: packed_try_wait_parity_def packed_try_wait_phase_def parity_def packed_arrive_def Let_def split: if_splits)
qed

section \<open>Dropping out as the last one\<close>

text \<open>C40. A member that makes the last arrival of a phase with \<open>arrive_and_drop\<close> releases the others before it resets the
  count of missing arrivals. If the others complete the next phase in between, the late reset changes the phase once more
  and is lost as a reset: of two members, one drops out, and the other one, who is then alone, waits forever.\<close>

theorem packed_drop_race:
  "\<exists>s. reached (moves (packed_steps True) UNIV) (packed_start 2) s \<and> fst (packed_threads s False) = Left \<and>
    (\<exists>token. fst (packed_threads s True) = Holding token) \<and> (\<forall>t::bool. packed_steps True s t = [])"
proof -
  let ?ks = "[(True, 0), (False, 1), (False, 0), (True, 0), (True, 0), (False, 0), (True, 0), (True, 0)]"
  note defs = packed_start_def packed_init_def packed_steps_def first_addition_def Let_def changes_phase_def arrived_unit_def
    phase_bit_def after_arrival_def expected_unit_def packed_reset_def expected_mask_def packed_try_wait_def packed_try_wait_phase_def
  obtain s where s: "follow (packed_steps True) (packed_start 2) ?ks = Some s" "fst (packed_threads s False) = Left"
    "fst (packed_threads s True) = Holding 0" "packed_steps True s True = []" "packed_steps True s False = []"
    by (simp add: defs)
  then have "packed_steps True s t = []" for t by (cases t) simp_all
  with follow_moves [OF s(1), of UNIV "packed_start 2"] s show ?thesis by (auto intro: reached_start)
qed

section \<open>Witnesses\<close>

text \<open>Two members, of which one has arrived, waits and is passed by the other.\<close>

definition both :: "bool set" where "both = UNIV"

lemma both: "finite both" "card both = 2" "t \<in> both" "both \<noteq> {}"
  by (simp_all add: both_def)

lemmas packed_defs = packed_start_def packed_init_def packed_steps_def first_addition_def Let_def changes_phase_def arrived_unit_def
  phase_bit_def after_arrival_def packed_reset_def expected_mask_def packed_try_wait_def packed_try_wait_phase_def

lemma packed_sample:
  obtains s where "reached (moves (packed_steps False) both) (packed_start (of_nat (card both))) s"
    "packed_threads s True = (Outside, 1)" "packed_threads s False = (Resetting False 0x7FFFFFFF7FFFFFFE, 1)"
proof -
  obtain s where s: "follow (packed_steps False) (packed_start 2) [(True, 0), (False, 0), (True, 0)] = Some s"
    "packed_threads s True = (Outside, 1)" "packed_threads s False = (Resetting False 0x7FFFFFFF7FFFFFFE, 1)"
    by (simp add: packed_defs)
  with follow_moves [OF s(1), of both "packed_start 2"] that show thesis by (auto simp: both intro: reached_start)
qed

theorem packed_barrier_synchronizes_witness:
  "\<exists>s. outside s True \<and> snd (packed_threads s True) = 1 \<and> snd (packed_threads s True) \<le> snd (packed_threads s False)"
proof (rule packed_sample)
  fix s
  assume s: "reached (moves (packed_steps False) both) (packed_start (of_nat (card both))) s" "packed_threads s True = (Outside, 1)"
  then show ?thesis using packed_barrier_synchronizes [OF both(1) _ s(1) both(3) both(3), of True False]
    by (intro exI [of _ s]) (simp add: both)
qed

theorem packed_barrier_never_stuck_witness:
  "\<exists>s. packed_threads s True = (Outside, 1) \<and> (\<exists>t\<in>both. packed_steps False s t \<noteq> [])"
proof (rule packed_sample)
  fix s
  assume s: "reached (moves (packed_steps False) both) (packed_start (of_nat (card both))) s" "packed_threads s True = (Outside, 1)"
  then show ?thesis using packed_barrier_never_stuck [OF both(1,4) _ s(1)] by (intro exI [of _ s]) (simp add: both)
qed

lemmas central_defs = central_start_def central_steps_def returns_def central_try_wait_def

lemma central_sample:
  obtains s where "reached (moves central_steps both) (central_start (of_nat (card both))) s"
    "threads s True = (Token False, 1)" "threads s False = (Calling True False 1, 1)"
proof -
  obtain s where s: "follow central_steps (central_start 2) [(True, 0), (True, 0), (False, 1), (False, 0), (False, 0), (False, 0), (True, 0)]
      = Some s" "threads s True = (Token False, 1)" "threads s False = (Calling True False 1, 1)"
    by (simp add: central_defs)
  with follow_moves [OF s(1), of both "central_start 2"] that show thesis by (auto simp: both intro: reached_start)
qed

lemma central_passed:
  obtains s where "reached (moves central_steps both) (central_start (of_nat (card both))) s"
    "threads s True = (Free, 1)" "threads s False = (Token False, 1)"
proof -
  obtain s where s: "follow central_steps (central_start 2) [(True, 0), (True, 0), (False, 0), (False, 0), (False, 0), (True, 0),
      (False, 0), (False, 0), (False, 0), (True, 0)] = Some s" "threads s True = (Free, 1)" "threads s False = (Token False, 1)"
    by (simp add: central_defs)
  with follow_moves [OF s(1), of both "central_start 2"] that show thesis by (auto simp: both intro: reached_start)
qed

theorem completion_between_phases_witness:
  "(\<exists>s. threads s False = (Calling True False 1, 1) \<and> completions s = 0 \<and> snd (threads s True) = 1 \<and> \<not> free s True) \<and>
   (\<exists>s. free s True \<and> snd (threads s True) = 1 \<and> 1 \<le> completions s \<and> completions s \<le> 1)"
proof
  show "\<exists>s. threads s False = (Calling True False 1, 1) \<and> completions s = 0 \<and> snd (threads s True) = 1 \<and> \<not> free s True"
  proof (rule central_sample)
    fix s
    assume s: "reached (moves central_steps both) (central_start (of_nat (card both))) s"
      "threads s True = (Token False, 1)" "threads s False = (Calling True False 1, 1)"
    then show ?thesis using completion_between_phases [OF both(1) _ s(1) both(3) both(3), of True False]
      by (intro exI [of _ s]) (simp add: both ex_bool_eq)
  qed
  obtain s where s: "reached (moves central_steps both) (central_start (of_nat (card both))) s"
    "threads s True = (Free, 1)" "threads s False = (Token False, 1)" by (rule central_passed)
  from completion_between_phases [OF both(1) _ s(1) both(3) both(3), of False True] s(2,3)
  show "\<exists>s. free s True \<and> snd (threads s True) = 1 \<and> 1 \<le> completions s \<and> completions s \<le> 1"
    by (intro exI [of _ s]) (simp add: both)
qed

lemma central_barrier_never_stuck_witness:
  "\<exists>s. threads s True = (Token False, 1) \<and> (\<exists>u\<in>both. central_steps s u \<noteq> [])"
proof (rule central_sample)
  fix s
  assume s: "reached (moves central_steps both) (central_start (of_nat (card both))) s" "threads s True = (Token False, 1)"
  then show ?thesis using central_barrier_never_stuck [OF both(1) _ s(1) both(3), of True] by (intro exI [of _ s]) (simp add: both)
qed

theorem central_barrier_synchronizes_witness:
  "\<exists>s. free s True \<and> snd (threads s True) = 1 \<and> snd (threads s True) \<le> snd (threads s False)"
proof (rule central_passed)
  fix s
  assume s: "reached (moves central_steps both) (central_start (of_nat (card both))) s"
    "threads s True = (Free, 1)" "threads s False = (Token False, 1)"
  from central_barrier_synchronizes [OF both(1) _ s(1) both(3) both(3), of True False] show ?thesis using s
    by (intro exI [of _ s]) (simp add: both)
qed

theorem packed_calls_refine_witness:
  "\<exists>w. run_calls packed_call [Arrive 2, Arrive_and_drop, Arrive 2] (packed_init (of_nat 3)) = Some w \<and>
    packs \<lparr>odd_phase = False, pending = 2, expecting = 2\<rparr> w"
proof -
  have run: "run_calls abs_call [Arrive 2, Arrive_and_drop, Arrive 2] \<lparr>odd_phase = False, pending = 3, expecting = 3\<rparr> =
    Some \<lparr>odd_phase = False, pending = 2, expecting = 2\<rparr>" by (simp add: abs_arrive_def)
  show ?thesis using packed_calls_refine [OF _ _ run] by auto
qed

end
