(* ===== verification/ArrayConstruction.thy ===== *)
theory ArrayConstruction
  imports Prelude
begin

text \<open>
  Construction and destruction of arrays (\<open>libcxxabi/src/cxa_vector.cpp\<close>). The calls of constructors, destructors and
  allocation functions are a list of events; whether a constructor or destructor throws may depend on everything before.
  Objects that clean up when they go out of scope are the branches for exceptions.
\<close>

section \<open>Calls out of the library\<close>

datatype array_event = Constructed u64 | Copied u64 u64 | Construction_threw u64 | Destroyed u64 | Destruction_threw u64
  | Allocated u64 u64 | Deallocated u64 "u64 option"

text \<open>\<open>element_counts p\<close> is the word before the address \<open>p\<close>.\<close>

record array_state =
  happened :: "array_event list"
  element_counts :: "u64 \<Rightarrow> u64"

record array_client =
  constructor_throws :: "array_event list \<Rightarrow> u64 \<Rightarrow> bool"
  destructor_throws :: "array_event list \<Rightarrow> u64 \<Rightarrow> bool"

datatype 'a outcome = Returns 'a | Throws | Terminates

abbreviation record_event :: "array_event \<Rightarrow> array_state \<Rightarrow> array_state" where
  "record_event e st \<equiv> st\<lparr>happened := happened st @ [e]\<rparr>"

text \<open>The constructor and destructor of the element at an address, if there is one.\<close>

definition construct :: "array_client \<Rightarrow> u64 \<Rightarrow> array_state \<Rightarrow> array_state \<times> unit outcome" where
  "construct c ptr st =
     (if constructor_throws c (happened st) ptr then (record_event (Construction_threw ptr) st, Throws)
      else (record_event (Constructed ptr) st, Returns ()))"

definition copy_construct :: "array_client \<Rightarrow> u64 \<Rightarrow> u64 \<Rightarrow> array_state \<Rightarrow> array_state \<times> unit outcome" where
  "copy_construct c dest_ptr src_ptr st =
     (if constructor_throws c (happened st) dest_ptr then (record_event (Construction_threw dest_ptr) st, Throws)
      else (record_event (Copied dest_ptr src_ptr) st, Returns ()))"

definition destruct :: "array_client \<Rightarrow> u64 \<Rightarrow> array_state \<Rightarrow> array_state \<times> unit outcome" where
  "destruct c ptr st =
     (if destructor_throws c (happened st) ptr then (record_event (Destruction_threw ptr) st, Throws)
      else (record_event (Destroyed ptr) st, Returns ()))"

section \<open>Sizes\<close>

text \<open>The builtin functions, and the code for compilers without them.\<close>

definition mul_overflow :: "u64 \<Rightarrow> u64 \<Rightarrow> bool \<times> u64" where
  "mul_overflow x y = (2 ^ 64 \<le> unat x * unat y, x * y)"

definition mul_overflow_portable :: "u64 \<Rightarrow> u64 \<Rightarrow> bool \<times> u64" where
  "mul_overflow_portable x y = (let res = x * y in (x \<noteq> 0 \<and> res div x \<noteq> y, res))"

definition add_overflow :: "u64 \<Rightarrow> u64 \<Rightarrow> bool \<times> u64" where
  "add_overflow x y = (2 ^ 64 \<le> unat x + unat y, x + y)"

definition add_overflow_portable :: "u64 \<Rightarrow> u64 \<Rightarrow> bool \<times> u64" where
  "add_overflow_portable x y = (let res = x + y in (res < y, res))"

text \<open>\<open>None\<close> if it throws \<open>std::bad_array_new_length\<close>.\<close>

definition calculate_allocation_size :: "u64 \<Rightarrow> u64 \<Rightarrow> u64 \<Rightarrow> u64 option" where
  "calculate_allocation_size element_count element_size padding_size =
     (let (overflow, element_heap_size) = mul_overflow element_count element_size in
      if overflow then None
      else let (overflow, allocation_size) = add_overflow element_heap_size padding_size in
      if overflow then None else Some allocation_size)"

section \<open>Loops\<close>

text \<open>\<open>while (idx-- > 0)\<close>; the guard calls \<open>std::terminate\<close> when a destructor throws.\<close>

primrec cleanup_loop :: "array_client \<Rightarrow> u64 \<Rightarrow> nat \<Rightarrow> u64 \<Rightarrow> array_state \<Rightarrow> array_state \<times> unit outcome" where
  "cleanup_loop c element_size 0 ptr st = (st, Returns ())"
| "cleanup_loop c element_size (Suc idx) ptr st =
     (let ptr = ptr - element_size in
      case destruct c ptr st of
        (st, Returns u) \<Rightarrow> cleanup_loop c element_size idx ptr st
      | (st, _) \<Rightarrow> (st, Terminates))"

definition vec_cleanup :: "array_client \<Rightarrow> bool \<Rightarrow> u64 \<Rightarrow> u64 \<Rightarrow> u64 \<Rightarrow> array_state \<Rightarrow> array_state \<times> unit outcome" where
  "vec_cleanup c has_destructor array_address element_count element_size st =
     (if has_destructor
      then cleanup_loop c element_size (unat element_count) (array_address + element_count * element_size) st
      else (st, Returns ()))"

text \<open>The destructor of \<open>st_cxa_cleanup\<close> while an exception is on its way.\<close>

definition cleanup_and_rethrow :: "array_client \<Rightarrow> bool \<Rightarrow> u64 \<Rightarrow> u64 \<Rightarrow> u64 \<Rightarrow> array_state \<Rightarrow> array_state \<times> unit outcome" where
  "cleanup_and_rethrow c has_destructor array_address idx element_size st =
     (case vec_cleanup c has_destructor array_address idx element_size st of
        (st, Returns u) \<Rightarrow> (st, Throws)
      | (st, r) \<Rightarrow> (st, r))"

text \<open>The loops of the constructors, with the number of elements that are left.\<close>

primrec ctor_loop ::
  "array_client \<Rightarrow> bool \<Rightarrow> u64 \<Rightarrow> u64 \<Rightarrow> nat \<Rightarrow> u64 \<Rightarrow> u64 \<Rightarrow> array_state \<Rightarrow> array_state \<times> unit outcome" where
  "ctor_loop c has_destructor array_address element_size 0 idx ptr st = (st, Returns ())"
| "ctor_loop c has_destructor array_address element_size (Suc k) idx ptr st =
     (case construct c ptr st of
        (st, Returns u) \<Rightarrow> ctor_loop c has_destructor array_address element_size k (idx + 1) (ptr + element_size) st
      | (st, _) \<Rightarrow> cleanup_and_rethrow c has_destructor array_address idx element_size st)"

primrec cctor_loop ::
  "array_client \<Rightarrow> bool \<Rightarrow> u64 \<Rightarrow> u64 \<Rightarrow> nat \<Rightarrow> u64 \<Rightarrow> u64 \<Rightarrow> u64 \<Rightarrow> array_state \<Rightarrow> array_state \<times> unit outcome" where
  "cctor_loop c has_destructor dest_array element_size 0 idx src_ptr dest_ptr st = (st, Returns ())"
| "cctor_loop c has_destructor dest_array element_size (Suc k) idx src_ptr dest_ptr st =
     (case copy_construct c dest_ptr src_ptr st of
        (st, Returns u) \<Rightarrow>
          cctor_loop c has_destructor dest_array element_size k (idx + 1) (src_ptr + element_size) (dest_ptr + element_size) st
      | (st, _) \<Rightarrow> cleanup_and_rethrow c has_destructor dest_array idx element_size st)"

text \<open>\<open>uncaught\<close> is \<open>__cxa_uncaught_exception\<close> at the start.\<close>

primrec dtor_loop :: "array_client \<Rightarrow> bool \<Rightarrow> u64 \<Rightarrow> u64 \<Rightarrow> nat \<Rightarrow> u64 \<Rightarrow> array_state \<Rightarrow> array_state \<times> unit outcome" where
  "dtor_loop c uncaught array_address element_size 0 ptr st = (st, Returns ())"
| "dtor_loop c uncaught array_address element_size (Suc idx) ptr st =
     (let ptr = ptr - element_size in
      case destruct c ptr st of
        (st, Returns u) \<Rightarrow> dtor_loop c uncaught array_address element_size idx ptr st
      | (st, _) \<Rightarrow>
          if uncaught then (st, Terminates)
          else cleanup_and_rethrow c True array_address (of_nat idx) element_size st)"

section \<open>The routines\<close>

definition vec_ctor :: "array_client \<Rightarrow> bool \<Rightarrow> bool \<Rightarrow> u64 \<Rightarrow> u64 \<Rightarrow> u64 \<Rightarrow> array_state \<Rightarrow> array_state \<times> unit outcome" where
  "vec_ctor c has_constructor has_destructor array_address element_count element_size st =
     (if has_constructor
      then ctor_loop c has_destructor array_address element_size (unat element_count) 0 array_address st
      else (st, Returns ()))"

definition vec_cctor ::
  "array_client \<Rightarrow> bool \<Rightarrow> bool \<Rightarrow> u64 \<Rightarrow> u64 \<Rightarrow> u64 \<Rightarrow> u64 \<Rightarrow> array_state \<Rightarrow> array_state \<times> unit outcome" where
  "vec_cctor c has_constructor has_destructor dest_array src_array element_count element_size st =
     (if has_constructor
      then cctor_loop c has_destructor dest_array element_size (unat element_count) 0 src_array dest_array st
      else (st, Returns ()))"

definition vec_dtor :: "array_client \<Rightarrow> bool \<Rightarrow> bool \<Rightarrow> u64 \<Rightarrow> u64 \<Rightarrow> u64 \<Rightarrow> array_state \<Rightarrow> array_state \<times> unit outcome" where
  "vec_dtor c uncaught has_destructor array_address element_count element_size st =
     (if has_destructor
      then dtor_loop c uncaught array_address element_size (unat element_count) (array_address + element_count * element_size) st
      else (st, Returns ()))"

text \<open>\<open>alloc\<close> gives \<open>None\<close> if it throws and \<open>Some 0\<close> if it has no memory; \<open>dealloc\<close> gets the size or not.\<close>

definition vec_new_with ::
  "(u64 \<Rightarrow> u64 \<Rightarrow> array_event) \<Rightarrow> array_client \<Rightarrow> bool \<Rightarrow> bool \<Rightarrow> (u64 \<Rightarrow> u64 option) \<Rightarrow> u64 \<Rightarrow> u64 \<Rightarrow> u64 \<Rightarrow> array_state \<Rightarrow>
   array_state \<times> u64 outcome" where
  "vec_new_with dealloc c has_constructor has_destructor alloc element_count element_size padding_size st =
     (case calculate_allocation_size element_count element_size padding_size of
        None \<Rightarrow> (st, Throws)
      | Some heap_size \<Rightarrow> (case alloc heap_size of
          None \<Rightarrow> (st, Throws)
        | Some heap_block \<Rightarrow>
            if heap_block = 0 then (st, Returns 0)
            else
              let st = record_event (Allocated heap_size heap_block) st;
                vec_base = (if padding_size \<noteq> 0 then heap_block + padding_size else heap_block);
                st = (if padding_size \<noteq> 0
                  then st\<lparr>element_counts := (element_counts st)(vec_base := element_count)\<rparr> else st) in
              (case vec_ctor c has_constructor has_destructor vec_base element_count element_size st of
                 (st, Returns u) \<Rightarrow> (st, Returns vec_base)
               | (st, Throws) \<Rightarrow> (record_event (dealloc heap_block heap_size) st, Throws)
               | (st, Terminates) \<Rightarrow> (st, Terminates))))"

definition vec_new2 :: "array_client \<Rightarrow> bool \<Rightarrow> bool \<Rightarrow> (u64 \<Rightarrow> u64 option) \<Rightarrow> u64 \<Rightarrow> u64 \<Rightarrow> u64 \<Rightarrow> array_state \<Rightarrow>
   array_state \<times> u64 outcome" where
  "vec_new2 = vec_new_with (\<lambda>ptr s. Deallocated ptr None)"

definition vec_new3 :: "array_client \<Rightarrow> bool \<Rightarrow> bool \<Rightarrow> (u64 \<Rightarrow> u64 option) \<Rightarrow> u64 \<Rightarrow> u64 \<Rightarrow> u64 \<Rightarrow> array_state \<Rightarrow>
   array_state \<times> u64 outcome" where
  "vec_new3 = vec_new_with (\<lambda>ptr s. Deallocated ptr (Some s))"

definition vec_delete_with :: "array_client \<Rightarrow> bool \<Rightarrow> bool \<Rightarrow> u64 \<Rightarrow> u64 \<Rightarrow> u64 \<Rightarrow> u64 \<Rightarrow> array_event \<Rightarrow> array_state \<Rightarrow>
   array_state \<times> unit outcome" where
  "vec_delete_with c uncaught has_destructor array_address element_count element_size padding_size dealloc st =
     (case (if padding_size \<noteq> 0 \<and> has_destructor
            then vec_dtor c uncaught True array_address element_count element_size st
            else (st, Returns ())) of
        (st, Terminates) \<Rightarrow> (st, Terminates)
      | (st, r) \<Rightarrow> (record_event dealloc st, r))"

definition vec_delete2 :: "array_client \<Rightarrow> bool \<Rightarrow> bool \<Rightarrow> u64 \<Rightarrow> u64 \<Rightarrow> u64 \<Rightarrow> array_state \<Rightarrow> array_state \<times> unit outcome" where
  "vec_delete2 c uncaught has_destructor array_address element_size padding_size st =
     (if array_address \<noteq> 0
      then
        let vec_base = array_address; heap_block = vec_base - padding_size in
        vec_delete_with c uncaught has_destructor array_address (element_counts st vec_base) element_size padding_size
          (Deallocated heap_block None) st
      else (st, Returns ()))"

definition vec_delete3 :: "array_client \<Rightarrow> bool \<Rightarrow> bool \<Rightarrow> u64 \<Rightarrow> u64 \<Rightarrow> u64 \<Rightarrow> array_state \<Rightarrow> array_state \<times> unit outcome" where
  "vec_delete3 c uncaught has_destructor array_address element_size padding_size st =
     (if array_address \<noteq> 0
      then
        let vec_base = array_address; heap_block = vec_base - padding_size;
          element_count = (if padding_size \<noteq> 0 then element_counts st vec_base else 0);
          heap_block_size = element_size * element_count + padding_size in
        vec_delete_with c uncaught has_destructor array_address element_count element_size padding_size
          (Deallocated heap_block (Some heap_block_size)) st
      else (st, Returns ()))"

end
