(* ===== verification/ArrayProperties.thy ===== *)
theory ArrayProperties
  imports ArrayConstruction
begin

text \<open>
  Arrays are made and destroyed as a whole: what the loops do, described on the list of the addresses of the elements, and
  the properties of the allocating and deallocating routines.
\<close>

section \<open>Sizes\<close>

lemma allocation_size_exact:
  "calculate_allocation_size n s p = (if unat n * unat s + unat p < 2 ^ 64 then Some (of_nat (unat n * unat s + unat p)) else None)"
proof (cases "unat n * unat s < 2 ^ 64")
  case True
  then have "unat (n * s) = unat n * unat s" by (simp add: unat_word_ariths(2))
  moreover have "of_nat (unat n * unat s + unat p) = n * s + p" by simp
  ultimately show ?thesis using True by (simp add: calculate_allocation_size_def mul_overflow_def add_overflow_def)
next
  case False
  then show ?thesis by (simp add: calculate_allocation_size_def mul_overflow_def)
qed

text \<open>The portable tests for overflow give what the builtin functions give.\<close>

lemma add_overflow_portable: "add_overflow_portable x y = add_overflow x y"
proof (cases "unat x + unat y < 2 ^ 64")
  case True
  then have "unat (x + y) = unat x + unat y" by (simp add: unat_word_ariths(1))
  then show ?thesis using True by (simp add: add_overflow_portable_def add_overflow_def word_less_nat_alt Let_def)
next
  case False
  have "unat x + unat y - 2 ^ 64 < 2 ^ 64" using add_strict_mono [OF unat_64_bound [of x] unat_64_bound [of y]] by simp
  then have "unat (x + y) = unat x + unat y - 2 ^ 64" using False by (simp add: unat_word_ariths(1) le_mod_geq)
  moreover have "a < m \<Longrightarrow> \<not> a + b < m \<Longrightarrow> a + b - m < b" for a b m :: nat by arith
  from this [OF unat_64_bound, of x "unat y"] have "unat x + unat y - 2 ^ 64 < unat y" using False by simp
  ultimately have "unat (x + y) < unat y" by simp
  then show ?thesis using False by (simp add: add_overflow_portable_def add_overflow_def word_less_nat_alt Let_def)
qed

lemma mul_overflow_portable: "mul_overflow_portable x y = mul_overflow x y"
proof (cases "unat x * unat y < 2 ^ 64")
  case True
  then have "unat (x * y) = unat x * unat y" by (simp add: unat_word_ariths(2))
  then have "x \<noteq> 0 \<Longrightarrow> x * y div x = y" by (simp add: word_unat_eq_iff unat_div unat_eq_zero [symmetric] del: unat_eq_zero)
  then show ?thesis using True by (auto simp: mul_overflow_portable_def mul_overflow_def Let_def)
next
  case False
  then have "18446744073709551616 \<le> unat x * unat y" by simp
  then have "unat (x * y) < unat x * unat y" by (rule less_le_trans [OF unat_64_bound])
  moreover have "x \<noteq> 0" using False by auto
  ultimately have "unat (x * y) div unat x < unat y" by (simp add: div_less_iff_less_mult unat_gt_0 mult.commute)
  then have "x * y div x \<noteq> y" by (auto simp: word_unat_eq_iff unat_div)
  then show ?thesis using False \<open>x \<noteq> 0\<close> by (simp add: mul_overflow_portable_def mul_overflow_def Let_def)
qed

section \<open>Elements\<close>

definition elements :: "u64 \<Rightarrow> u64 \<Rightarrow> nat \<Rightarrow> u64 list" where
  "elements base s n = map (\<lambda>i. base + of_nat i * s) [0..<n]"

lemma elements_Suc: "elements base s (Suc n) = elements base s n @ [base + of_nat n * s]"
  by (simp add: elements_def)

lemma length_elements [simp]: "length (elements base s n) = n"
  by (simp add: elements_def)

text \<open>Destruction in the order of the list, where \<open>b\<close> destructors may throw.\<close>

fun destroy_spec :: "array_client \<Rightarrow> nat \<Rightarrow> u64 list \<Rightarrow> array_state \<Rightarrow> array_state \<times> unit outcome" where
  "destroy_spec c b [] st = (st, Returns ())"
| "destroy_spec c b (a # as) st = (case destruct c a st of
     (st, Returns u) \<Rightarrow> destroy_spec c b as st
   | (st, _) \<Rightarrow>
       if b = 0 then (st, Terminates)
       else (case destroy_spec c (b - 1) as st of (st, Returns u) \<Rightarrow> (st, Throws) | (st, r) \<Rightarrow> (st, r)))"

lemma cleanup_loop_spec:
  "cleanup_loop c s k (base + of_nat k * s) st = destroy_spec c 0 (rev (elements base s k)) st"
proof (induction k arbitrary: st)
  case (Suc k)
  have "base + of_nat (Suc k) * s - s = base + of_nat k * s" by (simp add: algebra_simps)
  then show ?case unfolding cleanup_loop.simps by (simp only: Let_def) (simp add: elements_Suc Suc.IH split: prod.split outcome.split)
qed (simp add: elements_def)

lemma cleanup_and_rethrow_spec:
  assumes "k < 2 ^ 64"
  shows "cleanup_and_rethrow c d base (of_nat k) s st =
    (case destroy_spec c 0 (if d then rev (elements base s k) else []) st of (st, Returns u) \<Rightarrow> (st, Throws) | (st, r) \<Rightarrow> (st, r))"
  using assms by (simp add: cleanup_and_rethrow_def vec_cleanup_def cleanup_loop_spec unsigned_of_nat take_bit_nat_eq_self)

lemma dtor_loop_spec:
  "k < 2 ^ 64 \<Longrightarrow> dtor_loop c uncaught base s k (base + of_nat k * s) st =
    destroy_spec c (if uncaught then 0 else 1) (rev (elements base s k)) st"
proof (induction k arbitrary: st)
  case (Suc k)
  have ptr: "base + of_nat (Suc k) * s - s = base + of_nat k * s" by (simp add: algebra_simps)
  have k: "k < 2 ^ 64" using Suc.prems by simp
  show ?case
    using Suc.IH [OF k] cleanup_and_rethrow_spec [OF k, of c True base s] unfolding dtor_loop.simps ptr
    by (simp add: elements_Suc Let_def split: prod.split outcome.split)
qed (simp add: elements_def)

lemma vec_dtor_spec:
  "vec_dtor c uncaught True base n s st = destroy_spec c (if uncaught then 0 else 1) (rev (elements base s (unat n))) st"
  using dtor_loop_spec [of "unat n" c uncaught base s st] unat_64_bound [of n] by (simp add: vec_dtor_def)

fun is_destruction :: "array_event \<Rightarrow> bool" where
  "is_destruction (Destroyed a) = True"
| "is_destruction (Destruction_threw a) = True"
| "is_destruction e = False"

fun threw :: "array_event \<Rightarrow> bool" where
  "threw (Destruction_threw a) = True"
| "threw e = False"

fun event_address :: "array_event \<Rightarrow> u64" where
  "event_address (Destroyed a) = a"
| "event_address (Destruction_threw a) = a"
| "event_address e = 0"

abbreviation throws_in :: "array_event list \<Rightarrow> nat" where
  "throws_in es \<equiv> length (filter threw es)"

lemma destroy_events:
  assumes "b \<le> 1"
  shows "\<exists>es r. destroy_spec c b as st = (st\<lparr>happened := happened st @ es\<rparr>, r) \<and> (\<forall>e\<in>set es. is_destruction e) \<and>
    map event_address es = take (length es) as \<and>
    (if b < throws_in es then r = Terminates
     else length es = length as \<and> r = (if throws_in es = 0 then Returns () else Throws))"
  using assms
proof (induction as arbitrary: b st)
  case Nil
  show ?case by (rule exI [of _ "[]"]) simp
next
  case (Cons a as)
  show ?case
  proof (cases "destructor_throws c (happened st) a")
    case False
    from Cons.IH [OF Cons.prems, of "record_event (Destroyed a) st"] obtain es r where
      "destroy_spec c b as (record_event (Destroyed a) st) = (record_event (Destroyed a) st\<lparr>happened := happened st @ Destroyed a # es\<rparr>, r)"
      "\<forall>e\<in>set es. is_destruction e" "map event_address es = take (length es) as"
      "if b < throws_in es then r = Terminates else length es = length as \<and> r = (if throws_in es = 0 then Returns () else Throws)"
      by auto
    then show ?thesis using False by (intro exI [of _ "Destroyed a # es"] exI [of _ r]) (simp add: destruct_def)
  next
    case True
    show ?thesis
    proof (cases "b = 0")
      case True
      then show ?thesis using \<open>destructor_throws c (happened st) a\<close>
        by (intro exI [of _ "[Destruction_threw a]"] exI [of _ Terminates]) (simp add: destruct_def)
    next
      case False
      then have b: "b = 1" using Cons.prems by simp
      from Cons.IH [of 0 "record_event (Destruction_threw a) st"] obtain es r where es:
        "destroy_spec c 0 as (record_event (Destruction_threw a) st) =
          (record_event (Destruction_threw a) st\<lparr>happened := happened st @ Destruction_threw a # es\<rparr>, r)"
        "\<forall>e\<in>set es. is_destruction e" "map event_address es = take (length es) as"
        "if 0 < throws_in es then r = Terminates else length es = length as \<and> r = (if throws_in es = 0 then Returns () else Throws)"
        by auto
      then show ?thesis using True b
        by (intro exI [of _ "Destruction_threw a # es"] exI [of _ "case r of Returns u \<Rightarrow> Throws | r \<Rightarrow> r"])
          (simp add: destruct_def split: if_splits)
    qed
  qed
qed

section \<open>Construction\<close>

text \<open>While an exception is on its way all are destroyed, or the first destructor that throws is the end.\<close>

lemma destroy_all_or_terminate:
  "destroy_spec c 0 as st = (st\<lparr>happened := happened st @ map Destroyed as\<rparr>, Returns ()) \<or>
   (\<exists>k<length as. destroy_spec c 0 as st =
     (st\<lparr>happened := happened st @ map Destroyed (take k as) @ [Destruction_threw (as ! k)]\<rparr>, Terminates))"
proof (induction as arbitrary: st)
  case (Cons a as)
  show ?case
  proof (cases "destructor_throws c (happened st) a")
    case True
    then show ?thesis by (intro disjI2 exI [of _ 0]) (simp add: destruct_def)
  next
    case False
    let ?st = "record_event (Destroyed a) st"
    have step: "destroy_spec c 0 (a # as) st = destroy_spec c 0 as ?st" using False by (simp add: destruct_def)
    from Cons.IH [of ?st] show ?thesis
    proof
      assume "destroy_spec c 0 as ?st = (?st\<lparr>happened := happened ?st @ map Destroyed as\<rparr>, Returns ())"
      then show ?thesis unfolding step by simp
    next
      assume "\<exists>k<length as. destroy_spec c 0 as ?st =
        (?st\<lparr>happened := happened ?st @ map Destroyed (take k as) @ [Destruction_threw (as ! k)]\<rparr>, Terminates)"
      then obtain k where k: "k < length as" "destroy_spec c 0 as ?st =
        (?st\<lparr>happened := happened ?st @ map Destroyed (take k as) @ [Destruction_threw (as ! k)]\<rparr>, Terminates)" by blast
      show ?thesis unfolding step k(2) by (rule disjI2, rule exI [of _ "Suc k"]) (simp add: k(1))
    qed
  qed
qed simp

lemma ctor_loop_events:
  assumes n: "n = i + k" "n < 2 ^ 64"
  shows "ctor_loop c d base s k (of_nat i) (base + of_nat i * s) st =
      (st\<lparr>happened := happened st @ map Constructed (drop i (elements base s n))\<rparr>, Returns ()) \<or>
    (\<exists>j<n. i \<le> j \<and> ctor_loop c d base s k (of_nat i) (base + of_nat i * s) st =
      cleanup_and_rethrow c d base (of_nat j) s
        (st\<lparr>happened := happened st @ map Constructed (drop i (elements base s j)) @ [Construction_threw (base + of_nat j * s)]\<rparr>))"
  using n
proof (induction k arbitrary: i st)
  case 0
  then show ?case by simp
next
  case (Suc k)
  have i: "n = Suc i + k" "i < n" using Suc.prems by simp_all
  have next_ptr: "base + of_nat i * s + s = base + of_nat (Suc i) * s" "of_nat i + 1 = (of_nat (Suc i) :: u64)"
    by (simp_all add: algebra_simps)
  have first: "drop i (elements base s j) = (base + of_nat i * s) # drop (Suc i) (elements base s j)" if "i < j" for j
    using that by (subst Cons_nth_drop_Suc [symmetric]) (simp_all add: elements_def)
  show ?case
  proof (cases "constructor_throws c (happened st) (base + of_nat i * s)")
    case True
    then have "ctor_loop c d base s (Suc k) (of_nat i) (base + of_nat i * s) st = cleanup_and_rethrow c d base (of_nat i) s
      (st\<lparr>happened := happened st @ map Constructed (drop i (elements base s i)) @ [Construction_threw (base + of_nat i * s)]\<rparr>)"
      by (simp add: construct_def)
    then show ?thesis using i(2) by blast
  next
    case False
    let ?st = "record_event (Constructed (base + of_nat i * s)) st"
    have eq: "ctor_loop c d base s (Suc k) (of_nat i) (base + of_nat i * s) st =
      ctor_loop c d base s k (of_nat (Suc i)) (base + of_nat (Suc i) * s) ?st"
      using False by (simp only: ctor_loop.simps next_ptr) (simp add: construct_def)
    from Suc.IH [OF i(1) Suc.prems(2), of ?st] show ?thesis
    proof
      assume "ctor_loop c d base s k (of_nat (Suc i)) (base + of_nat (Suc i) * s) ?st =
        (?st\<lparr>happened := happened ?st @ map Constructed (drop (Suc i) (elements base s n))\<rparr>, Returns ())"
      then show ?thesis unfolding eq by (simp add: first [OF i(2)])
    next
      assume "\<exists>j<n. Suc i \<le> j \<and> ctor_loop c d base s k (of_nat (Suc i)) (base + of_nat (Suc i) * s) ?st =
        cleanup_and_rethrow c d base (of_nat j) s (?st\<lparr>happened := happened ?st @
          map Constructed (drop (Suc i) (elements base s j)) @ [Construction_threw (base + of_nat j * s)]\<rparr>)"
      then obtain j where j: "j < n" "Suc i \<le> j" "ctor_loop c d base s k (of_nat (Suc i)) (base + of_nat (Suc i) * s) ?st =
        cleanup_and_rethrow c d base (of_nat j) s (?st\<lparr>happened := happened ?st @
          map Constructed (drop (Suc i) (elements base s j)) @ [Construction_threw (base + of_nat j * s)]\<rparr>)" by blast
      show ?thesis unfolding eq j(3) by (rule disjI2, rule exI [of _ j]) (use j(1,2) in \<open>simp add: first\<close>)
    qed
  qed
qed

text \<open>The elements that are destroyed when the constructor of element \<open>j\<close> has thrown.\<close>

definition undone :: "bool \<Rightarrow> u64 \<Rightarrow> u64 \<Rightarrow> nat \<Rightarrow> u64 list" where
  "undone d base s j = (if d then rev (elements base s j) else [])"

lemma vec_ctor_events:
  obtains (whole) "vec_ctor c h d base n s st =
      (st\<lparr>happened := happened st @ (if h then map Constructed (elements base s (unat n)) else [])\<rparr>, Returns ())"
  | (rethrows) j where "h" "j < unat n" "vec_ctor c h d base n s st =
      (st\<lparr>happened := happened st @ map Constructed (elements base s j) @ [Construction_threw (base + of_nat j * s)] @
        map Destroyed (undone d base s j)\<rparr>, Throws)"
  | (terminates) j k where "h" "j < unat n" "k < length (undone d base s j)" "vec_ctor c h d base n s st =
      (st\<lparr>happened := happened st @ map Constructed (elements base s j) @ [Construction_threw (base + of_nat j * s)] @
        map Destroyed (take k (undone d base s j)) @ [Destruction_threw (undone d base s j ! k)]\<rparr>, Terminates)"
proof (cases h)
  case False
  then show thesis by (intro whole) (simp add: vec_ctor_def)
next
  case True
  let ?at = "\<lambda>j. st\<lparr>happened := happened st @ map Constructed (elements base s j) @ [Construction_threw (base + of_nat j * s)]\<rparr>"
  consider "vec_ctor c h d base n s st = (st\<lparr>happened := happened st @ map Constructed (elements base s (unat n))\<rparr>, Returns ())"
    | j where "j < unat n" "vec_ctor c h d base n s st = cleanup_and_rethrow c d base (of_nat j) s (?at j)"
    using ctor_loop_events [of "unat n" 0 "unat n" c d base s st] unat_64_bound [of n] True by (auto simp: vec_ctor_def)
  then show thesis
  proof cases
    case 1
    then show thesis using True by (intro whole) simp
  next
    case (2 j)
    have "j < 2 ^ 64" using less_trans [OF 2(1) unat_64_bound] by simp
    note run = 2(2) [unfolded cleanup_and_rethrow_spec [OF this] undone_def [symmetric]]
    from destroy_all_or_terminate [of c "undone d base s j" "?at j"] show thesis
    proof
      assume "destroy_spec c 0 (undone d base s j) (?at j) =
        ((?at j)\<lparr>happened := happened (?at j) @ map Destroyed (undone d base s j)\<rparr>, Returns ())"
      then show thesis by (intro rethrows [OF True 2(1)]) (simp only: run, simp)
    next
      assume "\<exists>k<length (undone d base s j). destroy_spec c 0 (undone d base s j) (?at j) =
        ((?at j)\<lparr>happened := happened (?at j) @ map Destroyed (take k (undone d base s j)) @
          [Destruction_threw (undone d base s j ! k)]\<rparr>, Terminates)"
      then obtain k where k: "k < length (undone d base s j)" "destroy_spec c 0 (undone d base s j) (?at j) =
        ((?at j)\<lparr>happened := happened (?at j) @ map Destroyed (take k (undone d base s j)) @
          [Destruction_threw (undone d base s j ! k)]\<rparr>, Terminates)" by blast
      show thesis by (rule terminates [OF True 2(1) k(1)]) (simp only: run k(2), simp)
    qed
  qed
qed

lemma vec_new2_allocated:
  assumes "unat n * unat s + unat p < 2 ^ 64" and block: "alloc (of_nat (unat n * unat s + unat p)) = Some block" "block \<noteq> 0"
  obtains st1 where "happened st1 = happened st @ [Allocated (of_nat (unat n * unat s + unat p)) block]"
    "p \<noteq> 0 \<longrightarrow> element_counts st1 (block + p) = n"
    "vec_new2 c h d alloc n s p st = (case vec_ctor c h d (block + p) n s st1 of
        (st, Returns u) \<Rightarrow> (st, Returns (block + p))
      | (st, Throws) \<Rightarrow> (record_event (Deallocated block None) st, Throws)
      | (st, Terminates) \<Rightarrow> (st, Terminates))"
proof -
  let ?size = "of_nat (unat n * unat s + unat p) :: u64"
  define st1 where "st1 = (let st = record_event (Allocated ?size block) st in
    if p \<noteq> 0 then st\<lparr>element_counts := (element_counts st)(block + p := n)\<rparr> else st)"
  have size: "calculate_allocation_size n s p = Some ?size" using assms(1) by (simp add: allocation_size_exact)
  show thesis
  proof (rule that)
    show "happened st1 = happened st @ [Allocated ?size block]" "p \<noteq> 0 \<longrightarrow> element_counts st1 (block + p) = n"
      by (simp_all add: st1_def Let_def)
    show "vec_new2 c h d alloc n s p st = (case vec_ctor c h d (block + p) n s st1 of
        (st, Returns u) \<Rightarrow> (st, Returns (block + p))
      | (st, Throws) \<Rightarrow> (record_event (Deallocated block None) st, Throws)
      | (st, Terminates) \<Rightarrow> (st, Terminates))"
      using block unfolding vec_new2_def vec_new_with_def size option.case st1_def Let_def
      by (simp only: if_False) (auto simp del: of_nat_add of_nat_mult)
  qed
qed

text \<open>C34. \<open>__cxa_vec_new2\<close> makes an array as a whole or not at all, with or without a constructor and a destructor. Where the
  size and the padding fit in 64 bits and there is memory, it asks for exactly that size, notes the number of elements in the
  padding if there is one, and calls the constructor on the elements in order. When the constructor of an element throws, the destructor is called on
  the constructed ones in reverse order; then the block is given back and the exception goes on, unless one of these
  destructors throws: it is the last call, \<open>std::terminate\<close> ends the program and the block is not given back. Where the size does not
  fit, nothing is allocated and it throws; where the allocation throws or has no memory, so does it or gives a null pointer.\<close>

theorem vec_new_all_or_nothing:
  assumes "vec_new2 c has_constructor has_destructor alloc n s p st = (st', r)"
  shows "if 2 ^ 64 \<le> unat n * unat s + unat p then r = Throws \<and> st' = st
    else case alloc (of_nat (unat n * unat s + unat p)) of
      None \<Rightarrow> r = Throws \<and> st' = st
    | Some block \<Rightarrow>
        if block = 0 then r = Returns 0 \<and> st' = st
        else (p \<noteq> 0 \<longrightarrow> element_counts st' (block + p) = n) \<and>
          (r = Returns (block + p) \<and> happened st' = happened st @ Allocated (of_nat (unat n * unat s + unat p)) block #
            (if has_constructor then map Constructed (elements (block + p) s (unat n)) else []) \<or>
          (has_constructor \<and> (\<exists>j<unat n. r = Throws \<and>
            happened st' = happened st @ Allocated (of_nat (unat n * unat s + unat p)) block #
              map Constructed (elements (block + p) s j) @ [Construction_threw (block + p + of_nat j * s)] @
              map Destroyed (undone has_destructor (block + p) s j) @ [Deallocated block None])) \<or>
          (has_constructor \<and> (\<exists>j<unat n. \<exists>k<length (undone has_destructor (block + p) s j). r = Terminates \<and>
            happened st' = happened st @ Allocated (of_nat (unat n * unat s + unat p)) block #
              map Constructed (elements (block + p) s j) @ [Construction_threw (block + p + of_nat j * s)] @
              map Destroyed (take k (undone has_destructor (block + p) s j)) @
              [Destruction_threw (undone has_destructor (block + p) s j ! k)])))"
proof (cases "2 ^ 64 \<le> unat n * unat s + unat p \<or> alloc (of_nat (unat n * unat s + unat p)) \<in> {None, Some 0}")
  case True
  then show ?thesis using assms by (auto simp: vec_new2_def vec_new_with_def allocation_size_exact simp del: of_nat_add of_nat_mult)
next
  case False
  then obtain block where block: "alloc (of_nat (unat n * unat s + unat p)) = Some block" "block \<noteq> 0" by auto
  have fits: "unat n * unat s + unat p < 2 ^ 64" using False by simp
  obtain st1 where st1: "happened st1 = happened st @ [Allocated (of_nat (unat n * unat s + unat p)) block]"
    "p \<noteq> 0 \<longrightarrow> element_counts st1 (block + p) = n"
    and run: "vec_new2 c has_constructor has_destructor alloc n s p st =
      (case vec_ctor c has_constructor has_destructor (block + p) n s st1 of
        (st, Returns u) \<Rightarrow> (st, Returns (block + p))
      | (st, Throws) \<Rightarrow> (record_event (Deallocated block None) st, Throws)
      | (st, Terminates) \<Rightarrow> (st, Terminates))"
    by (rule vec_new2_allocated [OF fits, where alloc = alloc and st = st and c = c and h = has_constructor and d = has_destructor, OF block])
  have here: "\<not> 2 ^ 64 \<le> unat n * unat s + unat p" using fits by simp
  show ?thesis
  proof (cases rule: vec_ctor_events [of c has_constructor has_destructor "block + p" n s st1])
    case whole
    with run assms have "r = Returns (block + p)" "st' = st1\<lparr>happened := happened st1 @
      (if has_constructor then map Constructed (elements (block + p) s (unat n)) else [])\<rparr>" by simp_all
    then show ?thesis using here block st1 by (simp del: of_nat_add of_nat_mult)
  next
    case (rethrows j)
    with run assms have "r = Throws" "st' = st1\<lparr>happened := happened st1 @
      map Constructed (elements (block + p) s j) @ [Construction_threw (block + p + of_nat j * s)] @
      map Destroyed (undone has_destructor (block + p) s j) @ [Deallocated block None]\<rparr>" by simp_all
    then show ?thesis using here block st1 rethrows(1,2) by (simp del: of_nat_add of_nat_mult) blast
  next
    case (terminates j k)
    with run assms have "r = Terminates" "st' = st1\<lparr>happened := happened st1 @
      map Constructed (elements (block + p) s j) @ [Construction_threw (block + p + of_nat j * s)] @
      map Destroyed (take k (undone has_destructor (block + p) s j)) @
      [Destruction_threw (undone has_destructor (block + p) s j ! k)]\<rparr>" by simp_all
    then show ?thesis using here block st1 terminates(1-3) by (simp del: of_nat_add of_nat_mult) blast
  qed
qed

text \<open>Elements of eight bytes behind a count; the constructor of the third one throws.\<close>

definition sample_client :: array_client where
  "sample_client = \<lparr>constructor_throws = (\<lambda>es a. a = 0x1018), destructor_throws = (\<lambda>es a. False)\<rparr>"

definition no_arrays :: array_state where
  "no_arrays = \<lparr>happened = [], element_counts = (\<lambda>p. 0)\<rparr>"

lemma small_loops:
  "ctor_loop c d b s 2 idx ptr st = ctor_loop c d b s (Suc (Suc 0)) idx ptr st"
  "dtor_loop c u b s 3 ptr st = dtor_loop c u b s (Suc (Suc (Suc 0))) ptr st"
  "cleanup_loop c s 1 ptr st = cleanup_loop c s (Suc 0) ptr st"
  "elements b s 2 = elements b s (Suc (Suc 0))" "elements b s 3 = elements b s (Suc (Suc (Suc 0)))"
  by (simp_all only: numeral_2_eq_2 numeral_3_eq_3 One_nat_def)

theorem vec_new_all_or_nothing_witness:
  "\<exists>st'. vec_new2 sample_client True True (\<lambda>size. Some 0x1000) 2 8 8 no_arrays = (st', Returns 0x1008) \<and>
    happened st' = [Allocated 24 0x1000, Constructed 0x1008, Constructed 0x1010] \<and> element_counts st' 0x1008 = 2"
proof -
  obtain st' r where run: "vec_new2 sample_client True True (\<lambda>size. Some 0x1000) 2 8 8 no_arrays = (st', r)" by (metis surj_pair)
  have "r \<noteq> Throws" "r \<noteq> Terminates" using run
    by (auto simp: vec_new2_def vec_new_with_def allocation_size_exact vec_ctor_def small_loops construct_def sample_client_def Let_def)
  moreover have "elements 0x1008 8 2 = [0x1008, 0x1010]" unfolding small_loops by (simp add: elements_def)
  moreover have "(of_nat (2 * 8 + 8) :: u64) = 24" by simp
  ultimately show ?thesis using vec_new_all_or_nothing [OF run] run
    by (auto simp: no_arrays_def simp del: of_nat_add of_nat_mult)
qed

section \<open>Destruction\<close>

text \<open>C35. \<open>__cxa_vec_delete2\<close> calls the destructor of every element once, in the reverse order of construction, and then
  gives the block back, also when one of the destructors throws, whose exception it rethrows. It calls \<open>std::terminate\<close>, at
  once and without giving the block back, exactly when a second destructor throws, or the first one while another exception
  was on its way.\<close>

theorem vec_delete_destroys_all:
  assumes "vec_delete2 c uncaught True base s p st = (st', r)" and "base \<noteq> 0" and "p \<noteq> 0"
  shows "\<exists>es. (\<forall>e\<in>set es. is_destruction e) \<and>
    map event_address es = take (length es) (rev (elements base s (unat (element_counts st base)))) \<and>
    (if (if uncaught then 0 else 1) < throws_in es then r = Terminates \<and> happened st' = happened st @ es
     else length es = unat (element_counts st base) \<and> happened st' = happened st @ es @ [Deallocated (base - p) None] \<and>
       r = (if throws_in es = 0 then Returns () else Throws))"
proof -
  have "(if uncaught then 0 else 1) \<le> (1::nat)" by simp
  from destroy_events [OF this, of c "rev (elements base s (unat (element_counts st base)))" st] obtain es q where es:
    "destroy_spec c (if uncaught then 0 else 1) (rev (elements base s (unat (element_counts st base)))) st =
      (st\<lparr>happened := happened st @ es\<rparr>, q)" "\<forall>e\<in>set es. is_destruction e"
    "map event_address es = take (length es) (rev (elements base s (unat (element_counts st base))))"
    "if (if uncaught then 0 else 1) < throws_in es then q = Terminates
     else length es = unat (element_counts st base) \<and> q = (if throws_in es = 0 then Returns () else Throws)"
    by (auto simp del: take_rev)
  show ?thesis
    by (rule exI [of _ es]) (use assms es in \<open>auto simp: vec_delete2_def vec_delete_with_def vec_dtor_spec Let_def simp del: take_rev
      split: if_splits\<close>)
qed

text \<open>The destructor of the second of three elements throws.\<close>

theorem vec_delete_destroys_all_witness:
  "\<exists>st'. vec_delete2 \<lparr>constructor_throws = (\<lambda>es a. False), destructor_throws = (\<lambda>es a. a = 0x1010)\<rparr> False True 0x1008 8 8
      (no_arrays\<lparr>element_counts := (\<lambda>p. 3)\<rparr>) = (st', Throws) \<and>
    map event_address (butlast (happened st')) = [0x1018, 0x1010, 0x1008] \<and> last (happened st') = Deallocated 0x1000 None"
proof -
  let ?c = "\<lparr>constructor_throws = (\<lambda>es a. False), destructor_throws = (\<lambda>es a. a = 0x1010)\<rparr> :: array_client"
  let ?st = "no_arrays\<lparr>element_counts := (\<lambda>p. 3)\<rparr>"
  obtain st' r where run: "vec_delete2 ?c False True 0x1008 8 8 ?st = (st', r)" by (metis surj_pair)
  have "elements 0x1008 8 3 = [0x1008, 0x1010, 0x1018]" unfolding small_loops by (simp add: elements_def)
  moreover have "r = Throws" using run
    by (auto simp: vec_delete2_def vec_delete_with_def vec_dtor_def destruct_def cleanup_and_rethrow_def vec_cleanup_def small_loops
      Let_def)
  ultimately show ?thesis using vec_delete_destroys_all [OF run] run
    by (auto simp: no_arrays_def split: if_splits)
qed

end
