(* ===== verification/EhHeader.thy ===== *)
theory EhHeader
  imports DwarfProperties
begin

unbundle bit_operations_syntax

text \<open>
  The binary search in the header of an unwind section (\<open>libunwind/src/EHHeaderParser.hpp\<close>): a table of the first
  addresses of the functions and of their frame description entries.
\<close>

section \<open>The search\<close>

record eh_header_info =
  eh_frame_ptr :: u64
  fde_count :: u64
  table :: u64
  table_enc :: u8

text \<open>\<open>None\<close> in the result where the code returns false.\<close>

definition decodeEHHdr :: "memory \<Rightarrow> u64 \<Rightarrow> u64 \<Rightarrow> eh_header_info option dw" where
  "decodeEHHdr mem ehHdrStart ehHdrEnd =
     (if get8 mem ehHdrStart \<noteq> 1 then eh_return None
      else
        let eh_frame_ptr_enc = get8 mem (ehHdrStart + 1);
          fde_count_enc = get8 mem (ehHdrStart + 2);
          enc = get8 mem (ehHdrStart + 3) in
        eh_bind (getEncodedP mem (ehHdrStart + 4) ehHdrEnd eh_frame_ptr_enc ehHdrStart) (\<lambda>(ptr, p).
        eh_bind (if fde_count_enc = DW_EH_PE_omit then eh_return (0, p) else getEncodedP mem p ehHdrEnd fde_count_enc ehHdrStart)
          (\<lambda>(count, p). eh_return (Some \<lparr>eh_frame_ptr = ptr, fde_count = count, table = p, table_enc = enc\<rparr>))))"

definition getTableEntrySize :: "u8 \<Rightarrow> u64 dw" where
  "getTableEntrySize tableEnc =
     (let format = tableEnc AND 0x0F in
      if format = DW_EH_PE_sdata2 \<or> format = DW_EH_PE_udata2 then eh_return 4
      else if format = DW_EH_PE_sdata4 \<or> format = DW_EH_PE_udata4 then eh_return 8
      else if format = DW_EH_PE_sdata8 \<or> format = DW_EH_PE_udata8 then eh_return 16
      else if format = DW_EH_PE_sleb128 \<or> format = DW_EH_PE_uleb128 then eh_stop Fatal
      else if format = DW_EH_PE_omit then eh_return 0
      else eh_stop Fatal)"

definition decodeTableEntry ::
  "memory \<Rightarrow> u64 \<Rightarrow> u64 \<Rightarrow> u64 \<Rightarrow> u8 \<Rightarrow> fde_info \<Rightarrow> cie_info \<Rightarrow> (bool \<times> fde_info \<times> cie_info) dw" where
  "decodeTableEntry mem tableEntry ehHdrStart ehHdrEnd tableEnc fdeInfo cieInfo =
     eh_bind (getEncodedP mem tableEntry ehHdrEnd tableEnc ehHdrStart) (\<lambda>(_, tableEntry).
     eh_bind (getEncodedP mem tableEntry ehHdrEnd tableEnc ehHdrStart) (\<lambda>(fde, _).
     eh_bind (decodeFDE mem fde fdeInfo cieInfo) (\<lambda>(message, fdeInfo, cieInfo).
     eh_return (message = None, fdeInfo, cieInfo))))"

partial_function (option) search_loop ::
  "memory \<Rightarrow> u64 \<Rightarrow> u64 \<Rightarrow> u64 \<Rightarrow> eh_header_info \<Rightarrow> u64 \<Rightarrow> u64 \<Rightarrow> u64 \<Rightarrow> u64 dw" where
  "search_loop mem pc ehHdrStart ehHdrEnd hdr tableEntrySize low len =
     (if 1 < len
      then
        let mid = low + len div 2; tableEntry = table hdr + mid * tableEntrySize in
        eh_bind (getEncodedP mem tableEntry ehHdrEnd (table_enc hdr) ehHdrStart) (\<lambda>(start, _).
        if start = pc then eh_return mid
        else if start < pc then search_loop mem pc ehHdrStart ehHdrEnd hdr tableEntrySize mid (len - len div 2)
        else search_loop mem pc ehHdrStart ehHdrEnd hdr tableEntrySize low (len div 2))
      else eh_return low)"

definition header_findFDE :: "memory \<Rightarrow> u64 \<Rightarrow> u64 \<Rightarrow> u32 \<Rightarrow> fde_info \<Rightarrow> cie_info \<Rightarrow> (bool \<times> fde_info \<times> cie_info) dw" where
  "header_findFDE mem pc ehHdrStart sectionLength fdeInfo cieInfo =
     (let ehHdrEnd = ehHdrStart + ucast sectionLength in
      eh_bind (decodeEHHdr mem ehHdrStart ehHdrEnd) (\<lambda>r. case r of
        None \<Rightarrow> eh_return (False, fdeInfo, cieInfo)
      | Some hdr \<Rightarrow>
          if fde_count hdr = 0 then eh_return (False, fdeInfo, cieInfo)
          else
            eh_bind (getTableEntrySize (table_enc hdr)) (\<lambda>tableEntrySize.
            eh_bind (search_loop mem pc ehHdrStart ehHdrEnd hdr tableEntrySize 0 (fde_count hdr)) (\<lambda>low.
            eh_bind (decodeTableEntry mem (table hdr + low * tableEntrySize) ehHdrStart ehHdrEnd (table_enc hdr) fdeInfo cieInfo)
              (\<lambda>(found, fdeInfo, cieInfo).
              eh_return (found \<and> pcStart fdeInfo \<le> pc \<and> pc < pcEnd fdeInfo, fdeInfo, cieInfo))))))"

section \<open>Tables\<close>

text \<open>An entry of the table: the addresses of the common entry and of the description, and what they are.\<close>

type_synonym table_entry = "u64 \<times> cie_entry \<times> u64 \<times> fde_entry"

fun entry_start :: "table_entry \<Rightarrow> u64" where "entry_start (c, e, a, d) = desc_start d"

fun entry_address :: "table_entry \<Rightarrow> u64" where "entry_address (c, e, a, d) = a"

fun entry_present :: "memory \<Rightarrow> table_entry \<Rightarrow> bool" where "entry_present mem (c, e, a, d) = fde_at mem c e a d"

text \<open>The function of an entry, with its first address, as the search takes it.\<close>

fun entry_covers :: "u64 \<Rightarrow> table_entry \<Rightarrow> bool" where
  "entry_covers pc (c, e, a, d) \<longleftrightarrow> desc_start d \<le> pc \<and> pc < desc_start d + desc_range d"

text \<open>Memory has the sorted table and the records of its functions.\<close>

definition shows_table :: "memory \<Rightarrow> u64 \<Rightarrow> u64 \<Rightarrow> eh_header_info \<Rightarrow> u64 \<Rightarrow> table_entry list \<Rightarrow> bool" where
  "shows_table mem ehHdrStart ehHdrEnd hdr width es \<longleftrightarrow>
     length es = unat (fde_count hdr) \<and> es \<noteq> [] \<and> sorted_wrt (<) (map entry_start es) \<and>
     (\<forall>i<length es. entry_present mem (es ! i) \<and>
       (\<exists>p q. getEncodedP mem (table hdr + of_nat i * width) ehHdrEnd (table_enc hdr) ehHdrStart = eh_return (entry_start (es ! i), p) \<and>
         getEncodedP mem p ehHdrEnd (table_enc hdr) ehHdrStart = eh_return (entry_address (es ! i), q)))"

text \<open>Functions do not overlap and do not wrap around.\<close>

definition disjoint_entries :: "table_entry list \<Rightarrow> bool" where
  "disjoint_entries es \<longleftrightarrow> (\<forall>i<length es. \<forall>pc. entry_covers pc (es ! i) \<longrightarrow> (\<forall>j. i < j \<and> j < length es \<longrightarrow> pc < entry_start (es ! j)))"

lemma search_loop_result:
  assumes table: "shows_table mem start stop hdr width es"
    and inv: "l + m \<le> length es" "0 < m" "l = 0 \<or> entry_start (es ! l) \<le> pc" "\<And>j. l + m \<le> j \<Longrightarrow> j < length es \<Longrightarrow> pc < entry_start (es ! j)"
  shows "\<exists>k<length es. search_loop mem pc start stop hdr width (of_nat l) (of_nat m) = eh_return (of_nat k) \<and>
    (k = 0 \<or> entry_start (es ! k) \<le> pc) \<and> (\<forall>j. k < j \<and> j < length es \<longrightarrow> pc < entry_start (es ! j))"
  using inv
proof (induction m arbitrary: l rule: less_induct)
  case (less m)
  have n: "length es < 2 ^ 64" using table by (simp add: shows_table_def)
  have m: "m < 2 ^ 64" "unat (of_nat m :: u64) = m" using n less.prems(1) by (simp_all add: unsigned_of_nat take_bit_nat_eq_self)
  show ?case
  proof (cases "1 < m")
    case False
    then have "m = 1" using less.prems(2) by simp
    then have "search_loop mem pc start stop hdr width (of_nat l) (of_nat m) = eh_return (of_nat l)"
      by (subst search_loop.simps) simp
    then show ?thesis using less.prems \<open>m = 1\<close> by (intro exI [of _ l]) auto
  next
    case True
    define h where "h = m div 2"
    have h: "0 < h" "h < m" "(of_nat m :: u64) div 2 = of_nat h" "(of_nat m :: u64) - of_nat h = of_nat (m - h)" "1 < (of_nat m :: u64)"
      using True m by (simp_all add: h_def word_unat_eq_iff unat_div unsigned_of_nat take_bit_nat_eq_self word_less_nat_alt of_nat_diff)
    have mid: "l + h < length es" using less.prems(1) h(2) by simp
    then obtain p where p: "getEncodedP mem (table hdr + of_nat (l + h) * width) stop (table_enc hdr) start =
      eh_return (entry_start (es ! (l + h)), p)" using table unfolding shows_table_def by blast
    have later: "entry_start (es ! i) < entry_start (es ! j)" if "i < j" "j < length es" for i j
      using table that by (auto simp: shows_table_def sorted_wrt_iff_nth_less)
    have loop: "search_loop mem pc start stop hdr width (of_nat l) (of_nat m) =
      (if entry_start (es ! (l + h)) = pc then eh_return (of_nat (l + h))
       else if entry_start (es ! (l + h)) < pc then search_loop mem pc start stop hdr width (of_nat (l + h)) (of_nat (m - h))
       else search_loop mem pc start stop hdr width (of_nat l) (of_nat h))"
      using p by (subst search_loop.simps) (simp add: h Let_def)
    consider "entry_start (es ! (l + h)) = pc" | "entry_start (es ! (l + h)) < pc" | "pc < entry_start (es ! (l + h))" by fastforce
    then show ?thesis
    proof cases
      case 1
      then have "search_loop mem pc start stop hdr width (of_nat l) (of_nat m) = eh_return (of_nat (l + h))" using loop by simp
      moreover have "\<forall>j. l + h < j \<and> j < length es \<longrightarrow> pc < entry_start (es ! j)"
        using later [of "l + h"] unfolding 1 by (intro allI impI) simp
      moreover have "l + h = 0 \<or> entry_start (es ! (l + h)) \<le> pc" unfolding 1 by simp
      ultimately show ?thesis using mid by (intro exI [of _ "l + h"] conjI)
    next
      case 2
      have "\<exists>k<length es. search_loop mem pc start stop hdr width (of_nat (l + h)) (of_nat (m - h)) = eh_return (of_nat k) \<and>
        (k = 0 \<or> entry_start (es ! k) \<le> pc) \<and> (\<forall>j. k < j \<and> j < length es \<longrightarrow> pc < entry_start (es ! j))"
      proof (rule less.IH)
        show "l + h = 0 \<or> entry_start (es ! (l + h)) \<le> pc" using less_imp_le [OF 2] by simp
        show "pc < entry_start (es ! j)" if "l + h + (m - h) \<le> j" "j < length es" for j
          using less.prems(4) [of j] that h(2) by simp
      qed (use h(1,2) less.prems(1) in simp_all)
      moreover have "search_loop mem pc start stop hdr width (of_nat l) (of_nat m) =
        search_loop mem pc start stop hdr width (of_nat (l + h)) (of_nat (m - h))" unfolding loop using less_imp_neq [OF 2] 2 by (simp only: if_False if_True)
      ultimately show ?thesis by (simp only:)
    next
      case 3
      have "pc < entry_start (es ! j)" if "l + h \<le> j" "j < length es" for j
        using 3 later [of "l + h" j] that by (cases "j = l + h") (auto intro: less_trans)
      then have "\<exists>k<length es. search_loop mem pc start stop hdr width (of_nat l) (of_nat h) = eh_return (of_nat k) \<and>
        (k = 0 \<or> entry_start (es ! k) \<le> pc) \<and> (\<forall>j. k < j \<and> j < length es \<longrightarrow> pc < entry_start (es ! j))"
        using h(1,2) less.prems(1,3) by (intro less.IH) simp_all
      moreover have "search_loop mem pc start stop hdr width (of_nat l) (of_nat m) =
        search_loop mem pc start stop hdr width (of_nat l) (of_nat h)" unfolding loop using 3 by auto
      ultimately show ?thesis by (simp only:)
    qed
  qed
qed

text \<open>The header in a piece of memory.\<close>

lemma header_search_result:
  assumes hdr: "decodeEHHdr mem start (start + ucast len) = eh_return (Some hdr)" "getTableEntrySize (table_enc hdr) = eh_return width"
    and table: "shows_table mem start (start + ucast len) hdr width es" and disjoint: "disjoint_entries es"
  shows "\<exists>c e a d. (c, e, a, d) \<in> set es \<and> header_findFDE mem pc start len fdeInfo cieInfo =
      eh_return (\<exists>x\<in>set es. entry_covers pc x, fde_of mem e a d, cie_of mem c e) \<and>
    (\<forall>x\<in>set es. entry_covers pc x \<longrightarrow> x = (c, e, a, d))"
proof -
  have count: "length es = unat (fde_count hdr)" "es \<noteq> []" using table by (simp_all add: shows_table_def)
  then have "fde_count hdr \<noteq> 0" by auto
  have "of_nat (length es) = fde_count hdr" using count(1) by simp
  moreover have "0 < length es" using count(2) by (rule length_greater_0_conv [THEN iffD2])
  ultimately have "of_nat (length es) = fde_count hdr" "0 < length es" .
  with search_loop_result [OF table, of 0 "length es" pc] obtain k where k: "k < length es"
    "search_loop mem pc start (start + ucast len) hdr width 0 (fde_count hdr) = eh_return (of_nat k)"
    "k = 0 \<or> entry_start (es ! k) \<le> pc" "\<And>j. k < j \<Longrightarrow> j < length es \<Longrightarrow> pc < entry_start (es ! j)" by auto
  obtain c e a d where x: "es ! k = (c, e, a, d)" by (cases "es ! k") auto
  obtain p q where entry: "getEncodedP mem (table hdr + of_nat k * width) (start + ucast len) (table_enc hdr) start = eh_return (desc_start d, p)"
    "getEncodedP mem p (start + ucast len) (table_enc hdr) start = eh_return (a, q)" and at: "fde_at mem c e a d"
    using table k(1) x unfolding shows_table_def by fastforce
  have only: "j = k" if j: "j < length es" "entry_covers pc (es ! j)" for j
  proof (rule ccontr)
    assume "j \<noteq> k"
    obtain c' e' a' d' where y: "es ! j = (c', e', a', d')" by (cases "es ! j") auto
    from j(2) y have "entry_start (es ! j) \<le> pc" by simp
    then have "j < k" using k(4) [OF _ j(1)] \<open>j \<noteq> k\<close> by (meson linorder_neqE_nat not_less)
    with disjoint [unfolded disjoint_entries_def, rule_format, OF j] k(1) have "pc < entry_start (es ! k)" by simp
    moreover have "entry_start (es ! k) \<le> pc" using k(3) \<open>j < k\<close> by simp
    ultimately show False by simp
  qed
  have "pcStart (fde_of mem e a d) = desc_start d" "pcEnd (fde_of mem e a d) = desc_start d + desc_range d"
    by (simp_all add: fde_of_def)
  then have "header_findFDE mem pc start len fdeInfo cieInfo = eh_return (entry_covers pc (c, e, a, d), fde_of mem e a d, cie_of mem c e)"
    using \<open>fde_count hdr \<noteq> 0\<close> k(2) entry
    by (simp add: header_findFDE_def Let_def hdr decodeTableEntry_def decodeFDE_entry [OF at])
  moreover have mine: "(c, e, a, d) \<in> set es" using nth_mem [OF k(1)] x by simp
  moreover have unique: "y = (c, e, a, d)" if "y \<in> set es" "entry_covers pc y" for y
  proof -
    from that(1) obtain j where "j < length es" "es ! j = y" by (auto simp: in_set_conv_nth)
    then show ?thesis using only [of j] that(2) x by simp
  qed
  moreover have "(\<exists>y\<in>set es. entry_covers pc y) \<longleftrightarrow> entry_covers pc (c, e, a, d)"
  proof
    assume "\<exists>y\<in>set es. entry_covers pc y"
    then obtain y where "y \<in> set es" "entry_covers pc y" by blast
    then show "entry_covers pc (c, e, a, d)" using unique [of y] by simp
  qed (rule bexI [OF _ mine])
  ultimately show ?thesis
    by (intro exI [of _ c] exI [of _ e] exI [of _ a] exI [of _ d]) (simp del: entry_covers.simps)
qed

end
