(* ===== verification/EhHeaderProperties.thy ===== *)
theory EhHeaderProperties
  imports EhHeader
begin

unbundle bit_operations_syntax

text \<open>
  The properties of the binary search, with a sample header, and its comparison with the scan of a section.
\<close>

section \<open>A sample\<close>

text \<open>Two functions with the same entry, and a header with a table of offsets from its start.\<close>

definition second_fde :: fde_entry where
  "second_fde = sample_fde\<lparr>desc_start := 0x6000\<rparr>"

definition header_bytes :: "u8 list" where
  "header_bytes = [1, 0x03, 0x03, 0x3B] @ le_bytes 4 0x1000 @ le_bytes 4 2 @
     le_bytes 4 0x3FAE @ le_bytes 4 0xFFFFFFC6 @ le_bytes 4 0x4FAE @ le_bytes 4 0xFFFFFFE3"

definition header_memory :: memory where
  "header_memory = bytes_at 0x1000 (cie_bytes 0x1000 sample_cie @ fde_bytes 0x1000 sample_cie 0x1018 sample_fde @
     fde_bytes 0x1000 sample_cie 0x1035 second_fde @ header_bytes)"

definition sample_table :: "table_entry list" where
  "sample_table = [(0x1000, sample_cie, 0x1018, sample_fde), (0x1000, sample_cie, 0x1035, second_fde)]"

definition sample_header :: eh_header_info where
  "sample_header = \<lparr>eh_frame_ptr = 0x1000, fde_count = 2, table = 0x105E, table_enc = 0x3B\<rparr>"

lemma second_size: "fde_size sample_cie second_fde = 29"
  by (simp add: entry_sizes sample_cie_def second_fde_def sample_fde_def dwarf_simps)

lemma second_addresses: "fde_id sample_cie 0x1035 second_fde = 0x1039" "fde_area sample_cie 0x1035 second_fde = 0x1046"
  by (simp_all add: entry_sizes sample_cie_def second_fde_def sample_fde_def fde_id_def fde_area_def fde_behind_def dwarf_simps)

lemma second_ok: "fde_ok 0x1000 sample_cie 0x1035 second_fde"
  unfolding fde_ok_def second_size sample_addresses second_addresses
  by (simp add: sample_cie_def sample_fde_def second_fde_def pointer_fits_def pointer_distance_def pointer_size_def dwarf_simps)

lemma header_parts:
  "fde_at header_memory 0x1000 sample_cie 0x1018 sample_fde" "fde_at header_memory 0x1000 sample_cie 0x1035 second_fde"
  "holds header_memory 0x1052 header_bytes"
proof -
  have lengths: "length (fde_bytes 0x1000 sample_cie 0x1018 sample_fde) = 29" "length (fde_bytes 0x1000 sample_cie 0x1035 second_fde) = 29"
    by (simp_all add: fde_bytes_def area_bytes_def sample_addresses second_addresses entry_sizes sample_cie_def second_fde_def
        sample_fde_def dwarf_simps pointer_bytes_def)
  have "holds header_memory 0x1000 (cie_bytes 0x1000 sample_cie @ fde_bytes 0x1000 sample_cie 0x1018 sample_fde @
     fde_bytes 0x1000 sample_cie 0x1035 second_fde @ header_bytes)"
    unfolding header_memory_def by (rule holds_bytes_at) (simp add: sample_sizes lengths header_bytes_def)
  then show "fde_at header_memory 0x1000 sample_cie 0x1018 sample_fde" "fde_at header_memory 0x1000 sample_cie 0x1035 second_fde"
    "holds header_memory 0x1052 header_bytes"
    using sample_cie_ok sample_fde_ok second_ok by (simp_all add: cie_at_def fde_at_def sample_sizes lengths)
qed

lemma header_words:
  "header_memory 0x1052 = 1" "header_memory 0x1053 = 0x03" "header_memory 0x1054 = 0x03" "header_memory 0x1055 = 0x3B"
  "get32 header_memory 0x1056 = 0x1000" "get32 header_memory 0x105A = 2" "get32 header_memory 0x105E = 0x3FAE"
  "get32 header_memory 0x1062 = 0xFFFFFFC6" "get32 header_memory 0x1066 = 0x4FAE" "get32 header_memory 0x106A = 0xFFFFFFE3"
proof -
  have h: "header_memory 0x1052 = 1" "header_memory 0x1053 = 0x03" "header_memory 0x1054 = 0x03" "header_memory 0x1055 = 0x3B"
    "holds header_memory 0x1056 (le_bytes 4 0x1000)" "holds header_memory 0x105A (le_bytes 4 2)"
    "holds header_memory 0x105E (le_bytes 4 0x3FAE)" "holds header_memory 0x1062 (le_bytes 4 0xFFFFFFC6)"
    "holds header_memory 0x1066 (le_bytes 4 0x4FAE)" "holds header_memory 0x106A (le_bytes 4 0xFFFFFFE3)"
    using header_parts(3) unfolding header_bytes_def holds_append by simp_all
  show "header_memory 0x1052 = 1" "header_memory 0x1053 = 0x03" "header_memory 0x1054 = 0x03" "header_memory 0x1055 = 0x3B"
    "get32 header_memory 0x1056 = 0x1000" "get32 header_memory 0x105A = 2" "get32 header_memory 0x105E = 0x3FAE"
    "get32 header_memory 0x1062 = 0xFFFFFFC6" "get32 header_memory 0x1066 = 0x4FAE" "get32 header_memory 0x106A = 0xFFFFFFE3"
    using h read_le(3) [OF h(5)] read_le(3) [OF h(6)] read_le(3) [OF h(7)] read_le(3) [OF h(8)] read_le(3) [OF h(9)] read_le(3) [OF h(10)]
    by simp_all
qed

lemma sample_pointer:
  "getEncodedP header_memory a stop 0x03 0x1052 = eh_return (ucast (get32 header_memory a), a + 4)"
  "getEncodedP header_memory a stop 0x3B 0x1052 = eh_return (scast (get32 header_memory a) + 0x1052, a + 4)"
  by (simp_all add: getEncodedP_def encoded_value_def encoded_base_def dwarf_simps)

lemma sample_decoded: "decodeEHHdr header_memory 0x1052 stop = eh_return (Some sample_header)" "getTableEntrySize (table_enc sample_header) = eh_return 8"
  by (simp_all add: decodeEHHdr_def get8_def header_words sample_pointer sample_header_def dwarf_simps getTableEntrySize_def Let_def)

lemma below_two: "i < Suc (Suc 0) \<Longrightarrow> i = 0 \<or> i = Suc 0"
  by arith

lemma sample_entries:
  "length sample_table = Suc (Suc 0)" "sample_table ! 0 = (0x1000, sample_cie, 0x1018, sample_fde)"
  "sample_table ! Suc 0 = (0x1000, sample_cie, 0x1035, second_fde)" "desc_start sample_fde = 0x5000" "desc_start second_fde = 0x6000"
  "desc_range sample_fde = 0x20" "desc_range second_fde = 0x20"
  by (simp_all add: sample_table_def sample_fde_def second_fde_def)

lemma sample_entry:
  assumes "i = 0 \<or> i = Suc 0"
  shows "entry_present header_memory (sample_table ! i) \<and>
    (\<exists>p q. getEncodedP header_memory (0x105E + of_nat i * 8) stop 0x3B 0x1052 = eh_return (entry_start (sample_table ! i), p) \<and>
      getEncodedP header_memory p stop 0x3B 0x1052 = eh_return (entry_address (sample_table ! i), q))"
  using assms header_parts(1,2) by (elim disjE) (simp_all add: sample_entries sample_pointer header_words)

lemma sample_shows: "shows_table header_memory 0x1052 stop sample_header 8 sample_table"
proof -
  have "sorted_wrt (<) (map entry_start sample_table)" "sample_table \<noteq> []" "length sample_table = unat (fde_count sample_header)"
    by (simp_all add: sample_table_def sample_fde_def second_fde_def sample_header_def)
  moreover have "table sample_header = 0x105E" "table_enc sample_header = 0x3B" by (simp_all add: sample_header_def)
  ultimately show ?thesis
    unfolding shows_table_def using sample_entry [OF below_two] sample_entries(1) by (simp only:) blast
qed

lemma sample_disjoint: "disjoint_entries sample_table"
  unfolding disjoint_entries_def
proof (intro allI impI)
  fix i pc j assume "i < length sample_table" and pc: "entry_covers pc (sample_table ! i)" and j: "i < j \<and> j < length sample_table"
  then have "i = 0" "j = Suc 0" unfolding sample_entries(1) by arith+
  with pc have "pc < 0x5020" by (simp add: sample_entries)
  then have "pc < 0x6000" by (rule less_trans) simp
  then show "pc < entry_start (sample_table ! j)" using \<open>j = Suc 0\<close> by (simp add: sample_entries)
qed

section \<open>The binary search\<close>

text \<open>C36. With a sorted table of functions that do not overlap, in any encoding of fixed width, the binary search ends,
  finds the function that has the location when there is one and reads its records, and answers false otherwise.\<close>

theorem header_search_exact:
  assumes "decodeEHHdr mem start (start + ucast len) = eh_return (Some hdr)" "getTableEntrySize (table_enc hdr) = eh_return width"
    "shows_table mem start (start + ucast len) hdr width es" "disjoint_entries es"
  shows "\<exists>c e a d. (c, e, a, d) \<in> set es \<and> header_findFDE mem pc start len fdeInfo cieInfo =
      eh_return (\<exists>x\<in>set es. entry_covers pc x, fde_of mem e a d, cie_of mem c e) \<and>
    (\<forall>x\<in>set es. entry_covers pc x \<longrightarrow> x = (c, e, a, d))"
  by (rule header_search_result [OF assms])

theorem header_search_exact_witness:
  "\<forall>fdeInfo cieInfo. header_findFDE header_memory 0x6010 0x1052 28 fdeInfo cieInfo =
    eh_return (True, fde_of header_memory sample_cie 0x1035 second_fde, cie_of header_memory 0x1000 sample_cie)"
proof (intro allI)
  fix fdeInfo cieInfo
  obtain c e a d where r: "header_findFDE header_memory 0x6010 0x1052 28 fdeInfo cieInfo =
      eh_return (\<exists>x\<in>set sample_table. entry_covers 0x6010 x, fde_of header_memory e a d, cie_of header_memory c e)"
    "\<forall>x\<in>set sample_table. entry_covers 0x6010 x \<longrightarrow> x = (c, e, a, d)"
    using header_search_exact [where pc = "0x6010" and len = 28 and fdeInfo = fdeInfo and cieInfo = cieInfo,
        OF sample_decoded sample_shows sample_disjoint] by blast
  have found: "(0x1000, sample_cie, 0x1035, second_fde) \<in> set sample_table" "entry_covers 0x6010 (0x1000, sample_cie, 0x1035, second_fde)"
    by (simp_all add: sample_table_def sample_entries)
  then have "(c, e, a, d) = (0x1000, sample_cie, 0x1035, second_fde)" using r(2) by metis
  moreover have "\<exists>x\<in>set sample_table. entry_covers 0x6010 x" using found by blast
  ultimately show "header_findFDE header_memory 0x6010 0x1052 28 fdeInfo cieInfo =
    eh_return (True, fde_of header_memory sample_cie 0x1035 second_fde, cie_of header_memory 0x1000 sample_cie)"
    using r(1) by simp
qed

section \<open>The two searches\<close>

lemma header_section:
  "section_at header_memory 0x1000 0x1052 0x1000 [Common sample_cie, Description 0x1000 sample_cie sample_fde,
    Description 0x1000 sample_cie second_fde]"
  using header_parts(1,2) by (simp add: sample_sizes second_size fde_at_def)

text \<open>The descriptions of a section as entries of a table.\<close>

fun entries_from :: "u64 \<Rightarrow> cfi_record list \<Rightarrow> table_entry list" where
  "entries_from a [] = []"
| "entries_from a (Common e # rs) = entries_from (a + of_nat (cie_size e)) rs"
| "entries_from a (Description c e d # rs) = (c, e, a, d) # entries_from (a + of_nat (fde_size e d)) rs"

lemma minus_one_less: "(s :: u64) < pc \<and> pc \<le> t \<longleftrightarrow> pc \<noteq> 0 \<and> s \<le> pc - 1 \<and> pc - 1 < t"
proof (cases "pc = 0")
  case False
  then have "unat (pc - 1) = unat pc - 1" "0 < unat pc" by (simp_all add: unat_minus_one unat_gt_0)
  then show ?thesis using False by (auto simp: word_less_nat_alt word_le_nat_alt)
qed simp

text \<open>The scan takes a location where the table has the one before it.\<close>

lemma covers_before: "covers d pc \<longleftrightarrow> pc \<noteq> 0 \<and> entry_covers (pc - 1) (c, e, a, d)"
  unfolding covers_def entry_covers.simps by (rule minus_one_less)

lemma description_for_find:
  "description_for pc a rs = find (\<lambda>x. pc \<noteq> 0 \<and> entry_covers (pc - 1) x) (entries_from a rs)"
proof (induction rs arbitrary: a)
  case (Cons r rs)
  show ?case
  proof (cases r)
    case (Description c e d)
    then show ?thesis
      by (simp only: description_for.simps entries_from.simps find.simps covers_before [of d pc c e a] Cons.IH)
  qed (simp add: Cons.IH)
qed simp

lemma scan_result:
  assumes "section_at mem first stop first rs" "stop - first \<noteq> - 1"
  shows "\<exists>ci. findFDE mem pc first (stop - first) 0 fdeInfo cieInfo =
    eh_return (case find (\<lambda>x. pc \<noteq> 0 \<and> entry_covers (pc - 1) x) (entries_from first rs) of
      None \<Rightarrow> (False, fdeInfo, ci) | Some (c, e, a, d) \<Rightarrow> (True, fde_of mem e a d, cie_of mem c e))"
proof -
  have "findFDE mem pc first (stop - first) 0 fdeInfo cieInfo = findFDE_loop mem pc first stop fdeInfo cieInfo first"
    using assms(2) by (simp add: findFDE_def Let_def)
  then show ?thesis using findFDE_loop_first [OF assms(1), of pc fdeInfo cieInfo] by (simp only: description_for_find)
qed

text \<open>Where at most one function has a location, both searches give what the function says or nothing.\<close>

lemma header_finds:
  assumes "decodeEHHdr mem start (start + ucast len) = eh_return (Some hdr)" "getTableEntrySize (table_enc hdr) = eh_return width"
    "shows_table mem start (start + ucast len) hdr width es" "disjoint_entries es"
  shows "if \<exists>x\<in>set es. entry_covers pc x
    then \<exists>c e a d. (c, e, a, d) \<in> set es \<and> entry_covers pc (c, e, a, d) \<and>
      header_findFDE mem pc start len fdeInfo cieInfo = eh_return (True, fde_of mem e a d, cie_of mem c e)
    else \<exists>fi ci. header_findFDE mem pc start len fdeInfo cieInfo = eh_return (False, fi, ci)"
    and "x \<in> set es \<Longrightarrow> entry_covers pc x \<Longrightarrow> y \<in> set es \<Longrightarrow> entry_covers pc y \<Longrightarrow> x = y"
proof -
  from header_search_result [OF assms, of pc fdeInfo cieInfo] obtain c e a d where r: "(c, e, a, d) \<in> set es"
    "header_findFDE mem pc start len fdeInfo cieInfo = eh_return (\<exists>x\<in>set es. entry_covers pc x, fde_of mem e a d, cie_of mem c e)"
    "\<forall>x\<in>set es. entry_covers pc x \<longrightarrow> x = (c, e, a, d)" by blast
  show "if \<exists>x\<in>set es. entry_covers pc x
    then \<exists>c e a d. (c, e, a, d) \<in> set es \<and> entry_covers pc (c, e, a, d) \<and>
      header_findFDE mem pc start len fdeInfo cieInfo = eh_return (True, fde_of mem e a d, cie_of mem c e)
    else \<exists>fi ci. header_findFDE mem pc start len fdeInfo cieInfo = eh_return (False, fi, ci)"
  proof (cases "\<exists>x\<in>set es. entry_covers pc x")
    case True
    then have "entry_covers pc (c, e, a, d)" using r(3) by blast
    moreover have "header_findFDE mem pc start len fdeInfo cieInfo = eh_return (True, fde_of mem e a d, cie_of mem c e)"
      using r(2) True by simp
    ultimately show ?thesis using r(1) True by (simp only: if_True) blast
  next
    case False
    then show ?thesis using r(2) by simp
  qed
  show "x = y" if "x \<in> set es" "entry_covers pc x" "y \<in> set es" "entry_covers pc y" using r(3) that by blast
qed

lemma scan_finds:
  assumes "section_at mem first stop first rs" "stop - first \<noteq> - 1" and same: "set (entries_from first rs) = set es"
  shows "if pc \<noteq> 0 \<and> (\<exists>x\<in>set es. entry_covers (pc - 1) x)
    then \<exists>c e a d. (c, e, a, d) \<in> set es \<and> entry_covers (pc - 1) (c, e, a, d) \<and>
      findFDE mem pc first (stop - first) 0 fdeInfo cieInfo = eh_return (True, fde_of mem e a d, cie_of mem c e)
    else \<exists>fi ci. findFDE mem pc first (stop - first) 0 fdeInfo cieInfo = eh_return (False, fi, ci)"
proof (cases "find (\<lambda>x. pc \<noteq> 0 \<and> entry_covers (pc - 1) x) (entries_from first rs)")
  case None
  then have "\<not> (pc \<noteq> 0 \<and> (\<exists>x\<in>set es. entry_covers (pc - 1) x))" using same by (auto simp: find_None_iff simp del: entry_covers.simps)
  moreover have "\<exists>fi ci. findFDE mem pc first (stop - first) 0 fdeInfo cieInfo = eh_return (False, fi, ci)"
    using scan_result [OF assms(1,2), of pc fdeInfo cieInfo] unfolding None option.case by blast
  ultimately show ?thesis by (simp only: if_False)
next
  case (Some x)
  obtain c e a d where x: "x = (c, e, a, d)" by (cases x) auto
  have "pc \<noteq> 0 \<and> entry_covers (pc - 1) x \<and> x \<in> set (entries_from first rs)" using Some unfolding find_Some_iff by (metis nth_mem)
  then have here: "pc \<noteq> 0" "entry_covers (pc - 1) (c, e, a, d)" "(c, e, a, d) \<in> set es" unfolding x same by blast+
  moreover have "findFDE mem pc first (stop - first) 0 fdeInfo cieInfo = eh_return (True, fde_of mem e a d, cie_of mem c e)"
    using scan_result [OF assms(1,2), of pc fdeInfo cieInfo] unfolding Some x by simp
  moreover have "pc \<noteq> 0 \<and> (\<exists>x\<in>set es. entry_covers (pc - 1) x)" using here by blast
  ultimately show ?thesis by (simp only: if_True simp_thms) blast
qed

text \<open>A function that has a location and not the next ends there.\<close>

lemma covers_boundary:
  assumes "pc \<noteq> 0"
  shows "entry_covers (pc - 1) (c, e, a, d) \<Longrightarrow> \<not> entry_covers pc (c, e, a, d) \<Longrightarrow> desc_start d + desc_range d = pc"
    "entry_covers pc (c, e, a, d) \<Longrightarrow> \<not> entry_covers (pc - 1) (c, e, a, d) \<Longrightarrow> desc_start d = pc"
    "desc_start d < desc_start d + desc_range d \<Longrightarrow> pc = desc_start d + desc_range d \<Longrightarrow> entry_covers (pc - 1) (c, e, a, d)"
  using minus_one_less [of "desc_start d" pc "desc_start d + desc_range d"] assms
  by (auto simp: not_less not_le dest: less_imp_le intro: antisym)

text \<open>A section, and a header whose table lists the functions of its descriptions.\<close>

definition indexed :: "memory \<Rightarrow> u64 \<Rightarrow> u64 \<Rightarrow> cfi_record list \<Rightarrow> u64 \<Rightarrow> u32 \<Rightarrow> eh_header_info \<Rightarrow> u64 \<Rightarrow> table_entry list \<Rightarrow> bool" where
  "indexed mem first stop rs start len hdr width es \<longleftrightarrow>
     section_at mem first stop first rs \<and> stop - first \<noteq> - 1 \<and> set (entries_from first rs) = set es \<and>
     decodeEHHdr mem start (start + ucast len) = eh_return (Some hdr) \<and> getTableEntrySize (table_enc hdr) = eh_return width \<and>
     shows_table mem start (start + ucast len) hdr width es \<and> disjoint_entries es"

lemma both_find:
  assumes "indexed mem first stop rs start len hdr width es"
  shows header: "if \<exists>x\<in>set es. entry_covers pc x
      then \<exists>c e a d. (c, e, a, d) \<in> set es \<and> entry_covers pc (c, e, a, d) \<and>
        header_findFDE mem pc start len fdeInfo cieInfo = eh_return (True, fde_of mem e a d, cie_of mem c e)
      else \<exists>fi ci. header_findFDE mem pc start len fdeInfo cieInfo = eh_return (False, fi, ci)"
    and scan: "if pc \<noteq> 0 \<and> (\<exists>x\<in>set es. entry_covers (pc - 1) x)
      then \<exists>c e a d. (c, e, a, d) \<in> set es \<and> entry_covers (pc - 1) (c, e, a, d) \<and>
        findFDE mem pc first (stop - first) 0 fdeInfo cieInfo = eh_return (True, fde_of mem e a d, cie_of mem c e)
      else \<exists>fi ci. findFDE mem pc first (stop - first) 0 fdeInfo cieInfo = eh_return (False, fi, ci)"
    and only: "x \<in> set es \<Longrightarrow> entry_covers pc x \<Longrightarrow> y \<in> set es \<Longrightarrow> entry_covers pc y \<Longrightarrow> x = y"
  using assms header_finds [of mem start len hdr width es] scan_finds [of mem first stop rs es] unfolding indexed_def by blast+

lemma scan_behind:
  assumes "indexed mem first stop rs start len hdr width es"
  shows "\<exists>found fi ci. findFDE mem pc first (stop - first) 0 f c = eh_return (found, fi, ci) \<and> (found \<longrightarrow> pc \<noteq> 0) \<and>
    (pc \<noteq> 0 \<longrightarrow> (\<exists>fi' ci'. header_findFDE mem (pc - 1) start len f c = eh_return (found, fi', ci') \<and>
      (found \<longrightarrow> fi' = fi \<and> ci' = ci)))"
proof (cases "pc \<noteq> 0 \<and> (\<exists>x\<in>set es. entry_covers (pc - 1) x)")
  case True
  then obtain ca e a d ca' e' a' d' where s: "(ca, e, a, d) \<in> set es" "entry_covers (pc - 1) (ca, e, a, d)"
    "findFDE mem pc first (stop - first) 0 f c = eh_return (True, fde_of mem e a d, cie_of mem ca e)"
    and h: "(ca', e', a', d') \<in> set es" "entry_covers (pc - 1) (ca', e', a', d')"
    "header_findFDE mem (pc - 1) start len f c = eh_return (True, fde_of mem e' a' d', cie_of mem ca' e')"
    using scan [OF assms, of pc f c] header [OF assms, of "pc - 1" f c] by (simp only: if_True simp_thms) blast
  from only [OF assms s(1,2) h(1,2)] show ?thesis using s(3) h(3) True by (simp add: ex_bool_eq)
next
  case False
  then show ?thesis using scan [OF assms, of pc f c] header [OF assms, of "pc - 1" f c]
    by (cases "pc = 0") (simp_all only: if_False simp_thms, blast+)
qed

text \<open>At the first address of a function, and at its end.\<close>

lemma at_start:
  assumes index: "indexed mem first stop rs start len hdr width es"
    and x: "(ca, e, a, d) \<in> set es" and some: "desc_start d < desc_start d + desc_range d"
  shows "header_findFDE mem (desc_start d) start len f c = eh_return (True, fde_of mem e a d, cie_of mem ca e)"
    and "\<exists>found fi ci. findFDE mem (desc_start d) first (stop - first) 0 f c = eh_return (found, fi, ci) \<and>
      (found \<longrightarrow> pcEnd fi = desc_start d)"
proof -
  have here: "entry_covers (desc_start d) (ca, e, a, d)" using some by simp
  with x obtain ca' e' a' d' where h: "(ca', e', a', d') \<in> set es" "entry_covers (desc_start d) (ca', e', a', d')"
    "header_findFDE mem (desc_start d) start len f c = eh_return (True, fde_of mem e' a' d', cie_of mem ca' e')"
    using header [OF index, of "desc_start d" f c] by (metis (no_types, lifting))
  from only [OF index x here h(1,2)] h(3)
  show "header_findFDE mem (desc_start d) start len f c = eh_return (True, fde_of mem e a d, cie_of mem ca e)" by simp
  show "\<exists>found fi ci. findFDE mem (desc_start d) first (stop - first) 0 f c = eh_return (found, fi, ci) \<and>
      (found \<longrightarrow> pcEnd fi = desc_start d)"
  proof (cases "desc_start d \<noteq> 0 \<and> (\<exists>x\<in>set es. entry_covers (desc_start d - 1) x)")
    case True
    then obtain ca' e' a' d' where s: "(ca', e', a', d') \<in> set es" "entry_covers (desc_start d - 1) (ca', e', a', d')"
      "findFDE mem (desc_start d) first (stop - first) 0 f c = eh_return (True, fde_of mem e' a' d', cie_of mem ca' e')"
      using scan [OF index, of "desc_start d" f c] by (simp only: if_True simp_thms) blast
    have "\<not> entry_covers (desc_start d) (ca', e', a', d')"
      using only [OF index x here s(1)] s(2) True minus_one_less [of "desc_start d" "desc_start d"] by fastforce
    then have "desc_start d' + desc_range d' = desc_start d" using covers_boundary(1) s(2) True by blast
    then show ?thesis using s(3) by (simp add: fde_of_def ex_bool_eq)
  next
    case False
    then show ?thesis using scan [OF index, of "desc_start d" f c] by (simp only: if_False) blast
  qed
qed

lemma at_end:
  assumes index: "indexed mem first stop rs start len hdr width es"
    and x: "(ca, e, a, d) \<in> set es" and some: "desc_start d < desc_start d + desc_range d"
  shows "findFDE mem (desc_start d + desc_range d) first (stop - first) 0 f c = eh_return (True, fde_of mem e a d, cie_of mem ca e)"
    and "\<exists>found fi ci. header_findFDE mem (desc_start d + desc_range d) start len f c = eh_return (found, fi, ci) \<and>
      (found \<longrightarrow> pcStart fi = desc_start d + desc_range d)"
proof -
  define t where "t = desc_start d + desc_range d"
  have t: "t \<noteq> 0" using some by (auto simp: t_def)
  have here: "entry_covers (t - 1) (ca, e, a, d)" using covers_boundary(3) [OF t some] by (simp only: t_def)
  with x t obtain ca' e' a' d' where s: "(ca', e', a', d') \<in> set es" "entry_covers (t - 1) (ca', e', a', d')"
    "findFDE mem t first (stop - first) 0 f c = eh_return (True, fde_of mem e' a' d', cie_of mem ca' e')"
    using scan [OF index, of t f c] by (metis (no_types, lifting))
  from only [OF index x here s(1,2)] s(3)
  show "findFDE mem (desc_start d + desc_range d) first (stop - first) 0 f c = eh_return (True, fde_of mem e a d, cie_of mem ca e)"
    by (simp add: t_def)
  have "\<exists>found fi ci. header_findFDE mem t start len f c = eh_return (found, fi, ci) \<and> (found \<longrightarrow> pcStart fi = t)"
  proof (cases "\<exists>x\<in>set es. entry_covers t x")
    case True
    then obtain ca' e' a' d' where h: "(ca', e', a', d') \<in> set es" "entry_covers t (ca', e', a', d')"
      "header_findFDE mem t start len f c = eh_return (True, fde_of mem e' a' d', cie_of mem ca' e')"
      using header [OF index, of t f c] by (simp only: if_True) blast
    have "\<not> entry_covers (t - 1) (ca', e', a', d')"
      using only [OF index x here h(1)] h(2) by (auto simp: t_def)
    then have "desc_start d' = t" using covers_boundary(2) [OF t] h(2) by blast
    then show ?thesis using h(3) by (simp add: fde_of_def ex_bool_eq)
  next
    case False
    then show ?thesis using header [OF index, of t f c] by (simp only: if_False) blast
  qed
  then show "\<exists>found fi ci. header_findFDE mem (desc_start d + desc_range d) start len f c = eh_return (found, fi, ci) \<and>
      (found \<longrightarrow> pcStart fi = desc_start d + desc_range d)" by (simp only: t_def)
qed

text \<open>C37. Where a header lists the functions of a section, the scan of the section finds for a location what the binary search
  finds for the one before it. So the answers differ at both ends of every function that is not empty: at its first address the
  binary search finds it, and the scan at most a function that ends there; at its end the scan finds it, and the binary search
  at most a function that starts there.\<close>

theorem searches_disagree:
  assumes "indexed mem first stop rs start len hdr width es"
  shows "(\<forall>pc. \<exists>found fi ci. findFDE mem pc first (stop - first) 0 f c = eh_return (found, fi, ci) \<and> (found \<longrightarrow> pc \<noteq> 0) \<and>
      (pc \<noteq> 0 \<longrightarrow> (\<exists>fi' ci'. header_findFDE mem (pc - 1) start len f c = eh_return (found, fi', ci') \<and>
        (found \<longrightarrow> fi' = fi \<and> ci' = ci)))) \<and>
    (\<forall>(ca, e, a, d)\<in>set es. desc_start d < desc_start d + desc_range d \<longrightarrow>
      header_findFDE mem (desc_start d) start len f c = eh_return (True, fde_of mem e a d, cie_of mem ca e) \<and>
      (\<exists>found fi ci. findFDE mem (desc_start d) first (stop - first) 0 f c = eh_return (found, fi, ci) \<and>
        (found \<longrightarrow> pcEnd fi = desc_start d)) \<and>
      findFDE mem (desc_start d + desc_range d) first (stop - first) 0 f c = eh_return (True, fde_of mem e a d, cie_of mem ca e) \<and>
      (\<exists>found fi ci. header_findFDE mem (desc_start d + desc_range d) start len f c = eh_return (found, fi, ci) \<and>
        (found \<longrightarrow> pcStart fi = desc_start d + desc_range d)))"
proof (rule conjI [OF allI ballI])
  fix x
  assume "x \<in> set es"
  moreover obtain ca e a d where "x = (ca, e, a, d)" by (cases x) auto
  ultimately show "case x of (ca, e, a, d) \<Rightarrow> desc_start d < desc_start d + desc_range d \<longrightarrow>
      header_findFDE mem (desc_start d) start len f c = eh_return (True, fde_of mem e a d, cie_of mem ca e) \<and>
      (\<exists>found fi ci. findFDE mem (desc_start d) first (stop - first) 0 f c = eh_return (found, fi, ci) \<and>
        (found \<longrightarrow> pcEnd fi = desc_start d)) \<and>
      findFDE mem (desc_start d + desc_range d) first (stop - first) 0 f c = eh_return (True, fde_of mem e a d, cie_of mem ca e) \<and>
      (\<exists>found fi ci. header_findFDE mem (desc_start d + desc_range d) start len f c = eh_return (found, fi, ci) \<and>
        (found \<longrightarrow> pcStart fi = desc_start d + desc_range d))"
    by (simp only: prod.case) (intro impI conjI at_start [OF assms] at_end [OF assms])
qed (rule scan_behind [OF assms])

text \<open>The first function of the sample, at its ends.\<close>

lemma sample_indexed:
  "indexed header_memory 0x1000 0x1052 [Common sample_cie, Description 0x1000 sample_cie sample_fde,
    Description 0x1000 sample_cie second_fde] 0x1052 28 sample_header 8 sample_table"
proof -
  have "set (entries_from 0x1000 [Common sample_cie, Description 0x1000 sample_cie sample_fde,
    Description 0x1000 sample_cie second_fde]) = set sample_table" by (simp add: sample_sizes second_size sample_table_def)
  then show ?thesis unfolding indexed_def using header_section sample_decoded sample_shows sample_disjoint by simp
qed

theorem searches_disagree_witness:
  "\<forall>f c. header_findFDE header_memory 0x5000 0x1052 28 f c =
      eh_return (True, fde_of header_memory sample_cie 0x1018 sample_fde, cie_of header_memory 0x1000 sample_cie) \<and>
    findFDE header_memory 0x5020 0x1000 0x52 0 f c =
      eh_return (True, fde_of header_memory sample_cie 0x1018 sample_fde, cie_of header_memory 0x1000 sample_cie)"
proof (intro allI)
  fix f c
  have "(0x1000, sample_cie, 0x1018, sample_fde) \<in> set sample_table" "desc_start sample_fde < desc_start sample_fde + desc_range sample_fde"
    by (simp_all add: sample_table_def sample_entries)
  with searches_disagree [OF sample_indexed, of f c]
  have "header_findFDE header_memory (desc_start sample_fde) 0x1052 28 f c =
      eh_return (True, fde_of header_memory sample_cie 0x1018 sample_fde, cie_of header_memory 0x1000 sample_cie) \<and>
    findFDE header_memory (desc_start sample_fde + desc_range sample_fde) 0x1000 (0x1052 - 0x1000) 0 f c =
      eh_return (True, fde_of header_memory sample_cie 0x1018 sample_fde, cie_of header_memory 0x1000 sample_cie)" by blast
  then show "header_findFDE header_memory 0x5000 0x1052 28 f c =
      eh_return (True, fde_of header_memory sample_cie 0x1018 sample_fde, cie_of header_memory 0x1000 sample_cie) \<and>
    findFDE header_memory 0x5020 0x1000 0x52 0 f c =
      eh_return (True, fde_of header_memory sample_cie 0x1018 sample_fde, cie_of header_memory 0x1000 sample_cie)"
    by (simp add: sample_entries)
qed

end
