(* ===== verification/FrameHeaderCache.thy ===== *)
theory FrameHeaderCache
  imports EhHeaderProperties
begin

text \<open>
  The cache of the unwind sections that the unwinder found last (\<open>libunwind/src/FrameHeaderCache.hpp\<close>): eight entries in
  an array, linked into a list of the used ones, the last used first, and a list of the others. A pointer to an entry
  is its index; following a null pointer is undefined behaviour.
\<close>

section \<open>The cache\<close>

text \<open>\<open>UnwindInfoSections\<close> of \<open>AddressSpace.hpp\<close>, for DWARF tables with an index and objects of the dynamic loader.\<close>

record unwind_info_sections =
  dso_base :: u64
  text_segment_length :: u64
  dwarf_section :: u64
  dwarf_section_length :: u64
  dwarf_index_section :: u64
  dwarf_index_section_length :: u64

record cache_entry =
  Info :: unwind_info_sections
  Next :: "nat option"

definition LowPC :: "cache_entry \<Rightarrow> u64" where "LowPC e = dso_base (Info e)"

definition HighPC :: "cache_entry \<Rightarrow> u64" where "HighPC e = dso_base (Info e) + text_segment_length (Info e)"

definition kCacheEntryCount :: nat where "kCacheEntryCount = 8"

text \<open>The static counters of \<open>cacheNeedsReset\<close> are fields too.\<close>

record header_cache =
  Entries :: "nat \<Rightarrow> cache_entry"
  MostRecentlyUsed :: "nat option"
  Unused :: "nat option"
  LastAdds :: u64
  LastSubs :: u64

definition set_next :: "nat \<Rightarrow> nat option \<Rightarrow> header_cache \<Rightarrow> header_cache" where
  "set_next i p c = c\<lparr>Entries := (Entries c)(i := (Entries c i)\<lparr>Next := p\<rparr>)\<rparr>"

definition set_info :: "nat \<Rightarrow> unwind_info_sections \<Rightarrow> header_cache \<Rightarrow> header_cache" where
  "set_info i x c = c\<lparr>Entries := (Entries c)(i := (Entries c i)\<lparr>Info := x\<rparr>)\<rparr>"

definition resetCache :: "header_cache \<Rightarrow> header_cache" where
  "resetCache c =
     (let c = c\<lparr>MostRecentlyUsed := None, Unused := Some 0\<rparr>;
        c = fold (\<lambda>i. set_next i (Some (i + 1))) [0..<kCacheEntryCount - 1] c in
      set_next (kCacheEntryCount - 1) None c)"

definition cacheNeedsReset :: "u64 \<Rightarrow> u64 \<Rightarrow> header_cache \<Rightarrow> bool \<times> header_cache" where
  "cacheNeedsReset adds subs c =
     (if adds \<noteq> LastAdds c \<or> subs \<noteq> LastSubs c then (True, resetCache (c\<lparr>LastAdds := adds, LastSubs := subs\<rparr>))
      else (False, c))"

text \<open>The loop of \<open>find\<close> at \<open>Current\<close>.\<close>

partial_function (option) find_entry ::
  "u64 \<Rightarrow> nat option \<Rightarrow> nat option \<Rightarrow> header_cache \<Rightarrow> (unwind_info_sections option \<times> header_cache) dw" where
  "find_entry targetAddr Current Previous c = (case Current of
     None \<Rightarrow> eh_return (None, c)
   | Some i \<Rightarrow>
       if LowPC (Entries c i) \<le> targetAddr \<and> targetAddr < HighPC (Entries c i)
       then
         let c' = (case Previous of None \<Rightarrow> c
           | Some p \<Rightarrow> (set_next i (MostRecentlyUsed c) (set_next p (Next (Entries c i)) c))\<lparr>MostRecentlyUsed := Some i\<rparr>) in
         eh_return (Some (Info (Entries c' i)), c')
       else find_entry targetAddr (Next (Entries c i)) (Some i) c)"

definition find_cached :: "u64 \<Rightarrow> u64 \<Rightarrow> u64 \<Rightarrow> header_cache \<Rightarrow> (unwind_info_sections option \<times> header_cache) dw" where
  "find_cached adds subs targetAddr c =
     (let (needs_reset, c) = cacheNeedsReset adds subs c in
      if needs_reset \<or> MostRecentlyUsed c = None then eh_return (None, c)
      else find_entry targetAddr (MostRecentlyUsed c) None c)"

text \<open>The loop of \<open>add\<close> to the last entry, with the one before it.\<close>

partial_function (option) last_entry :: "header_cache \<Rightarrow> nat \<Rightarrow> nat option \<Rightarrow> (nat \<times> nat option) dw" where
  "last_entry c Current Previous = (case Next (Entries c Current) of
     None \<Rightarrow> eh_return (Current, Previous) | Some n \<Rightarrow> last_entry c n (Some Current))"

definition follow_pointer :: "nat option \<Rightarrow> nat dw" where
  "follow_pointer p = (case p of None \<Rightarrow> eh_stop Undefined | Some i \<Rightarrow> eh_return i)"

definition add_entry :: "unwind_info_sections \<Rightarrow> header_cache \<Rightarrow> header_cache dw" where
  "add_entry UIS c =
     eh_bind (case Unused c of
        Some i \<Rightarrow> eh_return (i, c\<lparr>Unused := Next (Entries c i)\<rparr>)
      | None \<Rightarrow> eh_bind (follow_pointer (MostRecentlyUsed c)) (\<lambda>first.
          eh_bind (last_entry c first None) (\<lambda>(Current, Previous).
          eh_bind (follow_pointer Previous) (\<lambda>p. eh_return (Current, set_next p None c)))))
       (\<lambda>(Current, c).
         eh_return ((set_next Current (MostRecentlyUsed c) (set_info Current UIS c))\<lparr>MostRecentlyUsed := Some Current\<rparr>))"

text \<open>Before the first use: the entries of a static object are zero.\<close>

definition zero_sections :: unwind_info_sections where
  "zero_sections = \<lparr>dso_base = 0, text_segment_length = 0, dwarf_section = 0, dwarf_section_length = 0, dwarf_index_section = 0,
     dwarf_index_section_length = 0\<rparr>"

definition initial_cache :: header_cache where
  "initial_cache = \<lparr>Entries = (\<lambda>i. \<lparr>Info = zero_sections, Next = None\<rparr>), MostRecentlyUsed = None, Unused = None,
     LastAdds = - 1, LastSubs = - 1\<rparr>"

section \<open>Lists of recently used sections\<close>

text \<open>What the cache stands for: sections in the order of their last use. A hit moves one to the front; a new one drops
  the last when there are eight.\<close>

definition has_address :: "u64 \<Rightarrow> unwind_info_sections \<Rightarrow> bool" where
  "has_address a x \<longleftrightarrow> dso_base x \<le> a \<and> a < dso_base x + text_segment_length x"

fun recent_find :: "u64 \<Rightarrow> unwind_info_sections list \<Rightarrow> (unwind_info_sections \<times> unwind_info_sections list) option" where
  "recent_find a [] = None"
| "recent_find a (x # xs) =
     (if has_address a x then Some (x, x # xs)
      else map_option (\<lambda>(y, ys). (y, y # x # tl ys)) (recent_find a xs))"

definition recent_add :: "unwind_info_sections \<Rightarrow> unwind_info_sections list \<Rightarrow> unwind_info_sections list" where
  "recent_add x xs = x # take (kCacheEntryCount - 1) xs"

text \<open>The entries from a pointer to another.\<close>

fun entry_chain :: "(nat \<Rightarrow> nat option) \<Rightarrow> nat option \<Rightarrow> nat list \<Rightarrow> nat option \<Rightarrow> bool" where
  "entry_chain h p [] q \<longleftrightarrow> p = q"
| "entry_chain h p (i # is) q \<longleftrightarrow> p = Some i \<and> entry_chain h (h i) is q"

definition links :: "header_cache \<Rightarrow> nat \<Rightarrow> nat option" where "links c i = Next (Entries c i)"

definition sections_of :: "header_cache \<Rightarrow> nat \<Rightarrow> unwind_info_sections" where "sections_of c i = Info (Entries c i)"

definition lists_shown :: "header_cache \<Rightarrow> nat list \<Rightarrow> nat list \<Rightarrow> bool" where
  "lists_shown c used free \<longleftrightarrow> entry_chain (links c) (MostRecentlyUsed c) used None \<and> entry_chain (links c) (Unused c) free None \<and>
     distinct (used @ free) \<and> set (used @ free) = {..<kCacheEntryCount}"

definition shows_recent :: "header_cache \<Rightarrow> unwind_info_sections list \<Rightarrow> bool" where
  "shows_recent c xs \<longleftrightarrow> (\<exists>used free. lists_shown c used free \<and> xs = map (sections_of c) used)"

lemma chain_append [simp]: "entry_chain h p (is @ js) q \<longleftrightarrow> (\<exists>r. entry_chain h p is r \<and> entry_chain h r js q)"
  by (induction "is" arbitrary: p) auto

lemma chain_upd [simp]: "i \<notin> set is \<Longrightarrow> entry_chain (h(i := r)) p is q = entry_chain h p is q"
  by (induction "is" arbitrary: p) auto

lemma entry_updates [simp]:
  "MostRecentlyUsed (set_next i p c) = MostRecentlyUsed c" "Unused (set_next i p c) = Unused c"
  "LastAdds (set_next i p c) = LastAdds c" "LastSubs (set_next i p c) = LastSubs c"
  "MostRecentlyUsed (set_info i x c) = MostRecentlyUsed c" "Unused (set_info i x c) = Unused c"
  "LastAdds (set_info i x c) = LastAdds c" "LastSubs (set_info i x c) = LastSubs c"
  "links (set_next i p c) = (links c)(i := p)" "sections_of (set_next i p c) = sections_of c"
  "links (set_info i x c) = links c" "sections_of (set_info i x c) = (sections_of c)(i := x)"
  "links (c\<lparr>MostRecentlyUsed := p\<rparr>) = links c" "links (c\<lparr>Unused := p\<rparr>) = links c"
  "sections_of (c\<lparr>MostRecentlyUsed := p\<rparr>) = sections_of c" "sections_of (c\<lparr>Unused := p\<rparr>) = sections_of c"
  by (auto simp: set_next_def set_info_def links_def sections_of_def)

section \<open>Searching\<close>

lemma entry_has: "LowPC (Entries c i) \<le> a \<and> a < HighPC (Entries c i) \<longleftrightarrow> has_address a (sections_of c i)"
  by (simp add: LowPC_def HighPC_def has_address_def sections_of_def)

text \<open>The entry found is moved to the front.\<close>

definition moved :: "nat \<Rightarrow> nat option \<Rightarrow> header_cache \<Rightarrow> header_cache" where
  "moved i Previous c = (case Previous of None \<Rightarrow> c
     | Some p \<Rightarrow> (set_next i (MostRecentlyUsed c) (set_next p (links c i) c))\<lparr>MostRecentlyUsed := Some i\<rparr>)"

lemma find_entry_step: "find_entry a (Some i) prev c =
    (if has_address a (sections_of c i) then eh_return (Some (sections_of c i), moved i prev c)
     else find_entry a (links c i) (Some i) c)"
proof -
  have "sections_of (moved i prev c) = sections_of c" by (simp add: moved_def split: option.splits)
  then show ?thesis
    by (subst find_entry.simps) (simp add: entry_has moved_def [symmetric, unfolded links_def] Let_def links_def sections_of_def fun_eq_iff)
qed

lemma find_entry_miss:
  "entry_chain (links c) p is None \<Longrightarrow> \<forall>i\<in>set is. \<not> has_address a (sections_of c i) \<Longrightarrow> find_entry a p prev c = eh_return (None, c)"
proof (induction "is" arbitrary: p prev)
  case Nil
  then show ?case by (subst find_entry.simps) simp
next
  case (Cons i "is")
  then show ?case by (simp add: find_entry_step)
qed

lemma find_entry_hit:
  "entry_chain (links c) p is (Some j) \<Longrightarrow> \<forall>i\<in>set is. \<not> has_address a (sections_of c i) \<Longrightarrow> has_address a (sections_of c j) \<Longrightarrow>
    find_entry a p prev c = eh_return (Some (sections_of c j), moved j (if is = [] then prev else Some (last is)) c)"
proof (induction "is" arbitrary: p prev)
  case Nil
  then show ?case by (simp add: find_entry_step)
next
  case (Cons i "is")
  then show ?case by (simp add: find_entry_step)
qed

lemma recent_find_miss: "\<forall>x\<in>set xs. \<not> has_address a x \<Longrightarrow> recent_find a xs = None"
  by (induction xs) auto

lemma recent_find_hit:
  "\<forall>x\<in>set xs. \<not> has_address a x \<Longrightarrow> has_address a y \<Longrightarrow> recent_find a (xs @ y # ys) = Some (y, y # xs @ ys)"
  by (induction xs) auto

lemma moved_lists:
  assumes "lists_shown c (is @ j # js) free" "is \<noteq> []"
  shows "lists_shown (moved j (Some (last is)) c) (j # is @ js) free"
proof -
  obtain ks k where "is": "is = ks @ [k]" using assms(2) by (metis rev_exhaust)
  show ?thesis using assms(1) unfolding lists_shown_def moved_def "is" by (auto simp: fun_upd_twist)
qed

lemma find_entry_recent:
  assumes "shows_recent c xs"
  shows "\<exists>c'. find_entry a (MostRecentlyUsed c) None c = eh_return (map_option fst (recent_find a xs), c') \<and>
    shows_recent c' (case recent_find a xs of None \<Rightarrow> xs | Some (y, ys) \<Rightarrow> ys) \<and> LastAdds c' = LastAdds c \<and> LastSubs c' = LastSubs c"
proof -
  obtain used free where l: "lists_shown c used free" "xs = map (sections_of c) used" using assms by (auto simp: shows_recent_def)
  show ?thesis
  proof (cases "\<exists>i\<in>set used. has_address a (sections_of c i)")
    case False
    then have "recent_find a xs = None" using l(2) by (intro recent_find_miss) auto
    moreover have "find_entry a (MostRecentlyUsed c) None c = eh_return (None, c)"
      using l(1) False by (intro find_entry_miss [of _ _ used]) (auto simp: lists_shown_def)
    ultimately show ?thesis using assms by simp
  next
    case True
    then obtain "is" j js where used: "used = is @ j # js" "\<forall>i\<in>set is. \<not> has_address a (sections_of c i)" "has_address a (sections_of c j)"
      using split_list_first_prop [OF True] by auto
    let ?c = "moved j (if is = [] then None else Some (last is)) c"
    have "find_entry a (MostRecentlyUsed c) None c = eh_return (Some (sections_of c j), ?c)"
      using l(1) used by (intro find_entry_hit) (auto simp: lists_shown_def)
    moreover have "recent_find a xs = Some (sections_of c j, map (sections_of c) (j # is @ js))"
      unfolding l(2) used(1) using used(2,3) recent_find_hit [of "map (sections_of c) is" a] by simp
    moreover have "lists_shown ?c (j # is @ js) free"
    proof (cases "is = []")
      case True
      then show ?thesis using l(1) used(1) by (simp add: moved_def)
    next
      case False
      then show ?thesis using moved_lists [of c "is" j js free] l(1) used(1) by simp
    qed
    then have "shows_recent ?c (map (sections_of ?c) (j # is @ js))" unfolding shows_recent_def by blast
    moreover have "sections_of ?c = sections_of c" "LastAdds ?c = LastAdds c" "LastSubs ?c = LastSubs c" by (simp_all add: moved_def)
    ultimately show ?thesis by simp
  qed
qed

lemma reset_recent: "shows_recent (resetCache c) [] \<and> LastAdds (resetCache c) = LastAdds c \<and> LastSubs (resetCache c) = LastSubs c"
proof -
  have "lists_shown (resetCache c) [] [0..<8]"
    by (auto simp: lists_shown_def resetCache_def kCacheEntryCount_def Let_def upt_rec)
  then show ?thesis by (auto simp: shows_recent_def resetCache_def kCacheEntryCount_def Let_def upt_rec)
qed

text \<open>A search after no change of the loaded objects, and after a change.\<close>

lemma find_cached_recent:
  assumes "shows_recent c xs" "adds = LastAdds c" "subs = LastSubs c"
  shows "\<exists>c'. find_cached adds subs a c = eh_return (map_option fst (recent_find a xs), c') \<and>
    shows_recent c' (case recent_find a xs of None \<Rightarrow> xs | Some (y, ys) \<Rightarrow> ys) \<and> LastAdds c' = adds \<and> LastSubs c' = subs"
proof (cases "MostRecentlyUsed c")
  case None
  have "xs = []"
  proof -
    obtain used free where l: "lists_shown c used free" "xs = map (sections_of c) used" using assms by (auto simp: shows_recent_def)
    then show ?thesis using None by (cases used) (auto simp: lists_shown_def)
  qed
  then show ?thesis using assms None by (simp add: find_cached_def cacheNeedsReset_def)
next
  case (Some i)
  then show ?thesis using find_entry_recent [OF assms(1), of a] assms(2,3) by (simp add: find_cached_def cacheNeedsReset_def)
qed

lemma find_cached_reset:
  assumes "adds \<noteq> LastAdds c \<or> subs \<noteq> LastSubs c"
  shows "\<exists>c'. find_cached adds subs a c = eh_return (None, c') \<and> shows_recent c' [] \<and> LastAdds c' = adds \<and> LastSubs c' = subs"
  using assms reset_recent [of "c\<lparr>LastAdds := adds, LastSubs := subs\<rparr>"] by (simp add: find_cached_def cacheNeedsReset_def)

section \<open>Adding\<close>

lemma two_last: "length xs = Suc (Suc n) \<Longrightarrow> \<exists>ys y z. xs = ys @ [y, z]"
  by (cases xs rule: rev_cases; cases "butlast xs" rule: rev_cases) auto

lemma shows_recentI: "lists_shown c used free \<Longrightarrow> map (sections_of c) used = xs \<Longrightarrow> shows_recent c xs"
  unfolding shows_recent_def by blast

lemma last_entry_chain: "entry_chain (links c) (Some i) (is @ [j]) None \<Longrightarrow>
    last_entry c i prev = eh_return (j, if is = [] then prev else Some (last is))"
proof (induction "is" arbitrary: i prev)
  case Nil
  then show ?case by (subst last_entry.simps) (simp add: links_def)
next
  case (Cons k "is")
  then have "entry_chain (links c) (links c i) (is @ [j]) None" "k = i" by simp_all
  moreover from this obtain n where "links c i = Some n" by (cases "is") auto
  ultimately show ?case using Cons.IH [of n "Some i"] by (subst last_entry.simps) (simp add: links_def [symmetric])
qed

lemma add_entry_recent:
  assumes "shows_recent c xs"
  shows "\<exists>c'. add_entry x c = eh_return c' \<and> shows_recent c' (recent_add x xs) \<and> LastAdds c' = LastAdds c \<and> LastSubs c' = LastSubs c"
proof -
  obtain used free where l: "lists_shown c used free" "xs = map (sections_of c) used" using assms by (auto simp: shows_recent_def)
  then have "card (set (used @ free)) = 8" "distinct (used @ free)" by (simp_all add: lists_shown_def kCacheEntryCount_def)
  then have count: "length used + length free = 8" using distinct_card [of "used @ free"] by simp
  show ?thesis
  proof (cases free)
    case (Cons i is')
    let ?c = "(set_next i (MostRecentlyUsed c) (set_info i x (c\<lparr>Unused := links c i\<rparr>)))\<lparr>MostRecentlyUsed := Some i\<rparr>"
    have "add_entry x c = eh_return ?c" using l(1) Cons by (simp add: add_entry_def lists_shown_def links_def)
    moreover have "lists_shown ?c (i # used) is'" using l(1) Cons by (auto simp: lists_shown_def)
    moreover have "map (sections_of ?c) (i # used) = recent_add x xs"
      using l count Cons by (auto simp: recent_add_def kCacheEntryCount_def lists_shown_def)
    ultimately show ?thesis using shows_recentI by (intro exI [of _ ?c] conjI) simp_all
  next
    case Nil
    with count have "length used = Suc (Suc 6)" by simp
    then obtain "is" k j where used: "used = is @ [k, j]" using two_last by blast
    obtain p where p: "MostRecentlyUsed c = Some p" using l(1) used by (cases "is") (auto simp: lists_shown_def)
    have last: "last_entry c p None = eh_return (j, Some k)"
      using last_entry_chain [of c p "is @ [k]" j None] l(1) p used by (simp add: lists_shown_def)
    let ?c = "(set_next j (Some p) (set_info j x (set_next k None c)))\<lparr>MostRecentlyUsed := Some j\<rparr>"
    have "add_entry x c = eh_return ?c" using l(1) Nil p last by (simp add: add_entry_def lists_shown_def follow_pointer_def)
    moreover have "lists_shown ?c (j # is @ [k]) []" using l(1) Nil used p by (auto simp: lists_shown_def)
    moreover have "map (sections_of ?c) (j # is @ [k]) = recent_add x xs"
      using l count Nil used by (auto simp: recent_add_def kCacheEntryCount_def lists_shown_def)
    ultimately show ?thesis using shows_recentI by (intro exI [of _ ?c] conjI) simp_all
  qed
qed

end
