(* ===== verification/Spec2Isabelle.thy ===== *)
theory Spec2Isabelle
  imports FallbackMalloc Facets UnwindProperties GuardProperties EhProperties MdspanProperties NextPrimeProperties CatchProperties CastProperties
    DwarfProperties ExceptionProperties BarrierProperties ArrayProperties EhHeaderProperties FrameHeaderCache
begin

text \<open>
  A verification library for libhipcxx: parts of the C++ ABI library (\<open>libcxxabi/src\<close>), of the unwinder
  (\<open>libunwind/src\<close>), of the standard library's sources (\<open>libcxx/src\<close>) and of its headers
  (\<open>include/hip/std/detail/libcxx/include\<close>). Paths are relative to \<open>src/\<close>.

  \<^bold>\<open>Parts and how they interact.\<close>

  \<^item> \<^emph>\<open>Emergency heap\<close> (\<open>libcxxabi/src/fallback_malloc.cpp\<close>; theories \<open>BlockAllocator\<close>, \<open>FallbackMalloc\<close>). The
    512-byte heap from which exception objects are allocated when \<open>malloc\<close> fails. The state is the array of nodes and
    the head of the free list, addressed by offsets as in the code; \<open>fallback_malloc\<close> and \<open>fallback_free\<close> walk the
    list as \<open>malloc_walk\<close> and \<open>free_walk\<close>. The C allocation functions are parameters. The locale
    \<open>block_allocator\<close> states what a client relies on; it is interpreted on the model.

  \<^item> \<^emph>\<open>UTF conversions and codecvt facets\<close> (\<open>libcxx/src/locale.cpp\<close>; \<open>CodecvtLoops\<close>, \<open>Utf\<close>, \<open>Unicode\<close>,
    \<open>UtfCorrect\<close>, \<open>UtfBytes\<close>, \<open>Facets\<close>). One definition per conversion routine, its loop body apart
    (\<open>..._body\<close>), and records with the members of the facet classes. Output space is a count of units, and the
    input and output pointers are the remaining input and the written output. \<open>Unicode\<close> has the reference encoders.

  \<^item> \<^emph>\<open>Unwinders\<close> (\<open>libunwind/src/UnwindLevel1.c\<close>, \<open>UnwindLevel1-gcc-ext.c\<close>, \<open>Unwind-sjlj.c\<close>; \<open>Unwind\<close>,
    \<open>UnwindSjlj\<close>, \<open>TwoPhase\<close>, \<open>UnwindProperties\<close>). The two phases, forced unwinding, resuming, backtraces and the
    accessors. The cursor is an abstract type with its operations in a record of functions; personality routines and
    stop functions are functions on the state and may change it; walks over frames are partial functions into
    \<open>option\<close>, where \<open>None\<close> means that the walk does not end.

  \<^item> \<^emph>\<open>Personality routine\<close> (\<open>libcxxabi/src/cxa_personality.cpp\<close>; \<open>EhTable\<close>, \<open>Personality\<close>, \<open>EhSpec\<close>,
    \<open>EhProperties\<close>). What a frame of C++ code answers to the unwinder: it reads the table of the function from memory
    (LEB128 numbers, encoded pointers, call sites, actions, exception specifications) and decides between a handler,
    a cleanup and going on. Ending the program is a value of the result type. \<open>EhSpec\<close> describes well-formed tables
    and what they mean. \<open>can_catch\<close>, a virtual function of type information, is a parameter.

  \<^item> \<^emph>\<open>Guards of function-local statics\<close> (\<open>libcxxabi/src/cxa_guard_impl.h\<close>; \<open>GuardProtocol\<close>, \<open>FutexGuard\<close>,
    \<open>MutexGuard\<close>, \<open>GuardProperties\<close>). The three implementations: without threads as functions, with a global mutex
    and with a futex as transition systems, where every access to shared memory and every blocking call is a step of
    one thread. Threads are unbounded in number where the code reads no thread identifier and are their non-zero
    32-bit identifiers where it does. Memory is sequentially consistent. The locale \<open>once_guard\<close> states the protocol
    that both threaded implementations follow and is interpreted on both.

  \<^item> \<^emph>\<open>mdspan\<close> (\<open>__mdspan/*.h\<close>; \<open>Extents\<close>, \<open>Layouts\<close>, \<open>Submdspan\<close>, \<open>MdspanProperties\<close>). Template parameter
    packs are lists, the index type is a word of any width whose arithmetic wraps. The locale \<open>unique_mapping\<close>
    states what a layout promises and is interpreted on the mapping of the three layouts.

  \<^item> \<^emph>\<open>Hash table sizes\<close> (\<open>libcxx/src/hash.cpp\<close>; \<open>Primality\<close>, \<open>NextPrime\<close>, \<open>NextPrimeProperties\<close>).
    \<open>__next_prime\<close> on 64-bit words: a binary search in a table, then a walk over the numbers prime to 210, each tried
    by division. \<open>Primality\<close> has what the proof needs of number theory, with Pocklington's criterion for the
    largest 64-bit prime.

  \<^item> \<^emph>\<open>Run-time type information\<close> (\<open>libcxxabi/src/private_typeinfo.cpp\<close>; \<open>TypeInfo\<close>, \<open>DynamicCast\<close>,
    \<open>BaseGraph\<close>, \<open>CatchProperties\<close>, \<open>SearchAbove\<close>, \<open>CastProperties\<close>). The kinds of type information are the
    constructors of a datatype; \<open>can_catch\<close> and \<open>__dynamic_cast\<close> search the tree of base classes recursively,
    reading the offsets of virtual bases from memory and threading the search state. \<open>BaseGraph\<close> describes the
    subobjects of a class by the paths to them; the searches are compared with it.

  \<^item> \<^emph>\<open>DWARF unwinding\<close> on x86-64 (\<open>libunwind/src/AddressSpace.hpp\<close>, \<open>DwarfParser.hpp\<close>, \<open>DwarfInstructions.hpp\<close>,
    \<open>Registers.hpp\<close>; \<open>AddressSpace\<close>, \<open>DwarfCfi\<close>, \<open>RegistersX86_64\<close>, \<open>DwarfExpression\<close>, \<open>DwarfStep\<close>). The readers of
    integers and encoded pointers, the records of an unwind section, the interpreter of call frame instructions, the
    stack machine of expressions and the step from a frame to its caller. Memory is a function from 64-bit addresses to
    bytes, so reads do not fault; aborts, failed assertions and undefined behaviour are values of the result type, and
    what the code leaves uninitialized is a parameter. \<open>CfiSpec\<close> has the table of rows of the DWARF standard,
    \<open>ExpressionProperties\<close> expressions with a value and their compilation, \<open>CfiEntry\<close> the records as data with their
    bytes, \<open>CfiSafety\<close> what holds for any bytes; \<open>DwarfProperties\<close> has the properties and a sample section.

  \<^item> \<^emph>\<open>Headers of unwind sections and their cache\<close> (\<open>libunwind/src/EHHeaderParser.hpp\<close>, \<open>FrameHeaderCache.hpp\<close>;
    \<open>EhHeader\<close>, \<open>EhHeaderProperties\<close>, \<open>FrameHeaderCache\<close>). The binary search in the table of the header for the
    description of a location, over the readers and the records of the part above, whose scan of the section it replaces; and
    the eight sections that were used last, in an array with two lists of indices, with their refinement to the list of the
    sections in the order of use.

  \<^item> \<^emph>\<open>Exception objects\<close> (\<open>libcxxabi/src/cxa_exception.cpp\<close>, \<open>cxa_exception_storage.cpp\<close>, \<open>cxa_handlers.cpp\<close>,
    \<open>libcxx/src/support/runtime/exception_pointer_cxxabi.ipp\<close>; \<open>ExceptionObjects\<close>, \<open>ExceptionStack\<close>, \<open>ExceptionSteps\<close>,
    \<open>ExceptionProperties\<close>). What the compiler calls to throw, enter and leave handlers and rethrow, and
    \<open>std::exception_ptr\<close> over it. The headers of the exceptions are a function of their addresses, linked by these as
    in the code, with the counts of references as 64-bit words; the count of handlers, an \<open>int\<close> of the code, is not
    bounded. Memory comes from a parameter, the emergency heap in the program, and so does the unwinder. \<open>ExceptionStack\<close>
    has the specification, a stack of contexts that share exceptions, and the relation to the state of the code; the
    locale \<open>simulation\<close> lifts the steps to runs.

  \<^item> \<^emph>\<open>Barriers\<close> (\<open>include/hip/std/detail/libcxx/include/barrier\<close>, in the build without the tree barrier that
    \<open>hip/std/detail/__config\<close> selects for devices; \<open>PhaseBarrier\<close>, \<open>PackedBarrier\<close>, \<open>CentralBarrier\<close>,
    \<open>BarrierProperties\<close>). The barrier that is packed into one word and the one with a completion function, as transition
    systems like the guards, on 64-bit words; \<open>Schedules\<close> has the executions of all of them. A finite set of members arrives,
    waits and, where the code allows it, drops out; the number of arrivals of each member is kept for the statements. The
    locale \<open>phase_barrier\<close> states what both promise and is interpreted on both.

  \<^item> \<^emph>\<open>Arrays\<close> (\<open>libcxxabi/src/cxa_vector.cpp\<close>; \<open>ArrayConstruction\<close>, \<open>ArrayProperties\<close>). The routines that the
    compiler calls for new and delete of arrays and for arrays as members. Calls of constructors, destructors and
    allocation functions are recorded as events, and parameters tell which of them throw; the scope guards of the code are
    the branches for exceptions.

  \<^bold>\<open>What the lemmas show.\<close> Each \<open>...Properties\<close> theory, and the last sections of \<open>FallbackMalloc\<close> and \<open>Facets\<close>, hold
  the properties, each marked with its number. In short: live blocks of the heap stay disjoint along every run outside
  the one defective branch, which is shown to corrupt the heap; the facets answer \<open>ok\<close> exactly on well-formed text,
  their round trips hold, their lengths agree and their bounds are right, and the places where they disagree are shown
  with inputs; raising an exception reaches exactly the catching frame after running the cleanups before it, both
  unwinders make the same calls, and forced unwinding visits every frame; the personality routine finds the handler
  the tables describe, in both phases the same; an initializer runs once, no waiting thread is forgotten and recursion
  is detected exactly; a handler for a class catches exactly its unambiguous public derived classes, with the places
  shown where an ambiguous one is caught; \<open>__dynamic_cast\<close> computes what its comment promises; the DWARF unwinder reads
  records as they were written, finds the first description for a location, computes the row of the standard's table
  and the values of expressions, and steps to the registers of the caller, outside \<open>DW_CFA_set_loc\<close>,
  restores of registers that the entry gives a rule and a frame address in register 0, and names registers inside the array whatever the bytes are; throwing and catching refine the stack of contexts, and
  every exception is destroyed once, when nothing refers to it, except after a rethrow inside a rethrow; nobody passes a barrier before all have arrived, its members are never
  all blocked as long as none drops out, and the completion function runs once between two phases, with a race shown for members that drop out of
  the packed barrier; arrays are constructed as a whole or not at all, and deleted as a whole, up to the second exception, which ends the program;
  the binary search of a header finds the function that has a location, and the scan of the section that of the location before; offsets of \<open>mdspan\<close> are unique and inside
  the span, and slices are the parts of the source they name; the next bucket count is the least prime that is large enough, and overflow is reported in time.

  \<^bold>\<open>Bounds.\<close> No fuel is used. Loops of the code are structural recursion, recursion with a proved measure, or partial
  functions into \<open>option\<close> whose termination is part of the theorems about them. LEB128 numbers are at most ten bytes
  long, as 64 bits need no more; the heap has the constant size of the code. Expressions use at most 98 of the 100
  entries of the stack of the code, as one holds the initial value and one is never used.

  \<^bold>\<open>Not modelled.\<close> Memory orders weaker than sequential consistency; tracing and debug output; the variants for ARM
  EHABI, Windows and Apple; registers of other processors, floating point and vector registers, and the cursor, which
  asks the dynamic loader for the tables; several threads that share one exception; the demangler; the file system, streams,
  threads and other sources that mostly forward to the operating system; headers that are declarations or compile-time
  metaprograms; generated device assembly.

  \<^bold>\<open>Plan.\<close> Next: the cache of descriptions and the cursor that chooses between the searches; the composition of the unwinder with the
  personality routine; the lexical path parser; the core of the demangler.
\<close>

end
